(* ===== verification/Prelude.thy ===== *)
theory Prelude
  imports Main "HOL-Library.Word" "HOL-Library.AList"
begin

text \<open>
  Shared ground of the development: the machine types, the error and message values, the
  contexts that cancel work, the error-and-state computations in which the readers are
  written, the standard library's binary search, and the lemmas on lists and words that
  several components use.
\<close>

unbundle bit_operations_syntax

section \<open>Machine types\<close>

text \<open>
  Go's \<open>uint64\<close>, \<open>int64\<close> and \<open>uint32\<close> are words of their width; \<open>int64\<close> is read with
  \<open>sint\<close>. A Go string is a sequence of bytes, which is what a list of characters is.
\<close>

type_synonym u64 = "64 word"
type_synonym i64 = "64 word"
type_synonym u32 = "32 word"
type_synonym byte = "8 word"

abbreviation max_uint64 :: u64 where
  "max_uint64 \<equiv> 0xFFFFFFFFFFFFFFFF"

abbreviation max_int64 :: u64 where
  "max_int64 \<equiv> 0x7FFFFFFFFFFFFFFF"

lemma max_uint64_ge [simp]: "x \<le> max_uint64"
proof -
  have "(max_uint64 :: u64) = - 1" by simp
  then show ?thesis by (metis word_n1_ge)
qed

lemma unat_max_minus: "unat (max_uint64 - x) = 2 ^ 64 - 1 - unat x"
  using unat_sub [OF max_uint64_ge [of x]] by simp

text \<open>The guard \<open>b > math.MaxUint64 - a\<close> is the test for a carry out of \<open>a + b\<close>.\<close>

lemma carry_iff: "max_uint64 - a < b \<longleftrightarrow> 2 ^ 64 \<le> unat a + unat b"
  unfolding word_less_nat_alt unat_max_minus
  using unsigned_less [of a, where ?'a = nat] by auto

lemma unat_add_no_carry: "unat a + unat b < 2 ^ 64 \<Longrightarrow> unat (a + b :: u64) = unat a + unat b"
  using unat_add_lem [of a b] by simp

text \<open>How \<open>int64\<close> reads the same 64 bits.\<close>

lemma sint_cases: "sint (x :: i64) = (if unat x < 2 ^ 63 then int (unat x) else int (unat x) - 2 ^ 64)"
proof -
  have b: "uint x < 2 ^ 64" "0 \<le> uint x" using unsigned_less [of x, where ?'a = int] by simp_all
  have s: "sint x = (uint x + 2 ^ 63) mod 2 ^ 64 - 2 ^ 63"
    by (simp add: sint_uint signed_take_bit_eq_take_bit_shift take_bit_eq_mod)
  have u: "int (unat x) = uint x" by simp
  have iff: "unat x < 2 ^ 63 \<longleftrightarrow> uint x < 2 ^ 63"
    unfolding of_nat_less_iff [symmetric, where 'a = int] u by simp
  show ?thesis
  proof (cases "uint x < 2 ^ 63")
    case True
    then have "(uint x + 2 ^ 63) mod 2 ^ 64 = uint x + 2 ^ 63" using b by (intro mod_pos_pos_trivial) simp_all
    then show ?thesis unfolding s iff u using True by simp
  next
    case False
    have "(uint x + 2 ^ 63) mod 2 ^ 64 = (uint x + 2 ^ 63 - 2 ^ 64) mod 2 ^ 64"
      by (rule minus_mod_self2 [symmetric])
    also have "\<dots> = uint x + 2 ^ 63 - 2 ^ 64" using False b by (intro mod_pos_pos_trivial) simp_all
    finally have m: "(uint x + 2 ^ 63) mod 2 ^ 64 = uint x + 2 ^ 63 - 2 ^ 64" .
    show ?thesis unfolding s iff u m using False by simp
  qed
qed

definition string_of_bytes :: "byte list \<Rightarrow> string" where
  "string_of_bytes bs = map (\<lambda>b. char_of (unat b)) bs"

definition bytes_of_string :: "string \<Rightarrow> byte list" where
  "bytes_of_string s = map (\<lambda>c. word_of_nat (of_char c)) s"

lemma length_string_of_bytes [simp]: "length (string_of_bytes bs) = length bs"
  by (simp add: string_of_bytes_def)

lemma length_bytes_of_string [simp]: "length (bytes_of_string s) = length s"
  by (simp add: bytes_of_string_def)

lemma unat_byte_of_char [simp]: "unat (word_of_nat (of_char c) :: byte) = of_char c"
proof -
  have "of_char c < (256 :: nat)" by simp
  then show ?thesis by (simp add: unsigned_of_nat take_bit_nat_eq_self)
qed

lemma string_of_bytes_of_string [simp]: "string_of_bytes (bytes_of_string s) = s"
  by (simp add: string_of_bytes_def bytes_of_string_def comp_def)

section \<open>Messages and errors\<close>

text \<open>
  The text that \<open>fmt.Sprintf\<close> and \<open>fmt.Errorf\<close> build is kept as the format string with its
  arguments; only its rendering is left out. \<open>Wrapf m e\<close> is \<open>fmt.Errorf(\<open>m\<close> + ": %w", e)\<close>.
  \<open>EOF\<close> and \<open>UnexpectedEOF\<close> are the sentinels of package \<open>io\<close>, \<open>Canceled\<close> and
  \<open>DeadlineExceeded\<close> those of package \<open>context\<close>, and \<open>DeviceError\<close> is any other error of
  a file or a stream.
\<close>

datatype fmt_arg = FU u64 | FI int | FS string | FM message
  and message = Fmt string "fmt_arg list"

datatype go_error =
    EOF
  | UnexpectedEOF
  | Canceled
  | DeadlineExceeded
  | DeviceError nat
  | Errorf message
  | Wrapf message go_error

section \<open>Association lists\<close>

lemma set_update_subset: "set (AList.update k v al) \<subseteq> insert (k, v) (set al)"
  by (induction al) auto

section \<open>Contexts\<close>

text \<open>
  A context is seen by the code only through \<open>ctx.Err()\<close>, which returns nil until the
  context is done and the same error from then on. \<open>Expires n e\<close> answers the next \<open>n\<close> polls
  with nil and every later one with \<open>e\<close>; \<open>Background\<close> is never done.
\<close>

datatype ctx = Background | Expires nat go_error

fun ctx_err :: "ctx \<Rightarrow> go_error option \<times> ctx" where
  "ctx_err Background = (None, Background)"
| "ctx_err (Expires 0 e) = (Some e, Expires 0 e)"
| "ctx_err (Expires (Suc n) e) = (None, Expires n e)"

lemma ctx_err_sticky: "ctx_err c = (Some e, c') \<Longrightarrow> ctx_err c' = (Some e, c')"
  by (cases c rule: ctx_err.cases) auto

section \<open>Computations with an error and a state\<close>

text \<open>
  A Go function that mutates a receiver and returns \<open>(T, error)\<close> is a function from the
  state to an error or a value and the new state. The state is dropped on an error: every
  caller in the modelled code abandons the receiver then.
\<close>

type_synonym ('e, 's, 'a) run = "'s \<Rightarrow> 'e + 'a \<times> 's"
type_synonym ('s, 'a) es = "(go_error, 's, 'a) run"

definition es_return :: "'a \<Rightarrow> ('e, 's, 'a) run" where
  "es_return x = (\<lambda>s. Inr (x, s))"

definition es_fail :: "'e \<Rightarrow> ('e, 's, 'a) run" where
  "es_fail e = (\<lambda>s. Inl e)"

definition es_bind :: "('e, 's, 'a) run \<Rightarrow> ('a \<Rightarrow> ('e, 's, 'b) run) \<Rightarrow> ('e, 's, 'b) run" where
  "es_bind m f = (\<lambda>s. case m s of Inl e \<Rightarrow> Inl e | Inr (x, t) \<Rightarrow> f x t)"

definition es_get :: "('s \<Rightarrow> 'a) \<Rightarrow> ('e, 's, 'a) run" where
  "es_get f = (\<lambda>s. Inr (f s, s))"

definition es_update :: "('s \<Rightarrow> 's) \<Rightarrow> ('e, 's, unit) run" where
  "es_update f = (\<lambda>s. Inr ((), f s))"

definition es_wrap :: "string \<Rightarrow> ('s, 'a) es \<Rightarrow> ('s, 'a) es" where
  "es_wrap what m =
     (\<lambda>s. case m s of Inl e \<Rightarrow> Inl (Wrapf (Fmt what []) e) | Inr r \<Rightarrow> Inr r)"

definition es_wrap_msg :: "message \<Rightarrow> ('s, 'a) es \<Rightarrow> ('s, 'a) es" where
  "es_wrap_msg what m = (\<lambda>s. case m s of Inl e \<Rightarrow> Inl (Wrapf what e) | Inr r \<Rightarrow> Inr r)"

text \<open>A call whose error the caller turns into its own error value.\<close>

definition es_map_error :: "('e \<Rightarrow> 'd) \<Rightarrow> ('e, 's, 'a) run \<Rightarrow> ('d, 's, 'a) run" where
  "es_map_error h m = (\<lambda>s. case m s of Inl e \<Rightarrow> Inl (h e) | Inr r \<Rightarrow> Inr r)"

definition es_lift :: "'e + 'a \<Rightarrow> ('e, 's, 'a) run" where
  "es_lift r = (\<lambda>s. case r of Inl e \<Rightarrow> Inl e | Inr x \<Rightarrow> Inr (x, s))"

lemma es_lift_Inr [simp]: "es_lift r s = Inr (x, t) \<longleftrightarrow> r = Inr x \<and> t = s"
  by (auto simp: es_lift_def split: sum.splits)

lemma es_lift_simps [simp]: "es_lift (Inl e) = es_fail e" "es_lift (Inr x) = es_return x"
  by (simp_all add: es_lift_def es_fail_def es_return_def)

definition es_zoom :: "('s \<Rightarrow> 't) \<Rightarrow> ('t \<Rightarrow> 's \<Rightarrow> 's) \<Rightarrow> ('e, 't, 'a) run \<Rightarrow> ('e, 's, 'a) run" where
  "es_zoom get put m =
     (\<lambda>s. case m (get s) of Inl e \<Rightarrow> Inl e | Inr (x, t) \<Rightarrow> Inr (x, put t s))"

primrec es_each :: "('b \<Rightarrow> ('e, 's, unit) run) \<Rightarrow> 'b list \<Rightarrow> ('e, 's, unit) run" where
  "es_each f [] = es_return ()"
| "es_each f (x # xs) = es_bind (f x) (\<lambda>_. es_each f xs)"

named_theorems es_defs "equations that run a computation"

declare es_return_def [es_defs] es_fail_def [es_defs] es_bind_def [es_defs]
  es_get_def [es_defs] es_update_def [es_defs] es_wrap_def [es_defs] es_zoom_def [es_defs]
  es_map_error_def [es_defs]

lemma es_return_Inr [simp]: "es_return x s = Inr (y, t) \<longleftrightarrow> y = x \<and> t = s"
  by (auto simp: es_return_def)

lemma es_get_Inr [simp]: "es_get f s = Inr (y, t) \<longleftrightarrow> y = f s \<and> t = s"
  by (auto simp: es_get_def)

lemma es_update_Inr [simp]: "es_update f s = Inr (y, t) \<longleftrightarrow> t = f s"
  by (auto simp: es_update_def)

lemma es_fail_Inr [simp]: "es_fail e s \<noteq> Inr r"
  by (simp add: es_fail_def)

lemma es_wrap_Inr [simp]: "es_wrap w m s = Inr r \<longleftrightarrow> m s = Inr r"
  by (simp add: es_wrap_def split: sum.splits)

lemma es_wrap_msg_Inr [simp]: "es_wrap_msg w m s = Inr r \<longleftrightarrow> m s = Inr r"
  by (simp add: es_wrap_msg_def split: sum.splits)

lemma es_map_error_Inr [simp]: "es_map_error h m s = Inr r \<longleftrightarrow> m s = Inr r"
  by (simp add: es_map_error_def split: sum.splits)

lemma map_sum_Inr: "map_sum id f r = Inr y \<longleftrightarrow> (\<exists>x. r = Inr x \<and> y = f x)"
  by (cases r) auto

lemma es_bind_Inr:
  "es_bind m f s = Inr (y, t) \<longleftrightarrow> (\<exists>x u. m s = Inr (x, u) \<and> f x u = Inr (y, t))"
  by (auto simp: es_bind_def split: sum.splits)

lemma es_bindE:
  assumes "es_bind m f s = Inr (y, t)"
  obtains x u where "m s = Inr (x, u)" "f x u = Inr (y, t)"
  using assms by (auto simp: es_bind_Inr)

lemma es_bind_get: "es_bind (es_get f) g s = g (f s) s"
  by (simp add: es_bind_def es_get_def)

lemma es_zoom_Inr:
  "es_zoom get put m s = Inr (y, t) \<longleftrightarrow> (\<exists>u. m (get s) = Inr (y, u) \<and> t = put u s)"
  by (auto simp: es_zoom_def split: sum.splits)

text \<open>
  What a computation keeps: a relation between the states before and after that every
  successful run satisfies. For a preorder the rule for a composite computation follows
  from the rules for its parts, once for every relation the components use.
\<close>

definition es_keeps :: "('s \<Rightarrow> 's \<Rightarrow> bool) \<Rightarrow> ('e, 's, 'a) run \<Rightarrow> bool" where
  "es_keeps R m \<longleftrightarrow> (\<forall>s x t. m s = Inr (x, t) \<longrightarrow> R s t)"

lemma es_keepsD: "es_keeps R m \<Longrightarrow> m s = Inr (x, t) \<Longrightarrow> R s t"
  by (auto simp: es_keeps_def)

lemma es_keepsI: "(\<And>s x t. m s = Inr (x, t) \<Longrightarrow> R s t) \<Longrightarrow> es_keeps R m"
  by (auto simp: es_keeps_def)

named_theorems es_keeps_intros "rules that build up what a computation keeps"

locale es_frame =
  fixes R :: "'s \<Rightarrow> 's \<Rightarrow> bool"
  assumes frame_refl: "R s s"
    and frame_trans: "R s t \<Longrightarrow> R t u \<Longrightarrow> R s u"
begin

lemma keeps_return [es_keeps_intros]: "es_keeps R (es_return x)"
  by (simp add: es_keeps_def frame_refl)

lemma keeps_get [es_keeps_intros]: "es_keeps R (es_get f)"
  by (simp add: es_keeps_def frame_refl)

lemma keeps_fail [es_keeps_intros]: "es_keeps R (es_fail e)"
  by (simp add: es_keeps_def)

lemma keeps_bind [es_keeps_intros]:
  "es_keeps R m \<Longrightarrow> (\<And>x. es_keeps R (f x)) \<Longrightarrow> es_keeps R (es_bind m f)"
  unfolding es_keeps_def es_bind_Inr by (blast intro: frame_trans)

lemma keeps_bind_result:
  assumes "es_keeps R m" "\<And>x s t. m s = Inr (x, t) \<Longrightarrow> P x" "\<And>x. P x \<Longrightarrow> es_keeps R (f x)"
  shows "es_keeps R (es_bind m f)"
  using assms unfolding es_keeps_def es_bind_Inr by (blast intro: frame_trans)

lemma keeps_wrap [es_keeps_intros]: "es_keeps R m \<Longrightarrow> es_keeps R (es_wrap w m)"
  by (simp add: es_keeps_def)

lemma keeps_wrap_msg [es_keeps_intros]: "es_keeps R m \<Longrightarrow> es_keeps R (es_wrap_msg w m)"
  by (simp add: es_keeps_def)

lemma keeps_update [es_keeps_intros]: "(\<And>s. R s (f s)) \<Longrightarrow> es_keeps R (es_update f)"
  by (simp add: es_keeps_def)

lemma keeps_each [es_keeps_intros]:
  "(\<And>x. es_keeps R (f x)) \<Longrightarrow> es_keeps R (es_each f xs)"
  by (induction xs) (auto intro: keeps_return keeps_bind)

lemma keeps_if [es_keeps_intros]:
  "es_keeps R m \<Longrightarrow> es_keeps R n \<Longrightarrow> es_keeps R (if b then m else n)"
  by simp

lemma keeps_prod [es_keeps_intros]:
  "(\<And>a b. es_keeps R (f a b)) \<Longrightarrow> es_keeps R (case x of (a, b) \<Rightarrow> f a b)"
  by (cases x) simp

lemma keeps_option [es_keeps_intros]:
  "es_keeps R m \<Longrightarrow> (\<And>x. es_keeps R (f x)) \<Longrightarrow>
    es_keeps R (case opt of None \<Rightarrow> m | Some x \<Rightarrow> f x)"
  by (cases opt) simp_all

lemma keeps_if_fun [es_keeps_intros]:
  "(\<And>s x t. b s \<Longrightarrow> m s = Inr (x, t) \<Longrightarrow> R s t) \<Longrightarrow> (\<And>s x t. \<not> b s \<Longrightarrow> n s = Inr (x, t) \<Longrightarrow> R s t)
    \<Longrightarrow> es_keeps R (\<lambda>s. if b s then m s else n s)"
  by (auto simp: es_keeps_def split: if_splits)

end

text \<open>
  A computation that commutes with a change of the state it cannot see: whenever it succeeds
  before the change it succeeds after it, with the same value.
\<close>

definition es_stable :: "('s \<Rightarrow> 's) \<Rightarrow> ('e, 's, 'a) run \<Rightarrow> bool" where
  "es_stable T m \<longleftrightarrow> (\<forall>s x t. m s = Inr (x, t) \<longrightarrow> m (T s) = Inr (x, T t))"

named_theorems es_stable_intros "rules that build up what a computation commutes with"

lemma es_stableI: "(\<And>s x t. m s = Inr (x, t) \<Longrightarrow> m (T s) = Inr (x, T t)) \<Longrightarrow> es_stable T m"
  by (simp add: es_stable_def)

lemma es_stableD: "es_stable T m \<Longrightarrow> m s = Inr (x, t) \<Longrightarrow> m (T s) = Inr (x, T t)"
  by (simp add: es_stable_def)

lemma stable_return [es_stable_intros]: "es_stable T (es_return x)"
  by (simp add: es_stable_def)

lemma stable_fail [es_stable_intros]: "es_stable T (es_fail e)"
  by (simp add: es_stable_def)

lemma stable_get [es_stable_intros]: "(\<And>s. f (T s) = f s) \<Longrightarrow> es_stable T (es_get f)"
  by (simp add: es_stable_def)

lemma stable_update [es_stable_intros]: "(\<And>s. f (T s) = T (f s)) \<Longrightarrow> es_stable T (es_update f)"
  by (simp add: es_stable_def)

lemma stable_bind [es_stable_intros]:
  "es_stable T m \<Longrightarrow> (\<And>x. es_stable T (f x)) \<Longrightarrow> es_stable T (es_bind m f)"
  by (fastforce simp: es_stable_def es_bind_Inr)

lemma stable_wrap [es_stable_intros]: "es_stable T m \<Longrightarrow> es_stable T (es_wrap w m)"
  by (simp add: es_stable_def)

lemma stable_wrap_msg [es_stable_intros]: "es_stable T m \<Longrightarrow> es_stable T (es_wrap_msg w m)"
  by (simp add: es_stable_def)

lemma stable_each [es_stable_intros]:
  "(\<And>x. es_stable T (f x)) \<Longrightarrow> es_stable T (es_each f xs)"
  by (induction xs) (auto intro: stable_return stable_bind)

lemma stable_if [es_stable_intros]:
  "es_stable T m \<Longrightarrow> es_stable T n \<Longrightarrow> es_stable T (if b then m else n)"
  by simp

lemma stable_prod [es_stable_intros]:
  "(\<And>a b. es_stable T (f a b)) \<Longrightarrow> es_stable T (case x of (a, b) \<Rightarrow> f a b)"
  by (cases x) simp

lemma stable_option [es_stable_intros]:
  "es_stable T m \<Longrightarrow> (\<And>x. es_stable T (f x)) \<Longrightarrow>
    es_stable T (case opt of None \<Rightarrow> m | Some x \<Rightarrow> f x)"
  by (cases opt) simp_all

lemma stable_if_fun [es_stable_intros]:
  "(\<And>s. b (T s) = b s) \<Longrightarrow> es_stable T m \<Longrightarrow> es_stable T n \<Longrightarrow>
    es_stable T (\<lambda>s. if b s then m s else n s)"
  by (simp add: es_stable_def)

lemma stable_zoom [es_stable_intros]:
  "es_stable U m \<Longrightarrow> (\<And>s. get (T s) = U (get s)) \<Longrightarrow> (\<And>t s. put (U t) (T s) = T (put t s)) \<Longrightarrow>
    es_stable T (es_zoom get put m)"
  by (fastforce simp: es_stable_def es_zoom_Inr)

text \<open>
  A computation that commutes with a projection of the state in every case, errors included.
\<close>

definition es_commutes :: "('s \<Rightarrow> 's) \<Rightarrow> ('e, 's, 'a) run \<Rightarrow> bool" where
  "es_commutes T m \<longleftrightarrow> (\<forall>s. m (T s) = map_sum id (map_prod id T) (m s))"

named_theorems es_commutes_intros "rules that build up what a computation is projected by"

lemma es_commutesD: "es_commutes T m \<Longrightarrow> m (T s) = map_sum id (map_prod id T) (m s)"
  by (simp add: es_commutes_def)

lemma commutes_return [es_commutes_intros]: "es_commutes T (es_return x)"
  by (simp add: es_commutes_def es_return_def)

lemma commutes_fail [es_commutes_intros]: "es_commutes T (es_fail e)"
  by (simp add: es_commutes_def es_fail_def)

lemma commutes_get [es_commutes_intros]: "(\<And>s. f (T s) = f s) \<Longrightarrow> es_commutes T (es_get f)"
  by (simp add: es_commutes_def es_get_def)

lemma commutes_update [es_commutes_intros]:
  "(\<And>s. f (T s) = T (f s)) \<Longrightarrow> es_commutes T (es_update f)"
  by (simp add: es_commutes_def es_update_def)

lemma commutes_bind [es_commutes_intros]:
  "es_commutes T m \<Longrightarrow> (\<And>x. es_commutes T (f x)) \<Longrightarrow> es_commutes T (es_bind m f)"
  by (auto simp: es_commutes_def es_bind_def split: sum.splits prod.splits)

lemma commutes_wrap [es_commutes_intros]: "es_commutes T m \<Longrightarrow> es_commutes T (es_wrap w m)"
  by (auto simp: es_commutes_def es_wrap_def split: sum.splits)

lemma commutes_wrap_msg [es_commutes_intros]: "es_commutes T m \<Longrightarrow> es_commutes T (es_wrap_msg w m)"
  by (auto simp: es_commutes_def es_wrap_msg_def split: sum.splits)

lemma commutes_each [es_commutes_intros]:
  "(\<And>x. es_commutes T (f x)) \<Longrightarrow> es_commutes T (es_each f xs)"
  by (induction xs) (auto intro: commutes_return commutes_bind)

lemma commutes_if [es_commutes_intros]:
  "es_commutes T m \<Longrightarrow> es_commutes T n \<Longrightarrow> es_commutes T (if b then m else n)"
  by simp

lemma commutes_prod [es_commutes_intros]:
  "(\<And>a b. es_commutes T (f a b)) \<Longrightarrow> es_commutes T (case x of (a, b) \<Rightarrow> f a b)"
  by (cases x) simp

lemma commutes_option [es_commutes_intros]:
  "es_commutes T m \<Longrightarrow> (\<And>x. es_commutes T (f x)) \<Longrightarrow>
    es_commutes T (case opt of None \<Rightarrow> m | Some x \<Rightarrow> f x)"
  by (cases opt) simp_all

lemma commutes_if_fun [es_commutes_intros]:
  "(\<And>s. b (T s) = b s) \<Longrightarrow> es_commutes T m \<Longrightarrow> es_commutes T n \<Longrightarrow>
    es_commutes T (\<lambda>s. if b s then m s else n s)"
  by (simp add: es_commutes_def)

text \<open>A computation on a part of the state that the projection leaves alone.\<close>

lemma commutes_zoom [es_commutes_intros]:
  "(\<And>s. get (T s) = get s) \<Longrightarrow> (\<And>t s. put t (T s) = T (put t s)) \<Longrightarrow>
    es_commutes T (es_zoom get put m)"
  by (auto simp: es_commutes_def es_zoom_def split: sum.splits)

section \<open>Results\<close>

text \<open>Sequencing of results that are an error or a value, without a state.\<close>

definition sum_bind :: "'e + 'a \<Rightarrow> ('a \<Rightarrow> 'e + 'b) \<Rightarrow> 'e + 'b" where
  "sum_bind m f = (case m of Inl e \<Rightarrow> Inl e | Inr x \<Rightarrow> f x)"

definition or_error :: "'a option \<Rightarrow> 'e \<Rightarrow> 'e + 'a" where
  "or_error v e = (case v of None \<Rightarrow> Inl e | Some x \<Rightarrow> Inr x)"

lemma sum_bind_simps [simp]: "sum_bind (Inl e) f = Inl e" "sum_bind (Inr x) f = f x"
  by (simp_all add: sum_bind_def)

lemma sum_bind_Inr: "sum_bind m f = Inr y \<longleftrightarrow> (\<exists>x. m = Inr x \<and> f x = Inr y)"
  by (cases m) simp_all

lemma sum_bind_Inl: "sum_bind m f = Inl e \<longleftrightarrow> m = Inl e \<or> (\<exists>x. m = Inr x \<and> f x = Inl e)"
  by (cases m) simp_all

lemma or_error_iff [simp]: "or_error v e = Inr x \<longleftrightarrow> v = Some x" "or_error v e = Inl d \<longleftrightarrow> v = None \<and> d = e"
  by (auto simp: or_error_def split: option.splits)

lemma or_error_simps [simp]: "or_error (Some x) e = Inr x" "or_error None e = Inl e"
  by (simp_all add: or_error_def)

section \<open>Binary search\<close>

text \<open>
  \<open>sort.Search\<close> of the standard library: the least index in \<open>[0, n)\<close> at which the predicate
  holds, by bisection, provided the predicate is monotone.
\<close>

function search_loop :: "(nat \<Rightarrow> bool) \<Rightarrow> nat \<Rightarrow> nat \<Rightarrow> nat" where
  "search_loop f i j =
     (if i < j then
        let h = (i + j) div 2
        in if \<not> f h then search_loop f (h + 1) j else search_loop f i h
      else i)"
  by pat_completeness auto
termination
  by (relation "measure (\<lambda>(f, i, j). j - i)") auto

declare search_loop.simps [simp del]

definition sort_search :: "nat \<Rightarrow> (nat \<Rightarrow> bool) \<Rightarrow> nat" where
  "sort_search n f = search_loop f 0 n"

lemma search_loop_spec:
  assumes "i \<le> j" "j \<le> n"
    and mono: "\<And>a b. a \<le> b \<Longrightarrow> b < n \<Longrightarrow> f a \<Longrightarrow> f b"
    and "\<And>a. a < i \<Longrightarrow> \<not> f a" "\<And>a. j \<le> a \<Longrightarrow> a < n \<Longrightarrow> f a"
  shows "search_loop f i j \<le> n \<and> (\<forall>a < search_loop f i j. \<not> f a) \<and>
    (\<forall>a. search_loop f i j \<le> a \<longrightarrow> a < n \<longrightarrow> f a)"
  using assms(1,2,4,5)
proof (induction "j - i" arbitrary: i j rule: less_induct)
  case less
  let ?h = "(i + j) div 2"
  show ?case
  proof (cases "i < j")
    case False
    then have "search_loop f i j = i" by (simp add: search_loop.simps [of f i j])
    with False less.prems show ?thesis by force
  next
    case True
    then have h: "i \<le> ?h" "?h < j" by simp_all
    show ?thesis
    proof (cases "f ?h")
      case fh: True
      then have step: "search_loop f i j = search_loop f i ?h"
        using True by (simp add: search_loop.simps [of f i j])
      have up: "f a" if "?h \<le> a" "a < n" for a
        using mono [OF that fh] .
      show ?thesis
        unfolding step
        by (rule less.hyps) (use h less.prems up in \<open>simp_all add: order_less_imp_le\<close>)
    next
      case fh: False
      then have step: "search_loop f i j = search_loop f (?h + 1) j"
        using True by (simp add: search_loop.simps [of f i j])
      have down: "\<not> f a" if "a < ?h + 1" for a
      proof
        assume "f a"
        from that have "a \<le> ?h" by simp
        from mono [OF this _ \<open>f a\<close>] h less.prems(2) fh show False by simp
      qed
      show ?thesis
        unfolding step
        by (rule less.hyps) (use h less.prems down in simp_all)
    qed
  qed
qed

lemma sort_search_spec:
  assumes "\<And>a b. a \<le> b \<Longrightarrow> b < n \<Longrightarrow> f a \<Longrightarrow> f b"
  shows "sort_search n f \<le> n" "a < sort_search n f \<Longrightarrow> \<not> f a"
    "sort_search n f \<le> a \<Longrightarrow> a < n \<Longrightarrow> f a"
proof -
  have "search_loop f 0 n \<le> n \<and> (\<forall>a < search_loop f 0 n. \<not> f a) \<and>
      (\<forall>a. search_loop f 0 n \<le> a \<longrightarrow> a < n \<longrightarrow> f a)"
    by (rule search_loop_spec) (use assms in simp_all)
  then show "sort_search n f \<le> n" "a < sort_search n f \<Longrightarrow> \<not> f a"
    "sort_search n f \<le> a \<Longrightarrow> a < n \<Longrightarrow> f a"
    by (simp_all add: sort_search_def)
qed

text \<open>
  The lookup that every address index of the code makes: in a list sorted by a key, the
  last entry whose key does not exceed the address is the one before the first entry whose
  key does.
\<close>

lemma search_loop_le: "i \<le> j \<Longrightarrow> search_loop f i j \<le> j"
proof (induction f i j rule: search_loop.induct)
  case (1 f i j)
  show ?case
  proof (cases "i < j")
    case True
    have "(i + j) div 2 < j" "i \<le> (i + j) div 2" using True by auto
    with 1 True show ?thesis by (subst search_loop.simps) (auto simp: Let_def intro: le_trans)
  qed (use 1(3) in \<open>simp add: search_loop.simps\<close>)
qed

lemma sort_search_le: "sort_search n f \<le> n"
  by (simp add: sort_search_def search_loop_le)

lemma search_last_le:
  fixes key :: "'a \<Rightarrow> 'k::linorder"
  assumes sorted: "sorted (map key xs)"
    and j_def: "j = sort_search (length xs) (\<lambda>i. key (xs ! i) > a)"
  shows "j \<le> length xs" "i < j \<Longrightarrow> key (xs ! i) \<le> a"
    "j \<le> i \<Longrightarrow> i < length xs \<Longrightarrow> a < key (xs ! i)"
proof -
  have mono: "a < key (xs ! y)" if "x \<le> y" "y < length xs" "a < key (xs ! x)" for x y
  proof -
    from sorted_nth_mono [OF sorted, of x y] that have "key (xs ! x) \<le> key (xs ! y)" by simp
    with that(3) show ?thesis by (rule order_less_le_trans)
  qed
  show "j \<le> length xs"
    unfolding j_def by (rule sort_search_spec(1), rule mono)
  show "key (xs ! i) \<le> a" if "i < j"
    by (rule leI, rule sort_search_spec(2) [where n = "length xs"], rule mono)
      (use that in \<open>simp_all add: j_def\<close>)
  show "a < key (xs ! i)" if "j \<le> i" "i < length xs"
    by (rule sort_search_spec(3) [where n = "length xs"], rule mono)
      (use that in \<open>simp_all add: j_def\<close>)
qed

section \<open>Lists\<close>

lemma list_all2_set1: "list_all2 P xs ys \<Longrightarrow> x \<in> set xs \<Longrightarrow> \<exists>y \<in> set ys. P x y"
  by (induction rule: list_all2_induct) auto

lemma list_all2_set2: "list_all2 P xs ys \<Longrightarrow> y \<in> set ys \<Longrightarrow> \<exists>x \<in> set xs. P x y"
  by (induction rule: list_all2_induct) auto

section \<open>Printing numbers\<close>

text \<open>\<open>strconv.FormatUint\<close>, for the bases the code prints in.\<close>

definition digit_char :: "nat \<Rightarrow> char" where
  "digit_char d = (if d < 16 then ''0123456789abcdef'' ! d else CHR ''?'')"

function format_nat :: "nat \<Rightarrow> nat \<Rightarrow> string" where
  "format_nat base n =
     (if base < 2 \<or> n < base then [digit_char n]
      else format_nat base (n div base) @ [digit_char (n mod base)])"
  by pat_completeness auto
termination
  by (relation "measure snd") auto

declare format_nat.simps [simp del]

text \<open>
  \<open>strconv.ParseUint(s, base, 64)\<close> for an explicit base: the value, or \<open>None\<close> for either of
  its two errors (syntax and range).
\<close>

definition digit_value :: "char \<Rightarrow> nat option" where
  "digit_value c =
     (let n = of_char c :: nat in
      if 48 \<le> n \<and> n \<le> 57 then Some (n - 48)
      else if 97 \<le> n \<and> n \<le> 122 then Some (n - 87)
      else if 65 \<le> n \<and> n \<le> 90 then Some (n - 55)
      else None)"

fun parse_digits :: "nat \<Rightarrow> string \<Rightarrow> nat \<Rightarrow> nat option" where
  "parse_digits base [] acc = Some acc"
| "parse_digits base (c # cs) acc =
     (case digit_value c of
        None \<Rightarrow> None
      | Some d \<Rightarrow> if d < base then parse_digits base cs (base * acc + d) else None)"

definition parse_uint :: "nat \<Rightarrow> string \<Rightarrow> u64 option" where
  "parse_uint base s =
     (if s = [] then None
      else case parse_digits base s 0 of
        None \<Rightarrow> None
      | Some n \<Rightarrow> if n < 2 ^ 64 then Some (of_nat n) else None)"

lemma digit_value_char: "d < 16 \<Longrightarrow> digit_value (digit_char d) = Some d"
proof -
  have "\<forall>d \<in> set [0..<16]. digit_value (digit_char d) = Some d" by code_simp
  then show "d < 16 \<Longrightarrow> digit_value (digit_char d) = Some d" by simp
qed

lemma parse_digits_append:
  "parse_digits base (xs @ ys) acc =
     (case parse_digits base xs acc of None \<Rightarrow> None | Some n \<Rightarrow> parse_digits base ys n)"
  by (induction xs arbitrary: acc) (auto split: option.splits)

lemma parse_format_nat:
  "2 \<le> base \<Longrightarrow> base \<le> 16 \<Longrightarrow> parse_digits base (format_nat base n) 0 = Some n"
proof (induction base n rule: format_nat.induct)
  case (1 base n)
  show ?case
  proof (cases "n < base")
    case True
    then show ?thesis
      using 1 by (simp add: format_nat.simps [of base n] digit_value_char)
  next
    case False
    have "n mod base < base" "n mod base < 16"
      using 1(2,3) mod_less_divisor [of base n] by linarith+
    with False show ?thesis
      using 1 by (simp add: format_nat.simps [of base n] parse_digits_append digit_value_char)
  qed
qed

lemma format_nat_not_Nil [simp]: "format_nat base n \<noteq> []"
  by (simp add: format_nat.simps [of base n])

lemma parse_uint_format:
  "2 \<le> base \<Longrightarrow> base \<le> 16 \<Longrightarrow> parse_uint base (format_nat base (unat (v :: u64))) = Some v"
  using unsigned_less [of v, where ?'a = nat] by (simp add: parse_uint_def parse_format_nat)

end
