(* ===== verification/HeapModel.thy ===== *)
theory HeapModel
  imports Prelude
begin

text \<open>
  The normalized model of one heap dump (\<open>internal/heapsnapshot/model.go\<close>): one record per
  Go struct, the fields in the order of the source. Counters of type \<open>int\<close> are integers:
  each counts records or pointers of a dump that was read byte by byte. \<open>ObjectBytes\<close> is a
  \<open>uint64\<close> sum and wraps. Go maps that the parser only writes are partial functions.
\<close>

section \<open>Field kinds\<close>

type_synonym field_kind = u64

definition FieldKindEol :: field_kind where "FieldKindEol = 0"
definition FieldKindPtr :: field_kind where "FieldKindPtr = 1"
definition FieldKindIface :: field_kind where "FieldKindIface = 2"
definition FieldKindEface :: field_kind where "FieldKindEface = 3"

lemmas field_kind_defs = FieldKindEol_def FieldKindPtr_def FieldKindIface_def FieldKindEface_def

definition field_kind_string :: "field_kind \<Rightarrow> string" where
  "field_kind_string k =
     (if k = FieldKindEol then ''eol''
      else if k = FieldKindPtr then ''ptr''
      else if k = FieldKindIface then ''iface''
      else if k = FieldKindEface then ''eface''
      else ''unknown'')"

section \<open>Records of a dump\<close>

record slot_field =
  fld_kind :: field_kind
  fld_offset :: u64

record dump_params =
  dp_big_endian :: bool
  dp_ptr_size :: int
  dp_heap_start :: u64
  dp_heap_end :: u64
  dp_goarch :: string
  dp_build_version :: string
  dp_num_cpu :: u64

record type_info =
  ti_addr :: u64
  ti_size :: u64
  ti_name :: string
  ti_indirect_iface :: bool
  ti_fields :: "slot_field list"

record itab =
  it_addr :: u64
  it_type_addr :: u64

record heap_object =
  ho_addr :: u64
  ho_size :: u64
  ho_contents :: "byte list"
  ho_fields :: "slot_field list"
  ho_pointer_addrs :: "u64 list"
  ho_pointer_offsets :: "u64 list"

record stack_frame =
  sf_sp :: u64
  sf_depth :: u64
  sf_child_sp :: u64
  sf_entry_pc :: u64
  sf_current_pc :: u64
  sf_continue_pc :: u64
  sf_func_name :: string
  sf_size :: u64
  sf_fields :: "slot_field list"
  sf_pointer_addrs :: "u64 list"
  sf_pointer_slots :: "u64 list"

record goroutine =
  g_addr :: u64
  g_stack_top :: u64
  g_id :: u64
  g_go_pc :: u64
  g_status :: u64
  g_is_system :: bool
  g_is_background :: bool
  g_wait_since :: u64
  g_wait_reason :: string
  g_context :: u64
  g_m :: u64
  g_defer :: u64
  g_panic :: u64
  g_frames :: "stack_frame list"

record dump_root =
  rt_kind :: string
  rt_description :: string
  rt_addr :: u64
  rt_pointer_addr :: u64

record data_segment =
  ds_kind :: string
  ds_addr :: u64
  ds_size :: u64
  ds_fields :: "slot_field list"
  ds_pointer_addrs :: "u64 list"
  ds_pointer_slots :: "u64 list"

text \<open>\<open>QueuedFinalizer\<close> has the fields of \<open>Finalizer\<close>.\<close>

record finalizer =
  fin_object_addr :: u64
  fin_func_val :: u64
  fin_func_pc :: u64
  fin_type_addr :: u64
  fin_ptr_type_addr :: u64

record os_thread =
  ot_addr :: u64
  ot_id :: u64
  ot_os_id :: u64

record allocation_frame =
  af_function :: string
  af_file :: string
  af_line :: u64

record mem_profile =
  mp_bucket :: u64
  mp_size :: u64
  mp_frames :: "allocation_frame list"
  mp_allocs :: u64
  mp_frees :: u64

record allocation_sample =
  as_address :: u64
  as_bucket :: u64

record parse_stats =
  ps_object_count :: int
  ps_object_bytes :: u64
  ps_object_pointers :: int
  ps_type_count :: int
  ps_itab_count :: int
  ps_goroutine_count :: int
  ps_stack_frame_count :: int
  ps_stack_pointers :: int
  ps_other_root_count :: int
  ps_data_count :: int
  ps_data_pointers :: int
  ps_bss_count :: int
  ps_bss_pointers :: int
  ps_global_root_count :: int
  ps_finalizer_count :: int
  ps_queued_finalizers :: int
  ps_os_thread_count :: int
  ps_defer_count :: int
  ps_panic_count :: int
  ps_mem_prof_count :: int
  ps_alloc_sample_count :: int
  ps_unknown_records :: int
  ps_interface_fields_decoded :: int
  ps_eface_fields_decoded :: int

record heap_snapshot =
  hs_header :: string
  hs_params :: dump_params
  hs_types :: "u64 \<rightharpoonup> type_info"
  hs_itabs :: "u64 \<rightharpoonup> itab"
  hs_objects :: "heap_object list"
  hs_goroutines :: "goroutine list"
  hs_globals :: "dump_root list"
  hs_data :: "data_segment list"
  hs_bss :: "data_segment list"
  hs_finalizers :: "finalizer list"
  hs_queued_finalizers :: "finalizer list"
  hs_os_threads :: "os_thread list"
  hs_mem_stats :: "string \<rightharpoonup> u64"
  hs_mem_profiles :: "mem_profile list"
  hs_allocation_samples :: "allocation_sample list"
  hs_stats :: parse_stats
  hs_warnings :: "message list"

section \<open>Zero values\<close>

definition zero_params :: dump_params where
  "zero_params = \<lparr>dp_big_endian = False, dp_ptr_size = 0, dp_heap_start = 0, dp_heap_end = 0,
     dp_goarch = [], dp_build_version = [], dp_num_cpu = 0\<rparr>"

definition zero_parse_stats :: parse_stats where
  "zero_parse_stats = \<lparr>ps_object_count = 0, ps_object_bytes = 0, ps_object_pointers = 0,
     ps_type_count = 0, ps_itab_count = 0, ps_goroutine_count = 0, ps_stack_frame_count = 0,
     ps_stack_pointers = 0, ps_other_root_count = 0, ps_data_count = 0, ps_data_pointers = 0,
     ps_bss_count = 0, ps_bss_pointers = 0, ps_global_root_count = 0, ps_finalizer_count = 0,
     ps_queued_finalizers = 0, ps_os_thread_count = 0, ps_defer_count = 0, ps_panic_count = 0,
     ps_mem_prof_count = 0, ps_alloc_sample_count = 0, ps_unknown_records = 0,
     ps_interface_fields_decoded = 0, ps_eface_fields_decoded = 0\<rparr>"

definition empty_snapshot :: heap_snapshot where
  "empty_snapshot = \<lparr>hs_header = [], hs_params = zero_params, hs_types = Map.empty,
     hs_itabs = Map.empty, hs_objects = [], hs_goroutines = [], hs_globals = [], hs_data = [],
     hs_bss = [], hs_finalizers = [], hs_queued_finalizers = [], hs_os_threads = [],
     hs_mem_stats = Map.empty, hs_mem_profiles = [], hs_allocation_samples = [],
     hs_stats = zero_parse_stats, hs_warnings = []\<rparr>"

section \<open>Objects in memory\<close>

text \<open>The objects of a snapshot do not overlap; empty ones hold no address.\<close>

definition objects_disjoint :: "heap_object list \<Rightarrow> bool" where
  "objects_disjoint obs \<longleftrightarrow>
     (let full = filter (\<lambda>ob. ho_contents ob \<noteq> []) obs in
      distinct (map ho_addr full) \<and>
      (\<forall>x \<in> set full. \<forall>y \<in> set full. ho_addr x < ho_addr y \<longrightarrow>
         unat (ho_addr x) + unat (ho_size x) \<le> unat (ho_addr y)))"

definition object_slice :: "heap_object \<Rightarrow> u64 \<Rightarrow> u64 \<Rightarrow> byte list" where
  "object_slice ob a n = take (unat n) (drop (unat a - unat (ho_addr ob)) (ho_contents ob))"

definition object_holds :: "heap_object \<Rightarrow> u64 \<Rightarrow> u64 \<Rightarrow> bool" where
  "object_holds ob a n \<longleftrightarrow> ho_addr ob \<le> a \<and>
     unat a + unat n \<le> unat (ho_addr ob) + unat (ho_size ob)"

text \<open>The size of an object with retained contents is their length, and its range does not wrap.\<close>

definition contents_sized :: "heap_object list \<Rightarrow> bool" where
  "contents_sized obs \<longleftrightarrow> (\<forall>ob \<in> set obs. ho_contents ob \<noteq> [] \<longrightarrow>
     length (ho_contents ob) = unat (ho_size ob) \<and> unat (ho_addr ob) + unat (ho_size ob) < 2 ^ 64)"

lemma object_slice_within:
  assumes "object_holds ob a n" "unat k + unat m \<le> unat n" "unat a + unat n < 2 ^ 64"
  shows "m \<noteq> 0 \<Longrightarrow> object_holds ob (a + k) m"
    and "object_slice ob (a + k) m = take (unat m) (drop (unat k) (object_slice ob a n))"
proof -
  have ak: "unat (a + k) = unat a + unat k" using assms(2,3) by (intro unat_add_no_carry) simp
  have le: "unat (ho_addr ob) \<le> unat a" using assms(1) by (simp add: object_holds_def word_le_nat_alt)
  show "object_holds ob (a + k) m" using assms ak by (simp add: object_holds_def word_le_nat_alt)
  have "unat (a + k) - unat (ho_addr ob) = unat k + (unat a - unat (ho_addr ob))" using le ak by simp
  then show "object_slice ob (a + k) m = take (unat m) (drop (unat k) (object_slice ob a n))"
    using assms(2) by (simp add: object_slice_def drop_take min_absorb1 le_diff_conv2 add.commute)
qed

end
