(* ===== verification/ObjectGraph.thy ===== *)
theory ObjectGraph
  imports HeapModel
begin

text \<open>
  The resolved object graph (\<open>internal/snapshotgraph/graph.go\<close>): its data, interior-pointer
  lookup, and the iterative walk \<open>ReachableFrom\<close> (\<open>reachability.go\<close>). Sets that the code keeps
  as \<open>map[ObjectID]struct{}\<close> are sets. The queue with its moving \<open>head\<close> is the list of the
  entries not yet processed.
\<close>

section \<open>Data\<close>

type_synonym object_id = u32

record gobject =
  ob_id :: object_id
  ob_addr :: u64
  ob_size :: u64
  ob_children :: "object_id list"

record object_range =
  or_start :: u64
  or_end :: u64
  or_id :: object_id

record reference =
  rf_target :: object_id
  rf_pointer :: u64
  rf_offset :: u64
  rf_offset_known :: bool

record frame_info =
  fi_sp :: u64
  fi_depth :: u64
  fi_entry_pc :: u64
  fi_current_pc :: u64
  fi_continue_pc :: u64

record graph =
  gr_objects :: "gobject list"
  gr_by_addr :: "u64 \<rightharpoonup> object_id"
  gr_references :: "reference list list"
  gr_ranges :: "object_range list"

record root_ref =
  rr_object_id :: object_id
  rr_ptr :: u64
  rr_slot_addr :: u64
  rr_kind :: string
  rr_detail :: string
  rr_frame :: "frame_info option"

record goroutine_reach =
  gor_id :: u64
  gor_is_system :: bool
  gor_is_background :: bool
  gor_roots :: "root_ref list"
  gor_reachable :: "object_id set"

record global_reach =
  glr_roots :: "root_ref list"
  glr_reachable :: "object_id set"

record graph_stats =
  gs_objects :: int
  gs_object_bytes :: u64
  gs_edges :: int
  gs_raw_object_pointers :: int
  gs_zero_object_pointers :: int
  gs_resolved_object_pointers :: int
  gs_unresolved_pointers :: int
  gs_unresolved_object_pointers :: int
  gs_unresolved_goroutine_roots :: int
  gs_unresolved_global_roots :: int
  gs_unresolved_finalizer_roots :: int
  gs_goroutines :: int
  gs_system_goroutines :: int
  gs_goroutine_root_pointers :: int
  gs_global_roots :: int
  gs_goroutine_reachable_objects :: int
  gs_global_reachable_objects :: int
  gs_unreachable_objects :: int
  gs_shared_by_goroutines_objects :: int

record analysis =
  an_graph :: "graph option"
  an_goroutines :: "goroutine_reach list"
  an_globals :: global_reach
  an_warnings :: "message list"
  an_stats :: graph_stats

record build_options =
  bo_strict :: bool
  bo_keep_provenance :: bool

section \<open>Lookup\<close>

definition valid_id :: "graph option \<Rightarrow> object_id \<Rightarrow> bool" where
  "valid_id g i = (case g of None \<Rightarrow> False | Some gr \<Rightarrow> unat i < length (gr_objects gr))"

definition find_object_containing :: "graph option \<Rightarrow> u64 \<Rightarrow> object_id option" where
  "find_object_containing g ptr =
     (case g of
        None \<Rightarrow> None
      | Some gr \<Rightarrow>
          if ptr = 0 then None
          else
            (case gr_by_addr gr ptr of
               Some i \<Rightarrow> Some i
             | None \<Rightarrow>
                 if gr_ranges gr = [] then None
                 else
                   let idx = sort_search (length (gr_ranges gr)) (\<lambda>i. or_start (gr_ranges gr ! i) > ptr)
                   in if idx = 0 then None
                      else
                        let r = gr_ranges gr ! (idx - 1)
                        in if ptr < or_end r then Some (or_id r) else None))"

definition ranges_disjoint :: "object_range list \<Rightarrow> bool" where
  "ranges_disjoint rs \<longleftrightarrow> sorted (map or_start rs) \<and>
     (\<forall>i j. i < j \<longrightarrow> j < length rs \<longrightarrow> or_end (rs ! i) \<le> or_start (rs ! j))"

text \<open>The range search finds the range that holds the pointer, whenever there is one.\<close>

lemma range_search_spec:
  assumes dis: "ranges_disjoint (gr_ranges gr)" and ptr: "ptr \<noteq> 0" and none: "gr_by_addr gr ptr = None"
  shows "find_object_containing (Some gr) ptr = Some i \<longleftrightarrow>
    (\<exists>r \<in> set (gr_ranges gr). or_start r \<le> ptr \<and> ptr < or_end r \<and> or_id r = i)"
proof -
  let ?rs = "gr_ranges gr"
  let ?j = "sort_search (length ?rs) (\<lambda>i. or_start (?rs ! i) > ptr)"
  have sorted: "sorted (map or_start ?rs)" using dis by (simp add: ranges_disjoint_def)
  note last = search_last_le [OF sorted refl, where a = ptr]
  have only: "k = ?j - 1" "?j \<noteq> 0"
    if "k < length ?rs" "or_start (?rs ! k) \<le> ptr" "ptr < or_end (?rs ! k)" for k
  proof -
    have k: "k < ?j" using last(3) [of k] that by (metis leI not_less)
    then show "?j \<noteq> 0" by simp
    show "k = ?j - 1"
    proof (rule ccontr)
      assume "k \<noteq> ?j - 1"
      with k have "k < ?j - 1" by simp
      moreover have "?j - 1 < length ?rs" using k last(1) by simp
      ultimately have "or_end (?rs ! k) \<le> or_start (?rs ! (?j - 1))"
        using dis unfolding ranges_disjoint_def by blast
      moreover have "or_start (?rs ! (?j - 1)) \<le> ptr" using last(2) [of "?j - 1"] k by simp
      ultimately show False using that(3) by simp
    qed
  qed
  show ?thesis
  proof (cases "?rs = [] \<or> ?j = 0")
    case True
    then have "find_object_containing (Some gr) ptr = None"
      using ptr none by (auto simp: find_object_containing_def Let_def)
    moreover have "\<not> (or_start r \<le> ptr \<and> ptr < or_end r)" if "r \<in> set ?rs" for r
      using True that only(2) by (auto simp: in_set_conv_nth)
    ultimately show ?thesis by auto
  next
    case False
    let ?q = "?rs ! (?j - 1)"
    have j: "?j - 1 < length ?rs" "or_start ?q \<le> ptr"
      using False last(1) last(2) [of "?j - 1"] by auto
    have "find_object_containing (Some gr) ptr = (if ptr < or_end ?q then Some (or_id ?q) else None)"
      using False ptr none by (simp add: find_object_containing_def Let_def)
    moreover have "r = ?q" if "r \<in> set ?rs" "or_start r \<le> ptr" "ptr < or_end r" for r
      using that only(1) by (auto simp: in_set_conv_nth)
    ultimately show ?thesis using j nth_mem [OF j(1)] by (auto split: if_splits)
  qed
qed

section \<open>Breadth-first walks\<close>

text \<open>
  The two loops of a walk: entering a list of candidates into the seen set and the queue, and
  processing the queue. The candidates that are not \<open>ok\<close> are skipped.
\<close>

fun bfs_enter :: "('a \<Rightarrow> bool) \<Rightarrow> 'a list \<Rightarrow> 'a list \<Rightarrow> 'a set \<Rightarrow> 'a list \<times> 'a set" where
  "bfs_enter ok [] q R = (q, R)"
| "bfs_enter ok (x # xs) q R =
     (if \<not> ok x then bfs_enter ok xs q R
      else if x \<in> R then bfs_enter ok xs q R
      else bfs_enter ok xs (q @ [x]) (insert x R))"

lemma bfs_enter_spec:
  assumes "bfs_enter ok xs q R = (q', R')"
  shows "\<exists>new. q' = q @ new \<and> distinct new \<and> set new \<inter> R = {} \<and>
    set new = {x \<in> set xs. ok x} - R \<and> R' = R \<union> {x \<in> set xs. ok x}"
  using assms
proof (induction ok xs q R rule: bfs_enter.induct)
  case (1 ok q R)
  then show ?case by simp
next
  case (2 ok x xs q R)
  show ?case
  proof (cases "ok x \<and> x \<notin> R")
    case False
    with 2 have "bfs_enter ok xs q R = (q', R')" by (auto split: if_splits)
    with 2(1,2) False show ?thesis by (cases "ok x") auto
  next
    case True
    with 2(4) have "bfs_enter ok xs (q @ [x]) (insert x R) = (q', R')" by simp
    with 2(3) True obtain new where "q' = (q @ [x]) @ new" "distinct new"
      "set new \<inter> insert x R = {}" "set new = {y \<in> set xs. ok y} - insert x R"
      "R' = insert x R \<union> {y \<in> set xs. ok y}" by blast
    with True show ?thesis by (intro exI [of _ "x # new"]) auto
  qed
qed

lemma bfs_enter_measure:
  fixes R :: "'a::finite set"
  assumes "bfs_enter ok xs q R = (q', R')"
  shows "card (UNIV - R') + length q' = card (UNIV - R) + length q"
proof -
  obtain new where new: "q' = q @ new" "distinct new" "set new \<inter> R = {}" "R' = R \<union> set new"
    using bfs_enter_spec [OF assms] by auto
  have "UNIV - R = (UNIV - R') \<union> set new" "(UNIV - R') \<inter> set new = {}" using new by auto
  then have "card (UNIV - R) = card (UNIV - R') + length new"
    using new(2) by (simp add: card_Un_disjoint distinct_card)
  then show ?thesis using new(1) by simp
qed

function bfs_loop ::
  "('a::finite \<Rightarrow> bool) \<Rightarrow> ('a \<Rightarrow> 'a list) \<Rightarrow> 'a list \<Rightarrow> 'a set \<Rightarrow> 'a set"
where
  "bfs_loop ok succs [] R = R"
| "bfs_loop ok succs (x # q) R =
     (case bfs_enter ok (succs x) q R of (q', R') \<Rightarrow> bfs_loop ok succs q' R')"
  by pat_completeness auto
termination
proof (relation "measure (\<lambda>(ok, succs, q, R). card (UNIV - R) + length q)", goal_cases)
  case (2 ok succs x q R q' R')
  from bfs_enter_measure [OF 2 [symmetric]] show ?case by simp
qed simp

declare bfs_loop.simps [simp del]

text \<open>What a walk computes: the closure of the accepted roots under the accepted edges.\<close>

definition edges :: "('a \<Rightarrow> bool) \<Rightarrow> ('a \<Rightarrow> 'a list) \<Rightarrow> ('a \<times> 'a) set" where
  "edges ok succs = {(x, y). y \<in> set (succs x) \<and> ok y}"

definition closure :: "('a \<Rightarrow> bool) \<Rightarrow> ('a \<Rightarrow> 'a list) \<Rightarrow> 'a list \<Rightarrow> 'a set" where
  "closure ok succs roots = (edges ok succs)\<^sup>* `` {x \<in> set roots. ok x}"

lemma bfs_loop_spec:
  assumes "set q \<subseteq> R" "\<And>x y. x \<in> R \<Longrightarrow> x \<notin> set q \<Longrightarrow> (x, y) \<in> edges ok succs \<Longrightarrow> y \<in> R"
  shows "bfs_loop ok succs q R = (edges ok succs)\<^sup>* `` R"
  using assms
proof (induction ok succs q R rule: bfs_loop.induct)
  case (1 ok succs R)
  have "(edges ok succs)\<^sup>* `` R \<subseteq> R"
  proof
    fix y assume "y \<in> (edges ok succs)\<^sup>* `` R"
    then obtain x where "(x, y) \<in> (edges ok succs)\<^sup>*" "x \<in> R" by blast
    then show "y \<in> R" by (induction rule: rtrancl_induct) (use 1(2) in auto)
  qed
  then show ?case by (auto simp: bfs_loop.simps)
next
  case (2 ok succs x q R)
  obtain q' R' where e: "bfs_enter ok (succs x) q R = (q', R')" by fastforce
  then obtain new where new: "q' = q @ new" "set new = {y \<in> set (succs x). ok y} - R"
    "R' = R \<union> {y \<in> set (succs x). ok y}"
    using bfs_enter_spec by blast
  have "bfs_loop ok succs q' R' = (edges ok succs)\<^sup>* `` R'"
  proof (rule 2(1) [OF e [symmetric]])
    show "set q' \<subseteq> R'" using new 2(2) by auto
    show "z \<in> R'" if "y \<in> R'" "y \<notin> set q'" "(y, z) \<in> edges ok succs" for y z
    proof (cases "y = x")
      case True
      with that(3) new(3) show ?thesis by (auto simp: edges_def)
    next
      case False
      with that new have "y \<in> R" "y \<notin> set (x # q)" by auto
      with 2(3) that(3) new(3) show ?thesis by blast
    qed
  qed
  moreover have "(edges ok succs)\<^sup>* `` R' = (edges ok succs)\<^sup>* `` R"
  proof -
    have "{y \<in> set (succs x). ok y} \<subseteq> (edges ok succs)\<^sup>* `` R"
      using 2(2) by (auto simp: edges_def intro!: r_into_rtrancl)
    then have "R' \<subseteq> (edges ok succs)\<^sup>* `` R" unfolding new(3) by auto
    then have "(edges ok succs)\<^sup>* `` R' \<subseteq> (edges ok succs)\<^sup>* `` R"
      by (metis Image_mono dual_order.refl relcomp_Image rtrancl_idemp_self_comp)
    then show ?thesis using new(3) by auto
  qed
  ultimately show ?case by (simp add: bfs_loop.simps e)
qed

lemma bfs_closure:
  assumes "bfs_enter ok roots [] {} = (q, R)"
  shows "bfs_loop ok succs q R = closure ok succs roots"
proof -
  from bfs_enter_spec [OF assms] have "set q = R" "R = {x \<in> set roots. ok x}" by auto
  then show ?thesis unfolding closure_def by (subst bfs_loop_spec) auto
qed

section \<open>\<open>ReachableFrom\<close>\<close>

definition children :: "graph \<Rightarrow> object_id \<Rightarrow> object_id list" where
  "children gr i = ob_children (gr_objects gr ! unat i)"

definition reachable_from :: "graph option \<Rightarrow> root_ref list \<Rightarrow> object_id set" where
  "reachable_from g roots =
     (case g of
        None \<Rightarrow> {}
      | Some gr \<Rightarrow>
          if roots = [] then {}
          else
            (case bfs_enter (valid_id g) (map rr_object_id roots) [] {} of
               (queue, reachable) \<Rightarrow> bfs_loop (valid_id g) (children gr) queue reachable))"

lemma reachable_from_closure:
  "reachable_from (Some gr) roots =
    closure (valid_id (Some gr)) (children gr) (map rr_object_id roots)"
proof (cases "roots = []")
  case False
  obtain q R where e: "bfs_enter (valid_id (Some gr)) (map rr_object_id roots) [] {} = (q, R)"
    by fastforce
  from bfs_closure [OF this] False show ?thesis by (simp add: reachable_from_def e)
qed (simp add: reachable_from_def closure_def)

lemma reachable_from_valid: "i \<in> reachable_from g roots \<Longrightarrow> valid_id g i"
proof (cases g)
  case (Some gr)
  assume "i \<in> reachable_from g roots"
  then obtain x where "(x, i) \<in> (edges (valid_id g) (children gr))\<^sup>*" "valid_id g x"
    by (auto simp: Some reachable_from_closure closure_def)
  then show ?thesis by (induction rule: rtrancl_induct) (auto simp: edges_def)
qed (simp add: reachable_from_def)

end
