(* ===== verification/GraphPath.thy ===== *)
theory GraphPath
  imports ObjectGraph
begin

text \<open>
  Shortest witness paths (\<open>internal/snapshotgraph/path.go\<close>). The map \<open>seen\<close> is the list of its
  entries in the order they were added, which is the order of the queue; the queue is kept as
  the entries that \<open>head\<close> has not reached. Following predecessors is bounded by the number of
  seen objects, which \<open>find_path\<close> never exhausts.
\<close>

section \<open>Definitions\<close>

record witness =
  wi_found :: bool
  wi_search_limited :: bool
  wi_root_index :: int
  wi_objects :: "object_id list"
  wi_references :: "reference list"

record predecessor =
  pd_parent :: object_id
  pd_root :: int
  pd_has_parent :: bool

record search =
  sr_seen :: "(object_id \<times> predecessor) list"
  sr_queue :: "object_id list"
  sr_limited :: bool

definition no_witness :: witness where
  "no_witness = \<lparr>wi_found = False, wi_search_limited = False, wi_root_index = -1,
     wi_objects = [], wi_references = []\<rparr>"

text \<open>\<open>if err := ctx.Err(); err != nil { return out, err }\<close>\<close>

definition ctx_poll :: "(ctx, unit) es" where
  "ctx_poll c = (case ctx_err c of (Some e, _) \<Rightarrow> Inl e | (None, c') \<Rightarrow> Inr ((), c'))"

definition path_add :: "graph \<Rightarrow> int \<Rightarrow> object_id \<Rightarrow> predecessor \<Rightarrow> search \<Rightarrow> search" where
  "path_add g max_visited i p st =
     (if \<not> valid_id (Some g) i then st
      else if map_of (sr_seen st) i \<noteq> None then st
      else if max_visited > 0 \<and> int (length (sr_seen st)) \<ge> max_visited then
        st\<lparr>sr_limited := True\<rparr>
      else st\<lparr>sr_seen := sr_seen st @ [(i, p)], sr_queue := sr_queue st @ [i]\<rparr>)"

fun path_roots ::
  "graph \<Rightarrow> int \<Rightarrow> int \<Rightarrow> root_ref list \<Rightarrow> search \<Rightarrow> (ctx, search) es"
where
  "path_roots g max_visited k [] st = es_return st"
| "path_roots g max_visited k (r # rs) st =
     es_bind ctx_poll (\<lambda>_.
     path_roots g max_visited (k + 1) rs
       (path_add g max_visited (rr_object_id r)
         \<lparr>pd_parent = 0, pd_root = k, pd_has_parent = False\<rparr> st))"

fun path_children ::
  "graph \<Rightarrow> int \<Rightarrow> nat \<Rightarrow> object_id list \<Rightarrow> predecessor \<Rightarrow> search \<Rightarrow> (ctx, search) es"
where
  "path_children g max_visited k [] p st = es_return st"
| "path_children g max_visited k (c # cs) p st =
     es_bind (if k mod 1024 = 0 then ctx_poll else es_return ()) (\<lambda>_.
     path_children g max_visited (k + 1) cs p (path_add g max_visited c p st))"

definition pred_of :: "(object_id \<times> predecessor) list \<Rightarrow> object_id \<Rightarrow> predecessor" where
  "pred_of seen i = (case map_of seen i of Some p \<Rightarrow> p
     | None \<Rightarrow> \<lparr>pd_parent = 0, pd_root = 0, pd_has_parent = False\<rparr>)"

fun trace_back :: "nat \<Rightarrow> (object_id \<times> predecessor) list \<Rightarrow> object_id \<Rightarrow> object_id list option" where
  "trace_back 0 seen i = None"
| "trace_back (Suc n) seen i =
     (let p = pred_of seen i
      in if \<not> pd_has_parent p then Some [i]
         else map_option ((#) i) (trace_back n seen (pd_parent p)))"

definition step_reference :: "graph \<Rightarrow> object_id \<Rightarrow> object_id \<Rightarrow> reference" where
  "step_reference g a b =
     (let none = \<lparr>rf_target = b, rf_pointer = 0, rf_offset = 0, rf_offset_known = False\<rparr>
      in if unat a < length (gr_references g) then
           (case find (\<lambda>r. rf_target r = b) (gr_references g ! unat a) of
              None \<Rightarrow> none | Some r \<Rightarrow> r)
         else none)"

fun step_references :: "graph \<Rightarrow> object_id list \<Rightarrow> reference list" where
  "step_references g (a # b # xs) = step_reference g a b # step_references g (b # xs)"
| "step_references g _ = []"

definition found_witness :: "graph \<Rightarrow> (object_id \<times> predecessor) list \<Rightarrow> object_id \<Rightarrow> witness" where
  "found_witness g seen target =
     (case trace_back (length seen) seen target of
        None \<Rightarrow> no_witness
      | Some back \<Rightarrow>
          \<lparr>wi_found = True, wi_search_limited = False, wi_root_index = pd_root (pred_of seen target),
           wi_objects = rev back, wi_references = step_references g (rev back)\<rparr>)"

lemma path_add_measure:
  "card (UNIV - fst ` set (sr_seen (path_add g mv i p st))) + length (sr_queue (path_add g mv i p st)) =
   card (UNIV - fst ` set (sr_seen st)) + length (sr_queue st)"
proof (cases "map_of (sr_seen st) i = None")
  case True
  then have "i \<notin> fst ` set (sr_seen st)" by (simp add: map_of_eq_None_iff)
  then have "card (UNIV - fst ` set (sr_seen st)) = Suc (card (UNIV - insert i (fst ` set (sr_seen st))))"
    by (metis DiffI Diff_insert UNIV_I card_Suc_Diff1 finite)
  then show ?thesis by (simp add: path_add_def)
qed (simp add: path_add_def)

lemma path_children_measure:
  "path_children g mv k cs p st c = Inr (st', c') \<Longrightarrow>
   card (UNIV - fst ` set (sr_seen st')) + length (sr_queue st') =
   card (UNIV - fst ` set (sr_seen st)) + length (sr_queue st)"
  by (induction g mv k cs p st arbitrary: c rule: path_children.induct)
    (auto simp: es_bind_Inr path_add_measure)

function path_loop ::
  "graph \<Rightarrow> int \<Rightarrow> object_id \<Rightarrow> search \<Rightarrow> (ctx, witness) es"
where
  "path_loop g max_visited target st c =
     (case sr_queue st of
        [] \<Rightarrow> Inr (no_witness\<lparr>wi_search_limited := sr_limited st\<rparr>, c)
      | i # queue \<Rightarrow>
          (case ctx_poll c of
             Inl e \<Rightarrow> Inl e
           | Inr (_, c1) \<Rightarrow>
               if i = target then Inr (found_witness g (sr_seen st) target, c1)
               else
                 (case path_children g max_visited 0 (children g i)
                     \<lparr>pd_parent = i, pd_root = pd_root (pred_of (sr_seen st) i), pd_has_parent = True\<rparr>
                     (st\<lparr>sr_queue := queue\<rparr>) c1 of
                    Inl e \<Rightarrow> Inl e
                  | Inr (st', c2) \<Rightarrow> path_loop g max_visited target st' c2)))"
  by pat_completeness auto
termination
  by (relation "measure (\<lambda>(g, mv, target, st, c).
      card (UNIV - fst ` set (sr_seen st)) + length (sr_queue st))")
    (auto dest!: path_children_measure)

declare path_loop.simps [simp del]

text \<open>
  The result is the witness and the error. Only the last poll, after the queue is empty, can
  report an error together with a witness other than the initial one.
\<close>

definition find_path ::
  "ctx \<Rightarrow> graph option \<Rightarrow> root_ref list \<Rightarrow> object_id \<Rightarrow> int \<Rightarrow> witness \<times> go_error option"
where
  "find_path c g roots target max_visited =
     (case ctx_poll c of
        Inl e \<Rightarrow> (no_witness, Some e)
      | Inr (_, c1) \<Rightarrow>
          (case g of
             None \<Rightarrow> (no_witness, None)
           | Some gr \<Rightarrow>
               if \<not> valid_id g target then (no_witness, None)
               else
                 (case path_roots gr max_visited 0 roots
                     \<lparr>sr_seen = [], sr_queue = [], sr_limited = False\<rparr> c1 of
                    Inl e \<Rightarrow> (no_witness, Some e)
                  | Inr (st, c2) \<Rightarrow>
                      (case path_loop gr max_visited target st c2 of
                         Inl e \<Rightarrow> (no_witness, Some e)
                       | Inr (w, c3) \<Rightarrow> (w, if wi_found w then None else fst (ctx_err c3))))))"

section \<open>The search invariant\<close>

text \<open>
  \<open>d\<close> is the depth at which an object entered the search. An entry without a parent is a root;
  an entry with one was found on an edge from an earlier entry, one level below it.
\<close>

definition entry_ok ::
  "graph \<Rightarrow> root_ref list \<Rightarrow> (object_id \<Rightarrow> nat) \<Rightarrow> (object_id \<times> predecessor) list \<Rightarrow>
    object_id \<times> predecessor \<Rightarrow> bool"
where
  "entry_ok g roots d prev e \<longleftrightarrow>
     (let (i, p) = e in
      valid_id (Some g) i \<and> i \<notin> fst ` set prev \<and>
      (if pd_has_parent p
       then \<exists>q. map_of prev (pd_parent p) = Some q \<and> i \<in> set (children g (pd_parent p)) \<and>
              d i = Suc (d (pd_parent p)) \<and> pd_root p = pd_root q
       else d i = 0 \<and> 0 \<le> pd_root p \<and> pd_root p < int (length roots) \<and>
              i = rr_object_id (roots ! nat (pd_root p))))"

definition entries_ok ::
  "graph \<Rightarrow> root_ref list \<Rightarrow> (object_id \<Rightarrow> nat) \<Rightarrow> (object_id \<times> predecessor) list \<Rightarrow> bool"
where
  "entries_ok g roots d seen \<longleftrightarrow>
     (\<forall>k < length seen. entry_ok g roots d (take k seen) (seen ! k))"

lemma entries_ok_Nil [simp]: "entries_ok g roots d []"
  by (simp add: entries_ok_def)

lemma entries_ok_snoc:
  "entries_ok g roots d (seen @ [e]) \<longleftrightarrow> entries_ok g roots d seen \<and> entry_ok g roots d seen e"
  by (auto simp: entries_ok_def nth_append less_Suc_eq)

lemma map_of_prefix: "map_of prev x = Some q \<Longrightarrow> map_of (prev @ rest) x = Some q"
  by (simp add: map_add_Some_iff)

lemma entries_ok_cong:
  assumes "\<And>i. i \<in> fst ` set seen \<Longrightarrow> d' i = d i"
  shows "entries_ok g roots d' seen = entries_ok g roots d seen"
  using assms
proof (induction seen rule: rev_induct)
  case (snoc e seen)
  obtain i p where e: "e = (i, p)" by fastforce
  have "entry_ok g roots d' seen e = entry_ok g roots d seen e"
  proof -
    have "d' (pd_parent p) = d (pd_parent p)" if "map_of seen (pd_parent p) = Some q" for q
    proof -
      have "pd_parent p \<in> fst ` set seen" using map_of_SomeD [OF that] by (rule image_eqI [rotated]) simp
      then show ?thesis using snoc.prems by simp
    qed
    moreover have "d' i = d i" using snoc.prems by (simp add: e)
    ultimately show ?thesis by (auto simp: entry_ok_def e)
  qed
  with snoc show ?case by (simp add: entries_ok_snoc)
qed simp

lemma entries_ok_distinct: "entries_ok g roots d seen \<Longrightarrow> distinct (map fst seen)"
  by (induction seen rule: rev_induct) (auto simp: entries_ok_snoc entry_ok_def split: prod.splits)

text \<open>Every seen object, read bk from the final list.\<close>

lemma entries_ok_map_of:
  "entries_ok g roots d seen \<Longrightarrow> map_of seen i = Some p \<Longrightarrow>
    valid_id (Some g) i \<and> d i < length seen \<and>
    (if pd_has_parent p
     then \<exists>q. map_of seen (pd_parent p) = Some q \<and> i \<in> set (children g (pd_parent p)) \<and>
            d i = Suc (d (pd_parent p)) \<and> pd_root p = pd_root q
     else d i = 0 \<and> 0 \<le> pd_root p \<and> pd_root p < int (length roots) \<and>
            i = rr_object_id (roots ! nat (pd_root p)))"
proof (induction seen arbitrary: i p rule: rev_induct)
  case (snoc e seen)
  obtain j r where e: "e = (j, r)" by fastforce
  from snoc.prems(1) have ok: "entries_ok g roots d seen" "entry_ok g roots d seen (j, r)"
    by (simp_all add: entries_ok_snoc e)
  show ?case
  proof (cases "map_of seen i")
    case (Some p')
    with snoc.prems(2) have "p' = p" by (simp add: e map_add_def split: option.splits)
    with snoc.IH [OF ok(1) Some] show ?thesis
      by (cases "pd_has_parent p") (auto dest: map_of_prefix)
  next
    case None
    with snoc.prems(2) have ij: "i = j" "p = r" by (auto simp: e map_add_def split: if_splits)
    show ?thesis
      using ok(2) snoc.IH [OF ok(1)] unfolding ij
      by (cases "pd_has_parent r") (auto simp: entry_ok_def dest: map_of_prefix)
  qed
qed simp

section \<open>Paths\<close>

fun graph_path :: "graph \<Rightarrow> object_id list \<Rightarrow> bool" where
  "graph_path g [] = False"
| "graph_path g [x] = valid_id (Some g) x"
| "graph_path g (x # y # xs) =
     (valid_id (Some g) x \<and> y \<in> set (children g x) \<and> graph_path g (y # xs))"

lemma graph_path_snoc:
  "graph_path g (xs @ [x]) \<Longrightarrow> y \<in> set (children g x) \<Longrightarrow> valid_id (Some g) y \<Longrightarrow>
    graph_path g (xs @ [x, y])"
  by (induction g xs rule: graph_path.induct) (auto)

lemma graph_path_edges:
  "graph_path g (x # xs) \<Longrightarrow> (x, last (x # xs)) \<in> (edges (valid_id (Some g)) (children g))\<^sup>*"
proof (induction xs arbitrary: x)
  case (Cons y xs)
  then have "graph_path g (y # xs)" "y \<in> set (children g x)" by simp_all
  moreover have "valid_id (Some g) y" using \<open>graph_path g (y # xs)\<close> by (cases xs) auto
  ultimately have "(x, y) \<in> edges (valid_id (Some g)) (children g)" by (simp add: edges_def)
  with Cons.IH [OF \<open>graph_path g (y # xs)\<close>] show ?case
    by (simp add: converse_rtrancl_into_rtrancl)
qed simp

lemma graph_path_valid: "graph_path g xs \<Longrightarrow> x \<in> set xs \<Longrightarrow> valid_id (Some g) x"
  by (induction g xs rule: graph_path.induct) auto

lemma graph_path_nth:
  "graph_path g xs \<Longrightarrow> Suc k < length xs \<Longrightarrow>
    xs ! Suc k \<in> set (children g (xs ! k)) \<and> valid_id (Some g) (xs ! Suc k)"
proof (induction g xs arbitrary: k rule: graph_path.induct)
  case (3 g x y xs)
  show ?case
  proof (cases k)
    case 0
    with 3 graph_path_valid [of g "y # xs" y] show ?thesis by simp
  next
    case (Suc j)
    with 3 show ?thesis by simp
  qed
qed auto

lemma trace_back_path:
  assumes ok: "entries_ok g roots d seen"
  shows "map_of seen i = Some p \<Longrightarrow> d i < n \<Longrightarrow>
    \<exists>bk. trace_back n seen i = Some bk \<and> length bk = Suc (d i) \<and> hd bk = i \<and>
      graph_path g (rev bk) \<and> 0 \<le> pd_root p \<and> pd_root p < int (length roots) \<and>
      last bk = rr_object_id (roots ! nat (pd_root p))"
proof (induction "d i" arbitrary: i p n)
  case 0
  from 0(3) obtain m where n: "n = Suc m" by (cases n) auto
  from entries_ok_map_of [OF ok 0(2)] 0(1) show ?case
    by (auto simp: n pred_of_def 0(2) split: if_splits)
next
  case (Suc k)
  from Suc(4) obtain m where n: "n = Suc m" "d i < Suc m" by (cases n) auto
  from entries_ok_map_of [OF ok Suc(3)] Suc(2) obtain q where
    p: "pd_has_parent p" "map_of seen (pd_parent p) = Some q" "i \<in> set (children g (pd_parent p))"
      "d i = Suc (d (pd_parent p))" "pd_root p = pd_root q" and i: "valid_id (Some g) i"
    by (auto split: if_splits)
  from Suc(1) [OF _ p(2), of m] p(4) Suc(2) n obtain bk where
    bk: "trace_back m seen (pd_parent p) = Some bk" "length bk = Suc (d (pd_parent p))"
      "hd bk = pd_parent p" "graph_path g (rev bk)" "0 \<le> pd_root q"
      "pd_root q < int (length roots)" "last bk = rr_object_id (roots ! nat (pd_root q))"
    by auto
  from bk(2,3) obtain bs where bs: "bk = pd_parent p # bs" by (cases bk) auto
  have "graph_path g (rev (i # bk))"
    using graph_path_snoc [OF _ p(3) i, of "rev bs"] bk(4) by (simp add: bs)
  with bk p show ?case
    by (simp add: n pred_of_def Suc(3) bs)
qed

section \<open>Invariant of the loops\<close>

text \<open>
  \<open>covered\<close>: the accepted children of an expanded object were entered at most one level below
  it, or the limit stopped them when every seen object was at most that deep.
\<close>

definition covered :: "graph \<Rightarrow> (object_id \<Rightarrow> nat) \<Rightarrow> search \<Rightarrow> nat \<Rightarrow> object_id \<Rightarrow> bool" where
  "covered g d st lev c \<longleftrightarrow>
     (valid_id (Some g) c \<longrightarrow>
        (c \<in> fst ` set (sr_seen st) \<and> d c \<le> lev) \<or>
        (sr_limited st \<and> (\<forall>y \<in> fst ` set (sr_seen st). d y \<le> lev)))"

definition search_ok ::
  "graph \<Rightarrow> root_ref list \<Rightarrow> int \<Rightarrow> (object_id \<Rightarrow> nat) \<Rightarrow> object_id list \<Rightarrow> search \<Rightarrow> bool"
where
  "search_ok g roots mv d dn st \<longleftrightarrow>
     entries_ok g roots d (sr_seen st) \<and> map fst (sr_seen st) = dn @ sr_queue st \<and>
     sorted (map d (dn @ sr_queue st)) \<and>
     (sr_limited st \<longrightarrow> 0 < mv \<and> mv \<le> int (length (sr_seen st)))"

text \<open>One call of \<open>add\<close> for a candidate one level below the deepest object.\<close>

lemma path_add_step:
  assumes ok: "search_ok g roots mv d dn st"
    and deep: "\<And>y. y \<in> fst ` set (sr_seen st) \<Longrightarrow> d y \<le> lev"
    and p: "valid_id (Some g) c \<Longrightarrow> c \<notin> fst ` set (sr_seen st) \<Longrightarrow>
      entry_ok g roots (d(c := lev)) (sr_seen st) (c, p)"
  obtains d' where "search_ok g roots mv d' dn (path_add g mv c p st)"
    "\<And>y. y \<in> fst ` set (sr_seen st) \<Longrightarrow> d' y = d y"
    "\<And>y. y \<in> fst ` set (sr_seen (path_add g mv c p st)) \<Longrightarrow> d' y \<le> lev"
    "covered g d' (path_add g mv c p st) lev c"
    "\<And>l x. covered g d st l x \<Longrightarrow> covered g d' (path_add g mv c p st) l x"
proof -
  consider (invalid) "\<not> valid_id (Some g) c" | (seen) "c \<in> fst ` set (sr_seen st)"
    | (limit) "valid_id (Some g) c" "c \<notin> fst ` set (sr_seen st)" "mv > 0 \<and> int (length (sr_seen st)) \<ge> mv"
    | (new) "valid_id (Some g) c" "c \<notin> fst ` set (sr_seen st)" "\<not> (mv > 0 \<and> int (length (sr_seen st)) \<ge> mv)"
    by blast
  then show ?thesis
  proof cases
    case invalid
    then have "path_add g mv c p st = st" by (simp add: path_add_def)
    then show ?thesis using that [of d] ok deep invalid by (auto simp: covered_def)
  next
    case seen
    then have "path_add g mv c p st = st" by (simp add: path_add_def map_of_eq_None_iff)
    then show ?thesis using that [of d] ok deep seen by (auto simp: covered_def)
  next
    case limit
    then have "path_add g mv c p st = st\<lparr>sr_limited := True\<rparr>"
      by (simp add: path_add_def map_of_eq_None_iff)
    then show ?thesis using that [of d] ok deep limit by (auto simp: covered_def search_ok_def)
  next
    case new
    then have add: "path_add g mv c p st =
        st\<lparr>sr_seen := sr_seen st @ [(c, p)], sr_queue := sr_queue st @ [c]\<rparr>"
      by (auto simp: path_add_def map_of_eq_None_iff)
    let ?d = "d(c := lev)"
    have same: "?d y = d y" if "y \<in> fst ` set (sr_seen st)" for y using that new(2) by auto
    have "entries_ok g roots ?d (sr_seen st)"
      using entries_ok_cong [of "sr_seen st" ?d d] same ok by (simp add: search_ok_def)
    then have ent: "entries_ok g roots ?d (sr_seen st @ [(c, p)])"
      using p [OF new(1,2)] by (simp add: entries_ok_snoc)
    have keys: "map fst (sr_seen st) = dn @ sr_queue st" using ok by (simp add: search_ok_def)
    have mem: "y \<in> fst ` set (sr_seen st)" if "y \<in> set (dn @ sr_queue st)" for y
      using that unfolding keys [symmetric] by simp
    have m: "map ?d (dn @ sr_queue st @ [c]) = map d (dn @ sr_queue st) @ [lev]"
      using same mem by auto
    have "sorted (map d (dn @ sr_queue st) @ [lev])"
    proof -
      have "\<forall>x \<in> set (map d (dn @ sr_queue st)). x \<le> lev" using deep mem by auto
      moreover have "sorted (map d (dn @ sr_queue st))" using ok unfolding search_ok_def by blast
      ultimately show ?thesis unfolding sorted_append by auto
    qed
    then have srt: "sorted (map ?d (dn @ sr_queue st @ [c]))" unfolding m .
    have "search_ok g roots mv ?d dn (path_add g mv c p st)"
      unfolding add search_ok_def search.simps
      using ent ok new(3) keys srt by (auto simp: search_ok_def)
    moreover have "\<not> sr_limited st" using ok new(3) by (auto simp: search_ok_def)
    ultimately show ?thesis
    proof (intro that [of ?d])
      show "?d y \<le> lev" if "y \<in> fst ` set (sr_seen (path_add g mv c p st))" for y
        using that deep unfolding add by auto
      show "covered g ?d (path_add g mv c p st) lev c" unfolding add by (simp add: covered_def)
      show "covered g ?d (path_add g mv c p st) l x" if "covered g d st l x" for l x
        using that same \<open>\<not> sr_limited st\<close> unfolding add covered_def by auto
    qed (use same in blast)+
  qed
qed

lemma path_add_seen: "\<exists>new. sr_seen (path_add g mv c p st) = sr_seen st @ new"
  by (simp add: path_add_def)

lemma path_children_inv:
  assumes "search_ok g roots mv d dn st" "\<And>y. y \<in> fst ` set (sr_seen st) \<Longrightarrow> d y \<le> Suc (d i)"
    "map_of (sr_seen st) i = Some q" "p = \<lparr>pd_parent = i, pd_root = pd_root q, pd_has_parent = True\<rparr>"
    "set cs \<subseteq> set (children g i)" "path_children g mv k cs p st c = Inr (st', c')"
  shows "\<exists>d'. search_ok g roots mv d' dn st' \<and> (\<forall>y \<in> fst ` set (sr_seen st). d' y = d y) \<and>
    (\<forall>y \<in> fst ` set (sr_seen st'). d' y \<le> Suc (d i)) \<and>
    (\<forall>x \<in> set cs. covered g d' st' (Suc (d i)) x) \<and>
    (\<forall>l x. covered g d st l x \<longrightarrow> covered g d' st' l x)"
  using assms
proof (induction cs arbitrary: k d st c)
  case Nil
  then show ?case by (intro exI [of _ d]) simp
next
  case (Cons x cs)
  let ?st = "path_add g mv x p st"
  from Cons.prems(6) obtain c1 where rest: "path_children g mv (k + 1) cs p ?st c1 = Inr (st', c')"
    by (auto simp: es_bind_Inr)
  have ent: "entry_ok g roots (d(x := Suc (d i))) (sr_seen st) (x, p)"
    if "valid_id (Some g) x" "x \<notin> fst ` set (sr_seen st)"
  proof -
    have "i \<in> fst ` set (sr_seen st)" using map_of_SomeD [OF Cons.prems(3)] by force
    then have "x \<noteq> i" using that(2) by blast
    then show ?thesis using that Cons.prems(3,5) by (auto simp: entry_ok_def Cons.prems(4))
  qed
  obtain d1 where d1: "search_ok g roots mv d1 dn ?st"
    "\<And>y. y \<in> fst ` set (sr_seen st) \<Longrightarrow> d1 y = d y"
    "\<And>y. y \<in> fst ` set (sr_seen ?st) \<Longrightarrow> d1 y \<le> Suc (d i)"
    "covered g d1 ?st (Suc (d i)) x" "\<And>l x. covered g d st l x \<Longrightarrow> covered g d1 ?st l x"
    by (rule path_add_step [OF Cons.prems(1,2) ent]) blast+
  have i: "d1 i = d i" using d1(2) map_of_SomeD [OF Cons.prems(3)] by force
  obtain new where new: "sr_seen ?st = sr_seen st @ new" using path_add_seen by blast
  have "map_of (sr_seen ?st) i = Some q"
    unfolding new by (rule map_of_prefix) (rule Cons.prems(3))
  from Cons.IH [OF d1(1) _ this Cons.prems(4) _ rest] d1(3) Cons.prems(5) obtain d' where
    d': "search_ok g roots mv d' dn st'" "\<forall>y \<in> fst ` set (sr_seen ?st). d' y = d1 y"
    "\<forall>y \<in> fst ` set (sr_seen st'). d' y \<le> Suc (d i)"
    "\<forall>x \<in> set cs. covered g d' st' (Suc (d i)) x" "\<forall>l x. covered g d1 ?st l x \<longrightarrow> covered g d' st' l x"
    unfolding i by auto
  moreover have "\<forall>y \<in> fst ` set (sr_seen st). d' y = d y"
    using d'(2) d1(2) by (simp add: new)
  ultimately show ?case using d1(4,5) by (intro exI [of _ d']) auto
qed

lemma path_roots_inv:
  assumes "search_ok g roots mv d [] st" "\<And>y. y \<in> fst ` set (sr_seen st) \<Longrightarrow> d y \<le> 0"
    "roots = before @ rs" "path_roots g mv (int (length before)) rs st c = Inr (st', c')"
    "\<And>r. r \<in> set before \<Longrightarrow> covered g d st 0 (rr_object_id r)"
  shows "\<exists>d'. search_ok g roots mv d' [] st' \<and> (\<forall>y \<in> fst ` set (sr_seen st'). d' y \<le> 0) \<and>
    (\<forall>r \<in> set roots. covered g d' st' 0 (rr_object_id r))"
  using assms
proof (induction rs arbitrary: before d st c)
  case Nil
  then show ?case by (intro exI [of _ d]) simp
next
  case (Cons r rs)
  let ?p = "\<lparr>pd_parent = 0, pd_root = int (length before), pd_has_parent = False\<rparr>"
  let ?st = "path_add g mv (rr_object_id r) ?p st"
  from Cons.prems(4) obtain c1 where
    rest: "path_roots g mv (int (length (before @ [r]))) rs ?st c1 = Inr (st', c')"
    by (auto simp: es_bind_Inr add.commute)
  have ent: "entry_ok g roots (d(rr_object_id r := 0)) (sr_seen st) (rr_object_id r, ?p)"
    if "valid_id (Some g) (rr_object_id r)" "rr_object_id r \<notin> fst ` set (sr_seen st)"
    using that Cons.prems(3) by (auto simp: entry_ok_def)
  obtain d1 where d1: "search_ok g roots mv d1 [] ?st"
    "\<And>y. y \<in> fst ` set (sr_seen ?st) \<Longrightarrow> d1 y \<le> 0"
    "covered g d1 ?st 0 (rr_object_id r)" "\<And>l x. covered g d st l x \<Longrightarrow> covered g d1 ?st l x"
    by (rule path_add_step [OF Cons.prems(1,2) ent]) blast+
  have "covered g d1 ?st 0 (rr_object_id x)" if "x \<in> set (before @ [r])" for x
    using that d1(3,4) Cons.prems(5) by auto
  with Cons.IH [OF d1(1,2) _ rest] Cons.prems(3) show ?case by simp
qed

section \<open>The main loop\<close>

text \<open>\<open>dn\<close> lists the expanded objects.\<close>

definition bfs_inv ::
  "graph \<Rightarrow> root_ref list \<Rightarrow> int \<Rightarrow> (object_id \<Rightarrow> nat) \<Rightarrow> object_id list \<Rightarrow> search \<Rightarrow> bool"
where
  "bfs_inv g roots mv d dn st \<longleftrightarrow>
     search_ok g roots mv d dn st \<and>
     (sr_queue st \<noteq> [] \<longrightarrow> (\<forall>y \<in> fst ` set (sr_seen st). d y \<le> Suc (d (hd (sr_queue st))))) \<and>
     (\<forall>x \<in> set dn. \<forall>c \<in> set (children g x). covered g d st (Suc (d x)) c) \<and>
     (\<forall>r \<in> set roots. covered g d st 0 (rr_object_id r))"

definition loop_inv ::
  "graph \<Rightarrow> root_ref list \<Rightarrow> int \<Rightarrow> object_id \<Rightarrow> (object_id \<Rightarrow> nat) \<Rightarrow> object_id list \<Rightarrow> search \<Rightarrow> bool"
where
  "loop_inv g roots mv target d dn st \<longleftrightarrow> bfs_inv g roots mv d dn st \<and> target \<notin> set dn"

lemma loop_inv_bfs: "loop_inv g roots mv target d dn st \<Longrightarrow> bfs_inv g roots mv d dn st"
  by (simp add: loop_inv_def)

lemma loop_inv_sorted:
  assumes "loop_inv g roots mv target d dn st" "x \<in> set dn" "y \<in> set (sr_queue st)"
  shows "d x \<le> d y"
proof -
  have "sorted (map d (dn @ sr_queue st))"
    using assms(1) unfolding loop_inv_def bfs_inv_def search_ok_def by blast
  then show ?thesis using assms(2,3) by (auto simp: sorted_append)
qed

lemma loop_inv_hd:
  assumes "loop_inv g roots mv target d dn st" "sr_queue st = i # q" "y \<in> set (sr_queue st)"
  shows "d i \<le> d y"
proof -
  have "sorted (map d (dn @ i # q))"
    using assms(1,2) unfolding loop_inv_def bfs_inv_def search_ok_def by metis
  then show ?thesis using assms(2,3) by (auto simp: sorted_append)
qed

lemma bfs_inv_step:
  assumes inv: "bfs_inv g roots mv d dn st" and q: "sr_queue st = i # queue"
    and run: "path_children g mv 0 (children g i)
      \<lparr>pd_parent = i, pd_root = pd_root (pred_of (sr_seen st) i), pd_has_parent = True\<rparr>
      (st\<lparr>sr_queue := queue\<rparr>) c = Inr (st', c')"
  shows "\<exists>d'. bfs_inv g roots mv d' (dn @ [i]) st' \<and> (\<forall>y \<in> fst ` set (sr_seen st). d' y = d y)"
proof -
  let ?st = "st\<lparr>sr_queue := queue\<rparr>"
  from inv have ok: "search_ok g roots mv d dn st" by (simp add: bfs_inv_def)
  have ok1: "search_ok g roots mv d (dn @ [i]) ?st"
    using ok q unfolding search_ok_def by simp
  have "i \<in> set (map fst (sr_seen st))" using ok q by (simp only: search_ok_def) simp
  then obtain p where p: "map_of (sr_seen st) i = Some p"
    by (metis list.set_map map_of_eq_None_iff not_None_eq)
  have deep: "d y \<le> Suc (d i)" if "y \<in> fst ` set (sr_seen ?st)" for y
    using inv q that by (auto simp: bfs_inv_def)
  have cov: "covered g d ?st l x = covered g d st l x" for l x by (simp add: covered_def)
  from path_children_inv [OF ok1 deep _ _ order_refl run, of p] p obtain d' where
    d': "search_ok g roots mv d' (dn @ [i]) st'" "\<forall>y \<in> fst ` set (sr_seen st). d' y = d y"
    "\<forall>y \<in> fst ` set (sr_seen st'). d' y \<le> Suc (d i)"
    "\<forall>x \<in> set (children g i). covered g d' st' (Suc (d i)) x"
    "\<forall>l x. covered g d st l x \<longrightarrow> covered g d' st' l x"
    by (auto simp: pred_of_def cov)
  have seen: "x \<in> fst ` set (sr_seen st)" if "x \<in> set (dn @ [i])" for x
  proof -
    have "x \<in> set (map fst (sr_seen st))" using ok q that by (simp only: search_ok_def) auto
    then show ?thesis by simp
  qed
  have "i \<in> fst ` set (sr_seen st)" by (rule seen) simp
  with d'(2) have di: "d' i = d i" by blast
  have "d' y \<le> Suc (d' (hd (sr_queue st')))"
    if "sr_queue st' \<noteq> []" "y \<in> fst ` set (sr_seen st')" for y
  proof -
    from that(1) obtain h t where h: "sr_queue st' = h # t" by (cases "sr_queue st'") auto
    have "sorted (map d' ((dn @ [i]) @ h # t))"
      using d'(1) h unfolding search_ok_def by metis
    then have "d' i \<le> d' h" by (auto simp: sorted_append)
    with d'(3) that(2) h di show ?thesis by fastforce
  qed
  moreover have "covered g d' st' (Suc (d' x)) c" if "x \<in> set (dn @ [i])" "c \<in> set (children g x)" for x c
  proof (cases "x = i")
    case True
    with that d'(4) di show ?thesis by simp
  next
    case False
    with that have "covered g d st (Suc (d x)) c" using inv by (simp add: bfs_inv_def)
    moreover have "d' x = d x" using d'(2) seen [OF that(1)] by blast
    ultimately show ?thesis using d'(5) by simp
  qed
  moreover have "\<forall>r \<in> set roots. covered g d' st' 0 (rr_object_id r)"
    using inv d'(5) by (simp add: bfs_inv_def)
  ultimately show ?thesis
    using d'(1,2) inv by (intro exI [of _ d']) (auto simp: bfs_inv_def)
qed

lemma loop_inv_step:
  assumes inv: "loop_inv g roots mv target d dn st" and q: "sr_queue st = i # queue" and i: "i \<noteq> target"
    and run: "path_children g mv 0 (children g i)
      \<lparr>pd_parent = i, pd_root = pd_root (pred_of (sr_seen st) i), pd_has_parent = True\<rparr>
      (st\<lparr>sr_queue := queue\<rparr>) c = Inr (st', c')"
  shows "\<exists>d'. loop_inv g roots mv target d' (dn @ [i]) st'"
  using bfs_inv_step [OF loop_inv_bfs [OF inv] q run] inv i by (auto simp: loop_inv_def)

lemma path_loop_inv:
  assumes "path_loop g mv target st c = Inr (w, c')" "loop_inv g roots mv target d dn st"
  shows "\<exists>d dn st'. loop_inv g roots mv target d dn st' \<and>
    ((\<exists>q. sr_queue st' = target # q \<and> w = found_witness g (sr_seen st') target) \<or>
     (sr_queue st' = [] \<and> w = no_witness\<lparr>wi_search_limited := sr_limited st'\<rparr>))"
  using assms
proof (induction g mv target st c arbitrary: d dn rule: path_loop.induct)
  case (1 g mv target st c)
  show ?case
  proof (cases "sr_queue st")
    case Nil
    with 1(2,3) show ?thesis
      by (intro exI [of _ d] exI [of _ dn] exI [of _ st]) (simp add: path_loop.simps [of g mv target st])
  next
    case (Cons i queue)
    from 1(2) Cons obtain c1 where poll: "ctx_poll c = Inr ((), c1)"
      by (auto simp: path_loop.simps [of g mv target st] split: sum.splits)
    show ?thesis
    proof (cases "i = target")
      case True
      with 1(2,3) Cons poll show ?thesis
        by (intro exI [of _ d] exI [of _ dn] exI [of _ st])
          (auto simp: path_loop.simps [of g mv target st])
    next
      case False
      from 1(2) Cons poll False obtain st' c2 where
        run: "path_children g mv 0 (children g i)
          \<lparr>pd_parent = i, pd_root = pd_root (pred_of (sr_seen st) i), pd_has_parent = True\<rparr>
          (st\<lparr>sr_queue := queue\<rparr>) c1 = Inr (st', c2)"
        and rest: "path_loop g mv target st' c2 = Inr (w, c')"
        by (auto simp: path_loop.simps [of g mv target st] split: sum.splits)
      from loop_inv_step [OF 1(3) Cons False run] obtain d' where
        inv: "loop_inv g roots mv target d' (dn @ [i]) st'" by blast
      from 1(1) [OF Cons poll refl False run refl rest inv] show ?thesis .
    qed
  qed
qed

text \<open>
  No path reaches an object with fewer edges than its depth, and unless the limit stopped the
  search, every path stays inside the seen objects.
\<close>

lemma covered_path:
  assumes inv: "bfs_inv g roots mv d dn st"
    and path: "graph_path g xs" "hd xs \<in> rr_object_id ` set roots"
    and front: "\<And>x. x \<in> fst ` set (sr_seen st) \<Longrightarrow> x \<notin> set dn \<Longrightarrow> lev \<le> d x"
    and top: "\<exists>y \<in> fst ` set (sr_seen st). lev \<le> d y" and k: "k < length xs" "k < lev"
  shows "xs ! k \<in> fst ` set (sr_seen st) \<and> d (xs ! k) \<le> k"
  using k
proof (induction k)
  case 0
  have v: "valid_id (Some g) (xs ! 0)" using graph_path_valid [OF path(1)] 0 by simp
  from path obtain r where r: "r \<in> set roots" "xs ! 0 = rr_object_id r"
    by (metis graph_path.simps(1) hd_conv_nth imageE)
  then have "covered g d st 0 (xs ! 0)" using inv by (simp add: loop_inv_def bfs_inv_def)
  with v top 0 show ?case by (fastforce simp: covered_def)
next
  case (Suc k)
  then have ih: "xs ! k \<in> fst ` set (sr_seen st)" "d (xs ! k) \<le> k" by simp_all
  with front [of "xs ! k"] Suc have "xs ! k \<in> set dn" by force
  moreover note step = graph_path_nth [OF path(1) Suc.prems(1)]
  ultimately have "covered g d st (Suc (d (xs ! k))) (xs ! Suc k)"
    using inv unfolding loop_inv_def bfs_inv_def by blast
  with step top ih(2) Suc.prems(2) show ?case by (fastforce simp: covered_def)
qed

section \<open>What a search finds\<close>

lemma path_start:
  assumes "path_roots g mv 0 roots \<lparr>sr_seen = [], sr_queue = [], sr_limited = False\<rparr> c = Inr (st, c')"
  shows "\<exists>d. loop_inv g roots mv target d [] st"
proof -
  let ?st = "\<lparr>sr_seen = [], sr_queue = [], sr_limited = False\<rparr>"
  have "search_ok g roots mv (\<lambda>_. 0) [] ?st" by (simp add: search_ok_def)
  from path_roots_inv [OF this, of "[]" roots c st c'] assms obtain d' where
    "search_ok g roots mv d' [] st" "\<forall>y \<in> fst ` set (sr_seen st). d' y \<le> 0"
    "\<forall>r \<in> set roots. covered g d' st 0 (rr_object_id r)" by auto
  then show ?thesis by (intro exI [of _ d']) (auto simp: loop_inv_def bfs_inv_def)
qed

lemma find_path_cases:
  assumes "find_path c (Some g) roots target mv = (w, err)" "valid_id (Some g) target"
  shows "(w = no_witness \<and> err \<noteq> None) \<or>
    (\<exists>d dn st. loop_inv g roots mv target d dn st \<and>
      ((\<exists>q. sr_queue st = target # q \<and> w = found_witness g (sr_seen st) target) \<or>
       (sr_queue st = [] \<and> w = no_witness\<lparr>wi_search_limited := sr_limited st\<rparr>)))"
proof (cases "ctx_poll c")
  case (Inl e)
  then show ?thesis using assms by (auto simp: find_path_def)
next
  case (Inr p)
  then obtain c1 where c1: "ctx_poll c = Inr ((), c1)" by (cases p) auto
  show ?thesis
  proof (cases "path_roots g mv 0 roots \<lparr>sr_seen = [], sr_queue = [], sr_limited = False\<rparr> c1")
    case (Inl e)
    then show ?thesis using assms c1 by (auto simp: find_path_def)
  next
    case (Inr q)
    then obtain st c2 where st: "path_roots g mv 0 roots
        \<lparr>sr_seen = [], sr_queue = [], sr_limited = False\<rparr> c1 = Inr (st, c2)" by (cases q) auto
    show ?thesis
    proof (cases "path_loop g mv target st c2")
      case (Inl e)
      then show ?thesis using assms c1 st by (auto simp: find_path_def)
    next
      case (Inr r)
      then obtain c3 where "path_loop g mv target st c2 = Inr (w, c3)"
        using assms c1 st by (cases r) (simp add: find_path_def)
      moreover obtain d where "loop_inv g roots mv target d [] st" using path_start [OF st] by blast
      ultimately show ?thesis using path_loop_inv by blast
    qed
  qed
qed

lemma step_references_parallel:
  "length (step_references g xs) = length xs - 1 \<and> map rf_target (step_references g xs) = tl xs"
proof (induction g xs rule: step_references.induct)
  case (1 g a b xs)
  have "rf_target (step_reference g a b) = b"
    by (auto simp: step_reference_def Let_def find_Some_iff split: option.splits)
  with 1 show ?case by simp
qed simp_all

lemma find_path_shortest:
  assumes run: "find_path c (Some g) roots target mv = (w, err)" and found: "wi_found w"
  shows "err = None" "graph_path g (wi_objects w)" "last (wi_objects w) = target"
    "0 \<le> wi_root_index w" "wi_root_index w < int (length roots)"
    "hd (wi_objects w) = rr_object_id (roots ! nat (wi_root_index w))"
    "map rf_target (wi_references w) = tl (wi_objects w)"
    "graph_path g xs \<Longrightarrow> hd xs \<in> rr_object_id ` set roots \<Longrightarrow> last xs = target \<Longrightarrow>
      length (wi_objects w) \<le> length xs"
proof -
  have v: "valid_id (Some g) target"
    using run found by (auto simp: find_path_def no_witness_def split: sum.splits if_splits)
  show "err = None"
    using run found by (auto simp: find_path_def no_witness_def split: sum.splits if_splits)
  from find_path_cases [OF run v] found obtain d dn st q where
    inv: "loop_inv g roots mv target d dn st" and q: "sr_queue st = target # q"
    and w: "w = found_witness g (sr_seen st) target"
    by (auto simp: no_witness_def)
  have ok: "entries_ok g roots d (sr_seen st)"
    and keys: "map fst (sr_seen st) = dn @ target # q"
    using inv q by (auto simp: loop_inv_def bfs_inv_def search_ok_def)
  have "target \<in> set (map fst (sr_seen st))" unfolding keys by simp
  then obtain p where p: "map_of (sr_seen st) target = Some p"
    by (metis list.set_map map_of_eq_None_iff not_None_eq)
  from entries_ok_map_of [OF ok p] have "d target < length (sr_seen st)" by simp
  from trace_back_path [OF ok p this] obtain bk where
    bk: "trace_back (length (sr_seen st)) (sr_seen st) target = Some bk" "length bk = Suc (d target)"
      "hd bk = target" "graph_path g (rev bk)" "0 \<le> pd_root p" "pd_root p < int (length roots)"
      "last bk = rr_object_id (roots ! nat (pd_root p))" by blast
  have ne: "bk \<noteq> []" using bk(2) by auto
  have w': "wi_objects w = rev bk" "wi_root_index w = pd_root p"
    "wi_references w = step_references g (rev bk)"
    using bk(1) p by (simp_all add: w found_witness_def pred_of_def)
  show "graph_path g (wi_objects w)" "last (wi_objects w) = target" "0 \<le> wi_root_index w"
    "wi_root_index w < int (length roots)"
    "hd (wi_objects w) = rr_object_id (roots ! nat (wi_root_index w))"
    "map rf_target (wi_references w) = tl (wi_objects w)"
    using bk ne by (simp_all add: w' last_rev hd_rev step_references_parallel)
  show "length (wi_objects w) \<le> length xs"
    if xs: "graph_path g xs" "hd xs \<in> rr_object_id ` set roots" "last xs = target"
  proof (rule ccontr)
    assume "\<not> length (wi_objects w) \<le> length xs"
    then have short: "length xs \<le> d target" by (simp add: w' bk(2))
    have nx: "xs \<noteq> []" using xs(1) by auto
    have front: "d target \<le> d x" if "x \<in> fst ` set (sr_seen st)" "x \<notin> set dn" for x
    proof -
      have "x \<in> set (map fst (sr_seen st))" using that(1) by simp
      then have "x \<in> set (sr_queue st)" using that(2) unfolding keys q by simp
      then show ?thesis by (rule loop_inv_hd [OF inv q])
    qed
    have "target \<in> fst ` set (sr_seen st)" using p map_of_SomeD by force
    then have "\<exists>y \<in> fst ` set (sr_seen st). d target \<le> d y" by blast
    from covered_path [OF loop_inv_bfs [OF inv] xs(1,2) front this, of "length xs - 1"] nx short
    have "d (xs ! (length xs - 1)) \<le> length xs - 1" by (cases xs) auto
    moreover have "xs ! (length xs - 1) = target" using xs(3) nx by (simp add: last_conv_nth)
    ultimately show False using short nx by (cases xs) auto
  qed
qed

lemma closure_path:
  assumes "target \<in> reachable_from (Some g) roots"
  shows "\<exists>xs. graph_path g xs \<and> hd xs \<in> rr_object_id ` set roots \<and> last xs = target"
proof -
  from assms obtain x where "(x, target) \<in> (edges (valid_id (Some g)) (children g))\<^sup>*"
    "x \<in> rr_object_id ` set roots" "valid_id (Some g) x"
    by (auto simp: reachable_from_closure closure_def)
  then have "\<exists>ys. graph_path g (ys @ [target]) \<and> hd (ys @ [target]) = x"
  proof (induction rule: rtrancl_induct)
    case base
    then show ?case by (intro exI [of _ "[]"]) simp
  next
    case (step y z)
    then obtain ys where ys: "graph_path g (ys @ [y])" "hd (ys @ [y]) = x" by blast
    with step(2) have "graph_path g ((ys @ [y]) @ [z])"
      using graph_path_snoc [of g ys y z] by (simp add: edges_def)
    moreover have "hd ((ys @ [y]) @ [z]) = x" using ys(2) by (cases ys) auto
    ultimately show ?case by blast
  qed
  then obtain ys where "graph_path g (ys @ [target])" "hd (ys @ [target]) = x" by blast
  then show ?thesis using \<open>x \<in> _\<close> by (intro exI [of _ "ys @ [target]"]) auto
qed

lemma path_closure:
  assumes "graph_path g xs" "hd xs \<in> rr_object_id ` set roots"
  shows "last xs \<in> reachable_from (Some g) roots"
proof -
  obtain x ys where xs: "xs = x # ys" using assms(1) by (cases xs) auto
  have "valid_id (Some g) x" using graph_path_valid [OF assms(1)] xs by simp
  moreover have "(x, last xs) \<in> (edges (valid_id (Some g)) (children g))\<^sup>*"
    using graph_path_edges assms(1) xs by blast
  ultimately show ?thesis
    using assms(2) xs by (auto simp: reachable_from_closure closure_def)
qed

text \<open>A search that empties its queue without meeting the limit has seen everything reachable.\<close>

lemma bfs_complete:
  assumes inv: "bfs_inv g roots mv d dn st" and q: "sr_queue st = []" and lim: "\<not> sr_limited st"
  shows "fst ` set (sr_seen st) = set dn" "reachable_from (Some g) roots \<subseteq> set dn"
proof -
  have "map fst (sr_seen st) = dn" using inv q by (simp add: bfs_inv_def search_ok_def)
  then show seen: "fst ` set (sr_seen st) = set dn" by (metis list.set_map)
  show "reachable_from (Some g) roots \<subseteq> set dn"
  proof
    fix target assume "target \<in> reachable_from (Some g) roots"
    then obtain xs where xs: "graph_path g xs" "hd xs \<in> rr_object_id ` set roots" "last xs = target"
      using closure_path by blast
    have "xs ! k \<in> set dn" if "k < length xs" for k
      using that
    proof (induction k)
      case 0
      from xs(2) obtain r where "r \<in> set roots" "xs ! 0 = rr_object_id r"
        using 0 by (auto simp: hd_conv_nth)
      then have "covered g d st 0 (xs ! 0)" using inv by (simp add: bfs_inv_def)
      with lim seen graph_path_valid [OF xs(1) nth_mem [OF 0]] show ?case by (simp add: covered_def)
    next
      case (Suc k)
      from graph_path_nth [OF xs(1) Suc.prems] Suc have
        "xs ! Suc k \<in> set (children g (xs ! k))" "valid_id (Some g) (xs ! Suc k)" "xs ! k \<in> set dn"
        by simp_all
      then have "covered g d st (Suc (d (xs ! k))) (xs ! Suc k)"
        using inv unfolding bfs_inv_def by blast
      with lim seen \<open>valid_id (Some g) (xs ! Suc k)\<close> show ?case by (simp add: covered_def)
    qed
    from this [of "length xs - 1"] xs show "target \<in> set dn"
      by (cases xs) (auto simp: last_conv_nth)
  qed
qed

text \<open>The depth of a seen object is a lower bound of the length of the paths to it.\<close>

lemma bfs_depth_le:
  assumes inv: "bfs_inv g roots mv d dn st" and q: "sr_queue st = []" and t: "last xs \<in> set dn"
    and xs: "graph_path g xs" "hd xs \<in> rr_object_id ` set roots"
  shows "Suc (d (last xs)) \<le> length xs"
proof (rule ccontr)
  assume "\<not> Suc (d (last xs)) \<le> length xs"
  then have short: "length xs \<le> d (last xs)" by simp
  have nx: "xs \<noteq> []" using xs(1) by auto
  have keys: "map fst (sr_seen st) = dn" using inv q by (simp add: bfs_inv_def search_ok_def)
  then have seen: "fst ` set (sr_seen st) = set dn" by (metis list.set_map)
  have top: "\<exists>y \<in> fst ` set (sr_seen st). d (last xs) \<le> d y" using t seen by blast
  from covered_path [OF inv xs _ top, of "length xs - 1"] nx short seen
  have "d (xs ! (length xs - 1)) \<le> length xs - 1" by (cases xs) auto
  then have "d (last xs) \<le> length xs - 1" by (simp add: last_conv_nth [OF nx])
  then show False using short nx by (cases xs) simp_all
qed

text \<open>
  A search that ends without a witness, an error or hitting its limit is proof of absence.
\<close>

lemma find_path_absent:
  assumes run: "find_path c (Some g) roots target mv = (w, None)"
    and none: "\<not> wi_found w" "\<not> wi_search_limited w"
  shows "target \<notin> reachable_from (Some g) roots"
proof (cases "valid_id (Some g) target")
  case False
  then show ?thesis using reachable_from_valid by blast
next
  case True
  have nf: "wi_found (found_witness g (sr_seen st) target)"
    if inv: "loop_inv g roots mv target d dn st" and q: "sr_queue st = target # q" for d dn st q
  proof -
    have ok: "entries_ok g roots d (sr_seen st)" and keys: "map fst (sr_seen st) = dn @ target # q"
      using inv q by (auto simp: loop_inv_def bfs_inv_def search_ok_def)
    have "target \<in> set (map fst (sr_seen st))" unfolding keys by simp
    then obtain p where p: "map_of (sr_seen st) target = Some p"
      by (metis list.set_map map_of_eq_None_iff not_None_eq)
    from entries_ok_map_of [OF ok p] have "d target < length (sr_seen st)" by simp
    from trace_back_path [OF ok p this] show ?thesis by (auto simp: found_witness_def)
  qed
  from find_path_cases [OF run True] none nf obtain d dn st where
    inv: "loop_inv g roots mv target d dn st" and q: "sr_queue st = []"
    and "w = no_witness\<lparr>wi_search_limited := sr_limited st\<rparr>" by auto
  then have lim: "\<not> sr_limited st" using none(2) by simp
  from bfs_complete [OF loop_inv_bfs [OF inv] q lim] inv show ?thesis
    by (auto simp: loop_inv_def)
qed

end
