(* ===== verification/GraphBuild.thy ===== *)
theory GraphBuild
  imports GraphPath
begin

text \<open>
  Building the analysis of a snapshot (\<open>internal/snapshotgraph/build.go\<close>): object identifiers,
  address ranges, deduplicated edges, goroutine and global roots, and the reach-derived
  counters of \<open>ComputeReachability\<close>. The context is threaded through as the state; the
  receivers the Go code mutates are explicit. \<open>sort.Slice\<close> sorts ranges whose starts are
  distinct, so the stable sort of the model is the only one.
\<close>

section \<open>Objects and ranges\<close>

record build_state =
  bs_objects :: "gobject list"
  bs_by_addr :: "u64 \<rightharpoonup> object_id"
  bs_ranges :: "object_range list"
  bs_warnings :: "message list"
  bs_zero_addr_warned :: bool
  bs_zero_sized_warned :: bool

definition bs_warn :: "string \<Rightarrow> fmt_arg list \<Rightarrow> build_state \<Rightarrow> build_state" where
  "bs_warn f args st = st\<lparr>bs_warnings := bs_warnings st @ [Fmt f args]\<rparr>"

text \<open>The overflow guard on the identifier, then the append.\<close>

definition append_object :: "heap_object \<Rightarrow> build_state \<Rightarrow> go_error + object_id \<times> build_state" where
  "append_object src st =
     (if int (length (bs_objects st)) > 4294967295 then
        Inl (Errorf (Fmt ''snapshotgraph: object count %d overflows ObjectID (uint32 max)''
          [FI (int (length (bs_objects st)))]))
      else
        let i = of_nat (length (bs_objects st))
        in Inr (i, st\<lparr>bs_objects := bs_objects st @
             [\<lparr>ob_id = i, ob_addr = ho_addr src, ob_size = ho_size src, ob_children = []\<rparr>]\<rparr>))"

definition add_range :: "build_options \<Rightarrow> heap_object \<Rightarrow> object_id \<Rightarrow> build_state \<Rightarrow> go_error + build_state"
where
  "add_range opts src i st =
     (if ho_size src = 0 then
        Inr (if bs_zero_sized_warned st then st
             else (bs_warn ''zero-sized object at 0x%x; not registered for interior-pointer lookup''
                    [FU (ho_addr src)] st)\<lparr>bs_zero_sized_warned := True\<rparr>)
      else
        let end_addr = ho_addr src + ho_size src
        in if end_addr < ho_addr src then
             (if bo_strict opts then
                Inl (Errorf (Fmt ''object 0x%x size %d overflows uint64'' [FU (ho_addr src), FU (ho_size src)]))
              else
                let st = bs_warn ''object 0x%x size %d overflows uint64; clamping range end''
                      [FU (ho_addr src), FU (ho_size src)] st
                in Inr (st\<lparr>bs_ranges := bs_ranges st @
                     [\<lparr>or_start = ho_addr src, or_end = max_uint64, or_id = i\<rparr>]\<rparr>))
           else
             Inr (st\<lparr>bs_ranges := bs_ranges st @
               [\<lparr>or_start = ho_addr src, or_end = end_addr, or_id = i\<rparr>]\<rparr>))"

definition add_object :: "build_options \<Rightarrow> heap_object \<Rightarrow> build_state \<Rightarrow> go_error + build_state" where
  "add_object opts src st =
     (if ho_addr src = 0 then
        (case append_object src st of
           Inl e \<Rightarrow> Inl e
         | Inr (_, st) \<Rightarrow>
             Inr (if bs_zero_addr_warned st then st
                  else (bs_warn ''object with address 0 ignored for direct lookup'' [] st)
                    \<lparr>bs_zero_addr_warned := True\<rparr>))
      else
        (case bs_by_addr st (ho_addr src) of
           Some existing \<Rightarrow>
             if bo_strict opts then
               Inl (Errorf (Fmt ''duplicate object address 0x%x'' [FU (ho_addr src)]))
             else
               (case append_object src (bs_warn ''duplicate object address 0x%x (existing ID %d)''
                   [FU (ho_addr src), FI (uint existing)] st) of
                  Inl e \<Rightarrow> Inl e
                | Inr (_, st) \<Rightarrow> Inr st)
         | None \<Rightarrow>
             (case append_object src st of
                Inl e \<Rightarrow> Inl e
              | Inr (i, st) \<Rightarrow>
                  add_range opts src i (st\<lparr>bs_by_addr := (bs_by_addr st)(ho_addr src \<mapsto> i)\<rparr>))))"

fun add_objects :: "build_options \<Rightarrow> heap_object list \<Rightarrow> build_state \<Rightarrow> (ctx, build_state) es" where
  "add_objects opts [] st = es_return st"
| "add_objects opts (src # srcs) st =
     es_bind ctx_poll (\<lambda>_.
     es_bind (es_lift (add_object opts src st)) (\<lambda>st.
     add_objects opts srcs st))"

fun overlap_loop ::
  "build_options \<Rightarrow> object_range \<Rightarrow> object_range list \<Rightarrow> message list \<Rightarrow> go_error + message list"
where
  "overlap_loop opts max_end [] ws = Inr ws"
| "overlap_loop opts max_end (cur # rs) ws =
     (if or_start cur < or_end max_end \<and> bo_strict opts then
        Inl (Errorf (Fmt ''overlapping object ranges at 0x%x'' [FU (or_start cur)]))
      else
        overlap_loop opts (if or_end cur > or_end max_end then cur else max_end) rs
          (if or_start cur < or_end max_end then
             ws @ [Fmt ''overlapping object ranges: 0x%x..0x%x and 0x%x..0x%x''
               [FU (or_start max_end), FU (or_end max_end), FU (or_start cur), FU (or_end cur)]]
           else ws))"

definition check_overlaps ::
  "build_options \<Rightarrow> object_range list \<Rightarrow> message list \<Rightarrow> go_error + message list"
where
  "check_overlaps opts rs ws =
     (case rs of [] \<Rightarrow> Inr ws | r # rs \<Rightarrow> overlap_loop opts r rs ws)"

section \<open>Edges\<close>

definition zero_stats :: graph_stats where
  "zero_stats = \<lparr>gs_objects = 0, gs_object_bytes = 0, gs_edges = 0, gs_raw_object_pointers = 0,
     gs_zero_object_pointers = 0, gs_resolved_object_pointers = 0, gs_unresolved_pointers = 0,
     gs_unresolved_object_pointers = 0, gs_unresolved_goroutine_roots = 0,
     gs_unresolved_global_roots = 0, gs_unresolved_finalizer_roots = 0, gs_goroutines = 0,
     gs_system_goroutines = 0, gs_goroutine_root_pointers = 0, gs_global_roots = 0,
     gs_goroutine_reachable_objects = 0, gs_global_reachable_objects = 0,
     gs_unreachable_objects = 0, gs_shared_by_goroutines_objects = 0\<rparr>"

record edge_state =
  ed_graph :: graph
  ed_seen :: "u32 list"
  ed_stats :: graph_stats

definition upd_ed_stats :: "(graph_stats \<Rightarrow> graph_stats) \<Rightarrow> edge_state \<Rightarrow> edge_state" where
  "upd_ed_stats f st = st\<lparr>ed_stats := f (ed_stats st)\<rparr>"

definition add_reference :: "object_id \<Rightarrow> reference \<Rightarrow> graph \<Rightarrow> graph" where
  "add_reference from_id ref g =
     g\<lparr>gr_references := (gr_references g)[unat from_id := gr_references g ! unat from_id @ [ref]]\<rparr>"

definition add_child :: "object_id \<Rightarrow> object_id \<Rightarrow> graph \<Rightarrow> graph" where
  "add_child from_id target g =
     (let ob = gr_objects g ! unat from_id
      in g\<lparr>gr_objects := (gr_objects g)[unat from_id := ob\<lparr>ob_children := ob_children ob @ [target]\<rparr>]\<rparr>)"

definition make_reference :: "heap_object \<Rightarrow> nat \<Rightarrow> u64 \<Rightarrow> object_id \<Rightarrow> reference" where
  "make_reference src pi ptr target =
     (if pi < length (ho_pointer_offsets src) then
        let off = ho_pointer_offsets src ! pi
        in \<lparr>rf_target = target, rf_pointer = ptr, rf_offset = off, rf_offset_known = (off < ho_size src)\<rparr>
      else \<lparr>rf_target = target, rf_pointer = ptr, rf_offset = 0, rf_offset_known = False\<rparr>)"

text \<open>One pointer of the source object \<open>src\<close> with identifier \<open>from_id\<close> and epoch stamp \<open>epoch\<close>.\<close>

definition add_edge ::
  "build_options \<Rightarrow> heap_object \<Rightarrow> object_id \<Rightarrow> u32 \<Rightarrow> nat \<Rightarrow> u64 \<Rightarrow> edge_state \<Rightarrow> edge_state"
where
  "add_edge opts src from_id epoch pi ptr st =
     (let st = upd_ed_stats (\<lambda>s. s\<lparr>gs_raw_object_pointers := gs_raw_object_pointers s + 1\<rparr>) st
      in if ptr = 0 then
           upd_ed_stats (\<lambda>s. s\<lparr>gs_zero_object_pointers := gs_zero_object_pointers s + 1\<rparr>) st
         else
           (case find_object_containing (Some (ed_graph st)) ptr of
              None \<Rightarrow>
                upd_ed_stats (\<lambda>s. s\<lparr>gs_unresolved_object_pointers := gs_unresolved_object_pointers s + 1\<rparr>) st
            | Some target \<Rightarrow>
                let st = upd_ed_stats (\<lambda>s. s\<lparr>gs_resolved_object_pointers := gs_resolved_object_pointers s + 1\<rparr>) st;
                    st = (if bo_keep_provenance opts
                          then st\<lparr>ed_graph := add_reference from_id (make_reference src pi ptr target) (ed_graph st)\<rparr>
                          else st)
                in if ed_seen st ! unat target = epoch then st
                   else st\<lparr>ed_seen := (ed_seen st)[unat target := epoch],
                           ed_graph := add_child from_id target (ed_graph st)\<rparr>))"

fun add_edges ::
  "build_options \<Rightarrow> heap_object \<Rightarrow> object_id \<Rightarrow> u32 \<Rightarrow> nat \<Rightarrow> u64 list \<Rightarrow> edge_state \<Rightarrow> (ctx, edge_state) es"
where
  "add_edges opts src from_id epoch pi [] st = es_return st"
| "add_edges opts src from_id epoch pi (ptr # ptrs) st =
     es_bind (if pi mod 1024 = 0 then ctx_poll else es_return ()) (\<lambda>_.
     add_edges opts src from_id epoch (pi + 1) ptrs (add_edge opts src from_id epoch pi ptr st))"

fun resolve_edges ::
  "build_options \<Rightarrow> nat \<Rightarrow> heap_object list \<Rightarrow> edge_state \<Rightarrow> (ctx, edge_state) es"
where
  "resolve_edges opts i [] st = es_return st"
| "resolve_edges opts i (src # srcs) st =
     es_bind ctx_poll (\<lambda>_.
     es_bind (add_edges opts src (ob_id (gr_objects (ed_graph st) ! i)) (of_nat i + 1) 0
         (ho_pointer_addrs src) st) (\<lambda>st.
     resolve_edges opts (i + 1) srcs st))"

definition poll_each :: "'a list \<Rightarrow> (ctx, unit) es" where
  "poll_each xs = es_each (\<lambda>_. ctx_poll) xs"

definition count_edges :: "gobject list \<Rightarrow> int" where
  "count_edges obs = (\<Sum>ob\<leftarrow>obs. int (length (ob_children ob)))"

section \<open>Goroutine roots\<close>

definition frame_info_of :: "build_options \<Rightarrow> stack_frame \<Rightarrow> frame_info option" where
  "frame_info_of opts fr =
     (if bo_keep_provenance opts then
        Some \<lparr>fi_sp = sf_sp fr, fi_depth = sf_depth fr, fi_entry_pc = sf_entry_pc fr,
              fi_current_pc = sf_current_pc fr, fi_continue_pc = sf_continue_pc fr\<rparr>
      else None)"

definition nth_or_zero :: "u64 list \<Rightarrow> nat \<Rightarrow> u64" where
  "nth_or_zero xs i = (if i < length xs then xs ! i else 0)"

text \<open>The state is the roots so far and the count of unresolved ones.\<close>

definition frame_root ::
  "build_options \<Rightarrow> graph \<Rightarrow> stack_frame \<Rightarrow> nat \<Rightarrow> u64 \<Rightarrow> root_ref list \<times> int \<Rightarrow> root_ref list \<times> int"
where
  "frame_root opts g fr pi ptr acc =
     (case acc of (roots, unresolved) \<Rightarrow>
        if ptr = 0 then acc
        else
          (case find_object_containing (Some g) ptr of
             None \<Rightarrow> (roots, unresolved + 1)
           | Some target \<Rightarrow>
               (roots @ [\<lparr>rr_object_id = target, rr_ptr = ptr,
                   rr_slot_addr = nth_or_zero (sf_pointer_slots fr) pi, rr_kind = ''stack'',
                   rr_detail = sf_func_name fr, rr_frame = frame_info_of opts fr\<rparr>], unresolved)))"

fun frame_roots ::
  "build_options \<Rightarrow> graph \<Rightarrow> stack_frame \<Rightarrow> nat \<Rightarrow> u64 list \<Rightarrow> root_ref list \<times> int \<Rightarrow>
    (ctx, root_ref list \<times> int) es"
where
  "frame_roots opts g fr pi [] acc = es_return acc"
| "frame_roots opts g fr pi (ptr # ptrs) acc =
     es_bind (if pi mod 1024 = 0 then ctx_poll else es_return ()) (\<lambda>_.
     frame_roots opts g fr (pi + 1) ptrs (frame_root opts g fr pi ptr acc))"

fun stack_roots ::
  "build_options \<Rightarrow> graph \<Rightarrow> stack_frame list \<Rightarrow> root_ref list \<times> int \<Rightarrow> (ctx, root_ref list \<times> int) es"
where
  "stack_roots opts g [] acc = es_return acc"
| "stack_roots opts g (fr # frs) acc =
     es_bind (frame_roots opts g fr 0 (sf_pointer_addrs fr) acc) (stack_roots opts g frs)"

definition sched_roots :: "graph \<Rightarrow> goroutine \<Rightarrow> root_ref list" where
  "sched_roots g gr =
     List.map_filter (\<lambda>(ptr, kind).
         if ptr = 0 then None
         else map_option (\<lambda>target. \<lparr>rr_object_id = target, rr_ptr = ptr, rr_slot_addr = 0,
                rr_kind = kind, rr_detail = [], rr_frame = None\<rparr>)
              (find_object_containing (Some g) ptr))
       [(g_context gr, ''sched.ctxt''), (g_defer gr, ''defer''), (g_panic gr, ''panic'')]"

fun goroutine_roots ::
  "build_options \<Rightarrow> graph \<Rightarrow> goroutine list \<Rightarrow> goroutine_reach list \<times> graph_stats \<Rightarrow>
    (ctx, goroutine_reach list \<times> graph_stats) es"
where
  "goroutine_roots opts g [] acc = es_return acc"
| "goroutine_roots opts g (gr # grs) (out, stats) =
     es_bind ctx_poll (\<lambda>_.
     es_bind (stack_roots opts g (g_frames gr) ([], 0)) (\<lambda>(roots, unresolved).
     let roots = roots @ sched_roots g gr
     in goroutine_roots opts g grs
          (out @ [\<lparr>gor_id = g_id gr, gor_is_system = g_is_system gr,
             gor_is_background = g_is_background gr, gor_roots = roots, gor_reachable = {}\<rparr>],
           stats\<lparr>gs_unresolved_goroutine_roots := gs_unresolved_goroutine_roots stats + unresolved,
             gs_system_goroutines := gs_system_goroutines stats + (if g_is_system gr then 1 else 0),
             gs_goroutine_root_pointers := gs_goroutine_root_pointers stats + int (length roots)\<rparr>)))"

section \<open>Global roots\<close>

record global_state =
  gl_roots :: "root_ref list"
  gl_seen :: "(string \<times> u64 \<times> u64 \<times> string) set"
  gl_unresolved :: int
  gl_unresolved_fin :: int

definition resolve_global_root ::
  "graph \<Rightarrow> string \<Rightarrow> u64 \<Rightarrow> u64 \<Rightarrow> string \<Rightarrow> global_state \<Rightarrow> global_state"
where
  "resolve_global_root g kind ptr slot detail st =
     (if ptr = 0 then st
      else
        let kind = (if kind = [] then ''otherroot'' else kind);
            key = (kind, ptr, slot, detail)
        in if key \<in> gl_seen st then st
           else
             let st = st\<lparr>gl_seen := insert key (gl_seen st)\<rparr>
             in (case find_object_containing (Some g) ptr of
                   None \<Rightarrow> st\<lparr>gl_unresolved := gl_unresolved st + 1\<rparr>
                 | Some target \<Rightarrow>
                     st\<lparr>gl_roots := gl_roots st @ [\<lparr>rr_object_id = target, rr_ptr = ptr,
                       rr_slot_addr = slot, rr_kind = kind, rr_detail = detail, rr_frame = None\<rparr>]\<rparr>))"

definition segment_slot :: "data_segment \<Rightarrow> int \<Rightarrow> slot_field \<Rightarrow> u64 option" where
  "segment_slot seg ptr_size f =
     (if fld_kind f = FieldKindPtr then
        Some (if fld_offset f \<le> max_uint64 - ds_addr seg then ds_addr seg + fld_offset f else 0)
      else if fld_kind f = FieldKindIface \<or> fld_kind f = FieldKindEface then
        Some (if (ptr_size = 4 \<or> ptr_size = 8) \<and> fld_offset f \<le> max_uint64 - word_of_int ptr_size \<and>
                 fld_offset f + word_of_int ptr_size \<le> max_uint64 - ds_addr seg
              then ds_addr seg + fld_offset f + word_of_int ptr_size else 0)
      else None)"

fun segment_slots :: "data_segment \<Rightarrow> int \<Rightarrow> slot_field list \<Rightarrow> u64 list \<Rightarrow> u64 list" where
  "segment_slots seg ptr_size [] slots = slots"
| "segment_slots seg ptr_size (f # fs) slots =
     (case segment_slot seg ptr_size f of
        None \<Rightarrow> segment_slots seg ptr_size fs slots
      | Some a \<Rightarrow>
          if length (slots @ [a]) = length (ds_pointer_addrs seg) then slots @ [a]
          else segment_slots seg ptr_size fs (slots @ [a]))"

definition data_segment_pointer_slots :: "data_segment \<Rightarrow> int \<Rightarrow> u64 list" where
  "data_segment_pointer_slots seg ptr_size =
     (if ds_fields seg = [] then [] else segment_slots seg ptr_size (ds_fields seg) [])"

definition add_segment_global_roots ::
  "graph \<Rightarrow> string \<Rightarrow> int \<Rightarrow> data_segment \<Rightarrow> global_state \<Rightarrow> global_state"
where
  "add_segment_global_roots g default_kind ptr_size seg st =
     (let kind = (if ds_kind seg = [] then default_kind else ds_kind seg);
          slots = (if length (ds_pointer_slots seg) = length (ds_pointer_addrs seg)
                   then ds_pointer_slots seg else data_segment_pointer_slots seg ptr_size)
      in fold (\<lambda>(i, ptr). resolve_global_root g kind ptr (nth_or_zero slots i) [])
           (zip [0..<length (ds_pointer_addrs seg)] (ds_pointer_addrs seg)) st)"

definition add_finalizer_root :: "graph \<Rightarrow> u64 \<Rightarrow> string \<Rightarrow> global_state \<Rightarrow> global_state" where
  "add_finalizer_root g ptr kind st =
     (if ptr = 0 then st
      else
        (case find_object_containing (Some g) ptr of
           None \<Rightarrow> st\<lparr>gl_unresolved_fin := gl_unresolved_fin st + 1\<rparr>
         | Some target \<Rightarrow>
             st\<lparr>gl_roots := gl_roots st @ [\<lparr>rr_object_id = target, rr_ptr = ptr, rr_slot_addr = 0,
               rr_kind = kind, rr_detail = [], rr_frame = None\<rparr>]\<rparr>))"

text \<open>A loop whose body begins with a poll of the context.\<close>

fun polled_fold :: "('a \<Rightarrow> 'b \<Rightarrow> 'b) \<Rightarrow> 'a list \<Rightarrow> 'b \<Rightarrow> (ctx, 'b) es" where
  "polled_fold f [] st = es_return st"
| "polled_fold f (x # xs) st = es_bind ctx_poll (\<lambda>_. polled_fold f xs (f x st))"

definition global_roots :: "graph \<Rightarrow> heap_snapshot \<Rightarrow> (ctx, global_state) es" where
  "global_roots g snap =
     (let psz = dp_ptr_size (hs_params snap);
          fin = (\<lambda>kind f st. add_finalizer_root g (fin_func_val f) kind
                   (add_finalizer_root g (fin_object_addr f) kind st))
      in es_bind (polled_fold (\<lambda>r. resolve_global_root g (rt_kind r) (rt_pointer_addr r)
             (rt_addr r) (rt_description r)) (hs_globals snap)
           \<lparr>gl_roots = [], gl_seen = {}, gl_unresolved = 0, gl_unresolved_fin = 0\<rparr>) (\<lambda>st.
         es_bind (polled_fold (add_segment_global_roots g ''data'' psz) (hs_data snap) st) (\<lambda>st.
         es_bind (polled_fold (add_segment_global_roots g ''bss'' psz) (hs_bss snap) st) (\<lambda>st.
         es_bind (polled_fold (fin ''finalizer'') (hs_finalizers snap) st) (\<lambda>st.
         polled_fold (fin ''queued_finalizer'') (hs_queued_finalizers snap) st)))))"

section \<open>The build\<close>

fun sum_bytes :: "gobject list \<Rightarrow> u64 \<Rightarrow> (ctx, u64) es" where
  "sum_bytes [] acc = es_return acc"
| "sum_bytes (ob # obs) acc =
     es_bind ctx_poll (\<lambda>_.
     if ob_size ob > max_uint64 - acc then
       es_fail (Errorf (Fmt ''snapshotgraph: total object bytes overflow uint64'' []))
     else sum_bytes obs (acc + ob_size ob))"

definition build_objects ::
  "build_options \<Rightarrow> heap_snapshot \<Rightarrow> (ctx, graph \<times> message list) es"
where
  "build_objects opts snap =
     es_bind (add_objects opts (hs_objects snap)
       \<lparr>bs_objects = [], bs_by_addr = Map.empty, bs_ranges = [],
        bs_warnings = map (\<lambda>w. Fmt ''parse: %s'' [FM w]) (hs_warnings snap),
        bs_zero_addr_warned = False, bs_zero_sized_warned = False\<rparr>) (\<lambda>st.
     let ranges = sort_key or_start (bs_ranges st)
     in es_bind (es_lift (check_overlaps opts ranges (bs_warnings st))) (\<lambda>ws.
     es_return (\<lparr>gr_objects = bs_objects st, gr_by_addr = bs_by_addr st,
       gr_references = (if bo_keep_provenance opts then replicate (length (bs_objects st)) [] else []),
       gr_ranges = ranges\<rparr>, ws)))"

definition build_run :: "heap_snapshot option \<Rightarrow> build_options \<Rightarrow> (ctx, analysis) es" where
  "build_run snap_opt opts =
      es_bind ctx_poll (\<lambda>_.
       case snap_opt of
         None \<Rightarrow> es_fail (Errorf (Fmt ''snapshotgraph: snapshot is nil'' []))
       | Some snap \<Rightarrow>
           es_bind (build_objects opts snap) (\<lambda>(g, ws).
           es_bind (resolve_edges opts 0 (hs_objects snap)
             \<lparr>ed_graph = g, ed_seen = replicate (length (gr_objects g)) 0, ed_stats = zero_stats\<rparr>) (\<lambda>st.
           let g = ed_graph st
           in es_bind (poll_each (gr_objects g)) (\<lambda>_.
           es_bind (goroutine_roots opts g (hs_goroutines snap)
             ([], (ed_stats st)\<lparr>gs_edges := count_edges (gr_objects g)\<rparr>)) (\<lambda>(gors, stats).
           es_bind (global_roots g snap) (\<lambda>gl.
           es_bind (sum_bytes (gr_objects g) 0) (\<lambda>bytes.
           es_bind ctx_poll (\<lambda>_.
           es_return
             \<lparr>an_graph = Some g, an_goroutines = gors,
              an_globals = \<lparr>glr_roots = gl_roots gl, glr_reachable = {}\<rparr>, an_warnings = ws,
              an_stats = stats\<lparr>gs_goroutines := int (length gors),
                gs_unresolved_global_roots := gl_unresolved gl,
                gs_unresolved_finalizer_roots := gl_unresolved_fin gl,
                gs_global_roots := int (length (gl_roots gl)),
                gs_unresolved_pointers := gs_unresolved_object_pointers stats +
                  gs_unresolved_goroutine_roots stats + gl_unresolved gl + gl_unresolved_fin gl,
                gs_objects := int (length (gr_objects g)), gs_object_bytes := bytes\<rparr>\<rparr>))))))))"

text \<open>The result alone, for callers that do not use the context afterwards.\<close>

definition build_context ::
  "ctx \<Rightarrow> heap_snapshot option \<Rightarrow> build_options \<Rightarrow> go_error + analysis"
where
  "build_context c snap_opt opts = map_sum id fst (build_run snap_opt opts c)"

section \<open>\<open>ComputeReachability\<close>\<close>

text \<open>\<open>goroutineOwners\<close> is the number of goroutines that reach an object.\<close>

definition owner_count :: "goroutine_reach list \<Rightarrow> object_id \<Rightarrow> nat" where
  "owner_count gs i = length (filter (\<lambda>g. i \<in> gor_reachable g) gs)"

definition compute_reachability :: "analysis option \<Rightarrow> analysis option" where
  "compute_reachability an =
     (case an of
        None \<Rightarrow> None
      | Some a \<Rightarrow>
          (case an_graph a of
             None \<Rightarrow> Some a
           | Some g \<Rightarrow>
               let gors = map (\<lambda>r. r\<lparr>gor_reachable := reachable_from (Some g) (gor_roots r)\<rparr>)
                     (an_goroutines a);
                   glr = reachable_from (Some g) (glr_roots (an_globals a));
                   owned = \<Union> (set (map gor_reachable gors));
                   shared = Set.filter (\<lambda>i. owner_count gors i > 1) owned;
                   unreachable = gs_objects (an_stats a) - int (card (owned \<union> glr))
               in Some (a\<lparr>an_goroutines := gors,
                    an_globals := (an_globals a)\<lparr>glr_reachable := glr\<rparr>,
                    an_stats := (an_stats a)\<lparr>
                      gs_goroutine_reachable_objects := int (card owned),
                      gs_shared_by_goroutines_objects := int (card shared),
                      gs_global_reachable_objects := int (card glr),
                      gs_unreachable_objects := (if unreachable < 0 then 0 else unreachable)\<rparr>\<rparr>)))"

end
