(* ===== verification/Pointers.thy ===== *)
theory Pointers
  imports HeapModel
begin

text \<open>
  Decoding the pointer words of a memory range (\<open>internal/heapdump/pointers.go\<close>). The byte
  orders are those of \<open>encoding/binary\<close>. \<open>extractPointers\<close> appends to slices and calls a
  warning function; the model returns what was appended and the warnings in order.
\<close>

section \<open>Byte orders\<close>

fun be_uint :: "byte list \<Rightarrow> u64 \<Rightarrow> u64" where
  "be_uint [] acc = acc"
| "be_uint (b # bs) acc = be_uint bs (push_bit 8 acc OR ucast b)"

definition order_uint :: "bool \<Rightarrow> byte list \<Rightarrow> u64" where
  "order_uint big bs = (if big then be_uint bs 0 else be_uint (rev bs) 0)"

definition put_uint :: "bool \<Rightarrow> nat \<Rightarrow> u64 \<Rightarrow> byte list" where
  "put_uint big n v =
     (let le = map (\<lambda>i. ucast (drop_bit (8 * i) v)) [0..<n] in if big then rev le else le)"

section \<open>Reading one pointer\<close>

definition read_pointer :: "byte list \<Rightarrow> u64 \<Rightarrow> int \<Rightarrow> bool \<Rightarrow> u64 option" where
  "read_pointer contents offset ptr_size big =
     (let size = (of_nat (length contents) :: u64) in
      if offset > size then None
      else if word_of_int ptr_size > size - offset then None
      else
        let end = offset + word_of_int ptr_size;
            slot = take (unat end - unat offset) (drop (unat offset) contents)
        in if ptr_size = 4 then Some (order_uint big slot)
           else if ptr_size = 8 then Some (order_uint big slot)
           else None)"

section \<open>Extracting the pointers of a range\<close>

record extraction =
  ex_targets :: "u64 list"
  ex_slots :: "u64 list"
  ex_warnings :: "message list"
  ex_iface :: int
  ex_eface :: int

definition no_extraction :: extraction where
  "no_extraction = \<lparr>ex_targets = [], ex_slots = [], ex_warnings = [], ex_iface = 0, ex_eface = 0\<rparr>"

definition ex_warn :: "string \<Rightarrow> fmt_arg list \<Rightarrow> extraction \<Rightarrow> extraction" where
  "ex_warn f args x = x\<lparr>ex_warnings := ex_warnings x @ [Fmt f args]\<rparr>"

text \<open>
  The closure \<open>record\<close>: \<open>want_slots\<close> is \<open>slots != nil\<close>. Every caller passes a destination
  for the targets.
\<close>

definition ex_record :: "bool \<Rightarrow> u64 \<Rightarrow> message \<Rightarrow> u64 \<Rightarrow> u64 \<Rightarrow> extraction \<Rightarrow> extraction" where
  "ex_record want_slots base context ptr offset x =
     (if want_slots then
        if offset > max_uint64 - base then
          ex_warn ''%s: pointer slot address overflows uint64'' [FM context] x
        else
          x\<lparr>ex_slots := ex_slots x @ [base + offset], ex_targets := ex_targets x @ [ptr]\<rparr>
      else x\<lparr>ex_targets := ex_targets x @ [ptr]\<rparr>)"

definition extract_field ::
  "byte list \<Rightarrow> int \<Rightarrow> bool \<Rightarrow> u64 \<Rightarrow> message \<Rightarrow> bool \<Rightarrow> slot_field \<Rightarrow> extraction \<Rightarrow> extraction"
where
  "extract_field contents ptr_size big base context want_slots f x =
     (if fld_kind f = FieldKindPtr then
        (case read_pointer contents (fld_offset f) ptr_size big of
           None \<Rightarrow>
             ex_warn ''%s: pointer field offset %d out of bounds for size %d''
               [FM context, FU (fld_offset f), FI (int (length contents))] x
         | Some ptr \<Rightarrow>
             if ptr \<noteq> 0 then ex_record want_slots base context ptr (fld_offset f) x else x)
      else if fld_kind f = FieldKindIface \<or> fld_kind f = FieldKindEface then
        let x = (if fld_kind f = FieldKindIface then x\<lparr>ex_iface := ex_iface x + 1\<rparr>
                 else x\<lparr>ex_eface := ex_eface x + 1\<rparr>);
            off = fld_offset f + word_of_int ptr_size
        in if fld_offset f > max_uint64 - word_of_int ptr_size then
             ex_warn ''%s: iface/eface data word offset overflows uint64'' [FM context] x
           else
             (case read_pointer contents off ptr_size big of
                None \<Rightarrow>
                  ex_warn ''%s: iface/eface data word at offset %d out of bounds for size %d''
                    [FM context, FU off, FI (int (length contents))] x
              | Some data_word \<Rightarrow>
                  if data_word \<noteq> 0 then ex_record want_slots base context data_word off x else x)
      else
        ex_warn ''%s: unknown field kind %d at offset %d''
          [FM context, FU (fld_kind f), FU (fld_offset f)] x)"

definition extract_pointers ::
  "byte list \<Rightarrow> slot_field list \<Rightarrow> int \<Rightarrow> bool \<Rightarrow> u64 \<Rightarrow> message \<Rightarrow> bool \<Rightarrow> extraction"
where
  "extract_pointers contents flds ptr_size big base context want_slots =
     (if ptr_size \<noteq> 4 \<and> ptr_size \<noteq> 8 then
        ex_warn ''%s: unsupported ptr size %d'' [FM context, FI ptr_size] no_extraction
      else fold (extract_field contents ptr_size big base context want_slots) flds no_extraction)"

section \<open>Correctness\<close>

lemma be_uint_append: "be_uint (xs @ ys) acc = be_uint ys (be_uint xs acc)"
  by (induction xs arbitrary: acc) auto

lemma be_uint_word:
  "be_uint (rev (map (\<lambda>i. ucast (drop_bit (8 * i) v)) [0..<n])) acc =
     push_bit (8 * n) acc OR take_bit (8 * n) v"
proof (induction n arbitrary: acc)
  case 0
  then show ?case by simp
next
  case (Suc n)
  have "push_bit (8 * n) (push_bit 8 acc OR ucast (ucast (drop_bit (8 * n) v) :: byte)) OR
      take_bit (8 * n) v = push_bit (8 * Suc n) acc OR take_bit (8 * Suc n) v"
  proof (rule bit_word_eqI)
    fix m assume m: "m < LENGTH(64)"
    consider "m < 8 * n" | "8 * n \<le> m" "m < 8 * n + 8" | "8 * n + 8 \<le> m" by linarith
    then show "bit (push_bit (8 * n) (push_bit 8 acc OR ucast (ucast (drop_bit (8 * n) v) :: byte)) OR
        take_bit (8 * n) v) m = bit (push_bit (8 * Suc n) acc OR take_bit (8 * Suc n) v) m"
      using m by cases
        (auto simp: bit_or_iff bit_push_bit_iff bit_take_bit_iff bit_unsigned_iff bit_drop_bit_eq
          diff_diff_left add.commute)
  qed
  with Suc show ?case by simp
qed

lemma order_uint_put:
  "order_uint big (put_uint big n v) = take_bit (8 * n) v"
  using be_uint_word [of v n 0] by (simp add: order_uint_def put_uint_def Let_def)

text \<open>
  A pointer is read exactly when the slot lies inside the range, with no wrap-around in the
  bounds check, and its value is the word stored there.
\<close>

lemma read_pointer_iff:
  assumes "ptr_size = 4 \<or> ptr_size = 8" "length contents < 2 ^ 64"
  shows "read_pointer contents offset ptr_size big =
    (if unat offset + nat ptr_size \<le> length contents
     then Some (order_uint big (take (nat ptr_size) (drop (unat offset) contents)))
     else None)"
proof -
  have len: "unat (of_nat (length contents) :: u64) = length contents"
    using assms(2) by (simp add: unsigned_of_nat take_bit_nat_eq_self)
  have psz: "unat (word_of_int ptr_size :: u64) = nat ptr_size"
    using assms(1) by auto
  show ?thesis
  proof (cases "unat offset \<le> length contents")
    case False
    then show ?thesis
      using len by (simp add: read_pointer_def Let_def word_less_nat_alt)
  next
    case True
    then have le: "offset \<le> of_nat (length contents)" by (simp add: word_le_nat_alt len)
    then have d: "unat ((of_nat (length contents) :: u64) - offset) = length contents - unat offset"
      by (simp add: unat_sub len)
    show ?thesis
    proof (cases "unat offset + nat ptr_size \<le> length contents")
      case False
      then show ?thesis using le d psz True
        by (auto simp: read_pointer_def Let_def word_less_nat_alt len)
    next
      case fit: True
      have "unat (offset + word_of_int ptr_size) = unat offset + nat ptr_size"
        using fit assms(2) psz unat_add_lem [of offset "word_of_int ptr_size"] by simp
      then show ?thesis
        using le d psz fit assms(1)
        by (auto simp: read_pointer_def Let_def word_less_nat_alt len)
    qed
  qed
qed

text \<open>
  What a field list denotes: for each field of a known kind whose word lies in the range and is
  not nil, the offset of that word and its value, in the order of the fields.
\<close>

definition slot_offset :: "int \<Rightarrow> slot_field \<Rightarrow> nat option" where
  "slot_offset ptr_size f =
     (if fld_kind f = FieldKindPtr then Some (unat (fld_offset f))
      else if fld_kind f = FieldKindIface \<or> fld_kind f = FieldKindEface
      then Some (unat (fld_offset f) + nat ptr_size)
      else None)"

definition slot_word :: "byte list \<Rightarrow> int \<Rightarrow> bool \<Rightarrow> slot_field \<Rightarrow> (nat \<times> u64) option" where
  "slot_word contents ptr_size big f =
     (case slot_offset ptr_size f of
        None \<Rightarrow> None
      | Some off \<Rightarrow>
          if off + nat ptr_size \<le> length contents then
            let v = order_uint big (take (nat ptr_size) (drop off contents))
            in if v = 0 then None else Some (off, v)
          else None)"

definition slot_words :: "byte list \<Rightarrow> slot_field list \<Rightarrow> int \<Rightarrow> bool \<Rightarrow> (nat \<times> u64) list" where
  "slot_words contents flds ptr_size big =
     List.map_filter (slot_word contents ptr_size big) flds"

text \<open>
  The extraction records exactly these words: the targets in every case, and the slots when
  the range, placed at \<open>base\<close>, ends below \<open>2 ^ 64\<close>.
\<close>

lemma ex_warn_sel [simp]:
  "ex_targets (ex_warn m args x) = ex_targets x" "ex_slots (ex_warn m args x) = ex_slots x"
  by (simp_all add: ex_warn_def)

lemma extract_field_step:
  assumes psz: "ptr_size = 4 \<or> ptr_size = 8" and len: "length contents < 2 ^ 64"
  obtains y where "ex_targets y = ex_targets x" "ex_slots y = ex_slots x"
    "extract_field contents ptr_size big base ctx ws f x =
       (case slot_word contents ptr_size big f of
          None \<Rightarrow> y | Some (off, v) \<Rightarrow> ex_record ws base ctx v (of_nat off) y)"
proof -
  note rp = read_pointer_iff [OF psz len, where big = big]
  have psz': "unat (word_of_int ptr_size :: u64) = nat ptr_size" using psz by auto
  consider (ptr) "fld_kind f = FieldKindPtr"
    | (face) "fld_kind f = FieldKindIface \<or> fld_kind f = FieldKindEface"
    | (other) "fld_kind f \<noteq> FieldKindPtr" "fld_kind f \<noteq> FieldKindIface" "fld_kind f \<noteq> FieldKindEface"
    by blast
  then show ?thesis
  proof cases
    case ptr
    then have off: "slot_offset ptr_size f = Some (unat (fld_offset f))"
      by (simp add: slot_offset_def)
    show ?thesis
    proof (cases "unat (fld_offset f) + nat ptr_size \<le> length contents")
      case True
      then show ?thesis
        using ptr off that [of x] by (simp add: extract_field_def rp slot_word_def Let_def)
    next
      case False
      show ?thesis
        by (rule that [of "extract_field contents ptr_size big base ctx ws f x"])
          (use False ptr off in \<open>simp_all add: extract_field_def rp slot_word_def\<close>)
    qed
  next
    case face
    then have np: "fld_kind f \<noteq> FieldKindPtr" by (auto simp: field_kind_defs)
    let ?y = "if fld_kind f = FieldKindIface then x\<lparr>ex_iface := ex_iface x + 1\<rparr>
      else x\<lparr>ex_eface := ex_eface x + 1\<rparr>"
    let ?off = "fld_offset f + word_of_int ptr_size"
    from face np have off: "slot_offset ptr_size f = Some (unat (fld_offset f) + nat ptr_size)"
      by (simp add: slot_offset_def)
    have ov: "max_uint64 - word_of_int ptr_size < fld_offset f \<longleftrightarrow>
        2 ^ 64 \<le> unat (fld_offset f) + nat ptr_size"
      by (simp only: carry_iff psz' add.commute)
    show ?thesis
    proof (cases "unat (fld_offset f) + nat ptr_size + nat ptr_size \<le> length contents")
      case True
      then have small: "unat (fld_offset f) + nat ptr_size < 2 ^ 64" using len by simp
      then have u: "unat ?off = unat (fld_offset f) + nat ptr_size"
        using unat_add_no_carry [of "fld_offset f" "word_of_int ptr_size"] psz' by simp
      have w: "(word_of_nat (nat ptr_size) :: u64) = word_of_int ptr_size" using psz by auto
      show ?thesis
        by (rule that [of ?y])
          (use True face np off ov small in
            \<open>auto simp: extract_field_def Let_def rp u w slot_word_def\<close>)
    next
      case False
      have miss: "slot_word contents ptr_size big f = None"
        using False off by (simp add: slot_word_def)
      have "ex_targets (extract_field contents ptr_size big base ctx ws f x) = ex_targets x \<and>
          ex_slots (extract_field contents ptr_size big base ctx ws f x) = ex_slots x"
      proof (cases "2 ^ 64 \<le> unat (fld_offset f) + nat ptr_size")
        case True
        then show ?thesis using face np ov by (simp add: extract_field_def Let_def)
      next
        case small: False
        then have u: "unat ?off = unat (fld_offset f) + nat ptr_size"
          using unat_add_no_carry [of "fld_offset f" "word_of_int ptr_size"] psz' by simp
        then show ?thesis
          using False face np ov small by (simp add: extract_field_def Let_def rp)
      qed
      then show ?thesis
        using that [of "extract_field contents ptr_size big base ctx ws f x"] miss by simp
    qed
  next
    case other
    show ?thesis
      by (rule that [of "extract_field contents ptr_size big base ctx ws f x"])
        (use other in \<open>simp_all add: extract_field_def slot_word_def slot_offset_def\<close>)
  qed
qed

lemma slot_word_bound:
  "slot_word contents ptr_size big f = Some (off, v) \<Longrightarrow> off + nat ptr_size \<le> length contents \<and> v \<noteq> 0"
  by (auto simp: slot_word_def Let_def split: option.splits if_splits)

lemma extract_pointers_words:
  assumes psz: "ptr_size = 4 \<or> ptr_size = 8" and len: "unat base + length contents < 2 ^ 64"
    and x_def: "x = extract_pointers contents flds ptr_size big base ctx ws"
    and sw_def: "sw = slot_words contents flds ptr_size big"
  shows "ex_targets x = map snd sw"
    and "ex_slots x = (if ws then map (\<lambda>p. base + of_nat (fst p)) sw else [])"
proof -
  have len': "length contents < 2 ^ 64" using len by simp
  have "ex_targets (fold (extract_field contents ptr_size big base ctx ws) flds y) =
      ex_targets y @ map snd (slot_words contents flds ptr_size big) \<and>
    ex_slots (fold (extract_field contents ptr_size big base ctx ws) flds y) =
      ex_slots y @ (if ws then map (\<lambda>p. base + of_nat (fst p)) (slot_words contents flds ptr_size big)
        else [])" for y
  proof (induction flds arbitrary: y)
    case Nil
    then show ?case by (simp add: slot_words_def List.map_filter_def)
  next
    case (Cons f flds)
    obtain z where z: "ex_targets z = ex_targets y" "ex_slots z = ex_slots y"
      "extract_field contents ptr_size big base ctx ws f y =
       (case slot_word contents ptr_size big f of
          None \<Rightarrow> z | Some (off, v) \<Rightarrow> ex_record ws base ctx v (of_nat off) z)"
      by (rule extract_field_step [OF psz len', of y big base ctx ws f])
    show ?case
    proof (cases "slot_word contents ptr_size big f")
      case None
      then show ?thesis
        using Cons [of z] z by (simp add: slot_words_def List.map_filter_def)
    next
      case (Some p)
      obtain off v where p: "p = (off, v)" by fastforce
      have fit: "off + nat ptr_size \<le> length contents"
        using slot_word_bound Some p by blast
      then have "unat (of_nat off :: u64) = off"
        using len' by (simp add: unsigned_of_nat take_bit_nat_eq_self)
      then have "\<not> max_uint64 - base < of_nat off"
        unfolding carry_iff using fit len by linarith
      then show ?thesis
        using Cons [of "ex_record ws base ctx v (of_nat off) z"] z Some
        by (simp add: p ex_record_def slot_words_def List.map_filter_def)
    qed
  qed
  from this [of no_extraction] show "ex_targets x = map snd sw"
    "ex_slots x = (if ws then map (\<lambda>p. base + of_nat (fst p)) sw else [])"
    using psz by (auto simp: x_def sw_def extract_pointers_def no_extraction_def)
qed

end
