(* ===== verification/AddrSpace.thy ===== *)
theory AddrSpace
  imports Pointers
begin

text \<open>
  Reading bytes at virtual addresses (\<open>internal/addrspace\<close>): the overflow-checked arithmetic,
  the \<open>Reader\<close> interface as a locale with the contract its comment states, the helpers that
  use the interface, and its implementations \<open>Composite\<close>, \<open>ELFReader\<close> and the Linux
  \<open>ProcessReader\<close>. Files are read through \<open>io.ReaderAt\<close>, a parameter of these readers.
\<close>

definition ErrAddrUnsupported :: go_error where
  "ErrAddrUnsupported = Errorf (Fmt ''addrspace: unsupported on this platform'' [])"

section \<open>Checked arithmetic\<close>

definition AddUint64 :: "u64 \<Rightarrow> u64 \<Rightarrow> u64 \<times> bool" where
  "AddUint64 a b = (let c = a + b in (c, c \<ge> a))"

definition MulUint64 :: "u64 \<Rightarrow> u64 \<Rightarrow> u64 \<times> bool" where
  "MulUint64 a b = (if a = 0 \<or> b = 0 then (0, True) else let c = a * b in (c, c div a = b))"

lemma AddUint64_iff: "snd (AddUint64 a b) \<longleftrightarrow> unat a + unat b < 2 ^ 64"
proof -
  have "a \<le> a + b \<longleftrightarrow> unat a + unat b < 2 ^ 64"
    using no_olen_add_nat [of a b] by simp
  then show ?thesis by (simp add: AddUint64_def)
qed

lemma AddUint64_value: "AddUint64 a b = (c, True) \<longleftrightarrow> unat a + unat b < 2 ^ 64 \<and> c = a + b"
  using AddUint64_iff [of a b] by (auto simp: AddUint64_def Let_def)

lemma AddUint64_None: "AddUint64 a b = (c, False) \<longleftrightarrow> 2 ^ 64 \<le> unat a + unat b \<and> c = a + b"
  using AddUint64_iff [of a b] by (auto simp: AddUint64_def Let_def)

lemma unat_mult_no_carry: "unat a * unat b < 2 ^ 64 \<Longrightarrow> unat (a * b :: u64) = unat a * unat b"
  using unat_mult_lem [of a b] by simp

lemma MulUint64_iff: "snd (MulUint64 a b) \<longleftrightarrow> unat a * unat b < 2 ^ 64"
proof (cases "a = 0 \<or> b = 0")
  case True
  then show ?thesis by (auto simp: MulUint64_def)
next
  case False
  then have pos: "0 < unat a" "0 < unat b" by (simp_all add: unat_gt_0)
  have "(a * b) div a = b \<longleftrightarrow> unat a * unat b < 2 ^ 64"
  proof
    assume fit: "unat a * unat b < 2 ^ 64"
    then have "unat ((a * b) div a) = unat b"
      using pos by (simp add: unat_div_distrib unat_mult_no_carry)
    then show "(a * b) div a = b" by (simp add: word_unat_eq_iff)
  next
    assume eq: "(a * b) div a = b"
    have "unat (a * b) div unat a = unat b" using eq by (metis unat_div_distrib)
    then have "unat a * unat b \<le> unat (a * b)" by (metis times_div_less_eq_dividend)
    then show "unat a * unat b < 2 ^ 64"
      using unsigned_less [of "a * b", where ?'a = nat] by simp
  qed
  with False show ?thesis by (simp add: MulUint64_def Let_def)
qed

section \<open>The reader interface\<close>

type_synonym addr_read = "u64 \<Rightarrow> u64 \<Rightarrow> byte list option"

locale addr_reader =
  fixes read :: addr_read
  assumes read_empty: "read a 0 = Some []"
    and read_nil: "0 < n \<Longrightarrow> read 0 n = None"
    and read_overflow: "2 ^ 64 \<le> unat a + unat n \<Longrightarrow> 0 < n \<Longrightarrow> read a n = None"
    and read_length: "read a n = Some bs \<Longrightarrow> length bs = unat n"

definition addr_read_string :: "addr_read option \<Rightarrow> u64 \<Rightarrow> u64 \<Rightarrow> u64 \<Rightarrow> string option" where
  "addr_read_string r addr len mx =
     (if len = 0 then Some []
      else if mx > 0 \<and> len > mx then None
      else case r of None \<Rightarrow> None
      | Some read \<Rightarrow> map_option string_of_bytes (read addr len))"

text \<open>\<open>order = None\<close> is the nil byte order, \<open>Some b\<close> the big-endian one when \<open>b\<close>.\<close>

definition addr_read_uintptr ::
  "addr_read option \<Rightarrow> u64 \<Rightarrow> int \<Rightarrow> bool option \<Rightarrow> u64 option"
where
  "addr_read_uintptr r addr ptr_size order =
     (case (r, order) of
        (Some read, Some big) \<Rightarrow>
          if ptr_size \<noteq> 4 \<and> ptr_size \<noteq> 8 then None
          else (case read addr (word_of_int ptr_size) of
                  None \<Rightarrow> None
                | Some b \<Rightarrow> Some (order_uint big b))
      | _ \<Rightarrow> None)"

context addr_reader
begin

lemma read_bounds:
  assumes "read a n = Some bs" "0 < n"
  shows "a \<noteq> 0" "unat a + unat n < 2 ^ 64"
proof -
  show "a \<noteq> 0" using assms read_nil by auto
  show "unat a + unat n < 2 ^ 64"
    using assms read_overflow by (metis leI option.distinct(1))
qed

lemma read_string_length:
  assumes "addr_read_string (Some read) a n mx = Some s"
  shows "length s = unat n" "mx = 0 \<or> n \<le> mx"
  using assms by (auto simp: addr_read_string_def read_length word_gt_0_no not_less
      split: if_splits)

lemma read_uintptr_bound:
  assumes "addr_read_uintptr (Some read) a 4 order = Some v"
  shows "unat v < 2 ^ 32"
proof -
  from assms obtain big bs where bs: "read a 4 = Some bs" "v = order_uint big bs"
    by (auto simp: addr_read_uintptr_def split: option.splits if_splits)
  have "unat (be_uint xs acc) < 2 ^ (8 * (length xs + k))"
    if "unat acc < 2 ^ (8 * k)" "length xs + k \<le> 7" for xs acc k
    using that
  proof (induction xs arbitrary: acc k)
    case Nil
    then show ?case by simp
  next
    case (Cons b xs)
    have "take_bit (8 * Suc k) (push_bit 8 acc OR ucast b) = push_bit 8 acc OR ucast b"
    proof (rule bit_word_eqI)
      fix m assume m: "m < LENGTH(64)"
      have acc: "take_bit (8 * k) acc = acc"
        using Cons.prems(1) by (simp add: word_unat_eq_iff unsigned_take_bit_eq take_bit_nat_eq_self)
      have "bit acc n \<Longrightarrow> n < 8 * k" for n
        using acc by (metis bit_take_bit_iff)
      then show "bit (take_bit (8 * Suc k) (push_bit 8 acc OR ucast b)) m =
          bit (push_bit 8 acc OR ucast b :: u64) m"
        by (fastforce simp: bit_take_bit_iff bit_or_iff bit_push_bit_iff bit_unsigned_iff
            dest: bit_imp_le_length)
    qed
    then have "unat (push_bit 8 acc OR ucast b) = take_bit (8 * Suc k) (unat (push_bit 8 acc OR ucast b))"
      by (metis unsigned_take_bit_eq)
    then have "unat (push_bit 8 acc OR ucast b) < 2 ^ (8 * Suc k)"
      by (metis take_bit_nat_less_exp)
    from Cons.IH [OF this] Cons.prems(2) show ?case by (simp add: add_ac)
  qed
  from this [of 0 0 "if big then bs else rev bs"] read_length [OF bs(1)] bs(2)
  show ?thesis by (auto simp: order_uint_def split: if_splits)
qed

end

section \<open>Files\<close>

text \<open>
  \<open>io.ReaderAt.ReadAt(p, off)\<close> with \<open>len(p) = n\<close>: the bytes read and the error. A file
  parameter is used under the documented contract of \<open>io.ReaderAt\<close>: never more bytes than
  asked for, and an error whenever there are fewer. \<open>bytes_read_at\<close> is
  \<open>bytes.Reader.ReadAt\<close> (and \<open>os.File.ReadAt\<close> on a file with those contents).
\<close>

type_synonym file_at = "i64 \<Rightarrow> u64 \<Rightarrow> byte list \<times> go_error option"

definition file_contract :: "file_at \<Rightarrow> bool" where
  "file_contract f \<longleftrightarrow>
     (\<forall>off n. length (fst (f off n)) \<le> unat n \<and>
        (length (fst (f off n)) < unat n \<longrightarrow> snd (f off n) \<noteq> None))"

definition bytes_read_at :: "byte list \<Rightarrow> file_at" where
  "bytes_read_at contents off n =
     (if sint off < 0 then ([], Some (Errorf (Fmt ''bytes.Reader.ReadAt: negative offset'' [])))
      else if sint off \<ge> int (length contents) then ([], Some EOF)
      else let got = take (unat n) (drop (nat (sint off)) contents)
           in (got, if length got < unat n then Some EOF else None))"

lemma file_contract_bytes [simp]: "file_contract (bytes_read_at bs)"
  by (auto simp: file_contract_def bytes_read_at_def Let_def)

lemma file_contract_full:
  "file_contract f \<Longrightarrow> f off n = (bs, None) \<Longrightarrow> length bs = unat n"
  unfolding file_contract_def by (metis fst_conv le_neq_implies_less snd_conv)

text \<open>
  The common guard of every implementation: an empty read succeeds, address 0 and a range
  that wraps fail, anything else is looked up. \<open>guarded\<close> is that prefix of their
  \<open>ReadAtAddr\<close>; what follows it receives the address, the sz and the end.
\<close>

definition guarded :: "(u64 \<Rightarrow> u64 \<Rightarrow> u64 \<Rightarrow> byte list option) \<Rightarrow> addr_read" where
  "guarded f addr sz =
     (if sz = 0 then Some []
      else if addr = 0 then None
      else case AddUint64 addr sz of
        (end_addr, ok) \<Rightarrow> if \<not> ok then None else f addr sz end_addr)"

lemma guarded_addr_reader:
  assumes "\<And>a n bs. 0 < n \<Longrightarrow> f a n (a + n) = Some bs \<Longrightarrow> length bs = unat n"
  shows "addr_reader (guarded f)"
proof unfold_locales
  fix a n bs
  show "length bs = unat n" if "guarded f a n = Some bs"
    using that assms [of n a bs]
    by (cases "n = 0") (auto simp: guarded_def AddUint64_def Let_def word_neq_0_conv split: if_splits)
  show "guarded f a n = None" if "2 ^ 64 \<le> unat a + unat n" "0 < n"
    using that AddUint64_iff [of a n] by (auto simp: guarded_def split: prod.splits)
qed (auto simp: guarded_def)

lemma guarded_Some:
  "0 < n \<Longrightarrow> guarded f a n = Some bs \<longleftrightarrow>
    a \<noteq> 0 \<and> unat a + unat n < 2 ^ 64 \<and> f a n (a + n) = Some bs"
  using AddUint64_iff [of a n] by (auto simp: guarded_def AddUint64_def Let_def)

section \<open>Composite\<close>

record named_reader =
  nr_name :: string
  nr_read :: addr_read

fun composite_loop :: "named_reader option list \<Rightarrow> addr_read" where
  "composite_loop [] addr sz = None"
| "composite_loop (None # rs) addr sz = composite_loop rs addr sz"
| "composite_loop (Some r # rs) addr sz =
     (case nr_read r addr sz of
        Some b \<Rightarrow> Some b
      | None \<Rightarrow> composite_loop rs addr sz)"

definition composite_read_at_addr :: "named_reader option list \<Rightarrow> addr_read" where
  "composite_read_at_addr rs = guarded (\<lambda>addr sz _. composite_loop rs addr sz)"

fun string_join :: "string \<Rightarrow> string list \<Rightarrow> string" where
  "string_join sep [] = []"
| "string_join sep [x] = x"
| "string_join sep (x # y # xs) = x @ sep @ string_join sep (y # xs)"

definition composite_name :: "named_reader option list \<Rightarrow> string" where
  "composite_name rs =
     ''composite['' @ string_join '','' (map nr_name (List.map_filter id rs)) @ '']''"

fun source_loop :: "named_reader option list \<Rightarrow> u64 \<Rightarrow> u64 \<Rightarrow> string option" where
  "source_loop [] addr sz = None"
| "source_loop (None # rs) addr sz = source_loop rs addr sz"
| "source_loop (Some r # rs) addr sz =
     (case nr_read r addr sz of
        Some b \<Rightarrow> Some (nr_name r)
      | None \<Rightarrow> source_loop rs addr sz)"

definition composite_source_for :: "named_reader option list \<Rightarrow> u64 \<Rightarrow> u64 \<Rightarrow> string option" where
  "composite_source_for rs addr sz =
     (if sz = 0 then Some []
      else if addr = 0 then None
      else case AddUint64 addr sz of
        (_, ok) \<Rightarrow> if \<not> ok then None else source_loop rs addr sz)"

lemma composite_loop_Some:
  "composite_loop rs a n = Some bs \<Longrightarrow> \<exists>r. Some r \<in> set rs \<and> nr_read r a n = Some bs"
  by (induction rs a n rule: composite_loop.induct) (auto split: option.splits)

lemma composite_addr_reader:
  assumes "\<And>r. Some r \<in> set rs \<Longrightarrow> addr_reader (nr_read r)"
  shows "addr_reader (composite_read_at_addr rs)"
  unfolding composite_read_at_addr_def
  by (rule guarded_addr_reader)
    (use assms in \<open>blast dest: composite_loop_Some addr_reader.read_length\<close>)

text \<open>
  The first reader that can serve the range does, and \<open>SourceFor\<close> names that reader.
\<close>

lemma composite_first:
  assumes "0 < n" "addr_reader (nr_read r)" "nr_read r a n = Some bs"
    and "\<And>q. Some q \<in> set qs \<Longrightarrow> nr_read q a n = None"
  shows "composite_read_at_addr (qs @ Some r # rs) a n = Some bs"
    and "composite_source_for (qs @ Some r # rs) a n = Some (nr_name r)"
proof -
  note b = addr_reader.read_bounds [OF assms(2,3,1)]
  have "composite_loop (qs @ Some r # rs) a n = Some bs \<and>
      source_loop (qs @ Some r # rs) a n = Some (nr_name r)"
    using assms(4)
  proof (induction qs)
    case Nil
    then show ?case using assms(3) by simp
  next
    case (Cons q qs)
    then show ?case by (cases q) auto
  qed
  with b assms(1) show "composite_read_at_addr (qs @ Some r # rs) a n = Some bs"
    "composite_source_for (qs @ Some r # rs) a n = Some (nr_name r)"
    using AddUint64_iff [of a n]
    by (auto simp: composite_read_at_addr_def guarded_Some composite_source_for_def
        split: prod.splits)
qed

lemma composite_none:
  "0 < n \<Longrightarrow> (\<And>q. Some q \<in> set rs \<Longrightarrow> nr_read q a n = None) \<Longrightarrow>
    composite_read_at_addr rs a n = None"
  by (cases "composite_read_at_addr rs a n")
    (auto simp: composite_read_at_addr_def guarded_Some dest!: composite_loop_Some)

section \<open>ELF executables\<close>

record elf_segment =
  es_vaddr :: u64
  es_memsz :: u64
  es_filesz :: u64
  es_off :: u64
  es_flags :: u32

record elf_reader =
  er_file :: "file_at option"
  er_path :: string
  er_segments :: "elf_segment list"

text \<open>
  \<open>debug/elf\<close> supplies the program headers (type, flags, addresses, sizes); opening the file
  indexes the readable, non-writable \<open>PT_LOAD\<close> segments with file-backed bytes.
\<close>

record elf_prog =
  pr_type :: u32
  pr_segment :: elf_segment

definition PT_LOAD :: u32 where "PT_LOAD = 1"
definition PF_X :: u32 where "PF_X = 1"
definition PF_W :: u32 where "PF_W = 2"
definition PF_R :: u32 where "PF_R = 4"

definition elf_index :: "elf_prog list \<Rightarrow> elf_segment list" where
  "elf_index progs =
     map pr_segment (filter (\<lambda>p. pr_type p = PT_LOAD \<and> es_flags (pr_segment p) AND PF_R \<noteq> 0 \<and>
       es_flags (pr_segment p) AND PF_W = 0 \<and> es_filesz (pr_segment p) \<noteq> 0) progs)"

definition open_elf_reader ::
  "string \<Rightarrow> go_error + elf_prog list \<Rightarrow> go_error option \<Rightarrow> go_error + file_at \<Rightarrow> go_error + elf_reader"
where
  "open_elf_reader path elf_open close_err os_open =
     (case elf_open of
        Inl e \<Rightarrow> Inl (Wrapf (Fmt ''addrspace: parse ELF %q'' [FS path]) e)
      | Inr progs \<Rightarrow>
          (case close_err of
             Some e \<Rightarrow> Inl (Wrapf (Fmt ''addrspace: close ELF %q'' [FS path]) e)
           | None \<Rightarrow>
               (case os_open of
                  Inl e \<Rightarrow> Inl (Wrapf (Fmt ''addrspace: open ELF %q'' [FS path]) e)
                | Inr f \<Rightarrow> Inr \<lparr>er_file = Some f, er_path = path,
                                er_segments = elf_index progs\<rparr>)))"

definition elf_name :: "elf_reader option \<Rightarrow> string" where
  "elf_name r = (case r of None \<Rightarrow> ''elf'' | Some e \<Rightarrow> ''elf:'' @ er_path e)"

fun elf_lookup :: "file_at \<Rightarrow> elf_segment list \<Rightarrow> u64 \<Rightarrow> u64 \<Rightarrow> u64 \<Rightarrow> byte list option" where
  "elf_lookup f [] addr sz end_addr = None"
| "elf_lookup f (s # ss) addr sz end_addr =
     (case AddUint64 (es_vaddr s) (es_filesz s) of
        (seg_end, ok) \<Rightarrow>
          if \<not> ok then elf_lookup f ss addr sz end_addr
          else if addr \<ge> es_vaddr s \<and> end_addr \<le> seg_end then
            let file_off = es_off s + (addr - es_vaddr s)
            in if file_off > max_int64 then None
               else (case f file_off sz of
                       (buf, None) \<Rightarrow> Some buf
                     | (_, Some _) \<Rightarrow> None)
          else elf_lookup f ss addr sz end_addr)"

definition elf_read_at_addr :: "elf_reader option \<Rightarrow> addr_read" where
  "elf_read_at_addr r addr sz =
     (case r of
        None \<Rightarrow> None
      | Some e \<Rightarrow>
          (case er_file e of
             None \<Rightarrow> None
           | Some f \<Rightarrow> guarded (elf_lookup f (er_segments e)) addr sz))"

lemma elf_lookup_length:
  "file_contract f \<Longrightarrow> elf_lookup f ss a n en = Some bs \<Longrightarrow> length bs = unat n"
  by (induction ss) (auto simp: Let_def split: if_splits prod.splits option.splits
      dest: file_contract_full)

lemma elf_addr_reader:
  "er_file e = Some f \<Longrightarrow> file_contract f \<Longrightarrow> addr_reader (elf_read_at_addr (Some e))"
  using guarded_addr_reader [of "elf_lookup f (er_segments e)"] elf_lookup_length [of f]
  by (simp add: elf_read_at_addr_def [abs_def])

interpretation elf_file: addr_reader
  "elf_read_at_addr (Some \<lparr>er_file = Some (bytes_read_at bs), er_path = path, er_segments = segs\<rparr>)"
  for bs path segs
  by (rule elf_addr_reader [where f = "bytes_read_at bs"]) simp_all

text \<open>
  What a read returns: the file bytes behind the addresses, when the range lies in the
  file-backed part of the first segment that contains it.
\<close>

definition elf_covers :: "elf_segment \<Rightarrow> u64 \<Rightarrow> u64 \<Rightarrow> bool" where
  "elf_covers s a n \<longleftrightarrow> unat (es_vaddr s) + unat (es_filesz s) < 2 ^ 64 \<and> es_vaddr s \<le> a \<and>
     unat a + unat n \<le> unat (es_vaddr s) + unat (es_filesz s)"

lemma elf_lookup_covers:
  assumes fit: "unat a + unat n < 2 ^ 64"
  shows "elf_lookup f ss a n (a + n) =
    (case find (\<lambda>s. elf_covers s a n) ss of
       None \<Rightarrow> None
     | Some s \<Rightarrow>
         if es_off s + (a - es_vaddr s) > max_int64 then None
         else (case f (es_off s + (a - es_vaddr s)) n of
                 (buf, None) \<Rightarrow> Some buf | (_, Some _) \<Rightarrow> None))"
proof (induction ss)
  case Nil
  then show ?case by simp
next
  case (Cons s ss)
  obtain c ok where add: "AddUint64 (es_vaddr s) (es_filesz s) = (c, ok)" by fastforce
  show ?case
  proof (cases ok)
    case False
    with add have "\<not> elf_covers s a n" by (simp add: AddUint64_None elf_covers_def)
    then show ?thesis using Cons add False by simp
  next
    case True
    with add have c: "unat (es_vaddr s) + unat (es_filesz s) < 2 ^ 64"
      "unat c = unat (es_vaddr s) + unat (es_filesz s)"
      by (auto simp: AddUint64_value unat_add_no_carry)
    have "elf_covers s a n \<longleftrightarrow> es_vaddr s \<le> a \<and> a + n \<le> c"
      using c fit by (simp add: elf_covers_def word_le_nat_alt [of "a + n"] unat_add_no_carry)
    then show ?thesis using Cons add True by (simp add: Let_def)
  qed
qed

section \<open>The process itself, on Linux\<close>

record addr_mapping =
  m_start :: u64
  m_end :: u64
  m_read :: bool
  m_write :: bool
  m_exec :: bool
  m_path :: string

definition mappingEligibleForStringBody :: "addr_mapping \<Rightarrow> bool" where
  "mappingEligibleForStringBody m = (m_read m \<and> \<not> m_write m)"

record process_reader =
  pr_maps :: "addr_mapping list"
  pr_mem :: "file_at option"

definition eligible_string_ranges :: "process_reader option \<Rightarrow> addr_mapping list" where
  "eligible_string_ranges r =
     (case r of None \<Rightarrow> [] | Some p \<Rightarrow> filter mappingEligibleForStringBody (pr_maps p))"

fun process_lookup :: "file_at \<Rightarrow> addr_mapping list \<Rightarrow> u64 \<Rightarrow> u64 \<Rightarrow> u64 \<Rightarrow> byte list option" where
  "process_lookup mem [] addr sz end_addr = None"
| "process_lookup mem (m # ms) addr sz end_addr =
     (if \<not> mappingEligibleForStringBody m then process_lookup mem ms addr sz end_addr
      else if addr \<ge> m_start m \<and> end_addr \<le> m_end m then
        (if addr > max_int64 then None
         else (case mem addr sz of
                 (buf, None) \<Rightarrow> Some buf
               | (_, Some _) \<Rightarrow> None))
      else process_lookup mem ms addr sz end_addr)"

definition process_read_at_addr :: "process_reader option \<Rightarrow> addr_read" where
  "process_read_at_addr r addr sz =
     (case r of
        None \<Rightarrow> None
      | Some p \<Rightarrow>
          (case pr_mem p of
             None \<Rightarrow> None
           | Some mem \<Rightarrow> guarded (process_lookup mem (pr_maps p)) addr sz))"

lemma process_lookup_Some:
  "process_lookup mem ms a n en = Some bs \<Longrightarrow>
    \<exists>m \<in> set ms. mappingEligibleForStringBody m \<and> m_start m \<le> a \<and> en \<le> m_end m \<and>
      a \<le> max_int64 \<and> mem a n = (bs, None)"
  by (induction ms) (auto split: if_splits prod.splits option.splits)

lemma process_addr_reader:
  "pr_mem p = Some mem \<Longrightarrow> file_contract mem \<Longrightarrow> addr_reader (process_read_at_addr (Some p))"
  using guarded_addr_reader [of "process_lookup mem (pr_maps p)"]
  by (auto simp: process_read_at_addr_def [abs_def]
      dest!: process_lookup_Some dest: file_contract_full)

interpretation process_file: addr_reader
  "process_read_at_addr (Some \<lparr>pr_maps = ms, pr_mem = Some (bytes_read_at bs)\<rparr>)" for ms bs
  by (rule process_addr_reader [where mem = "bytes_read_at bs"]) simp_all

text \<open>
  Every byte served lies inside one readable mapping that the process cannot write.
\<close>

lemma process_read_only:
  assumes "process_read_at_addr (Some p) a n = Some bs" "0 < n"
  obtains m where "m \<in> set (eligible_string_ranges (Some p))" "m_read m" "\<not> m_write m"
    "unat (m_start m) \<le> unat a" "unat a + unat n \<le> unat (m_end m)"
proof -
  from assms obtain mem where "guarded (process_lookup mem (pr_maps p)) a n = Some bs"
    by (auto simp: process_read_at_addr_def split: option.splits)
  with assms(2) have fit: "unat a + unat n < 2 ^ 64"
    and "process_lookup mem (pr_maps p) a n (a + n) = Some bs"
    by (simp_all add: guarded_Some)
  then obtain m where "m \<in> set (pr_maps p)" "mappingEligibleForStringBody m" "m_start m \<le> a"
    "a + n \<le> m_end m" by (blast dest: process_lookup_Some)
  with fit that show thesis
    by (simp add: eligible_string_ranges_def mappingEligibleForStringBody_def word_le_nat_alt
        unat_add_no_carry)
qed

section \<open>Parsing \<open>/proc/self/maps\<close>\<close>

text \<open>
  \<open>strings.SplitN(line, " ", n)\<close> and \<open>strings.TrimSpace\<close>; the white space of the latter is
  listed in its UTF-8 encoding. \<open>maps_lines\<close> is \<open>bufio.Scanner\<close> with \<open>ScanLines\<close> and the
  buffer limit of \<open>1 << 20\<close> bytes: \<open>Inl\<close> when a line does not fit.
\<close>

fun split_n :: "nat \<Rightarrow> string \<Rightarrow> string \<Rightarrow> string list" where
  "split_n n acc [] = [acc]"
| "split_n n acc (c # cs) =
     (if 1 < n \<and> c = CHR '' '' then acc # split_n (n - 1) [] cs else split_n n (acc @ [c]) cs)"

definition utf8_spaces :: "byte list list" where
  "utf8_spaces = [[9], [10], [11], [12], [13], [32], [0xC2, 0x85], [0xC2, 0xA0],
     [0xE1, 0x9A, 0x80]] @ map (\<lambda>b. [0xE2, 0x80, b]) [0x80, 0x81, 0x82, 0x83, 0x84, 0x85, 0x86,
       0x87, 0x88, 0x89, 0x8A, 0xA8, 0xA9, 0xAF] @ [[0xE2, 0x81, 0x9F], [0xE3, 0x80, 0x80]]"

definition strip_one :: "byte list list \<Rightarrow> string \<Rightarrow> string option" where
  "strip_one ws s =
     map_option (\<lambda>w. drop (length w) s)
       (find (\<lambda>w. take (length w) s = string_of_bytes w) ws)"

lemma strip_one_shorter:
  "strip_one ws s = Some t \<Longrightarrow> [] \<notin> set ws \<Longrightarrow> length t < length s"
  by (auto simp: strip_one_def find_Some_iff) (metis (no_types, lifting) diff_less
      length_greater_0_conv length_string_of_bytes nth_mem take_Nil list.size(3) string_of_bytes_def
      map_is_Nil_conv)

function strip_spaces :: "byte list list \<Rightarrow> string \<Rightarrow> string" where
  "strip_spaces ws s =
     (if [] \<in> set ws then s
      else case strip_one ws s of None \<Rightarrow> s | Some t \<Rightarrow> strip_spaces ws t)"
  by pat_completeness auto
termination
  by (relation "measure (\<lambda>(ws, s). length s)") (auto dest: strip_one_shorter)

declare strip_spaces.simps [simp del]

definition trim_space :: "string \<Rightarrow> string" where
  "trim_space s = rev (strip_spaces (map rev utf8_spaces) (rev (strip_spaces utf8_spaces s)))"

definition drop_cr :: "string \<Rightarrow> string" where
  "drop_cr l = (if l \<noteq> [] \<and> last l = CHR 0x0D then butlast l else l)"

fun maps_lines :: "string \<Rightarrow> string \<Rightarrow> go_error + string list" where
  "maps_lines acc [] =
     (if acc = [] then Inr []
      else if 1048576 \<le> length acc then Inl (Errorf (Fmt ''bufio.Scanner: token too long'' []))
      else Inr [drop_cr acc])"
| "maps_lines acc (c # cs) =
     (if c = CHR 0x0A then
        (if 1048576 \<le> length acc then Inl (Errorf (Fmt ''bufio.Scanner: token too long'' []))
         else map_sum id ((#) (drop_cr acc)) (maps_lines [] cs))
      else maps_lines (acc @ [c]) cs)"

definition parse_maps_line :: "string \<Rightarrow> addr_mapping option" where
  "parse_maps_line line =
     (if line = [] then None
      else
        let flds = split_n 6 [] line
        in if length flds < 2 then None
           else
             let rng = flds ! 0; perms = flds ! 1
             in if CHR ''-'' \<notin> set rng then None
                else
                  (case parse_uint 16 (takeWhile (\<lambda>c. c \<noteq> CHR ''-'') rng) of
                     None \<Rightarrow> None
                   | Some start \<Rightarrow>
                       (case parse_uint 16 (tl (dropWhile (\<lambda>c. c \<noteq> CHR ''-'') rng)) of
                          None \<Rightarrow> None
                        | Some end_addr \<Rightarrow>
                            if end_addr \<le> start then None
                            else if length perms < 3 then None
                            else Some \<lparr>m_start = start, m_end = end_addr,
                                   m_read = (perms ! 0 = CHR ''r''),
                                   m_write = (perms ! 1 = CHR ''w''),
                                   m_exec = (perms ! 2 = CHR ''x''),
                                   m_path = (if length flds \<ge> 6 then trim_space (flds ! 5) else [])\<rparr>)))"

text \<open>\<open>read_err\<close> is the error, other than \<open>EOF\<close>, at the end of the stream.\<close>

definition parseProcMaps :: "string \<Rightarrow> go_error option \<Rightarrow> go_error + addr_mapping list" where
  "parseProcMaps contents read_err =
     (case maps_lines [] contents of
        Inl e \<Rightarrow> Inl e
      | Inr ls \<Rightarrow>
          (case read_err of
             Some e \<Rightarrow> Inl e
           | None \<Rightarrow> Inr (List.map_filter parse_maps_line ls)))"

lemma parse_maps_line_wf: "parse_maps_line line = Some m \<Longrightarrow> m_start m < m_end m"
  by (auto simp: parse_maps_line_def Let_def not_le split: if_splits option.splits)

lemma parseProcMaps_wf:
  "parseProcMaps contents e = Inr ms \<Longrightarrow> m \<in> set ms \<Longrightarrow> m_start m < m_end m"
proof -
  assume "parseProcMaps contents e = Inr ms" "m \<in> set ms"
  then obtain line where "parse_maps_line line = Some m"
    by (auto simp: parseProcMaps_def List.map_filter_def split: sum.splits option.splits)
  then show "m_start m < m_end m" by (rule parse_maps_line_wf)
qed

text \<open>A line as the kernel prints it reads back as its mapping.\<close>

definition print_mapping :: "addr_mapping \<Rightarrow> string" where
  "print_mapping m =
     format_nat 16 (unat (m_start m)) @ ''-'' @ format_nat 16 (unat (m_end m)) @ '' '' @
     (if m_read m then ''r'' else ''-'') @ (if m_write m then ''w'' else ''-'') @
     (if m_exec m then ''x'' else ''-'') @ ''p 00000000 fd:01 42 '' @ m_path m"

lemma format_nat_chars:
  "2 \<le> base \<Longrightarrow> base \<le> 16 \<Longrightarrow> c \<in> set (format_nat base n) \<Longrightarrow> c \<noteq> CHR '' '' \<and> c \<noteq> CHR ''-''"
proof (induction base n rule: format_nat.induct)
  case (1 base n)
  have dc: "d < 16 \<Longrightarrow> digit_char d \<noteq> CHR '' '' \<and> digit_char d \<noteq> CHR ''-''" for d
    using digit_value_char [of d] by (auto simp: digit_value_def)
  show ?case
  proof (cases "n < base")
    case True
    then show ?thesis using 1 dc [of n] by (simp add: format_nat.simps [of base n])
  next
    case False
    have "n mod base < 16" using 1(2,3) mod_less_divisor [of base n] by linarith
    with False show ?thesis
      using 1 dc [of "n mod base"] by (auto simp: format_nat.simps [of base n])
  qed
qed

lemma split_n_word:
  "CHR '' '' \<notin> set w \<Longrightarrow>
    split_n (Suc (Suc n)) acc (w @ CHR '' '' # rest) = (acc @ w) # split_n (Suc n) [] rest"
  by (induction w arbitrary: acc) auto

lemma split_n_last: "split_n (Suc 0) acc s = [acc @ s]"
  by (induction s arbitrary: acc) auto

lemma split_n_join:
  "\<forall>w \<in> set ws. CHR '' '' \<notin> set w \<Longrightarrow>
    split_n (Suc (length ws)) [] (string_join '' '' (ws @ [l])) = ws @ [l]"
proof (induction ws)
  case Nil
  then show ?case by (simp add: split_n_last)
next
  case (Cons w ws)
  have "string_join '' '' ((w # ws) @ [l]) = w @ CHR '' '' # string_join '' '' (ws @ [l])"
    by (cases ws) simp_all
  with Cons split_n_word [of w "length ws" "[]"] show ?case by simp
qed

lemma parse_print_mapping:
  assumes "m_start m < m_end m" "trim_space (m_path m) = m_path m"
  shows "parse_maps_line (print_mapping m) = Some m"
proof -
  let ?r = "format_nat 16 (unat (m_start m)) @ CHR ''-'' # format_nat 16 (unat (m_end m))"
  let ?p = "(if m_read m then ''r'' else ''-'') @ (if m_write m then ''w'' else ''-'') @
     (if m_exec m then ''x'' else ''-'') @ ''p''"
  have sp: "CHR '' '' \<notin> set ?r" "CHR '' '' \<notin> set ?p"
    using format_nat_chars [of 16] by auto
  let ?ws = "[?r, ?p, ''00000000'', ''fd:01'', ''42'']"
  have join: "print_mapping m = string_join '' '' (?ws @ [m_path m])"
    by (simp add: print_mapping_def)
  have six: "6 = Suc (length ?ws)" by simp
  have "split_n 6 [] (print_mapping m) = ?ws @ [m_path m]"
    unfolding join six by (rule split_n_join) (use sp in simp)
  then have "split_n 6 [] (print_mapping m) = [?r, ?p, ''00000000'', ''fd:01'', ''42'', m_path m]"
    by (simp only: append.simps)
  moreover have "takeWhile (\<lambda>c. c \<noteq> CHR ''-'') ?r = format_nat 16 (unat (m_start m))"
    "tl (dropWhile (\<lambda>c. c \<noteq> CHR ''-'') ?r) = format_nat 16 (unat (m_end m))"
    using format_nat_chars [of 16 _ "unat (m_start m)"]
    by (simp_all add: takeWhile_append2 dropWhile_append2)
  ultimately show ?thesis
    using assms sp by (simp add: parse_maps_line_def Let_def parse_uint_format not_le print_mapping_def)
qed

end
