(* ===== verification/GraphFacts.thy ===== *)
theory GraphFacts
  imports GraphBuild AddrSpace
begin

text \<open>
  What a built graph is: one object per record, lookups that find the object holding a pointer
  (in a strict build, exactly), children that are the resolved pointers without repetition,
  counters that add up, and reachability counters that count.
\<close>

section \<open>Objects and lookup\<close>

text \<open>
  \<open>first_at obs k\<close>: the object at index \<open>k\<close> is the first with its (non-zero) address, the one
  that \<open>ByAddr\<close> and the ranges register.
\<close>

definition first_at :: "heap_object list \<Rightarrow> nat \<Rightarrow> bool" where
  "first_at obs k \<longleftrightarrow> k < length obs \<and> ho_addr (obs ! k) \<noteq> 0 \<and>
     (\<forall>j < k. ho_addr (obs ! j) \<noteq> ho_addr (obs ! k))"

definition graph_object :: "nat \<Rightarrow> heap_object \<Rightarrow> gobject" where
  "graph_object k src = \<lparr>ob_id = of_nat k, ob_addr = ho_addr src, ob_size = ho_size src, ob_children = []\<rparr>"

definition object_range_of :: "nat \<Rightarrow> heap_object \<Rightarrow> object_range" where
  "object_range_of k src =
     \<lparr>or_start = ho_addr src, or_end = ho_addr src + ho_size src, or_id = of_nat k\<rparr>"

definition build_inv :: "heap_object list \<Rightarrow> build_state \<Rightarrow> bool" where
  "build_inv obs st \<longleftrightarrow>
     length obs \<le> 2 ^ 32 \<and>
     bs_objects st = map (\<lambda>k. graph_object k (obs ! k)) [0..<length obs] \<and>
     (\<forall>a i. bs_by_addr st a = Some i \<longleftrightarrow>
        (\<exists>k. first_at obs k \<and> ho_addr (obs ! k) = a \<and> i = of_nat k)) \<and>
     bs_ranges st = map (\<lambda>k. object_range_of k (obs ! k))
       (filter (\<lambda>k. first_at obs k \<and> ho_size (obs ! k) \<noteq> 0) [0..<length obs])"

lemma first_at_append:
  "k < length obs \<Longrightarrow> first_at (obs @ [src]) k = first_at obs k"
  by (auto simp: first_at_def nth_append)

lemma first_at_ex:
  assumes "j < length obs" "ho_addr (obs ! j) \<noteq> 0"
  obtains k where "first_at obs k" "ho_addr (obs ! k) = ho_addr (obs ! j)" "k \<le> j"
proof -
  define P where "P k \<longleftrightarrow> k < length obs \<and> ho_addr (obs ! k) = ho_addr (obs ! j)" for k
  obtain k where k: "P k" "\<And>i. i < k \<Longrightarrow> \<not> P i" "k \<le> j"
  proof (rule that [of "Least P"])
    have "P j" using assms by (simp add: P_def)
    then show "P (Least P)" "Least P \<le> j" by (rule LeastI, rule Least_le)
  qed (rule not_less_Least)
  have "ho_addr (obs ! i) \<noteq> ho_addr (obs ! k)" if "i < k" for i
    using k(1) k(2) [OF that] that by (simp add: P_def)
  moreover have "k < length obs" "ho_addr (obs ! k) = ho_addr (obs ! j)"
    using k(1) by (simp_all add: P_def)
  ultimately show ?thesis using that [of k] k(3) assms(2) by (simp add: first_at_def)
qed

lemma append_object_Inr:
  "append_object src st = Inr (i, st') \<longleftrightarrow>
    length (bs_objects st) < 2 ^ 32 \<and> i = of_nat (length (bs_objects st)) \<and>
    st' = st\<lparr>bs_objects := bs_objects st @ [graph_object (length (bs_objects st)) src]\<rparr>"
  by (auto simp: append_object_def graph_object_def Let_def)

lemma add_object_fields:
  assumes run: "add_object opts src st = Inr st'"
    and fit: "bo_strict opts \<or> unat (ho_addr src) + unat (ho_size src) < 2 ^ 64"
  shows "length (bs_objects st) < 2 ^ 32"
    "bs_objects st' = bs_objects st @ [graph_object (length (bs_objects st)) src]"
    "bs_by_addr st' = (if ho_addr src = 0 \<or> bs_by_addr st (ho_addr src) \<noteq> None then bs_by_addr st
      else (bs_by_addr st)(ho_addr src \<mapsto> of_nat (length (bs_objects st))))"
    "bs_ranges st' = (if ho_addr src = 0 \<or> bs_by_addr st (ho_addr src) \<noteq> None \<or> ho_size src = 0
      then bs_ranges st else bs_ranges st @ [object_range_of (length (bs_objects st)) src])"
proof -
  have nov: "bo_strict opts \<or> \<not> ho_addr src + ho_size src < ho_addr src"
    using fit by (auto simp: word_less_nat_alt unat_add_no_carry)
  have "length (bs_objects st) < 2 ^ 32 \<and>
    bs_objects st' = bs_objects st @ [graph_object (length (bs_objects st)) src] \<and>
    bs_by_addr st' = (if ho_addr src = 0 \<or> bs_by_addr st (ho_addr src) \<noteq> None then bs_by_addr st
      else (bs_by_addr st)(ho_addr src \<mapsto> of_nat (length (bs_objects st)))) \<and>
    bs_ranges st' = (if ho_addr src = 0 \<or> bs_by_addr st (ho_addr src) \<noteq> None \<or> ho_size src = 0
      then bs_ranges st else bs_ranges st @ [object_range_of (length (bs_objects st)) src])"
    using run nov
    by (auto simp: add_object_def add_range_def bs_warn_def append_object_Inr object_range_of_def Let_def
        split: if_splits option.splits sum.splits prod.splits)
  then show "length (bs_objects st) < 2 ^ 32"
    "bs_objects st' = bs_objects st @ [graph_object (length (bs_objects st)) src]"
    "bs_by_addr st' = (if ho_addr src = 0 \<or> bs_by_addr st (ho_addr src) \<noteq> None then bs_by_addr st
      else (bs_by_addr st)(ho_addr src \<mapsto> of_nat (length (bs_objects st))))"
    "bs_ranges st' = (if ho_addr src = 0 \<or> bs_by_addr st (ho_addr src) \<noteq> None \<or> ho_size src = 0
      then bs_ranges st else bs_ranges st @ [object_range_of (length (bs_objects st)) src])"
    by blast+
qed

lemma add_object_inv:
  assumes inv: "build_inv obs st" and run: "add_object opts src st = Inr st'"
    and fit: "bo_strict opts \<or> unat (ho_addr src) + unat (ho_size src) < 2 ^ 64"
  shows "build_inv (obs @ [src]) st'"
proof -
  note f = add_object_fields [OF run fit]
  have len: "length (bs_objects st) = length obs" using inv by (simp add: build_inv_def)
  have known: "bs_by_addr st (ho_addr src) \<noteq> None \<longleftrightarrow>
      ho_addr src \<noteq> 0 \<and> (\<exists>j < length obs. ho_addr (obs ! j) = ho_addr src)" (is "?L \<longleftrightarrow> ?R")
  proof
    assume ?L
    then obtain i where "bs_by_addr st (ho_addr src) = Some i" by blast
    then obtain k where "first_at obs k" "ho_addr (obs ! k) = ho_addr src"
      using inv unfolding build_inv_def by blast
    then show ?R by (auto simp: first_at_def)
  next
    assume ?R
    then obtain k where "first_at obs k" "ho_addr (obs ! k) = ho_addr src"
      using first_at_ex by metis
    then have "bs_by_addr st (ho_addr src) = Some (of_nat k)"
      using inv unfolding build_inv_def by blast
    then show ?L by simp
  qed
  let ?new = "ho_addr src \<noteq> 0 \<and> bs_by_addr st (ho_addr src) = None"
  have last: "first_at (obs @ [src]) (length obs) \<longleftrightarrow> ?new"
    using known by (auto simp: first_at_def nth_append)
  have objs: "bs_objects st' = map (\<lambda>k. graph_object k ((obs @ [src]) ! k)) [0..<length (obs @ [src])]"
    using inv len f(2) by (simp add: build_inv_def nth_append)
  have by_addr: "bs_by_addr st' a = Some i \<longleftrightarrow>
      (\<exists>k. first_at (obs @ [src]) k \<and> ho_addr ((obs @ [src]) ! k) = a \<and> i = of_nat k)" for a i
  proof -
    have split: "(\<exists>k. first_at (obs @ [src]) k \<and> ho_addr ((obs @ [src]) ! k) = a \<and> i = of_nat k) \<longleftrightarrow>
      (\<exists>k. first_at obs k \<and> ho_addr (obs ! k) = a \<and> i = of_nat k) \<or>
      (?new \<and> ho_addr src = a \<and> i = of_nat (length obs))"
    proof -
      have "first_at (obs @ [src]) k \<Longrightarrow> k < length obs \<or> k = length obs" for k
        by (auto simp: first_at_def)
      moreover have "first_at obs k \<Longrightarrow> k < length obs" for k by (simp add: first_at_def)
      ultimately show ?thesis
        using last first_at_append [of _ obs src] by (metis nth_append nth_append_length)
    qed
    have old: "bs_by_addr st a = Some i \<longleftrightarrow>
        (\<exists>k. first_at obs k \<and> ho_addr (obs ! k) = a \<and> i = of_nat k)"
      using inv by (simp add: build_inv_def)
    show ?thesis
      unfolding split old [symmetric] f(3) len using known by auto
  qed
  have ranges: "bs_ranges st' = map (\<lambda>k. object_range_of k ((obs @ [src]) ! k))
      (filter (\<lambda>k. first_at (obs @ [src]) k \<and> ho_size ((obs @ [src]) ! k) \<noteq> 0) [0..<length (obs @ [src])])"
  proof -
    have "filter (\<lambda>k. first_at (obs @ [src]) k \<and> ho_size ((obs @ [src]) ! k) \<noteq> 0) [0..<length obs] =
        filter (\<lambda>k. first_at obs k \<and> ho_size (obs ! k) \<noteq> 0) [0..<length obs]"
      by (rule filter_cong) (simp_all add: first_at_append nth_append)
    moreover have "map (\<lambda>k. object_range_of k ((obs @ [src]) ! k)) (filter P [0..<length obs]) =
        map (\<lambda>k. object_range_of k (obs ! k)) (filter P [0..<length obs])" for P
      by (rule map_cong) (simp_all add: nth_append)
    moreover have "bs_ranges st = map (\<lambda>k. object_range_of k (obs ! k))
       (filter (\<lambda>k. first_at obs k \<and> ho_size (obs ! k) \<noteq> 0) [0..<length obs])"
      using inv by (simp add: build_inv_def)
    ultimately show ?thesis
      using last unfolding f(4) len by auto
  qed
  show ?thesis
    using f(1) objs by_addr ranges unfolding build_inv_def len by auto
qed

lemma add_objects_inv:
  "add_objects opts srcs st c = Inr (st', c') \<Longrightarrow> build_inv obs st \<Longrightarrow>
    (\<And>src. src \<in> set srcs \<Longrightarrow> bo_strict opts \<or> unat (ho_addr src) + unat (ho_size src) < 2 ^ 64) \<Longrightarrow>
    build_inv (obs @ srcs) st'"
proof (induction opts srcs st arbitrary: obs c rule: add_objects.induct)
  case (2 opts src srcs st)
  then obtain c1 st1 where "add_object opts src st = Inr st1" "add_objects opts srcs st1 c1 = Inr (st', c')"
    by (auto simp: es_bind_Inr)
  with 2 add_object_inv [of obs st opts src st1] show ?case by fastforce
qed simp

text \<open>A strict build accepts no duplicate address and no range that wraps around.\<close>

definition addrs_unique :: "heap_object list \<Rightarrow> bool" where
  "addrs_unique obs \<longleftrightarrow> (\<forall>k < length obs. ho_addr (obs ! k) \<noteq> 0 \<longrightarrow> first_at obs k)"

definition object_fits :: "heap_object \<Rightarrow> bool" where
  "object_fits ob \<longleftrightarrow> unat (ho_addr ob) + unat (ho_size ob) < 2 ^ 64"

lemma add_object_strict:
  assumes inv: "build_inv obs st" and uniq: "addrs_unique obs"
    and run: "add_object opts src st = Inr st'" and strict: "bo_strict opts"
  shows "addrs_unique (obs @ [src])" "ho_addr src = 0 \<or> object_fits src"
proof -
  have new: "ho_addr src = 0 \<or> bs_by_addr st (ho_addr src) = None"
    using run strict by (auto simp: add_object_def split: option.splits if_splits)
  have "\<not> first_at obs k" if "ho_addr (obs ! k) = ho_addr src" "ho_addr src \<noteq> 0" for k
  proof
    assume "first_at obs k"
    then have "bs_by_addr st (ho_addr src) = Some (of_nat k)"
      using inv that(1) unfolding build_inv_def by blast
    with new that(2) show False by simp
  qed
  with uniq have "\<forall>k < length obs. ho_addr (obs ! k) \<noteq> ho_addr src \<or> ho_addr src = 0"
    unfolding addrs_unique_def by metis
  with uniq show "addrs_unique (obs @ [src])"
    unfolding addrs_unique_def
    by (auto simp: less_Suc_eq first_at_append nth_append) (auto simp: first_at_def nth_append)
  show "ho_addr src = 0 \<or> object_fits src"
  proof (rule ccontr)
    assume bad: "\<not> (ho_addr src = 0 \<or> object_fits src)"
    then have big: "2 ^ 64 \<le> unat (ho_addr src) + unat (ho_size src)" by (simp add: object_fits_def)
    have sz: "ho_size src \<noteq> 0"
    proof
      assume "ho_size src = 0"
      with big unsigned_less [of "ho_addr src", where ?'a = nat] show False by simp
    qed
    have wrap: "ho_addr src + ho_size src < ho_addr src"
      using big AddUint64_None [of "ho_addr src" "ho_size src" "ho_addr src + ho_size src"]
      by (auto simp: AddUint64_def Let_def)
    from bad new obtain i st1 where "append_object src st = Inr (i, st1)"
      "add_range opts src i (st1\<lparr>bs_by_addr := (bs_by_addr st1)(ho_addr src \<mapsto> i)\<rparr>) = Inr st'"
      using run by (auto simp: add_object_def split: sum.splits)
    with wrap sz strict show False by (simp add: add_range_def Let_def)
  qed
qed

lemma add_objects_strict:
  "add_objects opts srcs st c = Inr (st', c') \<Longrightarrow> build_inv obs st \<Longrightarrow> addrs_unique obs \<Longrightarrow>
    bo_strict opts \<Longrightarrow>
    addrs_unique (obs @ srcs) \<and> (\<forall>src \<in> set srcs. ho_addr src = 0 \<or> object_fits src)"
proof (induction opts srcs st arbitrary: obs c rule: add_objects.induct)
  case (2 opts src srcs st)
  then obtain c1 st1 where run: "add_object opts src st = Inr st1"
    "add_objects opts srcs st1 c1 = Inr (st', c')"
    by (auto simp: es_bind_Inr)
  have "build_inv (obs @ [src]) st1"
    by (rule add_object_inv [OF 2(3) run(1)]) (simp add: 2(5))
  with 2(1) [OF run(2) this] add_object_strict [OF 2(3,4) run(1) 2(5)] 2(5) show ?case by simp
qed simp

text \<open>Whatever the options: one graph object per source object, and only valid identifiers.\<close>

definition build_ids :: "heap_object list \<Rightarrow> build_state \<Rightarrow> bool" where
  "build_ids obs st \<longleftrightarrow>
     bs_objects st = map (\<lambda>k. graph_object k (obs ! k)) [0..<length obs] \<and>
     (\<forall>i \<in> ran (bs_by_addr st). unat i < length obs) \<and>
     (\<forall>r \<in> set (bs_ranges st). unat (or_id r) < length obs)"

lemma add_range_ids:
  "add_range opts src i st = Inr st' \<Longrightarrow> bs_objects st' = bs_objects st \<and>
    bs_by_addr st' = bs_by_addr st \<and> (\<forall>r \<in> set (bs_ranges st'). r \<in> set (bs_ranges st) \<or> or_id r = i)"
  by (auto simp: add_range_def bs_warn_def Let_def split: if_splits)

lemma add_object_grows:
  assumes "add_object opts src st = Inr st'"
  shows "length (bs_objects st) < 2 ^ 32 \<and>
    bs_objects st' = bs_objects st @ [graph_object (length (bs_objects st)) src] \<and>
    ran (bs_by_addr st') \<subseteq> insert (of_nat (length (bs_objects st))) (ran (bs_by_addr st)) \<and>
    (\<forall>r \<in> set (bs_ranges st'). r \<in> set (bs_ranges st) \<or> or_id r = of_nat (length (bs_objects st)))"
  using assms
  by (auto simp: add_object_def bs_warn_def append_object_Inr ran_def
      split: if_splits option.splits sum.splits prod.splits dest!: add_range_ids)

lemma unat_object_id: "k < 2 ^ 32 \<Longrightarrow> unat (of_nat k :: object_id) = k"
  by (simp add: unat_of_nat take_bit_nat_eq_self)

lemma add_object_ids:
  assumes "build_ids obs st" "add_object opts src st = Inr st'"
  shows "build_ids (obs @ [src]) st'"
proof -
  note g = add_object_grows [OF assms(2)]
  have len: "length (bs_objects st) = length obs" using assms(1) by (simp add: build_ids_def)
  with g have new: "unat (of_nat (length obs) :: object_id) = length obs" by (simp add: unat_object_id)
  have "bs_objects st' = map (\<lambda>k. graph_object k ((obs @ [src]) ! k)) [0..<length (obs @ [src])]"
    using assms(1) g len by (simp add: build_ids_def nth_append)
  moreover have "unat i < length (obs @ [src])" if "i \<in> ran (bs_by_addr st')" for i
    using that g assms(1) new unfolding len build_ids_def by (auto simp: less_Suc_eq)
  moreover have "unat (or_id r) < length (obs @ [src])" if "r \<in> set (bs_ranges st')" for r
  proof -
    from that g have "r \<in> set (bs_ranges st) \<or> or_id r = of_nat (length obs)" unfolding len by blast
    with assms(1) new show ?thesis unfolding build_ids_def by (auto simp: less_Suc_eq)
  qed
  ultimately show ?thesis unfolding build_ids_def by blast
qed

lemma add_objects_ids:
  "add_objects opts srcs st c = Inr (st', c') \<Longrightarrow> build_ids obs st \<Longrightarrow> build_ids (obs @ srcs) st'"
proof (induction opts srcs st arbitrary: obs c rule: add_objects.induct)
  case (2 opts src srcs st)
  then obtain c1 st1 where run: "add_object opts src st = Inr st1"
    "add_objects opts srcs st1 c1 = Inr (st', c')"
    by (auto simp: es_bind_Inr)
  from 2(1) [OF run(2) add_object_ids [OF 2(3) run(1)]] show ?case by simp
qed simp

section \<open>Overlaps\<close>

lemma overlap_loop_strict:
  "overlap_loop opts m rs ws = Inr ws' \<Longrightarrow> bo_strict opts \<Longrightarrow>
    list_all (\<lambda>r. or_end m \<le> or_start r) rs \<and> sorted_wrt (\<lambda>a b. or_end a \<le> or_start b) rs"
proof (induction opts m rs ws rule: overlap_loop.induct)
  case (2 opts m cur rs ws)
  let ?m = "if or_end cur > or_end m then cur else m"
  from 2(2,3) have le: "or_end m \<le> or_start cur" by (auto split: if_splits)
  with 2 have "list_all (\<lambda>r. or_end ?m \<le> or_start r) rs \<and> sorted_wrt (\<lambda>a b. or_end a \<le> or_start b) rs"
    by (auto split: if_splits)
  moreover have "or_end m \<le> or_end ?m" "or_end cur \<le> or_end ?m" by auto
  ultimately show ?case using le by (auto simp: list_all_iff intro: order_trans)
qed simp

lemma check_overlaps_strict:
  assumes "check_overlaps opts (sort_key or_start rs) ws = Inr ws'" "bo_strict opts"
  shows "ranges_disjoint (sort_key or_start rs)"
proof -
  have "sorted_wrt (\<lambda>a b. or_end a \<le> or_start b) (sort_key or_start rs)"
    using assms overlap_loop_strict [of opts]
    by (auto simp: check_overlaps_def list_all_iff split: list.splits)
  then show ?thesis
    unfolding ranges_disjoint_def using sorted_sort_key [of or_start rs]
    by (simp add: sorted_wrt_iff_nth_less)
qed

section \<open>The object that holds a pointer\<close>

definition holds :: "heap_object \<Rightarrow> u64 \<Rightarrow> bool" where
  "holds ob ptr \<longleftrightarrow> ho_addr ob \<le> ptr \<and> unat ptr < unat (ho_addr ob) + unat (ho_size ob)"

text \<open>An object that starts at the pointer goes before one that only holds it.\<close>

definition resolves_to :: "heap_object list \<Rightarrow> u64 \<Rightarrow> nat \<Rightarrow> bool" where
  "resolves_to obs ptr k \<longleftrightarrow> k < length obs \<and> ho_addr (obs ! k) \<noteq> 0 \<and>
     (ho_addr (obs ! k) = ptr \<or> (\<forall>ob \<in> set obs. ho_addr ob \<noteq> ptr) \<and> holds (obs ! k) ptr)"

lemma range_holds:
  assumes "object_fits ob" "ho_size ob \<noteq> 0"
  shows "or_start (object_range_of k ob) \<le> ptr \<and> ptr < or_end (object_range_of k ob) \<longleftrightarrow> holds ob ptr"
  using assms by (auto simp: object_range_of_def holds_def object_fits_def word_less_nat_alt unat_add_no_carry)

lemma holds_empty: "ho_size ob = 0 \<Longrightarrow> \<not> holds ob ptr"
  by (auto simp: holds_def word_le_nat_alt)

lemma lookup_holds:
  assumes inv: "build_inv obs st" and uniq: "addrs_unique obs"
    and fits: "\<And>ob. ob \<in> set obs \<Longrightarrow> ho_addr ob = 0 \<or> object_fits ob"
    and dis: "ranges_disjoint (gr_ranges g)"
    and g: "gr_by_addr g = bs_by_addr st" "gr_ranges g = sort_key or_start (bs_ranges st)"
    and ptr: "ptr \<noteq> 0"
  shows "find_object_containing (Some g) ptr = Some i \<longleftrightarrow> (\<exists>k. resolves_to obs ptr k \<and> i = of_nat k)"
proof (cases "gr_by_addr g ptr")
  case (Some j)
  then obtain k where k: "first_at obs k" "ho_addr (obs ! k) = ptr" "j = of_nat k"
    using inv unfolding g build_inv_def by blast
  have "find_object_containing (Some g) ptr = Some j"
    using Some ptr by (simp add: find_object_containing_def)
  moreover have "resolves_to obs ptr l \<longleftrightarrow> l = k" for l
  proof
    assume l: "resolves_to obs ptr l"
    from k have "obs ! k \<in> set obs" by (simp add: first_at_def)
    with l k(2) have "l < length obs" "ho_addr (obs ! l) = ptr" by (auto simp: resolves_to_def)
    with uniq ptr k show "l = k"
      unfolding addrs_unique_def first_at_def by (metis linorder_neqE_nat)
  qed (use k ptr in \<open>auto simp: resolves_to_def first_at_def\<close>)
  ultimately show ?thesis using k(3) by auto
next
  case None
  have no: "ho_addr ob \<noteq> ptr" if "ob \<in> set obs" for ob
  proof
    assume eq: "ho_addr ob = ptr"
    from that obtain k where "k < length obs" "obs ! k = ob" by (auto simp: in_set_conv_nth)
    with eq ptr uniq have "first_at obs k" "ho_addr (obs ! k) = ptr" unfolding addrs_unique_def by auto
    then have "bs_by_addr st ptr = Some (of_nat k)" using inv unfolding build_inv_def by blast
    with None show False unfolding g by simp
  qed
  have range: "r \<in> set (gr_ranges g) \<longleftrightarrow>
      (\<exists>k < length obs. ho_addr (obs ! k) \<noteq> 0 \<and> ho_size (obs ! k) \<noteq> 0 \<and> r = object_range_of k (obs ! k))" for r
  proof -
    have "bs_ranges st = map (\<lambda>k. object_range_of k (obs ! k))
        (filter (\<lambda>k. first_at obs k \<and> ho_size (obs ! k) \<noteq> 0) [0..<length obs])"
      using inv by (simp add: build_inv_def)
    moreover have "first_at obs k \<longleftrightarrow> k < length obs \<and> ho_addr (obs ! k) \<noteq> 0" for k
      using uniq by (auto simp: addrs_unique_def first_at_def)
    ultimately show ?thesis unfolding g by auto
  qed
  have "(\<exists>r \<in> set (gr_ranges g). or_start r \<le> ptr \<and> ptr < or_end r \<and> or_id r = i) \<longleftrightarrow>
      (\<exists>k. resolves_to obs ptr k \<and> i = of_nat k)" (is "?L \<longleftrightarrow> ?R")
  proof
    assume ?L
    then obtain r where r: "r \<in> set (gr_ranges g)" "or_start r \<le> ptr \<and> ptr < or_end r" "or_id r = i"
      by blast
    from r(1) obtain k where k: "k < length obs" "ho_addr (obs ! k) \<noteq> 0" "ho_size (obs ! k) \<noteq> 0"
      "r = object_range_of k (obs ! k)"
      unfolding range by blast
    have "object_fits (obs ! k)" using fits [of "obs ! k"] k by simp
    from range_holds [OF this k(3), of k ptr] r(2) have "holds (obs ! k) ptr" unfolding k(4) by blast
    with k no have "resolves_to obs ptr k" by (simp add: resolves_to_def)
    with r(3) k(4) show ?R by (auto simp: object_range_of_def)
  next
    assume ?R
    then obtain k where k: "resolves_to obs ptr k" "i = of_nat k" by blast
    then have h: "k < length obs" "ho_addr (obs ! k) \<noteq> 0" "holds (obs ! k) ptr"
      using no nth_mem unfolding resolves_to_def by blast+
    then have sz: "ho_size (obs ! k) \<noteq> 0" using holds_empty by blast
    have "object_fits (obs ! k)" using fits [of "obs ! k"] h by simp
    from range_holds [OF this sz] h(3) have
      "or_start (object_range_of k (obs ! k)) \<le> ptr \<and> ptr < or_end (object_range_of k (obs ! k))" by blast
    moreover have "object_range_of k (obs ! k) \<in> set (gr_ranges g)" unfolding range using h sz by blast
    moreover have "or_id (object_range_of k (obs ! k)) = i" using k(2) by (simp add: object_range_of_def)
    ultimately show ?L by blast
  qed
  with range_search_spec [OF dis ptr None] show ?thesis by simp
qed

section \<open>Children\<close>

text \<open>The linear scan that the epoch stamps replace: append what is not yet there.\<close>

fun dedup :: "'a list \<Rightarrow> 'a list \<Rightarrow> 'a list" where
  "dedup acc [] = acc"
| "dedup acc (x # xs) = dedup (if x \<in> set acc then acc else acc @ [x]) xs"

lemma set_dedup [simp]: "set (dedup acc xs) = set acc \<union> set xs"
  by (induction acc xs rule: dedup.induct) auto

lemma distinct_dedup: "distinct acc \<Longrightarrow> distinct (dedup acc xs)"
  by (induction acc xs rule: dedup.induct) auto

lemma dedup_append: "dedup acc (xs @ ys) = dedup (dedup acc xs) ys"
  by (induction acc xs rule: dedup.induct) auto

definition kids :: "edge_state \<Rightarrow> object_id list list" where
  "kids st = map ob_children (gr_objects (ed_graph st))"

definition lookup :: "edge_state \<Rightarrow> u64 \<Rightarrow> object_id option" where
  "lookup st = find_object_containing (Some (ed_graph st))"

text \<open>What the edge phase leaves alone.\<close>

definition same_shape :: "edge_state \<Rightarrow> edge_state \<Rightarrow> bool" where
  "same_shape st st' \<longleftrightarrow> gr_by_addr (ed_graph st') = gr_by_addr (ed_graph st) \<and>
     gr_ranges (ed_graph st') = gr_ranges (ed_graph st) \<and>
     map (ob_children_update (\<lambda>_. [])) (gr_objects (ed_graph st')) =
       map (ob_children_update (\<lambda>_. [])) (gr_objects (ed_graph st)) \<and>
     length (ed_seen st') = length (ed_seen st)"

lemma same_shape_refl [simp]: "same_shape st st" by (simp add: same_shape_def)

lemma same_shape_trans: "same_shape a b \<Longrightarrow> same_shape b c \<Longrightarrow> same_shape a c"
  by (simp add: same_shape_def)

lemma find_object_cong:
  assumes "gr_by_addr g' = gr_by_addr g" "gr_ranges g' = gr_ranges g"
  shows "find_object_containing (Some g') = find_object_containing (Some g)"
  unfolding find_object_containing_def option.case assms ..

lemma same_shape_lookup: "same_shape st st' \<Longrightarrow> lookup st' = lookup st"
  unfolding lookup_def same_shape_def by (blast intro: find_object_cong)

lemma same_shape_length:
  "same_shape st st' \<Longrightarrow> length (gr_objects (ed_graph st')) = length (gr_objects (ed_graph st))"
  unfolding same_shape_def by (metis length_map)

text \<open>
  The invariant of one source object: an entry of \<open>seen\<close> carries its epoch exactly when the
  target is already a child, and the entries of other objects are theirs. The targets outside \<open>T\<close>
  carry the epoch from the start: none for an epoch that is new.
\<close>

definition stamped :: "object_id set \<Rightarrow> nat \<Rightarrow> u32 \<Rightarrow> edge_state \<Rightarrow> bool" where
  "stamped T k epoch st \<longleftrightarrow> length (ed_seen st) = length (gr_objects (ed_graph st)) \<and>
     k < length (gr_objects (ed_graph st)) \<and>
     (\<forall>t. unat t < length (ed_seen st) \<longrightarrow> (ed_seen st ! unat t = epoch \<longleftrightarrow> t \<in> set (kids st ! k) \<or> t \<notin> T))"

lemma lookup_ids:
  assumes "lookup st ptr = Some t"
    and "\<forall>i \<in> ran (gr_by_addr (ed_graph st)). unat i < n"
    and "\<forall>r \<in> set (gr_ranges (ed_graph st)). unat (or_id r) < n"
  shows "unat t < n"
proof (cases "gr_by_addr (ed_graph st) ptr")
  case (Some i)
  then have "i \<in> ran (gr_by_addr (ed_graph st))" by (rule ranI)
  with Some assms(1,2) show ?thesis
    by (auto simp: lookup_def find_object_containing_def split: if_splits)
next
  case None
  let ?rs = "gr_ranges (ed_graph st)"
  let ?j = "sort_search (length ?rs) (\<lambda>i. or_start (?rs ! i) > ptr)"
  from None assms(1) have "?j \<noteq> 0" "?rs \<noteq> []" "t = or_id (?rs ! (?j - 1))"
    by (auto simp: lookup_def find_object_containing_def Let_def split: if_splits)
  moreover have "?j \<le> length ?rs" by (rule sort_search_le)
  ultimately have "?rs ! (?j - 1) \<in> set ?rs" by (intro nth_mem) linarith
  with assms(3) \<open>t = _\<close> show ?thesis by simp
qed

definition targets_valid :: "edge_state \<Rightarrow> bool" where
  "targets_valid st \<longleftrightarrow>
     (\<forall>ptr t. lookup st ptr = Some t \<longrightarrow> unat t < length (gr_objects (ed_graph st)))"

lemma same_shape_valid: "same_shape st st' \<Longrightarrow> targets_valid st' = targets_valid st"
  by (simp add: targets_valid_def same_shape_lookup same_shape_length)

text \<open>One pointer, seen from the children.\<close>

lemma add_edge_spec:
  assumes st: "stamped T (unat from_id) epoch st"
    and ids: "targets_valid st"
    and st': "st' = add_edge opts src from_id epoch pi ptr st"
  shows "same_shape st st'" "stamped T (unat from_id) epoch st'"
    "kids st' = (kids st)[unat from_id := dedup (kids st ! unat from_id)
       (case lookup st ptr of None \<Rightarrow> [] | Some t \<Rightarrow> if t \<in> T then [t] else [])]"
    "\<forall>s \<in> set (ed_seen st'). s = epoch \<or> s \<in> set (ed_seen st)"
proof -
  let ?k = "unat from_id"
  have k: "?k < length (gr_objects (ed_graph st))" using st by (simp add: stamped_def)
  have nth: "kids st ! ?k = ob_children (gr_objects (ed_graph st) ! ?k)"
    using k by (simp add: kids_def)
  have same: "map (ob_children_update (\<lambda>_. [])) ((gr_objects (ed_graph st))[?k :=
      (gr_objects (ed_graph st) ! ?k)\<lparr>ob_children := c\<rparr>]) =
      map (ob_children_update (\<lambda>_. [])) (gr_objects (ed_graph st))" for c
    using k by (simp add: map_update list_update_same_conv)
  have zero: "lookup st 0 = None" by (simp add: lookup_def find_object_containing_def)
  have none: "kids st = (kids st)[?k := dedup (kids st ! ?k) []]" by simp
  show "same_shape st st'" "stamped T ?k epoch st'"
    "kids st' = (kids st)[?k := dedup (kids st ! ?k) (case lookup st ptr of None \<Rightarrow> [] | Some t \<Rightarrow> if t \<in> T then [t] else [])]"
    "\<forall>s \<in> set (ed_seen st'). s = epoch \<or> s \<in> set (ed_seen st)"
  proof (atomize (full), goal_cases)
    case 1
    show ?case
    proof (cases "lookup st ptr")
      case None
      then have "ed_graph st' = ed_graph st" "ed_seen st' = ed_seen st"
        by (auto simp: st' add_edge_def upd_ed_stats_def lookup_def Let_def)
      moreover from this have "kids st' = kids st" by (simp add: kids_def)
      ultimately show ?thesis using None st by (simp add: same_shape_def stamped_def)
    next
      case (Some t)
      have t: "unat t < length (ed_seen st)" using ids Some st by (simp add: stamped_def targets_valid_def)
      have p: "ptr \<noteq> 0" using Some zero by auto
      show ?thesis
      proof (cases "ed_seen st ! unat t = epoch")
        case True
        with Some p have "gr_objects (ed_graph st') = gr_objects (ed_graph st)" "ed_seen st' = ed_seen st"
          "gr_by_addr (ed_graph st') = gr_by_addr (ed_graph st)"
          "gr_ranges (ed_graph st') = gr_ranges (ed_graph st)"
          by (auto simp: st' add_edge_def upd_ed_stats_def lookup_def Let_def add_reference_def)
        moreover have "t \<in> set (kids st ! ?k) \<or> t \<notin> T" using True t st by (simp add: stamped_def)
        moreover have "kids st' = kids st" using calculation(1) by (simp add: kids_def)
        ultimately show ?thesis using Some st by (auto simp: same_shape_def stamped_def)
      next
        case False
        then have new: "t \<notin> set (kids st ! ?k)" "t \<in> T" using t st by (auto simp: stamped_def)
        have gr: "gr_objects (ed_graph st') = (gr_objects (ed_graph st))[?k :=
            (gr_objects (ed_graph st) ! ?k)\<lparr>ob_children := ob_children (gr_objects (ed_graph st) ! ?k) @ [t]\<rparr>]"
          and seen: "ed_seen st' = (ed_seen st)[unat t := epoch]"
          and other: "gr_by_addr (ed_graph st') = gr_by_addr (ed_graph st)"
            "gr_ranges (ed_graph st') = gr_ranges (ed_graph st)"
          using Some p False
          by (auto simp: st' add_edge_def upd_ed_stats_def lookup_def Let_def add_reference_def add_child_def)
        have kids: "kids st' = (kids st)[?k := kids st ! ?k @ [t]]"
          by (simp add: kids_def gr map_update nth [unfolded kids_def])
        have "same_shape st st'" by (simp add: same_shape_def other gr same seen)
        moreover have "stamped T ?k epoch st'"
        proof -
          have len: "length (gr_objects (ed_graph st')) = length (gr_objects (ed_graph st))"
            "length (ed_seen st') = length (ed_seen st)" by (simp_all add: gr seen)
          have kl: "?k < length (kids st)" using k by (simp add: kids_def)
          have "ed_seen st' ! unat u = epoch \<longleftrightarrow> u \<in> set (kids st' ! ?k) \<or> u \<notin> T"
            if "unat u < length (ed_seen st)" for u
          proof (cases "u = t")
            case True
            then show ?thesis using that kl by (simp add: seen kids)
          next
            case False
            then have "unat u \<noteq> unat t" by (simp add: word_unat_eq_iff)
            then show ?thesis using that st kl False by (simp add: seen kids stamped_def)
          qed
          with st len show ?thesis by (simp add: stamped_def)
        qed
        ultimately show ?thesis using Some new kids seen
          by (auto simp: dest: subsetD [OF set_update_subset_insert])
      qed
    qed
  qed
qed

lemma add_edges_spec:
  "add_edges opts src from_id epoch pi ptrs st c = Inr (st', c') \<Longrightarrow>
    stamped T (unat from_id) epoch st \<Longrightarrow> targets_valid st \<Longrightarrow>
    same_shape st st' \<and>
    kids st' = (kids st)[unat from_id := dedup (kids st ! unat from_id) (filter (\<lambda>t. t \<in> T) (List.map_filter (lookup st) ptrs))] \<and>
    (\<forall>s \<in> set (ed_seen st'). s = epoch \<or> s \<in> set (ed_seen st))"
proof (induction opts src from_id epoch pi ptrs st arbitrary: c rule: add_edges.induct)
  case (2 opts src from_id epoch pi ptr ptrs st)
  let ?st = "add_edge opts src from_id epoch pi ptr st" and ?k = "unat from_id"
  from 2(2) obtain c1 where run: "add_edges opts src from_id epoch (pi + 1) ptrs ?st c1 = Inr (st', c')"
    by (auto simp: es_bind_Inr)
  note e = add_edge_spec [OF 2(3,4) refl, where opts = opts and src = src and pi = pi]
  have IH: "same_shape ?st st'"
    "kids st' = (kids ?st)[?k := dedup (kids ?st ! ?k) (filter (\<lambda>t. t \<in> T) (List.map_filter (lookup ?st) ptrs))]"
    "\<forall>s \<in> set (ed_seen st'). s = epoch \<or> s \<in> set (ed_seen ?st)"
    using 2(1) [OF run e(2)] 2(4) same_shape_valid [OF e(1)] by blast+
  have k: "?k < length (kids st)" using 2(3) by (simp add: stamped_def kids_def)
  have "kids st' = (kids st)[?k := dedup (kids st ! ?k) (filter (\<lambda>t. t \<in> T) (List.map_filter (lookup st) (ptr # ptrs)))]"
    using k unfolding IH(2) e(3) same_shape_lookup [OF e(1)]
    by (cases "lookup st ptr") (simp_all add: map_filter_simps)
  with same_shape_trans [OF e(1) IH(1)] IH(3) e(4) show ?case by blast
qed (auto simp: map_filter_simps)

lemma resolve_edges_spec:
  "resolve_edges opts i srcs st c = Inr (st', c') \<Longrightarrow>
    i + length srcs \<le> length (gr_objects (ed_graph st)) \<Longrightarrow>
    length (ed_seen st) = length (gr_objects (ed_graph st)) \<Longrightarrow>
    i + length srcs < 2 ^ 32 \<Longrightarrow>
    (\<And>j. j < length (gr_objects (ed_graph st)) \<Longrightarrow> ob_id (gr_objects (ed_graph st) ! j) = of_nat j) \<Longrightarrow>
    (\<And>s. s \<in> set (ed_seen st) \<Longrightarrow> unat s \<le> i) \<Longrightarrow>
    (\<And>j. i \<le> j \<Longrightarrow> j < length (gr_objects (ed_graph st)) \<Longrightarrow> kids st ! j = []) \<Longrightarrow>
    targets_valid st \<Longrightarrow>
    same_shape st st' \<and>
    (\<forall>j < length (gr_objects (ed_graph st)). kids st' ! j =
       (if j < i then kids st ! j
        else if j < i + length srcs then dedup [] (List.map_filter (lookup st) (ho_pointer_addrs (srcs ! (j - i))))
        else []))"
proof (induction opts i srcs st arbitrary: c rule: resolve_edges.induct)
  case (2 opts i src srcs st)
  let ?n = "length (gr_objects (ed_graph st))" and ?f = "of_nat i :: object_id"
  have i: "i < ?n" "i < 2 ^ 32" "i + 1 < 2 ^ 32" using 2(3,5) by auto
  have f: "unat ?f = i" using i(2) by (rule unat_object_id)
  have e: "unat (?f + 1) = i + 1" using unat_object_id [OF i(3)] by (simp add: add.commute)
  from 2(2) 2(6) [OF i(1)] obtain st1 c1 c2 where
    run1: "add_edges opts src ?f (?f + 1) 0 (ho_pointer_addrs src) st c1 = Inr (st1, c2)" and
    run2: "resolve_edges opts (i + 1) srcs st1 c2 = Inr (st', c')"
    by (auto simp: es_bind_Inr)
  have fresh: "ed_seen st ! unat t \<noteq> ?f + 1" if "unat t < length (ed_seen st)" for t :: object_id
    using 2(7) [OF nth_mem [OF that]] e by fastforce
  have "stamped UNIV (unat ?f) (?f + 1) st"
    unfolding stamped_def f using 2(4) 2(8) [of i] i(1) fresh by simp
  note add = add_edges_spec [OF run1 this 2(9), simplified]
  have len1: "length (gr_objects (ed_graph st1)) = ?n" using add same_shape_length by blast
  have len_kids: "length (kids st) = ?n" by (simp add: kids_def)
  have kids1: "kids st1 = (kids st)[i := dedup [] (List.map_filter (lookup st) (ho_pointer_addrs src))]"
    using add 2(8) [of i] i(1) by (simp add: f)
  have IH: "same_shape st1 st' \<and> (\<forall>j < ?n. kids st' ! j = (if j < i + 1 then kids st1 ! j
      else if j < i + 1 + length srcs then dedup [] (List.map_filter (lookup st1) (ho_pointer_addrs (srcs ! (j - (i + 1)))))
      else []))"
    unfolding len1 [symmetric]
  proof (rule 2(1) [OF run2])
    show "length (ed_seen st1) = length (gr_objects (ed_graph st1))"
      using add 2(4) len1 by (simp add: same_shape_def)
    show "targets_valid st1" using add same_shape_valid 2(9) by blast
    show "unat s \<le> i + 1" if "s \<in> set (ed_seen st1)" for s
    proof -
      from add that have "s = ?f + 1 \<or> s \<in> set (ed_seen st)" by blast
      with 2(7) [of s] e show ?thesis by auto
    qed
    show "kids st1 ! j = []" if "i + 1 \<le> j" "j < length (gr_objects (ed_graph st1))" for j
      using that 2(8) [of j] len1 by (simp add: kids1)
    show "ob_id (gr_objects (ed_graph st1) ! j) = of_nat j" if "j < length (gr_objects (ed_graph st1))" for j
    proof -
      from add have "map (ob_children_update (\<lambda>_. [])) (gr_objects (ed_graph st1)) ! j =
          map (ob_children_update (\<lambda>_. [])) (gr_objects (ed_graph st)) ! j"
        by (simp add: same_shape_def)
      then have "ob_id (gr_objects (ed_graph st1) ! j) = ob_id (gr_objects (ed_graph st) ! j)"
        using that len1 by (simp, metis gobject.select_convs(1) gobject.surjective gobject.update_convs(4))
      with 2(6) that len1 show ?thesis by simp
    qed
  qed (use 2(3,5) len1 in simp_all)
  have "kids st' ! j = (if j < i then kids st ! j
      else if j < i + length (src # srcs) then
        dedup [] (List.map_filter (lookup st) (ho_pointer_addrs ((src # srcs) ! (j - i))))
      else [])"
    if j: "j < ?n" for j
  proof -
    have look: "lookup st1 = lookup st" using add same_shape_lookup by blast
    consider "j < i" | "j = i" | "i < j" by linarith
    then show ?thesis
    proof cases
      case 3
      then have "j - i = Suc (j - (i + 1))" by simp
      with 3 IH j look show ?thesis by simp
    qed (use IH j kids1 len_kids in simp_all)
  qed
  then show ?case using IH add same_shape_trans by blast
qed (auto simp: same_shape_def)

text \<open>
  The entries of \<open>seen\<close>: a target carries the epoch of the last object that refers to it. So an entry
  is zero exactly when no object with an epoch other than zero has referred to the target.
\<close>

lemma add_edge_lookup: "lookup (add_edge opts src from_id epoch pi ptr st) = lookup st"
  unfolding lookup_def
  by (rule find_object_cong)
    (auto simp: add_edge_def upd_ed_stats_def Let_def add_reference_def add_child_def split: option.splits)

lemma add_edge_seen:
  assumes "\<forall>t. lookup st ptr = Some t \<longrightarrow> unat t < length (ed_seen st)"
  shows "ed_seen (add_edge opts src from_id epoch pi ptr st) ! unat t =
      (if lookup st ptr = Some t then epoch else ed_seen st ! unat t)"
    and "length (ed_seen (add_edge opts src from_id epoch pi ptr st)) = length (ed_seen st)"
  using assms
  by (auto simp: add_edge_def upd_ed_stats_def Let_def lookup_def find_object_containing_def nth_list_update word_unat_eq_iff
      split: option.splits)

lemma add_edges_seen:
  "add_edges opts src from_id epoch pi ptrs st c = Inr (st', c') \<Longrightarrow>
    \<forall>ptr t. lookup st ptr = Some t \<longrightarrow> unat t < length (ed_seen st) \<Longrightarrow>
    lookup st' = lookup st \<and> length (ed_seen st') = length (ed_seen st) \<and>
    ed_seen st' ! unat t = (if t \<in> set (List.map_filter (lookup st) ptrs) then epoch else ed_seen st ! unat t)"
proof (induction opts src from_id epoch pi ptrs st arbitrary: c rule: add_edges.induct)
  case (2 opts src from_id epoch pi ptr ptrs st)
  let ?st = "add_edge opts src from_id epoch pi ptr st"
  from 2(2) obtain c1 where run: "add_edges opts src from_id epoch (pi + 1) ptrs ?st c1 = Inr (st', c')"
    by (auto simp: es_bind_Inr)
  have valid: "\<forall>t. lookup st ptr = Some t \<longrightarrow> unat t < length (ed_seen st)" using 2(3) by blast
  note e = add_edge_seen [OF valid, where opts = opts and src = src and from_id = from_id and epoch = epoch and pi = pi]
  have "\<forall>ptr t. lookup ?st ptr = Some t \<longrightarrow> unat t < length (ed_seen ?st)" using 2(3) by (simp add: add_edge_lookup e(2))
  from 2(1) [OF run this] show ?case
    by (cases "lookup st ptr") (auto simp: add_edge_lookup e map_filter_simps)
qed (simp add: map_filter_simps)

definition referred :: "edge_state \<Rightarrow> heap_object list \<Rightarrow> object_id set" where
  "referred st srcs = (\<Union>src \<in> set srcs. set (List.map_filter (lookup st) (ho_pointer_addrs src)))"

lemma resolve_edges_seen:
  "resolve_edges opts i srcs st c = Inr (st', c') \<Longrightarrow> i + length srcs < 2 ^ 32 \<Longrightarrow>
    \<forall>ptr t. lookup st ptr = Some t \<longrightarrow> unat t < length (ed_seen st) \<Longrightarrow>
    ed_seen st' ! unat t = 0 \<longleftrightarrow> ed_seen st ! unat t = 0 \<and> t \<notin> referred st srcs"
proof (induction opts i srcs st arbitrary: c rule: resolve_edges.induct)
  case (2 opts i src srcs st)
  from 2(2) obtain st1 c1 c2 where
    run1: "add_edges opts src (ob_id (gr_objects (ed_graph st) ! i)) (of_nat i + 1) 0 (ho_pointer_addrs src) st c1 = Inr (st1, c2)"
    and run2: "resolve_edges opts (i + 1) srcs st1 c2 = Inr (st', c')"
    by (auto simp: es_bind_Inr)
  have e: "unat (of_nat i + 1 :: u32) = i + 1" using unat_object_id [of "i + 1"] 2(3) by (simp add: add.commute)
  then have epoch: "(of_nat i + 1 :: u32) \<noteq> 0" by (metis add_eq_0_iff_both_eq_0 one_neq_zero unat_0)
  note seen = add_edges_seen [OF run1 2(4)]
  have "referred st1 srcs = referred st srcs" using seen by (simp add: referred_def)
  moreover have "ed_seen st' ! unat t = 0 \<longleftrightarrow> ed_seen st1 ! unat t = 0 \<and> t \<notin> referred st1 srcs"
    by (rule 2(1) [OF run2]) (use seen 2(3,4) in auto)
  ultimately show ?case using seen [of t] epoch by (auto simp: referred_def)
qed (simp add: referred_def)

lemma resolve_edges_append:
  "resolve_edges opts i (xs @ ys) st c = Inr (st', c') \<longleftrightarrow>
     (\<exists>st1 c1. resolve_edges opts i xs st c = Inr (st1, c1) \<and> resolve_edges opts (i + length xs) ys st1 c1 = Inr (st', c'))"
  by (induction xs arbitrary: i st c) (auto simp: es_bind_Inr)

section \<open>The counters of the edge phase\<close>

definition edge_counts :: "edge_state \<Rightarrow> nat \<Rightarrow> bool" where
  "edge_counts st n \<longleftrightarrow>
     gs_raw_object_pointers (ed_stats st) = int n \<and>
     gs_raw_object_pointers (ed_stats st) = gs_zero_object_pointers (ed_stats st) +
       gs_resolved_object_pointers (ed_stats st) + gs_unresolved_object_pointers (ed_stats st)"

lemma add_edge_counts:
  "edge_counts st n \<Longrightarrow> edge_counts (add_edge opts src from_id epoch pi ptr st) (Suc n)"
  by (simp add: add_edge_def edge_counts_def upd_ed_stats_def Let_def split: option.splits)

lemma add_edges_counts:
  "add_edges opts src from_id epoch pi ptrs st c = Inr (st', c') \<Longrightarrow> edge_counts st n \<Longrightarrow>
    edge_counts st' (n + length ptrs)"
proof (induction opts src from_id epoch pi ptrs st arbitrary: c n rule: add_edges.induct)
  case (2 opts src from_id epoch pi ptr ptrs st)
  from 2(2) obtain c1 where "add_edges opts src from_id epoch (pi + 1) ptrs
      (add_edge opts src from_id epoch pi ptr st) c1 = Inr (st', c')"
    by (auto simp: es_bind_Inr)
  from 2(1) [OF this add_edge_counts [OF 2(3)]] show ?case by simp
qed simp

lemma resolve_edges_counts:
  "resolve_edges opts i srcs st c = Inr (st', c') \<Longrightarrow> edge_counts st n \<Longrightarrow>
    edge_counts st' (n + sum_list (map (\<lambda>src. length (ho_pointer_addrs src)) srcs))"
proof (induction opts i srcs st arbitrary: c n rule: resolve_edges.induct)
  case (2 opts i src srcs st)
  from 2(2) obtain st1 c1 c2 where
    run1: "add_edges opts src (ob_id (gr_objects (ed_graph st) ! i)) (of_nat i + 1) 0
      (ho_pointer_addrs src) st c1 = Inr (st1, c2)" and
    run2: "resolve_edges opts (i + 1) srcs st1 c2 = Inr (st', c')"
    by (auto simp: es_bind_Inr)
  from 2(1) [OF run2 add_edges_counts [OF run1 2(3)]] show ?case by (simp add: add.assoc)
qed simp

section \<open>The whole build\<close>

lemma goroutine_roots_stats:
  "goroutine_roots opts g grs (out, stats) c = Inr ((gors, stats'), c') \<Longrightarrow>
    gs_raw_object_pointers stats' = gs_raw_object_pointers stats \<and>
    gs_zero_object_pointers stats' = gs_zero_object_pointers stats \<and>
    gs_resolved_object_pointers stats' = gs_resolved_object_pointers stats \<and>
    gs_unresolved_object_pointers stats' = gs_unresolved_object_pointers stats \<and>
    gs_edges stats' = gs_edges stats \<and>
    map gor_id gors = map gor_id out @ map g_id grs"
proof (induction grs arbitrary: out stats c)
  case (Cons gr grs)
  from Cons(2) obtain c1 roots unresolved c2 where "stack_roots opts g (g_frames gr) ([], 0) c1 =
      Inr ((roots, unresolved), c2)"
    and run: "goroutine_roots opts g grs
      (out @ [\<lparr>gor_id = g_id gr, gor_is_system = g_is_system gr,
         gor_is_background = g_is_background gr, gor_roots = roots @ sched_roots g gr, gor_reachable = {}\<rparr>],
       stats\<lparr>gs_unresolved_goroutine_roots := gs_unresolved_goroutine_roots stats + unresolved,
         gs_system_goroutines := gs_system_goroutines stats + (if g_is_system gr then 1 else 0),
         gs_goroutine_root_pointers := gs_goroutine_root_pointers stats +
           int (length (roots @ sched_roots g gr))\<rparr>) c2 = Inr ((gors, stats'), c')"
    by (auto simp: es_bind_Inr Let_def)
  from Cons(1) [OF run] show ?case by simp
qed auto

lemma build_objects_Inr:
  assumes "build_objects opts snap c = Inr ((g, ws), c')"
  obtains st ws0 where "add_objects opts (hs_objects snap)
       \<lparr>bs_objects = [], bs_by_addr = Map.empty, bs_ranges = [],
        bs_warnings = map (\<lambda>w. Fmt ''parse: %s'' [FM w]) (hs_warnings snap),
        bs_zero_addr_warned = False, bs_zero_sized_warned = False\<rparr> c = Inr (st, c')"
    "check_overlaps opts (sort_key or_start (bs_ranges st)) ws0 = Inr ws"
    "gr_objects g = bs_objects st" "gr_by_addr g = bs_by_addr st"
    "gr_ranges g = sort_key or_start (bs_ranges st)"
  using assms by (auto simp: build_objects_def es_bind_Inr Let_def)

lemma build_context_Inr:
  assumes "build_context c (Some snap) opts = Inr an"
  obtains g ws st c1 c2 c3 where "build_objects opts snap c1 = Inr ((g, ws), c2)"
    "resolve_edges opts 0 (hs_objects snap)
       \<lparr>ed_graph = g, ed_seen = replicate (length (gr_objects g)) 0, ed_stats = zero_stats\<rparr> c2 = Inr (st, c3)"
    "an_graph an = Some (ed_graph st)" "an_warnings an = ws"
    "gs_raw_object_pointers (an_stats an) = gs_raw_object_pointers (ed_stats st)"
    "gs_zero_object_pointers (an_stats an) = gs_zero_object_pointers (ed_stats st)"
    "gs_resolved_object_pointers (an_stats an) = gs_resolved_object_pointers (ed_stats st)"
    "gs_unresolved_object_pointers (an_stats an) = gs_unresolved_object_pointers (ed_stats st)"
    "gs_edges (an_stats an) = count_edges (gr_objects (ed_graph st))"
    "map gor_id (an_goroutines an) = map g_id (hs_goroutines snap)"
proof -
  have "map_sum id fst r = Inr x \<longleftrightarrow> (\<exists>s. r = Inr (x, s))" for r :: "go_error + analysis \<times> ctx" and x
    by (cases r) auto
  with assms obtain c1 g ws c2 st c3 c4 gors stats c5 gl c6 bytes where
    run: "build_objects opts snap c1 = Inr ((g, ws), c2)"
    "resolve_edges opts 0 (hs_objects snap)
       \<lparr>ed_graph = g, ed_seen = replicate (length (gr_objects g)) 0, ed_stats = zero_stats\<rparr> c2 = Inr (st, c3)"
    and gor: "goroutine_roots opts (ed_graph st) (hs_goroutines snap)
       ([], (ed_stats st)\<lparr>gs_edges := count_edges (gr_objects (ed_graph st))\<rparr>) c4 = Inr ((gors, stats), c5)"
    and gl: "global_roots (ed_graph st) snap c5 = Inr (gl, c6)"
    and an: "an = \<lparr>an_graph = Some (ed_graph st), an_goroutines = gors,
        an_globals = \<lparr>glr_roots = gl_roots gl, glr_reachable = {}\<rparr>, an_warnings = ws,
        an_stats = stats\<lparr>gs_goroutines := int (length gors),
          gs_unresolved_global_roots := gl_unresolved gl,
          gs_unresolved_finalizer_roots := gl_unresolved_fin gl,
          gs_global_roots := int (length (gl_roots gl)),
          gs_unresolved_pointers := gs_unresolved_object_pointers stats +
            gs_unresolved_goroutine_roots stats + gl_unresolved gl + gl_unresolved_fin gl,
          gs_objects := int (length (gr_objects (ed_graph st))), gs_object_bytes := bytes\<rparr>\<rparr>"
    unfolding build_context_def build_run_def option.case by (auto simp: es_bind_Inr Let_def)
  from goroutine_roots_stats [OF gor] show ?thesis by (intro that [OF run]) (simp_all add: an)
qed

definition start_state :: "heap_snapshot \<Rightarrow> build_state" where
  "start_state snap = \<lparr>bs_objects = [], bs_by_addr = Map.empty, bs_ranges = [],
     bs_warnings = map (\<lambda>w. Fmt ''parse: %s'' [FM w]) (hs_warnings snap),
     bs_zero_addr_warned = False, bs_zero_sized_warned = False\<rparr>"

lemma start_state_inv: "build_ids [] (start_state snap)" "build_inv [] (start_state snap)" "addrs_unique []"
  by (simp_all add: start_state_def build_ids_def build_inv_def addrs_unique_def first_at_def)

text \<open>The edge phase starts from the objects, without children, and looks up the same pointers.\<close>

lemma build_start:
  assumes run: "build_context c (Some snap) opts = Inr an" and g: "an_graph an = Some g"
  obtains bst ws0 ws c1 c2 st0 st c3 where
    "add_objects opts (hs_objects snap) (start_state snap) c1 = Inr (bst, c2)"
    "check_overlaps opts (sort_key or_start (bs_ranges bst)) ws0 = Inr ws"
    "resolve_edges opts 0 (hs_objects snap) st0 c2 = Inr (st, c3)" "g = ed_graph st"
    "gr_by_addr (ed_graph st0) = bs_by_addr bst" "gr_ranges (ed_graph st0) = sort_key or_start (bs_ranges bst)"
    "length (gr_objects (ed_graph st0)) = length (hs_objects snap)"
    "ed_seen st0 = replicate (length (hs_objects snap)) 0" "targets_valid st0"
    "\<forall>j < length (hs_objects snap). kids st0 ! j = [] \<and> ob_id (gr_objects (ed_graph st0) ! j) = of_nat j"
proof -
  from run obtain g0 ws st c1 c2 c3 where built: "build_objects opts snap c1 = Inr ((g0, ws), c2)"
    and edges: "resolve_edges opts 0 (hs_objects snap)
       \<lparr>ed_graph = g0, ed_seen = replicate (length (gr_objects g0)) 0, ed_stats = zero_stats\<rparr> c2 = Inr (st, c3)"
    and an: "an_graph an = Some (ed_graph st)"
    by (rule build_context_Inr)
  have g_st: "g = ed_graph st" using an g by simp
  from built obtain bst ws0 where add: "add_objects opts (hs_objects snap) (start_state snap) c1 = Inr (bst, c2)"
    and over: "check_overlaps opts (sort_key or_start (bs_ranges bst)) ws0 = Inr ws"
    and g0: "gr_objects g0 = bs_objects bst" "gr_by_addr g0 = bs_by_addr bst"
      "gr_ranges g0 = sort_key or_start (bs_ranges bst)"
    unfolding start_state_def by (rule build_objects_Inr)
  have ids: "build_ids (hs_objects snap) bst"
    using add_objects_ids [OF add start_state_inv(1)] by simp
  let ?st0 = "\<lparr>ed_graph = g0, ed_seen = replicate (length (gr_objects g0)) 0, ed_stats = zero_stats\<rparr>"
  have n: "length (gr_objects g0) = length (hs_objects snap)"
    using ids by (simp add: g0 build_ids_def)
  have objs: "gr_objects g0 ! j = graph_object j (hs_objects snap ! j)" if "j < length (gr_objects g0)" for j
    using ids that by (simp add: g0 build_ids_def)
  have all_ids: "\<forall>i \<in> ran (gr_by_addr g0). unat i < length (hs_objects snap)"
    "\<forall>r \<in> set (gr_ranges g0). unat (or_id r) < length (hs_objects snap)"
    using ids by (simp_all add: g0 build_ids_def)
  have valid: "targets_valid ?st0"
    unfolding targets_valid_def
  proof (intro allI impI)
    fix ptr t assume "lookup ?st0 ptr = Some t"
    from lookup_ids [OF this, of "length (hs_objects snap)"] all_ids n
    show "unat t < length (gr_objects (ed_graph ?st0))" by simp
  qed
  show ?thesis
    by (rule that [OF add over edges g_st]) (use n g0 valid objs in \<open>simp_all add: kids_def graph_object_def\<close>)
qed

lemma build_phases:
  assumes run: "build_context c (Some snap) opts = Inr an" and g: "an_graph an = Some g"
    and len: "length (hs_objects snap) < 2 ^ 32"
  obtains bst ws0 ws c1 c2 where
    "add_objects opts (hs_objects snap) (start_state snap) c1 = Inr (bst, c2)"
    "check_overlaps opts (sort_key or_start (bs_ranges bst)) ws0 = Inr ws"
    "gr_by_addr g = bs_by_addr bst" "gr_ranges g = sort_key or_start (bs_ranges bst)"
    "length (gr_objects g) = length (hs_objects snap)"
    "\<forall>ptr t. find_object_containing (Some g) ptr = Some t \<longrightarrow> unat t < length (hs_objects snap)"
    "\<forall>k < length (hs_objects snap). children g (of_nat k) =
      dedup [] (List.map_filter (find_object_containing (Some g)) (ho_pointer_addrs (hs_objects snap ! k)))"
proof -
  obtain bst ws0 ws c1 c2 st0 st c3 where
    add: "add_objects opts (hs_objects snap) (start_state snap) c1 = Inr (bst, c2)"
    and over: "check_overlaps opts (sort_key or_start (bs_ranges bst)) ws0 = Inr ws"
    and edges: "resolve_edges opts 0 (hs_objects snap) st0 c2 = Inr (st, c3)" and g_st: "g = ed_graph st"
    and g0: "gr_by_addr (ed_graph st0) = bs_by_addr bst" "gr_ranges (ed_graph st0) = sort_key or_start (bs_ranges bst)"
    and n: "length (gr_objects (ed_graph st0)) = length (hs_objects snap)"
    and seen: "ed_seen st0 = replicate (length (hs_objects snap)) 0" and valid: "targets_valid st0"
    and obs: "\<forall>j < length (hs_objects snap). kids st0 ! j = [] \<and> ob_id (gr_objects (ed_graph st0) ! j) = of_nat j"
    by (rule build_start [OF run g])
  have spec: "same_shape st0 st \<and> (\<forall>j < length (hs_objects snap). kids st ! j =
      dedup [] (List.map_filter (lookup st0) (ho_pointer_addrs (hs_objects snap ! j))))"
  proof -
    have "unat s \<le> 0" if "s \<in> set (ed_seen st0)" for s
      using that by (simp add: seen set_replicate_conv_if split: if_splits)
    from resolve_edges_spec [OF edges _ _ _ _ this] valid len obs show ?thesis
      by (simp add: n seen)
  qed
  have look: "lookup st0 = find_object_containing (Some g)"
    using spec same_shape_lookup [of st0 st] by (simp add: g_st lookup_def)
  have same: "gr_by_addr g = bs_by_addr bst" "gr_ranges g = sort_key or_start (bs_ranges bst)"
    "length (gr_objects g) = length (hs_objects snap)"
    using spec same_shape_length [of st0 st] n by (simp_all add: g_st same_shape_def g0)
  have found: "unat t < length (hs_objects snap)" if "find_object_containing (Some g) ptr = Some t" for ptr t
  proof -
    from that have "lookup st0 ptr = Some t" unfolding look .
    with valid have "unat t < length (gr_objects (ed_graph st0))" unfolding targets_valid_def by blast
    with n show ?thesis by simp
  qed
  have kids: "children g (of_nat k) =
      dedup [] (List.map_filter (find_object_containing (Some g)) (ho_pointer_addrs (hs_objects snap ! k)))"
    if k: "k < length (hs_objects snap)" for k
  proof -
    have "unat (of_nat k :: object_id) = k" using k len by (intro unat_object_id) simp
    then have "children g (of_nat k) = kids st ! k" using same(3) k by (simp add: children_def kids_def g_st)
    with spec k show ?thesis by (simp add: look)
  qed
  from found kids show ?thesis by (intro that [OF add over same]) blast+
qed

text \<open>
  With \<open>2^32\<close> objects the epoch of the last one is zero, the stamp of an entry that no object has
  touched: it keeps exactly the edges to objects that an earlier object refers to.
\<close>

lemma build_last:
  assumes run: "build_context c (Some snap) opts = Inr an" and g: "an_graph an = Some g"
    and objs: "hs_objects snap = srcs @ [src]" and len: "length srcs = 2 ^ 32 - 1"
  defines "targets \<equiv> \<lambda>ob. List.map_filter (find_object_containing (Some g)) (ho_pointer_addrs ob)"
  shows "children g (of_nat (length srcs)) = dedup [] (filter (\<lambda>t. \<exists>ob \<in> set srcs. t \<in> set (targets ob)) (targets src))"
proof -
  let ?n = "length srcs" and ?f = "of_nat (length srcs) :: object_id"
  obtain bst ws0 ws c1 c2 st0 st c3 where
    edges: "resolve_edges opts 0 (hs_objects snap) st0 c2 = Inr (st, c3)" and g_st: "g = ed_graph st"
    and n: "length (gr_objects (ed_graph st0)) = length (hs_objects snap)"
    and seen: "ed_seen st0 = replicate (length (hs_objects snap)) 0" and valid: "targets_valid st0"
    and obs: "\<forall>j < length (hs_objects snap). kids st0 ! j = [] \<and> ob_id (gr_objects (ed_graph st0) ! j) = of_nat j"
    by (rule build_start [OF run g])
  have small: "?n < 2 ^ 32" using len by simp
  have f: "unat ?f = ?n" "?f + 1 = 0" using unat_object_id [OF small] by (simp_all add: len)
  from edges obtain st1 c4 where first: "resolve_edges opts 0 srcs st0 c2 = Inr (st1, c4)"
    and last_one: "resolve_edges opts ?n [src] st1 c4 = Inr (st, c3)"
    by (auto simp: objs resolve_edges_append)
  have zero: "unat s \<le> 0" if "s \<in> set (ed_seen st0)" for s
    using that by (simp add: seen set_replicate_conv_if split: if_splits)
  have spec: "same_shape st0 st1" "kids st1 ! ?n = []"
    using resolve_edges_spec [OF first _ _ _ _ zero] valid small obs by (simp_all add: n seen objs)
  note shape = spec(1)
  have look: "lookup st1 = lookup st0" by (rule same_shape_lookup [OF shape])
  have "map (ob_children_update (\<lambda>_. [])) (gr_objects (ed_graph st1)) ! ?n =
      map (ob_children_update (\<lambda>_. [])) (gr_objects (ed_graph st0)) ! ?n" using shape by (simp add: same_shape_def)
  then have id: "ob_id (gr_objects (ed_graph st1) ! ?n) = ?f"
    using obs [rule_format, of ?n] same_shape_length [OF shape] n
    by (simp add: objs) (metis gobject.select_convs(1) gobject.surjective gobject.update_convs(4))
  from last_one obtain c5 c6 where run1: "add_edges opts src ?f 0 0 (ho_pointer_addrs src) st1 c5 = Inr (st, c6)"
    by (auto simp: es_bind_Inr id f(2))
  have lens: "length (ed_seen st1) = length (gr_objects (ed_graph st1))" "?n < length (gr_objects (ed_graph st1))"
    using shape same_shape_length [OF shape] n by (simp_all add: same_shape_def seen objs)
  have "ed_seen st1 ! unat t = 0 \<longleftrightarrow> t \<notin> referred st0 srcs" if "unat t < length (ed_seen st1)" for t
  proof -
    have "\<forall>ptr t. lookup st0 ptr = Some t \<longrightarrow> unat t < length (ed_seen st0)"
      using valid n by (auto simp: targets_valid_def seen)
    with resolve_edges_seen [OF first _ this, of t] small that shape show ?thesis by (simp add: seen same_shape_def)
  qed
  then have "stamped (referred st0 srcs) (unat ?f) 0 st1"
    using lens spec(2) by (simp add: stamped_def f(1))
  from add_edges_spec [OF run1 this] have "same_shape st1 st"
    "kids st = (kids st1)[?n := dedup [] (filter (\<lambda>t. t \<in> referred st0 srcs) (List.map_filter (lookup st0) (ho_pointer_addrs src)))]"
    using same_shape_valid [OF shape] valid spec(2) by (simp_all add: f(1) look)
  moreover from this(1) have "lookup st0 = find_object_containing (Some g)" "?n < length (gr_objects g)"
    using look same_shape_lookup [of st1 st] same_shape_length [of st1 st] lens by (simp_all add: g_st lookup_def [of st])
  ultimately show ?thesis
    using lens by (auto simp: children_def kids_def f(1) g_st [symmetric] referred_def targets_def
        dest: arg_cong [where f = "\<lambda>xs. xs ! ?n"])
qed

lemma build_edges:
  assumes "build_context c (Some snap) opts = Inr an" "an_graph an = Some g"
    and "length (hs_objects snap) < 2 ^ 32"
  shows "length (gr_objects g) = length (hs_objects snap)"
    and "find_object_containing (Some g) ptr = Some t \<Longrightarrow> unat t < length (hs_objects snap)"
    and "k < length (hs_objects snap) \<Longrightarrow> children g (of_nat k) =
      dedup [] (List.map_filter (find_object_containing (Some g)) (ho_pointer_addrs (hs_objects snap ! k)))"
  using assms by (rule build_phases, blast)+

lemma build_counts:
  assumes run: "build_context c (Some snap) opts = Inr an" and g: "an_graph an = Some g"
  shows "gs_raw_object_pointers (an_stats an) = int (\<Sum>ob\<leftarrow>hs_objects snap. length (ho_pointer_addrs ob))"
    and "gs_raw_object_pointers (an_stats an) = gs_zero_object_pointers (an_stats an) +
      gs_resolved_object_pointers (an_stats an) + gs_unresolved_object_pointers (an_stats an)"
    and "gs_edges (an_stats an) = (\<Sum>ob\<leftarrow>gr_objects g. int (length (ob_children ob)))"
    and "map gor_id (an_goroutines an) = map g_id (hs_goroutines snap)"
proof -
  from run obtain g0 ws st c1 c2 c3 where
    edges: "resolve_edges opts 0 (hs_objects snap)
       \<lparr>ed_graph = g0, ed_seen = replicate (length (gr_objects g0)) 0, ed_stats = zero_stats\<rparr> c2 = Inr (st, c3)"
    and an: "an_graph an = Some (ed_graph st)"
      "gs_raw_object_pointers (an_stats an) = gs_raw_object_pointers (ed_stats st)"
      "gs_zero_object_pointers (an_stats an) = gs_zero_object_pointers (ed_stats st)"
      "gs_resolved_object_pointers (an_stats an) = gs_resolved_object_pointers (ed_stats st)"
      "gs_unresolved_object_pointers (an_stats an) = gs_unresolved_object_pointers (ed_stats st)"
      "gs_edges (an_stats an) = count_edges (gr_objects (ed_graph st))"
      "map gor_id (an_goroutines an) = map g_id (hs_goroutines snap)"
    by (rule build_context_Inr)
  have "edge_counts st (0 + (\<Sum>ob\<leftarrow>hs_objects snap. length (ho_pointer_addrs ob)))"
    by (rule resolve_edges_counts [OF edges]) (simp add: edge_counts_def zero_stats_def)
  with an g show "gs_raw_object_pointers (an_stats an) = int (\<Sum>ob\<leftarrow>hs_objects snap. length (ho_pointer_addrs ob))"
    "gs_raw_object_pointers (an_stats an) = gs_zero_object_pointers (an_stats an) +
      gs_resolved_object_pointers (an_stats an) + gs_unresolved_object_pointers (an_stats an)"
    "gs_edges (an_stats an) = (\<Sum>ob\<leftarrow>gr_objects g. int (length (ob_children ob)))"
    "map gor_id (an_goroutines an) = map g_id (hs_goroutines snap)"
    by (simp_all add: edge_counts_def count_edges_def)
qed

text \<open>In a strict build a lookup finds exactly the object that holds the pointer.\<close>

lemma build_strict_lookup:
  assumes run: "build_context c (Some snap) opts = Inr an" and g: "an_graph an = Some g"
    and strict: "bo_strict opts" and len: "length (hs_objects snap) < 2 ^ 32" and ptr: "ptr \<noteq> 0"
  shows "find_object_containing (Some g) ptr = Some i \<longleftrightarrow>
    (\<exists>k. resolves_to (hs_objects snap) ptr k \<and> i = of_nat k)"
proof -
  from run g len obtain bst ws0 ws c1 c2 where
    add: "add_objects opts (hs_objects snap) (start_state snap) c1 = Inr (bst, c2)"
    and over: "check_overlaps opts (sort_key or_start (bs_ranges bst)) ws0 = Inr ws"
    and same: "gr_by_addr g = bs_by_addr bst" "gr_ranges g = sort_key or_start (bs_ranges bst)"
    by (rule build_phases)
  have "build_inv ([] @ hs_objects snap) bst"
    by (rule add_objects_inv [OF add start_state_inv(2)]) (simp add: strict)
  then have inv: "build_inv (hs_objects snap) bst" by simp
  have uniq: "addrs_unique (hs_objects snap)"
    and fits: "\<And>ob. ob \<in> set (hs_objects snap) \<Longrightarrow> ho_addr ob = 0 \<or> object_fits ob"
    using add_objects_strict [OF add start_state_inv(2,3) strict] by simp_all
  have "ranges_disjoint (gr_ranges g)"
    unfolding same by (rule check_overlaps_strict [OF over strict])
  from lookup_holds [OF inv uniq fits this same ptr] show ?thesis .
qed

section \<open>Whole-process reachability\<close>

lemma compute_reachability_idem:
  "compute_reachability (compute_reachability an) = compute_reachability an"
proof (cases an)
  case (Some a)
  then show ?thesis
    by (cases "an_graph a") (simp_all add: compute_reachability_def Let_def comp_def)
qed (simp add: compute_reachability_def)

lemma card_valid_ids:
  assumes "length (gr_objects g) \<le> 2 ^ 32"
  shows "card {i. valid_id (Some g) i} = length (gr_objects g)"
proof -
  let ?n = "length (gr_objects g)"
  have "{i. valid_id (Some g) i} = of_nat ` {..<?n}"
  proof (intro set_eqI iffI)
    fix i :: object_id assume "i \<in> {i. valid_id (Some g) i}"
    then have "unat i < ?n" by (simp add: valid_id_def)
    moreover have "i = of_nat (unat i)" by simp
    ultimately show "i \<in> of_nat ` {..<?n}" by blast
  qed (use assms in \<open>auto simp: valid_id_def unat_object_id\<close>)
  moreover have "inj_on (of_nat :: nat \<Rightarrow> object_id) {..<?n}"
  proof (rule inj_onI)
    fix x y assume "x \<in> {..<?n}" "y \<in> {..<?n}" "(of_nat x :: object_id) = of_nat y"
    then have "x < 2 ^ 32" "y < 2 ^ 32" "unat (of_nat x :: object_id) = unat (of_nat y :: object_id)"
      using assms by auto
    then show "x = y" unfolding unat_object_id [OF \<open>x < 2 ^ 32\<close>] unat_object_id [OF \<open>y < 2 ^ 32\<close>] by blast
  qed
  ultimately show ?thesis by (simp add: card_image)
qed

lemma unreachable_count:
  assumes run: "compute_reachability (Some a) = Some b" and g: "an_graph a = Some g"
    and n: "gs_objects (an_stats a) = int (length (gr_objects g))" "length (gr_objects g) \<le> 2 ^ 32"
  shows "gs_unreachable_objects (an_stats b) =
    int (card {i. valid_id (Some g) i \<and> i \<notin> glr_reachable (an_globals b) \<and>
      (\<forall>r \<in> set (an_goroutines b). i \<notin> gor_reachable r)})"
proof -
  let ?V = "{i. valid_id (Some g) i}"
  let ?R = "\<Union> (set (map gor_reachable (an_goroutines b))) \<union> glr_reachable (an_globals b)"
  have eq: "b = the (compute_reachability (Some a))" by (simp add: run)
  have b: "an_goroutines b = map (\<lambda>r. r\<lparr>gor_reachable := reachable_from (Some g) (gor_roots r)\<rparr>) (an_goroutines a)"
    "glr_reachable (an_globals b) = reachable_from (Some g) (glr_roots (an_globals a))"
    "gs_unreachable_objects (an_stats b) =
       (if gs_objects (an_stats a) - int (card ?R) < 0 then 0 else gs_objects (an_stats a) - int (card ?R))"
    unfolding eq by (simp_all add: compute_reachability_def g Let_def)
  have sub: "?R \<subseteq> ?V" unfolding b by (auto dest: reachable_from_valid)
  have fin: "finite ?V" by simp
  have "card ?R \<le> length (gr_objects g)"
    using card_mono [OF fin sub] card_valid_ids [OF n(2)] by simp
  then have "gs_unreachable_objects (an_stats b) = int (length (gr_objects g) - card ?R)"
    unfolding b(3) n(1) by simp
  also have "length (gr_objects g) - card ?R = card (?V - ?R)"
    using card_Diff_subset [OF finite_subset [OF sub fin] sub] card_valid_ids [OF n(2)] by simp
  also have "?V - ?R = {i. valid_id (Some g) i \<and> i \<notin> glr_reachable (an_globals b) \<and>
      (\<forall>r \<in> set (an_goroutines b). i \<notin> gor_reachable r)}" by auto
  finally show ?thesis .
qed

section \<open>A lenient build succeeds\<close>

text \<open>Computations that return when the context is never done.\<close>

definition returns :: "(ctx, 'a) es \<Rightarrow> bool" where
  "returns m \<longleftrightarrow> (\<exists>x. m Background = Inr (x, Background))"

named_theorems returns_intros "rules that build up computations which return"

lemma returns_poll [returns_intros]: "returns ctx_poll"
  by (simp add: returns_def ctx_poll_def)

lemma returns_return [returns_intros]: "returns (es_return x)"
  by (simp add: returns_def es_return_def)

lemma returns_bind [returns_intros]: "returns m \<Longrightarrow> (\<And>x. returns (f x)) \<Longrightarrow> returns (es_bind m f)"
  by (force simp: returns_def es_bind_Inr)

lemma returns_if [returns_intros]: "(b \<Longrightarrow> returns m) \<Longrightarrow> (\<not> b \<Longrightarrow> returns m') \<Longrightarrow> returns (if b then m else m')"
  by simp

lemma returns_prod [returns_intros]: "(\<And>x y. returns (f x y)) \<Longrightarrow> returns (case v of (x, y) \<Rightarrow> f x y)"
  by (cases v) simp

lemma returns_run: "m Background = Inr (x, Background) \<Longrightarrow> returns (f x) \<Longrightarrow> returns (es_bind m f)"
  by (auto simp: returns_def es_bind_Inr)

lemma returns_edges: "returns (add_edges opts src from_id epoch pi ptrs st)"
  by (induction opts src from_id epoch pi ptrs st rule: add_edges.induct) (auto intro: returns_intros)

lemma returns_resolve: "returns (resolve_edges opts i srcs st)"
  by (induction opts i srcs st rule: resolve_edges.induct) (auto intro: returns_intros returns_edges)

lemma returns_each: "returns (poll_each xs)"
  unfolding poll_each_def by (induction xs) (auto intro: returns_intros)

lemma returns_frames: "returns (frame_roots opts g fr pi ptrs acc)"
  by (induction opts g fr pi ptrs acc rule: frame_roots.induct) (auto intro: returns_intros)

lemma returns_stack: "returns (stack_roots opts g frs acc)"
  by (induction opts g frs acc rule: stack_roots.induct) (auto intro: returns_intros returns_frames)

lemma returns_goroutines: "returns (goroutine_roots opts g grs acc)"
proof (induction grs arbitrary: acc)
  case Nil
  show ?case by (cases acc) (simp add: returns_intros)
next
  case (Cons gr grs)
  show ?case by (cases acc) (auto simp: Let_def intro!: returns_intros returns_stack Cons)
qed

lemma returns_polled: "returns (polled_fold f xs st)"
  by (induction f xs st rule: polled_fold.induct) (auto intro: returns_intros)

lemma returns_globals: "returns (global_roots g snap)"
  unfolding global_roots_def Let_def by (intro returns_intros returns_polled)

lemma returns_bytes:
  "unat acc + sum_list (map (\<lambda>ob. unat (ob_size ob)) obs) < 2 ^ 64 \<Longrightarrow> returns (sum_bytes obs acc)"
proof (induction obs acc rule: sum_bytes.induct)
  case (2 ob obs acc)
  have "\<not> ob_size ob > max_uint64 - acc"
    using 2(2) by (simp add: carry_iff)
  moreover have "unat (acc + ob_size ob) = unat acc + unat (ob_size ob)"
    using 2(2) by (intro unat_add_no_carry) simp
  ultimately show ?case using 2 by (auto intro!: returns_intros)
qed (simp add: returns_intros)

lemma add_object_lenient:
  assumes "\<not> bo_strict opts" "length (bs_objects st) < 2 ^ 32"
  shows "\<exists>st'. add_object opts src st = Inr st' \<and> length (bs_objects st') = length (bs_objects st) + 1"
  using assms
  by (auto simp: add_object_def append_object_def add_range_def bs_warn_def Let_def split: option.split)

lemma returns_objects:
  "\<not> bo_strict opts \<Longrightarrow> length (bs_objects st) + length srcs \<le> 2 ^ 32 \<Longrightarrow> returns (add_objects opts srcs st)"
proof (induction opts srcs st rule: add_objects.induct)
  case (2 opts src srcs st)
  then obtain st1 where st1: "add_object opts src st = Inr st1" "length (bs_objects st1) = length (bs_objects st) + 1"
    using add_object_lenient [of opts st src] by auto
  then have "returns (add_objects opts srcs st1)" using 2 by auto
  with st1 show ?case by (auto intro!: returns_bind [OF returns_poll] returns_run simp: es_lift_def)
qed (simp add: returns_intros)

lemma overlap_loop_lenient: "\<not> bo_strict opts \<Longrightarrow> \<exists>ws'. overlap_loop opts mx rs ws = Inr ws'"
  by (induction opts mx rs ws rule: overlap_loop.induct) auto

lemma map_update_same: "map f (xs[k := y]) = map f xs" if "f y = f (xs ! k)"
proof (cases "k < length xs")
  case True
  with that show ?thesis by (simp add: map_update list_update_same_conv)
qed (simp add: list_update_beyond)

lemma add_edges_sizes:
  "add_edges opts src from_id epoch pi ptrs st c = Inr (st', c') \<Longrightarrow>
    map ob_size (gr_objects (ed_graph st')) = map ob_size (gr_objects (ed_graph st))"
proof (induction opts src from_id epoch pi ptrs st arbitrary: c rule: add_edges.induct)
  case (2 opts src from_id epoch pi ptr ptrs st)
  then obtain c1 where run: "add_edges opts src from_id epoch (pi + 1) ptrs (add_edge opts src from_id epoch pi ptr st) c1 =
      Inr (st', c')"
    by (auto simp: es_bind_Inr)
  from 2(1) [OF run] show ?case
    by (auto simp: add_edge_def upd_ed_stats_def Let_def add_reference_def add_child_def map_update_same split: option.splits if_splits)
qed simp

lemma resolve_edges_sizes:
  "resolve_edges opts i srcs st c = Inr (st', c') \<Longrightarrow>
    map ob_size (gr_objects (ed_graph st')) = map ob_size (gr_objects (ed_graph st))"
  by (induction opts i srcs st arbitrary: c rule: resolve_edges.induct)
    (auto simp: es_bind_Inr dest!: add_edges_sizes)

text \<open>Without the strict option only the number of objects and their total size can stop a build.\<close>

lemma lenient_build:
  assumes lenient: "\<not> bo_strict opts" and count: "length (hs_objects snap) \<le> 2 ^ 32"
    and sizes: "sum_list (map (\<lambda>ob. unat (ho_size ob)) (hs_objects snap)) < 2 ^ 64"
  shows "\<exists>an g. build_context Background (Some snap) opts = Inr an \<and> an_graph an = Some g"
proof -
  obtain bst where add: "add_objects opts (hs_objects snap) (start_state snap) Background = Inr (bst, Background)"
    using returns_objects [OF lenient, of "start_state snap" "hs_objects snap"] count
    by (auto simp: returns_def start_state_def)
  obtain ws where ws: "check_overlaps opts (sort_key or_start (bs_ranges bst)) (bs_warnings bst) = Inr ws"
    using overlap_loop_lenient [OF lenient] by (fastforce simp: check_overlaps_def split: list.split)
  let ?g = "\<lparr>gr_objects = bs_objects bst, gr_by_addr = bs_by_addr bst,
     gr_references = (if bo_keep_provenance opts then replicate (length (bs_objects bst)) [] else []),
     gr_ranges = sort_key or_start (bs_ranges bst)\<rparr>"
  have built: "build_objects opts snap Background = Inr ((?g, ws), Background)"
    using add ws by (simp add: build_objects_def start_state_def es_bind_def es_lift_def es_return_def Let_def)
  let ?st0 = "\<lparr>ed_graph = ?g, ed_seen = replicate (length (gr_objects ?g)) 0, ed_stats = zero_stats\<rparr>"
  obtain st where edges: "resolve_edges opts 0 (hs_objects snap) ?st0 Background = Inr (st, Background)"
    using returns_resolve unfolding returns_def by blast
  have "map ob_size (gr_objects (ed_graph st)) = map ho_size (hs_objects snap)"
  proof -
    have "bs_objects bst = map (\<lambda>k. graph_object k (hs_objects snap ! k)) [0..<length (hs_objects snap)]"
      using add_objects_ids [OF add start_state_inv(1)] by (simp add: build_ids_def)
    then have "map ob_size (bs_objects bst) = map (\<lambda>k. ho_size (hs_objects snap ! k)) [0..<length (hs_objects snap)]"
      by (simp add: graph_object_def comp_def)
    also have "\<dots> = map ho_size (hs_objects snap)" by (rule nth_equalityI) simp_all
    finally show ?thesis using resolve_edges_sizes [OF edges] by simp
  qed
  then have total: "sum_list (map (\<lambda>ob. unat (ob_size ob)) (gr_objects (ed_graph st))) < 2 ^ 64"
    using sizes by (metis (no_types, lifting) comp_def list.map_comp map_eq_conv)
  have "returns (build_run (Some snap) opts)"
    unfolding build_run_def option.case Let_def
    by (rule returns_bind [OF returns_poll], rule returns_run, rule built, unfold prod.case, rule returns_run, rule edges)
      (intro returns_intros returns_each returns_goroutines returns_globals returns_bytes, use total in simp)
  then obtain an where an: "build_context Background (Some snap) opts = Inr an"
    by (auto simp: returns_def build_context_def)
  then show ?thesis by (auto elim: build_context_Inr)
qed

text \<open>The first object, with a nonzero address, is found at it.\<close>

lemma add_edge_by_addr: "gr_by_addr (ed_graph (add_edge opts src from_id epoch pi ptr st)) = gr_by_addr (ed_graph st)"
  by (auto simp: add_edge_def upd_ed_stats_def Let_def add_reference_def add_child_def split: option.splits)

lemma add_edges_by_addr:
  "add_edges opts src from_id epoch pi ptrs st c = Inr (st', c') \<Longrightarrow> gr_by_addr (ed_graph st') = gr_by_addr (ed_graph st)"
  by (induction opts src from_id epoch pi ptrs st arbitrary: c rule: add_edges.induct)
    (auto simp: es_bind_Inr add_edge_by_addr)

lemma resolve_edges_by_addr:
  "resolve_edges opts i srcs st c = Inr (st', c') \<Longrightarrow> gr_by_addr (ed_graph st') = gr_by_addr (ed_graph st)"
  by (induction opts i srcs st arbitrary: c rule: resolve_edges.induct) (auto simp: es_bind_Inr dest!: add_edges_by_addr)

lemma first_object_found:
  assumes run: "build_context c (Some snap) opts = Inr an" "an_graph an = Some g"
    and objs: "hs_objects snap = src # srcs" "ho_addr src \<noteq> 0"
    and fit: "\<forall>src \<in> set (hs_objects snap). unat (ho_addr src) + unat (ho_size src) < 2 ^ 64"
  shows "find_object_containing (Some g) (ho_addr src) = Some 0"
proof -
  obtain bst ws0 ws c1 c2 st0 st c3 where add: "add_objects opts (hs_objects snap) (start_state snap) c1 = Inr (bst, c2)"
    and edges: "resolve_edges opts 0 (hs_objects snap) st0 c2 = Inr (st, c3)" "g = ed_graph st"
    and addr: "gr_by_addr (ed_graph st0) = bs_by_addr bst"
    by (rule build_start [OF run])
  have inv: "build_inv (hs_objects snap) bst"
    using add_objects_inv [OF add start_state_inv(2)] fit by simp
  have "first_at (hs_objects snap) 0 \<and> ho_addr (hs_objects snap ! 0) = ho_addr src \<and> (0 :: object_id) = of_nat 0"
    using objs by (simp add: first_at_def)
  with inv have "bs_by_addr bst (ho_addr src) = Some 0" unfolding build_inv_def by blast
  then have "gr_by_addr g (ho_addr src) = Some 0" by (simp only: edges(2) resolve_edges_by_addr [OF edges(1)] addr)
  with objs(2) show ?thesis by (simp add: find_object_containing_def)
qed

end
