(* ===== verification/RuntimeLayout.thy ===== *)
theory RuntimeLayout
  imports HeapModel
begin

text \<open>
  The private runtime layouts that label recovery relies on (\<open>internal/runtimelayout\<close>): the
  layout record, the verified table with its lookup, and the manual constructor.
\<close>

section \<open>Layouts\<close>

datatype layout_source = SourceTable | SourceManual | SourceDWARF | NoSource

record layout =
  la_source :: layout_source
  la_go_version :: string
  la_goarch :: string
  la_ptr_size :: int
  la_big_endian :: bool
  la_g_labels_offset :: u64
  la_label_map_set_offset :: u64
  la_set_list_offset :: u64
  la_slice_data_offset :: u64
  la_slice_len_offset :: u64
  la_slice_cap_offset :: u64
  la_string_data_offset :: u64
  la_string_len_offset :: u64
  la_label_size :: u64
  la_label_key_offset :: u64
  la_label_value_offset :: u64
  la_description :: string

text \<open>The zero value \<open>Layout{}\<close>; its \<open>Source\<close> is the empty string.\<close>

definition zero_layout :: layout where
  "zero_layout = \<lparr>la_source = NoSource, la_go_version = [], la_goarch = [], la_ptr_size = 0,
     la_big_endian = False, la_g_labels_offset = 0, la_label_map_set_offset = 0,
     la_set_list_offset = 0, la_slice_data_offset = 0, la_slice_len_offset = 0,
     la_slice_cap_offset = 0, la_string_data_offset = 0, la_string_len_offset = 0,
     la_label_size = 0, la_label_key_offset = 0, la_label_value_offset = 0, la_description = []\<rparr>"

text \<open>\<open>Some True\<close> is the big-endian order of \<open>encoding/binary\<close>, \<open>Some False\<close> the little-endian one.\<close>

definition layout_byte_order :: "layout \<Rightarrow> bool option" where
  "layout_byte_order l = (if la_big_endian l then Some True else Some False)"

record lookup_input =
  li_go_version :: string
  li_goarch :: string
  li_ptr_size :: int
  li_big_endian :: bool

definition with_little_endian_defaults :: "layout \<Rightarrow> int \<Rightarrow> layout" where
  "with_little_endian_defaults l ptr_size =
     (let ptr = word_of_int ptr_size
      in l\<lparr>la_ptr_size := ptr_size, la_big_endian := False,
           la_slice_data_offset := 0, la_slice_len_offset := ptr, la_slice_cap_offset := 2 * ptr,
           la_string_data_offset := 0, la_string_len_offset := ptr,
           la_label_key_offset := 0, la_label_value_offset := 2 * ptr, la_label_size := 4 * ptr\<rparr>)"

definition with_64bit_little_endian_defaults :: "layout \<Rightarrow> layout" where
  "with_64bit_little_endian_defaults l = with_little_endian_defaults l 8"

definition with_32bit_little_endian_defaults :: "layout \<Rightarrow> layout" where
  "with_32bit_little_endian_defaults l = with_little_endian_defaults l 4"

section \<open>The verified table\<close>

record table_entry =
  te_version_prefix :: string
  te_ptr_size :: int
  te_big_endian :: bool
  te_layout :: layout

definition table_layout :: "u64 \<Rightarrow> string \<Rightarrow> layout" where
  "table_layout off desc =
     zero_layout\<lparr>la_source := SourceTable, la_g_labels_offset := off, la_description := desc\<rparr>"

definition entry64 :: "string \<Rightarrow> u64 \<Rightarrow> string \<Rightarrow> table_entry" where
  "entry64 prefix off desc = \<lparr>te_version_prefix = prefix, te_ptr_size = 8, te_big_endian = False,
     te_layout = with_64bit_little_endian_defaults (table_layout off desc)\<rparr>"

definition entry32 :: "string \<Rightarrow> u64 \<Rightarrow> string \<Rightarrow> table_entry" where
  "entry32 prefix off desc = \<lparr>te_version_prefix = prefix, te_ptr_size = 4, te_big_endian = False,
     te_layout = with_32bit_little_endian_defaults (table_layout off desc)\<rparr>"

definition verified_table :: "table_entry list" where
  "verified_table =
    [entry64 ''go1.27'' 0x160 ''go1.27 64-bit LE runtime.g.labels offset 0x160 (tested on linux/amd64 with go1.27rc2)'',
     entry32 ''go1.27'' 0xd8 ''go1.27 32-bit LE runtime.g.labels offset 0xd8 (tested on linux/386 with go1.27rc2)'',
     entry64 ''go1.26.'' 0x160 ''verified go1.26.* 64-bit LE (linux, darwin, windows, freebsd) runtime.g.labels offset 0x160'',
     entry32 ''go1.26.'' 0xd8 ''verified go1.26.* 32-bit LE (arm, 386, freebsd/386) runtime.g.labels offset 0xd8'',
     entry64 ''go1.25.'' 0x158 ''verified go1.25.* 64-bit LE (linux, darwin, windows, freebsd) runtime.g.labels offset 0x158'',
     entry32 ''go1.25.'' 0xd0 ''verified go1.25.* 32-bit LE (arm, 386, freebsd/386) runtime.g.labels offset 0xd0'',
     entry64 ''go1.24.'' 0x160 ''verified go1.24.* 64-bit LE (linux, darwin, windows, freebsd) runtime.g.labels offset 0x160'',
     entry32 ''go1.24.'' 0xd4 ''verified go1.24.* 32-bit LE (arm, 386, freebsd/386) runtime.g.labels offset 0xd4'',
     entry64 ''go1.28-devel'' 0x160 ''verified go1.28-devel 64-bit LE (linux/amd64) runtime.g.labels offset 0x160 (verified on commit e203fe5746)'',
     entry32 ''go1.28-devel'' 0xd4 ''verified go1.28-devel 32-bit LE (linux/386) runtime.g.labels offset 0xd4 (verified on commit e203fe5746)'']"

definition has_version_prefix :: "string \<Rightarrow> string \<Rightarrow> bool" where
  "has_version_prefix version prefix =
     (if length version < length prefix then False
      else take (length prefix) version = prefix)"

fun lookup_table :: "lookup_input \<Rightarrow> table_entry list \<Rightarrow> layout option" where
  "lookup_table input [] = None"
| "lookup_table input (e # es) =
     (if te_ptr_size e \<noteq> li_ptr_size input then lookup_table input es
      else if te_big_endian e \<noteq> li_big_endian input then lookup_table input es
      else if \<not> has_version_prefix (li_go_version input) (te_version_prefix e) then lookup_table input es
      else Some ((te_layout e)\<lparr>la_go_version := li_go_version input, la_goarch := li_goarch input\<rparr>))"

definition layout_lookup :: "lookup_input \<Rightarrow> layout option" where
  "layout_lookup input =
     (if li_go_version input = [] then None else lookup_table input verified_table)"

definition unsupported_message :: "lookup_input \<Rightarrow> message" where
  "unsupported_message input =
     (let endian = (if li_big_endian input then ''big'' else ''little'')
      in Fmt ''unsupported Go runtime layout: go version %q, goarch %q, ptr size %d, %s endian''
           [FS (li_go_version input), FS (li_goarch input), FI (li_ptr_size input), FS endian])"

section \<open>Manual layouts\<close>

definition manual_layout :: "lookup_input \<Rightarrow> u64 \<Rightarrow> go_error + layout" where
  "manual_layout input g_labels_offset =
     (if li_ptr_size input \<noteq> 4 \<and> li_ptr_size input \<noteq> 8 then
        Inl (Errorf (Fmt ''manual runtime layout: unsupported pointer size %d (only 4 and 8 are implemented)''
          [FI (li_ptr_size input)]))
      else if li_big_endian input then
        Inl (Errorf (Fmt ''manual runtime layout: big-endian targets are not implemented'' []))
      else
        let base = zero_layout\<lparr>la_source := SourceManual, la_go_version := li_go_version input,
              la_goarch := li_goarch input, la_g_labels_offset := g_labels_offset,
              la_description := ''manual runtime.g.labels offset''\<rparr>
        in Inr (if li_ptr_size input = 4 then with_32bit_little_endian_defaults base
                else with_64bit_little_endian_defaults base))"

section \<open>What every layout in use satisfies\<close>

text \<open>The standard Go headers: slices of three words, strings of two, labels of two strings.\<close>

definition standard_layout :: "layout \<Rightarrow> bool" where
  "standard_layout l \<longleftrightarrow> (la_ptr_size l = 4 \<or> la_ptr_size l = 8) \<and> \<not> la_big_endian l \<and>
     la_label_map_set_offset l = 0 \<and> la_set_list_offset l = 0 \<and>
     la_slice_data_offset l = 0 \<and> la_slice_len_offset l = word_of_int (la_ptr_size l) \<and>
     la_slice_cap_offset l = 2 * word_of_int (la_ptr_size l) \<and>
     la_string_data_offset l = 0 \<and> la_string_len_offset l = word_of_int (la_ptr_size l) \<and>
     la_label_key_offset l = 0 \<and> la_label_value_offset l = 2 * word_of_int (la_ptr_size l) \<and>
     la_label_size l = 4 * word_of_int (la_ptr_size l)"

lemma standard_defaults:
  assumes "la_label_map_set_offset l = 0" "la_set_list_offset l = 0" "p = 4 \<or> p = 8"
  shows "standard_layout (with_little_endian_defaults l p)"
  using assms by (simp add: standard_layout_def with_little_endian_defaults_def Let_def)

definition layout_entry_ok :: "table_entry \<Rightarrow> bool" where
  "layout_entry_ok e \<longleftrightarrow> standard_layout (te_layout e) \<and> la_ptr_size (te_layout e) = te_ptr_size e \<and>
     \<not> te_big_endian e \<and> la_source (te_layout e) = SourceTable"

lemma layout_entry_ok_mk: "layout_entry_ok (entry64 p off d)" "layout_entry_ok (entry32 p off d)"
  by (simp_all add: layout_entry_ok_def entry64_def entry32_def with_64bit_little_endian_defaults_def
      with_32bit_little_endian_defaults_def standard_defaults table_layout_def zero_layout_def)
    (simp_all add: with_little_endian_defaults_def Let_def)

lemma lookup_table_Some:
  "lookup_table input es = Some l \<Longrightarrow> list_all layout_entry_ok es \<Longrightarrow>
    standard_layout l \<and> la_ptr_size l = li_ptr_size input \<and> \<not> li_big_endian input \<and>
    la_source l = SourceTable \<and> la_go_version l = li_go_version input \<and>
    (\<exists>e \<in> set es. has_version_prefix (li_go_version input) (te_version_prefix e) \<and>
       la_g_labels_offset l = la_g_labels_offset (te_layout e))"
  by (induction input es rule: lookup_table.induct)
    (auto simp: layout_entry_ok_def standard_layout_def split: if_splits)

lemma layout_lookup_sound:
  assumes "layout_lookup input = Some l"
  shows "standard_layout l" "la_ptr_size l = li_ptr_size input" "\<not> li_big_endian input"
    "la_source l = SourceTable" "la_go_version l = li_go_version input"
proof -
  have "list_all layout_entry_ok verified_table" by (simp add: verified_table_def layout_entry_ok_mk)
  with assms lookup_table_Some [of input verified_table l]
  show "standard_layout l" "la_ptr_size l = li_ptr_size input" "\<not> li_big_endian input"
    "la_source l = SourceTable" "la_go_version l = li_go_version input"
    by (auto simp: layout_lookup_def split: if_splits)
qed

lemma manual_layout_sound:
  "manual_layout input off = Inr l \<longleftrightarrow>
     (li_ptr_size input = 4 \<or> li_ptr_size input = 8) \<and> \<not> li_big_endian input \<and>
     l = with_little_endian_defaults
       (zero_layout\<lparr>la_source := SourceManual, la_go_version := li_go_version input,
          la_goarch := li_goarch input, la_g_labels_offset := off,
          la_description := ''manual runtime.g.labels offset''\<rparr>) (li_ptr_size input)"
  by (auto simp: manual_layout_def Let_def with_64bit_little_endian_defaults_def
      with_32bit_little_endian_defaults_def)

text \<open>No input matches two entries, so the order of the table does not matter.\<close>

definition entry_matches :: "lookup_input \<Rightarrow> table_entry \<Rightarrow> bool" where
  "entry_matches input e \<longleftrightarrow> te_ptr_size e = li_ptr_size input \<and>
     te_big_endian e = li_big_endian input \<and>
     has_version_prefix (li_go_version input) (te_version_prefix e)"

definition entries_clash :: "table_entry \<Rightarrow> table_entry \<Rightarrow> bool" where
  "entries_clash e f \<longleftrightarrow> te_ptr_size e = te_ptr_size f \<and>
     take (length (te_version_prefix f)) (te_version_prefix e) =
     take (length (te_version_prefix e)) (te_version_prefix f)"

lemma table_no_clash: "sorted_wrt (\<lambda>e f. \<not> entries_clash e f) verified_table"
  by code_simp

lemma matches_clash: "entry_matches input e \<Longrightarrow> entry_matches input f \<Longrightarrow> entries_clash e f"
  unfolding entry_matches_def entries_clash_def has_version_prefix_def
  by (metis min.commute take_take)

lemma clash_sym: "entries_clash e f \<Longrightarrow> entries_clash f e"
  by (auto simp: entries_clash_def)

lemma lookup_table_find:
  "lookup_table input es = map_option (\<lambda>e. (te_layout e)\<lparr>la_go_version := li_go_version input,
     la_goarch := li_goarch input\<rparr>) (find (entry_matches input) es)"
  by (induction input es rule: lookup_table.induct) (auto simp: entry_matches_def)

lemma unique_match:
  assumes "sorted_wrt (\<lambda>e f. \<not> entries_clash e f) es" "e \<in> set es" "f \<in> set es"
    and "entry_matches input e" "entry_matches input f"
  shows "e = f"
  using assms by (induction es) (auto dest: matches_clash clash_sym)

lemma layout_lookup_iff:
  assumes "li_go_version input \<noteq> []"
  shows "layout_lookup input = Some l \<longleftrightarrow> (\<exists>e \<in> set verified_table. entry_matches input e \<and>
    l = (te_layout e)\<lparr>la_go_version := li_go_version input, la_goarch := li_goarch input\<rparr>)"
proof -
  have "find (entry_matches input) verified_table = Some e \<longleftrightarrow>
      e \<in> set verified_table \<and> entry_matches input e" for e
  proof
    assume "e \<in> set verified_table \<and> entry_matches input e"
    then obtain f where f: "find (entry_matches input) verified_table = Some f"
      by (cases "find (entry_matches input) verified_table") (auto simp: find_None_iff)
    then have "f \<in> set verified_table" "entry_matches input f" by (auto simp: find_Some_iff)
    with unique_match [OF table_no_clash] f \<open>e \<in> _ \<and> _\<close>
    show "find (entry_matches input) verified_table = Some e" by blast
  qed (auto simp: find_Some_iff)
  with assms show ?thesis by (auto simp: layout_lookup_def lookup_table_find)
qed

end
