(* ===== verification/HeapLabels.thy ===== *)
theory HeapLabels
  imports AddrSpace RuntimeLayout "HOL-Library.AList" "HOL-Library.List_Lexorder" "HOL-Library.Char_ord"
begin

text \<open>
  Recovering the pprof labels of goroutines (\<open>internal/heaplabels\<close>): the memory built from the
  contents of heap objects (\<open>memory.go\<close>), the decoders of strings, label maps and goroutines
  (\<open>decode.go\<close>) and their summaries. A Go map from strings to strings is an association list
  without repeated keys. \<open>decodeError\<close> is the pair of its status and message.
\<close>

section \<open>Memory\<close>

record mem_range =
  mr_start :: u64
  mr_end :: u64
  mr_data :: "byte list"
  mr_kind :: string

record memory =
  mm_ranges :: "mem_range list"
  mm_lazy :: "addr_read option"

definition range_of_object :: "heap_object \<Rightarrow> mem_range option" where
  "range_of_object ob =
     (if ho_contents ob = [] then None
      else case AddUint64 (ho_addr ob) (of_nat (length (ho_contents ob))) of
        (end_addr, ok) \<Rightarrow>
          if \<not> ok then None
          else Some \<lparr>mr_start = ho_addr ob, mr_end = end_addr, mr_data = ho_contents ob,
                 mr_kind = ''object''\<rparr>)"

text \<open>Sorted by \<open>(Start, End)\<close>: the stable sort by the end, then by the start.\<close>

definition new_memory :: "heap_snapshot option \<Rightarrow> memory" where
  "new_memory snap =
     (case snap of
        None \<Rightarrow> \<lparr>mm_ranges = [], mm_lazy = None\<rparr>
      | Some s \<Rightarrow>
          \<lparr>mm_ranges = sort_key mr_start (sort_key mr_end (List.map_filter range_of_object (hs_objects s))),
           mm_lazy = None\<rparr>)"

definition new_memory_from_reader :: "addr_read option \<Rightarrow> memory" where
  "new_memory_from_reader r = \<lparr>mm_ranges = [], mm_lazy = r\<rparr>"

definition memory_lookup :: "mem_range list \<Rightarrow> u64 \<Rightarrow> u64 \<Rightarrow> u64 \<Rightarrow> byte list option" where
  "memory_lookup rs addr sz end_addr =
     (let idx = sort_search (length rs) (\<lambda>i. mr_start (rs ! i) > addr)
      in if idx = 0 then None
         else
           let r = rs ! (idx - 1)
           in if end_addr > mr_end r then None
              else
                let off = addr - mr_start r
                in Some (take (unat sz) (drop (unat off) (mr_data r))))"

definition memory_read :: "memory option \<Rightarrow> addr_read" where
  "memory_read m addr sz =
     (case m of
        None \<Rightarrow> None
      | Some mm \<Rightarrow>
          if sz = 0 then Some []
          else case mm_lazy mm of
            Some read \<Rightarrow> read addr sz
          | None \<Rightarrow> guarded (memory_lookup (mm_ranges mm)) addr sz)"

definition memory_read_uintptr :: "memory option \<Rightarrow> u64 \<Rightarrow> int \<Rightarrow> bool \<Rightarrow> u64 option" where
  "memory_read_uintptr m addr ptr_size big =
     (case memory_read m addr (word_of_int ptr_size) of
        None \<Rightarrow> None
      | Some b \<Rightarrow> if ptr_size = 4 \<or> ptr_size = 8 then Some (order_uint big b) else None)"

definition memory_read_string :: "memory option \<Rightarrow> u64 \<Rightarrow> u64 \<Rightarrow> string option" where
  "memory_read_string m addr len =
     (if len = 0 then Some [] else map_option string_of_bytes (memory_read m addr len))"

definition range_containing :: "memory option \<Rightarrow> u64 \<Rightarrow> mem_range option" where
  "range_containing m addr =
     (case m of
        None \<Rightarrow> None
      | Some mm \<Rightarrow>
          if addr = 0 then None
          else find (\<lambda>r. addr \<ge> mr_start r \<and> addr < mr_end r) (mm_ranges mm))"

section \<open>Results and options\<close>

datatype decode_status = StatusDecoded | StatusNoLabels | StatusUnsupportedRuntime
  | StatusGObjectMissing | StatusLabelsObjectMissing | StatusLabelArrayMissing
  | StatusStringMissing | StatusMalformed

type_synonym label_map = "(string \<times> string) list"
type_synonym label_error = "decode_status \<times> message"

record goroutine_labels =
  gl_gid :: u64
  gl_gaddr :: u64
  gl_labels_ptr :: u64
  gl_labels :: "label_map option"
  gl_status :: decode_status
  gl_error :: "message option"

record label_stats =
  ls_total :: int
  ls_decoded :: int
  ls_no_labels :: int
  ls_unsupported :: int
  ls_failed :: int
  ls_labels_total :: int
  ls_strings_missing :: int

record label_result =
  lr_labels_by_gid :: "(u64 \<times> label_map) list"
  lr_goroutines :: "goroutine_labels list"
  lr_stats :: label_stats
  lr_warnings :: "message list"

record offset_candidate =
  oc_offset :: u64
  oc_matches :: int
  oc_goroutine_ids :: "u64 list"

text \<open>An \<open>addrspace.Reader\<close> that may or may not know its name.\<close>

record extra_reader =
  xr_name :: "string option"
  xr_read :: addr_read

record label_options =
  lo_max_labels :: u64
  lo_max_string :: u64
  lo_extra :: "extra_reader option"
  lo_heap_memory :: "memory option"

definition DefaultMaxLabels :: u64 where "DefaultMaxLabels = 1024"
definition DefaultMaxStringLen :: u64 where "DefaultMaxStringLen = 1048576"

definition normalize_options :: "label_options \<Rightarrow> label_options" where
  "normalize_options opts = opts\<lparr>
     lo_max_labels := (if lo_max_labels opts = 0 then DefaultMaxLabels else lo_max_labels opts),
     lo_max_string := (if lo_max_string opts = 0 then DefaultMaxStringLen else lo_max_string opts)\<rparr>"

definition lookup_input_from_snapshot :: "heap_snapshot option \<Rightarrow> lookup_input" where
  "lookup_input_from_snapshot snap =
     (case snap of
        None \<Rightarrow> \<lparr>li_go_version = [], li_goarch = [], li_ptr_size = 0, li_big_endian = False\<rparr>
      | Some s \<Rightarrow> \<lparr>li_go_version = dp_build_version (hs_params s), li_goarch = dp_goarch (hs_params s),
          li_ptr_size = dp_ptr_size (hs_params s), li_big_endian = dp_big_endian (hs_params s)\<rparr>)"

section \<open>Decoding\<close>

definition label_add :: "u64 \<Rightarrow> u64 \<Rightarrow> string \<Rightarrow> label_error + u64" where
  "label_add a b what =
     (case AddUint64 a b of (c, ok) \<Rightarrow> if \<not> ok then Inl (StatusMalformed, Fmt what []) else Inr c)"

definition read_word ::
  "addr_read \<Rightarrow> u64 \<Rightarrow> layout \<Rightarrow> decode_status \<Rightarrow> string \<Rightarrow> label_error + u64"
where
  "read_word structural addr layout status what =
     or_error (addr_read_uintptr (Some structural) addr (la_ptr_size layout) (layout_byte_order layout))
       (status, Fmt what [])"

definition decode_string ::
  "addr_read \<Rightarrow> addr_read \<Rightarrow> layout \<Rightarrow> label_options \<Rightarrow> u64 \<Rightarrow> label_error + string"
where
  "decode_string structural body layout opts0 header_addr =
     (let opts = normalize_options opts0 in
      sum_bind (label_add header_addr (la_string_data_offset layout) ''string header data address overflows'') (\<lambda>data_addr.
      sum_bind (label_add header_addr (la_string_len_offset layout) ''string header length address overflows'') (\<lambda>len_addr.
      sum_bind (read_word structural data_addr layout StatusStringMissing ''string header data pointer is unavailable'') (\<lambda>data_ptr.
      sum_bind (read_word structural len_addr layout StatusStringMissing ''string header length is unavailable'') (\<lambda>len.
      if len > lo_max_string opts then
        Inl (StatusMalformed, Fmt ''string length %d exceeds max %d'' [FU len, FU (lo_max_string opts)])
      else if len = 0 then Inr []
      else if data_ptr = 0 then Inl (StatusStringMissing, Fmt ''string header data pointer is nil'' [])
      else or_error (addr_read_string (Some body) data_ptr len (lo_max_string opts))
             (StatusStringMissing, Fmt ''string bytes unavailable at 0x%x length %d'' [FU data_ptr, FU len]))))))"

text \<open>One label of the array; then the loop over the indices, which updates the map.\<close>

definition decode_label ::
  "addr_read \<Rightarrow> addr_read \<Rightarrow> layout \<Rightarrow> label_options \<Rightarrow> u64 \<Rightarrow> u64 \<Rightarrow> label_error + string \<times> string"
where
  "decode_label structural body layout opts data_ptr i =
     sum_bind (label_add data_ptr (i * la_label_size layout) ''label address overflows'') (\<lambda>label_addr.
     sum_bind (label_add label_addr (la_label_key_offset layout) ''label key address overflows'') (\<lambda>key_addr.
     sum_bind (label_add label_addr (la_label_value_offset layout) ''label value address overflows'') (\<lambda>value_addr.
     sum_bind (decode_string structural body layout opts key_addr) (\<lambda>key.
     sum_bind (decode_string structural body layout opts value_addr) (\<lambda>val.
     Inr (key, val))))))"

fun decode_labels ::
  "addr_read \<Rightarrow> addr_read \<Rightarrow> layout \<Rightarrow> label_options \<Rightarrow> u64 \<Rightarrow> nat list \<Rightarrow> label_map \<Rightarrow> label_error + label_map"
where
  "decode_labels structural body layout opts data_ptr [] labels = Inr labels"
| "decode_labels structural body layout opts data_ptr (i # is) labels =
     sum_bind (decode_label structural body layout opts data_ptr (of_nat i)) (\<lambda>(key, val).
     decode_labels structural body layout opts data_ptr is (AList.update key val labels))"

definition decode_label_map ::
  "addr_read \<Rightarrow> addr_read \<Rightarrow> layout \<Rightarrow> label_options \<Rightarrow> u64 \<Rightarrow> label_error + label_map"
where
  "decode_label_map structural body layout opts0 addr =
     (let opts = normalize_options opts0 in
      sum_bind (label_add addr (la_label_map_set_offset layout) ''labelMap set address overflows'') (\<lambda>set_addr.
      sum_bind (label_add set_addr (la_set_list_offset layout) ''label.Set list address overflows'') (\<lambda>header.
      sum_bind (label_add header (la_slice_data_offset layout) ''label.Set list data address overflows'') (\<lambda>data_addr.
      sum_bind (label_add header (la_slice_len_offset layout) ''label.Set list length address overflows'') (\<lambda>len_addr.
      sum_bind (label_add header (la_slice_cap_offset layout) ''label.Set list capacity address overflows'') (\<lambda>cap_addr.
      sum_bind (read_word structural data_addr layout StatusLabelsObjectMissing ''labelMap object bytes are unavailable'') (\<lambda>data_ptr.
      sum_bind (read_word structural len_addr layout StatusLabelsObjectMissing ''label.Set list length is unavailable'') (\<lambda>len.
      sum_bind (read_word structural cap_addr layout StatusLabelsObjectMissing ''label.Set list capacity is unavailable'') (\<lambda>cap.
      if len > cap then
        Inl (StatusMalformed, Fmt ''label.Set list len %d exceeds cap %d'' [FU len, FU cap])
      else if len > lo_max_labels opts then
        Inl (StatusMalformed, Fmt ''label.Set list len %d exceeds max %d'' [FU len, FU (lo_max_labels opts)])
      else if len = 0 then Inr []
      else if data_ptr = 0 then
        Inl (StatusLabelArrayMissing, Fmt ''label.Set list data pointer is nil'' [])
      else
        case MulUint64 len (la_label_size layout) of
          (array_bytes, ok) \<Rightarrow>
            if \<not> ok then Inl (StatusMalformed, Fmt ''label array size overflows'' [])
            else if structural data_ptr array_bytes = None then
              Inl (StatusLabelArrayMissing, Fmt ''label array bytes are unavailable'' [])
            else decode_labels structural body layout opts data_ptr [0..<unat len] [])))))))))"

text \<open>Every return path of \<open>DecodeLabelsForGoroutine\<close> sets the status.\<close>

definition goroutine_result ::
  "goroutine \<Rightarrow> u64 \<Rightarrow> label_map option \<Rightarrow> decode_status \<Rightarrow> message option \<Rightarrow> goroutine_labels"
where
  "goroutine_result g ptr labels status err =
     \<lparr>gl_gid = g_id g, gl_gaddr = g_addr g, gl_labels_ptr = ptr, gl_labels = labels,
      gl_status = status, gl_error = err\<rparr>"

definition decode_labels_for_goroutine ::
  "addr_read \<Rightarrow> addr_read \<Rightarrow> layout \<Rightarrow> label_options \<Rightarrow> goroutine \<Rightarrow> goroutine_labels"
where
  "decode_labels_for_goroutine structural body layout opts0 g =
     (let opts = normalize_options opts0 in
      if la_ptr_size layout \<noteq> 4 \<and> la_ptr_size layout \<noteq> 8 then
        goroutine_result g 0 None StatusUnsupportedRuntime
          (Some (Fmt ''unsupported pointer size %d'' [FI (la_ptr_size layout)]))
      else
        case AddUint64 (g_addr g) (la_g_labels_offset layout) of
          (field_addr, ok) \<Rightarrow>
            if \<not> ok then
              goroutine_result g 0 None StatusMalformed
                (Some (Fmt ''runtime.g.labels field address overflows'' []))
            else
              case addr_read_uintptr (Some structural) field_addr (la_ptr_size layout) (layout_byte_order layout) of
                None \<Rightarrow>
                  goroutine_result g 0 None StatusGObjectMissing
                    (Some (Fmt ''runtime.g object bytes are unavailable'' []))
              | Some labels_ptr \<Rightarrow>
                  if labels_ptr = 0 then goroutine_result g 0 None StatusNoLabels None
                  else
                    case decode_label_map structural body layout opts labels_ptr of
                      Inl (status, msg) \<Rightarrow> goroutine_result g labels_ptr None status (Some msg)
                    | Inr labels \<Rightarrow> goroutine_result g labels_ptr (Some labels) StatusDecoded None)"

definition as_named_reader :: "extra_reader option \<Rightarrow> named_reader option" where
  "as_named_reader r =
     map_option (\<lambda>x. \<lparr>nr_name = (case xr_name x of None \<Rightarrow> ''extra'' | Some n \<Rightarrow> n),
        nr_read = xr_read x\<rparr>) r"

definition compose_string_body_reader :: "memory option \<Rightarrow> extra_reader option \<Rightarrow> addr_read" where
  "compose_string_body_reader mem extra =
     (case extra of
        None \<Rightarrow> memory_read mem
      | Some x \<Rightarrow>
          composite_read_at_addr
            [Some \<lparr>nr_name = ''heap'', nr_read = memory_read mem\<rparr>, as_named_reader (Some x)])"

section \<open>All goroutines\<close>

definition zero_label_stats :: label_stats where
  "zero_label_stats = \<lparr>ls_total = 0, ls_decoded = 0, ls_no_labels = 0, ls_unsupported = 0,
     ls_failed = 0, ls_labels_total = 0, ls_strings_missing = 0\<rparr>"

definition count_goroutine :: "goroutine_labels \<Rightarrow> label_result \<Rightarrow> label_result" where
  "count_goroutine gr res0 =
     (let res = res0\<lparr>lr_goroutines := lr_goroutines res0 @ [gr]\<rparr>;
          st = lr_stats res
      in case gl_status gr of
           StatusDecoded \<Rightarrow>
             let labels = (case gl_labels gr of None \<Rightarrow> [] | Some l \<Rightarrow> l)
             in res\<lparr>lr_stats := st\<lparr>ls_decoded := ls_decoded st + 1,
                    ls_labels_total := ls_labels_total st + int (length labels)\<rparr>,
                  lr_labels_by_gid := (if labels \<noteq> []
                    then AList.update (gl_gid gr) labels (lr_labels_by_gid res) else lr_labels_by_gid res)\<rparr>
         | StatusNoLabels \<Rightarrow> res\<lparr>lr_stats := st\<lparr>ls_no_labels := ls_no_labels st + 1\<rparr>\<rparr>
         | StatusUnsupportedRuntime \<Rightarrow> res\<lparr>lr_stats := st\<lparr>ls_unsupported := ls_unsupported st + 1\<rparr>\<rparr>
         | StatusStringMissing \<Rightarrow>
             res\<lparr>lr_stats := st\<lparr>ls_failed := ls_failed st + 1,
               ls_strings_missing := ls_strings_missing st + 1\<rparr>\<rparr>
         | _ \<Rightarrow> res\<lparr>lr_stats := st\<lparr>ls_failed := ls_failed st + 1\<rparr>\<rparr>)"

definition empty_result :: label_result where
  "empty_result = \<lparr>lr_labels_by_gid = [], lr_goroutines = [], lr_stats = zero_label_stats,
     lr_warnings = []\<rparr>"

definition decode_all :: "heap_snapshot option \<Rightarrow> layout \<Rightarrow> label_options \<Rightarrow> label_result" where
  "decode_all snap_opt layout opts0 =
     (let opts = normalize_options opts0 in
      case snap_opt of
        None \<Rightarrow> empty_result\<lparr>lr_warnings := [Fmt ''heaplabels: nil heap snapshot'' []]\<rparr>
      | Some snap \<Rightarrow>
          let res = empty_result\<lparr>lr_stats := zero_label_stats\<lparr>ls_total := int (length (hs_goroutines snap))\<rparr>\<rparr>;
              mem = (case lo_heap_memory opts of None \<Rightarrow> new_memory (Some snap) | Some m \<Rightarrow> m);
              body = compose_string_body_reader (Some mem) (lo_extra opts)
          in fold (\<lambda>g. count_goroutine (decode_labels_for_goroutine (memory_read (Some mem)) body layout opts g))
               (hs_goroutines snap) res)"

definition unsupported_result :: "heap_snapshot option \<Rightarrow> message option \<Rightarrow> label_result" where
  "unsupported_result snap_opt msg =
     (let warnings = (case msg of None \<Rightarrow> [] | Some m \<Rightarrow> [m]) in
      case snap_opt of
        None \<Rightarrow> empty_result\<lparr>lr_warnings := warnings\<rparr>
      | Some snap \<Rightarrow>
          empty_result\<lparr>
            lr_goroutines := map (\<lambda>g. goroutine_result g 0 None StatusUnsupportedRuntime msg) (hs_goroutines snap),
            lr_stats := zero_label_stats\<lparr>ls_total := int (length (hs_goroutines snap)),
              ls_unsupported := int (length (hs_goroutines snap))\<rparr>,
            lr_warnings := warnings\<rparr>)"

definition format_labels :: "label_map \<Rightarrow> string list" where
  "format_labels labels =
     map (\<lambda>k. k @ ''='' @ the (map_of labels k)) (sort (map fst labels))"

section \<open>Offset candidates\<close>

text \<open>A Go map yields the empty string for a key it does not have.\<close>

definition contains_labels :: "label_map \<Rightarrow> label_map \<Rightarrow> bool" where
  "contains_labels have want =
     list_all (\<lambda>(k, v). (case map_of have k of None \<Rightarrow> [] | Some w \<Rightarrow> w) = v) want"

definition note_candidate ::
  "u64 \<Rightarrow> u64 \<Rightarrow> (u64 \<times> offset_candidate) list \<Rightarrow> (u64 \<times> offset_candidate) list"
where
  "note_candidate off gid cs =
     (let c = (case map_of cs off of
                 None \<Rightarrow> \<lparr>oc_offset = off, oc_matches = 0, oc_goroutine_ids = []\<rparr>
               | Some c \<Rightarrow> c)
      in AList.update off (c\<lparr>oc_matches := oc_matches c + 1,
           oc_goroutine_ids := oc_goroutine_ids c @ [gid]\<rparr>) cs)"

definition probe_offset ::
  "memory \<Rightarrow> layout \<Rightarrow> label_map \<Rightarrow> label_options \<Rightarrow> goroutine \<Rightarrow> u64 \<Rightarrow> bool"
where
  "probe_offset mem probe want opts g off =
     (case memory_read_uintptr (Some mem) (g_addr g + off) (la_ptr_size probe)
             (layout_byte_order probe = Some True) of
        None \<Rightarrow> False
      | Some ptr \<Rightarrow>
          ptr \<noteq> 0 \<and>
          (case decode_label_map (memory_read (Some mem)) (memory_read (Some mem)) probe opts ptr of
             Inl _ \<Rightarrow> False
           | Inr labels \<Rightarrow> contains_labels labels want))"

text \<open>
  The offsets of the inner loop: the multiples of the pointer size at which a word still lies
  in the range. The sum in its condition cannot wrap, because a range is no longer than its data.
\<close>

definition probe_offsets :: "u64 \<Rightarrow> int \<Rightarrow> u64 list" where
  "probe_offsets sz ptr_size =
     map (\<lambda>k. of_nat k * word_of_int ptr_size) [0..<unat sz div nat ptr_size]"

definition probe_goroutine ::
  "memory \<Rightarrow> layout \<Rightarrow> label_map \<Rightarrow> label_options \<Rightarrow> goroutine \<Rightarrow>
    (u64 \<times> offset_candidate) list \<Rightarrow> (u64 \<times> offset_candidate) list"
where
  "probe_goroutine mem probe want opts g cs =
     (case range_containing (Some mem) (g_addr g) of
        None \<Rightarrow> cs
      | Some r \<Rightarrow>
          fold (\<lambda>off cs. if probe_offset mem probe want opts g off
                 then note_candidate off (g_id g) cs else cs)
            (probe_offsets (mr_end r - g_addr g) (la_ptr_size probe)) cs)"

definition find_offset_candidates ::
  "heap_snapshot option \<Rightarrow> memory option \<Rightarrow> label_map \<Rightarrow> label_options \<Rightarrow> offset_candidate list"
where
  "find_offset_candidates snap_opt mem_opt want opts0 =
     (let opts = normalize_options opts0 in
      case snap_opt of
        None \<Rightarrow> []
      | Some snap \<Rightarrow>
          if want = [] then []
          else case manual_layout (lookup_input_from_snapshot (Some snap)) 0 of
            Inl _ \<Rightarrow> []
          | Inr probe \<Rightarrow>
              let mem = (case mem_opt of None \<Rightarrow> new_memory (Some snap) | Some m \<Rightarrow> m)
              in sort_key oc_offset (map snd
                   (fold (probe_goroutine mem probe want opts) (hs_goroutines snap) [])))"

end
