(* ===== verification/DumpReader.thy ===== *)
theory DumpReader
  imports HeapModel
begin

text \<open>
  The primitive stream reader of the heap dump format (\<open>internal/heapdump/reader.go\<close>). The
  state is the bytes not yet read, the error the stream gives after them (\<open>EOF\<close>, or a device
  error), the number of bytes read so far and the optional context that is polled before
  every read. \<open>bufio\<close> only batches reads and has no state of its own here.
\<close>

section \<open>State\<close>

record reader =
  rd_ctx :: "ctx option"
  rd_input :: "byte list"
  rd_end :: go_error
  rd_max_string :: u64
  rd_max_mem :: u64
  rd_offset :: i64

definition new_reader :: "byte list \<Rightarrow> go_error \<Rightarrow> u64 \<Rightarrow> u64 \<Rightarrow> reader" where
  "new_reader src e maxs maxm =
     \<lparr>rd_ctx = None, rd_input = src, rd_end = e, rd_max_string = maxs, rd_max_mem = maxm,
      rd_offset = 0\<rparr>"

text \<open>\<open>if r.ctx != nil { if err := r.ctx.Err(); err != nil { return err } }\<close>\<close>

definition rd_poll :: "(reader, unit) es" where
  "rd_poll r =
     (case rd_ctx r of
        None \<Rightarrow> Inr ((), r)
      | Some c \<Rightarrow>
          (case ctx_err c of
             (Some e, _) \<Rightarrow> Inl e
           | (None, c') \<Rightarrow> Inr ((), r\<lparr>rd_ctx := Some c'\<rparr>)))"

section \<open>Reading bytes\<close>

definition rd_next :: "(reader, byte) es" where
  "rd_next r =
     (case rd_input r of
        [] \<Rightarrow> Inl (rd_end r)
      | b # bs \<Rightarrow> Inr (b, r\<lparr>rd_input := bs, rd_offset := rd_offset r + 1\<rparr>))"

definition read_byte :: "(reader, byte) es" where
  "read_byte = es_bind rd_poll (\<lambda>_. rd_next)"

text \<open>
  \<open>io.ReadFull\<close> of \<open>n\<close> bytes: a stream that ends before the first byte gives \<open>EOF\<close>, one that
  ends later \<open>ErrUnexpectedEOF\<close>; any other error is passed on.
\<close>

definition rd_take :: "nat \<Rightarrow> (reader, byte list) es" where
  "rd_take n r =
     (if n \<le> length (rd_input r)
      then Inr (take n (rd_input r),
                r\<lparr>rd_input := drop n (rd_input r), rd_offset := rd_offset r + of_nat n\<rparr>)
      else Inl (if rd_end r = EOF \<and> rd_input r \<noteq> [] then UnexpectedEOF else rd_end r))"

definition read_full :: "nat \<Rightarrow> (reader, byte list) es" where
  "read_full n = es_bind rd_poll (\<lambda>_. rd_take n)"

section \<open>Unsigned varints\<close>

definition uvarint_overflow :: go_error where
  "uvarint_overflow = Errorf (Fmt ''uvarint overflow'' [])"

function uvarint_loop :: "nat \<Rightarrow> u64 \<Rightarrow> nat \<Rightarrow> (reader, u64) es" where
  "uvarint_loop i x shift r =
     (if i < 10 then
        (case read_byte r of
           Inl e \<Rightarrow> Inl (if e = EOF \<and> i > 0 then UnexpectedEOF else e)
         | Inr (b, r') \<Rightarrow>
             if b < 0x80 then
               (if i = 9 \<and> b > 1 then Inl uvarint_overflow
                else Inr (x OR push_bit shift (ucast b), r'))
             else uvarint_loop (i + 1) (x OR push_bit shift (ucast (b AND 0x7F))) (shift + 7) r')
      else Inl uvarint_overflow)"
  by pat_completeness auto
termination
  by (relation "measure (\<lambda>(i, x, shift, r). 10 - i)") auto

declare uvarint_loop.simps [simp del]

definition uvarint :: "(reader, u64) es" where
  "uvarint = uvarint_loop 0 0 0"

definition read_bool :: "(reader, bool) es" where
  "read_bool =
     es_bind uvarint (\<lambda>v.
       if v = 0 then es_return False
       else if v = 1 then es_return True
       else es_fail (Errorf (Fmt ''invalid bool value %d'' [FU v])))"

section \<open>Length-prefixed payloads\<close>

text \<open>
  \<open>uint64(^uint(0)>>1)\<close>, the largest \<open>int\<close> of the platform the analyser runs on, taken to be
  a 64-bit one.
\<close>

definition platform_max_int :: u64 where
  "platform_max_int = max_int64"

definition chunk_size :: u64 where
  "chunk_size = 65536"

lemma read_full_length:
  "read_full n r = Inr (bs, r') \<Longrightarrow> length bs = n"
  by (auto simp: read_full_def es_bind_Inr rd_take_def split: if_splits)

function read_payload_loop :: "u64 \<Rightarrow> byte list \<Rightarrow> (reader, byte list) es" where
  "read_payload_loop n buf r =
     (if n > 0 then
        (case read_full (unat (min n chunk_size)) r of
           Inl e \<Rightarrow> Inl (if e = EOF then UnexpectedEOF else e)
         | Inr (part, r') \<Rightarrow>
             if n \<le> chunk_size \<and> buf = [] then Inr (part, r')
             else read_payload_loop (n - of_nat (length part)) (buf @ part) r')
      else Inr (buf, r))"
  by pat_completeness auto
termination
proof (relation "measure (\<lambda>(n, buf, r). unat n)", goal_cases)
  case (2 n buf r x part r')
  then have "length part = unat (min n chunk_size)" by (auto dest: read_full_length)
  then have "of_nat (length part) = min n chunk_size" by simp
  moreover have "unat (n - min n chunk_size) = unat n - unat (min n chunk_size)"
    by (rule unat_sub) simp
  moreover have "0 < unat (min n chunk_size)"
    using 2(1) by (auto simp: chunk_size_def unat_gt_0 min_def)
  moreover have "0 < unat n" using 2(1) by (simp add: unat_gt_0)
  ultimately show ?case by simp
qed auto

declare read_payload_loop.simps [simp del]

definition read_payload :: "u64 \<Rightarrow> (reader, byte list) es" where
  "read_payload n = read_payload_loop n []"

text \<open>The offset returned is that of the payload, right after the length prefix.\<close>

definition bytes_with_file_offset :: "(reader, byte list \<times> i64) es" where
  "bytes_with_file_offset =
     es_bind uvarint (\<lambda>n.
     es_bind (es_get rd_max_mem) (\<lambda>limit.
     if limit \<noteq> 0 \<and> n > limit then
       es_fail (Errorf (Fmt ''memory range length %d exceeds limit %d'' [FU n, FU limit]))
     else if n > platform_max_int then
       es_fail (Errorf (Fmt ''memory range length %d exceeds platform allocation bound'' [FU n]))
     else
       es_bind (es_get rd_offset) (\<lambda>payload_off.
       if n = 0 then es_return ([], payload_off)
       else es_bind (read_payload n) (\<lambda>buf. es_return (buf, payload_off)))))"

definition read_bytes :: "(reader, byte list) es" where
  "read_bytes = es_bind bytes_with_file_offset (\<lambda>(buf, _). es_return buf)"

definition read_string :: "(reader, string) es" where
  "read_string =
     es_bind uvarint (\<lambda>n.
     es_bind (es_get rd_max_string) (\<lambda>limit.
     if limit \<noteq> 0 \<and> n > limit then
       es_fail (Errorf (Fmt ''string length %d exceeds limit %d'' [FU n, FU limit]))
     else if n = 0 then es_return []
     else if n > platform_max_int then
       es_fail (Errorf (Fmt ''string length %d exceeds platform allocation bound'' [FU n]))
     else es_bind (read_payload n) (\<lambda>buf. es_return (string_of_bytes buf))))"

section \<open>What reading does to the stream\<close>

text \<open>
  \<open>rd_ext r s\<close>: \<open>s\<close> is \<open>r\<close> after some bytes were consumed, which the offset counts; limits
  and the error at the end of the stream are untouched. Every operation of the reader keeps
  this relation, and every field it decodes consumes at least one byte.
\<close>

definition rd_ext :: "reader \<Rightarrow> reader \<Rightarrow> bool" where
  "rd_ext r s \<longleftrightarrow> (\<exists>bs. rd_input r = bs @ rd_input s \<and>
     rd_offset s = rd_offset r + of_nat (length bs) \<and> rd_end s = rd_end r \<and>
     rd_max_string s = rd_max_string r \<and> rd_max_mem s = rd_max_mem r)"

lemma rd_ext_refl: "rd_ext r r"
  by (simp add: rd_ext_def)

lemma rd_ext_trans: "rd_ext r s \<Longrightarrow> rd_ext s t \<Longrightarrow> rd_ext r t"
  by (fastforce simp: rd_ext_def)

interpretation rd: es_frame rd_ext
  by unfold_locales (auto intro: rd_ext_refl rd_ext_trans)

lemma rd_ext_length: "rd_ext r s \<Longrightarrow> length (rd_input s) \<le> length (rd_input r)"
  by (auto simp: rd_ext_def)

lemma keeps_rd_poll [es_keeps_intros]: "es_keeps rd_ext rd_poll"
  by (auto simp: es_keeps_def rd_poll_def rd_ext_def split: option.splits prod.splits)

lemma keeps_rd_next [es_keeps_intros]: "es_keeps rd_ext rd_next"
proof (rule es_keepsI)
  fix r b s assume "rd_next r = Inr (b, s)"
  then show "rd_ext r s"
    unfolding rd_ext_def rd_next_def
    by (intro exI [of _ "[b]"]) (auto split: list.splits)
qed

lemma keeps_rd_take [es_keeps_intros]: "es_keeps rd_ext (rd_take n)"
proof (rule es_keepsI)
  fix r bs s assume "rd_take n r = Inr (bs, s)"
  then show "rd_ext r s"
    unfolding rd_ext_def rd_take_def
    by (intro exI [of _ "take n (rd_input r)"]) (auto split: if_splits)
qed

lemma keeps_read_byte [es_keeps_intros]: "es_keeps rd_ext read_byte"
  unfolding read_byte_def by (intro es_keeps_intros)

lemma keeps_read_full [es_keeps_intros]: "es_keeps rd_ext (read_full n)"
  unfolding read_full_def by (intro es_keeps_intros)

lemma read_byte_shorter:
  "read_byte r = Inr (b, s) \<Longrightarrow> length (rd_input r) = Suc (length (rd_input s))"
  by (auto simp: read_byte_def es_bind_Inr rd_poll_def rd_next_def
      split: option.splits prod.splits list.splits)

lemma uvarint_loop_ext:
  "uvarint_loop i x k r = Inr (v, s) \<Longrightarrow>
    rd_ext r s \<and> length (rd_input s) < length (rd_input r)"
proof (induction i x k r rule: uvarint_loop.induct)
  case (1 i x k r)
  show ?case
  proof (cases "read_byte r")
    case (Inl e)
    with 1(2) show ?thesis by (simp add: uvarint_loop.simps [of i x k r] split: if_splits)
  next
    case (Inr p)
    obtain b r' where p: "p = (b, r')" by fastforce
    have step: "rd_ext r r'" "length (rd_input r) = Suc (length (rd_input r'))"
      using Inr keeps_read_byte by (auto simp: p dest: es_keepsD read_byte_shorter)
    show ?thesis
      using 1 Inr step unfolding p
      by (auto simp: uvarint_loop.simps [of i x k r] split: if_splits
          intro: rd_ext_trans less_SucI)
  qed
qed

lemma keeps_uvarint [es_keeps_intros]: "es_keeps rd_ext uvarint"
  unfolding uvarint_def by (auto intro: es_keepsI dest: uvarint_loop_ext)

lemma uvarint_shorter: "uvarint r = Inr (v, s) \<Longrightarrow> length (rd_input s) < length (rd_input r)"
  unfolding uvarint_def by (auto dest: uvarint_loop_ext)

lemma keeps_read_bool [es_keeps_intros]: "es_keeps rd_ext read_bool"
  unfolding read_bool_def by (intro es_keeps_intros)

lemma read_payload_loop_ext: "read_payload_loop n buf r = Inr (v, s) \<Longrightarrow> rd_ext r s"
proof (induction n buf r rule: read_payload_loop.induct)
  case (1 n buf r)
  show ?case
  proof (cases "read_full (unat (min n chunk_size)) r")
    case (Inl e)
    with 1(2) show ?thesis
      by (auto simp: read_payload_loop.simps [of n buf r] rd_ext_refl split: if_splits)
  next
    case (Inr p)
    obtain b r' where p: "p = (b, r')" by fastforce
    have step: "rd_ext r r'" using Inr keeps_read_full by (auto simp: p dest: es_keepsD)
    show ?thesis
      using 1 Inr step unfolding p
      by (auto simp: read_payload_loop.simps [of n buf r] rd_ext_refl split: if_splits
          intro: rd_ext_trans)
  qed
qed

lemma keeps_read_payload [es_keeps_intros]: "es_keeps rd_ext (read_payload n)"
  unfolding read_payload_def by (auto intro: es_keepsI dest: read_payload_loop_ext)

lemma keeps_bytes_with_file_offset [es_keeps_intros]: "es_keeps rd_ext bytes_with_file_offset"
  unfolding bytes_with_file_offset_def by (intro es_keeps_intros)

lemma keeps_read_bytes [es_keeps_intros]: "es_keeps rd_ext read_bytes"
  unfolding read_bytes_def by (auto intro!: es_keeps_intros split: prod.splits)

lemma keeps_read_string [es_keeps_intros]: "es_keeps rd_ext read_string"
  unfolding read_string_def by (intro es_keeps_intros)

text \<open>What was read has the announced length, which the limits bound.\<close>

lemma read_payload_loop_length:
  "read_payload_loop n buf r = Inr (v, s) \<Longrightarrow> length v = length buf + unat n"
proof (induction n buf r rule: read_payload_loop.induct)
  case (1 n buf r)
  show ?case
  proof (cases "n > 0")
    case False
    then have "n = 0" using word_neq_0_conv by blast
    with 1(2) show ?thesis by (simp add: read_payload_loop.simps [of 0 buf r])
  next
    case True
    with 1(2) obtain b r' where f: "read_full (unat (min n chunk_size)) r = Inr (b, r')"
      by (auto simp: read_payload_loop.simps [of n buf r] split: sum.splits)
    have len: "length b = unat (min n chunk_size)" using f by (rule read_full_length)
    show ?thesis
    proof (cases "n \<le> chunk_size \<and> buf = []")
      case single: True
      with 1(2) f True len show ?thesis
        by (auto simp: read_payload_loop.simps [of n] min_def split: if_splits)
    next
      case False
      with 1(2) f True have "read_payload_loop (n - of_nat (length b)) (buf @ b) r' = Inr (v, s)"
        by (simp add: read_payload_loop.simps [of n buf r])
      from 1(1) [OF True f refl False this] have "length v = length buf + length b + unat (n - of_nat (length b))"
        by simp
      moreover have "unat (n - of_nat (length b)) = unat n - length b"
        unfolding len by (simp add: unat_sub)
      moreover have "length b \<le> unat n" unfolding len by (simp add: word_le_nat_alt [symmetric])
      ultimately show ?thesis by simp
    qed
  qed
qed

lemma bytes_with_file_offset_length:
  assumes "bytes_with_file_offset r = Inr ((bs, off), s)"
  shows "length bs < 2 ^ 63" "rd_max_mem r = 0 \<or> length bs \<le> unat (rd_max_mem r)"
proof -
  from assms obtain n r1 where n: "uvarint r = Inr (n, r1)"
    and lim: "\<not> (rd_max_mem r1 \<noteq> 0 \<and> n > rd_max_mem r1)" "\<not> n > platform_max_int"
    and bs: "bs = [] \<or> read_payload n r1 = Inr (bs, s)"
    unfolding bytes_with_file_offset_def by (auto simp: es_bind_Inr split: if_splits)
  have len: "length bs \<le> unat n" using bs by (auto simp: read_payload_def read_payload_loop_length)
  have "rd_max_mem r1 = rd_max_mem r" using es_keepsD [OF keeps_uvarint n] by (auto simp: rd_ext_def)
  with lim len show "length bs < 2 ^ 63" "rd_max_mem r = 0 \<or> length bs \<le> unat (rd_max_mem r)"
    by (auto simp: platform_max_int_def word_less_nat_alt)
qed

text \<open>The payload is what the stream held, and the returned offset is where it began.\<close>

lemma read_payload_loop_bytes:
  "read_payload_loop n buf r = Inr (v, s) \<Longrightarrow>
    \<exists>bs. v = buf @ bs \<and> rd_input r = bs @ rd_input s \<and> rd_offset s = rd_offset r + of_nat (length bs)"
proof (induction n buf r rule: read_payload_loop.induct)
  case (1 n buf r)
  show ?case
  proof (cases "n > 0")
    case False
    with 1(2) show ?thesis by (auto simp: read_payload_loop.simps [of n buf r])
  next
    case True
    with 1(2) obtain b r' where f: "read_full (unat (min n chunk_size)) r = Inr (b, r')"
      by (auto simp: read_payload_loop.simps [of n buf r] split: sum.splits)
    have b: "rd_input r = b @ rd_input r'" "rd_offset r' = rd_offset r + of_nat (length b)"
      using f by (auto simp: read_full_def es_bind_Inr rd_poll_def rd_take_def
          split: if_splits option.splits prod.splits)
    show ?thesis
    proof (cases "n \<le> chunk_size \<and> buf = []")
      case True
      with 1(2) f b \<open>n > 0\<close> show ?thesis
        by (auto simp: read_payload_loop.simps [of n] split: if_splits)
    next
      case False
      with 1(2) f True have "read_payload_loop (n - of_nat (length b)) (buf @ b) r' = Inr (v, s)"
        by (simp add: read_payload_loop.simps [of n buf r])
      from 1(1) [OF True f refl False this] b show ?thesis by auto
    qed
  qed
qed

lemma bytes_with_file_offset_bytes:
  assumes "bytes_with_file_offset r = Inr ((bs, off), s)"
  shows "\<exists>pre. rd_input r = pre @ bs @ rd_input s \<and> off = rd_offset r + of_nat (length pre)"
proof -
  from assms obtain n r1 where n: "uvarint r = Inr (n, r1)" and off: "off = rd_offset r1"
    and bs: "bs = [] \<and> s = r1 \<or> read_payload n r1 = Inr (bs, s)"
    unfolding bytes_with_file_offset_def by (auto simp: es_bind_Inr split: if_splits)
  from es_keepsD [OF keeps_uvarint n] obtain pre where
    "rd_input r = pre @ rd_input r1" "rd_offset r1 = rd_offset r + of_nat (length pre)"
    by (auto simp: rd_ext_def)
  then show ?thesis
    using bs off by (auto simp: read_payload_def dest: read_payload_loop_bytes)
qed

section \<open>Field lists and the header line\<close>

function field_list_loop :: "slot_field list \<Rightarrow> (reader, slot_field list) es" where
  "field_list_loop flds r =
     (case uvarint r of
        Inl e \<Rightarrow> Inl e
      | Inr (kind, r1) \<Rightarrow>
          if kind = FieldKindEol then Inr (flds, r1)
          else
            (case uvarint r1 of
               Inl e \<Rightarrow> Inl e
             | Inr (off, r2) \<Rightarrow>
                 field_list_loop (flds @ [\<lparr>fld_kind = kind, fld_offset = off\<rparr>]) r2))"
  by pat_completeness auto
termination
  by (relation "measure (\<lambda>(flds, r). length (rd_input r))")
    (auto dest!: uvarint_shorter)

declare field_list_loop.simps [simp del]

definition field_list :: "(reader, slot_field list) es" where
  "field_list = field_list_loop []"

text \<open>The line is bounded, so a dump with no newline is rejected after 1024 bytes.\<close>

function read_line_loop :: "byte list \<Rightarrow> (reader, string) es" where
  "read_line_loop line r =
     (if length line < 1024 then
        (case read_byte r of
           Inl e \<Rightarrow> Inl (if e = EOF \<and> line \<noteq> [] then UnexpectedEOF else e)
         | Inr (b, r') \<Rightarrow>
             if b = 10 then Inr (string_of_bytes line, r') else read_line_loop (line @ [b]) r')
      else Inl (Errorf (Fmt ''heap dump header exceeds 1024 bytes'' [])))"
  by pat_completeness auto
termination
  by (relation "measure (\<lambda>(line, r). 1024 - length line)") auto

declare read_line_loop.simps [simp del]

definition read_line :: "(reader, string) es" where
  "read_line = read_line_loop []"

lemma field_list_loop_ext: "field_list_loop fs r = Inr (v, s) \<Longrightarrow> rd_ext r s"
proof (induction fs r rule: field_list_loop.induct)
  case (1 fs r)
  from 1(2) obtain kind r1 where k: "uvarint r = Inr (kind, r1)"
    by (auto simp: field_list_loop.simps [of fs r] split: sum.splits)
  have ext1: "rd_ext r r1" using k keeps_uvarint by (rule es_keepsD [rotated])
  show ?case
  proof (cases "kind = FieldKindEol")
    case True
    with 1(2) k ext1 show ?thesis by (simp add: field_list_loop.simps [of fs r])
  next
    case False
    with 1(2) k obtain off r2 where o: "uvarint r1 = Inr (off, r2)"
      by (auto simp: field_list_loop.simps [of fs r] split: sum.splits)
    have "rd_ext r1 r2" using o keeps_uvarint by (rule es_keepsD [rotated])
    moreover have "rd_ext r2 s"
      using 1(1) [OF k refl False o refl] 1(2) k o False
      by (simp add: field_list_loop.simps [of fs r])
    ultimately show ?thesis using ext1 rd_ext_trans by blast
  qed
qed

lemma keeps_field_list [es_keeps_intros]: "es_keeps rd_ext field_list"
  unfolding field_list_def by (auto intro: es_keepsI dest: field_list_loop_ext)

lemma read_line_loop_ext: "read_line_loop line r = Inr (v, s) \<Longrightarrow> rd_ext r s"
proof (induction line r rule: read_line_loop.induct)
  case (1 line r)
  from 1(2) obtain b r' where b: "read_byte r = Inr (b, r')"
    by (auto simp: read_line_loop.simps [of line r] split: sum.splits if_splits)
  have "rd_ext r r'" using b keeps_read_byte by (rule es_keepsD [rotated])
  with 1 b show ?case
    by (auto simp: read_line_loop.simps [of line r] split: if_splits intro: rd_ext_trans)
qed

lemma keeps_read_line [es_keeps_intros]: "es_keeps rd_ext read_line"
  unfolding read_line_def by (auto intro: es_keepsI dest: read_line_loop_ext)

section \<open>Reading does not look ahead\<close>

text \<open>
  Appending bytes to the stream, or changing the error that ends it, changes nothing of a read
  that succeeded before.
\<close>

definition rd_more :: "byte list \<Rightarrow> go_error \<Rightarrow> reader \<Rightarrow> reader" where
  "rd_more ys en r = r\<lparr>rd_input := rd_input r @ ys, rd_end := en\<rparr>"

lemma rd_more_sel [simp]:
  "rd_input (rd_more ys en r) = rd_input r @ ys" "rd_offset (rd_more ys en r) = rd_offset r"
  "rd_end (rd_more ys en r) = en" "rd_max_string (rd_more ys en r) = rd_max_string r"
  "rd_max_mem (rd_more ys en r) = rd_max_mem r" "rd_ctx (rd_more ys en r) = rd_ctx r"
  by (simp_all add: rd_more_def)

lemma stable_rd_poll [es_stable_intros]: "es_stable (rd_more ys en) rd_poll"
  by (rule es_stableI) (auto simp: rd_poll_def rd_more_def split: option.splits prod.splits)

lemma stable_rd_next [es_stable_intros]: "es_stable (rd_more ys en) rd_next"
  by (rule es_stableI) (auto simp: rd_next_def rd_more_def split: list.splits)

lemma stable_rd_take [es_stable_intros]: "es_stable (rd_more ys en) (rd_take n)"
  by (rule es_stableI) (auto simp: rd_take_def rd_more_def split: if_splits)

lemma stable_read_byte [es_stable_intros]: "es_stable (rd_more ys en) read_byte"
  unfolding read_byte_def by (intro es_stable_intros)

lemma stable_read_full [es_stable_intros]: "es_stable (rd_more ys en) (read_full n)"
  unfolding read_full_def by (intro es_stable_intros)

lemma uvarint_loop_more:
  "uvarint_loop i x k r = Inr (v, s) \<Longrightarrow>
    uvarint_loop i x k (rd_more ys en r) = Inr (v, rd_more ys en s)"
proof (induction i x k r rule: uvarint_loop.induct)
  case (1 i x k r)
  then show ?case
  proof (cases "read_byte r")
    case (Inr p)
    obtain b r' where p: "p = (b, r')" by fastforce
    have "read_byte (rd_more ys en r) = Inr (b, rd_more ys en r')"
      using Inr p stable_read_byte by (auto dest: es_stableD)
    then show ?thesis
      using 1 Inr unfolding p
      by (auto simp: uvarint_loop.simps [of i x k] split: if_splits)
  qed (auto simp: uvarint_loop.simps [of i x k] split: if_splits)
qed

lemma stable_uvarint [es_stable_intros]: "es_stable (rd_more ys en) uvarint"
  unfolding uvarint_def by (auto intro: es_stableI uvarint_loop_more)

lemma stable_read_bool [es_stable_intros]: "es_stable (rd_more ys en) read_bool"
  unfolding read_bool_def by (intro es_stable_intros)

lemma read_payload_loop_more:
  "read_payload_loop n buf r = Inr (v, s) \<Longrightarrow>
    read_payload_loop n buf (rd_more ys en r) = Inr (v, rd_more ys en s)"
proof (induction n buf r rule: read_payload_loop.induct)
  case (1 n buf r)
  show ?case
  proof (cases "read_full (unat (min n chunk_size)) r")
    case (Inl e)
    with 1(2) show ?thesis by (auto simp: read_payload_loop.simps [of n buf] split: if_splits)
  next
    case (Inr p)
    obtain b r' where p: "p = (b, r')" by fastforce
    have "read_full (unat (min n chunk_size)) (rd_more ys en r) = Inr (b, rd_more ys en r')"
      using Inr p stable_read_full by (auto dest: es_stableD)
    then show ?thesis
      using 1 Inr unfolding p
      by (auto simp: read_payload_loop.simps [of n buf] split: if_splits)
  qed
qed

lemma stable_read_payload [es_stable_intros]: "es_stable (rd_more ys en) (read_payload n)"
  unfolding read_payload_def by (auto intro: es_stableI read_payload_loop_more)

lemma stable_bytes_with_file_offset [es_stable_intros]:
  "es_stable (rd_more ys en) bytes_with_file_offset"
  unfolding bytes_with_file_offset_def by (intro es_stable_intros) simp_all

lemma stable_read_bytes [es_stable_intros]: "es_stable (rd_more ys en) read_bytes"
  unfolding read_bytes_def by (auto intro!: es_stable_intros split: prod.splits)

lemma stable_read_string [es_stable_intros]: "es_stable (rd_more ys en) read_string"
  unfolding read_string_def by (intro es_stable_intros) simp_all

lemma field_list_loop_more:
  "field_list_loop fs r = Inr (v, s) \<Longrightarrow> field_list_loop fs (rd_more ys en r) = Inr (v, rd_more ys en s)"
proof (induction fs r rule: field_list_loop.induct)
  case (1 fs r)
  note unfold = field_list_loop.simps [of fs]
  note more = es_stableD [OF stable_uvarint]
  from 1(2) obtain kind r1 where k: "uvarint r = Inr (kind, r1)"
    by (auto simp: unfold [of r] split: sum.splits)
  show ?case
  proof (cases "kind = FieldKindEol")
    case True
    with 1(2) k more [OF k] show ?thesis
      by (auto simp: unfold field_list_loop.simps [of v "rd_more ys en r"])
  next
    case False
    with 1(2) k obtain off r2 where o: "uvarint r1 = Inr (off, r2)"
      by (auto simp: unfold [of r] split: sum.splits)
    show ?thesis
      using 1(1) [OF k refl False o refl] 1(2) k o False more [OF k] more [OF o]
      by (simp add: unfold)
  qed
qed

lemma stable_field_list [es_stable_intros]: "es_stable (rd_more ys en) field_list"
  unfolding field_list_def by (auto intro: es_stableI field_list_loop_more)

lemma read_line_loop_more:
  "read_line_loop line r = Inr (v, s) \<Longrightarrow> read_line_loop line (rd_more ys en r) = Inr (v, rd_more ys en s)"
proof (induction line r rule: read_line_loop.induct)
  case (1 line r)
  from 1(2) obtain b r' where b: "read_byte r = Inr (b, r')"
    by (auto simp: read_line_loop.simps [of line r] split: sum.splits if_splits)
  from es_stableD [OF stable_read_byte b] 1 b show ?case
    by (auto simp: read_line_loop.simps [of line] split: if_splits)
qed

lemma stable_read_line [es_stable_intros]: "es_stable (rd_more ys en) read_line"
  unfolding read_line_def by (auto intro: es_stableI read_line_loop_more)

end
