(* ===== verification/DumpCodec.thy ===== *)
theory DumpCodec
  imports DumpReader
begin

text \<open>
  The reader against the format it reads. The writers are those of the Go runtime's
  \<open>heapdump.go\<close> (\<open>dumpint\<close>, \<open>dumpbool\<close>, \<open>dumpmemrange\<close>, \<open>dumpstr\<close>, \<open>dumpfields\<close>), which
  use \<open>encoding/binary\<close>'s varints; they are the specification the reader is measured by. Each
  pair of a writer and a reader is an instance of the interface \<open>codec\<close>.
\<close>

section \<open>The stream of a live reader\<close>

definition quiet :: "ctx option \<Rightarrow> bool" where
  "quiet c \<longleftrightarrow> c = None \<or> c = Some Background"

definition mk_rd :: "ctx option \<Rightarrow> go_error \<Rightarrow> u64 \<Rightarrow> u64 \<Rightarrow> i64 \<Rightarrow> byte list \<Rightarrow> reader" where
  "mk_rd c e ms mm off inp =
     \<lparr>rd_ctx = c, rd_input = inp, rd_end = e, rd_max_string = ms, rd_max_mem = mm,
      rd_offset = off\<rparr>"

lemma mk_rd_sel [simp]:
  "rd_ctx (mk_rd c e ms mm off inp) = c" "rd_input (mk_rd c e ms mm off inp) = inp"
  "rd_end (mk_rd c e ms mm off inp) = e" "rd_max_string (mk_rd c e ms mm off inp) = ms"
  "rd_max_mem (mk_rd c e ms mm off inp) = mm" "rd_offset (mk_rd c e ms mm off inp) = off"
  by (simp_all add: mk_rd_def)

lemma rd_poll_quiet [simp]: "quiet (rd_ctx r) \<Longrightarrow> rd_poll r = Inr ((), r)"
  by (auto simp: quiet_def rd_poll_def)

lemma read_byte_quiet [simp]:
  "quiet c \<Longrightarrow> read_byte (mk_rd c e ms mm off (b # bs)) = Inr (b, mk_rd c e ms mm (off + 1) bs)"
  by (simp add: read_byte_def es_bind_def rd_next_def mk_rd_def)

lemma read_byte_quiet_Nil [simp]:
  "quiet c \<Longrightarrow> read_byte (mk_rd c e ms mm off []) = Inl e"
  by (simp add: read_byte_def es_bind_def rd_next_def mk_rd_def)

lemma read_full_quiet:
  "quiet c \<Longrightarrow> read_full n (mk_rd c e ms mm off bs) =
     (if n \<le> length bs then Inr (take n bs, mk_rd c e ms mm (off + of_nat n) (drop n bs))
      else Inl (if e = EOF \<and> bs \<noteq> [] then UnexpectedEOF else e))"
  by (simp add: read_full_def es_bind_def rd_take_def mk_rd_def)

section \<open>The interface of a decoder\<close>

text \<open>
  \<open>enc x\<close> is what the runtime writes for \<open>x\<close>; \<open>ok ms mm x\<close> that \<open>x\<close> is within the reader's
  limits on strings and memory ranges. The law: a reader placed before the encoding of \<open>x\<close>
  returns \<open>x\<close> and stops right after it, whatever follows.
\<close>

locale codec =
  fixes enc :: "'a \<Rightarrow> byte list"
    and dec :: "(reader, 'a) es"
    and ok :: "u64 \<Rightarrow> u64 \<Rightarrow> 'a \<Rightarrow> bool"
  assumes decodes: "quiet c \<Longrightarrow> ok ms mm x \<Longrightarrow>
    dec (mk_rd c e ms mm off (enc x @ rest)) =
      Inr (x, mk_rd c e ms mm (off + of_nat (length (enc x))) rest)"
begin

lemma decodes_bind:
  "quiet c \<Longrightarrow> ok ms mm x \<Longrightarrow>
    es_bind dec f (mk_rd c e ms mm off (enc x @ rest)) =
      f x (mk_rd c e ms mm (off + of_nat (length (enc x))) rest)"
  by (simp add: es_bind_def decodes)

lemma decodes_wrap_bind:
  "quiet c \<Longrightarrow> ok ms mm x \<Longrightarrow>
    es_bind (es_wrap w dec) f (mk_rd c e ms mm off (enc x @ rest)) =
      f x (mk_rd c e ms mm (off + of_nat (length (enc x))) rest)"
  by (simp add: es_bind_def es_wrap_def decodes)

text \<open>The encodings are prefix-free, so a stream of them has one reading.\<close>

lemma prefix_free:
  assumes "ok 0 0 x" "ok 0 0 y" "enc x @ r = enc y @ r'"
  shows "x = y \<and> r = r'"
proof -
  have q: "quiet None" by (simp add: quiet_def)
  have "dec (mk_rd None EOF 0 0 0 (enc x @ r)) = dec (mk_rd None EOF 0 0 0 (enc y @ r'))"
    using assms(3) by simp
  then show ?thesis
    unfolding decodes [OF q assms(1)] decodes [OF q assms(2)] by (simp add: mk_rd_def)
qed

end

section \<open>Varints\<close>

function put_uvarint :: "u64 \<Rightarrow> byte list" where
  "put_uvarint x =
     (if x \<ge> 0x80 then (ucast x OR 0x80) # put_uvarint (drop_bit 7 x) else [ucast x])"
  by pat_completeness auto
termination
proof (relation "measure unat", goal_cases)
  case (2 x)
  then have "0 < unat x" by (simp add: word_le_nat_alt)
  then show ?case by (simp add: drop_bit_eq_div unat_div)
qed simp

declare put_uvarint.simps [simp del]

lemma bit_0x7F: "bit (0x7F :: u64) m \<longleftrightarrow> m < 7" "bit (0x7F :: byte) m \<longleftrightarrow> m < 7"
  using bit_mask_iff [of 7 m, where ?'a = u64] bit_mask_iff [of 7 m, where ?'a = byte]
  by (auto simp: mask_eq_exp_minus_1)

lemma bit_0x80: "bit (0x80 :: u64) m \<longleftrightarrow> m = 7" "bit (0x80 :: byte) m \<longleftrightarrow> m = 7"
  using bit_push_bit_iff [of 7 "1 :: u64" m] bit_push_bit_iff [of 7 "1 :: byte" m]
  by (auto simp: bit_1_iff)

lemma seven_bits:
  fixes x :: u64
  shows "(acc OR push_bit k (ucast ((ucast x OR 0x80) AND 0x7F :: byte))) OR
      push_bit (k + 7) (drop_bit 7 x) = acc OR push_bit k x"
proof (rule bit_word_eqI)
  fix n assume n: "n < LENGTH(64)"
  have low: "bit (ucast ((ucast x OR 0x80) AND 0x7F :: byte) :: u64) m \<longleftrightarrow> m < 7 \<and> bit x m" for m
    by (simp only: bit_unsigned_iff bit_and_iff bit_or_iff bit_0x7F bit_0x80) auto
  consider "n < k" | "k \<le> n" "n < k + 7" | "k + 7 \<le> n" by linarith
  then show "bit ((acc OR push_bit k (ucast ((ucast x OR 0x80) AND 0x7F :: byte))) OR
      push_bit (k + 7) (drop_bit 7 x)) n = bit (acc OR push_bit k x) n"
    using n by cases (auto simp: bit_or_iff bit_push_bit_iff low bit_drop_bit_eq)
qed

lemma uvarint_loop_put:
  assumes "quiet c"
  shows "i < 10 \<Longrightarrow> unat x < 2 ^ (64 - 7 * i) \<Longrightarrow>
    uvarint_loop i acc (7 * i) (mk_rd c e ms mm off (put_uvarint x @ rest)) =
      Inr (acc OR push_bit (7 * i) x,
           mk_rd c e ms mm (off + of_nat (length (put_uvarint x))) rest)"
proof (induction x arbitrary: i acc off rule: put_uvarint.induct)
  case (1 x)
  show ?case
  proof (cases "x \<ge> 0x80")
    case False
    then have x: "unat x < 128" by (simp add: word_le_nat_alt)
    have b: "unat (ucast x :: byte) = unat x"
      using x by (simp add: unsigned_ucast_eq unsigned_take_bit_eq take_bit_nat_eq_self)
    have "(ucast x :: byte) < 0x80" using x b by (simp add: word_less_nat_alt)
    moreover have "\<not> (i = 9 \<and> (1 :: byte) < ucast x)"
      using 1(3) b by (auto simp: word_less_nat_alt)
    moreover have "ucast (ucast x :: byte) = x"
      using b x by (intro word_unat_eq_iff [THEN iffD2])
        (simp add: unsigned_ucast_eq unsigned_take_bit_eq take_bit_nat_eq_self)
    ultimately show ?thesis
      using 1(2) False assms
      by (simp add: put_uvarint.simps [of x] uvarint_loop.simps [of i])
  next
    case True
    then have x: "128 \<le> unat x" by (simp add: word_le_nat_alt)
    have i: "i < 9"
    proof (rule ccontr)
      assume "\<not> i < 9"
      with 1(2) have "i = 9" by simp
      with 1(3) x show False by simp
    qed
    have "unat (drop_bit 7 x) = unat x div 128"
      by (simp add: drop_bit_eq_div unat_div)
    moreover have "(2::nat) ^ (64 - 7 * i) = 128 * 2 ^ (64 - 7 * Suc i)"
    proof -
      have eq: "64 - 7 * i = 7 + (64 - 7 * Suc i)" using i by simp
      show ?thesis by (subst eq, subst power_add) simp
    qed
    ultimately have bound: "unat (drop_bit 7 x) < 2 ^ (64 - 7 * Suc i)"
      using 1(3) by (simp add: less_mult_imp_div_less mult.commute)
    let ?b = "ucast x OR 0x80 :: byte"
    have nb: "\<not> ?b < 0x80"
      using le_word_or1 [of "0x80 :: byte" "ucast x"] by (simp only: not_less)
    let ?acc = "acc OR push_bit (7 * i) (ucast (?b AND 0x7F))"
    have put: "put_uvarint x = ?b # put_uvarint (drop_bit 7 x)"
      using True by (simp only: put_uvarint.simps [of x] if_True)
    have "uvarint_loop i acc (7 * i) (mk_rd c e ms mm off (put_uvarint x @ rest)) =
        uvarint_loop (i + 1) ?acc (7 * i + 7)
          (mk_rd c e ms mm (off + 1) (put_uvarint (drop_bit 7 x) @ rest))"
      unfolding put append_Cons uvarint_loop.simps [of i]
      using 1(2) assms nb by (simp only: read_byte_quiet sum.case prod.case if_True if_False)
    also have "\<dots> = uvarint_loop (Suc i) ?acc (7 * Suc i)
          (mk_rd c e ms mm (off + 1) (put_uvarint (drop_bit 7 x) @ rest))"
      by (simp only: Suc_eq_plus1 distrib_left mult_1_right)
    also have "\<dots> = Inr (?acc OR push_bit (7 * Suc i) (drop_bit 7 x),
        mk_rd c e ms mm (off + 1 + of_nat (length (put_uvarint (drop_bit 7 x)))) rest)"
      by (rule 1(1) [OF True _ bound]) (use i in simp)
    also have "?acc OR push_bit (7 * Suc i) (drop_bit 7 x) = acc OR push_bit (7 * i) x"
      using seven_bits [of acc "7 * i" x] by (simp only: mult_Suc_right add.commute)
    finally show ?thesis by (simp only: put length_Cons of_nat_Suc add.assoc)
  qed
qed

interpretation uvarint: codec put_uvarint uvarint "\<lambda>_ _ _. True"
proof
  fix c e ms mm off x rest
  assume "quiet c"
  from uvarint_loop_put [OF this, of 0 x 0] show
    "uvarint (mk_rd c e ms mm off (put_uvarint x @ rest)) =
      Inr (x, mk_rd c e ms mm (off + of_nat (length (put_uvarint x))) rest)"
    using unsigned_less [of x, where ?'a = nat] by (simp add: uvarint_def)
qed

text \<open>
  Conversely a varint that is accepted is the number its groups of seven bits spell: at most
  ten bytes are read and no bit is cut off at the width of \<open>uint64\<close>.
\<close>

fun uvarint_value :: "byte list \<Rightarrow> nat" where
  "uvarint_value [] = 0"
| "uvarint_value (b # bs) = unat (b AND 0x7F) + 128 * uvarint_value bs"

definition uvarint_form :: "byte list \<Rightarrow> bool" where
  "uvarint_form bs \<longleftrightarrow> bs \<noteq> [] \<and> list_all (\<lambda>b. 0x80 \<le> b) (butlast bs) \<and> last bs < 0x80"

lemma unat_or_push_bit:
  fixes x y :: "u64"
  assumes x: "unat x < 2 ^ k" and y: "unat y * 2 ^ k < 2 ^ 64" and k: "k < 64"
  shows "unat (x OR push_bit k y) = unat x + 2 ^ k * unat y"
proof -
  have tx: "take_bit k x = x"
    using x by (simp add: word_unat_eq_iff unsigned_take_bit_eq take_bit_nat_eq_self)
  have "x AND push_bit k y = 0"
  proof (rule bit_word_eqI)
    fix n
    have "bit x n \<longleftrightarrow> n < k \<and> bit x n" by (subst tx [symmetric]) (simp add: bit_take_bit_iff)
    then show "bit (x AND push_bit k y) n = bit 0 n" by (auto simp: bit_and_iff bit_push_bit_iff)
  qed
  then have eq: "x OR push_bit k y = x + push_bit k y"
    by (rule disjunctive_add_eq_or [symmetric])
  have p: "unat (push_bit k y) = unat y * 2 ^ k"
    using y unfolding unsigned_push_bit_eq
    by (simp add: push_bit_eq_mult take_bit_nat_eq_self)
  have "unat y * 2 ^ k + 2 ^ k \<le> 2 ^ 64"
  proof -
    have e: "(2::nat) ^ 64 = 2 ^ (64 - k) * 2 ^ k" using k by (simp flip: power_add)
    from y have "unat y < 2 ^ (64 - k)" unfolding e by simp
    then have "Suc (unat y) * 2 ^ k \<le> 2 ^ (64 - k) * 2 ^ k" by (intro mult_le_mono1) simp
    then show ?thesis unfolding e by simp
  qed
  with x have "unat x + unat (push_bit k y) < 2 ^ 64" unfolding p by linarith
  then have "unat (x + push_bit k y) = unat x + unat (push_bit k y)"
    using unat_add_lem [of x "push_bit k y"] by simp
  then show ?thesis unfolding eq p by simp
qed

lemma unat_byte_group:
  fixes b :: byte
  shows "unat (ucast (b AND 0x7F) :: u64) = unat (b AND 0x7F)" "unat (b AND 0x7F) < 128"
    "b < 0x80 \<Longrightarrow> b AND 0x7F = b"
proof -
  have m: "b AND 0x7F = take_bit 7 b"
    by (simp add: take_bit_eq_mask mask_eq_exp_minus_1)
  show "unat (b AND 0x7F) < 128"
    unfolding m using take_bit_nat_less_exp [of 7 "unat b"] by (simp add: unsigned_take_bit_eq)
  then show "unat (ucast (b AND 0x7F) :: u64) = unat (b AND 0x7F)"
    unfolding unsigned_ucast_eq by (simp add: unsigned_take_bit_eq take_bit_nat_eq_self)
  show "b AND 0x7F = b" if "b < 0x80"
  proof -
    have "unat b < 128" using that by (simp add: word_less_nat_alt)
    then show ?thesis unfolding m
      by (simp add: word_unat_eq_iff unsigned_take_bit_eq take_bit_nat_eq_self)
  qed
qed

lemma uvarint_group:
  fixes b :: byte and x :: u64
  assumes "unat x < 2 ^ (7 * i)" "i < 10" "i = 9 \<Longrightarrow> unat (b AND 0x7F) \<le> 1"
  shows "unat (x OR push_bit (7 * i) (ucast (b AND 0x7F))) =
    unat x + 2 ^ (7 * i) * unat (b AND 0x7F)"
proof -
  have "unat (b AND 0x7F) * 2 ^ (7 * i) < 2 ^ 64"
  proof (cases "i = 9")
    case True
    then show ?thesis using assms(3) by simp
  next
    case False
    have "unat (b AND 0x7F) * 2 ^ (7 * i) < 2 ^ 7 * 2 ^ (7 * i)"
      using unat_byte_group(2) [of b] by simp
    also have "\<dots> = 2 ^ (7 + 7 * i)" by (simp only: power_add)
    also have "\<dots> \<le> (2 :: nat) ^ 64" using False assms(2) by (intro power_increasing) simp_all
    finally show ?thesis .
  qed
  then show ?thesis
    using unat_or_push_bit [OF assms(1), of "ucast (b AND 0x7F)"] assms(2)
    by (simp add: unat_byte_group)
qed

lemma uvarint_form_Cons:
  "0x80 \<le> b \<Longrightarrow> uvarint_form bs \<Longrightarrow> uvarint_form (b # bs)"
  by (simp add: uvarint_form_def)

lemma uvarint_loop_sound:
  "uvarint_loop i x (7 * i) r = Inr (v, s) \<Longrightarrow> unat x < 2 ^ (7 * i) \<Longrightarrow>
    \<exists>bs. rd_input r = bs @ rd_input s \<and> length bs + i \<le> 10 \<and> uvarint_form bs \<and>
      unat v = unat x + 2 ^ (7 * i) * uvarint_value bs"
proof (induction "10 - i" arbitrary: i x r)
  case 0
  then show ?case by (simp add: uvarint_loop.simps [of i])
next
  case (Suc n)
  have i: "i < 10" using Suc.hyps(2) by simp
  from Suc.prems(1) i obtain b r' where rb: "read_byte r = Inr (b, r')"
    by (cases "read_byte r") (auto simp: uvarint_loop.simps [of i])
  have inp: "rd_input r = b # rd_input r'"
    using rb by (auto simp: read_byte_def es_bind_Inr rd_poll_def rd_next_def
        split: option.splits prod.splits list.splits)
  show ?case
  proof (cases "b < 0x80")
    case True
    with Suc.prems(1) rb i have v: "v = x OR push_bit (7 * i) (ucast b)" "s = r'"
      and nine: "\<not> (i = 9 \<and> 1 < b)"
      by (auto simp: uvarint_loop.simps [of i] split: if_splits)
    have "i = 9 \<Longrightarrow> unat (b AND 0x7F) \<le> 1"
      using nine by (simp add: unat_byte_group(3) [OF True] word_less_nat_alt)
    from uvarint_group [OF Suc.prems(2) i this]
    have "unat v = unat x + 2 ^ (7 * i) * uvarint_value [b]"
      unfolding v by (simp add: unat_byte_group(3) [OF True])
    then show ?thesis
      using inp v(2) i True by (intro exI [of _ "[b]"]) (simp add: uvarint_form_def)
  next
    case False
    let ?x = "x OR push_bit (7 * i) (ucast (b AND 0x7F))"
    from Suc.prems(1) rb i False
    have rec: "uvarint_loop (Suc i) ?x (7 * Suc i) r' = Inr (v, s)"
      by (simp add: uvarint_loop.simps [of i] add.commute)
    have "i \<noteq> 9"
      using rec by (auto simp: uvarint_loop.simps [of 10])
    with i have i8: "i < 9" by simp
    from uvarint_group [OF Suc.prems(2) i]
    have ux: "unat ?x = unat x + 2 ^ (7 * i) * unat (b AND 0x7F)" using \<open>i \<noteq> 9\<close> by simp
    have "unat ?x < 2 ^ (7 * Suc i)"
    proof -
      have "2 ^ (7 * i) * Suc (unat (b AND 0x7F)) \<le> (2 :: nat) ^ (7 * i) * 128"
        using unat_byte_group(2) [of b] by (intro mult_le_mono2) simp
      then have "2 ^ (7 * i) + 2 ^ (7 * i) * unat (b AND 0x7F) \<le> (2 :: nat) ^ (7 * i) * 128"
        by (simp only: mult_Suc_right)
      moreover have "(2 :: nat) ^ (7 * Suc i) = 2 ^ (7 * i) * 128"
        by (simp add: power_add)
      ultimately show ?thesis using Suc.prems(2) unfolding ux by linarith
    qed
    moreover have n: "n = 10 - Suc i" using Suc.hyps(2) by simp
    ultimately obtain bs where bs: "rd_input r' = bs @ rd_input s" "length bs + Suc i \<le> 10"
      "uvarint_form bs" "unat v = unat ?x + 2 ^ (7 * Suc i) * uvarint_value bs"
      using Suc.hyps(1) [OF n rec] by blast
    have "unat v = unat x + 2 ^ (7 * i) * uvarint_value (b # bs)"
      unfolding bs(4) ux by (simp add: power_add distrib_left)
    then show ?thesis
      using inp bs False by (intro exI [of _ "b # bs"]) (simp add: uvarint_form_Cons)
  qed
qed

lemma uvarint_sound:
  assumes "uvarint r = Inr (v, s)"
  shows "\<exists>bs. rd_input r = bs @ rd_input s \<and> length bs \<le> 10 \<and> uvarint_form bs \<and>
    unat v = uvarint_value bs"
  using uvarint_loop_sound [of 0 0 r v s] assms by (simp add: uvarint_def)

section \<open>Booleans\<close>

definition put_bool :: "bool \<Rightarrow> byte list" where
  "put_bool b = put_uvarint (if b then 1 else 0)"

interpretation boolean: codec put_bool read_bool "\<lambda>_ _ _. True"
  by unfold_locales
    (simp add: put_bool_def read_bool_def uvarint.decodes_bind es_return_def)

section \<open>Payloads\<close>

lemma unat_minus_chunk:
  "unat (n - of_nat (unat (min n chunk_size))) = unat n - unat (min n chunk_size)"
  by (simp add: unat_sub)

lemma read_payload_loop_quiet:
  assumes "quiet c"
  shows "length pl = unat n \<Longrightarrow>
    read_payload_loop n buf (mk_rd c e ms mm off (pl @ rest)) =
      Inr (buf @ pl, mk_rd c e ms mm (off + n) rest)"
proof (induction "unat n" arbitrary: n buf pl off rule: less_induct)
  case less
  show ?case
  proof (cases "n = 0")
    case True
    with less.prems show ?thesis by (simp add: read_payload_loop.simps [of 0 buf])
  next
    case False
    let ?m = "unat (min n chunk_size)"
    have pos: "0 < ?m" using False by (auto simp: chunk_size_def min_def unat_gt_0)
    have le: "?m \<le> length pl" using less.prems by (simp add: word_le_nat_alt [symmetric])
    have full: "read_full ?m (mk_rd c e ms mm off (pl @ rest)) =
        Inr (take ?m pl, mk_rd c e ms mm (off + min n chunk_size) (drop ?m pl @ rest))"
      using le assms by (simp add: read_full_quiet)
    show ?thesis
    proof (cases "n \<le> chunk_size \<and> buf = []")
      case True
      then have "?m = length pl" "min n chunk_size = n" using less.prems by (simp_all add: min_def)
      with True full False show ?thesis
        by (simp add: read_payload_loop.simps [of n "[]"] word_neq_0_conv)
    next
      case more: False
      have len: "length (take ?m pl) = ?m" using le by simp
      have "unat (n - of_nat ?m) < unat n"
        unfolding unat_minus_chunk using pos less.prems le by simp
      moreover have "length (drop ?m pl) = unat (n - of_nat ?m)"
        unfolding unat_minus_chunk using less.prems by simp
      ultimately have "read_payload_loop (n - of_nat ?m) (buf @ take ?m pl)
          (mk_rd c e ms mm (off + min n chunk_size) (drop ?m pl @ rest)) =
        Inr ((buf @ take ?m pl) @ drop ?m pl,
          mk_rd c e ms mm (off + min n chunk_size + (n - of_nat ?m)) rest)"
        by (rule less.hyps)
      moreover have "0 < n" using False by (simp add: word_neq_0_conv)
      ultimately show ?thesis
        unfolding read_payload_loop.simps [of n buf] full using more
        by (simp only: len sum.case prod.case if_True if_False append_assoc append_take_drop_id)
          simp
    qed
  qed
qed

lemma read_payload_quiet:
  "quiet c \<Longrightarrow> length pl = unat n \<Longrightarrow>
    read_payload n (mk_rd c e ms mm off (pl @ rest)) =
      Inr (pl, mk_rd c e ms mm (off + n) rest)"
  unfolding read_payload_def by (simp add: read_payload_loop_quiet)

section \<open>Memory ranges and strings\<close>

definition put_bytes :: "byte list \<Rightarrow> byte list" where
  "put_bytes bs = put_uvarint (of_nat (length bs)) @ bs"

definition put_string :: "string \<Rightarrow> byte list" where
  "put_string s = put_bytes (bytes_of_string s)"

definition fits :: "u64 \<Rightarrow> nat \<Rightarrow> bool" where
  "fits limit n \<longleftrightarrow> n < 2 ^ 63 \<and> (limit = 0 \<or> n \<le> unat limit)"

lemma fitsD:
  assumes "fits limit n"
  shows "unat (of_nat n :: u64) = n" "\<not> (limit \<noteq> 0 \<and> limit < of_nat n)"
    "\<not> platform_max_int < of_nat n" "(of_nat n :: u64) = 0 \<longleftrightarrow> n = 0"
proof -
  show n: "unat (of_nat n :: u64) = n"
    using assms by (simp add: fits_def unsigned_of_nat take_bit_nat_eq_self)
  show "\<not> (limit \<noteq> 0 \<and> limit < of_nat n)"
    using assms by (auto simp: fits_def word_less_nat_alt n)
  show "\<not> platform_max_int < of_nat n"
    using assms by (simp add: fits_def word_less_nat_alt n platform_max_int_def)
  show "(of_nat n :: u64) = 0 \<longleftrightarrow> n = 0"
    unfolding unat_eq_zero [symmetric] n ..
qed

lemma bytes_with_file_offset_quiet:
  assumes "quiet c" "fits mm (length bs)"
  shows "bytes_with_file_offset (mk_rd c e ms mm off (put_bytes bs @ rest)) =
    Inr ((bs, off + of_nat (length (put_uvarint (of_nat (length bs))))),
         mk_rd c e ms mm (off + of_nat (length (put_bytes bs))) rest)"
proof -
  note fit = fitsD [OF assms(2)]
  show ?thesis
  proof (cases "bs = []")
    case True
    then show ?thesis
      using assms(1) uvarint.decodes_bind [OF assms(1) TrueI]
      by (simp add: put_bytes_def bytes_with_file_offset_def es_bind_def uvarint.decodes
          es_get_def es_return_def platform_max_int_def)
  next
    case False
    then have nz: "(of_nat (length bs) :: u64) \<noteq> 0" by (simp only: fit) simp
    show ?thesis
      using fit(2,3) nz
      unfolding put_bytes_def bytes_with_file_offset_def append_assoc
        uvarint.decodes_bind [OF assms(1) TrueI]
      by (simp only: es_bind_def es_get_def es_return_def mk_rd_sel sum.case prod.case if_False
          read_payload_quiet [OF assms(1) fit(1) [symmetric]] length_append of_nat_add add.assoc)
  qed
qed

interpretation bytes: codec put_bytes read_bytes "\<lambda>_ mm bs. fits mm (length bs)"
  by unfold_locales
    (simp add: read_bytes_def es_bind_def bytes_with_file_offset_quiet es_return_def)

interpretation string: codec put_string read_string "\<lambda>ms _ s. fits ms (length s)"
proof
  fix c ms mm s e off rest
  assume c: "quiet c" and ok: "fits ms (length (s :: string))"
  let ?bs = "bytes_of_string s"
  note fit = fitsD [OF ok]
  show "read_string (mk_rd c e ms mm off (put_string s @ rest)) =
    Inr (s, mk_rd c e ms mm (off + word_of_nat (length (put_string s))) rest)"
  proof (cases "s = []")
    case True
    then show ?thesis
      using c by (simp add: put_string_def put_bytes_def bytes_of_string_def read_string_def
          es_bind_def uvarint.decodes es_get_def es_return_def)
  next
    case False
    then have nz: "(of_nat (length ?bs) :: u64) \<noteq> 0" by (simp only: length_bytes_of_string fit) simp
    have len: "length ?bs = unat (of_nat (length ?bs) :: u64)" using fit(1) by simp
    show ?thesis
      using fit(2,3) nz
      unfolding put_string_def put_bytes_def read_string_def append_assoc
        uvarint.decodes_bind [OF c TrueI] length_bytes_of_string
      by (simp only: es_bind_def es_get_def es_return_def mk_rd_sel sum.case prod.case if_False
          read_payload_quiet [OF c len, unfolded length_bytes_of_string]
          string_of_bytes_of_string length_append of_nat_add add.assoc length_bytes_of_string)
  qed
qed

section \<open>Field lists\<close>

definition put_fields :: "slot_field list \<Rightarrow> byte list" where
  "put_fields fs =
     concat (map (\<lambda>f. put_uvarint (fld_kind f) @ put_uvarint (fld_offset f)) fs) @
     put_uvarint FieldKindEol"

lemma field_list_loop_quiet:
  assumes "quiet c"
  shows "\<forall>f \<in> set fs. fld_kind f \<noteq> FieldKindEol \<Longrightarrow>
    field_list_loop acc (mk_rd c e ms mm off (put_fields fs @ rest)) =
      Inr (acc @ fs, mk_rd c e ms mm (off + of_nat (length (put_fields fs))) rest)"
proof (induction fs arbitrary: acc off)
  case Nil
  then show ?case
    using assms by (simp add: put_fields_def field_list_loop.simps [of acc] uvarint.decodes)
next
  case (Cons f fs)
  have "\<lparr>fld_kind = fld_kind f, fld_offset = fld_offset f\<rparr> = f" by simp
  with Cons show ?case
    using assms
    by (simp add: put_fields_def field_list_loop.simps [of acc] uvarint.decodes algebra_simps)
qed

interpretation field_list: codec put_fields field_list
  "\<lambda>_ _ fs. \<forall>f \<in> set fs. fld_kind f \<noteq> FieldKindEol"
  by unfold_locales (simp add: field_list_def field_list_loop_quiet)

end
