(* ===== verification/ContentResolver.thy ===== *)
theory ContentResolver
  imports DumpReader AddrSpace
begin

text \<open>
  Lazy access to object contents (\<open>internal/heapdump/contentresolver.go\<close>): the index from
  object addresses to file offsets that a lazy parse builds, and reads through it.
  \<open>sort.Slice\<close> leaves the order of equal keys open; the model takes the stable one, and the
  statements below ask for distinct addresses where it matters.
\<close>

section \<open>State and operations\<close>

record content_ref =
  cr_addr :: u64
  cr_file_off :: i64
  cr_length :: u64

record content_resolver =
  cv_src :: "file_at option"
  cv_by_addr :: "u64 \<rightharpoonup> nat"
  cv_refs :: "content_ref list"

definition new_resolver :: "file_at option \<Rightarrow> content_resolver" where
  "new_resolver src = \<lparr>cv_src = src, cv_by_addr = Map.empty, cv_refs = []\<rparr>"

definition object_count :: "content_resolver option \<Rightarrow> nat" where
  "object_count c = (case c of None \<Rightarrow> 0 | Some v \<Rightarrow> length (cv_refs v))"

definition read_ref :: "file_at \<Rightarrow> content_ref \<Rightarrow> u64 \<Rightarrow> u64 \<Rightarrow> byte list option" where
  "read_ref src ref off sz =
     (if off + sz > cr_length ref \<or> off + sz < off then None
      else if off > max_int64 then None
      else
        let file_off = cr_file_off ref + off
        in if sint file_off < sint (cr_file_off ref) then None
           else if sz > platform_max_int then None
           else (case src file_off sz of
                   (buf, err) \<Rightarrow>
                     if err \<noteq> None \<and> err \<noteq> Some EOF then None
                     else if of_nat (length buf) \<noteq> sz then None
                     else Some buf))"

definition resolver_read :: "content_resolver option \<Rightarrow> addr_read" where
  "resolver_read c addr sz =
     (case c of
        None \<Rightarrow> None
      | Some v \<Rightarrow>
          (case cv_src v of
             None \<Rightarrow> None
           | Some src \<Rightarrow>
               if sz = 0 then Some []
               else if addr = 0 then None
               else
                 let end_addr = addr + sz
                 in if end_addr < addr then None
                    else
                      (case cv_by_addr v addr of
                         Some i \<Rightarrow> read_ref src (cv_refs v ! i) 0 sz
                       | None \<Rightarrow>
                           let j = sort_search (length (cv_refs v)) (\<lambda>i. cr_addr (cv_refs v ! i) > addr)
                           in if j = 0 then None
                              else
                                let ref = cv_refs v ! (j - 1)
                                in if addr < cr_addr ref then None
                                   else if end_addr > cr_addr ref + cr_length ref then None
                                   else read_ref src ref (addr - cr_addr ref) sz)))"

definition resolver_record :: "u64 \<Rightarrow> i64 \<Rightarrow> u64 \<Rightarrow> content_resolver \<Rightarrow> content_resolver" where
  "resolver_record addr file_off len v =
     v\<lparr>cv_refs := cv_refs v @ [\<lparr>cr_addr = addr, cr_file_off = file_off, cr_length = len\<rparr>]\<rparr>"

fun index_addrs :: "nat \<Rightarrow> content_ref list \<Rightarrow> (u64 \<rightharpoonup> nat) \<Rightarrow> (u64 \<rightharpoonup> nat)" where
  "index_addrs i [] m = m"
| "index_addrs i (r # rs) m = index_addrs (Suc i) rs (m(cr_addr r \<mapsto> i))"

definition resolver_finalize :: "content_resolver \<Rightarrow> content_resolver" where
  "resolver_finalize v =
     (let refs = sort_key cr_addr (cv_refs v)
      in v\<lparr>cv_refs := refs, cv_by_addr := index_addrs 0 refs (cv_by_addr v)\<rparr>)"

section \<open>The reader contract\<close>

lemma read_ref_length: "file_contract src \<Longrightarrow> read_ref src ref off n = Some bs \<Longrightarrow> length bs = unat n"
proof -
  assume src: "file_contract src" and r: "read_ref src ref off n = Some bs"
  from r obtain err where s: "src (cr_file_off ref + off) n = (bs, err)"
    and n: "of_nat (length bs) = n"
    by (auto simp: read_ref_def Let_def split: if_splits prod.splits)
  from src have "length (fst (src (cr_file_off ref + off) n)) \<le> unat n"
    by (simp add: file_contract_def)
  with s have "length bs \<le> unat n" by simp
  then have "length bs < 2 ^ 64" using unsigned_less [of n, where ?'a = nat] by simp
  then show "length bs = unat n"
    unfolding n [symmetric] by (simp add: unsigned_of_nat take_bit_nat_eq_self)
qed

lemma resolver_addr_reader:
  assumes "cv_src v = Some src" "file_contract src"
  shows "addr_reader (resolver_read (Some v))"
proof unfold_locales
  fix a n bs
  show "resolver_read (Some v) a 0 = Some []" "0 < n \<Longrightarrow> resolver_read (Some v) 0 n = None"
    using assms by (auto simp: resolver_read_def)
  show "resolver_read (Some v) a n = None" if "2 ^ 64 \<le> unat a + unat n" "0 < n"
  proof -
    have "\<not> a \<le> a + n" using that(1) no_olen_add_nat [of a n] by simp
    then show ?thesis using assms that(2) by (auto simp: resolver_read_def Let_def not_le)
  qed
  show "length bs = unat n" if "resolver_read (Some v) a n = Some bs"
    using that assms(1) read_ref_length [OF assms(2)]
    by (auto simp: resolver_read_def Let_def split: if_splits option.splits)
qed

interpretation resolver_file: addr_reader
  "resolver_read (Some \<lparr>cv_src = Some (bytes_read_at bs), cv_by_addr = m, cv_refs = refs\<rparr>)"
  for bs m refs
  by (rule resolver_addr_reader [where src = "bytes_read_at bs"]) simp_all

section \<open>The bytes a read returns\<close>

definition ref_within :: "content_ref \<Rightarrow> byte list \<Rightarrow> bool" where
  "ref_within r file \<longleftrightarrow> unat (cr_file_off r) + unat (cr_length r) \<le> length file \<and>
     length file < 2 ^ 63 \<and> unat (cr_addr r) + unat (cr_length r) < 2 ^ 64"

definition ref_bytes :: "content_ref \<Rightarrow> byte list \<Rightarrow> byte list" where
  "ref_bytes r file = take (unat (cr_length r)) (drop (unat (cr_file_off r)) file)"

definition ref_covers :: "content_ref \<Rightarrow> u64 \<Rightarrow> u64 \<Rightarrow> bool" where
  "ref_covers r a n \<longleftrightarrow> cr_addr r \<le> a \<and>
     unat a + unat n \<le> unat (cr_addr r) + unat (cr_length r)"

definition ref_slice :: "byte list \<Rightarrow> content_ref \<Rightarrow> u64 \<Rightarrow> u64 \<Rightarrow> byte list" where
  "ref_slice file r a n = take (unat n) (drop (unat a - unat (cr_addr r)) (ref_bytes r file))"

lemma read_ref_file:
  assumes r: "ref_within r file" and a: "cr_addr r \<le> a" and fit: "unat a + unat n < 2 ^ 64"
    and n: "0 < n"
  shows "read_ref (bytes_read_at file) r (a - cr_addr r) n =
    (if ref_covers r a n then Some (ref_slice file r a n) else None)"
proof -
  let ?off = "a - cr_addr r"
  have off: "unat ?off = unat a - unat (cr_addr r)" "unat (cr_addr r) \<le> unat a"
    using a by (simp_all add: unat_sub word_le_nat_alt)
  have sum: "unat (?off + n) = unat ?off + unat n"
    using fit off by (intro unat_add_no_carry) simp
  have pos: "0 < unat n" using n by (simp add: unat_gt_0)
  have c: "cr_length r < ?off + n \<longleftrightarrow> \<not> ref_covers r a n"
    unfolding word_less_nat_alt sum ref_covers_def using a off by auto
  have nov: "\<not> ?off + n < ?off" unfolding word_less_nat_alt sum by simp
  show ?thesis
  proof (cases "ref_covers r a n")
    case False
    with c show ?thesis by (simp add: read_ref_def)
  next
    case True
    from r have w: "unat (cr_file_off r) < 2 ^ 63" "unat (cr_length r) < 2 ^ 63"
      "unat (cr_file_off r) + unat (cr_length r) \<le> length file" "length file < 2 ^ 63"
      by (simp_all add: ref_within_def)
    from True off have cov: "unat ?off + unat n \<le> unat (cr_length r)"
      unfolding ref_covers_def by linarith
    have fo: "unat (cr_file_off r + ?off) = unat (cr_file_off r) + unat ?off"
      using w cov by (intro unat_add_no_carry) simp
    have so: "sint (cr_file_off r) = int (unat (cr_file_off r))"
      "sint (cr_file_off r + ?off) = int (unat (cr_file_off r) + unat ?off)"
      using w cov pos unfolding sint_cases fo by simp_all
    have le: "\<not> max_int64 < ?off" "\<not> platform_max_int < n"
      using w cov by (simp_all add: word_less_nat_alt platform_max_int_def)
    let ?got = "take (unat n) (drop (unat (cr_file_off r) + unat ?off) file)"
    have len: "length ?got = unat n" using w cov by simp
    have "bytes_read_at file (cr_file_off r + ?off) n = (?got, None)"
    proof -
      have "\<not> int (unat (cr_file_off r) + unat ?off) < 0"
        "\<not> int (length file) \<le> int (unat (cr_file_off r) + unat ?off)"
        using w cov pos by (simp_all only: of_nat_le_iff not_less of_nat_0_le_iff)
      then show ?thesis
        by (simp only: bytes_read_at_def so Let_def nat_int len if_False less_irrefl)
    qed
    moreover have "?got = ref_slice file r a n"
      using cov by (simp add: ref_slice_def ref_bytes_def so off drop_take take_take add.commute min_absorb1)
    ultimately show ?thesis
      using c True nov le so len by (simp add: read_ref_def Let_def)
  qed
qed

definition refs_disjoint :: "content_ref list \<Rightarrow> bool" where
  "refs_disjoint rs \<longleftrightarrow> distinct (map cr_addr rs) \<and>
     (\<forall>r \<in> set rs. \<forall>q \<in> set rs. cr_addr r < cr_addr q \<longrightarrow>
        unat (cr_addr r) + unat (cr_length r) \<le> unat (cr_addr q))"

lemma index_addrs_Some:
  "index_addrs i rs m a = Some k \<Longrightarrow>
    m a = Some k \<or> (\<exists>j < length rs. k = i + j \<and> cr_addr (rs ! j) = a)"
proof (induction rs arbitrary: i m)
  case Nil
  then show ?case by simp
next
  case (Cons r rs)
  from Cons.prems have "index_addrs (Suc i) rs (m(cr_addr r \<mapsto> i)) a = Some k" by simp
  from Cons.IH [OF this] show ?case
  proof
    assume "(m(cr_addr r \<mapsto> i)) a = Some k"
    then show ?thesis by (auto split: if_splits)
  next
    assume "\<exists>j < length rs. k = Suc i + j \<and> cr_addr (rs ! j) = a"
    then obtain j where "j < length rs" "k = Suc i + j" "cr_addr (rs ! j) = a" by blast
    then show ?thesis by (intro disjI2 exI [of _ "Suc j"]) simp
  qed
qed

lemma refs_disjoint_unique:
  assumes "refs_disjoint rs" "r \<in> set rs" "q \<in> set rs" "0 < n" "ref_covers r a n"
    "cr_addr q \<le> a" "cr_addr r \<le> cr_addr q"
  shows "r = q"
proof (rule ccontr)
  assume "r \<noteq> q"
  with assms(1-3,7) have "cr_addr r < cr_addr q"
    by (auto simp: refs_disjoint_def distinct_map inj_on_def le_less)
  with assms(1-3) have "unat (cr_addr r) + unat (cr_length r) \<le> unat (cr_addr q)"
    by (auto simp: refs_disjoint_def)
  moreover have "0 < unat n" using assms(4) by (simp add: unat_gt_0)
  ultimately show False using assms(5,6) by (simp add: ref_covers_def word_le_nat_alt)
qed

lemma refs_disjoint_sort [simp]:
  "refs_disjoint (sort_key cr_addr rs) \<longleftrightarrow> refs_disjoint rs"
  by (simp add: refs_disjoint_def distinct_map)

text \<open>
  After \<open>finalize\<close>, whether the exact-address map or the binary search finds the object, a
  read returns the requested slice of the object that holds the range, and fails when no
  object does.
\<close>

lemma resolver_read_spec:
  assumes src: "cv_src v = Some (bytes_read_at file)" and by_addr: "cv_by_addr v = Map.empty"
    and within: "\<And>r. r \<in> set (cv_refs v) \<Longrightarrow> ref_within r file"
    and dis: "refs_disjoint (cv_refs v)" and n: "0 < n"
  shows "resolver_read (Some (resolver_finalize v)) a n = Some bs \<longleftrightarrow>
    a \<noteq> 0 \<and> (\<exists>r \<in> set (cv_refs v). ref_covers r a n \<and> bs = ref_slice file r a n)"
proof (cases "a \<noteq> 0 \<and> unat a + unat n < 2 ^ 64")
  case False
  have "\<not> ref_covers r a n" if "r \<in> set (cv_refs v)" "a \<noteq> 0" for r
    using False that(2) within [OF that(1)] by (auto simp: ref_covers_def ref_within_def)
  moreover have "resolver_read (Some (resolver_finalize v)) a n = None"
  proof -
    have "addr_reader (resolver_read (Some (resolver_finalize v)))"
      by (rule resolver_addr_reader [where src = "bytes_read_at file"])
        (simp_all add: resolver_finalize_def Let_def src)
    from addr_reader.read_nil [OF this n] addr_reader.read_overflow [OF this _ n, of a]
    show ?thesis using False by (cases "a = 0") auto
  qed
  ultimately show ?thesis by auto
next
  case True
  then have a: "a \<noteq> 0" and fit: "unat a + unat n < 2 ^ 64" by auto
  define rs where "rs = sort_key cr_addr (cv_refs v)"
  have set_rs: "set rs = set (cv_refs v)" by (simp add: rs_def)
  have dis': "refs_disjoint rs" using dis by (simp add: rs_def)
  have sorted: "sorted (map cr_addr rs)" by (simp add: rs_def)
  define m where "m = index_addrs 0 rs Map.empty"
  have nov: "\<not> a + n < a" using fit by (simp add: word_less_nat_alt unat_add_no_carry)
  have body: "resolver_read (Some (resolver_finalize v)) a n =
    (case m a of
       Some i \<Rightarrow> read_ref (bytes_read_at file) (rs ! i) 0 n
     | None \<Rightarrow>
         let j = sort_search (length rs) (\<lambda>i. cr_addr (rs ! i) > a)
         in if j = 0 then None
            else
              let ref = rs ! (j - 1)
              in if a < cr_addr ref then None
                 else if a + n > cr_addr ref + cr_length ref then None
                 else read_ref (bytes_read_at file) ref (a - cr_addr ref) n)"
  proof -
    have "cv_src (resolver_finalize v) = Some (bytes_read_at file)"
      "cv_by_addr (resolver_finalize v) = m" "cv_refs (resolver_finalize v) = rs"
      by (simp_all add: resolver_finalize_def Let_def by_addr m_def rs_def src)
    moreover have "n \<noteq> 0" using n by auto
    ultimately show ?thesis
      using a nov by (simp only: resolver_read_def option.case Let_def if_False)
  qed
  have one: "(\<exists>r \<in> set (cv_refs v). ref_covers r a n \<and> bs = ref_slice file r a n) \<longleftrightarrow>
      ref_covers q a n \<and> bs = ref_slice file q a n"
    if "q \<in> set rs" "cr_addr q \<le> a" "\<And>r. r \<in> set rs \<Longrightarrow> cr_addr r \<le> a \<Longrightarrow> cr_addr r \<le> cr_addr q" for q
  proof -
    have "r = q" if "r \<in> set rs" "ref_covers r a n" for r
      using that refs_disjoint_unique [OF dis' _ _ n] \<open>q \<in> set rs\<close> \<open>cr_addr q \<le> a\<close>
        \<open>r \<in> set rs \<Longrightarrow> cr_addr r \<le> a \<Longrightarrow> cr_addr r \<le> cr_addr q\<close>
      by (auto simp: ref_covers_def)
    then show ?thesis using \<open>q \<in> set rs\<close> set_rs by auto
  qed
  show ?thesis
  proof (cases "m a")
    case (Some i)
    then have i: "i < length rs" "cr_addr (rs ! i) = a"
      using index_addrs_Some [of 0 rs Map.empty a i] by (auto simp: m_def)
    have "read_ref (bytes_read_at file) (rs ! i) 0 n =
        (if ref_covers (rs ! i) a n then Some (ref_slice file (rs ! i) a n) else None)"
      using read_ref_file [of "rs ! i" "file" a n] within [of "rs ! i"] i fit n set_rs
        nth_mem [OF i(1)] by simp
    with Some one [of "rs ! i"] i a nth_mem [OF i(1)] show ?thesis
      unfolding body by (auto split: if_splits)
  next
    case None
    let ?j = "sort_search (length rs) (\<lambda>i. cr_addr (rs ! i) > a)"
    note last = search_last_le [OF sorted refl, where a = a]
    show ?thesis
    proof (cases "?j = 0")
      case True
      have "\<not> ref_covers r a n" if "r \<in> set rs" for r
      proof -
        from that obtain k where "k < length rs" "r = rs ! k" by (auto simp: in_set_conv_nth)
        with last(3) [of k] True show ?thesis by (auto simp: ref_covers_def)
      qed
      with True None set_rs show ?thesis unfolding body by auto
    next
      case False
      let ?q = "rs ! (?j - 1)"
      have q: "?q \<in> set rs" "cr_addr ?q \<le> a"
        using False last(1) last(2) [of "?j - 1"] by (auto intro!: nth_mem)
      have max: "cr_addr r \<le> cr_addr ?q" if r: "r \<in> set rs" "cr_addr r \<le> a" for r
      proof -
        from r obtain k where k: "k < length rs" "r = rs ! k" by (auto simp: in_set_conv_nth)
        with r last(3) [of k] have "k \<le> ?j - 1" by (metis One_nat_def Suc_leI Suc_pred
            False bot_nat_0.not_eq_extremum leD less_Suc_eq_le not_le_imp_less)
        with k sorted_nth_mono [OF sorted, of k "?j - 1"] False last(1) show ?thesis by simp
      qed
      have w: "ref_within ?q file" using within q set_rs by auto
      then have "a + n > cr_addr ?q + cr_length ?q \<Longrightarrow> \<not> ref_covers ?q a n"
        using fit by (simp add: ref_covers_def ref_within_def word_less_nat_alt unat_add_no_carry)
      with False None one [OF q max] a q read_ref_file [OF w q(2) fit n] show ?thesis
        unfolding body by (auto simp: Let_def split: if_splits)
    qed
  qed
qed

end
