(* ===== verification/DumpParser.thy ===== *)
theory DumpParser
  imports DumpCodec ContentResolver
begin

text \<open>
  The heap dump parser (\<open>internal/heapdump/parser.go\<close> with the tags of \<open>records.go\<close>): one
  computation per record, each with the guards and error wrappings of its Go function, and
  the record loop. The pointer \<open>curG\<close> into the goroutine slice is an index; the slice is
  only appended to by \<open>parseGoroutine\<close>, which resets the pointer.
\<close>

section \<open>Tags and options\<close>

definition Header :: string where "Header = ''go1.7 heap dump''"

definition tagEOF :: u64 where "tagEOF = 0"
definition tagObject :: u64 where "tagObject = 1"
definition tagOtherRoot :: u64 where "tagOtherRoot = 2"
definition tagType :: u64 where "tagType = 3"
definition tagGoroutine :: u64 where "tagGoroutine = 4"
definition tagStackFrame :: u64 where "tagStackFrame = 5"
definition tagParams :: u64 where "tagParams = 6"
definition tagFinalizer :: u64 where "tagFinalizer = 7"
definition tagItab :: u64 where "tagItab = 8"
definition tagOSThread :: u64 where "tagOSThread = 9"
definition tagMemStats :: u64 where "tagMemStats = 10"
definition tagQueuedFinalizer :: u64 where "tagQueuedFinalizer = 11"
definition tagData :: u64 where "tagData = 12"
definition tagBSS :: u64 where "tagBSS = 13"
definition tagDefer :: u64 where "tagDefer = 14"
definition tagPanic :: u64 where "tagPanic = 15"
definition tagMemProf :: u64 where "tagMemProf = 16"
definition tagAllocSample :: u64 where "tagAllocSample = 17"

lemmas tag_defs = tagEOF_def tagObject_def tagOtherRoot_def tagType_def tagGoroutine_def
  tagStackFrame_def tagParams_def tagFinalizer_def tagItab_def tagOSThread_def tagMemStats_def
  tagQueuedFinalizer_def tagData_def tagBSS_def tagDefer_def tagPanic_def tagMemProf_def
  tagAllocSample_def

record parse_options =
  po_context :: "ctx option"
  po_keep_contents :: bool
  po_keep_offsets :: bool
  po_max_string :: u64
  po_max_mem :: u64
  po_strict :: bool

definition DefaultMaxMemRangeBytes :: u64 where "DefaultMaxMemRangeBytes = 1073741824"
definition defaultMaxStringBytes :: u64 where "defaultMaxStringBytes = 16777216"

section \<open>Parser state\<close>

text \<open>\<open>pa_big_endian\<close> stands for \<open>byteOrder\<close>; it is read only once \<open>pa_have_params\<close> is set.\<close>

record parser =
  pa_r :: reader
  pa_opts :: parse_options
  pa_snap :: heap_snapshot
  pa_have_params :: bool
  pa_big_endian :: bool
  pa_cur_g :: "nat option"
  pa_tracker :: "content_resolver option"

definition from_reader :: "(reader, 'a) es \<Rightarrow> (parser, 'a) es" where
  "from_reader m = es_zoom pa_r (\<lambda>r p. p\<lparr>pa_r := r\<rparr>) m"

definition rd_field :: "string \<Rightarrow> (reader, 'a) es \<Rightarrow> (parser, 'a) es" where
  "rd_field what m = es_wrap what (from_reader m)"

definition upd_snap :: "(heap_snapshot \<Rightarrow> heap_snapshot) \<Rightarrow> (parser, unit) es" where
  "upd_snap f = es_update (\<lambda>p. p\<lparr>pa_snap := f (pa_snap p)\<rparr>)"

definition upd_stats :: "(parse_stats \<Rightarrow> parse_stats) \<Rightarrow> heap_snapshot \<Rightarrow> heap_snapshot" where
  "upd_stats f s = s\<lparr>hs_stats := f (hs_stats s)\<rparr>"

definition pa_warn :: "message \<Rightarrow> (parser, unit) es" where
  "pa_warn msg =
     (\<lambda>p. if po_strict (pa_opts p) then es_fail (Errorf msg) p
          else upd_snap (\<lambda>s. s\<lparr>hs_warnings := hs_warnings s @ [msg]\<rparr>) p)"

definition end_goroutine :: "parser \<Rightarrow> parser" where
  "end_goroutine p = p\<lparr>pa_cur_g := None\<rparr>"

section \<open>Records\<close>

definition parse_header :: "(parser, unit) es" where
  "parse_header =
     es_bind (rd_field ''read heap dump header'' read_line) (\<lambda>line.
     if line \<noteq> Header then
       es_fail (Errorf (Fmt ''unsupported heap dump header %q (want %q)'' [FS line, FS Header]))
     else upd_snap (\<lambda>s. s\<lparr>hs_header := line\<rparr>))"

definition parse_params :: "(parser, unit) es" where
  "parse_params =
     es_bind (rd_field ''big endian'' read_bool) (\<lambda>big_endian.
     es_bind (rd_field ''ptr size'' uvarint) (\<lambda>ptr_size.
     if ptr_size \<noteq> 4 \<and> ptr_size \<noteq> 8 then
       es_fail (Errorf (Fmt ''unsupported pointer size %d'' [FU ptr_size]))
     else
     es_bind (rd_field ''heap start'' uvarint) (\<lambda>heap_start.
     es_bind (rd_field ''heap end'' uvarint) (\<lambda>heap_end.
     es_bind (rd_field ''goarch'' read_string) (\<lambda>goarch.
     es_bind (rd_field ''build version'' read_string) (\<lambda>build_version.
     es_bind (rd_field ''num cpu'' uvarint) (\<lambda>num_cpu.
     es_bind (upd_snap (\<lambda>s. s\<lparr>hs_params := \<lparr>dp_big_endian = big_endian,
         dp_ptr_size = uint ptr_size, dp_heap_start = heap_start, dp_heap_end = heap_end,
         dp_goarch = goarch, dp_build_version = build_version, dp_num_cpu = num_cpu\<rparr>\<rparr>)) (\<lambda>_.
     es_update (\<lambda>p. p\<lparr>pa_have_params := True, pa_big_endian := big_endian\<rparr>)))))))))"

definition parse_type :: "(parser, unit) es" where
  "parse_type =
     es_bind (rd_field ''type addr'' uvarint) (\<lambda>addr.
     es_bind (rd_field ''type size'' uvarint) (\<lambda>sz.
     es_bind (rd_field ''type name'' read_string) (\<lambda>name.
     es_bind (rd_field ''indirect iface flag'' read_bool) (\<lambda>indirect_iface.
     upd_snap (\<lambda>s. upd_stats (\<lambda>t. t\<lparr>ps_type_count := ps_type_count t + 1\<rparr>)
       (s\<lparr>hs_types := (hs_types s)(addr \<mapsto> \<lparr>ti_addr = addr, ti_size = sz, ti_name = name,
          ti_indirect_iface = indirect_iface, ti_fields = []\<rparr>)\<rparr>))))))"

text \<open>
  The shared step after reading a range with pointers: run \<open>extractPointers\<close> with a warning
  function that keeps the first error of \<open>warn\<close>, then count the interface words.
\<close>

definition decode_pointers ::
  "byte list \<Rightarrow> slot_field list \<Rightarrow> u64 \<Rightarrow> message \<Rightarrow> bool \<Rightarrow> (parser, u64 list \<times> u64 list) es"
where
  "decode_pointers contents flds base context want_slots =
     es_bind (es_get (\<lambda>p. extract_pointers contents flds (dp_ptr_size (hs_params (pa_snap p)))
         (pa_big_endian p) base context want_slots)) (\<lambda>x.
     es_bind (es_each pa_warn (ex_warnings x)) (\<lambda>_.
     es_bind (upd_snap (upd_stats (\<lambda>t. t\<lparr>
         ps_interface_fields_decoded := ps_interface_fields_decoded t + ex_iface x,
         ps_eface_fields_decoded := ps_eface_fields_decoded t + ex_eface x\<rparr>))) (\<lambda>_.
     es_return (ex_targets x, ex_slots x))))"

definition store_object ::
  "u64 \<Rightarrow> byte list \<Rightarrow> i64 \<Rightarrow> slot_field list \<Rightarrow> u64 list \<Rightarrow> u64 list \<Rightarrow> parser \<Rightarrow> parser"
where
  "store_object addr contents file_off flds pointers offsets p =
     (let obj = \<lparr>ho_addr = addr, ho_size = of_nat (length contents),
             ho_contents = (if po_keep_contents (pa_opts p) then contents else []),
             ho_fields = flds, ho_pointer_addrs = pointers, ho_pointer_offsets = offsets\<rparr>;
           tracker = (case pa_tracker p of
               None \<Rightarrow> None
             | Some v \<Rightarrow> Some (if contents \<noteq> []
                 then resolver_record addr file_off (of_nat (length contents)) v else v));
           snap = pa_snap p
       in p\<lparr>pa_tracker := tracker,
            pa_snap := upd_stats (\<lambda>t. t\<lparr>ps_object_count := ps_object_count t + 1,
                ps_object_bytes := ps_object_bytes t + ho_size obj,
                ps_object_pointers := ps_object_pointers t + int (length pointers)\<rparr>)
              (snap\<lparr>hs_objects := hs_objects snap @ [obj]\<rparr>)\<rparr>)"

definition finish_object ::
  "u64 \<Rightarrow> byte list \<Rightarrow> i64 \<Rightarrow> slot_field list \<Rightarrow> (parser, unit) es"
where
  "finish_object addr contents file_off flds =
     es_bind (es_get pa_have_params) (\<lambda>have_params.
     es_bind (if \<not> have_params then
         pa_warn (Fmt ''object record before params; pointer decoding skipped'' [])
       else es_return ()) (\<lambda>_.
     es_bind (es_get (\<lambda>p. po_keep_offsets (pa_opts p))) (\<lambda>keep_offsets.
     es_bind (if have_params then
         decode_pointers contents flds 0 (Fmt ''object 0x%x'' [FU addr]) keep_offsets
       else es_return ([], [])) (\<lambda>(pointers, offsets).
     es_update (store_object addr contents file_off flds pointers offsets)))))"

definition parse_object :: "(parser, unit) es" where
  "parse_object =
     es_bind (rd_field ''object addr'' uvarint) (\<lambda>addr.
     es_bind (rd_field ''object contents'' bytes_with_file_offset) (\<lambda>(contents, file_off).
     es_bind (rd_field ''object fields'' field_list) (\<lambda>flds.
     if of_nat (length contents) > max_uint64 - addr then
       es_fail (Errorf (Fmt ''object address range overflows uint64'' []))
     else finish_object addr contents file_off flds)))"

definition parse_other_root :: "(parser, unit) es" where
  "parse_other_root =
     es_bind (rd_field ''description'' read_string) (\<lambda>desc.
     es_bind (rd_field ''pointer'' uvarint) (\<lambda>ptr.
     upd_snap (\<lambda>s. upd_stats (\<lambda>t. t\<lparr>ps_other_root_count := ps_other_root_count t + 1,
         ps_global_root_count := ps_global_root_count t + 1\<rparr>)
       (s\<lparr>hs_globals := hs_globals s @ [\<lparr>rt_kind = ''otherroot'', rt_description = desc,
          rt_addr = 0, rt_pointer_addr = ptr\<rparr>]\<rparr>))))"

text \<open>The five numbers of both finalizer records.\<close>

definition finalizer_fields :: "(parser, finalizer) es" where
  "finalizer_fields =
     es_bind (rd_field ''obj addr'' uvarint) (\<lambda>obj_addr.
     es_bind (rd_field ''fn addr'' uvarint) (\<lambda>fn.
     es_bind (rd_field ''fn pc'' uvarint) (\<lambda>fn_pc.
     es_bind (rd_field ''fint'' uvarint) (\<lambda>fint.
     es_bind (rd_field ''ot'' uvarint) (\<lambda>ot.
     es_return \<lparr>fin_object_addr = obj_addr, fin_func_val = fn, fin_func_pc = fn_pc,
       fin_type_addr = fint, fin_ptr_type_addr = ot\<rparr>)))))"

definition parse_finalizer :: "(parser, unit) es" where
  "parse_finalizer =
     es_bind finalizer_fields (\<lambda>f.
     upd_snap (\<lambda>s. upd_stats (\<lambda>t. t\<lparr>ps_finalizer_count := ps_finalizer_count t + 1\<rparr>)
       (s\<lparr>hs_finalizers := hs_finalizers s @ [f]\<rparr>)))"

definition parse_queued_finalizer :: "(parser, unit) es" where
  "parse_queued_finalizer =
     es_bind finalizer_fields (\<lambda>f.
     upd_snap (\<lambda>s. upd_stats (\<lambda>t. t\<lparr>ps_queued_finalizers := ps_queued_finalizers t + 1\<rparr>)
       (s\<lparr>hs_queued_finalizers := hs_queued_finalizers s @ [f]\<rparr>)))"

definition parse_itab :: "(parser, unit) es" where
  "parse_itab =
     es_bind (rd_field ''itab addr'' uvarint) (\<lambda>addr.
     es_bind (rd_field ''type addr'' uvarint) (\<lambda>type_addr.
     upd_snap (\<lambda>s. upd_stats (\<lambda>t. t\<lparr>ps_itab_count := ps_itab_count t + 1\<rparr>)
       (s\<lparr>hs_itabs := (hs_itabs s)(addr \<mapsto> \<lparr>it_addr = addr, it_type_addr = type_addr\<rparr>)\<rparr>))))"

definition parse_os_thread :: "(parser, unit) es" where
  "parse_os_thread =
     es_bind (rd_field ''m addr'' uvarint) (\<lambda>addr.
     es_bind (rd_field ''m id'' uvarint) (\<lambda>mid.
     es_bind (rd_field ''os id'' uvarint) (\<lambda>osid.
     upd_snap (\<lambda>s. upd_stats (\<lambda>t. t\<lparr>ps_os_thread_count := ps_os_thread_count t + 1\<rparr>)
       (s\<lparr>hs_os_threads := hs_os_threads s @
          [\<lparr>ot_addr = addr, ot_id = mid, ot_os_id = osid\<rparr>]\<rparr>)))))"

definition mem_stats_fields :: "string list" where
  "mem_stats_fields =
     [''alloc'', ''total_alloc'', ''sys'', ''lookups'', ''mallocs'', ''frees'',
      ''heap_alloc'', ''heap_sys'', ''heap_idle'', ''heap_inuse'', ''heap_released'',
      ''heap_objects'', ''stack_inuse'', ''stack_sys'', ''mspan_inuse'', ''mspan_sys'',
      ''mcache_inuse'', ''mcache_sys'', ''buckhash_sys'', ''gc_sys'', ''other_sys'',
      ''next_gc'', ''last_gc'', ''pause_total_ns'']"

definition mem_stat :: "message \<Rightarrow> string \<Rightarrow> (parser, unit) es" where
  "mem_stat what key =
     es_bind (es_wrap_msg what (from_reader uvarint)) (\<lambda>v.
     upd_snap (\<lambda>s. s\<lparr>hs_mem_stats := (hs_mem_stats s)(key \<mapsto> v)\<rparr>))"

definition parse_mem_stats :: "(parser, unit) es" where
  "parse_mem_stats =
     es_bind (es_each (\<lambda>name. mem_stat (Fmt name []) name) mem_stats_fields) (\<lambda>_.
     es_bind (es_each (\<lambda>i. mem_stat (Fmt ''pause_ns[%d]'' [FI (int i)])
         (''pause_ns_'' @ format_nat 10 i)) [0..<256]) (\<lambda>_.
     mem_stat (Fmt ''num_gc'' []) ''num_gc''))"

text \<open>\<open>is_data\<close> is \<open>kind == "data"\<close>; the only other kind the record loop passes is \<open>"bss"\<close>.\<close>

fun segment_roots :: "string \<Rightarrow> u64 list \<Rightarrow> u64 list \<Rightarrow> dump_root list" where
  "segment_roots kind [] slots = []"
| "segment_roots kind (target # targets) slots =
     \<lparr>rt_kind = kind, rt_description = [],
      rt_addr = (case slots of [] \<Rightarrow> 0 | a # _ \<Rightarrow> a), rt_pointer_addr = target\<rparr>
     # segment_roots kind targets (tl slots)"

definition add_roots :: "string \<Rightarrow> u64 list \<Rightarrow> u64 list \<Rightarrow> heap_snapshot \<Rightarrow> heap_snapshot" where
  "add_roots kind targets slots s =
     upd_stats (\<lambda>t.
         let t = t\<lparr>ps_global_root_count := ps_global_root_count t + int (length targets)\<rparr>
         in if kind = ''data''
            then t\<lparr>ps_data_pointers := ps_data_pointers t + int (length targets)\<rparr>
            else if kind = ''bss''
            then t\<lparr>ps_bss_pointers := ps_bss_pointers t + int (length targets)\<rparr> else t)
       (s\<lparr>hs_globals := hs_globals s @ segment_roots kind targets slots\<rparr>)"

definition add_segment :: "string \<Rightarrow> data_segment \<Rightarrow> heap_snapshot \<Rightarrow> heap_snapshot" where
  "add_segment kind seg s =
     (if kind = ''data'' then
        upd_stats (\<lambda>t. t\<lparr>ps_data_count := ps_data_count t + 1\<rparr>) (s\<lparr>hs_data := hs_data s @ [seg]\<rparr>)
      else
        upd_stats (\<lambda>t. t\<lparr>ps_bss_count := ps_bss_count t + 1\<rparr>) (s\<lparr>hs_bss := hs_bss s @ [seg]\<rparr>))"

definition finish_segment ::
  "string \<Rightarrow> u64 \<Rightarrow> byte list \<Rightarrow> slot_field list \<Rightarrow> (parser, unit) es"
where
  "finish_segment kind addr contents flds =
     es_bind (es_get pa_have_params) (\<lambda>have_params.
     es_bind (if have_params then
         es_bind (decode_pointers contents flds addr (Fmt ''%s 0x%x'' [FS kind, FU addr]) True)
           (\<lambda>(targets, slots).
         es_bind (upd_snap (add_roots kind targets slots)) (\<lambda>_. es_return (targets, slots)))
       else es_return ([], [])) (\<lambda>(targets, slots).
     upd_snap (add_segment kind
       \<lparr>ds_kind = kind, ds_addr = addr, ds_size = of_nat (length contents), ds_fields = flds,
         ds_pointer_addrs = targets, ds_pointer_slots = slots\<rparr>)))"

definition parse_data_like :: "string \<Rightarrow> (parser, unit) es" where
  "parse_data_like kind =
     es_bind (rd_field ''addr'' uvarint) (\<lambda>addr.
     es_bind (rd_field ''contents'' read_bytes) (\<lambda>contents.
     es_bind (rd_field ''fields'' field_list) (\<lambda>flds.
     finish_segment kind addr contents flds)))"

definition start_goroutine :: "goroutine \<Rightarrow> parser \<Rightarrow> parser" where
  "start_goroutine g p =
     (let gs = hs_goroutines (pa_snap p) @ [g]
      in p\<lparr>pa_snap := upd_stats (\<lambda>t. t\<lparr>ps_goroutine_count := ps_goroutine_count t + 1\<rparr>)
             (pa_snap p\<lparr>hs_goroutines := gs\<rparr>),
           pa_cur_g := Some (length gs - 1)\<rparr>)"

definition parse_goroutine :: "(parser, unit) es" where
  "parse_goroutine =
     es_bind (rd_field ''g addr'' uvarint) (\<lambda>addr.
     es_bind (rd_field ''sp'' uvarint) (\<lambda>sp.
     es_bind (rd_field ''goid'' uvarint) (\<lambda>goid.
     es_bind (rd_field ''gopc'' uvarint) (\<lambda>gopc.
     es_bind (rd_field ''status'' uvarint) (\<lambda>status.
     es_bind (rd_field ''is system'' read_bool) (\<lambda>is_sys.
     es_bind (rd_field ''is background'' read_bool) (\<lambda>is_bg.
     es_bind (rd_field ''wait since'' uvarint) (\<lambda>wait_since.
     es_bind (rd_field ''wait reason'' read_string) (\<lambda>wait_reason.
     es_bind (rd_field ''ctxt'' uvarint) (\<lambda>ctxt.
     es_bind (rd_field ''m'' uvarint) (\<lambda>m.
     es_bind (rd_field ''defer'' uvarint) (\<lambda>defer_addr.
     es_bind (rd_field ''panic'' uvarint) (\<lambda>panic_addr.
     es_update (start_goroutine
       \<lparr>g_addr = addr, g_stack_top = sp, g_id = goid, g_go_pc = gopc, g_status = status,
         g_is_system = is_sys, g_is_background = is_bg, g_wait_since = wait_since,
         g_wait_reason = wait_reason, g_context = ctxt, g_m = m, g_defer = defer_addr,
         g_panic = panic_addr, g_frames = []\<rparr>))))))))))))))"

definition add_frame :: "nat \<Rightarrow> stack_frame \<Rightarrow> heap_snapshot \<Rightarrow> heap_snapshot" where
  "add_frame i frame s =
     (let gs = hs_goroutines s; g = gs ! i
      in s\<lparr>hs_goroutines := gs[i := g\<lparr>g_frames := g_frames g @ [frame]\<rparr>]\<rparr>)"

definition store_frame :: "string \<Rightarrow> u64 \<Rightarrow> stack_frame \<Rightarrow> (parser, unit) es" where
  "store_frame name sp frame =
     es_bind (es_get pa_cur_g) (\<lambda>cur_g.
     case cur_g of
       None \<Rightarrow>
         pa_warn (Fmt ''stack frame %q at sp=0x%x has no enclosing goroutine; dropped''
           [FS name, FU sp])
     | Some i \<Rightarrow>
         upd_snap (\<lambda>s. upd_stats (\<lambda>t. t\<lparr>ps_stack_frame_count := ps_stack_frame_count t + 1,
             ps_stack_pointers := ps_stack_pointers t + int (length (sf_pointer_addrs frame))\<rparr>)
           (add_frame i frame s)))"

definition parse_stack_frame :: "(parser, unit) es" where
  "parse_stack_frame =
     es_bind (rd_field ''sp'' uvarint) (\<lambda>sp.
     es_bind (rd_field ''depth'' uvarint) (\<lambda>depth.
     es_bind (rd_field ''child sp'' uvarint) (\<lambda>child_sp.
     es_bind (rd_field ''contents'' read_bytes) (\<lambda>contents.
     es_bind (rd_field ''entry pc'' uvarint) (\<lambda>entry_pc.
     es_bind (rd_field ''current pc'' uvarint) (\<lambda>cur_pc.
     es_bind (rd_field ''continpc'' uvarint) (\<lambda>cont_pc.
     es_bind (rd_field ''func name'' read_string) (\<lambda>name.
     es_bind (rd_field ''fields'' field_list) (\<lambda>flds.
     es_bind (es_get pa_have_params) (\<lambda>have_params.
     es_bind (if have_params then
         decode_pointers contents flds sp (Fmt ''frame %q (sp=0x%x)'' [FS name, FU sp]) True
       else es_return ([], [])) (\<lambda>(targets, slots).
     store_frame name sp
       \<lparr>sf_sp = sp, sf_depth = depth, sf_child_sp = child_sp, sf_entry_pc = entry_pc,
         sf_current_pc = cur_pc, sf_continue_pc = cont_pc, sf_func_name = name,
         sf_size = of_nat (length contents), sf_fields = flds,
         sf_pointer_addrs = targets, sf_pointer_slots = slots\<rparr>)))))))))))"

definition skip_field :: "string \<Rightarrow> (parser, unit) es" where
  "skip_field what = es_bind (rd_field what uvarint) (\<lambda>_. es_return ())"

definition parse_defer :: "(parser, unit) es" where
  "parse_defer =
     es_bind (es_each skip_field [''d'', ''gp'', ''sp'', ''pc'', ''fn'', ''fn_pc'', ''link'']) (\<lambda>_.
     upd_snap (upd_stats (\<lambda>t. t\<lparr>ps_defer_count := ps_defer_count t + 1\<rparr>)))"

definition parse_panic :: "(parser, unit) es" where
  "parse_panic =
     es_bind (es_each skip_field [''p'', ''gp'', ''arg_type'', ''arg_data'', ''reserved'', ''link'']) (\<lambda>_.
     upd_snap (upd_stats (\<lambda>t. t\<lparr>ps_panic_count := ps_panic_count t + 1\<rparr>)))"

text \<open>The frames of a profile, \<open>i\<close> of \<open>nstk\<close> already read into \<open>acc\<close>.\<close>

definition mem_prof_frame :: "u64 \<Rightarrow> (parser, allocation_frame) es" where
  "mem_prof_frame i =
     es_bind (es_wrap_msg (Fmt ''frame[%d] func name'' [FU i]) (from_reader read_string)) (\<lambda>fn.
     es_bind (es_wrap_msg (Fmt ''frame[%d] file'' [FU i]) (from_reader read_string)) (\<lambda>fl.
     es_bind (es_wrap_msg (Fmt ''frame[%d] line'' [FU i]) (from_reader uvarint)) (\<lambda>line.
     es_return \<lparr>af_function = fn, af_file = fl, af_line = line\<rparr>)))"

function mem_prof_frames ::
  "u64 \<Rightarrow> u64 \<Rightarrow> allocation_frame list \<Rightarrow> (parser, allocation_frame list) es"
where
  "mem_prof_frames i nstk acc p =
     (if i < nstk then
        (case mem_prof_frame i p of
           Inl e \<Rightarrow> Inl e
         | Inr (f, p') \<Rightarrow> mem_prof_frames (i + 1) nstk (acc @ [f]) p')
      else Inr (acc, p))"
  by pat_completeness auto
termination
proof (relation "measure (\<lambda>(i, nstk, acc, p). unat nstk - unat i)", goal_cases)
  case (2 i nstk acc p x f p')
  then have "unat i < unat nstk" by (simp add: word_less_nat_alt)
  moreover have "unat (i + 1) = Suc (unat i)"
    using calculation unsigned_less [of nstk, where ?'a = nat]
    by (subst unat_add_no_carry) simp_all
  ultimately show ?case by simp
qed auto

declare mem_prof_frames.simps [simp del]

definition parse_mem_prof :: "(parser, unit) es" where
  "parse_mem_prof =
     es_bind (rd_field ''bucket addr'' uvarint) (\<lambda>bucket.
     es_bind (rd_field ''size'' uvarint) (\<lambda>sz.
     es_bind (rd_field ''nstk'' uvarint) (\<lambda>nstk.
     es_bind (mem_prof_frames 0 nstk []) (\<lambda>frames.
     es_bind (rd_field ''allocs'' uvarint) (\<lambda>allocs.
     es_bind (rd_field ''frees'' uvarint) (\<lambda>frees.
     upd_snap (\<lambda>s. upd_stats (\<lambda>t. t\<lparr>ps_mem_prof_count := ps_mem_prof_count t + 1\<rparr>)
       (s\<lparr>hs_mem_profiles := hs_mem_profiles s @ [\<lparr>mp_bucket = bucket, mp_size = sz,
          mp_frames = frames, mp_allocs = allocs, mp_frees = frees\<rparr>]\<rparr>))))))))"

definition parse_alloc_sample :: "(parser, unit) es" where
  "parse_alloc_sample =
     es_bind (rd_field ''addr'' uvarint) (\<lambda>addr.
     es_bind (rd_field ''bucket'' uvarint) (\<lambda>bucket.
     upd_snap (\<lambda>s. upd_stats (\<lambda>t. t\<lparr>ps_alloc_sample_count := ps_alloc_sample_count t + 1\<rparr>)
       (s\<lparr>hs_allocation_samples := hs_allocation_samples s @
          [\<lparr>as_address = addr, as_bucket = bucket\<rparr>]\<rparr>))))"

section \<open>The record loop\<close>

definition record_parser :: "u64 \<Rightarrow> (string \<times> (parser, unit) es) option" where
  "record_parser tag =
     (if tag = tagParams then Some (''params'', parse_params)
      else if tag = tagType then Some (''type'', parse_type)
      else if tag = tagObject then Some (''object'', parse_object)
      else if tag = tagOtherRoot then Some (''otherroot'', parse_other_root)
      else if tag = tagFinalizer then Some (''finalizer'', parse_finalizer)
      else if tag = tagItab then Some (''itab'', parse_itab)
      else if tag = tagOSThread then Some (''osthread'', parse_os_thread)
      else if tag = tagMemStats then Some (''memstats'', parse_mem_stats)
      else if tag = tagQueuedFinalizer then Some (''queued finalizer'', parse_queued_finalizer)
      else if tag = tagData then Some (''data'', parse_data_like ''data'')
      else if tag = tagBSS then Some (''bss'', parse_data_like ''bss'')
      else if tag = tagGoroutine then Some (''goroutine'', parse_goroutine)
      else if tag = tagStackFrame then Some (''stack frame'', parse_stack_frame)
      else if tag = tagDefer then Some (''defer'', parse_defer)
      else if tag = tagPanic then Some (''panic'', parse_panic)
      else if tag = tagMemProf then Some (''mem prof'', parse_mem_prof)
      else if tag = tagAllocSample then Some (''alloc sample'', parse_alloc_sample)
      else None)"

definition keeps_goroutine :: "u64 \<Rightarrow> bool" where
  "keeps_goroutine tag \<longleftrightarrow>
     tag = tagStackFrame \<or> tag = tagDefer \<or> tag = tagPanic \<or> tag = tagGoroutine"

text \<open>
  One round of the loop: \<open>False\<close> when it returns. The loop then repeats it; it ends because
  every round consumes the bytes of a tag.
\<close>

definition parse_tag :: "(parser, u64) es" where
  "parse_tag p =
     (let start_off = rd_offset (pa_r p)
      in case uvarint (pa_r p) of
           Inl e \<Rightarrow>
             if e = EOF then
               Inl (Errorf (Fmt ''unexpected EOF before EOF tag at offset %d'' [FI (sint start_off)]))
             else Inl (Wrapf (Fmt ''read record tag at offset %d'' [FI (sint start_off)]) e)
         | Inr (tag, r) \<Rightarrow> Inr (tag, p\<lparr>pa_r := r\<rparr>))"

definition parse_dispatch :: "int \<Rightarrow> u64 \<Rightarrow> (parser, bool) es" where
  "parse_dispatch start_off tag =
     es_bind (if keeps_goroutine tag then es_return () else es_update end_goroutine) (\<lambda>_.
     if tag = tagEOF then es_return False
     else
       case record_parser tag of
         Some (name, rec) \<Rightarrow>
           es_bind (es_wrap_msg (Fmt ''parse %s record at offset %d'' [FS name, FI start_off]) rec)
             (\<lambda>_. es_return True)
       | None \<Rightarrow>
           es_bind (upd_snap (upd_stats (\<lambda>t. t\<lparr>ps_unknown_records := ps_unknown_records t + 1\<rparr>))) (\<lambda>_.
           es_bind (pa_warn
               (Fmt ''unknown record tag %d at offset %d; stopping parse (snapshot is partial)''
                 [FU tag, FI start_off])) (\<lambda>_.
           es_return False)))"

definition parse_round :: "(parser, bool) es" where
  "parse_round =
     es_bind (es_get (\<lambda>p. sint (rd_offset (pa_r p)))) (\<lambda>start_off.
     es_bind parse_tag (parse_dispatch start_off))"

text \<open>What a record does to the stream and to the options.\<close>

definition pa_ext :: "parser \<Rightarrow> parser \<Rightarrow> bool" where
  "pa_ext p q \<longleftrightarrow> rd_ext (pa_r p) (pa_r q) \<and> pa_opts q = pa_opts p"

interpretation pa: es_frame pa_ext
  by unfold_locales (auto simp: pa_ext_def intro: rd_ext_refl rd_ext_trans)

lemma pa_ext_snap [simp]:
  "pa_ext p (p\<lparr>pa_snap := s\<rparr>)" "pa_ext p (end_goroutine p)"
  "pa_ext p (p\<lparr>pa_have_params := b, pa_big_endian := c\<rparr>)"
  by (simp_all add: pa_ext_def end_goroutine_def rd_ext_refl)

lemma keeps_from_reader [es_keeps_intros]:
  "es_keeps rd_ext m \<Longrightarrow> es_keeps pa_ext (from_reader m)"
  by (auto simp: es_keeps_def from_reader_def es_zoom_Inr pa_ext_def)

lemma keeps_rd_field [es_keeps_intros]: "es_keeps rd_ext m \<Longrightarrow> es_keeps pa_ext (rd_field w m)"
  unfolding rd_field_def by (intro es_keeps_intros)

lemma keeps_upd_snap [es_keeps_intros]: "es_keeps pa_ext (upd_snap f)"
  unfolding upd_snap_def by (intro es_keeps_intros) simp

lemma keeps_pa_warn [es_keeps_intros]: "es_keeps pa_ext (pa_warn msg)"
  unfolding pa_warn_def
  by (intro es_keeps_intros) (auto dest: es_keepsD [OF keeps_upd_snap])

lemma keeps_skip_field [es_keeps_intros]: "es_keeps pa_ext (skip_field w)"
  unfolding skip_field_def by (intro es_keeps_intros)

lemma keeps_mem_stat [es_keeps_intros]: "es_keeps pa_ext (mem_stat w k)"
  unfolding mem_stat_def by (intro es_keeps_intros)

lemma keeps_decode_pointers [es_keeps_intros]:
  "es_keeps pa_ext (decode_pointers contents flds base context ws)"
  unfolding decode_pointers_def by (intro es_keeps_intros)

lemma keeps_finalizer_fields [es_keeps_intros]: "es_keeps pa_ext finalizer_fields"
  unfolding finalizer_fields_def by (intro es_keeps_intros)

lemma keeps_mem_prof_frame [es_keeps_intros]: "es_keeps pa_ext (mem_prof_frame i)"
  unfolding mem_prof_frame_def by (intro es_keeps_intros)

lemma mem_prof_frames_rel:
  assumes R: "es_frame R" and step: "\<And>i. es_keeps R (mem_prof_frame i)"
  shows "mem_prof_frames i n acc p = Inr (x, q) \<Longrightarrow> R p q"
proof (induction i n acc p rule: mem_prof_frames.induct)
  case (1 i n acc p)
  show ?case
  proof (cases "i < n")
    case False
    with 1 show ?thesis
      by (simp add: mem_prof_frames.simps [of i n acc p] es_frame.frame_refl [OF R])
  next
    case True
    with 1(2) obtain f p' where f: "mem_prof_frame i p = Inr (f, p')"
      by (auto simp: mem_prof_frames.simps [of i n acc p] split: sum.splits)
    with 1 True have "R p' q" by (simp add: mem_prof_frames.simps [of i n acc p])
    then show ?thesis by (rule es_frame.frame_trans [OF R es_keepsD [OF step f]])
  qed
qed

lemma keeps_mem_prof_frames [es_keeps_intros]: "es_keeps pa_ext (mem_prof_frames i n acc)"
  by (rule es_keepsI, rule mem_prof_frames_rel [OF pa.es_frame_axioms])
    (auto intro: es_keeps_intros)

lemmas record_parser_defs = parse_params_def parse_type_def parse_object_def
  parse_other_root_def parse_finalizer_def parse_itab_def parse_os_thread_def
  parse_mem_stats_def parse_queued_finalizer_def parse_data_like_def parse_goroutine_def
  parse_stack_frame_def finish_object_def store_object_def finish_segment_def
  store_frame_def start_goroutine_def parse_defer_def parse_panic_def parse_mem_prof_def
  parse_alloc_sample_def

lemma record_parser_cases:
  assumes "record_parser tag = Some (name, rec)"
    and "P parse_params" "P parse_type" "P parse_object" "P parse_other_root" "P parse_finalizer"
      "P parse_itab" "P parse_os_thread" "P parse_mem_stats" "P parse_queued_finalizer"
      "P (parse_data_like ''data'')" "P (parse_data_like ''bss'')" "P parse_goroutine"
      "P parse_stack_frame" "P parse_defer" "P parse_panic" "P parse_mem_prof" "P parse_alloc_sample"
  shows "P rec"
  using assms unfolding record_parser_def by (auto split: if_splits)

lemma keeps_record_parser:
  "record_parser tag = Some (name, rec) \<Longrightarrow> es_keeps pa_ext rec"
  by (erule record_parser_cases; unfold record_parser_defs Let_def; intro es_keeps_intros)
    (auto simp: pa_ext_def rd_ext_refl split: option.splits)

lemma parse_tag_Inr:
  "parse_tag p = Inr (tag, q) \<longleftrightarrow> (\<exists>r. uvarint (pa_r p) = Inr (tag, r) \<and> q = p\<lparr>pa_r := r\<rparr>)"
  by (auto simp: parse_tag_def Let_def split: sum.splits)

lemma parse_tag_shorter:
  "parse_tag p = Inr (tag, q) \<Longrightarrow> pa_ext p q \<and> length (rd_input (pa_r q)) < length (rd_input (pa_r p))"
  by (auto simp: parse_tag_Inr pa_ext_def uvarint_shorter es_keepsD [OF keeps_uvarint])

lemma keeps_dispatch:
  assumes R: "es_frame R" and g: "es_keeps R (es_update end_goroutine :: (parser, unit) es)"
    and snap: "es_keeps R (upd_snap (upd_stats (\<lambda>t. t\<lparr>ps_unknown_records := ps_unknown_records t + 1\<rparr>)))"
    and warn: "\<And>msg. es_keeps R (pa_warn msg)"
    and rec: "\<And>name rec. record_parser tag = Some (name, rec) \<Longrightarrow> es_keeps R rec"
  shows "es_keeps R (parse_dispatch start_off tag)"
proof -
  note rules = es_frame.keeps_bind [OF R] es_frame.keeps_return [OF R] es_frame.keeps_if [OF R]
    es_frame.keeps_wrap_msg [OF R]
  show ?thesis
  proof (cases "record_parser tag")
    case None
    show ?thesis
      unfolding parse_dispatch_def None option.case by (intro rules g snap warn)
  next
    case (Some a)
    then obtain name m where a: "a = (name, m)" "es_keeps R m" using rec by fastforce
    show ?thesis
      unfolding parse_dispatch_def Some a(1) option.case prod.case by (intro rules g a(2))
  qed
qed

lemma parse_round_shorter:
  assumes "parse_round p = Inr (go, q)"
  shows "pa_ext p q" "length (rd_input (pa_r q)) < length (rd_input (pa_r p))"
proof -
  from assms obtain tag p1 where tag: "parse_tag p = Inr (tag, p1)"
    and rest: "parse_dispatch (sint (rd_offset (pa_r p))) tag p1 = Inr (go, q)"
    unfolding parse_round_def by (auto simp: es_bind_Inr)
  have "es_keeps pa_ext (parse_dispatch (sint (rd_offset (pa_r p))) tag)"
    by (rule keeps_dispatch [OF pa.es_frame_axioms])
      (auto intro!: keeps_record_parser es_keeps_intros)
  then have "pa_ext p1 q" using rest by (rule es_keepsD)
  with parse_tag_shorter [OF tag] show "pa_ext p q"
    "length (rd_input (pa_r q)) < length (rd_input (pa_r p))"
    using pa.frame_trans rd_ext_length by (auto simp: pa_ext_def dest: rd_ext_length)
qed

function parse_records :: "(parser, unit) es" where
  "parse_records p =
     (case parse_round p of
        Inl e \<Rightarrow> Inl e
      | Inr (go, q) \<Rightarrow> if go then parse_records q else Inr ((), q))"
  by pat_completeness auto
termination
  by (relation "measure (\<lambda>p. length (rd_input (pa_r p)))") (auto dest: parse_round_shorter)

declare parse_records.simps [simp del]

section \<open>Entry points\<close>

definition new_parser ::
  "byte list \<Rightarrow> go_error \<Rightarrow> parse_options \<Rightarrow> content_resolver option \<Rightarrow> parser"
where
  "new_parser src end_err opts tracker =
     \<lparr>pa_r = (new_reader src end_err (po_max_string opts) (po_max_mem opts))\<lparr>rd_ctx := po_context opts\<rparr>,
      pa_opts = opts, pa_snap = empty_snapshot, pa_have_params = False, pa_big_endian = False,
      pa_cur_g = None, pa_tracker = tracker\<rparr>"

definition with_defaults :: "parse_options \<Rightarrow> parse_options" where
  "with_defaults opts = opts\<lparr>
     po_max_string := (if po_max_string opts = 0 then defaultMaxStringBytes else po_max_string opts),
     po_max_mem := (if po_max_mem opts = 0 then DefaultMaxMemRangeBytes else po_max_mem opts)\<rparr>"

text \<open>The context is shared by the reader and the two polls before and after the records.\<close>

definition parse_body :: "(parser, unit) es" where
  "parse_body =
     es_bind (from_reader rd_poll) (\<lambda>_.
     es_bind parse_header (\<lambda>_.
     es_bind parse_records (\<lambda>_.
     from_reader rd_poll)))"

text \<open>A parse and the parser it leaves; the reader in it holds the context.\<close>

definition parse_run ::
  "byte list \<Rightarrow> go_error \<Rightarrow> parse_options \<Rightarrow> content_resolver option \<Rightarrow> go_error + unit \<times> parser"
where
  "parse_run src end_err opts tracker = parse_body (new_parser src end_err (with_defaults opts) tracker)"

definition parse_into ::
  "byte list \<Rightarrow> go_error \<Rightarrow> parse_options \<Rightarrow> content_resolver option \<Rightarrow>
    go_error + heap_snapshot \<times> content_resolver option"
where
  "parse_into src end_err opts tracker =
     (case parse_run src end_err opts tracker of
        Inl e \<Rightarrow> Inl e
      | Inr (_, p) \<Rightarrow> Inr (pa_snap p, map_option resolver_finalize (pa_tracker p)))"

definition parse :: "byte list \<Rightarrow> go_error \<Rightarrow> parse_options \<Rightarrow> go_error + heap_snapshot" where
  "parse src end_err opts = map_sum id fst (parse_into src end_err opts None)"

definition parse_lazy_contents ::
  "byte list \<Rightarrow> go_error \<Rightarrow> file_at option \<Rightarrow> parse_options \<Rightarrow>
    go_error + heap_snapshot \<times> content_resolver"
where
  "parse_lazy_contents src end_err ra opts =
     (case ra of
        None \<Rightarrow> Inl (Errorf (Fmt ''heapdump: ParseLazyContents requires non-nil io.ReaderAt'' []))
      | Some f \<Rightarrow>
          map_sum id (\<lambda>(s, v). (s, the v))
            (parse_into src end_err (opts\<lparr>po_keep_contents := False\<rparr>)
              (Some (new_resolver (Some f)))))"

end
