(* ===== verification/ParserInvariants.thy ===== *)
theory ParserInvariants
  imports DumpParser
begin

text \<open>
  What every snapshot that the parser returns satisfies: its statistics count its records, its
  pointer lists run in parallel with their slots, object ranges do not wrap, warnings appear
  only in the lenient mode, and the bytes not yet read never influence the result.
\<close>

section \<open>The counters\<close>

definition counts_ok :: "heap_snapshot \<Rightarrow> bool" where
  "counts_ok s \<longleftrightarrow>
     (let t = hs_stats s in
      ps_object_count t = int (length (hs_objects s)) \<and>
      ps_object_bytes t = (\<Sum>ob\<leftarrow>hs_objects s. ho_size ob) \<and>
      ps_object_pointers t = (\<Sum>ob\<leftarrow>hs_objects s. int (length (ho_pointer_addrs ob))) \<and>
      ps_goroutine_count t = int (length (hs_goroutines s)) \<and>
      ps_stack_frame_count t = (\<Sum>g\<leftarrow>hs_goroutines s. int (length (g_frames g))) \<and>
      ps_stack_pointers t =
        (\<Sum>g\<leftarrow>hs_goroutines s. \<Sum>f\<leftarrow>g_frames g. int (length (sf_pointer_addrs f))) \<and>
      ps_data_count t = int (length (hs_data s)) \<and>
      ps_data_pointers t = (\<Sum>d\<leftarrow>hs_data s. int (length (ds_pointer_addrs d))) \<and>
      ps_bss_count t = int (length (hs_bss s)) \<and>
      ps_bss_pointers t = (\<Sum>d\<leftarrow>hs_bss s. int (length (ds_pointer_addrs d))) \<and>
      ps_global_root_count t = int (length (hs_globals s)) \<and>
      ps_global_root_count t = ps_other_root_count t + ps_data_pointers t + ps_bss_pointers t \<and>
      ps_finalizer_count t = int (length (hs_finalizers s)) \<and>
      ps_queued_finalizers t = int (length (hs_queued_finalizers s)) \<and>
      ps_os_thread_count t = int (length (hs_os_threads s)) \<and>
      ps_mem_prof_count t = int (length (hs_mem_profiles s)) \<and>
      ps_alloc_sample_count t = int (length (hs_allocation_samples s)))"

section \<open>The shape of the records\<close>

definition object_ok :: "parse_options \<Rightarrow> heap_object \<Rightarrow> bool" where
  "object_ok opts ob \<longleftrightarrow>
     unat (ho_addr ob) + unat (ho_size ob) < 2 ^ 64 \<and>
     (if po_keep_offsets opts then length (ho_pointer_offsets ob) = length (ho_pointer_addrs ob)
      else ho_pointer_offsets ob = []) \<and>
     (if po_keep_contents opts then length (ho_contents ob) = unat (ho_size ob)
      else ho_contents ob = [])"

definition segment_ok :: "data_segment \<Rightarrow> bool" where
  "segment_ok d \<longleftrightarrow> length (ds_pointer_slots d) = length (ds_pointer_addrs d)"

definition frame_ok :: "stack_frame \<Rightarrow> bool" where
  "frame_ok f \<longleftrightarrow> length (sf_pointer_slots f) = length (sf_pointer_addrs f)"

definition records_ok :: "parse_options \<Rightarrow> heap_snapshot \<Rightarrow> bool" where
  "records_ok opts s \<longleftrightarrow>
     list_all (object_ok opts) (hs_objects s) \<and> list_all segment_ok (hs_data s) \<and>
     list_all segment_ok (hs_bss s) \<and>
     list_all (\<lambda>g. list_all frame_ok (g_frames g)) (hs_goroutines s) \<and>
     (po_strict opts \<longrightarrow> hs_warnings s = [])"

definition snapshot_ok :: "parse_options \<Rightarrow> heap_snapshot \<Rightarrow> bool" where
  "snapshot_ok opts s \<longleftrightarrow> counts_ok s \<and> records_ok opts s"

definition parser_ok :: "parser \<Rightarrow> bool" where
  "parser_ok p \<longleftrightarrow> snapshot_ok (pa_opts p) (pa_snap p) \<and>
     (\<forall>i. pa_cur_g p = Some i \<longrightarrow> i < length (hs_goroutines (pa_snap p)))"

text \<open>The relation that a record parser keeps is the preservation of this invariant.\<close>

definition ok_step :: "parser \<Rightarrow> parser \<Rightarrow> bool" where
  "ok_step p q \<longleftrightarrow> (parser_ok p \<longrightarrow> parser_ok q)"

interpretation ok: es_frame ok_step
  by unfold_locales (auto simp: ok_step_def)

lemmas ok_defs = ok_step_def parser_ok_def snapshot_ok_def counts_ok_def records_ok_def Let_def
  upd_stats_def

lemma ok_from_reader [es_keeps_intros]: "es_keeps ok_step (from_reader m)"
  by (auto simp: es_keeps_def from_reader_def es_zoom_Inr ok_step_def parser_ok_def)

lemma ok_rd_field [es_keeps_intros]: "es_keeps ok_step (rd_field w m)"
  unfolding rd_field_def by (intro es_keeps_intros)

lemma ok_upd_snap:
  assumes "\<And>p. parser_ok p \<Longrightarrow> parser_ok (p\<lparr>pa_snap := f (pa_snap p)\<rparr>)"
  shows "es_keeps ok_step (upd_snap f)"
  unfolding upd_snap_def by (rule ok.keeps_update) (simp add: ok_step_def assms)

lemma ok_pa_warn [es_keeps_intros]: "es_keeps ok_step (pa_warn msg)"
  by (rule es_keepsI) (auto simp: pa_warn_def upd_snap_def ok_defs split: if_splits)

lemma ok_skip_field [es_keeps_intros]: "es_keeps ok_step (skip_field w)"
  unfolding skip_field_def by (intro es_keeps_intros)

lemma ok_mem_stat [es_keeps_intros]: "es_keeps ok_step (mem_stat w k)"
  unfolding mem_stat_def by (intro es_keeps_intros ok_upd_snap) (simp add: ok_defs)

lemma ok_finalizer_fields [es_keeps_intros]: "es_keeps ok_step finalizer_fields"
  unfolding finalizer_fields_def by (intro es_keeps_intros)

lemma ok_decode_pointers [es_keeps_intros]:
  "es_keeps ok_step (decode_pointers contents flds base context ws)"
  unfolding decode_pointers_def by (intro es_keeps_intros ok_upd_snap) (simp add: ok_defs)

lemma ok_mem_prof_frame [es_keeps_intros]: "es_keeps ok_step (mem_prof_frame i)"
  unfolding mem_prof_frame_def by (intro es_keeps_intros)

lemma ok_mem_prof_frames [es_keeps_intros]: "es_keeps ok_step (mem_prof_frames i n acc)"
  by (rule es_keepsI, rule mem_prof_frames_rel [OF ok.es_frame_axioms])
    (auto intro: es_keeps_intros)

lemma ok_simple_records:
  "es_keeps ok_step parse_params" "es_keeps ok_step parse_type"
  "es_keeps ok_step parse_other_root" "es_keeps ok_step parse_finalizer"
  "es_keeps ok_step parse_itab" "es_keeps ok_step parse_os_thread"
  "es_keeps ok_step parse_mem_stats" "es_keeps ok_step parse_queued_finalizer"
  "es_keeps ok_step parse_defer" "es_keeps ok_step parse_panic"
  "es_keeps ok_step parse_mem_prof" "es_keeps ok_step parse_alloc_sample"
  unfolding record_parser_defs
  by (intro es_keeps_intros ok_upd_snap, (simp add: ok_defs)+)+

lemma ok_parse_goroutine: "es_keeps ok_step parse_goroutine"
  unfolding parse_goroutine_def start_goroutine_def
  by (intro es_keeps_intros) (simp add: ok_defs)

text \<open>
  Targets and slots stay parallel: \<open>record\<close> adds to both or to neither.
\<close>

lemma extract_field_parallel:
  assumes "length (ex_slots x) = (if ws then length (ex_targets x) else 0)"
  shows "length (ex_slots (extract_field contents k big base context ws f x)) =
    (if ws then length (ex_targets (extract_field contents k big base context ws f x)) else 0)"
  using assms
  by (auto simp: extract_field_def ex_record_def ex_warn_def Let_def split: option.splits)

lemma extract_pointers_parallel:
  "length (ex_slots (extract_pointers contents flds k big base context ws)) =
    (if ws then length (ex_targets (extract_pointers contents flds k big base context ws)) else 0)"
proof -
  have "length (ex_slots (fold (extract_field contents k big base context ws) flds x)) =
      (if ws then length (ex_targets (fold (extract_field contents k big base context ws) flds x)) else 0)"
    if "length (ex_slots x) = (if ws then length (ex_targets x) else 0)" for x
    using that
  proof (induction flds arbitrary: x)
    case Nil
    then show ?case by simp
  next
    case (Cons f flds)
    show ?case unfolding fold_simps comp_apply
      by (rule Cons.IH, rule extract_field_parallel, rule Cons.prems)
  qed
  moreover have "length (ex_slots no_extraction) = (if ws then length (ex_targets no_extraction) else 0)"
    "length (ex_slots (ex_warn m args no_extraction)) =
      (if ws then length (ex_targets (ex_warn m args no_extraction)) else 0)" for m args
    by (simp_all add: no_extraction_def ex_warn_def)
  ultimately show ?thesis unfolding extract_pointers_def by (simp only: split: if_split) blast
qed

lemma decode_pointers_parallel:
  assumes "decode_pointers contents flds base context ws p = Inr ((targets, slots), q)"
  shows "length slots = (if ws then length targets else 0)"
proof -
  from assms obtain x where "x = extract_pointers contents flds
      (dp_ptr_size (hs_params (pa_snap p))) (pa_big_endian p) base context ws"
    "targets = ex_targets x" "slots = ex_slots x"
    by (auto simp: decode_pointers_def es_bind_Inr)
  then show ?thesis using extract_pointers_parallel by simp
qed

lemma length_segment_roots [simp]: "length (segment_roots kind targets slots) = length targets"
  by (induction kind targets slots rule: segment_roots.induct) auto

text \<open>
  The last steps of the three records with pointers, after everything was read.
\<close>

lemma ok_store_object:
  assumes "parser_ok p" "unat addr + length contents < 2 ^ 64"
    "length offsets = (if po_keep_offsets (pa_opts p) then length pointers else 0)"
  shows "parser_ok (store_object addr contents off flds pointers offsets p)"
proof -
  have "unat (of_nat (length contents) :: u64) = length contents"
    using assms(2) by (simp add: unsigned_of_nat take_bit_nat_eq_self)
  then have "object_ok (pa_opts p) \<lparr>ho_addr = addr, ho_size = of_nat (length contents),
      ho_contents = (if po_keep_contents (pa_opts p) then contents else []),
      ho_fields = flds, ho_pointer_addrs = pointers, ho_pointer_offsets = offsets\<rparr>"
    using assms(2,3) by (cases "po_keep_offsets (pa_opts p)") (simp_all add: object_ok_def)
  then show ?thesis using assms(1) by (simp add: store_object_def ok_defs)
qed

lemma ok_add_frame:
  assumes "parser_ok p" "pa_cur_g p = Some i" "length (sf_pointer_slots f) = length (sf_pointer_addrs f)"
  shows "parser_ok (p\<lparr>pa_snap := upd_stats (\<lambda>t. t\<lparr>
      ps_stack_frame_count := ps_stack_frame_count t + 1,
      ps_stack_pointers := ps_stack_pointers t + int (length (sf_pointer_addrs f))\<rparr>)
    (add_frame i f (pa_snap p))\<rparr>)"
proof -
  let ?gs = "hs_goroutines (pa_snap p)"
  have i: "i < length ?gs" using assms(1,2) by (simp add: parser_ok_def)
  have sum: "(\<Sum>g\<leftarrow>?gs[i := y]. h g) = (\<Sum>g\<leftarrow>?gs. h g) - h (?gs ! i) + (h y :: int)" for h y
  proof -
    have "?gs = take i ?gs @ ?gs ! i # drop (Suc i) ?gs" by (rule id_take_nth_drop [OF i])
    then have "(\<Sum>g\<leftarrow>?gs. h g) =
        (\<Sum>g\<leftarrow>take i ?gs. h g) + h (?gs ! i) + (\<Sum>g\<leftarrow>drop (Suc i) ?gs. h g)"
      by (metis (no_types, lifting) add.assoc list.simps(9) map_append sum_list.Cons sum_list_append)
    then show ?thesis using i by (simp add: upd_conv_take_nth_drop)
  qed
  have "list_all (\<lambda>g. list_all frame_ok (g_frames g)) (?gs[i := (?gs ! i)\<lparr>g_frames := g_frames (?gs ! i) @ [f]\<rparr>])"
    if "list_all (\<lambda>g. list_all frame_ok (g_frames g)) ?gs"
    using that i assms(3)
    by (auto simp: list_all_length nth_list_update frame_ok_def nth_append)
  then show ?thesis
    using assms(1) by (simp add: ok_defs add_frame_def sum)
qed

lemma ok_run: "es_keeps ok_step m \<Longrightarrow> m p = Inr (x, q) \<Longrightarrow> parser_ok p \<Longrightarrow> parser_ok q"
  by (auto simp: ok_step_def dest: es_keepsD)

lemma opts_run: "es_keeps pa_ext m \<Longrightarrow> m p = Inr (x, q) \<Longrightarrow> pa_opts q = pa_opts p"
  by (auto simp: pa_ext_def dest: es_keepsD)

lemma ok_finish_object:
  assumes "unat addr + length contents < 2 ^ 64"
  shows "es_keeps ok_step (finish_object addr contents off flds)"
proof (rule es_keepsI, unfold ok_step_def, rule impI)
  fix p x q assume run: "finish_object addr contents off flds p = Inr (x, q)" and p: "parser_ok p"
  let ?warn = "if \<not> pa_have_params p then
         pa_warn (Fmt ''object record before params; pointer decoding skipped'' [])
       else es_return ()"
  let ?dec = "\<lambda>k. if pa_have_params p then
      decode_pointers contents flds 0 (Fmt ''object 0x%x'' [FU addr]) k else es_return ([], [])"
  from run obtain u p4 r p5 where warn: "?warn p = Inr (u, p4)"
    and dec: "?dec (po_keep_offsets (pa_opts p4)) p4 = Inr (r, p5)"
    and up: "(case r of (pointers, offsets) \<Rightarrow>
      (es_update (store_object addr contents off flds pointers offsets) :: (parser, unit) es)) p5 = Inr (x, q)"
    unfolding finish_object_def es_bind_get es_bind_Inr by blast
  have q: "q = store_object addr contents off flds (fst r) (snd r) p5"
    using up by (cases r) simp
  have "es_keeps ok_step ?warn" by (intro es_keeps_intros)
  from ok_run [OF this warn p] have p4: "parser_ok p4" .
  have "es_keeps ok_step (?dec k)" for k by (intro es_keeps_intros)
  from ok_run [OF this dec p4] have p5: "parser_ok p5" .
  have "es_keeps pa_ext (?dec k)" for k by (intro es_keeps_intros)
  from opts_run [OF this dec] have opts: "pa_opts p5 = pa_opts p4" .
  have "length (snd r) = (if po_keep_offsets (pa_opts p5) then length (fst r) else 0)"
    using dec unfolding opts
    by (cases r) (auto split: if_splits dest: decode_pointers_parallel)
  then show "parser_ok q" unfolding q by (rule ok_store_object [OF p5 assms])
qed

lemma ok_parse_object: "es_keeps ok_step parse_object"
  unfolding parse_object_def
proof (rule ok.keeps_bind [OF ok_rd_field], rule ok.keeps_bind_result [OF ok_rd_field,
      where P = "\<lambda>(contents, _). length contents < 2 ^ 63"])
  show "case x of (contents, _) \<Rightarrow> length contents < 2 ^ 63"
    if "rd_field ''object contents'' bytes_with_file_offset s = Inr (x, t)" for x s t
    using that bytes_with_file_offset_length(1)
    by (cases x) (auto simp: rd_field_def from_reader_def es_zoom_Inr)
next
  fix addr :: u64 and x :: "byte list \<times> i64"
  assume len: "case x of (contents, _) \<Rightarrow> length contents < 2 ^ 63"
  obtain contents off where x: "x = (contents, off)" by fastforce
  have u: "unat (of_nat (length contents) :: u64) = length contents"
    using len by (simp add: x unsigned_of_nat take_bit_nat_eq_self)
  have "es_keeps ok_step (if of_nat (length contents) > max_uint64 - addr then
       es_fail (Errorf (Fmt ''object address range overflows uint64'' []))
     else finish_object addr contents off flds)" for flds
    by (cases "2 ^ 64 \<le> unat addr + length contents")
      (simp_all add: carry_iff u ok.keeps_fail ok_finish_object)
  then show "es_keeps ok_step (case x of (contents, off) \<Rightarrow>
      es_bind (rd_field ''object fields'' field_list) (\<lambda>flds.
        if of_nat (length contents) > max_uint64 - addr then
          es_fail (Errorf (Fmt ''object address range overflows uint64'' []))
        else finish_object addr contents off flds))"
    unfolding x prod.case by (intro ok.keeps_bind ok_rd_field)
qed

text \<open>The data and bss segments.\<close>

lemma ok_add_segment:
  assumes "parser_ok p" "kind = ''data'' \<or> kind = ''bss''" "segment_ok seg"
    "length (ds_pointer_addrs seg) = length targets"
  shows "parser_ok (p\<lparr>pa_snap := add_segment kind seg (add_roots kind targets slots (pa_snap p))\<rparr>)"
  using assms by (auto simp: ok_defs add_segment_def add_roots_def)

lemma ok_add_segment_only:
  assumes "parser_ok p" "kind = ''data'' \<or> kind = ''bss''" "segment_ok seg" "ds_pointer_addrs seg = []"
  shows "parser_ok (p\<lparr>pa_snap := add_segment kind seg (pa_snap p)\<rparr>)"
  using assms by (auto simp: ok_defs add_segment_def)

lemma ok_finish_segment:
  assumes kind: "kind = ''data'' \<or> kind = ''bss''"
  shows "es_keeps ok_step (finish_segment kind addr contents flds)"
proof (rule es_keepsI, unfold ok_step_def, rule impI)
  fix p x q assume run: "finish_segment kind addr contents flds p = Inr (x, q)" and p: "parser_ok p"
  show "parser_ok q"
  proof (cases "pa_have_params p")
    case False
    with run have "q = p\<lparr>pa_snap := add_segment kind \<lparr>ds_kind = kind, ds_addr = addr,
        ds_size = of_nat (length contents), ds_fields = flds,
        ds_pointer_addrs = [], ds_pointer_slots = []\<rparr> (pa_snap p)\<rparr>"
      by (auto simp: finish_segment_def es_bind_get es_bind_Inr upd_snap_def)
    then show ?thesis
      by (simp only:) (rule ok_add_segment_only [OF p kind]; simp add: segment_ok_def)
  next
    case True
    with run obtain r p1 where
      dec: "decode_pointers contents flds addr (Fmt ''%s 0x%x'' [FS kind, FU addr]) True p = Inr (r, p1)"
      and q: "q = p1\<lparr>pa_snap := add_segment kind \<lparr>ds_kind = kind, ds_addr = addr,
        ds_size = of_nat (length contents), ds_fields = flds,
        ds_pointer_addrs = fst r, ds_pointer_slots = snd r\<rparr>
          (add_roots kind (fst r) (snd r) (pa_snap p1))\<rparr>"
      by (auto simp: finish_segment_def es_bind_get es_bind_Inr upd_snap_def)
    have "parser_ok p1" using ok_run [OF ok_decode_pointers dec p] .
    moreover have "length (snd r) = length (fst r)"
      using dec by (cases r) (auto dest: decode_pointers_parallel)
    ultimately show ?thesis
      unfolding q by (intro ok_add_segment) (use kind in \<open>simp_all add: segment_ok_def\<close>)
  qed
qed

lemma ok_parse_data_like:
  "kind = ''data'' \<or> kind = ''bss'' \<Longrightarrow> es_keeps ok_step (parse_data_like kind)"
  unfolding parse_data_like_def by (intro es_keeps_intros ok_finish_segment)

text \<open>Stack frames.\<close>

lemma ok_store_frame:
  "frame_ok f \<Longrightarrow> es_keeps ok_step (store_frame name sp f)"
  by (rule es_keepsI)
    (auto simp: store_frame_def es_bind_Inr upd_snap_def ok_step_def frame_ok_def
      intro: ok_run [OF ok_pa_warn] ok_add_frame split: option.splits)

lemma ok_frame_pointers:
  assumes "\<And>targets slots. length slots = length targets \<Longrightarrow> es_keeps ok_step (f targets slots)"
  shows "es_keeps ok_step (es_bind (if b then decode_pointers contents flds sp context True
      else es_return ([], [])) (\<lambda>(targets, slots). f targets slots))"
  by (rule ok.keeps_bind_result [where P = "\<lambda>(t, s). length s = length t"])
    (auto intro: es_keeps_intros assms dest: decode_pointers_parallel split: if_splits prod.splits)

lemma ok_parse_stack_frame: "es_keeps ok_step parse_stack_frame"
  unfolding parse_stack_frame_def
  by (intro ok.keeps_bind ok_rd_field ok.keeps_get ok_frame_pointers ok_store_frame)
    (simp add: frame_ok_def)

section \<open>The whole parse\<close>

lemma ok_record_parser: "record_parser tag = Some (name, rec) \<Longrightarrow> es_keeps ok_step rec"
  by (erule record_parser_cases)
    (simp_all add: ok_simple_records ok_parse_object ok_parse_data_like ok_parse_goroutine
      ok_parse_stack_frame)

lemma ok_parse_round: "es_keeps ok_step parse_round"
proof -
  have "es_keeps ok_step (parse_dispatch off tag)" for off tag
  proof (rule keeps_dispatch [OF ok.es_frame_axioms])
    show "es_keeps ok_step (es_update end_goroutine)"
      by (rule ok.keeps_update) (simp add: ok_defs end_goroutine_def)
    show "es_keeps ok_step (upd_snap (upd_stats (\<lambda>t. t\<lparr>ps_unknown_records := ps_unknown_records t + 1\<rparr>)))"
      by (rule ok_upd_snap) (simp add: ok_defs)
  qed (rule ok_pa_warn, rule ok_record_parser)
  moreover have "es_keeps ok_step parse_tag"
    by (auto simp: es_keeps_def parse_tag_Inr ok_step_def parser_ok_def)
  ultimately show ?thesis
    unfolding parse_round_def by (intro ok.keeps_bind ok.keeps_get)
qed

lemma parse_records_rel:
  assumes R: "es_frame R" and step: "es_keeps R parse_round"
  shows "parse_records p = Inr (x, q) \<Longrightarrow> R p q"
proof (induction p rule: parse_records.induct)
  case (1 p)
  then obtain go p1 where r: "parse_round p = Inr (go, p1)"
    by (auto simp: parse_records.simps [of p] split: sum.splits)
  have "R p p1" using es_keepsD [OF step r] .
  with 1 r show ?case
    by (cases go) (auto simp: parse_records.simps [of p] intro: es_frame.frame_trans [OF R])
qed

lemma ok_parse_records [es_keeps_intros]: "es_keeps ok_step parse_records"
  by (rule es_keepsI, rule parse_records_rel [OF ok.es_frame_axioms ok_parse_round])

lemma keeps_parse_records [es_keeps_intros]: "es_keeps pa_ext parse_records"
  by (rule es_keepsI, rule parse_records_rel [OF pa.es_frame_axioms], rule es_keepsI)
    (auto dest: parse_round_shorter)

lemma ok_parse_body: "es_keeps ok_step parse_body"
  unfolding parse_body_def parse_header_def
  by (intro es_keeps_intros ok_upd_snap) (simp add: ok_defs)

lemma keeps_parse_body: "es_keeps pa_ext parse_body"
  unfolding parse_body_def parse_header_def by (intro es_keeps_intros)

lemma parse_into_ok:
  assumes "parse_into src e opts tracker = Inr (s, v)"
  shows "snapshot_ok (with_defaults opts) s"
proof -
  let ?p = "new_parser src e (with_defaults opts) tracker"
  from assms obtain u q where run: "parse_body ?p = Inr (u, q)" and s: "s = pa_snap q"
    by (auto simp: parse_into_def parse_run_def split: sum.splits)
  have "parser_ok ?p"
    by (simp add: parser_ok_def snapshot_ok_def counts_ok_def records_ok_def new_parser_def
        empty_snapshot_def zero_parse_stats_def)
  then have "parser_ok q" by (rule ok_run [OF ok_parse_body run])
  moreover have "pa_opts q = with_defaults opts"
    using opts_run [OF keeps_parse_body run] by (simp add: new_parser_def)
  ultimately show ?thesis by (simp add: parser_ok_def s)
qed

section \<open>Bytes after the end of the dump\<close>

definition pa_more :: "byte list \<Rightarrow> go_error \<Rightarrow> parser \<Rightarrow> parser" where
  "pa_more ys en p = p\<lparr>pa_r := rd_more ys en (pa_r p)\<rparr>"

lemma pa_more_sel [simp]:
  "pa_snap (pa_more ys en p) = pa_snap p" "pa_opts (pa_more ys en p) = pa_opts p"
  "pa_have_params (pa_more ys en p) = pa_have_params p"
  "pa_big_endian (pa_more ys en p) = pa_big_endian p" "pa_cur_g (pa_more ys en p) = pa_cur_g p"
  "pa_tracker (pa_more ys en p) = pa_tracker p" "pa_r (pa_more ys en p) = rd_more ys en (pa_r p)"
  by (simp_all add: pa_more_def)

lemma stable_from_reader [es_stable_intros]:
  "es_stable (rd_more ys en) m \<Longrightarrow> es_stable (pa_more ys en) (from_reader m)"
  unfolding from_reader_def by (rule stable_zoom) (simp_all add: pa_more_def)

lemma stable_rd_field [es_stable_intros]:
  "es_stable (rd_more ys en) m \<Longrightarrow> es_stable (pa_more ys en) (rd_field w m)"
  unfolding rd_field_def by (intro es_stable_intros)

lemma stable_upd_snap [es_stable_intros]: "es_stable (pa_more ys en) (upd_snap f)"
  unfolding upd_snap_def by (intro es_stable_intros) (simp add: pa_more_def)

lemma stable_pa_warn [es_stable_intros]: "es_stable (pa_more ys en) (pa_warn msg)"
  unfolding pa_warn_def by (intro es_stable_intros) simp

lemma stable_skip_field [es_stable_intros]: "es_stable (pa_more ys en) (skip_field w)"
  unfolding skip_field_def by (intro es_stable_intros)

lemma stable_mem_stat [es_stable_intros]: "es_stable (pa_more ys en) (mem_stat w k)"
  unfolding mem_stat_def by (intro es_stable_intros)

lemma stable_finalizer_fields [es_stable_intros]: "es_stable (pa_more ys en) finalizer_fields"
  unfolding finalizer_fields_def by (intro es_stable_intros)

lemma stable_decode_pointers [es_stable_intros]:
  "es_stable (pa_more ys en) (decode_pointers contents flds base context ws)"
  unfolding decode_pointers_def by (intro es_stable_intros) simp_all

lemma stable_mem_prof_frame [es_stable_intros]: "es_stable (pa_more ys en) (mem_prof_frame i)"
  unfolding mem_prof_frame_def by (intro es_stable_intros)

lemma mem_prof_frames_more:
  "mem_prof_frames i n acc p = Inr (x, q) \<Longrightarrow>
    mem_prof_frames i n acc (pa_more ys en p) = Inr (x, pa_more ys en q)"
proof (induction i n acc p rule: mem_prof_frames.induct)
  case (1 i n acc p)
  show ?case
  proof (cases "i < n")
    case False
    with 1(2) show ?thesis
      by (auto simp: mem_prof_frames.simps [of i n acc p] mem_prof_frames.simps [of i n x])
  next
    case True
    with 1(2) obtain f p' where f: "mem_prof_frame i p = Inr (f, p')"
      by (auto simp: mem_prof_frames.simps [of i n acc p] split: sum.splits)
    with 1 True es_stableD [OF stable_mem_prof_frame f] show ?thesis
      by (simp add: mem_prof_frames.simps [of i n acc])
  qed
qed

lemma stable_mem_prof_frames [es_stable_intros]:
  "es_stable (pa_more ys en) (mem_prof_frames i n acc)"
  by (rule es_stableI) (rule mem_prof_frames_more)

lemma stable_store_object [es_stable_intros]:
  "es_stable (pa_more ys en) (es_update (store_object addr contents off flds pts offs))"
  by (rule stable_update) (simp add: store_object_def pa_more_def Let_def)

lemma stable_start_goroutine [es_stable_intros]:
  "es_stable (pa_more ys en) (es_update (start_goroutine g))"
  by (rule stable_update) (simp add: start_goroutine_def pa_more_def Let_def)

lemma stable_record_parser: "record_parser tag = Some (name, rec) \<Longrightarrow> es_stable (pa_more ys en) rec"
  by (erule record_parser_cases;
      unfold parse_params_def parse_type_def parse_object_def parse_other_root_def
        parse_finalizer_def parse_itab_def parse_os_thread_def parse_mem_stats_def
        parse_queued_finalizer_def parse_data_like_def parse_goroutine_def parse_stack_frame_def
        finish_object_def finish_segment_def store_frame_def parse_defer_def parse_panic_def
        parse_mem_prof_def parse_alloc_sample_def;
      intro es_stable_intros)
    (simp_all add: pa_more_def Let_def)

lemma stable_dispatch: "es_stable (pa_more ys en) (parse_dispatch off tag)"
proof (cases "record_parser tag")
  case None
  show ?thesis
    unfolding parse_dispatch_def None option.case
    by (intro es_stable_intros) (simp_all add: pa_more_def end_goroutine_def)
next
  case (Some a)
  then obtain name m where a: "a = (name, m)" "es_stable (pa_more ys en) m"
    using stable_record_parser by (cases a) blast
  show ?thesis
    unfolding parse_dispatch_def Some a(1) option.case prod.case
    by (intro es_stable_intros a(2)) (simp_all add: pa_more_def end_goroutine_def)
qed

lemma stable_parse_round: "es_stable (pa_more ys en) parse_round"
proof -
  have "es_stable (pa_more ys en) parse_tag"
    by (rule es_stableI)
      (auto simp: parse_tag_Inr pa_more_def dest: es_stableD [OF stable_uvarint])
  then show ?thesis
    unfolding parse_round_def by (intro es_stable_intros stable_dispatch) simp_all
qed

lemma parse_records_more:
  "parse_records p = Inr (x, q) \<Longrightarrow> parse_records (pa_more ys en p) = Inr (x, pa_more ys en q)"
proof (induction p rule: parse_records.induct)
  case (1 p)
  then obtain go p1 where r: "parse_round p = Inr (go, p1)"
    by (auto simp: parse_records.simps [of p] split: sum.splits)
  with 1 es_stableD [OF stable_parse_round r] show ?case
    by (cases go) (auto simp: parse_records.simps)
qed

lemma stable_parse_records [es_stable_intros]: "es_stable (pa_more ys en) parse_records"
  by (rule es_stableI) (rule parse_records_more)

lemma stable_parse_body: "es_stable (pa_more ys en) parse_body"
  unfolding parse_body_def parse_header_def by (intro es_stable_intros)

lemma new_parser_more:
  "new_parser (src @ ys) en opts tracker = pa_more ys en (new_parser src e opts tracker)"
  by (simp add: new_parser_def pa_more_def rd_more_def new_reader_def)

text \<open>
  A dump that was accepted after reading all of its bytes is rejected when its end is cut off.
\<close>

lemma parse_truncated:
  assumes run: "parse_body (new_parser src e opts tracker) = Inr ((), q)"
    and all: "rd_input (pa_r q) = []" and cut: "n < length src"
  shows "\<exists>err. parse_body (new_parser (take n src) en opts tracker) = Inl err"
proof (cases "parse_body (new_parser (take n src) en opts tracker)")
  case (Inr r)
  obtain u q' where r: "r = (u, q')" by (cases r)
  have "parse_body (pa_more (drop n src) e (new_parser (take n src) en opts tracker)) =
      Inr (u, pa_more (drop n src) e q')"
    using es_stableD [OF stable_parse_body Inr [unfolded r]] .
  then have "pa_more (drop n src) e q' = q"
    using run unfolding new_parser_more [symmetric] by simp
  then have "rd_input (pa_r q') @ drop n src = []" using all by auto
  then show ?thesis using cut by simp
qed simp

end
