(* ===== verification/ParserLazy.thy ===== *)
theory ParserLazy
  imports ParserInvariants
begin

text \<open>
  The lazy parse against the eager one. A run that keeps the contents and also tracks their
  offsets is projected to both: forgetting the contents gives the run of
  \<open>ParseLazyContents\<close>, forgetting the tracker gives the run of \<open>Parse\<close>. Reads through the
  resolver then return the bytes the eager parse keeps.
\<close>

section \<open>The two projections\<close>

definition drop_contents :: "heap_snapshot \<Rightarrow> heap_snapshot" where
  "drop_contents s = s\<lparr>hs_objects := map (ho_contents_update (\<lambda>_. [])) (hs_objects s)\<rparr>"

definition keep_contents :: "bool \<Rightarrow> parse_options \<Rightarrow> parse_options" where
  "keep_contents b opts = opts\<lparr>po_keep_contents := b\<rparr>"

definition pa_lazy :: "parser \<Rightarrow> parser" where
  "pa_lazy p = p\<lparr>pa_opts := keep_contents False (pa_opts p), pa_snap := drop_contents (pa_snap p)\<rparr>"

definition pa_untracked :: "parser \<Rightarrow> parser" where
  "pa_untracked p = p\<lparr>pa_tracker := None\<rparr>"

text \<open>Both leave alone everything a record parser looks at.\<close>

definition unseen :: "(parser \<Rightarrow> parser) \<Rightarrow> bool" where
  "unseen T \<longleftrightarrow>
     (\<forall>p. pa_r (T p) = pa_r p \<and> pa_have_params (T p) = pa_have_params p \<and>
        pa_big_endian (T p) = pa_big_endian p \<and> pa_cur_g (T p) = pa_cur_g p \<and>
        po_strict (pa_opts (T p)) = po_strict (pa_opts p) \<and>
        po_keep_offsets (pa_opts (T p)) = po_keep_offsets (pa_opts p) \<and>
        hs_params (pa_snap (T p)) = hs_params (pa_snap p) \<and>
        hs_goroutines (pa_snap (T p)) = hs_goroutines (pa_snap p) \<and>
        (\<forall>r. T (p\<lparr>pa_r := r\<rparr>) = T p\<lparr>pa_r := r\<rparr>) \<and>
        (\<forall>b c. T (p\<lparr>pa_have_params := b, pa_big_endian := c\<rparr>) =
           T p\<lparr>pa_have_params := b, pa_big_endian := c\<rparr>) \<and>
        (\<forall>g. T (p\<lparr>pa_cur_g := g\<rparr>) = T p\<lparr>pa_cur_g := g\<rparr>) \<and>
        (\<forall>f. (\<forall>s. hs_objects (f s) = hs_objects s \<and>
              (\<forall>obs. f (s\<lparr>hs_objects := obs\<rparr>) = f s\<lparr>hs_objects := obs\<rparr>)) \<longrightarrow>
           T (p\<lparr>pa_snap := f (pa_snap p)\<rparr>) = T p\<lparr>pa_snap := f (pa_snap (T p))\<rparr>) \<and>
        (\<forall>addr contents off flds pts offs.
           T (store_object addr contents off flds pts offs p) =
             store_object addr contents off flds pts offs (T p)))"

lemma unseen_lazy: "unseen pa_lazy"
  unfolding unseen_def
  by (auto simp: pa_lazy_def drop_contents_def keep_contents_def store_object_def Let_def upd_stats_def)

lemma unseen_untracked: "unseen pa_untracked"
  unfolding unseen_def
  by (auto simp: pa_untracked_def store_object_def Let_def upd_stats_def)

definition objects_free :: "(heap_snapshot \<Rightarrow> heap_snapshot) \<Rightarrow> bool" where
  "objects_free f \<longleftrightarrow> (\<forall>s. hs_objects (f s) = hs_objects s \<and>
     (\<forall>obs. f (s\<lparr>hs_objects := obs\<rparr>) = f s\<lparr>hs_objects := obs\<rparr>))"

lemma unseen_sel:
  assumes "unseen T"
  shows "pa_r (T p) = pa_r p" "pa_have_params (T p) = pa_have_params p"
    "pa_big_endian (T p) = pa_big_endian p" "pa_cur_g (T p) = pa_cur_g p"
    "po_strict (pa_opts (T p)) = po_strict (pa_opts p)"
    "po_keep_offsets (pa_opts (T p)) = po_keep_offsets (pa_opts p)"
    "hs_params (pa_snap (T p)) = hs_params (pa_snap p)"
    "hs_goroutines (pa_snap (T p)) = hs_goroutines (pa_snap p)"
    "T p\<lparr>pa_r := r\<rparr> = T (p\<lparr>pa_r := r\<rparr>)"
    "T p\<lparr>pa_have_params := b, pa_big_endian := c\<rparr> = T (p\<lparr>pa_have_params := b, pa_big_endian := c\<rparr>)"
    "T p\<lparr>pa_cur_g := g\<rparr> = T (p\<lparr>pa_cur_g := g\<rparr>)"
    "store_object addr contents off flds pts offs (T p) = T (store_object addr contents off flds pts offs p)"
  using assms unfolding unseen_def by simp_all

lemma unseen_snap:
  "unseen T \<Longrightarrow> objects_free f \<Longrightarrow> T p\<lparr>pa_snap := f (pa_snap (T p))\<rparr> = T (p\<lparr>pa_snap := f (pa_snap p)\<rparr>)"
  unfolding unseen_def objects_free_def by simp

lemma commutes_from_reader [es_commutes_intros]:
  "unseen T \<Longrightarrow> es_commutes T (from_reader m)"
  unfolding from_reader_def by (rule commutes_zoom) (simp_all add: unseen_sel)

lemma commutes_rd_field [es_commutes_intros]: "unseen T \<Longrightarrow> es_commutes T (rd_field w m)"
  unfolding rd_field_def by (intro es_commutes_intros)

lemma commutes_upd_snap [es_commutes_intros]:
  "unseen T \<Longrightarrow> objects_free f \<Longrightarrow> es_commutes T (upd_snap f)"
  unfolding upd_snap_def by (rule commutes_update) (simp add: unseen_snap)

lemma objects_free_stats: "objects_free (upd_stats f)"
  by (simp add: objects_free_def upd_stats_def)

lemma commutes_pa_warn [es_commutes_intros]: "unseen T \<Longrightarrow> es_commutes T (pa_warn msg)"
  unfolding pa_warn_def
  by (intro es_commutes_intros) (simp_all add: unseen_sel objects_free_def)

lemma commutes_skip_field [es_commutes_intros]: "unseen T \<Longrightarrow> es_commutes T (skip_field w)"
  unfolding skip_field_def by (intro es_commutes_intros)

lemma commutes_mem_stat [es_commutes_intros]: "unseen T \<Longrightarrow> es_commutes T (mem_stat w k)"
  unfolding mem_stat_def by (intro es_commutes_intros) (simp_all add: objects_free_def)

lemma commutes_finalizer_fields [es_commutes_intros]:
  "unseen T \<Longrightarrow> es_commutes T finalizer_fields"
  unfolding finalizer_fields_def by (intro es_commutes_intros)

lemma commutes_decode_pointers [es_commutes_intros]:
  "unseen T \<Longrightarrow> es_commutes T (decode_pointers contents flds base context ws)"
  unfolding decode_pointers_def
  by (intro es_commutes_intros) (simp_all add: unseen_sel objects_free_stats)

lemma commutes_mem_prof_frame: "unseen T \<Longrightarrow> es_commutes T (mem_prof_frame i)"
  unfolding mem_prof_frame_def by (intro es_commutes_intros)

lemma mem_prof_frames_commutes:
  assumes "unseen T"
  shows "mem_prof_frames i n acc (T p) = map_sum id (map_prod id T) (mem_prof_frames i n acc p)"
proof (induction i n acc p rule: mem_prof_frames.induct)
  case (1 i n acc p)
  have step: "mem_prof_frame i (T p) = map_sum id (map_prod id T) (mem_prof_frame i p)"
    using commutes_mem_prof_frame [OF assms] by (rule es_commutesD)
  show ?case
  proof (cases "mem_prof_frame i p")
    case (Inl e)
    then show ?thesis using step by (simp add: mem_prof_frames.simps [of i n acc])
  next
    case (Inr r)
    then show ?thesis using step 1
      by (cases r) (auto simp: mem_prof_frames.simps [of i n acc])
  qed
qed

lemma commutes_mem_prof_frames [es_commutes_intros]:
  "unseen T \<Longrightarrow> es_commutes T (mem_prof_frames i n acc)"
  by (simp add: es_commutes_def mem_prof_frames_commutes)

lemma commutes_store_object [es_commutes_intros]:
  "unseen T \<Longrightarrow> es_commutes T (es_update (store_object addr contents off flds pts offs))"
  by (rule commutes_update) (simp add: unseen_sel)

lemma commutes_start_goroutine [es_commutes_intros]:
  assumes "unseen T"
  shows "es_commutes T (es_update (start_goroutine g))"
proof (rule commutes_update)
  fix p
  let ?f = "\<lambda>s. upd_stats (\<lambda>t. t\<lparr>ps_goroutine_count := ps_goroutine_count t + 1\<rparr>)
    (s\<lparr>hs_goroutines := hs_goroutines s @ [g]\<rparr>)"
  have "T p\<lparr>pa_snap := ?f (pa_snap (T p))\<rparr> = T (p\<lparr>pa_snap := ?f (pa_snap p)\<rparr>)"
    by (rule unseen_snap [OF assms]) (simp add: objects_free_def upd_stats_def)
  then show "start_goroutine g (T p) = T (start_goroutine g p)"
    unfolding start_goroutine_def Let_def
    by (simp add: unseen_sel [OF assms])
qed

lemma objects_free_add:
  "objects_free (add_roots kind targets slots)" "objects_free (add_segment kind seg)"
  by (simp_all add: objects_free_def upd_stats_def add_roots_def add_segment_def)

lemma commutes_record_parser:
  assumes "record_parser tag = Some (name, rec)" and T: "unseen T"
  shows "es_commutes T rec"
  using assms(1)
  by (rule record_parser_cases;
      unfold parse_params_def parse_type_def parse_object_def parse_other_root_def
        parse_finalizer_def parse_itab_def parse_os_thread_def parse_mem_stats_def
        parse_queued_finalizer_def parse_data_like_def parse_goroutine_def parse_stack_frame_def
        finish_object_def finish_segment_def store_frame_def parse_defer_def parse_panic_def
        parse_mem_prof_def parse_alloc_sample_def;
      intro es_commutes_intros T)
    (simp_all add: T unseen_sel objects_free_stats objects_free_add,
     (simp_all add: objects_free_def upd_stats_def add_frame_def Let_def)?)

lemma commutes_dispatch: "unseen T \<Longrightarrow> es_commutes T (parse_dispatch off tag)"
proof (cases "record_parser tag")
  case None
  show "unseen T \<Longrightarrow> es_commutes T (parse_dispatch off tag)"
    unfolding parse_dispatch_def None option.case
    by (intro es_commutes_intros) (simp_all add: end_goroutine_def unseen_sel objects_free_stats)
next
  case (Some a)
  assume T: "unseen T"
  from Some T obtain name m where a: "a = (name, m)" "es_commutes T m"
    using commutes_record_parser by (cases a) blast
  show ?thesis
    unfolding parse_dispatch_def Some a(1) option.case prod.case
    by (intro es_commutes_intros a(2) T) (simp_all add: end_goroutine_def unseen_sel T)
qed

lemma commutes_parse_round: "unseen T \<Longrightarrow> es_commutes T parse_round"
proof -
  assume T: "unseen T"
  have "es_commutes T parse_tag"
    by (auto simp: es_commutes_def parse_tag_def Let_def unseen_sel [OF T] split: sum.splits)
  then show ?thesis
    unfolding parse_round_def
    by (intro es_commutes_intros commutes_dispatch T) (simp_all add: unseen_sel T)
qed

lemma parse_records_commutes:
  assumes "unseen T"
  shows "parse_records (T p) = map_sum id (map_prod id T) (parse_records p)"
proof (induction p rule: parse_records.induct)
  case (1 p)
  have step: "parse_round (T p) = map_sum id (map_prod id T) (parse_round p)"
    using commutes_parse_round [OF assms] by (rule es_commutesD)
  show ?case
  proof (cases "parse_round p")
    case (Inl e)
    then show ?thesis using step by (simp add: parse_records.simps)
  next
    case (Inr r)
    then show ?thesis using step 1
      by (cases r) (auto simp: parse_records.simps [of "T p"] parse_records.simps [of p])
  qed
qed

lemma commutes_parse_body: "unseen T \<Longrightarrow> es_commutes T parse_body"
proof -
  assume T: "unseen T"
  have "es_commutes T parse_records"
    by (simp add: es_commutes_def parse_records_commutes T)
  then show ?thesis
    unfolding parse_body_def parse_header_def
    by (intro es_commutes_intros T) (simp add: objects_free_def)
qed

text \<open>
  The lazy parse yields the snapshot of the eager one without the contents, or the same error.
\<close>

lemma parse_lazy_snapshot:
  "map_sum id fst (parse_lazy_contents src e (Some f) opts) =
     map_sum id drop_contents (parse src e (keep_contents True opts))"
proof -
  let ?opts = "with_defaults (keep_contents True opts)"
  let ?full = "new_parser src e ?opts (Some (new_resolver (Some f)))"
  have lazy: "new_parser src e (with_defaults (opts\<lparr>po_keep_contents := False\<rparr>))
      (Some (new_resolver (Some f))) = pa_lazy ?full"
    by (simp add: new_parser_def pa_lazy_def keep_contents_def with_defaults_def drop_contents_def
        empty_snapshot_def)
  have eager: "new_parser src e ?opts None = pa_untracked ?full"
    by (simp add: new_parser_def pa_untracked_def)
  show ?thesis
    unfolding parse_lazy_contents_def parse_def parse_into_def parse_run_def lazy eager option.case
      es_commutesD [OF commutes_parse_body [OF unseen_lazy]]
      es_commutesD [OF commutes_parse_body [OF unseen_untracked]]
    by (cases "parse_body ?full")
      (auto simp: pa_lazy_def pa_untracked_def split: prod.splits)
qed

section \<open>The offsets that are tracked\<close>

definition tracked_ok :: "byte list \<Rightarrow> parser \<Rightarrow> bool" where
  "tracked_ok src p \<longleftrightarrow>
     rd_input (pa_r p) = drop (unat (rd_offset (pa_r p))) src \<and>
     unat (rd_offset (pa_r p)) \<le> length src \<and>
     (\<exists>v. pa_tracker p = Some v \<and> cv_src v = Some (bytes_read_at src) \<and>
        cv_by_addr v = Map.empty \<and> po_keep_contents (pa_opts p) \<and>
        list_all2 (\<lambda>r ob. cr_addr r = ho_addr ob \<and> cr_length r = ho_size ob \<and>
            ref_within r src \<and> ref_bytes r src = ho_contents ob)
          (cv_refs v) (filter (\<lambda>ob. ho_contents ob \<noteq> []) (hs_objects (pa_snap p))))"

definition tracked_step :: "byte list \<Rightarrow> parser \<Rightarrow> parser \<Rightarrow> bool" where
  "tracked_step src p q \<longleftrightarrow> (tracked_ok src p \<longrightarrow> tracked_ok src q)"

interpretation tracked: es_frame "tracked_step src" for src
  by unfold_locales (auto simp: tracked_step_def)

lemma tracked_from_reader:
  assumes src: "length src < 2 ^ 63" and m: "es_keeps rd_ext m"
  shows "es_keeps (tracked_step src) (from_reader m)"
proof (rule es_keepsI, unfold tracked_step_def, rule impI)
  fix p x q assume run: "from_reader m p = Inr (x, q)" and ok: "tracked_ok src p"
  then obtain r where r: "m (pa_r p) = Inr (x, r)" "q = p\<lparr>pa_r := r\<rparr>"
    by (auto simp: from_reader_def es_zoom_Inr)
  let ?o = "unat (rd_offset (pa_r p))"
  from es_keepsD [OF m r(1)] obtain bs where bs: "rd_input (pa_r p) = bs @ rd_input r"
    "rd_offset r = rd_offset (pa_r p) + of_nat (length bs)"
    by (auto simp: rd_ext_def)
  from ok have inp: "rd_input (pa_r p) = drop ?o src" "?o \<le> length src"
    by (auto simp: tracked_ok_def)
  then have len: "?o + length bs \<le> length src"
    using bs(1) by (metis add_le_cancel_left length_append length_drop le_add1 le_add_diff_inverse)
  have "unat (of_nat (length bs) :: i64) = length bs"
    using len src by (simp add: unsigned_of_nat take_bit_nat_eq_self)
  then have off: "unat (rd_offset r) = ?o + length bs"
    unfolding bs(2) using len src by (subst unat_add_no_carry) simp_all
  have "rd_input r = drop (length bs) (rd_input (pa_r p))" by (simp add: bs(1))
  then have "rd_input r = drop (unat (rd_offset r)) src"
    unfolding inp off by (simp add: add.commute)
  then show "tracked_ok src q" using ok off len by (auto simp: tracked_ok_def r(2))
qed

lemma tracked_rd_field:
  "length src < 2 ^ 63 \<Longrightarrow> es_keeps rd_ext m \<Longrightarrow> es_keeps (tracked_step src) (rd_field w m)"
  unfolding rd_field_def by (intro tracked.keeps_wrap tracked_from_reader)

lemma tracked_upd_snap: "objects_free f \<Longrightarrow> es_keeps (tracked_step src) (upd_snap f)"
  unfolding upd_snap_def objects_free_def
  by (rule tracked.keeps_update) (simp add: tracked_step_def tracked_ok_def)

lemma tracked_pa_warn: "es_keeps (tracked_step src) (pa_warn msg)"
proof -
  have "es_keeps (tracked_step src) (upd_snap (\<lambda>s. s\<lparr>hs_warnings := hs_warnings s @ [msg]\<rparr>))"
    by (rule tracked_upd_snap) (simp add: objects_free_def)
  then show ?thesis
    unfolding pa_warn_def by (intro tracked.keeps_if_fun) (auto dest: es_keepsD)
qed

lemma tracked_decode_pointers:
  "es_keeps (tracked_step src) (decode_pointers contents flds base context ws)"
  unfolding decode_pointers_def
  by (intro tracked.keeps_bind tracked.keeps_get tracked.keeps_each tracked.keeps_return
      tracked_pa_warn tracked_upd_snap objects_free_stats)

definition located :: "byte list \<Rightarrow> u64 \<Rightarrow> i64 \<Rightarrow> byte list \<Rightarrow> bool" where
  "located src addr off contents \<longleftrightarrow>
     unat off + length contents \<le> length src \<and> length src < 2 ^ 63 \<and>
     contents = take (length contents) (drop (unat off) src) \<and>
     unat addr + length contents < 2 ^ 64"

lemma tracked_store_object:
  assumes ok: "tracked_ok src p" and loc: "located src addr off contents"
  shows "tracked_ok src (store_object addr contents off flds pts offs p)"
proof (cases "contents = []")
  case True
  then show ?thesis
    using ok by (auto simp: tracked_ok_def store_object_def Let_def upd_stats_def)
next
  case False
  have len: "unat (of_nat (length contents) :: u64) = length contents"
    using loc by (simp add: located_def unsigned_of_nat take_bit_nat_eq_self)
  from ok obtain v where v: "pa_tracker p = Some v" by (auto simp: tracked_ok_def)
  show ?thesis
    using ok loc False v
    by (auto simp: tracked_ok_def store_object_def Let_def upd_stats_def resolver_record_def
        located_def ref_within_def ref_bytes_def len intro!: list_all2_appendI)
qed

lemma tracked_finish_object:
  assumes "located src addr off contents"
  shows "es_keeps (tracked_step src) (finish_object addr contents off flds)"
  unfolding finish_object_def
  by (intro tracked.keeps_bind tracked.keeps_get tracked.keeps_if tracked.keeps_return
      tracked.keeps_prod tracked_pa_warn tracked_decode_pointers tracked.keeps_update)
    (simp add: tracked_step_def tracked_store_object assms)

lemma tracked_parse_object:
  assumes src: "length src < 2 ^ 63"
  shows "es_keeps (tracked_step src) parse_object"
proof (rule es_keepsI, unfold tracked_step_def, rule impI)
  fix p x q assume run: "parse_object p = Inr (x, q)" and ok: "tracked_ok src p"
  from run obtain addr p1 r p2 where
    a: "rd_field ''object addr'' uvarint p = Inr (addr, p1)"
    and c: "rd_field ''object contents'' bytes_with_file_offset p1 = Inr (r, p2)"
    and rest: "(case r of (contents, off) \<Rightarrow>
      es_bind (rd_field ''object fields'' field_list) (\<lambda>flds.
        if of_nat (length contents) > max_uint64 - addr then
          es_fail (Errorf (Fmt ''object address range overflows uint64'' []))
        else finish_object addr contents off flds)) p2 = Inr (x, q)"
    unfolding parse_object_def es_bind_Inr by blast
  obtain contents off where r: "r = (contents, off)" by (cases r)
  have p1: "tracked_ok src p1"
    using es_keepsD [OF tracked_rd_field [OF src keeps_uvarint] a] ok by (simp add: tracked_step_def)
  have p2: "tracked_ok src p2"
    using es_keepsD [OF tracked_rd_field [OF src keeps_bytes_with_file_offset] c] p1
    by (simp add: tracked_step_def)
  let ?o = "unat (rd_offset (pa_r p1))"
  from c obtain rd2 where c': "bytes_with_file_offset (pa_r p1) = Inr ((contents, off), rd2)"
    by (auto simp: rd_field_def from_reader_def es_zoom_Inr r)
  from bytes_with_file_offset_bytes [OF this] obtain pre where
    pre: "rd_input (pa_r p1) = pre @ contents @ rd_input rd2"
      "off = rd_offset (pa_r p1) + of_nat (length pre)" by blast
  have inp: "rd_input (pa_r p1) = drop ?o src" "?o \<le> length src"
    using p1 by (auto simp: tracked_ok_def)
  have "length (drop ?o src) = length pre + length contents + length (rd_input rd2)"
    using pre(1) inp(1) by simp
  then have len: "?o + length pre + length contents \<le> length src" using inp(2) by simp
  have "unat (of_nat (length pre) :: i64) = length pre"
    using len src by (simp add: unsigned_of_nat take_bit_nat_eq_self)
  then have off: "unat off = ?o + length pre"
    unfolding pre(2) using len src by (subst unat_add_no_carry) simp_all
  have "drop (unat off) src = contents @ rd_input rd2"
    using pre(1) unfolding inp(1) off by (metis add.commute append_eq_conv_conj drop_drop)
  then have at: "contents = take (length contents) (drop (unat off) src)" by simp
  have "tracked_step src p2 q"
  proof (cases "of_nat (length contents) > max_uint64 - addr")
    case True
    with rest show ?thesis by (auto simp: r es_bind_Inr)
  next
    case False
    have "unat (of_nat (length contents) :: u64) = length contents"
      using len src by (simp add: unsigned_of_nat take_bit_nat_eq_self)
    with False have "unat addr + length contents < 2 ^ 64" by (simp add: carry_iff)
    then have "located src addr off contents"
      unfolding located_def using len src off at by simp
    then have "es_keeps (tracked_step src) (es_bind (rd_field ''object fields'' field_list) (\<lambda>flds.
        if of_nat (length contents) > max_uint64 - addr then
          es_fail (Errorf (Fmt ''object address range overflows uint64'' []))
        else finish_object addr contents off flds))"
      by (intro tracked.keeps_bind tracked.keeps_if tracked.keeps_fail tracked_rd_field src
          keeps_field_list tracked_finish_object)
    from es_keepsD [OF this] rest show ?thesis by (simp add: r)
  qed
  with p2 show "tracked_ok src q" by (simp add: tracked_step_def)
qed

lemma tracked_mem_prof_frames:
  assumes "length src < 2 ^ 63"
  shows "es_keeps (tracked_step src) (mem_prof_frames i n acc)"
proof -
  have "es_keeps (tracked_step src) (mem_prof_frame i)" for i
    unfolding mem_prof_frame_def
    by (intro tracked.keeps_bind tracked.keeps_wrap_msg tracked.keeps_return
        tracked_from_reader assms keeps_read_string keeps_uvarint)
  then show ?thesis
    by (auto intro: es_keepsI mem_prof_frames_rel [OF tracked.es_frame_axioms])
qed

lemma tracked_record_parser:
  assumes "record_parser tag = Some (name, rec)" and src: "length src < 2 ^ 63"
  shows "es_keeps (tracked_step src) rec"
proof -
  note rules = tracked.keeps_bind tracked.keeps_wrap_msg tracked.keeps_return tracked.keeps_if
    tracked.keeps_fail tracked.keeps_get tracked.keeps_prod tracked.keeps_option
    tracked.keeps_each tracked.keeps_update
    tracked_from_reader [OF src] tracked_rd_field [OF src] tracked_upd_snap tracked_pa_warn
    tracked_decode_pointers tracked_mem_prof_frames [OF src]
    keeps_uvarint keeps_read_bool keeps_read_string keeps_read_bytes keeps_field_list
  show ?thesis
    by (rule record_parser_cases [OF assms(1)];
        (rule tracked_parse_object [OF src] |
         (unfold parse_params_def parse_type_def parse_other_root_def
            parse_finalizer_def finalizer_fields_def parse_itab_def parse_os_thread_def
            parse_mem_stats_def mem_stat_def parse_queued_finalizer_def parse_data_like_def
            parse_goroutine_def parse_stack_frame_def finish_segment_def store_frame_def
            parse_defer_def parse_panic_def skip_field_def parse_mem_prof_def parse_alloc_sample_def,
          intro rules)))
      (simp_all add: objects_free_stats objects_free_add,
       (simp_all add: tracked_step_def tracked_ok_def start_goroutine_def objects_free_def
          upd_stats_def add_frame_def Let_def)?)
qed

lemma tracked_parse_body:
  assumes src: "length src < 2 ^ 63"
  shows "es_keeps (tracked_step src) parse_body"
proof -
  have "es_keeps (tracked_step src) (parse_dispatch off tag)" for off tag
  proof (rule keeps_dispatch [OF tracked.es_frame_axioms])
    show "es_keeps (tracked_step src) (es_update end_goroutine)"
      by (rule tracked.keeps_update) (simp add: tracked_step_def tracked_ok_def end_goroutine_def)
  qed (auto intro: tracked_upd_snap objects_free_stats tracked_pa_warn tracked_record_parser src)
  moreover have "es_keeps (tracked_step src) parse_tag"
  proof (rule es_keepsI)
    fix p tag q assume "parse_tag p = Inr (tag, q)"
    then have "from_reader uvarint p = Inr (tag, q)"
      by (auto simp: parse_tag_Inr from_reader_def es_zoom_Inr)
    then show "tracked_step src p q"
      by (rule es_keepsD [OF tracked_from_reader [OF src keeps_uvarint]])
  qed
  ultimately have "es_keeps (tracked_step src) parse_round"
    unfolding parse_round_def by (intro tracked.keeps_bind tracked.keeps_get)
  then have "es_keeps (tracked_step src) parse_records"
    by (auto intro: es_keepsI parse_records_rel [OF tracked.es_frame_axioms])
  then show ?thesis
    unfolding parse_body_def parse_header_def
    by (intro tracked.keeps_bind tracked.keeps_if tracked.keeps_fail tracked_rd_field
        tracked_from_reader tracked_upd_snap src keeps_rd_poll keeps_read_line)
      (simp_all add: objects_free_def)
qed

section \<open>Reads through the resolver\<close>

lemma parse_lazy_read:
  assumes lazy: "parse_lazy_contents src e (Some (bytes_read_at src)) opts = Inr (s, v)"
    and eager: "parse src e (keep_contents True opts) = Inr full"
    and src: "length src < 2 ^ 63" and dis: "objects_disjoint (hs_objects full)" and n: "0 < n"
  shows "resolver_read (Some v) a n = Some bs \<longleftrightarrow>
    a \<noteq> 0 \<and> (\<exists>ob \<in> set (hs_objects full). object_holds ob a n \<and> bs = object_slice ob a n)"
proof -
  let ?opts = "with_defaults (keep_contents True opts)"
  let ?full = "new_parser src e ?opts (Some (new_resolver (Some (bytes_read_at src))))"
  have lazy_p: "new_parser src e (with_defaults (opts\<lparr>po_keep_contents := False\<rparr>))
      (Some (new_resolver (Some (bytes_read_at src)))) = pa_lazy ?full"
    by (simp add: new_parser_def pa_lazy_def keep_contents_def with_defaults_def drop_contents_def
        empty_snapshot_def)
  have eager_p: "new_parser src e ?opts None = pa_untracked ?full"
    by (simp add: new_parser_def pa_untracked_def)
  from eager obtain u q where run: "parse_body ?full = Inr (u, q)" and q: "full = pa_snap q"
    unfolding parse_def parse_into_def parse_run_def eager_p
      es_commutesD [OF commutes_parse_body [OF unseen_untracked]]
    by (cases "parse_body ?full") (auto simp: pa_untracked_def)
  have tr: "tracked_ok src ?full"
    by (simp add: tracked_ok_def new_parser_def new_reader_def new_resolver_def empty_snapshot_def
        with_defaults_def keep_contents_def)
  from es_keepsD [OF tracked_parse_body [OF src] run] tr have "tracked_ok src q"
    by (simp add: tracked_step_def)
  then obtain w where w: "pa_tracker q = Some w" "cv_src w = Some (bytes_read_at src)"
    "cv_by_addr w = Map.empty"
    and refs: "list_all2 (\<lambda>r ob. cr_addr r = ho_addr ob \<and> cr_length r = ho_size ob \<and>
        ref_within r src \<and> ref_bytes r src = ho_contents ob)
      (cv_refs w) (filter (\<lambda>ob. ho_contents ob \<noteq> []) (hs_objects full))"
    unfolding tracked_ok_def q by blast
  from lazy run w(1) have v: "v = resolver_finalize w"
    unfolding parse_lazy_contents_def parse_into_def parse_run_def lazy_p option.case
      es_commutesD [OF commutes_parse_body [OF unseen_lazy]]
    by (auto simp: pa_lazy_def)
  let ?obs = "filter (\<lambda>ob. ho_contents ob \<noteq> []) (hs_objects full)"
  have within: "ref_within r src" if "r \<in> set (cv_refs w)" for r
    using list_all2_set1 [OF refs that] by blast
  have addrs: "map cr_addr (cv_refs w) = map ho_addr ?obs"
    using refs by (auto simp: list_all2_conv_all_nth intro: nth_equalityI)
  have ref_ob: "\<exists>ob \<in> set ?obs. cr_addr r = ho_addr ob \<and> cr_length r = ho_size ob \<and>
      ref_bytes r src = ho_contents ob" if "r \<in> set (cv_refs w)" for r
    using list_all2_set1 [OF refs that] by blast
  have ob_ref: "\<exists>r \<in> set (cv_refs w). cr_addr r = ho_addr ob \<and> cr_length r = ho_size ob \<and>
      ref_bytes r src = ho_contents ob" if "ob \<in> set ?obs" for ob
    using list_all2_set2 [OF refs that] by blast
  have "refs_disjoint (cv_refs w)"
    unfolding refs_disjoint_def addrs
    using dis ref_ob unfolding objects_disjoint_def Let_def by metis
  from resolver_read_spec [OF w(2,3) within this n]
  have "resolver_read (Some v) a n = Some bs \<longleftrightarrow>
    a \<noteq> 0 \<and> (\<exists>r \<in> set (cv_refs w). ref_covers r a n \<and> bs = ref_slice src r a n)"
    by (simp add: v)
  also have "\<dots> \<longleftrightarrow> a \<noteq> 0 \<and> (\<exists>ob \<in> set ?obs. object_holds ob a n \<and> bs = object_slice ob a n)"
  proof -
    have same: "ref_covers r a n = object_holds ob a n" "ref_slice src r a n = object_slice ob a n"
      if "cr_addr r = ho_addr ob \<and> cr_length r = ho_size ob \<and> ref_bytes r src = ho_contents ob"
      for r ob
      using that by (simp_all add: ref_covers_def object_holds_def ref_slice_def object_slice_def)
    have "(\<exists>r \<in> set (cv_refs w). ref_covers r a n \<and> bs = ref_slice src r a n) \<longleftrightarrow>
        (\<exists>ob \<in> set ?obs. object_holds ob a n \<and> bs = object_slice ob a n)"
    proof
      assume "\<exists>r \<in> set (cv_refs w). ref_covers r a n \<and> bs = ref_slice src r a n"
      then obtain r where r: "r \<in> set (cv_refs w)" "ref_covers r a n" "bs = ref_slice src r a n"
        by blast
      obtain ob where ob: "ob \<in> set ?obs" and
        eq: "cr_addr r = ho_addr ob \<and> cr_length r = ho_size ob \<and> ref_bytes r src = ho_contents ob"
        using ref_ob [OF r(1)] by blast
      have "object_holds ob a n \<and> bs = object_slice ob a n" using r same [OF eq] by simp
      then show "\<exists>ob \<in> set ?obs. object_holds ob a n \<and> bs = object_slice ob a n"
        by (rule bexI) (rule ob)
    next
      assume "\<exists>ob \<in> set ?obs. object_holds ob a n \<and> bs = object_slice ob a n"
      then obtain ob where ob: "ob \<in> set ?obs" "object_holds ob a n" "bs = object_slice ob a n"
        by blast
      obtain r where r: "r \<in> set (cv_refs w)" and
        eq: "cr_addr r = ho_addr ob \<and> cr_length r = ho_size ob \<and> ref_bytes r src = ho_contents ob"
        using ob_ref [OF ob(1)] by blast
      have "ref_covers r a n \<and> bs = ref_slice src r a n" using ob same [OF eq] by simp
      then show "\<exists>r \<in> set (cv_refs w). ref_covers r a n \<and> bs = ref_slice src r a n"
        by (rule bexI) (rule r)
    qed
    then show ?thesis by simp
  qed
  also have "\<dots> \<longleftrightarrow> a \<noteq> 0 \<and> (\<exists>ob \<in> set (hs_objects full). object_holds ob a n \<and> bs = object_slice ob a n)"
  proof -
    have "ob \<in> set ?obs" if ob: "ob \<in> set (hs_objects full)" "object_holds ob a n" for ob
    proof -
      obtain tr where "parse_into src e (keep_contents True opts) None = Inr (full, tr)"
        using eager unfolding parse_def
        by (cases "parse_into src e (keep_contents True opts) None") auto
      from parse_into_ok [OF this] have "object_ok ?opts ob"
        using ob(1) by (simp add: snapshot_ok_def records_ok_def list_all_iff)
      then have "length (ho_contents ob) = unat (ho_size ob)"
        by (simp add: object_ok_def with_defaults_def keep_contents_def)
      moreover have "0 < unat n" using n by (simp add: unat_gt_0)
      then have "0 < unat (ho_size ob)"
        using ob(2) unfolding object_holds_def word_le_nat_alt by linarith
      ultimately show ?thesis using ob(1) by auto
    qed
    then show ?thesis by auto
  qed
  finally show ?thesis .
qed

end
