(* ===== verification/HeapLabelFacts.thy ===== *)
theory HeapLabelFacts
  imports HeapLabels ParserLazy
begin

text \<open>
  What label recovery guarantees: the eager memory serves exactly the contents of the objects,
  label maps written in the layout of the runtime are decoded, the limits bound what is decoded,
  and the statistics partition the goroutines.
\<close>

section \<open>The eager memory\<close>

lemma range_of_object_Some:
  "range_of_object ob = Some r \<longleftrightarrow>
    ho_contents ob \<noteq> [] \<and>
    unat (ho_addr ob) + unat (of_nat (length (ho_contents ob)) :: u64) < 2 ^ 64 \<and>
    r = \<lparr>mr_start = ho_addr ob, mr_end = ho_addr ob + of_nat (length (ho_contents ob)),
         mr_data = ho_contents ob, mr_kind = ''object''\<rparr>"
proof (cases "AddUint64 (ho_addr ob) (of_nat (length (ho_contents ob)))")
  case (Pair c ok)
  then show ?thesis
    using AddUint64_value [of "ho_addr ob" "of_nat (length (ho_contents ob))" c]
      AddUint64_None [of "ho_addr ob" "of_nat (length (ho_contents ob))" c]
    by (cases ok) (auto simp: range_of_object_def)
qed

lemma set_map_filter: "set (List.map_filter f xs) = {y. \<exists>x \<in> set xs. f x = Some y}"
  by (induction xs) (auto simp: map_filter_simps split: option.splits)

lemma memory_ranges:
  assumes "contents_sized obs"
  shows "r \<in> set (List.map_filter range_of_object obs) \<longleftrightarrow>
    (\<exists>ob \<in> set obs. ho_contents ob \<noteq> [] \<and> r = \<lparr>mr_start = ho_addr ob,
       mr_end = ho_addr ob + ho_size ob, mr_data = ho_contents ob, mr_kind = ''object''\<rparr>)"
  using assms by (auto simp: set_map_filter range_of_object_Some contents_sized_def)

text \<open>A non-empty read is served exactly when an object with retained contents holds the range.\<close>

lemma memory_read_exact:
  assumes dis: "objects_disjoint (hs_objects s)" and sized: "contents_sized (hs_objects s)" and n: "0 < n"
  shows "memory_read (Some (new_memory (Some s))) a n = Some bs \<longleftrightarrow>
    a \<noteq> 0 \<and> (\<exists>ob \<in> set (hs_objects s). ho_contents ob \<noteq> [] \<and> object_holds ob a n \<and> bs = object_slice ob a n)"
proof -
  define rs where "rs = sort_key mr_start (sort_key mr_end (List.map_filter range_of_object (hs_objects s)))"
  have sorted: "sorted (map mr_start rs)" by (simp add: rs_def)
  have rs: "r \<in> set rs \<longleftrightarrow> (\<exists>ob \<in> set (hs_objects s). ho_contents ob \<noteq> [] \<and> r = \<lparr>mr_start = ho_addr ob,
       mr_end = ho_addr ob + ho_size ob, mr_data = ho_contents ob, mr_kind = ''object''\<rparr>)" for r
    using memory_ranges [OF sized] by (simp add: rs_def)
  have read: "memory_read (Some (new_memory (Some s))) a n = Some bs \<longleftrightarrow>
      a \<noteq> 0 \<and> unat a + unat n < 2 ^ 64 \<and> memory_lookup rs a n (a + n) = Some bs"
    using n by (auto simp: memory_read_def new_memory_def rs_def guarded_Some)
  have fit: "unat a + unat n < 2 ^ 64" if "ob \<in> set (hs_objects s)" "ho_contents ob \<noteq> []" "object_holds ob a n" for ob
    using that sized by (auto simp: contents_sized_def object_holds_def)
  show ?thesis
  proof (cases "unat a + unat n < 2 ^ 64")
    case False
    with fit show ?thesis unfolding read by blast
  next
    case True
    let ?j = "sort_search (length rs) (\<lambda>i. mr_start (rs ! i) > a)"
    note last = search_last_le [OF sorted refl, where a = a]
    have holds: "object_holds ob a n \<longleftrightarrow> ho_addr ob \<le> a \<and> a + n \<le> ho_addr ob + ho_size ob"
      if "ob \<in> set (hs_objects s)" "ho_contents ob \<noteq> []" for ob
      using that sized True
      by (simp add: contents_sized_def object_holds_def word_le_nat_alt [of "a + n"] unat_add_no_carry)
    have unique: "ob = q"
      if ob: "ob \<in> set (hs_objects s)" "ho_contents ob \<noteq> []" "object_holds ob a n"
        and q: "q \<in> set (hs_objects s)" "ho_contents q \<noteq> []" "ho_addr q \<le> a" "ho_addr ob \<le> ho_addr q" for ob q
    proof (rule ccontr)
      assume "ob \<noteq> q"
      let ?full = "filter (\<lambda>ob. ho_contents ob \<noteq> []) (hs_objects s)"
      have in_full: "ob \<in> set ?full" "q \<in> set ?full" using ob q by simp_all
      have "inj_on ho_addr (set ?full)" using dis by (simp add: objects_disjoint_def distinct_map)
      with in_full \<open>ob \<noteq> q\<close> have "ho_addr ob \<noteq> ho_addr q" by (auto simp: inj_on_def)
      with q(4) have "ho_addr ob < ho_addr q" by simp
      with in_full dis have "unat (ho_addr ob) + unat (ho_size ob) \<le> unat (ho_addr q)"
        unfolding objects_disjoint_def Let_def by blast
      moreover have "0 < unat n" using n by (simp add: unat_gt_0)
      ultimately show False using ob(3) q(3) by (simp add: object_holds_def word_le_nat_alt)
    qed
    show ?thesis
    proof (cases "?j = 0")
      case True
      have "\<not> object_holds ob a n" if "ob \<in> set (hs_objects s)" "ho_contents ob \<noteq> []" for ob
      proof -
        from that rs obtain r where "r \<in> set rs" "mr_start r = ho_addr ob" by fastforce
        then obtain k where "k < length rs" "mr_start (rs ! k) = ho_addr ob" by (auto simp: in_set_conv_nth)
        with last(3) [of k] True show ?thesis by (auto simp: object_holds_def)
      qed
      with True show ?thesis unfolding read by (auto simp: memory_lookup_def)
    next
      case False
      let ?q = "rs ! (?j - 1)"
      have q: "?q \<in> set rs" "mr_start ?q \<le> a"
        using False last(1) last(2) [of "?j - 1"] by (auto intro!: nth_mem)
      then obtain p where p: "p \<in> set (hs_objects s)" "ho_contents p \<noteq> []"
        "?q = \<lparr>mr_start = ho_addr p, mr_end = ho_addr p + ho_size p, mr_data = ho_contents p,
          mr_kind = ''object''\<rparr>"
        using rs by blast
      have "ho_addr ob \<le> ho_addr p"
        if ob: "ob \<in> set (hs_objects s)" "ho_contents ob \<noteq> []" "object_holds ob a n" for ob
      proof -
        from ob rs obtain r where "r \<in> set rs" "mr_start r = ho_addr ob" by fastforce
        then obtain k where k: "k < length rs" "mr_start (rs ! k) = ho_addr ob" by (auto simp: in_set_conv_nth)
        with ob(3) last(3) [of k] have "k < ?j" by (metis object_holds_def leI not_less)
        then have "k \<le> ?j - 1" "?j - 1 < length rs" using last(1) by linarith+
        with sorted_nth_mono [OF sorted, of k "?j - 1"] k p(3) show ?thesis by simp
      qed
      with unique [OF _ _ _ p(1,2)] q(2) p(3) have only:
        "ob = p" if "ob \<in> set (hs_objects s)" "ho_contents ob \<noteq> []" "object_holds ob a n" for ob
        using that by simp
      have "unat (a - ho_addr p) = unat a - unat (ho_addr p)"
        using q(2) p(3) by (simp add: unat_sub)
      moreover have "memory_lookup rs a n (a + n) = (if a + n > ho_addr p + ho_size p then None
          else Some (take (unat n) (drop (unat (a - ho_addr p)) (ho_contents p))))"
        using False p(3) by (simp add: memory_lookup_def Let_def)
      ultimately have look: "memory_lookup rs a n (a + n) = Some bs \<longleftrightarrow>
          object_holds p a n \<and> bs = object_slice p a n"
        using holds [OF p(1,2)] q(2) p(3) by (auto simp: object_slice_def not_less)
      have "(\<exists>ob \<in> set (hs_objects s). ho_contents ob \<noteq> [] \<and> object_holds ob a n \<and> bs = object_slice ob a n)
          \<longleftrightarrow> object_holds p a n \<and> bs = object_slice p a n"
        using only p(1,2) by blast
      with True look show ?thesis unfolding read by blast
    qed
  qed
qed

section \<open>Readers whose parts agree\<close>

text \<open>A part of a range that can be read reads as that part of its bytes.\<close>

locale slice_reader = addr_reader +
  assumes read_slice: "read a n = Some bs \<Longrightarrow> unat k + unat m \<le> unat n \<Longrightarrow>
    read (a + k) m = Some (take (unat m) (drop (unat k) bs))"

lemma add_nonzero:
  assumes "a \<noteq> 0" "unat (a + k :: u64) = unat a + unat k"
  shows "a + k \<noteq> 0"
proof
  assume "a + k = 0"
  then have "unat (a + k) = 0" by simp
  with assms(2) have "unat a = 0" by simp
  with assms(1) unat_gt_0 [of a] show False by simp
qed

lemma eager_memory_reader:
  assumes "objects_disjoint (hs_objects s)" "contents_sized (hs_objects s)"
  shows "slice_reader (memory_read (Some (new_memory (Some s))))"
proof -
  let ?read = "memory_read (Some (new_memory (Some s)))"
  note exact = memory_read_exact [OF assms]
  have empty: "?read a 0 = Some []" for a by (simp add: memory_read_def)
  have bounds: "a \<noteq> 0 \<and> unat a + unat n < 2 ^ 64 \<and> length bs = unat n"
    if n: "0 < n" and read: "?read a n = Some bs" for a n bs
  proof -
    from read obtain ob where ob: "ob \<in> set (hs_objects s)" "ho_contents ob \<noteq> []"
      "object_holds ob a n" "bs = object_slice ob a n" and a: "a \<noteq> 0"
      using exact [OF n] by blast
    with assms(2) have sz: "length (ho_contents ob) = unat (ho_size ob)"
      "unat (ho_addr ob) + unat (ho_size ob) < 2 ^ 64" unfolding contents_sized_def by blast+
    have "length bs = unat n"
      using ob(3) sz(1) unfolding ob(4) object_slice_def object_holds_def word_le_nat_alt
      by (simp, linarith)
    with a ob(3) sz show ?thesis by (simp add: object_holds_def)
  qed
  show ?thesis
  proof unfold_locales
    fix a n k m :: u64 and bs
    show "?read a 0 = Some []" by (rule empty)
    show "?read 0 n = None" if "0 < n" using bounds [OF that, of 0] by fastforce
    show "?read a n = None" if "2 ^ 64 \<le> unat a + unat n" "0 < n"
      using bounds [OF that(2), of a] that(1) by fastforce
    show "length bs = unat n" if "?read a n = Some bs"
    proof (cases "n = 0")
      case True
      with that empty show ?thesis by simp
    next
      case False
      then have "0 < n" by (simp add: word_neq_0_conv)
      from bounds [OF this that] show ?thesis by blast
    qed
    show "?read (a + k) m = Some (take (unat m) (drop (unat k) bs))"
      if read: "?read a n = Some bs" and le: "unat k + unat m \<le> unat n"
    proof (cases "m = 0")
      case False
      then have m: "0 < m" by (simp add: word_neq_0_conv)
      with le have n: "0 < n" by (simp add: word_less_nat_alt)
      from read obtain ob where ob: "ob \<in> set (hs_objects s)" "ho_contents ob \<noteq> []"
        "object_holds ob a n" "bs = object_slice ob a n" and a: "a \<noteq> 0"
        using exact [OF n] by blast
      from bounds [OF n read] have fit: "unat a + unat n < 2 ^ 64" by blast
      note part = object_slice_within [OF ob(3) le fit]
      have "unat (a + k) = unat a + unat k" using le fit by (intro unat_add_no_carry) simp
      from add_nonzero [OF a this] have "a + k \<noteq> 0" .
      moreover have "object_holds ob (a + k) m" by (rule part(1) [OF False])
      moreover have "take (unat m) (drop (unat k) bs) = object_slice ob (a + k) m"
        using part(2) ob(4) by simp
      ultimately show ?thesis unfolding exact [OF m] using ob(1,2) by blast
    qed (simp add: empty)
  qed
qed

text \<open>A live process is such a reader, whichever of its mappings serve the parts.\<close>

lemma process_lookup_covers:
  assumes "m \<in> set ms" "mappingEligibleForStringBody m" "m_start m \<le> a" "en \<le> m_end m" "a \<le> max_int64"
    and "mem a n = (bs, None)"
  shows "process_lookup mem ms a n en = Some bs"
  using assms by (induction ms) auto

lemma bytes_read_part:
  assumes "bytes_read_at f a n = (bs, None)" "unat k + unat m \<le> unat n" "0 < m"
    and "length f < 2 ^ 63"
  shows "bytes_read_at f (a + k) m = (take (unat m) (drop (unat k) bs), None)" "unat a + unat n \<le> length f"
proof -
  have m: "0 < unat m" using assms(3) by (simp add: unat_gt_0)
  have neg: "\<not> sint a < 0" and small: "\<not> sint a \<ge> int (length f)"
    using assms(1) by (auto simp: bytes_read_at_def split: if_splits)
  then have sa: "sint a = int (unat a)"
    using sint_cases [of a] unsigned_less [of a, where ?'a = int] by (simp split: if_splits)
  have bs: "bs = take (unat n) (drop (unat a) f)" and len: "\<not> length bs < unat n"
    using assms(1) neg small sa by (auto simp: bytes_read_at_def Let_def split: if_splits)
  then have fits: "unat a + unat n \<le> length f" using m assms(2) small sa by simp
  then show "unat a + unat n \<le> length f" .
  have ak: "unat (a + k) = unat a + unat k" using assms(2,4) fits by (intro unat_add_no_carry) simp
  define p where "p = unat a + unat k"
  have p: "sint (a + k) = int p" "p + unat m \<le> length f"
    using assms(2,4) fits ak by (simp_all add: sint_cases p_def)
  moreover have "take (unat m) (drop p f) = take (unat m) (drop (unat k) bs)"
    using assms(2) by (simp add: bs drop_take min_absorb1 le_diff_conv2 add.commute p_def)
  moreover have "length (take (unat m) (drop p f)) = unat m" using p(2) by simp
  ultimately show "bytes_read_at f (a + k) m = (take (unat m) (drop (unat k) bs), None)"
    using m p(2) by (simp add: bytes_read_at_def)
qed

text \<open>
  What a process relies on of its memory file: a range that was read ends at an offset of the file,
  and every part of it reads as the same bytes. Other ranges may fail, as unreadable pages do.
\<close>

definition file_slices :: "file_at \<Rightarrow> bool" where
  "file_slices f \<longleftrightarrow>
     (\<forall>off n bs. f off n = (bs, None) \<longrightarrow> 0 < n \<longrightarrow>
        unat off + unat n \<le> 2 ^ 63 \<and>
        (\<forall>k m. 0 < m \<longrightarrow> unat k + unat m \<le> unat n \<longrightarrow>
           f (off + k) m = (take (unat m) (drop (unat k) bs), None)))"

lemma file_slices_bytes [simp]: "length bs < 2 ^ 63 \<Longrightarrow> file_slices (bytes_read_at bs)"
  using bytes_read_part(1) [of bs] bytes_read_part(2) [of bs _ _ _ 0] unfolding file_slices_def
  by (fastforce simp: unat_gt_0 word_neq_0_conv)

text \<open>
  A memory file over mapped pages: \<open>mem\<close> has the bytes that can be read, and a read stops with an
  error at the first address that is not mapped or not readable.
\<close>

definition mapped_byte :: "(u64 \<Rightarrow> byte option) \<Rightarrow> u64 \<Rightarrow> nat \<Rightarrow> byte option" where
  "mapped_byte mem off i = (let a = off + of_nat i in if a > max_int64 then None else mem a)"

definition mapped_read_at :: "(u64 \<Rightarrow> byte option) \<Rightarrow> file_at" where
  "mapped_read_at mem off n =
     (let got = map the (takeWhile (\<lambda>b. b \<noteq> None) (map (mapped_byte mem off) [0..<unat n]))
      in (got, if length got < unat n then Some (Errorf (Fmt ''input/output error'' [])) else None))"

lemma takeWhile_all: "length (takeWhile P xs) = length xs \<longleftrightarrow> (\<forall>x \<in> set xs. P x)"
  by (induction xs) auto

lemma mapped_read_full:
  "mapped_read_at mem off n = (bs, None) \<longleftrightarrow>
     (\<forall>i < unat n. mapped_byte mem off i \<noteq> None) \<and> bs = map (\<lambda>i. the (mapped_byte mem off i)) [0..<unat n]"
proof -
  let ?xs = "map (mapped_byte mem off) [0..<unat n]"
  have le: "length (takeWhile (\<lambda>b. b \<noteq> None) ?xs) \<le> unat n" using length_takeWhile_le [of _ ?xs] by simp
  have all: "length (takeWhile (\<lambda>b. b \<noteq> None) ?xs) = unat n \<longleftrightarrow> (\<forall>i < unat n. mapped_byte mem off i \<noteq> None)"
    using takeWhile_all [of "\<lambda>b. b \<noteq> None" ?xs] by auto
  show ?thesis
  proof (cases "\<forall>i < unat n. mapped_byte mem off i \<noteq> None")
    case True
    then have whole: "takeWhile (\<lambda>b. b \<noteq> None) ?xs = ?xs" by (simp add: takeWhile_eq_all_conv)
    have "mapped_read_at mem off n = (map (\<lambda>i. the (mapped_byte mem off i)) [0..<unat n], None)"
      unfolding mapped_read_at_def Let_def whole by (simp add: comp_def)
    with True show ?thesis by auto
  next
    case False
    with all le have "length (takeWhile (\<lambda>b. b \<noteq> None) ?xs) < unat n" by (metis le_neq_implies_less)
    with False show ?thesis by (auto simp: mapped_read_at_def Let_def simp del: not_None_eq)
  qed
qed

lemma file_contract_mapped [simp]: "file_contract (mapped_read_at mem)"
proof -
  have "length (takeWhile P (map f [0..<unat n])) \<le> unat n" for P f and n :: u64
    using length_takeWhile_le [of P "map f [0..<unat n]"] by simp
  then show ?thesis by (auto simp: file_contract_def mapped_read_at_def Let_def)
qed

lemma mapped_byte_shift: "mapped_byte mem (off + k) i = mapped_byte mem off (unat k + i)"
  by (simp add: mapped_byte_def add.assoc)

text \<open>A range whose addresses are all readable does not leave the lower half.\<close>

lemma mapped_range:
  assumes "\<forall>i < n. mapped_byte mem off i \<noteq> None" "0 < n" "n < 2 ^ 64"
  shows "unat off + n \<le> 2 ^ 63"
proof (rule ccontr)
  assume "\<not> unat off + n \<le> 2 ^ 63"
  moreover have "unat off \<le> 2 ^ 63 - 1" using assms(1,2) by (auto simp: mapped_byte_def Let_def word_le_nat_alt not_less split: if_splits)
  ultimately obtain i where i: "i < n" "unat off + i = 2 ^ 63" by (metis add_less_cancel_left le_add_diff_inverse linorder_not_le le_trans diff_le_self)
  then have "unat (off + of_nat i) = 2 ^ 63" by (simp add: unat_word_ariths unat_of_nat)
  then have "off + of_nat i > max_int64" by (simp add: word_less_nat_alt)
  with assms(1) i(1) show False by (auto simp: mapped_byte_def Let_def)
qed

lemma file_slices_mapped [simp]: "file_slices (mapped_read_at mem)"
  unfolding file_slices_def
proof (intro allI impI conjI)
  fix off n :: u64 and bs
  assume "mapped_read_at mem off n = (bs, None)" "0 < n"
  then have full: "\<forall>i < unat n. mapped_byte mem off i \<noteq> None" "bs = map (\<lambda>i. the (mapped_byte mem off i)) [0..<unat n]"
    by (simp_all add: mapped_read_full)
  show "unat off + unat n \<le> 2 ^ 63"
    using mapped_range [OF full(1)] \<open>0 < n\<close> unsigned_less [of n, where ?'a = nat] by (simp add: unat_gt_0 word_neq_0_conv)
  fix k m :: u64
  assume le: "unat k + unat m \<le> unat n"
  have "map (\<lambda>i. the (mapped_byte mem off (unat k + i))) [0..<unat m] = take (unat m) (drop (unat k) bs)"
    using le by (auto simp: full(2) intro!: nth_equalityI)
  with full(1) le show "mapped_read_at mem (off + k) m = (take (unat m) (drop (unat k) bs), None)"
    unfolding mapped_read_full mapped_byte_shift by auto
qed

lemma process_slices:
  assumes mem: "pr_mem p = Some f" and fc: "file_contract f" "file_slices f"
  shows "slice_reader (process_read_at_addr (Some p))"
proof (rule slice_reader.intro [OF process_addr_reader [OF mem fc(1)]], unfold_locales)
  let ?read = "process_read_at_addr (Some p)" and ?ms = "pr_maps p"
  have read: "0 < n \<Longrightarrow> ?read a n = Some bs \<longleftrightarrow> a \<noteq> 0 \<and> unat a + unat n < 2 ^ 64 \<and>
      process_lookup f ?ms a n (a + n) = Some bs" for a n bs
    by (simp add: process_read_at_addr_def guarded_Some mem)
  fix a n k m :: u64 and bs
  assume r: "?read a n = Some bs" and le: "unat k + unat m \<le> unat n"
  show "?read (a + k) m = Some (take (unat m) (drop (unat k) bs))"
  proof (cases "m = 0")
    case True
    then show ?thesis by (simp add: process_read_at_addr_def guarded_def mem)
  next
    case False
    then have m: "0 < m" by (simp add: word_neq_0_conv)
    with le have n: "0 < n" by (simp add: word_less_nat_alt)
    from r [unfolded read [OF n]] obtain mp where a: "a \<noteq> 0" "unat a + unat n < 2 ^ 64" and
      mp: "mp \<in> set ?ms" "mappingEligibleForStringBody mp" "m_start mp \<le> a" "a + n \<le> m_end mp"
      "a \<le> max_int64" "f a n = (bs, None)"
      using process_lookup_Some by blast
    from fc(2) mp(6) n m le have part: "f (a + k) m = (take (unat m) (drop (unat k) bs), None)"
      and end_at: "unat a + unat n \<le> 2 ^ 63"
      unfolding file_slices_def by blast+
    have ak: "unat (a + k) = unat a + unat k" "unat (a + n) = unat a + unat n"
      "unat (a + k + m) = unat a + unat k + unat m"
      using a(2) le by (simp_all add: unat_add_no_carry)
    have "process_lookup f ?ms (a + k) m (a + k + m) = Some (take (unat m) (drop (unat k) bs))"
    proof (rule process_lookup_covers [where m = mp])
      show "m_start mp \<le> a + k" "a + k + m \<le> m_end mp"
        using mp(3,4) ak le by (simp_all add: word_le_nat_alt)
      have "unat a + unat k < 2 ^ 63" using end_at le m by (simp add: word_less_nat_alt)
      then show "a + k \<le> max_int64" by (simp add: word_le_nat_alt ak)
    qed (rule mp(1,2) part)+
    moreover have "a + k \<noteq> 0" by (rule add_nonzero [OF a(1) ak(1)])
    ultimately show ?thesis using read [OF m] a le ak by simp
  qed
qed

interpretation process_parts: slice_reader
  "process_read_at_addr (Some \<lparr>pr_maps = ms, pr_mem = Some (mapped_read_at mem)\<rparr>)"
  for ms mem
  by (rule process_slices [where f = "mapped_read_at mem"]) simp_all

section \<open>Stored labels are decoded\<close>

text \<open>
  The image of a label map in memory under a standard layout: the slice header, the array of
  labels, each a pair of string headers, and the bytes of the strings. A stored string is
  \<open>(pointer, text)\<close>.
\<close>

definition put_word :: "layout \<Rightarrow> u64 \<Rightarrow> byte list" where
  "put_word l v = put_uint False (nat (la_ptr_size l)) v"

definition word_fits :: "layout \<Rightarrow> u64 \<Rightarrow> bool" where
  "word_fits l v \<longleftrightarrow> unat v < 2 ^ (8 * nat (la_ptr_size l))"

type_synonym stored_string = "u64 \<times> string"

definition put_header :: "layout \<Rightarrow> stored_string \<Rightarrow> byte list" where
  "put_header l s = put_word l (fst s) @ put_word l (of_nat (length (snd s)))"

definition stored_string_ok :: "addr_read \<Rightarrow> layout \<Rightarrow> u64 \<Rightarrow> stored_string \<Rightarrow> bool" where
  "stored_string_ok body l mx s \<longleftrightarrow>
     word_fits l (fst s) \<and> length (snd s) \<le> unat mx \<and> length (snd s) < 2 ^ (8 * nat (la_ptr_size l)) \<and>
     (snd s \<noteq> [] \<longrightarrow> fst s \<noteq> 0 \<and>
        body (fst s) (of_nat (length (snd s))) = Some (bytes_of_string (snd s)))"

definition put_label :: "layout \<Rightarrow> stored_string \<times> stored_string \<Rightarrow> byte list" where
  "put_label l kv = put_header l (fst kv) @ put_header l (snd kv)"

definition stored_labels ::
  "addr_read \<Rightarrow> addr_read \<Rightarrow> layout \<Rightarrow> label_options \<Rightarrow> u64 \<Rightarrow> (stored_string \<times> stored_string) list \<Rightarrow> bool"
where
  "stored_labels structural body l opts a kvs \<longleftrightarrow>
     (let p = nat (la_ptr_size l); n = length kvs; mx = lo_max_string (normalize_options opts) in
      \<exists>d c. structural a (of_nat (3 * p)) = Some (put_word l d @ put_word l (of_nat n) @ put_word l c) \<and>
        word_fits l d \<and> word_fits l c \<and> n \<le> unat c \<and> n \<le> unat (lo_max_labels (normalize_options opts)) \<and>
        (kvs \<noteq> [] \<longrightarrow> d \<noteq> 0 \<and> n * (4 * p) < 2 ^ 64 \<and>
           structural d (of_nat (n * (4 * p))) = Some (concat (map (put_label l) kvs))) \<and>
        (\<forall>(k, v) \<in> set kvs. stored_string_ok body l mx k \<and> stored_string_ok body l mx v))"

lemma length_put_uint [simp]: "length (put_uint big n v) = n"
  by (simp add: put_uint_def Let_def)

lemma length_put_word [simp]: "length (put_word l v) = nat (la_ptr_size l)"
  by (simp add: put_word_def)

lemma length_put_label [simp]: "length (put_label l kv) = 4 * nat (la_ptr_size l)"
  by (simp add: put_label_def put_header_def)

lemma order_put_word:
  assumes "word_fits l v" "standard_layout l"
  shows "order_uint False (put_word l v) = v"
proof -
  have "take_bit (8 * nat (la_ptr_size l)) v = v"
    using assms(1) by (simp add: word_fits_def word_unat_eq_iff unsigned_take_bit_eq take_bit_nat_eq_self)
  then show ?thesis by (simp add: put_word_def order_uint_put)
qed

lemma standard_byte_order: "standard_layout l \<Longrightarrow> layout_byte_order l = Some False"
  by (simp add: standard_layout_def layout_byte_order_def)

lemma standard_ptr:
  assumes "standard_layout l"
  shows "unat (word_of_int (la_ptr_size l) :: u64) = nat (la_ptr_size l)" "nat (la_ptr_size l) = 4 \<or> nat (la_ptr_size l) = 8"
  using assms by (auto simp: standard_layout_def)

lemma label_add_fits: "unat a + unat k < 2 ^ 64 \<Longrightarrow> label_add a k what = Inr (a + k)"
  by (simp add: label_add_def AddUint64_value [THEN iffD2, OF conjI])

context slice_reader
begin

text \<open>One word at an offset of a range that can be read.\<close>

lemma read_word_at:
  assumes l: "standard_layout l" and r: "read a n = Some (xs @ put_word l v @ ys)"
    and k: "unat k = length xs" and v: "word_fits l v"
  shows "read_word read (a + k) l st what = Inr v"
proof -
  have len: "unat n = length xs + nat (la_ptr_size l) + length ys" using read_length [OF r] by simp
  note p = standard_ptr(1) [OF l]
  have "read (a + k) (word_of_int (la_ptr_size l)) =
      Some (take (nat (la_ptr_size l)) (drop (length xs) (xs @ put_word l v @ ys)))"
    using read_slice [OF r, of k "word_of_int (la_ptr_size l)"] by (simp add: len k p)
  then have "read (a + k) (word_of_int (la_ptr_size l)) = Some (put_word l v)" by simp
  then show ?thesis
    using l by (auto simp: read_word_def addr_read_uintptr_def standard_byte_order order_put_word [OF v l]
        standard_layout_def)
qed

lemma add_within:
  assumes "read a n = Some bs" "unat k \<le> unat n" "0 < n"
  shows "label_add a k what = Inr (a + k)"
  using read_bounds(2) [OF assms(1,3)] assms(2) by (intro label_add_fits) simp

lemma decode_stored_string:
  assumes l: "standard_layout l" and r: "read a n = Some (xs @ put_header l s @ ys)"
    and k: "unat k = length xs" and ok: "stored_string_ok body l (lo_max_string (normalize_options opts)) s"
  shows "decode_string read body l opts (a + k) = Inr (snd s)"
proof -
  let ?p = "nat (la_ptr_size l)" and ?w = "word_of_int (la_ptr_size l) :: u64"
  let ?len = "of_nat (length (snd s)) :: u64"
  note std = l [unfolded standard_layout_def] and p = standard_ptr [OF l]
  have n: "unat n = length xs + 2 * ?p + length ys" using read_length [OF r] by (simp add: put_header_def)
  then have n0: "0 < n" using p(2) by (auto simp: word_less_nat_alt)
  have fit: "word_fits l (fst s)" and len: "length (snd s) < 2 ^ (8 * ?p)"
    "length (snd s) \<le> unat (lo_max_string (normalize_options opts))"
    using ok by (simp_all add: stored_string_ok_def)
  have ul: "unat ?len = length (snd s)"
    using len(2) unsigned_less [of "lo_max_string (normalize_options opts)", where ?'a = nat]
    by (simp add: unat_of_nat take_bit_nat_eq_self)
  have fit_len: "word_fits l ?len" using len(1) by (simp add: word_fits_def ul)
  have k1: "unat (k + ?w) = length (xs @ put_word l (fst s))"
    using k p(1) n unsigned_less [of n, where ?'a = nat] by (subst unat_add_no_carry) auto
  have r0: "read a n = Some (xs @ put_word l (fst s) @ (put_word l ?len @ ys))"
    and r1: "read a n = Some ((xs @ put_word l (fst s)) @ put_word l ?len @ ys)"
    using r by (simp_all add: put_header_def)
  have w0: "read_word read (a + k) l StatusStringMissing w = Inr (fst s)" for w
    by (rule read_word_at [OF l r0 k fit])
  have w1: "read_word read (a + k + ?w) l StatusStringMissing w = Inr ?len" for w
    using read_word_at [OF l r1 k1 fit_len] by (simp add: add.assoc)
  have "unat (a + k) = unat a + unat k"
    using read_bounds(2) [OF r n0] n k by (intro unat_add_no_carry) simp
  then have add: "label_add (a + k) 0 w = Inr (a + k)" "label_add (a + k) ?w w = Inr (a + k + ?w)" for w
    using read_bounds(2) [OF r n0] n k p(1) label_add_fits [of "a + k" 0 w] label_add_fits [of "a + k" ?w w]
    by simp_all
  show ?thesis
    using std ok len ul
    by (auto simp: decode_string_def Let_def add w0 w1 word_less_nat_alt not_less
        stored_string_ok_def addr_read_string_def unat_eq_zero)
qed

end

definition put_pair :: "stored_string \<times> stored_string \<Rightarrow> label_map \<Rightarrow> label_map" where
  "put_pair kv = AList.update (snd (fst kv)) (snd (snd kv))"

text \<open>The map that a list of labels denotes: a later label replaces an earlier one.\<close>

definition labels_of :: "(stored_string \<times> stored_string) list \<Rightarrow> label_map" where
  "labels_of kvs = fold put_pair kvs []"

lemma map_of_labels_of:
  "map_of (labels_of kvs) = map_of (rev (map (\<lambda>kv. (snd (fst kv), snd (snd kv))) kvs))"
proof -
  have "map_of (fold put_pair kvs al) = map_of (rev (map (\<lambda>kv. (snd (fst kv), snd (snd kv))) kvs) @ al)" for al
    by (induction kvs arbitrary: al)
      (auto simp: put_pair_def AList.update_conv map_add_def fun_eq_iff split: option.splits)
  from this [of "[]"] show ?thesis by (simp add: labels_of_def)
qed

lemma length_concat_labels [simp]:
  "length (concat (map (put_label l) kvs)) = length kvs * (4 * nat (la_ptr_size l))"
  by (induction kvs) simp_all

context slice_reader
begin

lemma decode_stored_label:
  assumes l: "standard_layout l" and r: "read d n = Some (concat (map (put_label l) kvs))"
    and i: "i < length kvs" and small: "length kvs * (4 * nat (la_ptr_size l)) < 2 ^ 64"
    and ok: "\<forall>(k, v) \<in> set kvs. stored_string_ok body l (lo_max_string (normalize_options opts)) k \<and>
       stored_string_ok body l (lo_max_string (normalize_options opts)) v"
  shows "decode_label read body l opts d (of_nat i) = Inr (snd (fst (kvs ! i)), snd (snd (kvs ! i)))"
proof -
  let ?p = "nat (la_ptr_size l)"
  let ?xs = "concat (map (put_label l) (take i kvs))" and ?ys = "concat (map (put_label l) (drop (Suc i) kvs))"
  obtain k v where kv: "kvs ! i = (k, v)" by (cases "kvs ! i")
  have "kvs = take i kvs @ (k, v) # drop (Suc i) kvs" using id_take_nth_drop [OF i] kv by simp
  then have "concat (map (put_label l) kvs) = concat (map (put_label l) (take i kvs @ (k, v) # drop (Suc i) kvs))"
    by simp
  then have split: "concat (map (put_label l) kvs) = ?xs @ put_header l k @ put_header l v @ ?ys"
    by (simp add: put_label_def)
  have xs: "length ?xs = i * (4 * ?p)" using i by simp
  note std = l [unfolded standard_layout_def] and p = standard_ptr [OF l]
  have i_small: "i * (4 * ?p) < 2 ^ 64" "i < 2 ^ 64"
  proof -
    have "i * (4 * ?p) \<le> length kvs * (4 * ?p)" using i by (intro mult_le_mono) simp_all
    then show "i * (4 * ?p) < 2 ^ 64" using small by linarith
    moreover have "i \<le> i * (4 * ?p)" using p(2) by auto
    ultimately show "i < 2 ^ 64" by linarith
  qed
  have off: "of_nat i * la_label_size l = (of_nat (i * (4 * ?p)) :: u64)"
    using std p(2) by (auto simp: algebra_simps)
  have u_off: "unat (of_nat (i * (4 * ?p)) :: u64) = length ?xs"
    unfolding xs by (rule of_nat_inverse [OF refl]) (use i_small(1) in simp)
  let ?o = "of_nat (i * (4 * ?p)) :: u64"
  have n: "unat n = length kvs * (4 * ?p)" using read_length [OF r] by simp
  have n0: "0 < n" using n i p(2) by (auto simp: word_less_nat_alt)
  have le: "length ?xs + 4 * ?p \<le> unat n"
  proof -
    have "Suc i * (4 * ?p) \<le> length kvs * (4 * ?p)" using i by (intro mult_le_mono) simp_all
    then show ?thesis unfolding n xs by simp
  qed
  let ?w = "la_label_value_offset l"
  have w: "unat ?w = 2 * ?p" using std p by auto
  have ow: "unat (?o + ?w) = length (?xs @ put_header l k)"
    using u_off w le unsigned_less [of n, where ?'a = nat]
    by (subst unat_add_no_carry) (simp_all add: put_header_def)
  have bound: "unat d + unat n < 2 ^ 64" by (rule read_bounds(2) [OF r n0])
  have d_o: "unat (d + ?o) = unat d + length ?xs" using u_off le bound by (simp add: unat_add_no_carry)
  have adds: "label_add d ?o what = Inr (d + ?o)" "label_add (d + ?o) 0 what = Inr (d + ?o)"
    "label_add (d + ?o) ?w what = Inr (d + ?o + ?w)" for what
    using u_off w le bound d_o label_add_fits [of d ?o what] label_add_fits [of "d + ?o" 0 what]
      label_add_fits [of "d + ?o" ?w what] by simp_all
  have r0: "read d n = Some (?xs @ put_header l k @ (put_header l v @ ?ys))"
    and r1: "read d n = Some ((?xs @ put_header l k) @ put_header l v @ ?ys)"
    using r split by simp_all
  have oks: "stored_string_ok body l (lo_max_string (normalize_options opts)) k"
    "stored_string_ok body l (lo_max_string (normalize_options opts)) v"
    using ok nth_mem [OF i] unfolding kv by blast+
  have key: "decode_string read body l opts (d + ?o) = Inr (snd k)"
    by (rule decode_stored_string [OF l r0 u_off oks(1)])
  have val: "decode_string read body l opts (d + ?o + ?w) = Inr (snd v)"
    using decode_stored_string [OF l r1 ow oks(2)] by (simp add: add.assoc)
  have "la_label_key_offset l = 0" using std by simp
  then show ?thesis
    by (simp only: decode_label_def off adds key val sum_bind_simps kv fst_conv snd_conv)
qed

lemma decode_stored_labels:
  assumes "standard_layout l" "read d n = Some (concat (map (put_label l) kvs))"
    and "length kvs * (4 * nat (la_ptr_size l)) < 2 ^ 64"
    and "\<forall>(k, v) \<in> set kvs. stored_string_ok body l (lo_max_string (normalize_options opts)) k \<and>
       stored_string_ok body l (lo_max_string (normalize_options opts)) v"
    and "\<forall>i \<in> set is. i < length kvs"
  shows "decode_labels read body l opts d is acc = Inr (fold (\<lambda>i. put_pair (kvs ! i)) is acc)"
  using assms(5)
proof (induction "is" arbitrary: acc)
  case (Cons i "is")
  then show ?case
    using decode_stored_label [OF assms(1,2) _ assms(3,4), of i] by (simp add: put_pair_def)
qed simp

theorem decode_stored_label_map:
  assumes l: "standard_layout l" and st: "stored_labels read body l opts a kvs"
  shows "decode_label_map read body l opts a = Inr (labels_of kvs)"
proof -
  let ?p = "nat (la_ptr_size l)" and ?w = "word_of_int (la_ptr_size l) :: u64"
  let ?opts = "normalize_options opts"
  let ?n = "of_nat (length kvs) :: u64"
  note std = l [unfolded standard_layout_def] and p = standard_ptr [OF l]
  from st obtain d c where
    hd: "read a (of_nat (3 * ?p)) = Some (put_word l d @ put_word l ?n @ put_word l c)"
    and fits: "word_fits l d" "word_fits l c" and n: "length kvs \<le> unat c" "length kvs \<le> unat (lo_max_labels ?opts)"
    and arr: "kvs \<noteq> [] \<Longrightarrow> d \<noteq> 0 \<and> length kvs * (4 * ?p) < 2 ^ 64 \<and>
       read d (of_nat (length kvs * (4 * ?p))) = Some (concat (map (put_label l) kvs))"
    and ok: "\<forall>(k, v) \<in> set kvs. stored_string_ok body l (lo_max_string ?opts) k \<and>
       stored_string_ok body l (lo_max_string ?opts) v"
    unfolding stored_labels_def Let_def by blast
  have un: "unat ?n = length kvs"
    using n(1) unsigned_less [of c, where ?'a = nat] by (simp add: unat_of_nat take_bit_nat_eq_self)
  have fit_n: "word_fits l ?n" using n(1) fits(2) by (simp add: word_fits_def un)
  have u3: "unat (of_nat (3 * ?p) :: u64) = 3 * ?p" using p(2) by auto
  have pos: "(0 :: u64) < of_nat (3 * ?p)" using u3 p(2) by (auto simp: word_less_nat_alt)
  note bound = read_bounds(2) [OF hd pos, unfolded u3]
  have uw: "unat ?w = ?p" "unat (2 * ?w) = 2 * ?p" using std by auto
  have adds: "label_add a 0 what = Inr a" "label_add a ?w what = Inr (a + ?w)"
    "label_add a (2 * ?w) what = Inr (a + 2 * ?w)" for what
    using bound uw label_add_fits [of a 0 what] label_add_fits [of a ?w what] label_add_fits [of a "2 * ?w" what]
    by simp_all
  have words: "read_word read a l st what = Inr d" "read_word read (a + ?w) l st what = Inr ?n"
    "read_word read (a + 2 * ?w) l st what = Inr c" for st what
    using read_word_at [OF l, of a _ "[]" d _ 0] read_word_at [OF l, of a _ "put_word l d" ?n "put_word l c" ?w]
      read_word_at [OF l, of a _ "put_word l d @ put_word l ?n" c "[]" "2 * ?w"] hd fits fit_n uw
    by simp_all
  have guards: "\<not> c < ?n" "\<not> lo_max_labels ?opts < ?n" using n un by (simp_all add: word_less_nat_alt not_less)
  show ?thesis
  proof (cases "kvs = []")
    case True
    then show ?thesis
      using std guards by (simp add: decode_label_map_def Let_def adds words labels_of_def)
  next
    case False
    from arr [OF False] have d: "d \<noteq> 0" and small: "length kvs * (4 * ?p) < 2 ^ 64"
      and rd: "read d (of_nat (length kvs * (4 * ?p))) = Some (concat (map (put_label l) kvs))" by blast+
    have n0: "?n \<noteq> 0" using un False by (metis length_0_conv unsigned_0)
    have ls: "la_label_size l = 4 * ?w" using std by simp
    have sz: "unat (la_label_size l) = 4 * ?p" using std p by auto
    have prod: "?n * la_label_size l = of_nat (length kvs * (4 * ?p))"
      using std p(2) by (auto simp: algebra_simps)
    have mul: "MulUint64 ?n (la_label_size l) = (of_nat (length kvs * (4 * ?p)), True)"
      using MulUint64_iff [of ?n "la_label_size l"] un sz small prod n0 p(2)
      by (auto simp: MulUint64_def Let_def split: if_splits)
    have "decode_labels read body l ?opts d [0..<length kvs] [] =
        Inr (fold (\<lambda>i. put_pair (kvs ! i)) [0..<length kvs] [])"
      by (rule decode_stored_labels [OF l rd small]) (use ok in \<open>auto simp: normalize_options_def\<close>)
    also have "fold (\<lambda>i. put_pair (kvs ! i)) [0..<length kvs] [] = labels_of kvs"
      unfolding labels_of_def
      by (subst (3) map_nth [symmetric]) (simp only: fold_map comp_def)
    finally have loop: "decode_labels read body l ?opts d [0..<length kvs] [] = Inr (labels_of kvs)" .
    define sz where "sz = (of_nat (length kvs * (4 * ?p)) :: u64)"
    show ?thesis
      using std guards n0 d un
      by (simp add: decode_label_map_def Let_def adds words mul [unfolded ls, folded sz_def] rd [folded sz_def] loop)
  qed
qed

end

section \<open>Limits\<close>

lemma length_update_le: "length (AList.update k v al) \<le> Suc (length al)"
  by (induction al) (auto split: if_splits)

lemma decode_string_bound:
  assumes body: "addr_reader body"
    and run: "decode_string structural body l opts a = Inr s"
  shows "length s \<le> unat (lo_max_string (normalize_options opts))"
  using run addr_reader.read_string_length(1) [OF body]
  by (auto simp: decode_string_def Let_def sum_bind_Inr word_less_nat_alt not_less split: if_splits)

definition labels_bounded :: "nat \<Rightarrow> nat \<Rightarrow> label_map \<Rightarrow> bool" where
  "labels_bounded n m al \<longleftrightarrow> length al \<le> n \<and> distinct (map fst al) \<and>
     (\<forall>(k, v) \<in> set al. length k \<le> m \<and> length v \<le> m)"

lemma update_bounded:
  assumes "labels_bounded n m al" "length k \<le> m" "length v \<le> m"
  shows "labels_bounded (Suc n) m (AList.update k v al)"
  using assms length_update_le [of k v al] set_update_subset [of k v al] unfolding labels_bounded_def
  by (fastforce intro: distinct_update)

lemma normalize_idem [simp]: "normalize_options (normalize_options opts) = normalize_options opts"
  by (simp add: normalize_options_def DefaultMaxLabels_def DefaultMaxStringLen_def)

lemma decode_labels_bounded:
  assumes body: "addr_reader body"
  shows "decode_labels structural body l opts d is al = Inr al' \<Longrightarrow>
    labels_bounded n (unat (lo_max_string (normalize_options opts))) al \<Longrightarrow>
    labels_bounded (n + length is) (unat (lo_max_string (normalize_options opts))) al'"
proof (induction "is" arbitrary: n al)
  case (Cons i "is")
  from Cons(2) obtain k v where kv: "decode_label structural body l opts d (of_nat i) = Inr (k, v)"
    and rest: "decode_labels structural body l opts d is (AList.update k v al) = Inr al'"
    by (auto simp: sum_bind_Inr)
  from kv have "length k \<le> unat (lo_max_string (normalize_options opts))"
    "length v \<le> unat (lo_max_string (normalize_options opts))"
    by (auto simp: decode_label_def sum_bind_Inr dest: decode_string_bound [OF body])
  from Cons(1) [OF rest update_bounded [OF Cons(3) this]] show ?case by simp
qed simp

lemma decode_label_map_bounded:
  assumes body: "addr_reader body"
    and run: "decode_label_map structural body l opts a = Inr al"
  shows "labels_bounded (unat (lo_max_labels (normalize_options opts)))
    (unat (lo_max_string (normalize_options opts))) al"
proof -
  let ?o = "normalize_options opts"
  from run consider "al = []"
    | len d where "decode_labels structural body l ?o d [0..<unat len] [] = Inr al" "\<not> lo_max_labels ?o < len"
    by (fastforce simp: decode_label_map_def Let_def sum_bind_Inr split: if_splits prod.splits)
  then show ?thesis
  proof cases
    case 2
    from decode_labels_bounded [OF body 2(1), of 0] have
      "labels_bounded (unat len) (unat (lo_max_string ?o)) al" by (simp add: labels_bounded_def)
    with 2(2) show ?thesis by (auto simp: labels_bounded_def word_less_nat_alt)
  qed (simp add: labels_bounded_def)
qed

section \<open>All goroutines\<close>

definition label_stats_ok :: "label_result \<Rightarrow> bool" where
  "label_stats_ok res \<longleftrightarrow>
     (let st = lr_stats res; gs = lr_goroutines res in
      ls_decoded st = int (length (filter (\<lambda>g. gl_status g = StatusDecoded) gs)) \<and>
      ls_no_labels st = int (length (filter (\<lambda>g. gl_status g = StatusNoLabels) gs)) \<and>
      ls_unsupported st = int (length (filter (\<lambda>g. gl_status g = StatusUnsupportedRuntime) gs)) \<and>
      ls_decoded st + ls_no_labels st + ls_unsupported st + ls_failed st = int (length gs) \<and>
      ls_strings_missing st = int (length (filter (\<lambda>g. gl_status g = StatusStringMissing) gs)))"

lemma count_goroutine_ok: "label_stats_ok res \<Longrightarrow> label_stats_ok (count_goroutine gr res)"
  by (cases "gl_status gr") (simp_all add: label_stats_ok_def count_goroutine_def Let_def)

lemma count_goroutine_list [simp]:
  "lr_goroutines (count_goroutine gr res) = lr_goroutines res @ [gr]"
  "ls_total (lr_stats (count_goroutine gr res)) = ls_total (lr_stats res)"
  "lr_warnings (count_goroutine gr res) = lr_warnings res"
  by (cases "gl_status gr"; simp add: count_goroutine_def Let_def)+

lemma count_goroutines:
  "lr_goroutines (fold (\<lambda>g. count_goroutine (f g)) gs res) = lr_goroutines res @ map f gs"
  "ls_total (lr_stats (fold (\<lambda>g. count_goroutine (f g)) gs res)) = ls_total (lr_stats res)"
  "label_stats_ok res \<Longrightarrow> label_stats_ok (fold (\<lambda>g. count_goroutine (f g)) gs res)"
  by (induction gs arbitrary: res) (simp_all add: count_goroutine_ok)

lemma decode_all_ok:
  "label_stats_ok (decode_all (Some snap) l opts) \<and>
   ls_total (lr_stats (decode_all (Some snap) l opts)) = int (length (hs_goroutines snap)) \<and>
   map gl_gid (lr_goroutines (decode_all (Some snap) l opts)) = map g_id (hs_goroutines snap)"
proof -
  have gid: "gl_gid (decode_labels_for_goroutine st bd l o' g) = g_id g" for st bd o' g
    by (simp add: decode_labels_for_goroutine_def goroutine_result_def Let_def
        split: prod.splits option.splits sum.splits)
  have start: "label_stats_ok (empty_result\<lparr>lr_stats := zero_label_stats\<lparr>ls_total := n\<rparr>\<rparr>)" for n
    by (simp add: label_stats_ok_def empty_result_def zero_label_stats_def)
  show ?thesis
    unfolding decode_all_def Let_def option.case
    by (intro conjI count_goroutines(3) start)
      (simp_all add: count_goroutines gid comp_def empty_result_def zero_label_stats_def)
qed

section \<open>Lazy and eager memory decode alike\<close>

text \<open>Of the options the decoders use only the two limits.\<close>

definition same_limits :: "label_options \<Rightarrow> label_options \<Rightarrow> bool" where
  "same_limits o1 o2 \<longleftrightarrow>
     lo_max_labels (normalize_options o1) = lo_max_labels (normalize_options o2) \<and>
     lo_max_string (normalize_options o1) = lo_max_string (normalize_options o2)"

lemma same_limits_normalize [simp]: "same_limits (normalize_options o1) (normalize_options o2) = same_limits o1 o2"
  by (simp add: same_limits_def)

lemma decode_string_cong:
  assumes "same_limits o1 o2"
  shows "decode_string st bd l o1 = decode_string st bd l o2"
proof -
  from assms have e: "lo_max_string (normalize_options o1) = lo_max_string (normalize_options o2)"
    by (simp add: same_limits_def)
  show ?thesis by (intro ext, unfold decode_string_def Let_def e, rule refl)
qed

lemma decode_label_cong:
  assumes "same_limits o1 o2"
  shows "decode_label st bd l o1 = decode_label st bd l o2"
  by (intro ext, unfold decode_label_def decode_string_cong [OF assms], rule refl)

lemma decode_labels_cong:
  "same_limits o1 o2 \<Longrightarrow> decode_labels st bd l o1 d is al = decode_labels st bd l o2 d is al"
  by (induction "is" arbitrary: al) (simp_all add: decode_label_cong [of o1 o2])

lemma decode_label_map_cong:
  assumes "same_limits o1 o2"
  shows "decode_label_map st bd l o1 = decode_label_map st bd l o2"
proof -
  from assms have e: "lo_max_labels (normalize_options o1) = lo_max_labels (normalize_options o2)"
    by (simp add: same_limits_def)
  have "same_limits (normalize_options o1) (normalize_options o2)" using assms by simp
  from decode_labels_cong [OF this] have
    loop: "decode_labels st bd l (normalize_options o1) d is al = decode_labels st bd l (normalize_options o2) d is al"
    for d "is" al .
  show ?thesis by (intro ext, unfold decode_label_map_def Let_def e loop, rule refl)
qed

lemma decode_goroutine_cong:
  assumes "same_limits o1 o2"
  shows "decode_labels_for_goroutine st bd l o1 = decode_labels_for_goroutine st bd l o2"
proof -
  have "same_limits (normalize_options o1) (normalize_options o2)" using assms by simp
  note e = decode_label_map_cong [OF this]
  show ?thesis by (intro ext, unfold decode_labels_for_goroutine_def Let_def e, rule refl)
qed

lemma decode_all_memory_cong:
  assumes read: "\<And>a n. memory_read (Some m) a n = memory_read (Some (new_memory (Some full))) a n"
    and none: "lo_heap_memory opts = None" and gs: "hs_goroutines snap = hs_goroutines full"
  shows "decode_all (Some snap) l (opts\<lparr>lo_heap_memory := Some m\<rparr>) = decode_all (Some full) l opts"
proof -
  let ?o1 = "normalize_options (opts\<lparr>lo_heap_memory := Some m\<rparr>)" and ?o2 = "normalize_options opts"
  have reads: "memory_read (Some m) = memory_read (Some (new_memory (Some full)))"
    by (intro ext) (rule read)
  have opts: "lo_heap_memory ?o1 = Some m" "lo_heap_memory ?o2 = None" "lo_extra ?o1 = lo_extra ?o2"
    using none by (simp_all add: normalize_options_def)
  have body: "compose_string_body_reader (Some m) x = compose_string_body_reader (Some (new_memory (Some full))) x" for x
    by (simp add: compose_string_body_reader_def reads split: option.splits)
  have "decode_labels_for_goroutine st bd l ?o1 = decode_labels_for_goroutine st bd l ?o2" for st bd
    by (rule decode_goroutine_cong) (simp add: same_limits_def normalize_options_def)
  then show ?thesis
    unfolding decode_all_def Let_def option.case opts by (simp add: reads body gs opts)
qed

lemma parse_keeps_contents:
  assumes "parse src e (keep_contents True opts) = Inr full"
  shows "contents_sized (hs_objects full)"
proof -
  obtain tr where "parse_into src e (keep_contents True opts) None = Inr (full, tr)"
    using assms unfolding parse_def
    by (cases "parse_into src e (keep_contents True opts) None") auto
  from parse_into_ok [OF this] show ?thesis
    by (auto simp: snapshot_ok_def records_ok_def list_all_iff object_ok_def with_defaults_def
        keep_contents_def contents_sized_def)
qed

lemma lazy_memory_read:
  assumes lazy: "parse_lazy_contents src e (Some (bytes_read_at src)) opts = Inr (s, v)"
    and eager: "parse src e (keep_contents True opts) = Inr full"
    and src: "length src < 2 ^ 63" and dis: "objects_disjoint (hs_objects full)"
  shows "memory_read (Some (new_memory_from_reader (Some (resolver_read (Some v))))) a n =
    memory_read (Some (new_memory (Some full))) a n"
proof (cases "n = 0")
  case True
  then show ?thesis by (simp add: memory_read_def)
next
  case False
  then have n: "0 < n" by (simp add: word_neq_0_conv)
  note sized = parse_keeps_contents [OF eager]
  have full: "ho_contents ob \<noteq> []" if "ob \<in> set (hs_objects full)" "object_holds ob a n" for ob
  proof
    assume empty: "ho_contents ob = []"
    obtain tr where "parse_into src e (keep_contents True opts) None = Inr (full, tr)"
      using eager unfolding parse_def
      by (cases "parse_into src e (keep_contents True opts) None") auto
    from parse_into_ok [OF this] that(1) have "length (ho_contents ob) = unat (ho_size ob)"
      by (auto simp: snapshot_ok_def records_ok_def list_all_iff object_ok_def with_defaults_def
          keep_contents_def)
    with empty have "unat (ho_size ob) = 0" by simp
    moreover have "0 < unat n" using n by (simp add: unat_gt_0)
    ultimately show False using that(2) unfolding object_holds_def word_le_nat_alt by linarith
  qed
  have "resolver_read (Some v) a n = Some bs \<longleftrightarrow> memory_read (Some (new_memory (Some full))) a n = Some bs" for bs
    unfolding parse_lazy_read [OF lazy eager src dis n] memory_read_exact [OF dis sized n]
    using full by blast
  then have "resolver_read (Some v) a n = memory_read (Some (new_memory (Some full))) a n"
    by (metis not_None_eq)
  moreover have "memory_read (Some (new_memory_from_reader (Some (resolver_read (Some v))))) a n =
      resolver_read (Some v) a n"
    using False by (simp add: memory_read_def new_memory_from_reader_def)
  ultimately show ?thesis by simp
qed

lemma lazy_decode_all:
  assumes lazy: "parse_lazy_contents src e (Some (bytes_read_at src)) opts = Inr (s, v)"
    and eager: "parse src e (keep_contents True opts) = Inr full"
    and src: "length src < 2 ^ 63" and dis: "objects_disjoint (hs_objects full)"
    and none: "lo_heap_memory lopts = None"
  shows "decode_all (Some s) l (lopts\<lparr>lo_heap_memory := Some (new_memory_from_reader (Some (resolver_read (Some v))))\<rparr>) =
    decode_all (Some full) l lopts"
proof (rule decode_all_memory_cong [OF _ none])
  show "memory_read (Some (new_memory_from_reader (Some (resolver_read (Some v))))) a n =
      memory_read (Some (new_memory (Some full))) a n" for a n
    by (rule lazy_memory_read [OF lazy eager src dis])
  have "Inr s = map_sum id drop_contents (Inr full :: go_error + heap_snapshot)"
    using parse_lazy_snapshot [of src e "bytes_read_at src" opts] lazy eager by simp
  then show "hs_goroutines s = hs_goroutines full" by (simp add: drop_contents_def)
qed

end
