(* ===== verification/MemRequest.thy ===== *)
theory MemRequest
  imports HeapLabels "HOL-Library.Multiset"
begin

text \<open>
  The request side of \<open>internal/memusage\<close>: requests, options and their validation
  (\<open>request.go\<close>), the response (\<open>response.go\<close>), label matching, and the diagnostics that decide
  whether a match set can be trusted (\<open>compute.go\<close>). A Go map of labels is the list of its
  entries in the order an iteration visits them, with distinct keys.
\<close>

section \<open>Requests, options and errors\<close>

definition DefaultRequestLabels :: int where "DefaultRequestLabels = 32"
definition DefaultMaxLabelKeyBytes :: int where "DefaultMaxLabelKeyBytes = 1024"
definition DefaultMaxLabelValueBytes :: int where "DefaultMaxLabelValueBytes = 4096"
definition DefaultMaxRequestBodyBytes :: int where "DefaultMaxRequestBodyBytes = 1048576"

record mem_request =
  rq_labels :: label_map

record mem_options =
  mo_scratch_dir :: string
  mo_min_free_bytes :: u64
  mo_max_dump_bytes :: i64
  mo_keep_provenance :: bool
  mo_gc_before :: bool
  mo_include_system :: bool
  mo_disable_process_reader :: bool
  mo_max_mem_range :: u64
  mo_max_labels :: int
  mo_max_key_bytes :: int
  mo_max_value_bytes :: int

text \<open>The concrete error types of the package; \<open>OtherError\<close> is any other error value.\<close>

datatype mem_error =
    ValidationError string message
  | UnsupportedRuntimeError string string
  | StringMissingError string string "message list"
  | LabelRecoveryFailedError string string int "message list"
  | CaptureFailedError go_error
  | ParseFailedError go_error
  | OtherError go_error

record mem_response =
  rp_labels :: label_map
  rp_matched :: int
  rp_objects :: int
  rp_bytes :: u64
  rp_global_objects :: int
  rp_global_bytes :: u64
  rp_system_objects :: int
  rp_system_bytes :: u64

definition effective_max_labels :: "mem_options \<Rightarrow> int" where
  "effective_max_labels o1 = (if mo_max_labels o1 \<le> 0 then DefaultRequestLabels else mo_max_labels o1)"

definition effective_max_key_bytes :: "mem_options \<Rightarrow> int" where
  "effective_max_key_bytes o1 =
     (if mo_max_key_bytes o1 \<le> 0 then DefaultMaxLabelKeyBytes else mo_max_key_bytes o1)"

definition effective_max_value_bytes :: "mem_options \<Rightarrow> int" where
  "effective_max_value_bytes o1 =
     (if mo_max_value_bytes o1 \<le> 0 then DefaultMaxLabelValueBytes else mo_max_value_bytes o1)"

text \<open>The checks of one entry, in order; then the loop, which stops at the first violation.\<close>

definition label_violation :: "int \<Rightarrow> int \<Rightarrow> string \<Rightarrow> string \<Rightarrow> mem_error option" where
  "label_violation max_key max_val k v =
     (if k = [] then
        Some (ValidationError ''empty_label_key'' (Fmt ''label key must be non-empty'' []))
      else if int (length k) > max_key then
        Some (ValidationError ''label_key_too_long''
          (Fmt ''label key length %d exceeds max %d'' [FI (int (length k)), FI max_key]))
      else if int (length v) > max_val then
        Some (ValidationError ''label_value_too_long''
          (Fmt ''label value length %d exceeds max %d'' [FI (int (length v)), FI max_val]))
      else None)"

fun first_violation :: "int \<Rightarrow> int \<Rightarrow> label_map \<Rightarrow> mem_error option" where
  "first_violation max_key max_val [] = None"
| "first_violation max_key max_val ((k, v) # ls) =
     (case label_violation max_key max_val k v of
        Some e \<Rightarrow> Some e
      | None \<Rightarrow> first_violation max_key max_val ls)"

definition validate_request :: "mem_request option \<Rightarrow> mem_options \<Rightarrow> mem_error option" where
  "validate_request req_opt opts =
     (case req_opt of
        None \<Rightarrow> Some (ValidationError ''invalid_request'' (Fmt ''missing request body'' []))
      | Some req \<Rightarrow>
          if rq_labels req = [] then
            Some (ValidationError ''empty_labels'' (Fmt ''labels must contain at least one key/value pair'' []))
          else if int (length (rq_labels req)) > effective_max_labels opts then
            Some (ValidationError ''too_many_labels''
              (Fmt ''labels map has %d entries, max is %d''
                [FI (int (length (rq_labels req))), FI (effective_max_labels opts)]))
          else first_violation (effective_max_key_bytes opts) (effective_max_value_bytes opts) (rq_labels req))"

definition labels_match :: "label_map \<Rightarrow> label_map \<Rightarrow> bool" where
  "labels_match have want =
     list_all (\<lambda>(k, v). case map_of have k of None \<Rightarrow> False | Some hv \<Rightarrow> hv = v) want"

text \<open>The labels of a goroutine; a goroutine without an entry has the nil map.\<close>

type_synonym gid_labels = "(u64 \<times> label_map) list"

definition labels_at :: "gid_labels \<Rightarrow> u64 \<Rightarrow> label_map" where
  "labels_at labels gid = (case map_of labels gid of None \<Rightarrow> [] | Some l \<Rightarrow> l)"

section \<open>Diagnostics\<close>

record diagnostics =
  dg_go_version :: string
  dg_goarch :: string
  dg_unsupported :: bool
  dg_string_missing :: int
  dg_failed :: int
  dg_string_missing_gids :: "u64 set option"
  dg_failed_gids :: "u64 set option"
  dg_warnings :: "message list"

definition counts_as_eligible :: "u64 set \<Rightarrow> u64 set \<Rightarrow> u64 \<Rightarrow> bool" where
  "counts_as_eligible known eligible gid = (if gid \<in> eligible then True else gid \<notin> known)"

text \<open>
  The counters of the two loops over the identifier sets: how many visited identifiers pass
  the conditions. A nil set has no elements.
\<close>

definition eligible_failures :: "diagnostics \<Rightarrow> u64 set \<Rightarrow> u64 set \<Rightarrow> int \<times> int" where
  "eligible_failures d known eligible =
     (if dg_failed_gids d = None \<and> dg_string_missing_gids d = None then
        (dg_string_missing d, dg_failed d)
      else
        let failed_gids = (case dg_failed_gids d of None \<Rightarrow> {} | Some s \<Rightarrow> s);
            missing_gids = (case dg_string_missing_gids d of None \<Rightarrow> {} | Some s \<Rightarrow> s);
            counted = Set.filter (counts_as_eligible known eligible) failed_gids;
            extra = Set.filter (\<lambda>gid. gid \<notin> failed_gids \<and> counts_as_eligible known eligible gid) missing_gids
        in (int (card (Set.filter (\<lambda>gid. gid \<in> missing_gids) counted)) + int (card extra),
            int (card counted) + int (card extra)))"

definition eligible_failure_error :: "diagnostics \<Rightarrow> u64 set \<Rightarrow> u64 set \<Rightarrow> mem_error option" where
  "eligible_failure_error d known eligible =
     (case eligible_failures d known eligible of
        (string_missing, failed) \<Rightarrow>
          if string_missing > 0 then
            Some (StringMissingError (dg_go_version d) (dg_goarch d) (dg_warnings d))
          else if failed > 0 then
            Some (LabelRecoveryFailedError (dg_go_version d) (dg_goarch d) failed (dg_warnings d))
          else None)"

text \<open>One goroutine of the loop of \<open>DiagnosticsFromHeapLabels\<close>; a nil set is made on first use.\<close>

definition set_add :: "'a \<Rightarrow> 'a set option \<Rightarrow> 'a set option" where
  "set_add x s = (case s of None \<Rightarrow> Some {x} | Some xs \<Rightarrow> Some (insert x xs))"

definition add_failure :: "goroutine_labels \<Rightarrow> diagnostics \<Rightarrow> diagnostics" where
  "add_failure gr d =
     (if gl_status gr = StatusDecoded \<or> gl_status gr = StatusNoLabels \<or>
         gl_status gr = StatusUnsupportedRuntime then d
      else
        let d = d\<lparr>dg_failed_gids := set_add (gl_gid gr) (dg_failed_gids d)\<rparr>
        in if gl_status gr = StatusStringMissing
           then d\<lparr>dg_string_missing_gids := set_add (gl_gid gr) (dg_string_missing_gids d)\<rparr>
           else d)"

definition zero_diagnostics :: diagnostics where
  "zero_diagnostics = \<lparr>dg_go_version = [], dg_goarch = [], dg_unsupported = False,
     dg_string_missing = 0, dg_failed = 0, dg_string_missing_gids = None, dg_failed_gids = None,
     dg_warnings = []\<rparr>"

definition diagnostics_from_heap_labels :: "heap_snapshot option \<Rightarrow> label_result \<Rightarrow> diagnostics" where
  "diagnostics_from_heap_labels snap_opt res =
     (let st = lr_stats res;
          d = (case snap_opt of
                 None \<Rightarrow> zero_diagnostics
               | Some snap \<Rightarrow> zero_diagnostics\<lparr>dg_go_version := dp_build_version (hs_params snap),
                   dg_goarch := dp_goarch (hs_params snap)\<rparr>);
          d = d\<lparr>dg_string_missing := ls_strings_missing st, dg_failed := ls_failed st\<rparr>;
          d = fold add_failure (lr_goroutines res) d;
          d = (if ls_total st > 0 \<and> ls_unsupported st = ls_total st
               then d\<lparr>dg_unsupported := True\<rparr> else d);
          d = (if dg_string_missing d > 0
               then d\<lparr>dg_warnings := dg_warnings d @
                 [Fmt ''heap-native label recovery found label structures but could not read all key/value strings'' []]\<rparr>
               else d);
          d = (if dg_failed d > 0 \<and> dg_string_missing d < dg_failed d
               then d\<lparr>dg_warnings := dg_warnings d @
                 [Fmt ''heap-native label recovery failed for %d goroutine(s)'' [FI (dg_failed d)]]\<rparr>
               else d)
      in d\<lparr>dg_warnings := dg_warnings d @ lr_warnings res\<rparr>)"

section \<open>What validation and matching promise\<close>

lemma first_violation_None:
  "first_violation mk mv ls = None \<longleftrightarrow>
    list_all (\<lambda>(k, v). k \<noteq> [] \<and> int (length k) \<le> mk \<and> int (length v) \<le> mv) ls"
  by (induction mk mv ls rule: first_violation.induct)
    (auto simp: label_violation_def split: if_splits)

lemma validate_request_ok_iff:
  "validate_request (Some req) opts = None \<longleftrightarrow>
    rq_labels req \<noteq> [] \<and> int (length (rq_labels req)) \<le> effective_max_labels opts \<and>
    list_all (\<lambda>(k, v). k \<noteq> [] \<and> int (length k) \<le> effective_max_key_bytes opts \<and>
      int (length v) \<le> effective_max_value_bytes opts) (rq_labels req)"
  by (auto simp: validate_request_def first_violation_None)

lemma first_violation_kind: "first_violation mk mv ls = Some e \<Longrightarrow> \<exists>code msg. e = ValidationError code msg"
  by (induction mk mv ls rule: first_violation.induct)
    (auto simp: label_violation_def split: if_splits)

lemma validate_request_kind:
  "validate_request req opts = Some e \<Longrightarrow> \<exists>code msg. e = ValidationError code msg"
  by (auto simp: validate_request_def first_violation_kind split: option.splits if_splits)

text \<open>Whether a request is accepted does not depend on the order its labels are visited in.\<close>

lemma validate_request_perm:
  "mset (rq_labels a) = mset (rq_labels b) \<Longrightarrow>
    validate_request (Some a) opts = None \<longleftrightarrow> validate_request (Some b) opts = None"
  by (auto simp: validate_request_ok_iff list_all_iff dest: mset_eq_length mset_eq_setD)

lemma labels_match_iff:
  "labels_match have want \<longleftrightarrow> (\<forall>(k, v) \<in> set want. map_of have k = Some v)"
  by (auto simp: labels_match_def list_all_iff split: option.splits)

lemma labels_match_map_le:
  "distinct (map fst want) \<Longrightarrow> labels_match have want \<longleftrightarrow> map_of want \<subseteq>\<^sub>m map_of have"
  by (auto simp: labels_match_iff map_le_def dom_def)

lemma labels_match_refl: "distinct (map fst l) \<Longrightarrow> labels_match l l"
  by (simp add: labels_match_map_le)

lemma labels_match_trans:
  "distinct (map fst b) \<Longrightarrow> distinct (map fst c) \<Longrightarrow>
    labels_match a b \<Longrightarrow> labels_match b c \<Longrightarrow> labels_match a c"
  by (auto simp: labels_match_map_le intro: map_le_trans)

section \<open>What the diagnostics promise\<close>

definition failed_status :: "decode_status \<Rightarrow> bool" where
  "failed_status st \<longleftrightarrow> st \<noteq> StatusDecoded \<and> st \<noteq> StatusNoLabels \<and> st \<noteq> StatusUnsupportedRuntime"

definition failed_ids :: "goroutine_labels list \<Rightarrow> u64 set" where
  "failed_ids gs = gl_gid ` {gr \<in> set gs. failed_status (gl_status gr)}"

definition missing_ids :: "goroutine_labels list \<Rightarrow> u64 set" where
  "missing_ids gs = gl_gid ` {gr \<in> set gs. gl_status gr = StatusStringMissing}"

definition ids_of :: "u64 set option \<Rightarrow> u64 set" where
  "ids_of s = (case s of None \<Rightarrow> {} | Some x \<Rightarrow> x)"

lemma ids_of_set_add [simp]: "ids_of (set_add x s) = insert x (ids_of s)" "set_add x s \<noteq> None"
  by (simp_all add: ids_of_def set_add_def split: option.splits)

lemma fold_add_failure:
  "ids_of (dg_failed_gids (fold add_failure gs d)) = ids_of (dg_failed_gids d) \<union> failed_ids gs \<and>
   ids_of (dg_string_missing_gids (fold add_failure gs d)) = ids_of (dg_string_missing_gids d) \<union> missing_ids gs \<and>
   (dg_failed_gids (fold add_failure gs d) = None \<longleftrightarrow> dg_failed_gids d = None \<and> failed_ids gs = {}) \<and>
   dg_failed (fold add_failure gs d) = dg_failed d \<and>
   dg_string_missing (fold add_failure gs d) = dg_string_missing d"
proof (induction gs arbitrary: d)
  case Nil
  then show ?case by (simp add: failed_ids_def missing_ids_def)
next
  case (Cons gr gs)
  have ids: "failed_ids (gr # gs) = (if failed_status (gl_status gr) then {gl_gid gr} else {}) \<union> failed_ids gs"
    "missing_ids (gr # gs) = (if gl_status gr = StatusStringMissing then {gl_gid gr} else {}) \<union> missing_ids gs"
    by (auto simp: failed_ids_def missing_ids_def)
  show ?case
    using Cons.IH [of "add_failure gr d"]
    by (auto simp: ids add_failure_def failed_status_def Let_def)
qed

lemma missing_ids_failed: "missing_ids gs \<subseteq> failed_ids gs"
  by (auto simp: missing_ids_def failed_ids_def failed_status_def)

lemma diagnostics_gids:
  "ids_of (dg_failed_gids (diagnostics_from_heap_labels s res)) = failed_ids (lr_goroutines res)"
  "ids_of (dg_string_missing_gids (diagnostics_from_heap_labels s res)) = missing_ids (lr_goroutines res)"
  "dg_failed (diagnostics_from_heap_labels s res) = ls_failed (lr_stats res)"
  "dg_string_missing (diagnostics_from_heap_labels s res) = ls_strings_missing (lr_stats res)"
  "dg_failed_gids (diagnostics_from_heap_labels s res) = None \<longleftrightarrow> failed_ids (lr_goroutines res) = {}"
  using fold_add_failure
  by (auto simp: diagnostics_from_heap_labels_def Let_def zero_diagnostics_def ids_of_def split: option.split)

text \<open>
  With the failed identifiers at hand, an error is raised exactly when some failed goroutine is
  eligible or unknown to the analysis.
\<close>

lemma finite_u64 [simp]: "finite (A :: u64 set)"
  by (rule finite)

lemma eligible_failure_error_None:
  assumes "dg_failed_gids d \<noteq> None \<or> dg_string_missing_gids d \<noteq> None"
  shows "eligible_failure_error d known eligible = None \<longleftrightarrow>
    (\<forall>gid \<in> ids_of (dg_failed_gids d) \<union> ids_of (dg_string_missing_gids d). gid \<in> known \<and> gid \<notin> eligible)"
proof -
  let ?F = "ids_of (dg_failed_gids d)" and ?S = "ids_of (dg_string_missing_gids d)"
  let ?C = "counts_as_eligible known eligible"
  define A where "A = Set.filter ?C ?F"
  define B where "B = Set.filter (\<lambda>gid. gid \<notin> ?F \<and> ?C gid) ?S"
  define M where "M = Set.filter (\<lambda>gid. gid \<in> ?S) A"
  have run: "eligible_failures d known eligible = (int (card M) + int (card B), int (card A) + int (card B))"
    using assms by (auto simp: eligible_failures_def Let_def ids_of_def A_def B_def M_def)
  have "M \<subseteq> A" by (auto simp: M_def)
  then have "card M \<le> card A" by (simp add: card_mono)
  then have "eligible_failure_error d known eligible = None \<longleftrightarrow> \<not> 0 < int (card A) + int (card B)"
    by (auto simp: eligible_failure_error_def run simp del: of_nat_add)
  also have "\<dots> \<longleftrightarrow> card A = 0 \<and> card B = 0" by linarith
  also have "\<dots> \<longleftrightarrow> A = {} \<and> B = {}" by simp
  also have "\<dots> \<longleftrightarrow> (\<forall>gid \<in> ?F \<union> ?S. \<not> ?C gid)" by (auto simp: A_def B_def)
  finally show ?thesis by (auto simp: counts_as_eligible_def)
qed

end
