(* ===== verification/MemCompute.thy ===== *)
theory MemCompute
  imports MemRequest ObjectGraph
begin

text \<open>
  The computation behind a memory usage query (\<open>internal/memusage/compute.go\<close>): the goroutines
  a selector matches, one walk from their roots, and the overlaps with the global and the system
  roots, with the cache of the two walks that do not depend on the selector. Object sets are
  sets; the sums over them add \<open>uint64\<close> values with wrap-around, in any order.
\<close>

section \<open>Object sets\<close>

definition goroutine_roots_of :: "goroutine_reach list \<Rightarrow> root_ref list" where
  "goroutine_roots_of gs = concat (map gor_roots gs)"

definition reachable_from_goroutines :: "graph option \<Rightarrow> goroutine_reach list \<Rightarrow> object_id set" where
  "reachable_from_goroutines g gs =
     (if g = None \<or> gs = [] then {}
      else if goroutine_roots_of gs = [] then {}
      else reachable_from g (goroutine_roots_of gs))"

definition object_size :: "graph \<Rightarrow> object_id \<Rightarrow> u64" where
  "object_size g i = (if unat i < length (gr_objects g) then ob_size (gr_objects g ! unat i) else 0)"

definition object_set_bytes :: "graph option \<Rightarrow> object_id set \<Rightarrow> u64" where
  "object_set_bytes g s = (case g of None \<Rightarrow> 0 | Some gr \<Rightarrow> sum (object_size gr) s)"

definition intersect_count_bytes :: "graph option \<Rightarrow> object_id set \<Rightarrow> object_id set \<Rightarrow> int \<times> u64" where
  "intersect_count_bytes g a b =
     (case g of
        None \<Rightarrow> (0, 0)
      | Some gr \<Rightarrow>
          if a = {} \<or> b = {} then (0, 0)
          else
            case (if card b < card a then (b, a) else (a, b)) of
              (a, b) \<Rightarrow>
                let both = Set.filter (\<lambda>i. i \<in> b) a
                in (int (card both), sum (object_size gr) both))"

section \<open>Selecting goroutines\<close>

record selection =
  sl_matched :: "goroutine_reach list"
  sl_system :: "goroutine_reach list"
  sl_known :: "u64 set"
  sl_eligible :: "u64 set"

definition no_selection :: selection where
  "no_selection = \<lparr>sl_matched = [], sl_system = [], sl_known = {}, sl_eligible = {}\<rparr>"

definition is_system :: "goroutine_reach \<Rightarrow> bool" where
  "is_system gr \<longleftrightarrow> gor_is_system gr \<or> gor_is_background gr"

definition select_goroutine ::
  "mem_options \<Rightarrow> gid_labels \<Rightarrow> label_map \<Rightarrow> u64 set option \<Rightarrow> goroutine_reach \<Rightarrow> selection \<Rightarrow> selection"
where
  "select_goroutine opts labels want candidates gr sl =
     (let sl = sl\<lparr>sl_known := insert (gor_id gr) (sl_known sl)\<rparr>;
          sl = (if is_system gr then sl\<lparr>sl_system := sl_system sl @ [gr]\<rparr> else sl)
      in if is_system gr \<and> \<not> mo_include_system opts then sl
         else
           let sl = sl\<lparr>sl_eligible := insert (gor_id gr) (sl_eligible sl)\<rparr>;
               have = labels_at labels (gor_id gr)
           in if (case candidates of None \<Rightarrow> False | Some ids \<Rightarrow> gor_id gr \<notin> ids) then sl
              else if \<not> labels_match have want then sl
              else sl\<lparr>sl_matched := sl_matched sl @ [gr]\<rparr>)"

definition select_goroutines ::
  "mem_options \<Rightarrow> gid_labels \<Rightarrow> label_map \<Rightarrow> u64 set option \<Rightarrow> goroutine_reach list \<Rightarrow> selection"
where
  "select_goroutines opts labels want candidates gs =
     fold (select_goroutine opts labels want candidates) gs no_selection"

section \<open>The computation\<close>

record invariant_reach =
  ir_global :: "object_id set option"
  ir_system :: "object_id set option"

text \<open>A walk that is cached when there is a cache.\<close>

definition cached ::
  "(invariant_reach \<Rightarrow> object_id set option) \<Rightarrow>
    (object_id set \<Rightarrow> invariant_reach \<Rightarrow> invariant_reach) \<Rightarrow>
    object_id set \<Rightarrow> invariant_reach option \<Rightarrow> object_id set \<times> invariant_reach option"
where
  "cached get put walk cache =
     (case cache of
        None \<Rightarrow> (walk, None)
      | Some c \<Rightarrow>
          (case get c of
             Some s \<Rightarrow> (s, Some c)
           | None \<Rightarrow> (walk, Some (put walk c))))"

definition global_walk :: "analysis \<Rightarrow> invariant_reach option \<Rightarrow> object_id set \<times> invariant_reach option" where
  "global_walk an =
     cached ir_global (\<lambda>s. ir_global_update (\<lambda>_. Some s))
       (reachable_from (an_graph an) (glr_roots (an_globals an)))"

definition system_walk ::
  "mem_options \<Rightarrow> analysis \<Rightarrow> goroutine_reach list \<Rightarrow> invariant_reach option \<Rightarrow>
    object_id set \<times> invariant_reach option"
where
  "system_walk opts an system cache =
     (if \<not> mo_include_system opts \<and> system \<noteq> []
      then cached ir_system (\<lambda>s. ir_system_update (\<lambda>_. Some s))
             (reachable_from_goroutines (an_graph an) system) cache
      else ({}, cache))"

text \<open>The overlap walks are skipped when nothing is reached.\<close>

definition overlap_walks ::
  "mem_options \<Rightarrow> analysis \<Rightarrow> goroutine_reach list \<Rightarrow> object_id set \<Rightarrow> invariant_reach option \<Rightarrow>
    object_id set \<times> object_id set \<times> invariant_reach option"
where
  "overlap_walks opts an system reach cache =
     (if reach = {} then ({}, {}, cache)
      else
        case global_walk an cache of (global, cache) \<Rightarrow>
        case system_walk opts an system cache of (sys, cache) \<Rightarrow> (global, sys, cache))"

definition make_response ::
  "graph option \<Rightarrow> label_map \<Rightarrow> goroutine_reach list \<Rightarrow> object_id set \<Rightarrow> object_id set \<Rightarrow> object_id set \<Rightarrow>
    mem_response"
where
  "make_response g want matched reach global sys =
     (case (intersect_count_bytes g reach global, intersect_count_bytes g reach sys) of
        ((global_count, global_bytes), (system_count, system_bytes)) \<Rightarrow>
          \<lparr>rp_labels = want, rp_matched = int (length matched), rp_objects = int (card reach),
           rp_bytes = object_set_bytes g reach, rp_global_objects = global_count,
           rp_global_bytes = global_bytes, rp_system_objects = system_count,
           rp_system_bytes = system_bytes\<rparr>)"

definition compute_with ::
  "mem_request \<Rightarrow> analysis option \<Rightarrow> gid_labels \<Rightarrow> diagnostics \<Rightarrow> mem_options \<Rightarrow>
    invariant_reach option \<Rightarrow> u64 set option \<Rightarrow> (mem_error + mem_response) \<times> invariant_reach option"
where
  "compute_with req an_opt labels diag opts cache candidates =
     (case validate_request (Some req) opts of
        Some e \<Rightarrow> (Inl e, cache)
      | None \<Rightarrow>
     (case an_opt of
        None \<Rightarrow> (Inl (OtherError (Errorf (Fmt ''memusage: analysis is nil'' []))), cache)
      | Some an \<Rightarrow>
          if an_graph an = None then
            (Inl (OtherError (Errorf (Fmt ''memusage: analysis has no graph'' []))), cache)
          else if dg_unsupported diag then
            (Inl (UnsupportedRuntimeError (dg_go_version diag) (dg_goarch diag)), cache)
          else
            let sl = select_goroutines opts labels (rq_labels req) candidates (an_goroutines an) in
            case eligible_failure_error diag (sl_known sl) (sl_eligible sl) of
              Some e \<Rightarrow> (Inl e, cache)
            | None \<Rightarrow>
                let reach = reachable_from_goroutines (an_graph an) (sl_matched sl) in
                case overlap_walks opts an (sl_system sl) reach cache of
                  (global, sys, cache) \<Rightarrow>
                    (Inr (make_response (an_graph an) (rq_labels req) (sl_matched sl) reach global sys), cache)))"

definition compute_from_analysis ::
  "mem_request \<Rightarrow> analysis option \<Rightarrow> gid_labels \<Rightarrow> diagnostics \<Rightarrow> mem_options \<Rightarrow> mem_error + mem_response"
where
  "compute_from_analysis req an labels diag opts = fst (compute_with req an labels diag opts None None)"

section \<open>Which goroutines are selected\<close>

definition eligible_goroutine :: "mem_options \<Rightarrow> goroutine_reach \<Rightarrow> bool" where
  "eligible_goroutine opts gr \<longleftrightarrow> \<not> is_system gr \<or> mo_include_system opts"

definition matching :: "mem_options \<Rightarrow> gid_labels \<Rightarrow> label_map \<Rightarrow> goroutine_reach list \<Rightarrow> goroutine_reach list" where
  "matching opts labels want gs =
     filter (\<lambda>gr. eligible_goroutine opts gr \<and> labels_match (labels_at labels (gor_id gr)) want) gs"

definition candidates_ok ::
  "mem_options \<Rightarrow> gid_labels \<Rightarrow> label_map \<Rightarrow> goroutine_reach list \<Rightarrow> u64 set option \<Rightarrow> bool"
where
  "candidates_ok opts labels want gs candidates \<longleftrightarrow>
     (\<forall>ids. candidates = Some ids \<longrightarrow> gor_id ` set (matching opts labels want gs) \<subseteq> ids)"

lemma select_fold:
  assumes "candidates_ok opts labels want gs candidates"
  shows "fold (select_goroutine opts labels want candidates) gs sl =
    sl\<lparr>sl_matched := sl_matched sl @ matching opts labels want gs,
       sl_system := sl_system sl @ filter is_system gs,
       sl_known := gor_id ` set gs \<union> sl_known sl,
       sl_eligible := gor_id ` set (filter (eligible_goroutine opts) gs) \<union> sl_eligible sl\<rparr>"
  using assms
proof (induction gs arbitrary: sl)
  case Nil
  then show ?case by (simp add: matching_def)
next
  case (Cons gr gs)
  have ok: "candidates_ok opts labels want gs candidates"
    using Cons.prems by (auto simp: candidates_ok_def matching_def split: if_splits)
  have hd: "gor_id gr \<in> ids" if "candidates = Some ids" "eligible_goroutine opts gr"
    "labels_match (labels_at labels (gor_id gr)) want" for ids
    using Cons.prems that by (auto simp: candidates_ok_def matching_def)
  show ?case
    unfolding fold_Cons comp_apply Cons.IH [OF ok]
    using hd by (cases candidates)
      (auto simp: select_goroutine_def Let_def matching_def eligible_goroutine_def)
qed

lemma select_goroutines_eq:
  assumes "candidates_ok opts labels want gs candidates"
  shows "select_goroutines opts labels want candidates gs =
    \<lparr>sl_matched = matching opts labels want gs, sl_system = filter is_system gs,
     sl_known = gor_id ` set gs, sl_eligible = gor_id ` set (filter (eligible_goroutine opts) gs)\<rparr>"
  using select_fold [OF assms, of no_selection]
  by (simp add: select_goroutines_def no_selection_def)

lemma candidates_None [simp]: "candidates_ok opts labels want gs None"
  by (simp add: candidates_ok_def)

section \<open>The cache and the candidates are transparent\<close>

definition system_reach_of :: "analysis \<Rightarrow> object_id set" where
  "system_reach_of an = reachable_from_goroutines (an_graph an) (filter is_system (an_goroutines an))"

definition global_reach_of :: "analysis \<Rightarrow> object_id set" where
  "global_reach_of an = reachable_from (an_graph an) (glr_roots (an_globals an))"

definition cache_ok :: "analysis \<Rightarrow> invariant_reach option \<Rightarrow> bool" where
  "cache_ok an cache \<longleftrightarrow>
     (\<forall>c. cache = Some c \<longrightarrow>
        (\<forall>s. ir_global c = Some s \<longrightarrow> s = global_reach_of an) \<and>
        (\<forall>s. ir_system c = Some s \<longrightarrow> s = system_reach_of an))"

lemma cache_ok_None [simp]: "cache_ok an None"
  by (simp add: cache_ok_def)

lemma cached_fst:
  assumes "\<And>c s. cache = Some c \<Longrightarrow> get c = Some s \<Longrightarrow> s = walk"
  shows "fst (cached get put walk cache) = walk"
  using assms by (simp add: cached_def split: option.splits)

lemma cached_snd_None: "snd (cached get put walk cache) = None \<longleftrightarrow> cache = None"
  by (simp add: cached_def split: option.splits)

lemma global_walk_ok:
  assumes "cache_ok an cache"
  obtains cache' where "global_walk an cache = (global_reach_of an, cache')" "cache_ok an cache'"
    "cache' = None \<longleftrightarrow> cache = None"
proof (rule that [of "snd (global_walk an cache)"])
  have "fst (global_walk an cache) = global_reach_of an"
    using assms unfolding global_walk_def global_reach_of_def cache_ok_def
    by (intro cached_fst) blast
  then show "global_walk an cache = (global_reach_of an, snd (global_walk an cache))" by (simp add: prod_eq_iff)
  show "cache_ok an (snd (global_walk an cache))"
    using assms by (auto simp: global_walk_def cached_def cache_ok_def global_reach_of_def split: option.split)
  show "snd (global_walk an cache) = None \<longleftrightarrow> cache = None"
    by (simp add: global_walk_def cached_snd_None)
qed

lemma system_walk_ok:
  assumes "cache_ok an cache"
  obtains cache' where "system_walk opts an (filter is_system (an_goroutines an)) cache =
      (if mo_include_system opts \<or> filter is_system (an_goroutines an) = [] then {} else system_reach_of an, cache')"
    "cache_ok an cache'" "cache' = None \<longleftrightarrow> cache = None"
proof (cases "mo_include_system opts \<or> filter is_system (an_goroutines an) = []")
  case True
  then show ?thesis using that assms by (auto simp: system_walk_def)
next
  case False
  let ?r = "cached ir_system (\<lambda>s. ir_system_update (\<lambda>_. Some s)) (system_reach_of an) cache"
  have run: "system_walk opts an (filter is_system (an_goroutines an)) cache = ?r"
    using False by (simp add: system_walk_def system_reach_of_def)
  have "fst ?r = system_reach_of an"
    using assms unfolding cache_ok_def by (intro cached_fst) blast
  then have "?r = (system_reach_of an, snd ?r)" by (simp add: prod_eq_iff)
  moreover have "cache_ok an (snd ?r)"
    using assms by (auto simp: cached_def cache_ok_def split: option.split)
  ultimately show ?thesis
    using that [of "snd ?r"] False by (simp add: run cached_snd_None)
qed

lemma system_reach_none [simp]:
  "filter is_system (an_goroutines an) = [] \<Longrightarrow> system_reach_of an = {}"
  by (simp add: system_reach_of_def reachable_from_goroutines_def)

lemma overlap_walks_ok:
  assumes "cache_ok an cache"
  obtains cache' where "overlap_walks opts an (filter is_system (an_goroutines an)) reach cache =
      (if reach = {} then {} else global_reach_of an,
       if reach = {} \<or> mo_include_system opts then {} else system_reach_of an, cache')"
    "cache_ok an cache'" "cache' = None \<longleftrightarrow> cache = None"
proof (cases "reach = {}")
  case True
  then show ?thesis using that assms by (simp add: overlap_walks_def)
next
  case False
  obtain c1 where g: "global_walk an cache = (global_reach_of an, c1)" "cache_ok an c1" "c1 = None \<longleftrightarrow> cache = None"
    by (rule global_walk_ok [OF assms])
  obtain c2 where s: "system_walk opts an (filter is_system (an_goroutines an)) c1 =
      (if mo_include_system opts \<or> filter is_system (an_goroutines an) = [] then {} else system_reach_of an, c2)"
    "cache_ok an c2" "c2 = None \<longleftrightarrow> c1 = None"
    by (rule system_walk_ok [OF g(2)])
  show ?thesis
    by (rule that [of c2]) (use False g s in \<open>auto simp: overlap_walks_def\<close>)
qed

text \<open>What a query answers, without the cache, the candidates or the loops.\<close>

definition selected_reach :: "mem_options \<Rightarrow> gid_labels \<Rightarrow> label_map \<Rightarrow> analysis \<Rightarrow> object_id set" where
  "selected_reach opts labels want an =
     reachable_from_goroutines (an_graph an) (matching opts labels want (an_goroutines an))"

definition trusted :: "mem_options \<Rightarrow> diagnostics \<Rightarrow> analysis \<Rightarrow> mem_error option" where
  "trusted opts diag an =
     eligible_failure_error diag (gor_id ` set (an_goroutines an))
       (gor_id ` set (filter (eligible_goroutine opts) (an_goroutines an)))"

definition reference_response ::
  "mem_request \<Rightarrow> analysis \<Rightarrow> gid_labels \<Rightarrow> diagnostics \<Rightarrow> mem_options \<Rightarrow> mem_error + mem_response"
where
  "reference_response req an labels diag opts =
     (case trusted opts diag an of
        Some e \<Rightarrow> Inl e
      | None \<Rightarrow>
          let R = selected_reach opts labels (rq_labels req) an;
              G = R \<inter> global_reach_of an;
              S = (if mo_include_system opts then {} else R \<inter> system_reach_of an)
          in Inr \<lparr>rp_labels = rq_labels req,
               rp_matched = int (length (matching opts labels (rq_labels req) (an_goroutines an))),
               rp_objects = int (card R), rp_bytes = object_set_bytes (an_graph an) R,
               rp_global_objects = int (card G), rp_global_bytes = object_set_bytes (an_graph an) G,
               rp_system_objects = int (card S), rp_system_bytes = object_set_bytes (an_graph an) S\<rparr>)"

lemma intersect_count_bytes_eq:
  "intersect_count_bytes (Some g) a b = (int (card (a \<inter> b)), object_set_bytes (Some g) (a \<inter> b))"
proof -
  have "Set.filter (\<lambda>i. i \<in> b) a = a \<inter> b" "Set.filter (\<lambda>i. i \<in> a) b = a \<inter> b" by auto
  then show ?thesis by (auto simp: intersect_count_bytes_def object_set_bytes_def Let_def)
qed

lemma compute_with_eq:
  assumes "validate_request (Some req) opts = None" "an_graph an \<noteq> None" "\<not> dg_unsupported diag"
    and "cache_ok an cache"
    and "candidates_ok opts labels (rq_labels req) (an_goroutines an) candidates"
  obtains cache' where "compute_with req (Some an) labels diag opts cache candidates =
      (reference_response req an labels diag opts, cache')"
    "cache_ok an cache'" "cache' = None \<longleftrightarrow> cache = None"
proof -
  note sel = select_goroutines_eq [OF assms(5)]
  let ?R = "selected_reach opts labels (rq_labels req) an"
  obtain g where g: "an_graph an = Some g" using assms(2) by blast
  obtain cache' where ov: "overlap_walks opts an (filter is_system (an_goroutines an)) ?R cache =
      (if ?R = {} then {} else global_reach_of an,
       if ?R = {} \<or> mo_include_system opts then {} else system_reach_of an, cache')"
    and ok: "cache_ok an cache'" "cache' = None \<longleftrightarrow> cache = None"
    by (rule overlap_walks_ok [OF assms(4)])
  show ?thesis
  proof (cases "trusted opts diag an")
    case None
    have "compute_with req (Some an) labels diag opts cache candidates =
        (reference_response req an labels diag opts, cache')"
      using assms(1,3) None ov
      by (simp add: compute_with_def g sel trusted_def reference_response_def selected_reach_def
          make_response_def intersect_count_bytes_eq Let_def object_set_bytes_def)
    then show ?thesis using ok by (rule that)
  next
    case (Some e)
    have "compute_with req (Some an) labels diag opts cache candidates =
        (reference_response req an labels diag opts, cache)"
      using assms(1,3) Some by (simp add: compute_with_def g sel trusted_def reference_response_def Let_def)
    then show ?thesis using assms(4) by (rule that) simp
  qed
qed

text \<open>The early errors do not touch the cache either, and do not depend on it.\<close>

lemma compute_with_cases:
  assumes "cache_ok an cache"
    and "candidates_ok opts labels (rq_labels req) (an_goroutines an) candidates"
  shows "fst (compute_with req (Some an) labels diag opts cache candidates) =
      compute_from_analysis req (Some an) labels diag opts \<and>
    cache_ok an (snd (compute_with req (Some an) labels diag opts cache candidates)) \<and>
    (snd (compute_with req (Some an) labels diag opts cache candidates) = None \<longleftrightarrow> cache = None)"
proof (cases "validate_request (Some req) opts = None \<and> an_graph an \<noteq> None \<and> \<not> dg_unsupported diag")
  case True
  then have run: "validate_request (Some req) opts = None" "an_graph an \<noteq> None" "\<not> dg_unsupported diag"
    by simp_all
  obtain c1 where c1: "compute_with req (Some an) labels diag opts cache candidates =
      (reference_response req an labels diag opts, c1)" "cache_ok an c1" "c1 = None \<longleftrightarrow> cache = None"
    by (rule compute_with_eq [OF run assms])
  obtain c2 where c2: "compute_with req (Some an) labels diag opts None None =
      (reference_response req an labels diag opts, c2)"
    by (rule compute_with_eq [OF run cache_ok_None candidates_None])
  show ?thesis unfolding compute_from_analysis_def c1(1) c2 using c1(2,3) by simp
next
  case False
  then show ?thesis
    using assms(1) by (auto simp: compute_from_analysis_def compute_with_def split: option.splits)
qed

lemma compute_from_analysis_eq:
  assumes "validate_request (Some req) opts = None" "an_graph an \<noteq> None" "\<not> dg_unsupported diag"
  shows "compute_from_analysis req (Some an) labels diag opts = reference_response req an labels diag opts"
proof -
  obtain c2 where c2: "compute_with req (Some an) labels diag opts None None =
      (reference_response req an labels diag opts, c2)"
    by (rule compute_with_eq [OF assms cache_ok_None candidates_None])
  then show ?thesis by (simp add: compute_from_analysis_def)
qed

text \<open>A response is only given for a valid request on a trusted match set.\<close>

lemma compute_InrD:
  assumes "compute_from_analysis req an labels diag opts = Inr resp"
  obtains a where "an = Some a" "an_graph a \<noteq> None" "validate_request (Some req) opts = None"
    "\<not> dg_unsupported diag" "trusted opts diag a = None"
    "reference_response req a labels diag opts = Inr resp"
proof -
  from assms obtain a where a: "an = Some a" "an_graph a \<noteq> None" "validate_request (Some req) opts = None"
    "\<not> dg_unsupported diag"
    by (auto simp: compute_from_analysis_def compute_with_def split: option.splits if_splits)
  with assms compute_from_analysis_eq [of req opts a diag labels]
  have "reference_response req a labels diag opts = Inr resp" by simp
  with a show ?thesis by (intro that) (auto simp: reference_response_def split: option.splits)
qed

section \<open>Reachability from goroutines\<close>

lemma reachable_from_goroutines_closure:
  "reachable_from_goroutines (Some g) gs =
    closure (valid_id (Some g)) (children g) (map rr_object_id (goroutine_roots_of gs))"
proof -
  have none: "closure ok cs [] = {}" for ok and cs :: "object_id \<Rightarrow> object_id list"
    by (simp add: closure_def)
  have "goroutine_roots_of [] = []" by (simp add: goroutine_roots_of_def)
  then show ?thesis
    by (cases "goroutine_roots_of gs = []") (auto simp: reachable_from_goroutines_def reachable_from_closure none)
qed

end
