(* ===== verification/MemSession.thy ===== *)
theory MemSession
  imports MemCompute GraphFacts HeapLabelFacts
begin

text \<open>
  A reusable session over one dump (\<open>internal/memusage/snapshot.go\<close>) and the pipeline that makes
  it (\<open>analyze.go\<close>, \<open>allocation.go\<close>, the recoverer of \<open>capture.go\<close>): parse, label recovery, graph
  build, the inverted label index, and queries through the index and the cache of invariant
  walks. Every method holds the mutex for its whole body, so a session is a state changed by one
  operation after another.
\<close>

section \<open>Allocation evidence\<close>

definition hex_address :: "u64 \<Rightarrow> string" where
  "hex_address n = ''0x'' @ format_nat 16 (unat n)"

record alloc_evidence =
  ae_sample_address :: string
  ae_bucket_address :: string
  ae_offset :: u64
  ae_profile :: mem_profile

text \<open>The buckets by identifier, the last profile winning, and the identifiers seen twice.\<close>

definition add_bucket ::
  "mem_profile \<Rightarrow> (u64 \<rightharpoonup> mem_profile) \<times> u64 set \<Rightarrow> (u64 \<rightharpoonup> mem_profile) \<times> u64 set"
where
  "add_bucket b st =
     (case st of (buckets, duplicates) \<Rightarrow>
        (buckets(mp_bucket b \<mapsto> b),
         if buckets (mp_bucket b) \<noteq> None then insert (mp_bucket b) duplicates else duplicates))"

type_synonym allocations = "object_id \<rightharpoonup> alloc_evidence list"

definition allocations_at :: "allocations \<Rightarrow> object_id \<Rightarrow> alloc_evidence list" where
  "allocations_at al i = (case al i of None \<Rightarrow> [] | Some es \<Rightarrow> es)"

definition add_sample ::
  "graph option \<Rightarrow> (u64 \<rightharpoonup> mem_profile) \<Rightarrow> u64 set \<Rightarrow> allocation_sample \<Rightarrow>
    allocations \<times> int \<Rightarrow> allocations \<times> int"
where
  "add_sample g buckets duplicates sample st =
     (case st of (al, unresolved) \<Rightarrow>
        case (buckets (as_bucket sample), find_object_containing g (as_address sample)) of
          (Some b, Some i) \<Rightarrow>
            if as_bucket sample \<in> duplicates then (al, unresolved + 1)
            else
              (al(i \<mapsto> allocations_at al i @
                 [\<lparr>ae_sample_address = hex_address (as_address sample),
                   ae_bucket_address = hex_address (as_bucket sample),
                   ae_offset = as_address sample - ob_addr (gr_objects (the g) ! unat i),
                   ae_profile = b\<rparr>]), unresolved)
        | _ \<Rightarrow> (al, unresolved + 1))"

definition associate_samples :: "graph option \<Rightarrow> heap_snapshot \<Rightarrow> allocations \<times> int" where
  "associate_samples g snap =
     (case fold add_bucket (hs_mem_profiles snap) (Map.empty, {}) of
        (buckets, duplicates) \<Rightarrow>
          fold (add_sample g buckets duplicates) (hs_allocation_samples snap) (Map.empty, 0))"

section \<open>Sessions\<close>

type_synonym label_index = "(string \<times> (string \<times> u64 list) list) list"

record session_metadata =
  sm_reference_provenance :: bool
  sm_go_version :: string
  sm_goarch :: string
  sm_parser :: parse_stats
  sm_graph :: graph_stats
  sm_label_recovery :: label_stats
  sm_recovered :: int
  sm_warnings :: "message list"
  sm_validation :: string

record session =
  ss_analysis :: "analysis option"
  ss_labels :: gid_labels
  ss_index :: label_index
  ss_diag :: diagnostics
  ss_opts :: mem_options
  ss_cache :: invariant_reach
  ss_metadata :: session_metadata
  ss_allocations :: allocations

definition retain_allocations :: "heap_snapshot \<Rightarrow> session \<Rightarrow> session" where
  "retain_allocations snap s =
     (case associate_samples (case ss_analysis s of None \<Rightarrow> None | Some a \<Rightarrow> an_graph a) snap of
        (al, unresolved) \<Rightarrow>
          let s = s\<lparr>ss_allocations := al\<rparr>
          in if unresolved > 0
             then s\<lparr>ss_metadata := (ss_metadata s)\<lparr>sm_warnings := sm_warnings (ss_metadata s) @
                    [Fmt ''%d allocation sample(s) could not be associated unambiguously with an object and profile bucket''
                      [FI unresolved]]\<rparr>\<rparr>
             else s)"

section \<open>The label index\<close>

definition index_values :: "label_index \<Rightarrow> string \<Rightarrow> (string \<times> u64 list) list" where
  "index_values idx k = (case map_of idx k of None \<Rightarrow> [] | Some m \<Rightarrow> m)"

definition index_ids :: "label_index \<Rightarrow> string \<Rightarrow> string \<Rightarrow> u64 list" where
  "index_ids idx k v = (case map_of (index_values idx k) v of None \<Rightarrow> [] | Some ids \<Rightarrow> ids)"

definition index_add :: "u64 \<Rightarrow> string \<times> string \<Rightarrow> label_index \<Rightarrow> label_index" where
  "index_add gid kv idx =
     (case kv of (k, v) \<Rightarrow>
        AList.update k (AList.update v (index_ids idx k v @ [gid]) (index_values idx k)) idx)"

definition index_goroutine ::
  "mem_options \<Rightarrow> gid_labels \<Rightarrow> goroutine_reach \<Rightarrow> label_index \<Rightarrow> label_index"
where
  "index_goroutine opts labels g idx =
     (if \<not> mo_include_system opts \<and> (gor_is_system g \<or> gor_is_background g) then idx
      else fold (index_add (gor_id g)) (labels_at labels (gor_id g)) idx)"

definition sort_index :: "label_index \<Rightarrow> label_index" where
  "sort_index = map (\<lambda>(k, m). (k, map (\<lambda>(v, ids). (v, sort ids)) m))"

definition build_index :: "mem_options \<Rightarrow> gid_labels \<Rightarrow> goroutine_reach list \<Rightarrow> label_index" where
  "build_index opts labels gs = sort_index (fold (index_goroutine opts labels) gs [])"

definition no_cache :: invariant_reach where
  "no_cache = \<lparr>ir_global = None, ir_system = None\<rparr>"

definition new_snapshot :: "analysis \<Rightarrow> gid_labels \<Rightarrow> diagnostics \<Rightarrow> mem_options \<Rightarrow> session" where
  "new_snapshot a labels diag opts =
     (let warnings = dg_warnings diag @ an_warnings a
      in \<lparr>ss_analysis = Some a, ss_labels = labels,
           ss_index = build_index opts labels (an_goroutines a), ss_diag = diag, ss_opts = opts,
           ss_cache = no_cache,
           ss_metadata = \<lparr>sm_reference_provenance = mo_keep_provenance opts,
             sm_go_version = dg_go_version diag, sm_goarch = dg_goarch diag,
             sm_parser = hs_stats empty_snapshot, sm_graph = an_stats a,
             sm_label_recovery = zero_label_stats, sm_recovered = int (length labels),
             sm_warnings = warnings,
             sm_validation =
               (if dg_failed diag > 0 \<or> warnings \<noteq> [] \<or> gs_unresolved_pointers (an_stats a) > 0
                then ''diagnostics_present'' else ''parsed'')\<rparr>,
           ss_allocations = Map.empty\<rparr>)"

section \<open>Operations on a session\<close>

text \<open>\<open>None\<close> stands for the first round, where nothing has narrowed the candidates yet.\<close>

fun narrow_candidates :: "label_index \<Rightarrow> label_map \<Rightarrow> u64 set option \<Rightarrow> u64 set option" where
  "narrow_candidates idx [] candidates = candidates"
| "narrow_candidates idx ((k, v) # ls) candidates =
     narrow_candidates idx ls
       (Some {gid \<in> set (index_ids idx k v).
          case candidates of None \<Rightarrow> True | Some ids \<Rightarrow> gid \<in> ids})"

definition mem_poll :: "(mem_error, ctx, unit) run" where
  "mem_poll = es_map_error OtherError ctx_poll"

definition closed_error :: mem_error where
  "closed_error = OtherError (Errorf (Fmt ''snapshot is closed'' []))"

text \<open>The session is the second component: the cache it filled stays even when the query fails.\<close>

definition query :: "mem_request \<Rightarrow> session \<Rightarrow> ctx \<Rightarrow> (mem_error + mem_response \<times> ctx) \<times> session" where
  "query req s c =
     (case mem_poll c of
        Inl e \<Rightarrow> (Inl e, s)
      | Inr (_, c1) \<Rightarrow>
          if ss_analysis s = None then (Inl closed_error, s)
          else
            case compute_with req (ss_analysis s) (ss_labels s) (ss_diag s) (ss_opts s)
                   (Some (ss_cache s)) (narrow_candidates (ss_index s) (rq_labels req) None) of
              (Inl e, cache) \<Rightarrow> (Inl e, s\<lparr>ss_cache := the cache\<rparr>)
            | (Inr resp, cache) \<Rightarrow>
                (case mem_poll c1 of
                   Inl e \<Rightarrow> Inl e
                 | Inr (_, c2) \<Rightarrow> Inr (resp, c2), s\<lparr>ss_cache := the cache\<rparr>))"

definition label_keys :: "session \<Rightarrow> string list" where
  "label_keys s = sort (map fst (ss_index s))"

definition label_values :: "session \<Rightarrow> string \<Rightarrow> string list" where
  "label_values s key = sort (map fst (index_values (ss_index s) key))"

definition goroutine_ids :: "session \<Rightarrow> string \<Rightarrow> string \<Rightarrow> u64 list" where
  "goroutine_ids s key value = index_ids (ss_index s) key value"

definition session_close :: "session \<Rightarrow> session" where
  "session_close s = s\<lparr>ss_analysis := None, ss_allocations := Map.empty, ss_labels := [],
     ss_index := [], ss_cache := no_cache\<rparr>"

section \<open>Making a session\<close>

type_synonym recoverer =
  "heap_snapshot option \<Rightarrow> memory option \<Rightarrow> extra_reader option \<Rightarrow> go_error + label_result"

definition default_recover :: recoverer where
  "default_recover snap mem extra =
     (if snap = None then Inl (Errorf (Fmt ''memusage: nil heap snapshot'' []))
      else
        let input = lookup_input_from_snapshot snap
        in case layout_lookup input of
             None \<Rightarrow> Inr (unsupported_result snap (Some (unsupported_message input)))
           | Some layout \<Rightarrow>
               Inr (decode_all snap layout
                 \<lparr>lo_max_labels = 0, lo_max_string = 0, lo_extra = extra, lo_heap_memory = mem\<rparr>))"

text \<open>The dump as the stream \<open>r\<close> and as the random-access reader \<open>ra\<close>.\<close>

record dump_source =
  ds_bytes :: "byte list"
  ds_end :: go_error
  ds_at :: "file_at option"

definition session_parse_options :: "mem_options \<Rightarrow> ctx \<Rightarrow> parse_options" where
  "session_parse_options opts c =
     \<lparr>po_context = Some c, po_keep_contents = False, po_keep_offsets = mo_keep_provenance opts,
      po_max_string = 0, po_max_mem = mo_max_mem_range opts, po_strict = True\<rparr>"

text \<open>\<open>heapdump.ParseLazyContents\<close> under the caller's context, with the context it leaves.\<close>

definition parse_lazy_ctx :: "dump_source \<Rightarrow> mem_options \<Rightarrow> (ctx, heap_snapshot \<times> content_resolver) es" where
  "parse_lazy_ctx src opts c =
     (case ds_at src of
        None \<Rightarrow> Inl (Errorf (Fmt ''heapdump: ParseLazyContents requires non-nil io.ReaderAt'' []))
      | Some f \<Rightarrow>
          (case parse_run (ds_bytes src) (ds_end src) (session_parse_options opts c)
                  (Some (new_resolver (Some f))) of
             Inl e \<Rightarrow> Inl e
           | Inr (_, p) \<Rightarrow>
               Inr ((pa_snap p, resolver_finalize (the (pa_tracker p))), the (rd_ctx (pa_r p)))))"

definition parse_and_recover ::
  "dump_source \<Rightarrow> recoverer \<Rightarrow> extra_reader option \<Rightarrow> message list \<Rightarrow> mem_options \<Rightarrow>
    (mem_error, ctx, heap_snapshot \<times> label_result \<times> diagnostics) run"
where
  "parse_and_recover src recover extra extra_warnings opts =
     es_bind (es_map_error ParseFailedError (parse_lazy_ctx src opts)) (\<lambda>(snap, resolver).
     es_bind mem_poll (\<lambda>_.
     case recover (Some snap) (Some (new_memory_from_reader (Some (resolver_read (Some resolver))))) extra of
       Inl e \<Rightarrow> es_fail (OtherError (Wrapf (Fmt ''recover heap-native labels'' []) e))
     | Inr result \<Rightarrow>
         es_bind mem_poll (\<lambda>_.
         let diag = diagnostics_from_heap_labels (Some snap) result;
             diag = diag\<lparr>dg_warnings := dg_warnings diag @ extra_warnings\<rparr>
         in es_return (snap, result, diag))))"

definition finish_session ::
  "heap_snapshot \<Rightarrow> label_result \<Rightarrow> diagnostics \<Rightarrow> mem_options \<Rightarrow> analysis \<Rightarrow> session"
where
  "finish_session snap result diag opts a =
     (let s = retain_allocations snap (new_snapshot a (lr_labels_by_gid result) diag opts);
          md = (ss_metadata s)\<lparr>sm_parser := hs_stats snap, sm_label_recovery := lr_stats result,
            sm_warnings := sm_warnings (ss_metadata s) @ hs_warnings snap\<rparr>
      in s\<lparr>ss_metadata := (if sm_warnings md \<noteq> [] then md\<lparr>sm_validation := ''diagnostics_present''\<rparr> else md)\<rparr>)"

definition clear_contents :: "heap_snapshot \<Rightarrow> heap_snapshot" where
  "clear_contents snap = snap\<lparr>hs_objects := map (\<lambda>ob. ob\<lparr>ho_contents := []\<rparr>) (hs_objects snap)\<rparr>"

definition load_snapshot ::
  "dump_source \<Rightarrow> recoverer \<Rightarrow> extra_reader option \<Rightarrow> message list \<Rightarrow> mem_options \<Rightarrow>
    (mem_error, ctx, session) run"
where
  "load_snapshot src recover extra warnings opts =
     es_bind mem_poll (\<lambda>_.
     es_bind (parse_and_recover src recover extra warnings opts) (\<lambda>(snap, result, diag).
     if dg_unsupported diag then es_fail (UnsupportedRuntimeError (dg_go_version diag) (dg_goarch diag))
     else
       let snap = clear_contents snap
       in es_bind (es_map_error (\<lambda>e. OtherError (Wrapf (Fmt ''build object graph'' []) e))
            (build_run (Some snap) \<lparr>bo_strict = False, bo_keep_provenance = mo_keep_provenance opts\<rparr>)) (\<lambda>a.
          es_bind mem_poll (\<lambda>_.
          es_return (finish_session snap result diag opts a)))))"

definition analyze_dump ::
  "dump_source \<Rightarrow> recoverer \<Rightarrow> extra_reader option \<Rightarrow> message list \<Rightarrow> mem_request \<Rightarrow> mem_options \<Rightarrow>
    (mem_error, ctx, mem_response) run"
where
  "analyze_dump src recover extra extra_warnings req opts =
     (case validate_request (Some req) opts of
        Some e \<Rightarrow> es_fail e
      | None \<Rightarrow>
          es_bind (load_snapshot src recover extra extra_warnings opts) (\<lambda>s. fst \<circ> query req s))"

end
