(* ===== verification/MemSessionFacts.thy ===== *)
theory MemSessionFacts
  imports MemSession
begin

text \<open>
  What a session guarantees: the label index holds exactly the eligible goroutines of each
  key and value, and after any history of queries the next answer is the one of the pure
  computation, without index and cache.
\<close>

section \<open>The index\<close>

lemma index_values_update [simp]:
  "index_values (AList.update k m idx) k' = (if k' = k then m else index_values idx k')"
  by (simp add: index_values_def update_conv')

lemma index_ids_add:
  "index_ids (index_add gid (k', v') idx) k v =
    index_ids idx k v @ (if k = k' \<and> v = v' then [gid] else [])"
  by (auto simp: index_add_def index_ids_def update_conv' split: option.split)

lemma index_ids_fold_add:
  "index_ids (fold (index_add gid) ls idx) k v =
    index_ids idx k v @ map (\<lambda>_. gid) (filter (\<lambda>kv. kv = (k, v)) ls)"
  by (induction ls arbitrary: idx) (auto simp: index_ids_add split: if_splits)

lemma filter_eq_distinct: "distinct xs \<Longrightarrow> filter (\<lambda>y. y = x) xs = (if x \<in> set xs then [x] else [])"
  by (induction xs) auto

lemma index_ids_fold_distinct:
  assumes "distinct (map fst ls)"
  shows "index_ids (fold (index_add gid) ls idx) k v =
    index_ids idx k v @ (if map_of ls k = Some v then [gid] else [])"
  using assms by (simp add: index_ids_fold_add filter_eq_distinct distinct_map)

lemma index_ids_sort [simp]: "index_ids (sort_index idx) k v = sort (index_ids idx k v)"
proof -
  have "map_of (sort_index idx) k = map_option (map (\<lambda>(v, ids). (v, sort ids))) (map_of idx k)"
    by (simp add: sort_index_def map_of_map)
  then have "index_values (sort_index idx) k = map (\<lambda>(v, ids). (v, sort ids)) (index_values idx k)"
    by (simp add: index_values_def split: option.split)
  then show ?thesis by (simp add: index_ids_def map_of_map split: option.split)
qed

definition carries :: "mem_options \<Rightarrow> gid_labels \<Rightarrow> string \<Rightarrow> string \<Rightarrow> goroutine_reach \<Rightarrow> bool" where
  "carries opts labels k v g \<longleftrightarrow>
     eligible_goroutine opts g \<and> map_of (labels_at labels (gor_id g)) k = Some v"

definition labels_distinct :: "gid_labels \<Rightarrow> bool" where
  "labels_distinct labels \<longleftrightarrow> (\<forall>(gid, l) \<in> set labels. distinct (map fst l))"

lemma labels_distinct_at [simp]: "labels_distinct labels \<Longrightarrow> distinct (map fst (labels_at labels gid))"
  by (auto simp: labels_distinct_def labels_at_def dest!: map_of_SomeD split: option.split)

lemma index_goroutine_eligible:
  "index_goroutine opts labels g idx =
    (if eligible_goroutine opts g then fold (index_add (gor_id g)) (labels_at labels (gor_id g)) idx else idx)"
  by (auto simp: index_goroutine_def eligible_goroutine_def is_system_def)

lemma index_ids_fold_goroutines:
  assumes "labels_distinct labels"
  shows "index_ids (fold (index_goroutine opts labels) gs idx) k v =
    index_ids idx k v @ map gor_id (filter (carries opts labels k v) gs)"
  using assms
  by (induction gs arbitrary: idx)
    (auto simp: index_goroutine_eligible index_ids_fold_distinct carries_def)

lemma index_Nil [simp]: "index_ids [] k v = []"
  by (simp add: index_ids_def index_values_def)

lemma build_index_ids:
  assumes "labels_distinct labels"
  shows "index_ids (build_index opts labels gs) k v = sort (map gor_id (filter (carries opts labels k v) gs))"
  using assms by (simp add: build_index_def index_ids_fold_goroutines)

section \<open>Candidates\<close>

lemma narrow_candidates_Some:
  "narrow_candidates idx ls (Some ids) = Some {gid \<in> ids. \<forall>(k, v) \<in> set ls. gid \<in> set (index_ids idx k v)}"
  by (induction idx ls "Some ids" arbitrary: ids rule: narrow_candidates.induct) auto

lemma narrow_candidates_None:
  "ls \<noteq> [] \<Longrightarrow> narrow_candidates idx ls None =
    Some {gid. \<forall>(k, v) \<in> set ls. gid \<in> set (index_ids idx k v)}"
  by (cases ls) (auto simp: narrow_candidates_Some)

lemma narrowed_candidates_ok:
  assumes "labels_distinct labels"
  shows "candidates_ok opts labels want gs (narrow_candidates (build_index opts labels gs) want None)"
proof (cases "want = []")
  case False
  then show ?thesis
    using assms
    by (auto simp: candidates_ok_def narrow_candidates_None build_index_ids matching_def carries_def
        labels_match_iff)
qed (simp add: candidates_ok_def)

section \<open>Every state of a session\<close>

definition session_ok :: "session \<Rightarrow> bool" where
  "session_ok s \<longleftrightarrow>
     (\<forall>a. ss_analysis s = Some a \<longrightarrow>
        ss_index s = build_index (ss_opts s) (ss_labels s) (an_goroutines a) \<and>
        labels_distinct (ss_labels s) \<and> cache_ok a (Some (ss_cache s)))"

lemma new_snapshot_ok: "labels_distinct labels \<Longrightarrow> session_ok (new_snapshot a labels diag opts)"
  by (simp add: session_ok_def new_snapshot_def Let_def cache_ok_def no_cache_def)

lemma session_close_ok: "session_ok (session_close s)"
  by (simp add: session_ok_def session_close_def)

text \<open>The two polls around an answer that needs no context.\<close>

definition polled :: "(mem_error + 'a) \<Rightarrow> (mem_error, ctx, 'a) run" where
  "polled answer c =
     (case mem_poll c of
        Inl e \<Rightarrow> Inl e
      | Inr (_, c1) \<Rightarrow>
          (case answer of
             Inl e \<Rightarrow> Inl e
           | Inr x \<Rightarrow> (case mem_poll c1 of Inl e \<Rightarrow> Inl e | Inr (_, c2) \<Rightarrow> Inr (x, c2))))"

definition session_answer :: "mem_request \<Rightarrow> session \<Rightarrow> mem_error + mem_response" where
  "session_answer req s =
     (case ss_analysis s of
        None \<Rightarrow> Inl closed_error
      | Some a \<Rightarrow> compute_from_analysis req (Some a) (ss_labels s) (ss_diag s) (ss_opts s))"

lemma query_spec:
  assumes "session_ok s"
  shows "fst (query req s c) = polled (session_answer req s) c \<and>
    session_ok (snd (query req s c)) \<and>
    (\<exists>cache. snd (query req s c) = s\<lparr>ss_cache := cache\<rparr>)"
proof (cases "mem_poll c")
  case (Inl e)
  have "\<exists>cache. s = s\<lparr>ss_cache := cache\<rparr>" by (rule exI [of _ "ss_cache s"]) simp
  with Inl assms show ?thesis by (simp add: query_def polled_def)
next
  case (Inr r)
  then obtain c1 where c1: "mem_poll c = Inr ((), c1)" by (cases r) simp
  show ?thesis
  proof (cases "ss_analysis s")
    case None
    have "\<exists>cache. s = s\<lparr>ss_cache := cache\<rparr>" by (rule exI [of _ "ss_cache s"]) simp
    with None c1 assms show ?thesis by (simp add: query_def polled_def session_answer_def)
  next
    case (Some a)
    let ?cand = "narrow_candidates (ss_index s) (rq_labels req) None"
    let ?run = "compute_with req (Some a) (ss_labels s) (ss_diag s) (ss_opts s) (Some (ss_cache s)) ?cand"
    have ok: "cache_ok a (Some (ss_cache s))"
      "candidates_ok (ss_opts s) (ss_labels s) (rq_labels req) (an_goroutines a) ?cand"
      using assms Some by (auto simp: session_ok_def narrowed_candidates_ok)
    from compute_with_cases [OF ok, of "ss_diag s"] obtain cache where
      run: "?run = (session_answer req s, Some cache)" "cache_ok a (Some cache)"
      by (cases ?run) (auto simp: session_answer_def Some)
    have "query req s c = (polled (session_answer req s) c, s\<lparr>ss_cache := cache\<rparr>)"
      by (simp add: query_def polled_def c1 Some run(1) split: sum.split)
    moreover have "session_ok (s\<lparr>ss_cache := cache\<rparr>)"
      using assms Some run(2) by (simp add: session_ok_def)
    ultimately show ?thesis by auto
  qed
qed

text \<open>The operations that change a session, and the states a history of them reaches.\<close>

inductive session_step :: "session \<Rightarrow> session \<Rightarrow> bool" where
  step_query: "session_step s (snd (query req s c))"
| step_close: "session_step s (session_close s)"

inductive_cases session_stepE: "session_step s t"

definition session_reaches :: "session \<Rightarrow> session \<Rightarrow> bool" where
  "session_reaches = session_step\<^sup>*\<^sup>*"

lemma session_reaches_ok:
  assumes "session_reaches s t" "session_ok s"
  shows "session_ok t"
  using assms unfolding session_reaches_def
  by (induction rule: rtranclp_induct) (auto elim!: session_stepE simp: query_spec session_close_ok)

lemma session_step_frame:
  assumes "session_step s t" "session_ok s"
  shows "ss_diag t = ss_diag s \<and> ss_opts t = ss_opts s \<and> ss_metadata t = ss_metadata s \<and>
    (ss_analysis t = None \<or> ss_analysis t = ss_analysis s \<and> ss_labels t = ss_labels s \<and>
      ss_index t = ss_index s \<and> ss_allocations t = ss_allocations s)"
  using assms(1)
proof (cases rule: session_step.cases)
  case (step_query req c)
  with query_spec [OF assms(2), of req c] show ?thesis by auto
next
  case step_close
  then show ?thesis by (simp add: session_close_def)
qed

lemma session_reaches_frame:
  assumes "session_reaches s t" "session_ok s"
  shows "ss_diag t = ss_diag s \<and> ss_opts t = ss_opts s \<and> ss_metadata t = ss_metadata s \<and>
    (ss_analysis t = None \<or> ss_analysis t = ss_analysis s \<and> ss_labels t = ss_labels s \<and>
      ss_index t = ss_index s \<and> ss_allocations t = ss_allocations s)"
  using assms unfolding session_reaches_def
proof (induction rule: rtranclp_induct)
  case (step t u)
  have "session_ok t"
    using session_reaches_ok step unfolding session_reaches_def by blast
  from session_step_frame [OF step.hyps(2) this] step.IH step.prems show ?case by auto
qed simp

lemma session_history_free:
  assumes "session_reaches (new_snapshot a labels diag opts) s" "labels_distinct labels"
  shows "fst (query req s c) =
    polled (if ss_analysis s = None then Inl closed_error
            else compute_from_analysis req (Some a) labels diag opts) c"
proof -
  have ok: "session_ok (new_snapshot a labels diag opts)" using assms(2) by (rule new_snapshot_ok)
  have new: "ss_analysis (new_snapshot a labels diag opts) = Some a"
    "ss_labels (new_snapshot a labels diag opts) = labels"
    "ss_diag (new_snapshot a labels diag opts) = diag" "ss_opts (new_snapshot a labels diag opts) = opts"
    by (simp_all add: new_snapshot_def Let_def)
  from query_spec [OF session_reaches_ok [OF assms(1) ok], of req c]
    session_reaches_frame [OF assms(1) ok]
  show ?thesis by (auto simp: session_answer_def new)
qed

section \<open>A session made from a dump\<close>

lemma finish_session_fields:
  "ss_analysis (finish_session snap res diag opts a) = Some a"
  "ss_labels (finish_session snap res diag opts a) = lr_labels_by_gid res"
  "ss_diag (finish_session snap res diag opts a) = diag"
  "ss_opts (finish_session snap res diag opts a) = opts"
  "ss_index (finish_session snap res diag opts a) = build_index opts (lr_labels_by_gid res) (an_goroutines a)"
  "ss_cache (finish_session snap res diag opts a) = no_cache"
  by (auto simp: finish_session_def Let_def retain_allocations_def new_snapshot_def split: prod.splits)

lemma finish_session_ok:
  "labels_distinct (lr_labels_by_gid res) \<Longrightarrow> session_ok (finish_session snap res diag opts a)"
  by (simp add: session_ok_def finish_session_fields cache_ok_def no_cache_def)

text \<open>The label maps the decoder returns have distinct keys.\<close>

lemma decode_labels_distinct:
  "decode_labels structural body l opts d is al = Inr al' \<Longrightarrow> distinct (map fst al) \<Longrightarrow> distinct (map fst al')"
  by (induction "is" arbitrary: al) (auto simp: sum_bind_Inr distinct_update)

lemma decode_label_map_distinct:
  assumes "decode_label_map structural body l opts a = Inr al"
  shows "distinct (map fst al)"
proof -
  from assms consider "al = []"
    | len d where "decode_labels structural body l (normalize_options opts) d [0..<unat len] [] = Inr al"
        "\<not> lo_max_labels (normalize_options opts) < len"
    by (fastforce simp: decode_label_map_def Let_def sum_bind_Inr split: if_splits prod.splits)
  then show ?thesis by cases (auto dest: decode_labels_distinct)
qed

lemma decode_goroutine_distinct:
  "gl_labels (decode_labels_for_goroutine structural body l opts g) = Some al \<Longrightarrow> distinct (map fst al)"
  by (auto simp: decode_labels_for_goroutine_def goroutine_result_def Let_def dest: decode_label_map_distinct
      split: if_splits prod.splits option.splits sum.splits)

lemma count_goroutine_distinct:
  assumes "labels_distinct (lr_labels_by_gid res)"
    and "\<And>al. gl_labels gr = Some al \<Longrightarrow> distinct (map fst al)"
  shows "labels_distinct (lr_labels_by_gid (count_goroutine gr res))"
  using assms by (cases "gl_status gr")
    (auto simp: count_goroutine_def Let_def labels_distinct_def dest!: subsetD [OF set_update_subset] split: option.splits if_splits)

lemma count_goroutines_distinct:
  assumes "labels_distinct (lr_labels_by_gid res)" "\<And>g al. gl_labels (f g) = Some al \<Longrightarrow> distinct (map fst al)"
  shows "labels_distinct (lr_labels_by_gid (fold (\<lambda>g. count_goroutine (f g)) gs res))"
  using assms(1) by (induction gs arbitrary: res) (simp_all add: count_goroutine_distinct assms(2))

lemma decode_all_distinct: "labels_distinct (lr_labels_by_gid (decode_all snap l opts))"
proof (cases snap)
  case None
  then show ?thesis by (simp add: decode_all_def empty_result_def labels_distinct_def Let_def)
next
  case (Some s)
  have "labels_distinct (lr_labels_by_gid (empty_result\<lparr>lr_stats := st\<rparr>))" for st
    by (simp add: empty_result_def labels_distinct_def)
  then show ?thesis
    unfolding Some decode_all_def Let_def option.case
    by (rule count_goroutines_distinct) (rule decode_goroutine_distinct)
qed

lemma labels_distinct_empty: "labels_distinct []"
  by (simp add: labels_distinct_def)

lemma default_recover_distinct:
  "default_recover snap mem extra = Inr res \<Longrightarrow> labels_distinct (lr_labels_by_gid res)"
  by (auto simp: default_recover_def Let_def decode_all_distinct labels_distinct_empty unsupported_result_def
      empty_result_def split: if_splits option.splits)

text \<open>The steps of a successful load.\<close>

lemma parse_and_recover_Inr:
  assumes "parse_and_recover src recover extra ws opts c = Inr ((snap, res, d), c')"
  obtains v c1 where "parse_lazy_ctx src opts c = Inr ((snap, v), c1)"
    "recover (Some snap) (Some (new_memory_from_reader (Some (resolver_read (Some v))))) extra = Inr res"
    "d = (diagnostics_from_heap_labels (Some snap) res)\<lparr>dg_warnings :=
       dg_warnings (diagnostics_from_heap_labels (Some snap) res) @ ws\<rparr>"
proof -
  let ?mem = "\<lambda>v. Some (new_memory_from_reader (Some (resolver_read (Some v))))"
  obtain sn v c1 where lazy: "parse_lazy_ctx src opts c = Inr ((sn, v), c1)"
    and rest: "es_bind mem_poll (\<lambda>_. case recover (Some sn) (?mem v) extra of
       Inl e \<Rightarrow> es_fail (OtherError (Wrapf (Fmt ''recover heap-native labels'' []) e))
     | Inr result \<Rightarrow>
         es_bind mem_poll (\<lambda>_.
         let diag = diagnostics_from_heap_labels (Some sn) result;
             diag = diag\<lparr>dg_warnings := dg_warnings diag @ ws\<rparr>
         in es_return (sn, result, diag))) c1 = Inr ((snap, res, d), c')"
    by (rule es_bindE [OF assms [unfolded parse_and_recover_def]]) (auto split: prod.splits)
  show ?thesis
  proof (cases "recover (Some sn) (?mem v) extra")
    case (Inr r)
    with rest lazy that show ?thesis by (auto simp: es_bind_Inr Let_def)
  next
    case (Inl e)
    with rest show ?thesis by (auto simp: es_bind_Inr)
  qed
qed

lemma load_snapshot_Inr:
  assumes "load_snapshot src recover extra ws opts c = Inr (s, c')"
  obtains c1 c2 c3 snap v res d a where
    "parse_lazy_ctx src opts c1 = Inr ((snap, v), c2)"
    "recover (Some snap) (Some (new_memory_from_reader (Some (resolver_read (Some v))))) extra = Inr res"
    "d = (diagnostics_from_heap_labels (Some snap) res)\<lparr>dg_warnings :=
       dg_warnings (diagnostics_from_heap_labels (Some snap) res) @ ws\<rparr>"
    "\<not> dg_unsupported d"
    "build_context c3 (Some (clear_contents snap)) \<lparr>bo_strict = False, bo_keep_provenance = mo_keep_provenance opts\<rparr> = Inr a"
    "s = finish_session (clear_contents snap) res d opts a"
proof -
  from assms obtain c1 snap res d c2 a c3 where
    par: "parse_and_recover src recover extra ws opts c1 = Inr ((snap, res, d), c2)"
    and d: "\<not> dg_unsupported d"
    and run: "build_run (Some (clear_contents snap))
        \<lparr>bo_strict = False, bo_keep_provenance = mo_keep_provenance opts\<rparr> c2 = Inr (a, c3)"
    and s: "s = finish_session (clear_contents snap) res d opts a"
    by (auto simp: load_snapshot_def es_bind_Inr Let_def split: if_splits)
  from run have "build_context c2 (Some (clear_contents snap))
      \<lparr>bo_strict = False, bo_keep_provenance = mo_keep_provenance opts\<rparr> = Inr a"
    by (simp add: build_context_def)
  with parse_and_recover_Inr [OF par] d s that show ?thesis by metis
qed

lemma load_snapshot_ok:
  assumes "load_snapshot src default_recover extra ws opts c = Inr (s, c')"
  shows "session_ok s"
  using assms by (auto elim!: load_snapshot_Inr dest: default_recover_distinct intro: finish_session_ok)

lemma ctx_poll_Inr: "ctx_poll c = Inr (u, c') \<Longrightarrow> c' = snd (ctx_err c)"
  by (auto simp: ctx_poll_def split: prod.splits option.splits)

text \<open>The one-shot analysis is a load followed by one query of the fresh session.\<close>

lemma analyze_dump_Inr:
  assumes "analyze_dump src default_recover extra ws req opts c = Inr (resp, c')"
  obtains s c1 a where "load_snapshot src default_recover extra ws opts c = Inr (s, c1)"
    "ss_analysis s = Some a"
    "compute_from_analysis req (Some a) (ss_labels s) (ss_diag s) opts = Inr resp"
proof -
  from assms obtain s c1 where load: "load_snapshot src default_recover extra ws opts c = Inr (s, c1)"
    and q: "fst (query req s c1) = Inr (resp, c')"
    by (auto simp: analyze_dump_def es_bind_Inr split: option.splits)
  from load obtain a where a: "ss_analysis s = Some a" "ss_opts s = opts"
    by (auto elim!: load_snapshot_Inr simp: finish_session_fields)
  from query_spec [OF load_snapshot_ok [OF load], of req c1] q a have
    "compute_from_analysis req (Some a) (ss_labels s) (ss_diag s) opts = Inr resp"
    by (auto simp: polled_def session_answer_def split: sum.splits prod.splits)
  with load a show ?thesis using that by blast
qed

text \<open>
  With the decoder as the recoverer the diagnostics name the goroutines whose labels could not
  be decoded, and a response is only given when none of them could have matched.
\<close>

lemma clear_contents_goroutines [simp]: "hs_goroutines (clear_contents snap) = hs_goroutines snap"
  by (simp add: clear_contents_def)

lemma trusted_eligible:
  assumes "trusted opts d a = None"
    and "ids_of (dg_failed_gids d) = failed_ids gs" "ids_of (dg_string_missing_gids d) = missing_ids gs"
    and "dg_failed_gids d = None \<longleftrightarrow> failed_ids gs = {}"
    and "gr \<in> set gs" "failed_status (gl_status gr)"
    and "g \<in> set (an_goroutines a)" "gor_id g = gl_gid gr"
  shows "\<not> eligible_goroutine opts g"
proof -
  have mem: "gl_gid gr \<in> failed_ids gs" using assms(5,6) by (auto simp: failed_ids_def)
  then have "dg_failed_gids d \<noteq> None" using assms(4) by auto
  then have "\<forall>gid \<in> ids_of (dg_failed_gids d) \<union> ids_of (dg_string_missing_gids d).
      gid \<in> gor_id ` set (an_goroutines a) \<and>
      gid \<notin> gor_id ` set (filter (eligible_goroutine opts) (an_goroutines a))"
    by (intro iffD1 [OF eligible_failure_error_None assms(1) [unfolded trusted_def]]) simp
  with mem have "gl_gid gr \<notin> gor_id ` set (filter (eligible_goroutine opts) (an_goroutines a))"
    by (simp add: assms(2))
  with assms(7,8) show ?thesis by (auto simp: image_iff)
qed

lemma analyze_dump_authoritative:
  assumes "analyze_dump src default_recover extra ws req opts c = Inr (resp, c')"
  shows "\<exists>snap v res a c1 c2 c3.
    parse_lazy_ctx src opts c1 = Inr ((snap, v), c2) \<and>
    default_recover (Some snap) (Some (new_memory_from_reader (Some (resolver_read (Some v))))) extra = Inr res \<and>
    build_context c3 (Some (clear_contents snap))
      \<lparr>bo_strict = False, bo_keep_provenance = mo_keep_provenance opts\<rparr> = Inr a \<and>
    (\<forall>gr \<in> set (lr_goroutines res). \<forall>g \<in> set (an_goroutines a).
       gor_id g = gl_gid gr \<longrightarrow> eligible_goroutine opts g \<longrightarrow> \<not> failed_status (gl_status gr)) \<and>
    (\<exists>diag. compute_from_analysis req (Some a) (lr_labels_by_gid res) diag opts = Inr resp)"
proof -
  obtain s c1 a where load: "load_snapshot src default_recover extra ws opts c = Inr (s, c1)"
    and a: "ss_analysis s = Some a"
    and resp: "compute_from_analysis req (Some a) (ss_labels s) (ss_diag s) opts = Inr resp"
    by (rule analyze_dump_Inr [OF assms])
  from load obtain c1 c2 c3 snap v res d a' where
    lazy: "parse_lazy_ctx src opts c1 = Inr ((snap, v), c2)"
    and rec: "default_recover (Some snap) (Some (new_memory_from_reader (Some (resolver_read (Some v))))) extra = Inr res"
    and d: "d = (diagnostics_from_heap_labels (Some snap) res)\<lparr>dg_warnings :=
       dg_warnings (diagnostics_from_heap_labels (Some snap) res) @ ws\<rparr>"
    and built: "build_context c3 (Some (clear_contents snap))
       \<lparr>bo_strict = False, bo_keep_provenance = mo_keep_provenance opts\<rparr> = Inr a'"
    and s: "s = finish_session (clear_contents snap) res d opts a'"
    by (rule load_snapshot_Inr)
  have a': "a' = a" using a by (simp add: s finish_session_fields)
  have resp': "compute_from_analysis req (Some a) (lr_labels_by_gid res) d opts = Inr resp"
    using resp by (simp add: s finish_session_fields)
  have tr: "trusted opts d a = None"
  proof (rule compute_InrD [OF resp'])
    fix a' assume "Some a = Some a'" "trusted opts d a' = None"
    then show ?thesis by simp
  qed
  have ids: "ids_of (dg_failed_gids d) = failed_ids (lr_goroutines res)"
    "ids_of (dg_string_missing_gids d) = missing_ids (lr_goroutines res)"
    "dg_failed_gids d = None \<longleftrightarrow> failed_ids (lr_goroutines res) = {}"
    by (simp_all add: d diagnostics_gids)
  have safe: "\<forall>gr \<in> set (lr_goroutines res). \<forall>g \<in> set (an_goroutines a).
       gor_id g = gl_gid gr \<longrightarrow> eligible_goroutine opts g \<longrightarrow> \<not> failed_status (gl_status gr)"
    using trusted_eligible [OF tr ids] by metis
  show ?thesis
    by (intro exI conjI) (rule lazy, rule rec, rule built [unfolded a'], rule safe, rule resp')
qed

end
