(* ===== verification/MemWalk.thy ===== *)
theory MemWalk
  imports MemSessionFacts "HOL-Library.Product_Lexorder"
begin

text \<open>
  The parts every inspection of a session is made of (\<open>internal/memusage/multibubble.go\<close>): the
  cancellable walk, the sets it returns, their measures, the readiness check and the selection.
  A computation that only polls its context is described by its answer: \<open>ctx_runs m r\<close> says that
  \<open>m\<close> answers \<open>r\<close> unless the context ends first.
\<close>

section \<open>Computations under a context\<close>

definition ctx_kind :: "ctx \<Rightarrow> go_error option" where
  "ctx_kind c = (case c of Background \<Rightarrow> None | Expires n e \<Rightarrow> Some e)"

definition ctx_runs :: "(mem_error, ctx, 'a) run \<Rightarrow> mem_error + 'a \<Rightarrow> bool" where
  "ctx_runs m r \<longleftrightarrow>
     (\<forall>c. case m c of
        Inr (y, c') \<Rightarrow> r = Inr y \<and> ctx_kind c' = ctx_kind c
      | Inl e \<Rightarrow> r = Inl e \<or> (\<exists>ge. ctx_kind c = Some ge \<and> e = OtherError ge))"

named_theorems ctx_runs_intros "rules that build up what a computation answers"

lemma ctx_runs_Background: "ctx_runs m r \<Longrightarrow> m Background = map_sum id (\<lambda>x. (x, Background)) r"
  unfolding ctx_runs_def
  by (drule spec [of _ Background])
    (auto simp: ctx_kind_def split: sum.splits prod.splits ctx.splits)

lemma ctx_runs_Inr: "ctx_runs m r \<Longrightarrow> m c = Inr (x, c') \<Longrightarrow> r = Inr x"
  unfolding ctx_runs_def by (drule spec [of _ c]) simp

lemma ctx_runs_Inl:
  "ctx_runs m r \<Longrightarrow> m c = Inl e \<Longrightarrow> r = Inl e \<or> (\<exists>ge. ctx_kind c = Some ge \<and> e = OtherError ge)"
  unfolding ctx_runs_def by (drule spec [of _ c]) simp

lemma ctx_runs_return [ctx_runs_intros]: "ctx_runs (es_return x) (Inr x)"
  by (simp add: ctx_runs_def es_return_def)

lemma ctx_runs_fail [ctx_runs_intros]: "ctx_runs (es_fail e) (Inl e)"
  by (simp add: ctx_runs_def es_fail_def)

lemma ctx_runs_poll [ctx_runs_intros]: "ctx_runs mem_poll (Inr ())"
  unfolding ctx_runs_def
proof
  fix c
  show "case mem_poll c of
      Inl e \<Rightarrow> Inr () = Inl e \<or> (\<exists>ge. ctx_kind c = Some ge \<and> e = OtherError ge)
    | Inr (y, c') \<Rightarrow> Inr () = Inr y \<and> ctx_kind c' = ctx_kind c"
    by (cases c rule: ctx_err.cases)
      (simp_all add: mem_poll_def es_map_error_def ctx_poll_def ctx_kind_def)
qed

lemma ctx_runs_bind [ctx_runs_intros]:
  assumes "ctx_runs m (Inr x)" "ctx_runs (f x) r"
  shows "ctx_runs (es_bind m f) r"
  unfolding ctx_runs_def
proof
  fix c
  show "case es_bind m f c of
      Inl e \<Rightarrow> r = Inl e \<or> (\<exists>ge. ctx_kind c = Some ge \<and> e = OtherError ge)
    | Inr (y, c') \<Rightarrow> r = Inr y \<and> ctx_kind c' = ctx_kind c"
  proof (cases "m c")
    case (Inl e)
    with ctx_runs_Inl [OF assms(1)] show ?thesis by (auto simp: es_bind_def)
  next
    case (Inr p)
    obtain y c1 where p: "p = (y, c1)" by (cases p)
    have y: "y = x" "ctx_kind c1 = ctx_kind c"
      using assms(1) Inr unfolding p ctx_runs_def by (auto dest: spec [of _ c])
    have "case f x c1 of
        Inl e \<Rightarrow> r = Inl e \<or> (\<exists>ge. ctx_kind c1 = Some ge \<and> e = OtherError ge)
      | Inr (y, c') \<Rightarrow> r = Inr y \<and> ctx_kind c' = ctx_kind c1"
      using assms(2) unfolding ctx_runs_def by blast
    then show ?thesis using Inr y by (simp add: p es_bind_def split: sum.splits prod.splits)
  qed
qed

lemma ctx_runs_bind_Inl:
  assumes "ctx_runs m (Inl e)"
  shows "ctx_runs (es_bind m f) (Inl e)"
  unfolding ctx_runs_def
proof
  fix c
  show "case es_bind m f c of
      Inl d \<Rightarrow> Inl e = Inl d \<or> (\<exists>ge. ctx_kind c = Some ge \<and> d = OtherError ge)
    | Inr (y, c') \<Rightarrow> Inl e = Inr y \<and> ctx_kind c' = ctx_kind c"
  proof (cases "m c")
    case (Inl d)
    with ctx_runs_Inl [OF assms] show ?thesis by (auto simp: es_bind_def)
  next
    case (Inr p)
    with ctx_runs_Inr [OF assms, of c "fst p" "snd p"] show ?thesis by simp
  qed
qed

text \<open>Both cases at once: the answer of a sequence is the sequence of the answers.\<close>

lemma ctx_runs_seq:
  assumes "ctx_runs m r" "\<And>x. r = Inr x \<Longrightarrow> ctx_runs (f x) (g x)"
  shows "ctx_runs (es_bind m f) (sum_bind r g)"
  using assms by (cases r) (auto intro: ctx_runs_bind ctx_runs_bind_Inl)

lemma ctx_runs_lift [ctx_runs_intros]: "ctx_runs (es_lift r) r"
  by (cases r) (simp_all add: ctx_runs_return ctx_runs_fail)

lemma ctx_runs_if: "ctx_runs m r \<Longrightarrow> ctx_runs n t \<Longrightarrow> ctx_runs (if b then m else n) (if b then r else t)"
  by simp

text \<open>\<open>return x, ctx.Err()\<close>\<close>

definition return_polled :: "'a \<Rightarrow> (mem_error, ctx, 'a) run" where
  "return_polled x = es_bind mem_poll (\<lambda>_. es_return x)"

lemma ctx_runs_return_polled [ctx_runs_intros]: "ctx_runs (return_polled x) (Inr x)"
  unfolding return_polled_def by (rule ctx_runs_bind [OF ctx_runs_poll ctx_runs_return])

section \<open>Walks\<close>

fun walk_roots ::
  "graph \<Rightarrow> root_ref list \<Rightarrow> object_id list \<Rightarrow> object_id set \<Rightarrow>
    (mem_error, ctx, object_id list \<times> object_id set) run"
where
  "walk_roots g [] q R = es_return (q, R)"
| "walk_roots g (r # rs) q R =
     es_bind mem_poll (\<lambda>_.
     case bfs_enter (valid_id (Some g)) [rr_object_id r] q R of (q, R) \<Rightarrow> walk_roots g rs q R)"

function walk_loop ::
  "graph \<Rightarrow> object_id list \<Rightarrow> object_id set \<Rightarrow> (mem_error, ctx, object_id set) run"
where
  "walk_loop g [] R c = Inr (R, c)"
| "walk_loop g (i # q) R c =
     (case mem_poll c of
        Inl e \<Rightarrow> Inl e
      | Inr (_, c1) \<Rightarrow>
          (case bfs_enter (valid_id (Some g)) (children g i) q R of (q', R') \<Rightarrow> walk_loop g q' R' c1))"
  by pat_completeness auto
termination
  by (relation "measure (\<lambda>(g, q, R, c). card (UNIV - R) + length q)")
    (auto dest!: bfs_enter_measure [OF sym])

declare walk_loop.simps [simp del]

definition walk :: "graph \<Rightarrow> root_ref list \<Rightarrow> (mem_error, ctx, object_id set) run" where
  "walk g roots =
     es_bind (walk_roots g roots [] {}) (\<lambda>(q, R).
     es_bind (walk_loop g q R) return_polled)"

lemma bfs_enter_append:
  "bfs_enter ok (xs @ ys) q R = (case bfs_enter ok xs q R of (q', R') \<Rightarrow> bfs_enter ok ys q' R')"
  by (induction ok xs q R rule: bfs_enter.induct) auto

lemma walk_roots_runs:
  "ctx_runs (walk_roots g rs q R) (Inr (bfs_enter (valid_id (Some g)) (map rr_object_id rs) q R))"
proof (induction g rs q R rule: walk_roots.induct)
  case (1 g q R)
  then show ?case by (simp add: ctx_runs_return)
next
  case (2 g r rs q R)
  obtain q' R' where e: "bfs_enter (valid_id (Some g)) [rr_object_id r] q R = (q', R')" by fastforce
  have "bfs_enter (valid_id (Some g)) (map rr_object_id (r # rs)) q R =
      bfs_enter (valid_id (Some g)) (map rr_object_id rs) q' R'"
    using bfs_enter_append [of "valid_id (Some g)" "[rr_object_id r]" "map rr_object_id rs" q R]
    by (simp only: list.map append.simps e prod.case)
  then show ?case
    using 2 [OF e [symmetric]] unfolding walk_roots.simps e prod.case
    by (simp add: ctx_runs_bind [OF ctx_runs_poll])
qed

lemma walk_loop_runs: "ctx_runs (walk_loop g q R) (Inr (bfs_loop (valid_id (Some g)) (children g) q R))"
proof -
  have main: "case walk_loop g q R c of
      Inl e \<Rightarrow> \<exists>ge. ctx_kind c = Some ge \<and> e = OtherError ge
    | Inr (y, c') \<Rightarrow> y = bfs_loop (valid_id (Some g)) (children g) q R \<and> ctx_kind c' = ctx_kind c" for c
  proof (induction g q R c rule: walk_loop.induct)
    case (1 g R c)
    then show ?case by (simp add: walk_loop.simps bfs_loop.simps)
  next
    case (2 g i q R c)
    show ?case
    proof (cases "mem_poll c")
      case (Inl e)
      with ctx_runs_Inl [OF ctx_runs_poll] show ?thesis by (fastforce simp: walk_loop.simps)
    next
      case (Inr p)
      then obtain c1 where c1: "mem_poll c = Inr ((), c1)" by (cases p) simp
      have kind: "ctx_kind c1 = ctx_kind c"
        using ctx_runs_poll c1 unfolding ctx_runs_def by (auto dest: spec [of _ c])
      obtain q' R' where e: "bfs_enter (valid_id (Some g)) (children g i) q R = (q', R')" by fastforce
      have "walk_loop g (i # q) R c = walk_loop g q' R' c1"
        by (simp add: walk_loop.simps c1 e)
      moreover have "bfs_loop (valid_id (Some g)) (children g) (i # q) R = bfs_loop (valid_id (Some g)) (children g) q' R'"
        by (simp add: bfs_loop.simps e)
      ultimately show ?thesis using 2 [OF c1 refl e [symmetric]] by (simp only: kind)
    qed
  qed
  show ?thesis
    unfolding ctx_runs_def
  proof
    fix c
    show "case walk_loop g q R c of
        Inl e \<Rightarrow> Inr (bfs_loop (valid_id (Some g)) (children g) q R) = Inl e \<or>
          (\<exists>ge. ctx_kind c = Some ge \<and> e = OtherError ge)
      | Inr (y, c') \<Rightarrow> Inr (bfs_loop (valid_id (Some g)) (children g) q R) = Inr y \<and> ctx_kind c' = ctx_kind c"
      using main [of c] by (auto split: sum.splits prod.splits)
  qed
qed

lemma walk_runs [ctx_runs_intros]: "ctx_runs (walk g roots) (Inr (reachable_from (Some g) roots))"
proof -
  obtain q R where e: "bfs_enter (valid_id (Some g)) (map rr_object_id roots) [] {} = (q, R)" by fastforce
  have "reachable_from (Some g) roots = bfs_loop (valid_id (Some g)) (children g) q R"
    using bfs_closure [OF e] by (simp add: reachable_from_closure)
  moreover have "ctx_runs (walk g roots) (Inr (bfs_loop (valid_id (Some g)) (children g) q R))"
    unfolding walk_def
    by (rule ctx_runs_bind [OF walk_roots_runs], unfold e prod.case,
      rule ctx_runs_bind [OF walk_loop_runs ctx_runs_return_polled])
  ultimately show ?thesis by simp
qed

section \<open>Sets and measures\<close>

definition set_intersection :: "object_id set \<Rightarrow> object_id set \<Rightarrow> object_id set" where
  "set_intersection a b =
     (case (if card a > card b then (b, a) else (a, b)) of (a, b) \<Rightarrow> Set.filter (\<lambda>i. i \<in> b) a)"

definition set_difference :: "object_id set \<Rightarrow> object_id set \<Rightarrow> object_id set" where
  "set_difference a b = Set.filter (\<lambda>i. i \<notin> b) a"

definition set_union :: "object_id set \<Rightarrow> object_id set \<Rightarrow> object_id set" where
  "set_union a b = a \<union> b"

lemma set_ops [simp]:
  "set_intersection a b = a \<inter> b" "set_difference a b = a - b" "set_union a b = a \<union> b"
  by (auto simp: set_intersection_def set_difference_def set_union_def)

record set_measure =
  ms_objects :: int
  ms_bytes :: u64

definition zero_measure :: set_measure where
  "zero_measure = \<lparr>ms_objects = 0, ms_bytes = 0\<rparr>"

definition overflow_error :: mem_error where
  "overflow_error = OtherError (Errorf (Fmt ''object byte total overflows uint64'' []))"

text \<open>The loop over the set, in the order the iteration visits it.\<close>

fun measure_loop :: "graph \<Rightarrow> object_id list \<Rightarrow> set_measure \<Rightarrow> mem_error + set_measure" where
  "measure_loop g [] m = Inr m"
| "measure_loop g (i # is) m =
     (let sz = ob_size (gr_objects g ! unat i)
      in if sz > max_uint64 - ms_bytes m then Inl overflow_error
         else measure_loop g is (m\<lparr>ms_objects := ms_objects m + 1, ms_bytes := ms_bytes m + sz\<rparr>))"

definition measure_set :: "graph \<Rightarrow> object_id set \<Rightarrow> mem_error + set_measure" where
  "measure_set g s = measure_loop g (sorted_list_of_set s) zero_measure"

definition set_bytes :: "graph \<Rightarrow> object_id set \<Rightarrow> nat" where
  "set_bytes g s = (\<Sum>i\<in>s. unat (ob_size (gr_objects g ! unat i)))"

lemma measure_loop_spec:
  "distinct is \<Longrightarrow>
    measure_loop g is m =
      (if unat (ms_bytes m) + set_bytes g (set is) < 2 ^ 64
       then Inr (m\<lparr>ms_objects := ms_objects m + int (length is), ms_bytes := ms_bytes m + of_nat (set_bytes g (set is))\<rparr>)
       else Inl overflow_error)"
proof (induction g "is" m rule: measure_loop.induct)
  case (1 g m)
  then show ?case using unsigned_less [of "ms_bytes m", where ?'a = nat] by (simp add: set_bytes_def)
next
  case (2 g i "is" m)
  let ?sz = "ob_size (gr_objects g ! unat i)"
  let ?m = "m\<lparr>ms_objects := ms_objects m + 1, ms_bytes := ms_bytes m + ?sz\<rparr>"
  have sum: "set_bytes g (set (i # is)) = unat ?sz + set_bytes g (set is)"
    using 2(2) by (simp add: set_bytes_def)
  show ?case
  proof (cases "unat (ms_bytes m) + unat ?sz < 2 ^ 64")
    case True
    then have "\<not> max_uint64 - ms_bytes m < ?sz" by (simp add: carry_iff)
    moreover have "unat (ms_bytes ?m) = unat (ms_bytes m) + unat ?sz"
      using True by (simp add: unat_add_no_carry)
    ultimately show ?thesis
      using 2(1) [OF refl] 2(2) unfolding sum measure_loop.simps Let_def by (simp add: add.assoc)
  next
    case False
    then have "max_uint64 - ms_bytes m < ?sz" by (simp add: carry_iff)
    then show ?thesis unfolding sum measure_loop.simps Let_def using False by simp
  qed
qed

text \<open>The answer does not depend on the order of the iteration.\<close>

lemma measure_order:
  "distinct is \<Longrightarrow> set is = s \<Longrightarrow> measure_loop g is zero_measure = measure_set g s"
  by (auto simp: measure_set_def measure_loop_spec distinct_card)

lemma measure_set_eq:
  "measure_set g s =
    (if set_bytes g s < 2 ^ 64 then Inr \<lparr>ms_objects = int (card s), ms_bytes = of_nat (set_bytes g s)\<rparr>
     else Inl overflow_error)"
  by (simp add: measure_set_def measure_loop_spec zero_measure_def)

lemma measure_set_Inr:
  "measure_set g s = Inr m \<longleftrightarrow>
    set_bytes g s < 2 ^ 64 \<and> ms_objects m = int (card s) \<and> unat (ms_bytes m) = set_bytes g s"
proof -
  have "unat (of_nat n :: u64) = n" if "n < 2 ^ 64" for n
    using that by (simp add: unsigned_of_nat take_bit_nat_eq_self)
  then show ?thesis
    by (cases m) (auto simp: measure_set_eq word_unat_eq_iff)
qed

lemma set_bytes_Un: "a \<inter> b = {} \<Longrightarrow> set_bytes g (a \<union> b) = set_bytes g a + set_bytes g b"
  by (simp add: set_bytes_def sum.union_disjoint)

lemma set_bytes_mono: "a \<subseteq> b \<Longrightarrow> set_bytes g a \<le> set_bytes g b"
  by (simp add: set_bytes_def sum_mono2)

section \<open>Readiness and selection\<close>

definition session_graph :: "session \<Rightarrow> graph" where
  "session_graph s = the (an_graph (the (ss_analysis s)))"

definition session_goroutines :: "session \<Rightarrow> goroutine_reach list" where
  "session_goroutines s = an_goroutines (the (ss_analysis s))"

definition session_globals :: "session \<Rightarrow> root_ref list" where
  "session_globals s = glr_roots (an_globals (the (ss_analysis s)))"

definition ready :: "session \<Rightarrow> (mem_error, ctx, unit) run" where
  "ready s =
     es_bind mem_poll (\<lambda>_.
     if ss_analysis s = None then es_fail closed_error
     else if dg_unsupported (ss_diag s) then
       es_fail (UnsupportedRuntimeError (dg_go_version (ss_diag s)) (dg_goarch (ss_diag s)))
     else
       case eligible_failure_error (ss_diag s) (gor_id ` set (session_goroutines s))
              (gor_id ` set (filter (\<lambda>g. mo_include_system (ss_opts s) \<or> \<not> (gor_is_system g \<or> gor_is_background g))
                 (session_goroutines s))) of
         Some e \<Rightarrow> es_fail e
       | None \<Rightarrow> es_return ())"

definition select_one ::
  "session \<Rightarrow> label_map \<Rightarrow> goroutine_reach \<Rightarrow> root_ref list \<times> u64 set \<Rightarrow> root_ref list \<times> u64 set"
where
  "select_one s want g acc =
     (case acc of (roots, ids) \<Rightarrow>
        if \<not> mo_include_system (ss_opts s) \<and> (gor_is_system g \<or> gor_is_background g) then acc
        else if labels_match (labels_at (ss_labels s) (gor_id g)) want
        then (roots @ gor_roots g, insert (gor_id g) ids) else acc)"

definition selected :: "session \<Rightarrow> mem_request \<Rightarrow> mem_error + root_ref list \<times> u64 set" where
  "selected s req =
     (case validate_request (Some req) (ss_opts s) of
        Some e \<Rightarrow> Inl e
      | None \<Rightarrow> Inr (fold (select_one s (rq_labels req)) (session_goroutines s) ([], {})))"

definition session_matching :: "session \<Rightarrow> mem_request \<Rightarrow> goroutine_reach list" where
  "session_matching s req = matching (ss_opts s) (ss_labels s) (rq_labels req) (session_goroutines s)"

lemma select_one_fold:
  "fold (select_one s want) gs (roots, ids) =
    (roots @ goroutine_roots_of (matching (ss_opts s) (ss_labels s) want gs),
     gor_id ` set (matching (ss_opts s) (ss_labels s) want gs) \<union> ids)"
  by (induction gs arbitrary: roots ids)
    (auto simp: select_one_def goroutine_roots_of_def matching_def eligible_goroutine_def is_system_def)

lemma selected_eq:
  "selected s req =
    (case validate_request (Some req) (ss_opts s) of
       Some e \<Rightarrow> Inl e
     | None \<Rightarrow> Inr (goroutine_roots_of (session_matching s req), gor_id ` set (session_matching s req)))"
  by (simp add: selected_def select_one_fold session_matching_def split: option.split)

definition ready_answer :: "session \<Rightarrow> mem_error + unit" where
  "ready_answer s =
     (case ss_analysis s of
        None \<Rightarrow> Inl closed_error
      | Some a \<Rightarrow>
          if dg_unsupported (ss_diag s)
          then Inl (UnsupportedRuntimeError (dg_go_version (ss_diag s)) (dg_goarch (ss_diag s)))
          else case trusted (ss_opts s) (ss_diag s) a of Some e \<Rightarrow> Inl e | None \<Rightarrow> Inr ())"

lemma ready_runs: "ctx_runs (ready s) (ready_answer s)"
proof -
  have "filter (\<lambda>g. mo_include_system (ss_opts s) \<or> \<not> (gor_is_system g \<or> gor_is_background g)) gs =
      filter (eligible_goroutine (ss_opts s)) gs" for gs
    by (rule filter_cong) (auto simp: eligible_goroutine_def is_system_def)
  then show ?thesis
    unfolding ready_def ready_answer_def
    by (intro ctx_runs_bind [OF ctx_runs_poll])
      (auto simp: session_goroutines_def trusted_def ctx_runs_fail ctx_runs_return split: option.split)
qed

lemma ready_answer_Inr:
  "ready_answer s = Inr () \<longleftrightarrow>
    (\<exists>a. ss_analysis s = Some a \<and> \<not> dg_unsupported (ss_diag s) \<and> trusted (ss_opts s) (ss_diag s) a = None)"
  by (auto simp: ready_answer_def split: option.splits if_splits)

section \<open>Walks from several root lists\<close>

lemma closure_append: "closure ok succs (xs @ ys) = closure ok succs xs \<union> closure ok succs ys"
  by (auto simp: closure_def)

lemma reachable_from_append:
  "reachable_from (Some g) (xs @ ys) = reachable_from (Some g) xs \<union> reachable_from (Some g) ys"
  by (simp add: reachable_from_closure closure_append)

lemma reachable_from_mono: "set xs \<subseteq> set ys \<Longrightarrow> reachable_from (Some g) xs \<subseteq> reachable_from (Some g) ys"
  by (auto simp: reachable_from_closure closure_def)

lemma reachable_from_cong: "set xs = set ys \<Longrightarrow> reachable_from (Some g) xs = reachable_from (Some g) ys"
  by (intro equalityI reachable_from_mono) simp_all

lemma reachable_from_goroutines_eq:
  "reachable_from_goroutines (Some g) gs = reachable_from (Some g) (goroutine_roots_of gs)"
  by (simp add: reachable_from_goroutines_closure reachable_from_closure)

end
