(* ===== verification/MemCompare.thy ===== *)
theory MemCompare
  imports MemWalk
begin

text \<open>
  Comparing what several selections reach (\<open>internal/memusage/multibubble.go\<close>): \<open>Compare\<close>,
  \<open>Shared\<close>, \<open>Exclusive\<close> and \<open>Top\<close>, with the partitions their measures form.
\<close>

section \<open>Results\<close>

record comparison =
  cp_a :: label_map
  cp_b :: label_map
  cp_a_goroutines :: int
  cp_b_goroutines :: int
  cp_overlapping :: "u64 list"
  cp_a_only :: set_measure
  cp_b_only :: set_measure
  cp_shared :: set_measure
  cp_union :: set_measure

record exclusive_result =
  er_labels :: label_map
  er_goroutines :: int
  er_reachable :: set_measure
  er_exclusive :: set_measure
  er_shared :: set_measure
  er_global :: set_measure
  er_system :: set_measure
  er_other :: set_measure

record shared_object =
  so_id :: object_id
  so_address :: string
  so_size :: u64
  so_outgoing :: int

record shared_result =
  sr_comparison :: comparison
  sr_objects :: "shared_object list"
  sr_truncated :: bool

record breakdown =
  bd_reachable :: set_measure
  bd_exclusive :: set_measure
  bd_shared :: set_measure
  bd_bubbles_only :: set_measure
  bd_other_only :: set_measure
  bd_both :: set_measure
  bd_bubble_overlap :: set_measure
  bd_other_overlap :: set_measure
  bd_global_overlap :: set_measure
  bd_system_overlap :: set_measure
  bd_ungrouped_overlap :: set_measure

record group_result =
  gw_value :: string
  gw_goroutines :: int
  gw_breakdown :: breakdown

record top_options =
  to_by :: string
  to_sort :: string
  to_limit :: int

record top_result =
  tr_by :: string
  tr_groups :: "group_result list"
  tr_total :: int
  tr_ungrouped :: int
  tr_excluded :: int

text \<open>The array of destinations and sets that each method measures in turn.\<close>

fun measure_all :: "graph \<Rightarrow> object_id set list \<Rightarrow> mem_error + set_measure list" where
  "measure_all g [] = Inr []"
| "measure_all g (s # ss) =
     sum_bind (measure_set g s) (\<lambda>m. sum_bind (measure_all g ss) (\<lambda>ms. Inr (m # ms)))"

section \<open>\<open>Compare\<close> and \<open>Shared\<close>\<close>

definition compare_sets ::
  "session \<Rightarrow> mem_request \<Rightarrow> mem_request \<Rightarrow> (mem_error, ctx, comparison \<times> object_id set) run"
where
  "compare_sets s a b =
     (let g = session_graph s in
      es_bind (es_lift (selected s a)) (\<lambda>(a_roots, a_ids).
      es_bind (es_lift (selected s b)) (\<lambda>(b_roots, b_ids).
      es_bind (walk g a_roots) (\<lambda>a_set.
      es_bind (walk g b_roots) (\<lambda>b_set.
      let shared = set_intersection a_set b_set in
      es_bind (es_lift (measure_all g
        [set_difference a_set b_set, set_difference b_set a_set, shared, set_union a_set b_set])) (\<lambda>ms.
      return_polled
        (\<lparr>cp_a = rq_labels a, cp_b = rq_labels b, cp_a_goroutines = int (card a_ids),
          cp_b_goroutines = int (card b_ids), cp_overlapping = sorted_list_of_set (a_ids \<inter> b_ids),
          cp_a_only = ms ! 0, cp_b_only = ms ! 1, cp_shared = ms ! 2, cp_union = ms ! 3\<rparr>, shared)))))))"

definition compare_selections ::
  "session \<Rightarrow> mem_request \<Rightarrow> mem_request \<Rightarrow> (mem_error, ctx, comparison) run"
where
  "compare_selections s a b =
     es_bind (ready s) (\<lambda>_. es_bind (compare_sets s a b) (\<lambda>(cmp, _). es_return cmp))"

text \<open>By descending size, then address, then identifier.\<close>

definition size_order :: "graph \<Rightarrow> object_id \<Rightarrow> int \<times> u64 \<times> object_id" where
  "size_order g i =
     (let ob = gr_objects g ! unat i in (- int (unat (ob_size ob)), ob_addr ob, i))"

definition shared_object_of :: "graph \<Rightarrow> object_id \<Rightarrow> shared_object" where
  "shared_object_of g i =
     (let ob = gr_objects g ! unat i
      in \<lparr>so_id = i, so_address = hex_address (ob_addr ob), so_size = ob_size ob,
          so_outgoing = int (length (ob_children ob))\<rparr>)"

definition limit_list :: "int \<Rightarrow> 'a list \<Rightarrow> 'a list" where
  "limit_list limit xs = (if limit > 0 \<and> int (length xs) > limit then take (nat limit) xs else xs)"

definition shared_objects ::
  "session \<Rightarrow> mem_request \<Rightarrow> mem_request \<Rightarrow> int \<Rightarrow> (mem_error, ctx, shared_result) run"
where
  "shared_objects s a b limit =
     (if limit < 0 then es_fail (OtherError (Errorf (Fmt ''limit must be non-negative'' [])))
      else
        es_bind (ready s) (\<lambda>_.
        es_bind (compare_sets s a b) (\<lambda>(cmp, set1).
        let g = session_graph s;
            ids = sort_key (size_order g) (sorted_list_of_set set1)
        in return_polled
             \<lparr>sr_comparison = cmp, sr_objects = map (shared_object_of g) (limit_list limit ids),
              sr_truncated = (limit > 0 \<and> int (length ids) > limit)\<rparr>)))"

section \<open>\<open>Exclusive\<close>\<close>

text \<open>The roots of the goroutines that are not selected, system and background ones apart.\<close>

definition rest_root :: "u64 set \<Rightarrow> goroutine_reach \<Rightarrow> root_ref list \<times> root_ref list \<Rightarrow> root_ref list \<times> root_ref list"
where
  "rest_root ids g acc =
     (case acc of (system, other) \<Rightarrow>
        if gor_id g \<in> ids then acc
        else if gor_is_system g \<or> gor_is_background g then (system @ gor_roots g, other)
        else (system, other @ gor_roots g))"

definition rest_roots :: "session \<Rightarrow> u64 set \<Rightarrow> root_ref list \<times> root_ref list" where
  "rest_roots s ids = fold (rest_root ids) (session_goroutines s) ([], [])"

definition exclusive_of :: "session \<Rightarrow> mem_request \<Rightarrow> (mem_error, ctx, exclusive_result) run" where
  "exclusive_of s req =
     es_bind (ready s) (\<lambda>_.
     es_bind (es_lift (selected s req)) (\<lambda>(roots, ids).
     let g = session_graph s in
     es_bind (walk g roots) (\<lambda>sel.
     case rest_roots s ids of (system, other) \<Rightarrow>
     es_bind (walk g (session_globals s)) (\<lambda>global.
     es_bind (walk g system) (\<lambda>sys.
     es_bind (walk g other) (\<lambda>rest.
     let outside = set_union global (set_union sys rest) in
     es_bind (es_lift (measure_all g
       [sel, set_difference sel outside, set_intersection sel outside, set_intersection sel global,
        set_intersection sel sys, set_intersection sel rest])) (\<lambda>ms.
     return_polled
       \<lparr>er_labels = rq_labels req, er_goroutines = int (card ids), er_reachable = ms ! 0,
        er_exclusive = ms ! 1, er_shared = ms ! 2, er_global = ms ! 3, er_system = ms ! 4,
        er_other = ms ! 5\<rparr>)))))))"

section \<open>\<open>Top\<close>\<close>

record grouping =
  gp_groups :: "(string \<times> root_ref list) list"
  gp_counts :: "string \<rightharpoonup> int"
  gp_system :: "root_ref list"
  gp_ungrouped :: "root_ref list"
  gp_ungrouped_count :: int
  gp_excluded :: int

definition no_grouping :: grouping where
  "no_grouping = \<lparr>gp_groups = [], gp_counts = Map.empty, gp_system = [], gp_ungrouped = [],
     gp_ungrouped_count = 0, gp_excluded = 0\<rparr>"

definition group_roots_of :: "grouping \<Rightarrow> string \<Rightarrow> root_ref list" where
  "group_roots_of gp v = (case map_of (gp_groups gp) v of None \<Rightarrow> [] | Some rs \<Rightarrow> rs)"

definition group_count_of :: "grouping \<Rightarrow> string \<Rightarrow> int" where
  "group_count_of gp v = (case gp_counts gp v of None \<Rightarrow> 0 | Some n \<Rightarrow> n)"

definition group_goroutine :: "session \<Rightarrow> string \<Rightarrow> goroutine_reach \<Rightarrow> grouping \<Rightarrow> grouping" where
  "group_goroutine s key g gp =
     (if \<not> mo_include_system (ss_opts s) \<and> (gor_is_system g \<or> gor_is_background g) then
        gp\<lparr>gp_system := gp_system gp @ gor_roots g, gp_excluded := gp_excluded gp + 1\<rparr>
      else
        (case map_of (labels_at (ss_labels s) (gor_id g)) key of
           None \<Rightarrow>
             let gp = gp\<lparr>gp_ungrouped := gp_ungrouped gp @ gor_roots g\<rparr>;
                 gp = (if gor_is_system g \<or> gor_is_background g
                       then gp\<lparr>gp_system := gp_system gp @ gor_roots g\<rparr> else gp)
             in gp\<lparr>gp_ungrouped_count := gp_ungrouped_count gp + 1\<rparr>
         | Some v \<Rightarrow>
             gp\<lparr>gp_counts := (gp_counts gp)(v \<mapsto> group_count_of gp v + 1),
                gp_groups := AList.update v (group_roots_of gp v @ gor_roots g) (gp_groups gp)\<rparr>))"

fun count_members ::
  "graph \<Rightarrow> (string \<times> root_ref list) list \<Rightarrow> (object_id \<Rightarrow> int) \<Rightarrow> (mem_error, ctx, object_id \<Rightarrow> int) run"
where
  "count_members g [] mem = es_return mem"
| "count_members g ((v, roots) # gs) mem =
     es_bind (walk g roots) (\<lambda>set1.
     count_members g gs (\<lambda>i. if i \<in> set1 then mem i + 1 else mem i))"

definition breakdown_of ::
  "graph \<Rightarrow> (object_id \<Rightarrow> int) \<Rightarrow> object_id set \<Rightarrow> object_id set \<Rightarrow> object_id set \<Rightarrow> object_id set \<Rightarrow>
    mem_error + breakdown"
where
  "breakdown_of g mem global sys rest set1 =
     (let outside = set_union global (set_union sys rest);
          both = Set.filter (\<lambda>i. mem i > 1 \<and> i \<in> outside) set1;
          bubbles_only = Set.filter (\<lambda>i. mem i > 1 \<and> i \<notin> outside) set1;
          other_only = Set.filter (\<lambda>i. \<not> mem i > 1 \<and> i \<in> outside) set1;
          exclusive = Set.filter (\<lambda>i. \<not> mem i > 1 \<and> i \<notin> outside) set1
      in sum_bind (measure_all g
           [set1, exclusive, set_difference set1 exclusive, bubbles_only, other_only, both,
            set_union bubbles_only both, set_union other_only both, set_intersection set1 global,
            set_intersection set1 sys, set_intersection set1 rest]) (\<lambda>ms.
         Inr \<lparr>bd_reachable = ms ! 0, bd_exclusive = ms ! 1, bd_shared = ms ! 2,
           bd_bubbles_only = ms ! 3, bd_other_only = ms ! 4, bd_both = ms ! 5,
           bd_bubble_overlap = ms ! 6, bd_other_overlap = ms ! 7, bd_global_overlap = ms ! 8,
           bd_system_overlap = ms ! 9, bd_ungrouped_overlap = ms ! 10\<rparr>))"

fun group_rows ::
  "graph \<Rightarrow> grouping \<Rightarrow> (object_id \<Rightarrow> int) \<Rightarrow> object_id set \<Rightarrow> object_id set \<Rightarrow> object_id set \<Rightarrow>
    (string \<times> root_ref list) list \<Rightarrow> (mem_error, ctx, group_result list) run"
where
  "group_rows g gp mem global sys rest [] = es_return []"
| "group_rows g gp mem global sys rest ((v, roots) # gs) =
     es_bind (walk g roots) (\<lambda>set1.
     es_bind (es_lift (breakdown_of g mem global sys rest set1)) (\<lambda>bd.
     es_bind (group_rows g gp mem global sys rest gs) (\<lambda>rows.
     es_return (\<lparr>gw_value = v, gw_goroutines = group_count_of gp v, gw_breakdown = bd\<rparr> # rows))))"

definition group_metric :: "string \<Rightarrow> group_result \<Rightarrow> u64" where
  "group_metric srt r =
     (if srt = ''exclusive'' then ms_bytes (bd_exclusive (gw_breakdown r))
      else if srt = ''shared'' then ms_bytes (bd_shared (gw_breakdown r))
      else ms_bytes (bd_reachable (gw_breakdown r)))"

definition top_groups :: "session \<Rightarrow> top_options \<Rightarrow> (mem_error, ctx, top_result) run" where
  "top_groups s opts0 =
     (if to_by opts0 = [] \<or> to_limit opts0 < 0 then
        es_fail (OtherError (Errorf (Fmt ''by is required and limit must be non-negative'' [])))
      else
        let opts = (if to_sort opts0 = [] then opts0\<lparr>to_sort := ''reachable''\<rparr> else opts0) in
        if to_sort opts \<noteq> ''reachable'' \<and> to_sort opts \<noteq> ''exclusive'' \<and> to_sort opts \<noteq> ''shared'' then
          es_fail (OtherError (Errorf (Fmt ''sort must be reachable, exclusive, or shared'' [])))
        else
          es_bind (ready s) (\<lambda>_.
          let g = session_graph s;
              gp = fold (group_goroutine s (to_by opts)) (session_goroutines s) no_grouping in
          es_bind (walk g (session_globals s)) (\<lambda>global.
          es_bind (walk g (gp_system gp)) (\<lambda>sys.
          es_bind (walk g (gp_ungrouped gp)) (\<lambda>rest.
          es_bind (count_members g (gp_groups gp) (\<lambda>_. 0)) (\<lambda>mem.
          es_bind (group_rows g gp mem global sys rest (gp_groups gp)) (\<lambda>rows.
          return_polled
            \<lparr>tr_by = to_by opts,
             tr_groups = limit_list (to_limit opts)
               (sort_key (\<lambda>r. (- int (unat (group_metric (to_sort opts) r)), gw_value r)) rows),
             tr_total = int (length rows), tr_ungrouped = gp_ungrouped_count gp,
             tr_excluded = gp_excluded gp\<rparr>)))))))"

declare measure_all.simps [simp del]

section \<open>Measures of several sets\<close>

lemma measure_all_Inr:
  "measure_all g ss = Inr ms \<longleftrightarrow> list_all2 (\<lambda>s m. measure_set g s = Inr m) ss ms"
  by (induction g ss arbitrary: ms rule: measure_all.induct)
    (auto simp: measure_all.simps sum_bind_Inr list_all2_Cons1)

lemma measure_all_nth:
  "measure_all g ss = Inr ms \<Longrightarrow> k < length ss \<Longrightarrow> measure_set g (ss ! k) = Inr (ms ! k)"
  by (auto simp: measure_all_Inr list_all2_conv_all_nth)

definition measured :: "graph \<Rightarrow> object_id set \<Rightarrow> set_measure \<Rightarrow> bool" where
  "measured g s m \<longleftrightarrow> ms_objects m = int (card s) \<and> unat (ms_bytes m) = set_bytes g s"

lemma measure_measured: "measure_set g s = Inr m \<Longrightarrow> measured g s m"
  by (simp add: measure_set_Inr measured_def)

lemma measured_disjoint:
  assumes "measured g a ma" "measured g b mb" "measured g (a \<union> b) m" "a \<inter> b = {}"
  shows "ms_objects m = ms_objects ma + ms_objects mb"
    "unat (ms_bytes m) = unat (ms_bytes ma) + unat (ms_bytes mb)"
  using assms by (simp_all add: measured_def set_bytes_Un card_Un_disjoint)

lemma walk_Inr: "walk g roots c = Inr (R, c') \<Longrightarrow> R = reachable_from (Some g) roots"
  using ctx_runs_Inr [OF walk_runs] by blast

lemma return_polled_Inr: "return_polled x c = Inr (y, c') \<Longrightarrow> y = x"
  using ctx_runs_Inr [OF ctx_runs_return_polled] by fastforce

lemma selected_Inr:
  "selected s req = Inr (roots, ids) \<longleftrightarrow>
    validate_request (Some req) (ss_opts s) = None \<and>
    roots = goroutine_roots_of (session_matching s req) \<and> ids = gor_id ` set (session_matching s req)"
  by (auto simp: selected_eq split: option.splits)

text \<open>What a selection reaches, and what everything else reaches.\<close>

definition selection_reach :: "session \<Rightarrow> mem_request \<Rightarrow> object_id set" where
  "selection_reach s req =
     reachable_from (Some (session_graph s)) (goroutine_roots_of (session_matching s req))"

lemma rest_roots_fold:
  "fold (rest_root ids) gs (system, other) =
    (system @ goroutine_roots_of (filter (\<lambda>g. gor_id g \<notin> ids \<and> is_system g) gs),
     other @ goroutine_roots_of (filter (\<lambda>g. gor_id g \<notin> ids \<and> \<not> is_system g) gs))"
  by (induction gs arbitrary: system other) (auto simp: rest_root_def goroutine_roots_of_def is_system_def)

definition outside_reach :: "session \<Rightarrow> u64 set \<Rightarrow> object_id set" where
  "outside_reach s ids =
     reachable_from (Some (session_graph s)) (session_globals s) \<union>
     reachable_from (Some (session_graph s))
       (goroutine_roots_of (filter (\<lambda>g. gor_id g \<notin> ids) (session_goroutines s)))"

lemma reachable_from_split:
  "reachable_from (Some g) (goroutine_roots_of (filter P gs)) =
    reachable_from (Some g) (goroutine_roots_of (filter (\<lambda>x. P x \<and> Q x) gs)) \<union>
    reachable_from (Some g) (goroutine_roots_of (filter (\<lambda>x. P x \<and> \<not> Q x) gs))"
proof -
  let ?a = "goroutine_roots_of (filter (\<lambda>x. P x \<and> Q x) gs)"
  let ?b = "goroutine_roots_of (filter (\<lambda>x. P x \<and> \<not> Q x) gs)"
  have "set (goroutine_roots_of (filter P gs)) = set (?a @ ?b)" by (auto simp: goroutine_roots_of_def)
  from reachable_from_cong [OF this] show ?thesis by (simp add: reachable_from_append)
qed

lemma outside_reach_split:
  "outside_reach s ids = reachable_from (Some (session_graph s)) (session_globals s) \<union>
    (reachable_from (Some (session_graph s)) (fst (rest_roots s ids)) \<union>
     reachable_from (Some (session_graph s)) (snd (rest_roots s ids)))"
  using reachable_from_split [of "session_graph s" "\<lambda>g. gor_id g \<notin> ids" "session_goroutines s" is_system]
  by (simp add: outside_reach_def rest_roots_def rest_roots_fold)

section \<open>What the comparisons report\<close>

lemma compare_sets_Inr:
  assumes "compare_sets s a b c = Inr ((cmp, shared), c')"
  shows "shared = selection_reach s a \<inter> selection_reach s b \<and>
    measured (session_graph s) (selection_reach s a - selection_reach s b) (cp_a_only cmp) \<and>
    measured (session_graph s) (selection_reach s b - selection_reach s a) (cp_b_only cmp) \<and>
    measured (session_graph s) (selection_reach s a \<inter> selection_reach s b) (cp_shared cmp) \<and>
    measured (session_graph s) (selection_reach s a \<union> selection_reach s b) (cp_union cmp) \<and>
    cp_overlapping cmp = sorted_list_of_set
      (gor_id ` set (session_matching s a) \<inter> gor_id ` set (session_matching s b))"
proof -
  let ?g = "session_graph s" and ?A = "selection_reach s a" and ?B = "selection_reach s b"
  from assms obtain ms where ms: "measure_all ?g [?A - ?B, ?B - ?A, ?A \<inter> ?B, ?A \<union> ?B] = Inr ms"
    and shared: "shared = ?A \<inter> ?B"
    and cmp: "cp_a_only cmp = ms ! 0" "cp_b_only cmp = ms ! 1" "cp_shared cmp = ms ! 2" "cp_union cmp = ms ! 3"
      "cp_overlapping cmp = sorted_list_of_set
        (gor_id ` set (session_matching s a) \<inter> gor_id ` set (session_matching s b))"
    by (auto simp: compare_sets_def Let_def es_bind_Inr selected_Inr selection_reach_def
        dest!: walk_Inr return_polled_Inr)
  note m = measure_measured [OF measure_all_nth [OF ms]]
  from m [of 0] m [of 1] m [of 2] m [of 3] show ?thesis
    by (simp add: shared cmp numeral_2_eq_2 numeral_3_eq_3)
qed

lemma compare_selections_Inr:
  assumes "compare_selections s a b c = Inr (cmp, c')"
  obtains c1 shared c2 where "compare_sets s a b c1 = Inr ((cmp, shared), c2)" "ready_answer s = Inr ()"
proof -
  from assms obtain u c1 shared c2 where rd: "ready s c = Inr (u, c1)"
    and cmp: "compare_sets s a b c1 = Inr ((cmp, shared), c2)"
    by (auto simp: compare_selections_def es_bind_Inr)
  from ctx_runs_Inr [OF ready_runs rd] cmp that show ?thesis by simp
qed

lemma compare_partition:
  assumes "compare_selections s a b c = Inr (cmp, c')"
  shows "ms_objects (cp_union cmp) =
      ms_objects (cp_a_only cmp) + ms_objects (cp_b_only cmp) + ms_objects (cp_shared cmp)"
    and "unat (ms_bytes (cp_union cmp)) =
      unat (ms_bytes (cp_a_only cmp)) + unat (ms_bytes (cp_b_only cmp)) + unat (ms_bytes (cp_shared cmp))"
    and "measured (session_graph s) (selection_reach s a \<inter> selection_reach s b) (cp_shared cmp)"
proof -
  let ?g = "session_graph s" and ?A = "selection_reach s a" and ?B = "selection_reach s b"
  obtain c1 shared c2 where "compare_sets s a b c1 = Inr ((cmp, shared), c2)"
    by (rule compare_selections_Inr [OF assms])
  note m = compare_sets_Inr [OF this]
  have parts: "?A \<union> ?B = (?A - ?B) \<union> (?B - ?A) \<union> (?A \<inter> ?B)" by auto
  have "card (?A \<union> ?B) = card (?A - ?B) + card (?B - ?A) + card (?A \<inter> ?B)"
    unfolding parts by (subst card_Un_disjoint, auto)+
  moreover have "set_bytes ?g (?A \<union> ?B) = set_bytes ?g (?A - ?B) + set_bytes ?g (?B - ?A) + set_bytes ?g (?A \<inter> ?B)"
    unfolding parts by (subst set_bytes_Un, auto)+
  ultimately show "ms_objects (cp_union cmp) =
      ms_objects (cp_a_only cmp) + ms_objects (cp_b_only cmp) + ms_objects (cp_shared cmp)"
    "unat (ms_bytes (cp_union cmp)) =
      unat (ms_bytes (cp_a_only cmp)) + unat (ms_bytes (cp_b_only cmp)) + unat (ms_bytes (cp_shared cmp))"
    using m by (simp_all add: measured_def)
  show "measured ?g (?A \<inter> ?B) (cp_shared cmp)" using m by simp
qed

lemma exclusive_of_Inr:
  assumes "exclusive_of s req c = Inr (er, c')"
  defines "R \<equiv> selection_reach s req" and "X \<equiv> outside_reach s (gor_id ` set (session_matching s req))"
  shows "measured (session_graph s) R (er_reachable er)"
    and "measured (session_graph s) (R - X) (er_exclusive er)"
    and "measured (session_graph s) (R \<inter> X) (er_shared er)"
    and "measured (session_graph s) (R \<inter> reachable_from (Some (session_graph s)) (session_globals s)) (er_global er)"
proof -
  let ?g = "session_graph s" and ?ids = "gor_id ` set (session_matching s req)"
  let ?G = "reachable_from (Some ?g) (session_globals s)"
  let ?S = "reachable_from (Some ?g) (fst (rest_roots s ?ids))"
  let ?O = "reachable_from (Some ?g) (snd (rest_roots s ?ids))"
  have X: "X = ?G \<union> (?S \<union> ?O)" unfolding X_def by (rule outside_reach_split)
  obtain system other where rr: "rest_roots s ?ids = (system, other)" by fastforce
  from assms(1) obtain ms where ms: "measure_all ?g [R, R - X, R \<inter> X, R \<inter> ?G, R \<inter> ?S, R \<inter> ?O] = Inr ms"
    and er: "er_reachable er = ms ! 0" "er_exclusive er = ms ! 1" "er_shared er = ms ! 2" "er_global er = ms ! 3"
    by (auto simp: exclusive_of_def Let_def es_bind_Inr selected_Inr R_def selection_reach_def X rr
        dest!: walk_Inr return_polled_Inr)
  note m = measure_measured [OF measure_all_nth [OF ms]]
  from m [of 0] show "measured ?g R (er_reachable er)" by (simp add: er)
  from m [of 1] show "measured ?g (R - X) (er_exclusive er)" by (simp add: er)
  from m [of 2] show "measured ?g (R \<inter> X) (er_shared er)" by (simp add: er numeral_2_eq_2)
  from m [of 3] show "measured ?g (R \<inter> ?G) (er_global er)" by (simp add: er numeral_3_eq_3)
qed

lemma exclusive_partition:
  assumes "exclusive_of s req c = Inr (er, c')"
  shows "ms_objects (er_reachable er) = ms_objects (er_exclusive er) + ms_objects (er_shared er)"
    "unat (ms_bytes (er_reachable er)) = unat (ms_bytes (er_exclusive er)) + unat (ms_bytes (er_shared er))"
proof -
  let ?R = "selection_reach s req" and ?X = "outside_reach s (gor_id ` set (session_matching s req))"
  note m = exclusive_of_Inr [OF assms]
  have "(?R - ?X) \<union> (?R \<inter> ?X) = ?R" "(?R - ?X) \<inter> (?R \<inter> ?X) = {}" by auto
  with measured_disjoint [OF m(2) m(3)] m(1)
  show "ms_objects (er_reachable er) = ms_objects (er_exclusive er) + ms_objects (er_shared er)"
    "unat (ms_bytes (er_reachable er)) = unat (ms_bytes (er_exclusive er)) + unat (ms_bytes (er_shared er))"
    by simp_all
qed

section \<open>What \<open>Top\<close> reports\<close>

definition top_grouping :: "session \<Rightarrow> string \<Rightarrow> grouping" where
  "top_grouping s key = fold (group_goroutine s key) (session_goroutines s) no_grouping"

definition group_members :: "session \<Rightarrow> string \<Rightarrow> string \<Rightarrow> goroutine_reach list \<Rightarrow> goroutine_reach list" where
  "group_members s key v gs = filter (carries (ss_opts s) (ss_labels s) key v) gs"

lemma group_goroutine_simps:
  "distinct (map fst (gp_groups gp)) \<Longrightarrow> distinct (map fst (gp_groups (group_goroutine s key g gp)))"
  "map_of (gp_groups (group_goroutine s key g gp)) v =
    (if carries (ss_opts s) (ss_labels s) key v g then Some (group_roots_of gp v @ gor_roots g)
     else map_of (gp_groups gp) v)"
  "group_count_of (group_goroutine s key g gp) v =
    group_count_of gp v + (if carries (ss_opts s) (ss_labels s) key v g then 1 else 0)"
  by (auto simp: group_goroutine_def carries_def eligible_goroutine_def is_system_def Let_def distinct_update
      update_conv' group_count_of_def split: option.split)

lemma grouping_fold:
  "distinct (map fst (gp_groups gp)) \<Longrightarrow>
    distinct (map fst (gp_groups (fold (group_goroutine s key) gs gp))) \<and>
    map_of (gp_groups (fold (group_goroutine s key) gs gp)) v =
      (if group_members s key v gs = [] then map_of (gp_groups gp) v
       else Some (group_roots_of gp v @ goroutine_roots_of (group_members s key v gs))) \<and>
    group_count_of (fold (group_goroutine s key) gs gp) v =
      group_count_of gp v + int (length (group_members s key v gs))"
proof (induction gs arbitrary: gp)
  case Nil
  then show ?case by (simp add: group_members_def)
next
  case (Cons g gs)
  have roots: "group_roots_of (group_goroutine s key g gp) v =
      group_roots_of gp v @ (if carries (ss_opts s) (ss_labels s) key v g then gor_roots g else [])"
    by (simp add: group_roots_of_def group_goroutine_simps(2))
  show ?case
    using Cons.IH [OF group_goroutine_simps(1) [OF Cons.prems], of s key g]
    by (auto simp: group_members_def group_goroutine_simps(2,3) roots goroutine_roots_of_def)
qed

lemma top_grouping_spec:
  "distinct (map fst (gp_groups (top_grouping s key)))"
  "map_of (gp_groups (top_grouping s key)) v =
    (if group_members s key v (session_goroutines s) = [] then None
     else Some (goroutine_roots_of (group_members s key v (session_goroutines s))))"
  "group_count_of (top_grouping s key) v = int (length (group_members s key v (session_goroutines s)))"
  using grouping_fold [of no_grouping s key "session_goroutines s" v]
  by (simp_all add: top_grouping_def no_grouping_def group_roots_of_def group_count_of_def)

lemma count_members_Inr:
  "count_members g gs mem c = Inr (mem', c') \<Longrightarrow>
    mem' i = mem i + int (length (filter (\<lambda>(v, roots). i \<in> reachable_from (Some g) roots) gs))"
  by (induction g gs mem arbitrary: c rule: count_members.induct)
    (auto simp: es_bind_Inr dest!: walk_Inr split: if_splits)

lemma group_rows_Inr:
  "group_rows g gp mem global sys rest gs c = Inr (rows, c') \<Longrightarrow>
    list_all2 (\<lambda>(v, roots) r. gw_value r = v \<and> gw_goroutines r = group_count_of gp v \<and>
      breakdown_of g mem global sys rest (reachable_from (Some g) roots) = Inr (gw_breakdown r)) gs rows"
  by (induction g gp mem global sys rest gs arbitrary: rows c c' rule: group_rows.induct)
    (auto simp: es_bind_Inr dest!: walk_Inr)

text \<open>How an object reached by a group is classified.\<close>

lemma breakdown_of_Inr:
  assumes "breakdown_of g mem global sys rest R = Inr bd"
  defines "O1 \<equiv> global \<union> (sys \<union> rest)" and "M1 \<equiv> {i. mem i > 1}"
  shows "measured g R (bd_reachable bd)" "measured g (R - M1 - O1) (bd_exclusive bd)"
    "measured g (R \<inter> (M1 \<union> O1)) (bd_shared bd)" "measured g (R \<inter> M1 - O1) (bd_bubbles_only bd)"
    "measured g (R \<inter> O1 - M1) (bd_other_only bd)" "measured g (R \<inter> M1 \<inter> O1) (bd_both bd)"
    "measured g (R \<inter> M1) (bd_bubble_overlap bd)" "measured g (R \<inter> O1) (bd_other_overlap bd)"
    "measured g (R \<inter> global) (bd_global_overlap bd)" "measured g (R \<inter> sys) (bd_system_overlap bd)"
    "measured g (R \<inter> rest) (bd_ungrouped_overlap bd)"
proof -
  have sets: "Set.filter (\<lambda>i. mem i > 1 \<and> i \<in> O1) R = R \<inter> M1 \<inter> O1"
    "Set.filter (\<lambda>i. mem i > 1 \<and> i \<notin> O1) R = R \<inter> M1 - O1"
    "Set.filter (\<lambda>i. \<not> mem i > 1 \<and> i \<in> O1) R = R \<inter> O1 - M1"
    "Set.filter (\<lambda>i. \<not> mem i > 1 \<and> i \<notin> O1) R = R - M1 - O1"
    "R - (R - M1 - O1) = R \<inter> (M1 \<union> O1)"
    by (auto simp: M1_def)
  from assms(1) obtain ms where ms: "measure_all g
      [R, R - M1 - O1, R \<inter> (M1 \<union> O1), R \<inter> M1 - O1, R \<inter> O1 - M1, R \<inter> M1 \<inter> O1,
       (R \<inter> M1 - O1) \<union> (R \<inter> M1 \<inter> O1), (R \<inter> O1 - M1) \<union> (R \<inter> M1 \<inter> O1),
       R \<inter> global, R \<inter> sys, R \<inter> rest] = Inr ms"
    and bd: "bd_reachable bd = ms ! 0" "bd_exclusive bd = ms ! 1" "bd_shared bd = ms ! 2"
      "bd_bubbles_only bd = ms ! 3" "bd_other_only bd = ms ! 4" "bd_both bd = ms ! 5"
      "bd_bubble_overlap bd = ms ! 6" "bd_other_overlap bd = ms ! 7" "bd_global_overlap bd = ms ! 8"
      "bd_system_overlap bd = ms ! 9" "bd_ungrouped_overlap bd = ms ! 10"
    unfolding breakdown_of_def set_ops O1_def [symmetric] Let_def sets sum_bind_Inr by auto
  note m = measure_measured [OF measure_all_nth [OF ms]]
  have either: "(R \<inter> M1 - O1) \<union> (R \<inter> M1 \<inter> O1) = R \<inter> M1" "(R \<inter> O1 - M1) \<union> (R \<inter> M1 \<inter> O1) = R \<inter> O1" by auto
  from m [of 6] m [of 7] m [of 8] m [of 9] m [of 10]
  show "measured g (R \<inter> M1) (bd_bubble_overlap bd)" "measured g (R \<inter> O1) (bd_other_overlap bd)"
    "measured g (R \<inter> global) (bd_global_overlap bd)" "measured g (R \<inter> sys) (bd_system_overlap bd)"
    "measured g (R \<inter> rest) (bd_ungrouped_overlap bd)"
    by (simp_all add: bd either eval_nat_numeral)
  from m [of 0] m [of 1] m [of 2] m [of 3] m [of 4] m [of 5]
  show "measured g R (bd_reachable bd)" "measured g (R - M1 - O1) (bd_exclusive bd)"
    "measured g (R \<inter> (M1 \<union> O1)) (bd_shared bd)" "measured g (R \<inter> M1 - O1) (bd_bubbles_only bd)"
    "measured g (R \<inter> O1 - M1) (bd_other_only bd)" "measured g (R \<inter> M1 \<inter> O1) (bd_both bd)"
    by (simp_all add: bd eval_nat_numeral)
qed

lemma length_filter_gt_1:
  assumes "distinct xs" "x \<in> set xs" "P x"
  shows "1 < length (filter P xs) \<longleftrightarrow> (\<exists>y \<in> set xs. y \<noteq> x \<and> P y)"
proof -
  have "length (filter P xs) = card {y \<in> set xs. P y}"
    using assms(1) by (metis distinct_card distinct_filter set_filter)
  also have "{y \<in> set xs. P y} = insert x {y \<in> set xs. y \<noteq> x \<and> P y}" using assms by auto
  also have "card \<dots> = Suc (card {y \<in> set xs. y \<noteq> x \<and> P y})" by simp
  finally show ?thesis by (auto simp: card_gt_0_iff)
qed

text \<open>The roots that belong to no group of the key, and those of the other groups.\<close>

definition ungrouped_reach :: "session \<Rightarrow> string \<Rightarrow> object_id set" where
  "ungrouped_reach s key =
     (let reach = reachable_from (Some (session_graph s))
      in reach (session_globals s) \<union> (reach (gp_system (top_grouping s key)) \<union> reach (gp_ungrouped (top_grouping s key))))"

definition other_groups_reach :: "session \<Rightarrow> string \<Rightarrow> string \<Rightarrow> object_id set" where
  "other_groups_reach s key v =
     (\<Union>(v', roots) \<in> set (gp_groups (top_grouping s key)).
        if v' = v then {} else reachable_from (Some (session_graph s)) roots)"

definition group_reach :: "session \<Rightarrow> string \<Rightarrow> string \<Rightarrow> object_id set" where
  "group_reach s key v =
     reachable_from (Some (session_graph s)) (goroutine_roots_of (group_members s key v (session_goroutines s)))"

lemma limit_sorted_subset: "set (limit_list n (sort_key f xs)) \<subseteq> set xs"
  by (auto simp: limit_list_def dest: in_set_takeD)

lemma top_groups_row:
  assumes "top_groups s opts c = Inr (res, c')" and "row \<in> set (tr_groups res)"
  defines "R \<equiv> group_reach s (to_by opts) (gw_value row)"
    and "B \<equiv> other_groups_reach s (to_by opts) (gw_value row)" and "X \<equiv> ungrouped_reach s (to_by opts)"
  shows "gw_goroutines row = int (length (group_members s (to_by opts) (gw_value row) (session_goroutines s)))"
    and "measured (session_graph s) R (bd_reachable (gw_breakdown row))"
    and "measured (session_graph s) (R - B - X) (bd_exclusive (gw_breakdown row))"
    and "measured (session_graph s) (R \<inter> (B \<union> X)) (bd_shared (gw_breakdown row))"
    and "measured (session_graph s) (R \<inter> B - X) (bd_bubbles_only (gw_breakdown row))"
    and "measured (session_graph s) (R \<inter> X - B) (bd_other_only (gw_breakdown row))"
    and "measured (session_graph s) (R \<inter> B \<inter> X) (bd_both (gw_breakdown row))"
    and "measured (session_graph s) (R \<inter> B) (bd_bubble_overlap (gw_breakdown row))"
    and "measured (session_graph s) (R \<inter> X) (bd_other_overlap (gw_breakdown row))"
    and "measured (session_graph s) (R \<inter> reachable_from (Some (session_graph s)) (session_globals s))
      (bd_global_overlap (gw_breakdown row))"
    and "measured (session_graph s) (R \<inter> reachable_from (Some (session_graph s)) (gp_system (top_grouping s (to_by opts))))
      (bd_system_overlap (gw_breakdown row))"
    and "measured (session_graph s) (R \<inter> reachable_from (Some (session_graph s)) (gp_ungrouped (top_grouping s (to_by opts))))
      (bd_ungrouped_overlap (gw_breakdown row))"
proof -
  let ?g = "session_graph s" and ?gp = "top_grouping s (to_by opts)"
  let ?reach = "reachable_from (Some ?g)"
  let ?G = "?reach (session_globals s)" and ?S = "?reach (gp_system ?gp)" and ?U = "?reach (gp_ungrouped ?gp)"
  from assms(1) obtain mem rows c1 c2 c3 c4 where
    mem: "count_members ?g (gp_groups ?gp) (\<lambda>_. 0) c1 = Inr (mem, c2)"
    and rows: "group_rows ?g ?gp mem ?G ?S ?U (gp_groups ?gp) c3 = Inr (rows, c4)"
    and res: "set (tr_groups res) \<subseteq> set rows"
    unfolding top_groups_def Let_def top_grouping_def [symmetric]
    by (auto simp: es_bind_Inr limit_sorted_subset split: if_splits dest!: walk_Inr return_polled_Inr)
  from rows have "list_all2 (\<lambda>(v, roots) r. gw_value r = v \<and> gw_goroutines r = group_count_of ?gp v \<and>
      breakdown_of ?g mem ?G ?S ?U (?reach roots) = Inr (gw_breakdown r)) (gp_groups ?gp) rows"
    by (rule group_rows_Inr)
  from list_all2_set2 [OF this, of row] assms(2) res obtain roots where
    grp: "(gw_value row, roots) \<in> set (gp_groups ?gp)"
    and cnt: "gw_goroutines row = group_count_of ?gp (gw_value row)"
    and bd: "breakdown_of ?g mem ?G ?S ?U (?reach roots) = Inr (gw_breakdown row)"
    by auto
  have dist: "distinct (map fst (gp_groups ?gp))" by (rule top_grouping_spec)
  then have "map_of (gp_groups ?gp) (gw_value row) = Some roots" using grp by simp
  then have R: "R = ?reach roots"
    by (auto simp: R_def group_reach_def top_grouping_spec(2) split: if_splits)
  have X: "X = ?G \<union> (?S \<union> ?U)" by (simp add: X_def ungrouped_reach_def Let_def)
  have mem_eq: "mem i = int (length (filter (\<lambda>(v, rs). i \<in> ?reach rs) (gp_groups ?gp)))" for i
    using count_members_Inr [OF mem, of i] by simp
  have only: "rs = roots" if "(gw_value row, rs) \<in> set (gp_groups ?gp)" for rs
    by (rule eq_key_imp_eq_value [OF dist that grp])
  have M: "i \<in> {i. mem i > 1} \<longleftrightarrow> i \<in> B" if i: "i \<in> R" for i
  proof -
    have "1 < length (filter (\<lambda>(v, rs). i \<in> ?reach rs) (gp_groups ?gp)) \<longleftrightarrow>
        (\<exists>y \<in> set (gp_groups ?gp). y \<noteq> (gw_value row, roots) \<and> (case y of (v, rs) \<Rightarrow> i \<in> ?reach rs))"
      by (rule length_filter_gt_1 [OF _ grp]) (use dist i R in \<open>auto simp: distinct_map\<close>)
    also have "\<dots> \<longleftrightarrow> (\<exists>(v, rs) \<in> set (gp_groups ?gp). v \<noteq> gw_value row \<and> i \<in> ?reach rs)"
      by (intro bex_cong refl) (use only in auto)
    also have "\<dots> \<longleftrightarrow> i \<in> B"
      by (auto simp: B_def other_groups_reach_def split: prod.splits)
    finally show ?thesis by (simp add: mem_eq)
  qed
  have sets: "R - {i. mem i > 1} - X = R - B - X" "R \<inter> ({i. mem i > 1} \<union> X) = R \<inter> (B \<union> X)"
    "R \<inter> {i. mem i > 1} - X = R \<inter> B - X" "R \<inter> X - {i. mem i > 1} = R \<inter> X - B"
    "R \<inter> {i. mem i > 1} \<inter> X = R \<inter> B \<inter> X" "R \<inter> {i. mem i > 1} = R \<inter> B"
    using M by blast+
  note out = breakdown_of_Inr [OF bd, folded R X, unfolded sets]
  show "gw_goroutines row = int (length (group_members s (to_by opts) (gw_value row) (session_goroutines s)))"
    by (simp add: cnt top_grouping_spec)
  show "measured ?g R (bd_reachable (gw_breakdown row))"
    "measured ?g (R - B - X) (bd_exclusive (gw_breakdown row))"
    "measured ?g (R \<inter> (B \<union> X)) (bd_shared (gw_breakdown row))"
    "measured ?g (R \<inter> B - X) (bd_bubbles_only (gw_breakdown row))"
    "measured ?g (R \<inter> X - B) (bd_other_only (gw_breakdown row))"
    "measured ?g (R \<inter> B \<inter> X) (bd_both (gw_breakdown row))"
    "measured ?g (R \<inter> B) (bd_bubble_overlap (gw_breakdown row))"
    "measured ?g (R \<inter> X) (bd_other_overlap (gw_breakdown row))"
    "measured ?g (R \<inter> ?G) (bd_global_overlap (gw_breakdown row))"
    "measured ?g (R \<inter> ?S) (bd_system_overlap (gw_breakdown row))"
    "measured ?g (R \<inter> ?U) (bd_ungrouped_overlap (gw_breakdown row))"
    by (fact out)+
qed

lemma top_groups_partition:
  assumes "top_groups s opts c = Inr (res, c')" and "row \<in> set (tr_groups res)"
  defines "bd \<equiv> gw_breakdown row"
  shows "ms_objects (bd_reachable bd) = ms_objects (bd_exclusive bd) + ms_objects (bd_bubbles_only bd) +
      ms_objects (bd_other_only bd) + ms_objects (bd_both bd)"
    "unat (ms_bytes (bd_reachable bd)) = unat (ms_bytes (bd_exclusive bd)) + unat (ms_bytes (bd_bubbles_only bd)) +
      unat (ms_bytes (bd_other_only bd)) + unat (ms_bytes (bd_both bd))"
proof -
  let ?g = "session_graph s" and ?R = "group_reach s (to_by opts) (gw_value row)"
  let ?B = "other_groups_reach s (to_by opts) (gw_value row)" and ?X = "ungrouped_reach s (to_by opts)"
  note m = top_groups_row [OF assms(1,2), folded bd_def]
  have parts: "?R = (?R - ?B - ?X) \<union> (?R \<inter> ?B - ?X) \<union> (?R \<inter> ?X - ?B) \<union> (?R \<inter> ?B \<inter> ?X)" by auto
  have "card ?R = card (?R - ?B - ?X) + card (?R \<inter> ?B - ?X) + card (?R \<inter> ?X - ?B) + card (?R \<inter> ?B \<inter> ?X)"
    by (subst parts) ((subst card_Un_disjoint, (auto)[3])+, rule refl)
  moreover have "set_bytes ?g ?R = set_bytes ?g (?R - ?B - ?X) + set_bytes ?g (?R \<inter> ?B - ?X) +
      set_bytes ?g (?R \<inter> ?X - ?B) + set_bytes ?g (?R \<inter> ?B \<inter> ?X)"
    by (subst parts) ((subst set_bytes_Un, (auto)[1])+, rule refl)
  ultimately show "ms_objects (bd_reachable bd) = ms_objects (bd_exclusive bd) + ms_objects (bd_bubbles_only bd) +
      ms_objects (bd_other_only bd) + ms_objects (bd_both bd)"
    "unat (ms_bytes (bd_reachable bd)) = unat (ms_bytes (bd_exclusive bd)) + unat (ms_bytes (bd_bubbles_only bd)) +
      unat (ms_bytes (bd_other_only bd)) + unat (ms_bytes (bd_both bd))"
    using m by (simp_all add: measured_def)
qed

end
