(* ===== verification/MemObjects.thy ===== *)
theory MemObjects
  imports MemCompare "HOL-Library.Log_Nat"
begin

text \<open>
  Listing the objects a selection reaches (\<open>internal/memusage/objects.go\<close>) and the aggregate
  summary (\<open>summary.go\<close>): the inspection shared by both, the ranking, the size distribution and
  the membership of objects in the groups of a label.
\<close>

section \<open>Data\<close>

record object_options =
  oo_sort :: string
  oo_limit :: int
  oo_by :: string
  oo_group_limit :: int

record object_info =
  oi_object :: shared_object
  oi_samples :: "alloc_evidence list"
  oi_classification :: string
  oi_global :: bool
  oi_other_system :: bool
  oi_other_goroutines :: bool
  oi_groups :: "string list"
  oi_group_count :: int
  oi_groups_truncated :: bool

record size_bucket =
  sb_min :: u64
  sb_max :: u64
  sb_measure :: set_measure

record objects_result =
  ox_labels :: label_map
  ox_goroutines :: int
  ox_by :: string
  ox_reachable :: set_measure
  ox_exclusive :: set_measure
  ox_shared :: set_measure
  ox_distribution :: "size_bucket list"
  ox_objects :: "object_info list"
  ox_truncated :: bool

record inspection =
  in_selected :: "object_id set"
  in_global :: "object_id set"
  in_system :: "object_id set"
  in_other :: "object_id set"
  in_outside :: "object_id set"
  in_gids :: "u64 set"

record path_source =
  pv_category :: string
  pv_labels :: label_map
  pv_value :: string
  pv_roots :: "root_ref list"
  pv_gids :: "u64 list"

section \<open>Inspection\<close>

definition inspect :: "session \<Rightarrow> mem_request \<Rightarrow> (mem_error, ctx, inspection) run" where
  "inspect s req =
     (let g = session_graph s in
      es_bind (es_lift (selected s req)) (\<lambda>(roots, gids).
      es_bind (walk g roots) (\<lambda>sel.
      es_bind (walk g (session_globals s)) (\<lambda>global.
      case rest_roots s gids of (system, other) \<Rightarrow>
      es_bind (walk g system) (\<lambda>sys.
      es_bind (walk g other) (\<lambda>rest.
      es_return \<lparr>in_selected = sel, in_global = global, in_system = sys, in_other = rest,
        in_outside = set_union global (set_union sys rest), in_gids = gids\<rparr>))))))"

definition object_info_of :: "session \<Rightarrow> inspection \<Rightarrow> object_id \<Rightarrow> object_info" where
  "object_info_of s ins i =
     \<lparr>oi_object = shared_object_of (session_graph s) i,
      oi_samples = allocations_at (ss_allocations s) i,
      oi_classification =
        (if i \<notin> in_selected ins then ''not_reachable_from_selection''
         else if i \<in> in_outside ins then ''shared'' else ''exclusive''),
      oi_global = (i \<in> in_global ins), oi_other_system = (i \<in> in_system ins),
      oi_other_goroutines = (i \<in> in_other ins), oi_groups = [], oi_group_count = 0,
      oi_groups_truncated = False\<rparr>"

definition rank_order :: "graph \<Rightarrow> string \<Rightarrow> object_id \<Rightarrow> int \<times> u64 \<times> object_id" where
  "rank_order g sort_by i =
     (if sort_by \<noteq> ''address'' then size_order g i else (0, ob_addr (gr_objects g ! unat i), i))"

definition ranked_ids ::
  "graph \<Rightarrow> object_id set \<Rightarrow> string \<Rightarrow> int \<Rightarrow> (mem_error, ctx, object_id list) run"
where
  "ranked_ids g s sort_by limit =
     es_bind (es_each (\<lambda>_. mem_poll) (sorted_list_of_set s)) (\<lambda>_.
     return_polled (limit_list limit (sort_key (rank_order g sort_by) (sorted_list_of_set s))))"

section \<open>The size distribution\<close>

text \<open>\<open>bits.Len64\<close>: the number of bits of a value.\<close>

definition bits_len :: "u64 \<Rightarrow> nat" where
  "bits_len w = floorlog 2 (unat w)"

definition zero_bucket :: size_bucket where
  "zero_bucket = \<lparr>sb_min = 0, sb_max = 0, sb_measure = zero_measure\<rparr>"

definition bucket_error :: mem_error where
  "bucket_error = OtherError (Errorf (Fmt ''size distribution byte total overflows uint64'' []))"

definition add_to_bucket :: "u64 \<Rightarrow> size_bucket list \<Rightarrow> mem_error + size_bucket list" where
  "add_to_bucket sz buckets =
     (let k = bits_len sz; b = buckets ! k; m = sb_measure b
      in if sz > max_uint64 - ms_bytes m then Inl bucket_error
         else
           let b = b\<lparr>sb_measure := \<lparr>ms_objects = ms_objects m + 1, ms_bytes = ms_bytes m + sz\<rparr>\<rparr>;
               b = (if k > 0
                    then let lo = push_bit (k - 1) 1 in b\<lparr>sb_min := lo, sb_max := lo - 1 + lo\<rparr>
                    else b)
           in Inr (buckets[k := b]))"

fun distribution_loop ::
  "graph \<Rightarrow> object_id list \<Rightarrow> size_bucket list \<Rightarrow> (mem_error, ctx, size_bucket list) run"
where
  "distribution_loop g [] buckets = es_return buckets"
| "distribution_loop g (i # is) buckets =
     es_bind mem_poll (\<lambda>_.
     es_bind (es_lift (add_to_bucket (ob_size (gr_objects g ! unat i)) buckets)) (\<lambda>buckets.
     distribution_loop g is buckets))"

definition distribution :: "graph \<Rightarrow> object_id set \<Rightarrow> (mem_error, ctx, size_bucket list) run" where
  "distribution g s =
     es_bind (distribution_loop g (sorted_list_of_set s) (replicate 65 zero_bucket)) (\<lambda>buckets.
     es_return (filter (\<lambda>b. ms_objects (sb_measure b) > 0) buckets))"

section \<open>Groups\<close>

definition new_group_source :: "string \<Rightarrow> string \<Rightarrow> path_source" where
  "new_group_source by_key v =
     \<lparr>pv_category = ''group'', pv_labels = [(by_key, v)], pv_value = v, pv_roots = [], pv_gids = []\<rparr>"

definition add_roots_of :: "goroutine_reach \<Rightarrow> path_source \<Rightarrow> path_source" where
  "add_roots_of g src =
     src\<lparr>pv_roots := pv_roots src @ gor_roots g,
         pv_gids := pv_gids src @ map (\<lambda>_. gor_id g) (gor_roots g)\<rparr>"

definition add_group_source ::
  "session \<Rightarrow> string \<Rightarrow> goroutine_reach \<Rightarrow> (string \<times> path_source) list \<Rightarrow> (string \<times> path_source) list"
where
  "add_group_source s by_key g groups =
     (if \<not> mo_include_system (ss_opts s) \<and> (gor_is_system g \<or> gor_is_background g) then groups
      else
        (case map_of (labels_at (ss_labels s) (gor_id g)) by_key of
           None \<Rightarrow> groups
         | Some v \<Rightarrow>
             let src = (case map_of groups v of None \<Rightarrow> new_group_source by_key v | Some x \<Rightarrow> x)
             in AList.update v (add_roots_of g src) groups))"

definition group_sources :: "session \<Rightarrow> string \<Rightarrow> path_source list" where
  "group_sources s by_key =
     (let groups = fold (add_group_source s by_key) (session_goroutines s) []
      in map (\<lambda>v. the (map_of groups v)) (sort (map fst groups)))"

definition bump_group :: "int \<Rightarrow> string \<Rightarrow> object_info \<Rightarrow> object_info" where
  "bump_group limit v info =
     (let info = info\<lparr>oi_group_count := oi_group_count info + 1\<rparr>
      in if int (length (oi_groups info)) < limit
         then info\<lparr>oi_groups := oi_groups info @ [v]\<rparr>
         else info\<lparr>oi_groups_truncated := True\<rparr>)"

text \<open>The index of each listed object; a repeated identifier keeps its last index.\<close>

definition target_index :: "object_info list \<Rightarrow> object_id \<rightharpoonup> nat" where
  "target_index objects =
     fold (\<lambda>(k, ob) m. m(so_id (oi_object ob) \<mapsto> k)) (enumerate 0 objects) Map.empty"

fun member_loop ::
  "graph \<Rightarrow> int \<Rightarrow> path_source list \<Rightarrow> object_info list \<Rightarrow> (mem_error, ctx, object_info list) run"
where
  "member_loop g limit [] objects = return_polled objects"
| "member_loop g limit (src # srcs) objects =
     es_bind (walk g (pv_roots src)) (\<lambda>reach.
     member_loop g limit srcs
       (map (\<lambda>(k, ob).
          if target_index objects (so_id (oi_object ob)) = Some k \<and> so_id (oi_object ob) \<in> reach
          then bump_group limit (pv_value src) ob else ob) (enumerate 0 objects)))"

definition memberships ::
  "session \<Rightarrow> object_info list \<Rightarrow> string \<Rightarrow> int \<Rightarrow> (mem_error, ctx, object_info list) run"
where
  "memberships s objects by_key limit0 =
     (if by_key = [] then es_return objects
      else
        let limit = (if limit0 = 0 then 20 else limit0) in
        if objects = [] then es_return objects
        else member_loop (session_graph s) limit (group_sources s by_key) objects)"

section \<open>\<open>Objects\<close> and \<open>Summary\<close>\<close>

definition objects_of ::
  "session \<Rightarrow> mem_request \<Rightarrow> object_options \<Rightarrow> (mem_error, ctx, objects_result \<times> inspection) run"
where
  "objects_of s req opts =
     (if oo_limit opts < 0 \<or> oo_group_limit opts < 0 then
        es_fail (OtherError (Errorf (Fmt ''limits must be non-negative'' [])))
      else if oo_sort opts \<noteq> [] \<and> oo_sort opts \<noteq> ''size'' \<and> oo_sort opts \<noteq> ''address'' then
        es_fail (OtherError (Errorf (Fmt ''sort must be size or address'' [])))
      else
        let g = session_graph s in
        es_bind (inspect s req) (\<lambda>ins.
        es_bind (es_lift (measure_all g
          [in_selected ins, set_difference (in_selected ins) (in_outside ins),
           set_intersection (in_selected ins) (in_outside ins)])) (\<lambda>ms.
        es_bind (distribution g (in_selected ins)) (\<lambda>sizes.
        es_bind (ranked_ids g (in_selected ins) (oo_sort opts) (oo_limit opts)) (\<lambda>ids.
        es_bind (memberships s (map (object_info_of s ins) ids) (oo_by opts) (oo_group_limit opts)) (\<lambda>objs.
        return_polled
          (\<lparr>ox_labels = rq_labels req, ox_goroutines = int (card (in_gids ins)), ox_by = oo_by opts,
            ox_reachable = ms ! 0, ox_exclusive = ms ! 1, ox_shared = ms ! 2, ox_distribution = sizes,
            ox_objects = objs, ox_truncated = (length ids < card (in_selected ins))\<rparr>, ins)))))))"

definition list_objects ::
  "session \<Rightarrow> mem_request \<Rightarrow> object_options \<Rightarrow> (mem_error, ctx, objects_result) run"
where
  "list_objects s req opts =
     es_bind (ready s) (\<lambda>_. es_bind (objects_of s req opts) (\<lambda>(res, _). es_return res))"

record summary =
  sy_present :: bool
  sy_goroutines :: int
  sy_roots :: int
  sy_metrics :: "(string \<times> set_measure) list"
  sy_distribution :: "size_bucket list"
  sy_root_categories :: "(string \<times> int) list"
  sy_root_functions :: "(string \<times> int) list"

definition count_at :: "(string \<times> int) list \<Rightarrow> string \<Rightarrow> int" where
  "count_at m k = (case map_of m k of None \<Rightarrow> 0 | Some n \<Rightarrow> n)"

definition count_up :: "string \<Rightarrow> (string \<times> int) list \<Rightarrow> (string \<times> int) list" where
  "count_up k m = AList.update k (count_at m k + 1) m"

definition count_root :: "root_ref \<Rightarrow> summary \<Rightarrow> summary" where
  "count_root r out =
     (let out = out\<lparr>sy_roots := sy_roots out + 1,
            sy_root_categories := count_up (rr_kind r) (sy_root_categories out)\<rparr>
      in if rr_kind r = ''stack'' \<and> rr_detail r \<noteq> []
         then out\<lparr>sy_root_functions := count_up (rr_detail r) (sy_root_functions out)\<rparr> else out)"

fun count_roots :: "u64 set \<Rightarrow> goroutine_reach list \<Rightarrow> summary \<Rightarrow> (mem_error, ctx, summary) run" where
  "count_roots gids [] out = es_return out"
| "count_roots gids (g # gs) out =
     es_bind mem_poll (\<lambda>_.
     count_roots gids gs (if gor_id g \<in> gids then fold count_root (gor_roots g) out else out))"

definition metric_sets :: "inspection \<Rightarrow> (string \<times> object_id set) list" where
  "metric_sets ins =
     [(''reachable'', in_selected ins),
      (''exclusive'', set_difference (in_selected ins) (in_outside ins)),
      (''shared'', set_intersection (in_selected ins) (in_outside ins)),
      (''global_overlap'', set_intersection (in_selected ins) (in_global ins)),
      (''system_overlap'', set_intersection (in_selected ins) (in_system ins)),
      (''other_goroutine_overlap'', set_intersection (in_selected ins) (in_other ins))]"

definition summarize :: "session \<Rightarrow> mem_request \<Rightarrow> (mem_error, ctx, summary) run" where
  "summarize s req =
     es_bind (ready s) (\<lambda>_.
     es_bind (inspect s req) (\<lambda>ins.
     let g = session_graph s in
     es_bind (es_lift (measure_all g (map snd (metric_sets ins)))) (\<lambda>ms.
     es_bind (distribution g (in_selected ins)) (\<lambda>sizes.
     count_roots (in_gids ins) (session_goroutines s)
       \<lparr>sy_present = (in_gids ins \<noteq> {}), sy_goroutines = int (card (in_gids ins)), sy_roots = 0,
        sy_metrics = zip (map fst (metric_sets ins)) ms, sy_distribution = sizes,
        sy_root_categories = [], sy_root_functions = []\<rparr>))))"

section \<open>What an inspection holds\<close>

lemma inspect_Inr:
  assumes "inspect s req c = Inr (ins, c')"
  shows "in_selected ins = selection_reach s req"
    "in_outside ins = outside_reach s (gor_id ` set (session_matching s req))"
    "in_gids ins = gor_id ` set (session_matching s req)"
    "in_global ins = reachable_from (Some (session_graph s)) (session_globals s)"
    "in_outside ins = in_global ins \<union> (in_system ins \<union> in_other ins)"
proof -
  obtain system other where rr: "rest_roots s (gor_id ` set (session_matching s req)) = (system, other)"
    by fastforce
  from assms show "in_selected ins = selection_reach s req"
    "in_outside ins = outside_reach s (gor_id ` set (session_matching s req))"
    "in_gids ins = gor_id ` set (session_matching s req)"
    "in_global ins = reachable_from (Some (session_graph s)) (session_globals s)"
    "in_outside ins = in_global ins \<union> (in_system ins \<union> in_other ins)"
    by (auto simp: inspect_def Let_def es_bind_Inr selected_Inr selection_reach_def outside_reach_split rr
        dest!: walk_Inr)
qed

lemma object_info_classification:
  assumes "inspect s req c = Inr (ins, c')"
  defines "R \<equiv> selection_reach s req" and "X \<equiv> outside_reach s (gor_id ` set (session_matching s req))"
  shows "oi_classification (object_info_of s ins i) = ''exclusive'' \<longleftrightarrow> i \<in> R - X"
    "oi_classification (object_info_of s ins i) = ''shared'' \<longleftrightarrow> i \<in> R \<inter> X"
  using inspect_Inr(1,2) [OF assms(1)] by (simp_all add: object_info_of_def R_def X_def)

section \<open>Rankings\<close>

lemma size_order_inj: "inj (size_order g)"
  by (rule injI) (simp add: size_order_def Let_def)

lemma rank_order_inj: "inj (rank_order g by_key)"
  by (rule injI) (simp add: rank_order_def size_order_def Let_def split: if_splits)

lemma ranked_ids_Inr:
  assumes "ranked_ids g s srt limit c = Inr (ids, c')"
  shows "ids = limit_list limit (sort_key (rank_order g srt) (sorted_list_of_set s))"
  using assms by (auto simp: ranked_ids_def es_bind_Inr dest!: return_polled_Inr)

text \<open>Any order of the iteration over the set gives the same ranking.\<close>

lemma ranking_order:
  assumes "distinct ids" "set ids = s"
  shows "sort_key (rank_order g srt) ids = sort_key (rank_order g srt) (sorted_list_of_set s)"
proof -
  have "mset ids = mset (sorted_list_of_set s)"
    using assms by (intro iffD1 [OF set_eq_iff_mset_eq_distinct]) simp_all
  then have "sort_key (rank_order g srt) (sorted_list_of_set s) = sort_key (rank_order g srt) ids"
    by (intro sort_key_inj_key_eq inj_on_subset [OF rank_order_inj]) simp_all
  then show ?thesis by simp
qed

lemma ranked_ids_props:
  assumes "ranked_ids g s srt 0 c = Inr (ids, c')"
  shows "distinct ids \<and> set ids = s \<and> sorted (map (rank_order g srt) ids)"
  using ranked_ids_Inr [OF assms] by (simp add: limit_list_def)

section \<open>What the distribution reports\<close>

lemma bits_len_le: "bits_len w \<le> 64"
  using unsigned_less [of w, where ?'a = nat] by (simp add: bits_len_def floorlog_leI)

lemma bits_len_0 [simp]: "bits_len w = 0 \<longleftrightarrow> w = 0"
  by (simp add: bits_len_def floorlog_eq_zero_iff unat_eq_0)

lemma bits_len_zero [simp]: "bits_len 0 = 0"
  by simp

lemma bits_len_bounds:
  assumes "bits_len w = Suc k"
  shows "2 ^ k \<le> unat w" "unat w < 2 ^ Suc k"
proof -
  have "w \<noteq> 0" using assms by (metis bits_len_0 nat.distinct(1))
  then have "0 < unat w" by (simp add: unat_gt_0)
  with floorlog_bounds [of "unat w" 2] assms show "2 ^ k \<le> unat w" "unat w < 2 ^ Suc k"
    by (simp_all add: bits_len_def)
qed

definition in_bucket :: "graph \<Rightarrow> object_id set \<Rightarrow> nat \<Rightarrow> object_id set" where
  "in_bucket g s k = {i \<in> s. bits_len (ob_size (gr_objects g ! unat i)) = k}"

text \<open>The bounds a bucket reports, once it has an object.\<close>

definition bucket_bounds :: "nat \<Rightarrow> size_bucket \<Rightarrow> bool" where
  "bucket_bounds k b \<longleftrightarrow>
     (if k = 0 then sb_min b = 0 \<and> sb_max b = 0
      else unat (sb_min b) = 2 ^ (k - 1) \<and> unat (sb_max b) = 2 ^ k - 1)"

definition buckets_ok :: "graph \<Rightarrow> object_id set \<Rightarrow> size_bucket list \<Rightarrow> bool" where
  "buckets_ok g s buckets \<longleftrightarrow> length buckets = 65 \<and>
     (\<forall>k < 65. measured g (in_bucket g s k) (sb_measure (buckets ! k)) \<and>
        (in_bucket g s k \<noteq> {} \<or> k = 0 \<longrightarrow> bucket_bounds k (buckets ! k)))"

lemma push_bounds:
  assumes "0 < k" "k \<le> 64"
  shows "unat (push_bit (k - 1) 1 :: u64) = 2 ^ (k - 1)"
    "unat (push_bit (k - 1) 1 - 1 + push_bit (k - 1) 1 :: u64) = 2 ^ k - 1"
proof -
  have lt: "(2::nat) ^ (k - 1) < 2 ^ 64" using assms by (intro power_strict_increasing) auto
  have "push_bit (k - 1) 1 = (of_nat (2 ^ (k - 1)) :: u64)" by (simp add: push_bit_eq_mult)
  then show lo: "unat (push_bit (k - 1) 1 :: u64) = 2 ^ (k - 1)"
    using assms by (simp only: unsigned_of_nat) simp
  have "(push_bit (k - 1) 1 :: u64) \<noteq> 0" using lo by (metis power_not_zero unat_0 zero_neq_numeral)
  then have one: "unat (push_bit (k - 1) 1 - 1 :: u64) = 2 ^ (k - 1) - 1"
    using lo by (simp add: unat_minus_one)
  have two: "(2::nat) ^ k = 2 * 2 ^ (k - 1)" using assms by (metis power_Suc Suc_diff_1)
  have "(2::nat) ^ k \<le> 2 ^ 64" using assms by (intro power_increasing) auto
  then have le: "2 * (2::nat) ^ (k - 1) \<le> 2 ^ 64" by (simp only: two)
  have pos: "1 \<le> (2::nat) ^ (k - 1)" by simp
  have fits: "unat (push_bit (k - 1) 1 - 1 :: u64) + unat (push_bit (k - 1) 1 :: u64) < 2 ^ 64"
    unfolding one lo using le pos by linarith
  have "unat (push_bit (k - 1) 1 - 1 + push_bit (k - 1) 1 :: u64) = (2 ^ (k - 1) - 1) + 2 ^ (k - 1)"
    by (simp only: unat_add_no_carry [OF fits] one lo)
  then show "unat (push_bit (k - 1) 1 - 1 + push_bit (k - 1) 1 :: u64) = 2 ^ k - 1"
    using pos two by linarith
qed

lemma in_bucket_insert:
  "in_bucket g (insert i s) k =
    (if bits_len (ob_size (gr_objects g ! unat i)) = k then insert i (in_bucket g s k) else in_bucket g s k)"
  by (auto simp: in_bucket_def)

lemma measured_insert:
  assumes "measured g s m" "i \<notin> s" "\<not> ob_size (gr_objects g ! unat i) > max_uint64 - ms_bytes m"
  shows "measured g (insert i s)
    \<lparr>ms_objects = ms_objects m + 1, ms_bytes = ms_bytes m + ob_size (gr_objects g ! unat i)\<rparr>"
  using assms by (simp add: measured_def set_bytes_def carry_iff unat_add_no_carry)

lemma add_to_bucket_ok:
  assumes "buckets_ok g s bs" "i \<notin> s" "add_to_bucket (ob_size (gr_objects g ! unat i)) bs = Inr bs'"
  shows "buckets_ok g (insert i s) bs'"
proof -
  let ?sz = "ob_size (gr_objects g ! unat i)"
  let ?k = "bits_len ?sz"
  let ?m = "sb_measure (bs ! ?k)"
  from assms(3) have fits: "\<not> ?sz > max_uint64 - ms_bytes ?m" by (auto simp: add_to_bucket_def Let_def split: if_splits)
  have k: "?k < 65" using bits_len_le [of ?sz] by simp
  define b where "b = (bs ! ?k)\<lparr>sb_measure := \<lparr>ms_objects = ms_objects ?m + 1, ms_bytes = ms_bytes ?m + ?sz\<rparr>\<rparr>"
  define b' where "b' = (if ?k > 0 then b\<lparr>sb_min := push_bit (?k - 1) 1,
      sb_max := push_bit (?k - 1) 1 - 1 + push_bit (?k - 1) 1\<rparr> else b)"
  have bs': "bs' = bs[?k := b']"
    using assms(3) fits unfolding add_to_bucket_def Let_def b_def b'_def by auto
  have "i \<notin> in_bucket g s ?k" using assms(2) by (simp add: in_bucket_def)
  moreover have "measured g (in_bucket g s ?k) ?m" using assms(1) k by (simp add: buckets_ok_def)
  moreover have "sb_measure b' = \<lparr>ms_objects = ms_objects ?m + 1, ms_bytes = ms_bytes ?m + ?sz\<rparr>"
    unfolding b'_def b_def by (cases "?k > 0") simp_all
  ultimately have "measured g (insert i (in_bucket g s ?k)) (sb_measure b')"
    using measured_insert [OF _ _ fits] by presburger
  moreover have "bucket_bounds ?k b'"
  proof (cases "?k = 0")
    case True
    then show ?thesis using assms(1) by (auto simp: b'_def b_def buckets_ok_def bucket_bounds_def)
  next
    case False
    then show ?thesis
      using push_bounds [of ?k] bits_len_le [of ?sz] by (simp add: b'_def bucket_bounds_def)
  qed
  ultimately show ?thesis
    using assms(1) k unfolding buckets_ok_def bs'
    by (auto simp: in_bucket_insert nth_list_update)
qed

lemma distribution_loop_ok:
  "distribution_loop g is bs c = Inr (bs', c') \<Longrightarrow> buckets_ok g s bs \<Longrightarrow> distinct is \<Longrightarrow>
    s \<inter> set is = {} \<Longrightarrow> buckets_ok g (s \<union> set is) bs'"
proof (induction g "is" bs arbitrary: c s rule: distribution_loop.induct)
  case (1 g bs)
  then show ?case by simp
next
  case (2 g i "is" bs)
  from 2(2) obtain bs1 c1 where add: "add_to_bucket (ob_size (gr_objects g ! unat i)) bs = Inr bs1"
    and rest: "distribution_loop g is bs1 c1 = Inr (bs', c')"
    by (auto simp: es_bind_Inr)
  have "buckets_ok g (insert i s) bs1" using add_to_bucket_ok [OF 2(3) _ add] 2(5) by simp
  from 2(1) [OF rest this] 2(4,5) show ?case by auto
qed

lemma zero_buckets_ok: "buckets_ok g {} (replicate 65 zero_bucket)"
  by (simp add: buckets_ok_def in_bucket_def measured_def zero_bucket_def zero_measure_def set_bytes_def
      bucket_bounds_def)

text \<open>
  The buckets are the powers of two: the reported bucket of \<open>k\<close> bits counts exactly the objects
  whose size lies between its bounds.
\<close>

lemma distribution_Inr:
  assumes "distribution g s c = Inr (sizes, c')"
  obtains bs where "buckets_ok g s bs" "sizes = filter (\<lambda>b. ms_objects (sb_measure b) > 0) bs"
proof -
  from assms obtain bs c1 where run: "distribution_loop g (sorted_list_of_set s) (replicate 65 zero_bucket) c = Inr (bs, c1)"
    and sizes: "sizes = filter (\<lambda>b. ms_objects (sb_measure b) > 0) bs"
    by (auto simp: distribution_def es_bind_Inr)
  from distribution_loop_ok [OF run zero_buckets_ok] have "buckets_ok g s bs" by simp
  then show ?thesis using sizes by (rule that)
qed

lemma bucket_range:
  assumes "bucket_bounds k b" "k \<le> 64"
  shows "bits_len w = k \<longleftrightarrow> sb_min b \<le> w \<and> w \<le> sb_max b"
proof (cases k)
  case 0
  then show ?thesis using assms(1) by (auto simp: bucket_bounds_def)
next
  case (Suc j)
  have b: "unat (sb_min b) = 2 ^ j" "unat (sb_max b) = 2 ^ k - 1" using assms(1) by (simp_all add: bucket_bounds_def Suc)
  show ?thesis
  proof
    assume "bits_len w = k"
    with bits_len_bounds [of w j] show "sb_min b \<le> w \<and> w \<le> sb_max b"
      unfolding word_le_nat_alt b Suc by simp
  next
    assume "sb_min b \<le> w \<and> w \<le> sb_max b"
    moreover have "(2::nat) ^ Suc j - 1 < 2 ^ Suc j" by simp
    ultimately have w: "2 ^ j \<le> unat w" "unat w < 2 ^ Suc j" unfolding word_le_nat_alt b Suc by linarith+
    then have "floorlog 2 (unat w) \<le> Suc j" "\<not> floorlog 2 (unat w) \<le> j"
      by (auto intro: floorlog_leI dest: floorlog_leD)
    then show "bits_len w = k" by (simp add: bits_len_def Suc)
  qed
qed

lemma distribution_buckets:
  assumes "distribution g s c = Inr (sizes, c')" "b \<in> set sizes"
  shows "measured g {i \<in> s. sb_min b \<le> ob_size (gr_objects g ! unat i) \<and> ob_size (gr_objects g ! unat i) \<le> sb_max b}
      (sb_measure b)"
proof -
  obtain bs where bs: "buckets_ok g s bs" "sizes = filter (\<lambda>b. ms_objects (sb_measure b) > 0) bs"
    by (rule distribution_Inr [OF assms(1)])
  with assms(2) obtain k where k: "k < 65" "b = bs ! k" "ms_objects (sb_measure b) > 0"
    by (auto simp: in_set_conv_nth buckets_ok_def)
  have m: "measured g (in_bucket g s k) (sb_measure b)" using bs(1) k by (simp add: buckets_ok_def)
  then have "in_bucket g s k \<noteq> {}" using k(3) by (auto simp: measured_def)
  then have "bucket_bounds k b" using bs(1) k by (simp add: buckets_ok_def)
  with bucket_range [of k b] k(1) have "in_bucket g s k =
      {i \<in> s. sb_min b \<le> ob_size (gr_objects g ! unat i) \<and> ob_size (gr_objects g ! unat i) \<le> sb_max b}"
    by (auto simp: in_bucket_def)
  with m show ?thesis by simp
qed

lemma distribution_total:
  assumes "distribution g s c = Inr (sizes, c')"
  shows "sum_list (map (\<lambda>b. ms_objects (sb_measure b)) sizes) = int (card s)"
proof -
  obtain bs where bs: "buckets_ok g s bs" "sizes = filter (\<lambda>b. ms_objects (sb_measure b) > 0) bs"
    by (rule distribution_Inr [OF assms(1)])
  have all: "ms_objects (sb_measure (bs ! k)) = int (card (in_bucket g s k))" if "k < 65" for k
    using bs(1) that by (simp add: buckets_ok_def measured_def)
  have len: "length bs = 65" using bs(1) by (simp add: buckets_ok_def)
  have drop0: "sum_list (map f (filter (\<lambda>b. f b > 0) xs)) = sum_list (map f xs)"
    if "\<forall>x \<in> set xs. f x \<ge> (0::int)" for f :: "size_bucket \<Rightarrow> int" and xs
    using that by (induction xs) auto
  have "\<forall>b \<in> set bs. ms_objects (sb_measure b) \<ge> 0" using all len by (auto simp: in_set_conv_nth)
  then have "sum_list (map (\<lambda>b. ms_objects (sb_measure b)) sizes) = sum_list (map (\<lambda>b. ms_objects (sb_measure b)) bs)"
    unfolding bs(2) by (rule drop0)
  also have "\<dots> = (\<Sum>k<65. int (card (in_bucket g s k)))"
    using all by (simp add: sum_list_sum_nth len atLeast0LessThan)
  also have "\<dots> = int (card (\<Union>k<65. in_bucket g s k))"
    by (subst card_UN_disjoint) (auto simp: in_bucket_def)
  also have "(\<Union>k<65. in_bucket g s k) = s"
    using bits_len_le by (auto simp: in_bucket_def less_Suc_eq_le eval_nat_numeral)
  finally show ?thesis .
qed

section \<open>Group sources and memberships\<close>

definition gids_of_roots :: "goroutine_reach list \<Rightarrow> u64 list" where
  "gids_of_roots gs = concat (map (\<lambda>g. map (\<lambda>_. gor_id g) (gor_roots g)) gs)"

lemma gids_parallel: "length (gids_of_roots gs) = length (goroutine_roots_of gs)"
  by (induction gs) (simp_all add: gids_of_roots_def goroutine_roots_of_def)

lemma gids_parallel_nth:
  assumes "k < length (goroutine_roots_of gs)"
  shows "\<exists>g \<in> set gs. gids_of_roots gs ! k = gor_id g \<and> goroutine_roots_of gs ! k \<in> set (gor_roots g)"
  using assms
proof (induction gs arbitrary: k)
  case (Cons g gs)
  show ?case
  proof (cases "k < length (gor_roots g)")
    case True
    then show ?thesis by (simp add: gids_of_roots_def goroutine_roots_of_def nth_append)
  next
    case False
    with Cons.prems have "k - length (gor_roots g) < length (goroutine_roots_of gs)"
      by (simp add: goroutine_roots_of_def)
    from Cons.IH [OF this] False show ?thesis
      by (auto simp: gids_of_roots_def goroutine_roots_of_def nth_append)
  qed
qed (simp add: goroutine_roots_of_def)

definition source_of_group :: "session \<Rightarrow> string \<Rightarrow> string \<Rightarrow> path_source" where
  "source_of_group s key v =
     (let gs = group_members s key v (session_goroutines s)
      in \<lparr>pv_category = ''group'', pv_labels = [(key, v)], pv_value = v,
          pv_roots = goroutine_roots_of gs, pv_gids = gids_of_roots gs\<rparr>)"

lemma add_group_source_carries:
  "add_group_source s key g groups =
    (case map_of (labels_at (ss_labels s) (gor_id g)) key of
       Some v \<Rightarrow>
         if eligible_goroutine (ss_opts s) g
         then AList.update v (add_roots_of g
           (case map_of groups v of None \<Rightarrow> new_group_source key v | Some x \<Rightarrow> x)) groups
         else groups
     | None \<Rightarrow> groups)"
  by (auto simp: add_group_source_def eligible_goroutine_def is_system_def Let_def split: option.split)

lemma add_group_source_map:
  "map_of (add_group_source s key g groups) v =
    (if carries (ss_opts s) (ss_labels s) key v g
     then Some (add_roots_of g (case map_of groups v of None \<Rightarrow> new_group_source key v | Some x \<Rightarrow> x))
     else map_of groups v)"
  "distinct (map fst groups) \<Longrightarrow> distinct (map fst (add_group_source s key g groups))"
  by (auto simp: add_group_source_carries carries_def update_conv' distinct_update split: option.split)

lemma group_source_fold:
  "distinct (map fst groups) \<Longrightarrow>
    distinct (map fst (fold (add_group_source s key) gs groups)) \<and>
    map_of (fold (add_group_source s key) gs groups) v =
      (if group_members s key v gs = [] then map_of groups v
       else let src = (case map_of groups v of None \<Rightarrow> new_group_source key v | Some x \<Rightarrow> x)
         in Some (src\<lparr>pv_roots := pv_roots src @ goroutine_roots_of (group_members s key v gs),
              pv_gids := pv_gids src @ gids_of_roots (group_members s key v gs)\<rparr>))"
proof (induction gs arbitrary: groups)
  case Nil
  then show ?case by (simp add: group_members_def)
next
  case (Cons g gs)
  from Cons.IH [OF add_group_source_map(2) [OF Cons.prems], of s key g] show ?case
    by (auto simp: add_group_source_map(1) group_members_def add_roots_of_def goroutine_roots_of_def
        gids_of_roots_def Let_def)
qed

lemma group_sources_eq:
  obtains vs where "group_sources s key = map (source_of_group s key) vs" "sorted vs" "distinct vs"
    "\<And>v. v \<in> set vs \<longleftrightarrow> group_members s key v (session_goroutines s) \<noteq> []"
proof -
  define groups where "groups = fold (add_group_source s key) (session_goroutines s) []"
  have d: "distinct (map fst groups)"
    using group_source_fold [of "[]"] by (simp add: groups_def)
  have m: "map_of groups v = (if group_members s key v (session_goroutines s) = [] then None
      else Some (source_of_group s key v))" for v
    using group_source_fold [of "[]" s key "session_goroutines s" v]
    by (simp add: groups_def Let_def new_group_source_def source_of_group_def)
  let ?vs = "sort (map fst groups)"
  have mem: "v \<in> set ?vs \<longleftrightarrow> group_members s key v (session_goroutines s) \<noteq> []" for v
  proof -
    have "v \<in> set ?vs \<longleftrightarrow> map_of groups v \<noteq> None" by (simp add: map_of_eq_None_iff)
    then show ?thesis by (simp add: m)
  qed
  have "group_sources s key = map (\<lambda>v. the (map_of groups v)) ?vs"
    by (simp add: group_sources_def Let_def groups_def)
  also have "\<dots> = map (source_of_group s key) ?vs"
    using mem by (intro map_cong refl) (simp add: m)
  finally show ?thesis
    by (rule that [of ?vs]) (use mem d in simp_all)
qed

lemma bump_groups:
  "limit \<ge> 0 \<Longrightarrow> oi_groups ob = [] \<Longrightarrow> oi_group_count ob = 0 \<Longrightarrow> \<not> oi_groups_truncated ob \<Longrightarrow>
    fold (bump_group limit) vs ob = ob\<lparr>oi_groups := take (nat limit) vs,
      oi_group_count := int (length vs), oi_groups_truncated := int (length vs) > limit\<rparr>"
proof (induction vs rule: rev_induct)
  case Nil
  then show ?case by (cases ob) simp
next
  case (snoc v vs)
  show ?case
  proof (cases "int (length vs) < limit")
    case True
    then have "take (nat limit) vs = vs" "take (nat limit) (vs @ [v]) = vs @ [v]" by simp_all
    with snoc True show ?thesis by (simp add: bump_group_def Let_def)
  next
    case False
    with snoc.prems(1) have "take (nat limit) (vs @ [v]) = take (nat limit) vs"
      "int (length (take (nat limit) vs)) = limit" by simp_all
    with snoc False show ?thesis by (simp add: bump_group_def Let_def)
  qed
qed

lemma target_index_distinct:
  assumes "distinct (map (\<lambda>ob. so_id (oi_object ob)) objects)" "k < length objects"
  shows "target_index objects (so_id (oi_object (objects ! k))) = Some k"
proof -
  have fold_eq: "fold (\<lambda>(k, ob) m. m(so_id (oi_object ob) \<mapsto> k)) xs m =
      m ++ map_of (rev (map (\<lambda>(k, ob). (so_id (oi_object ob), k)) xs))" for xs m
    by (induction xs arbitrary: m) (auto simp: map_add_def split: option.split)
  let ?xs = "map (\<lambda>(k, ob). (so_id (oi_object ob), k)) (enumerate 0 objects)"
  have keys: "map fst ?xs = map (\<lambda>ob. so_id (oi_object ob)) objects"
    by (rule nth_equalityI) (simp_all add: nth_enumerate_eq)
  have "(so_id (oi_object (objects ! k)), k) \<in> set ?xs"
    using assms(2) by (force simp: in_set_enumerate_eq)
  moreover have "distinct (map fst (rev ?xs))" using assms(1) unfolding rev_map [symmetric] keys by simp
  ultimately have "map_of (rev ?xs) (so_id (oi_object (objects ! k))) = Some k"
    by (intro map_of_is_SomeI) simp_all
  then show ?thesis by (simp add: target_index_def fold_eq)
qed

definition info_id :: "object_info \<Rightarrow> object_id" where
  "info_id ob = so_id (oi_object ob)"

definition groups_reaching :: "graph \<Rightarrow> path_source list \<Rightarrow> object_id \<Rightarrow> string list" where
  "groups_reaching g srcs i =
     map pv_value (filter (\<lambda>src. i \<in> reachable_from (Some g) (pv_roots src)) srcs)"

lemma info_id_bump [simp]: "info_id (bump_group limit v ob) = info_id ob"
  by (simp add: info_id_def bump_group_def Let_def)

lemma member_loop_Inr:
  "member_loop g limit srcs objects c = Inr (out, c') \<Longrightarrow> distinct (map info_id objects) \<Longrightarrow>
    out = map (\<lambda>ob. fold (bump_group limit) (groups_reaching g srcs (info_id ob)) ob) objects"
proof (induction g limit srcs objects arbitrary: c rule: member_loop.induct)
  case (1 g limit objects)
  then show ?case by (auto simp: groups_reaching_def dest!: return_polled_Inr)
next
  case (2 g limit src srcs objects)
  let ?R = "reachable_from (Some g) (pv_roots src)"
  let ?step = "\<lambda>ob. if info_id ob \<in> ?R then bump_group limit (pv_value src) ob else ob"
  have step: "map (\<lambda>(k, ob).
          if target_index objects (so_id (oi_object ob)) = Some k \<and> so_id (oi_object ob) \<in> ?R
          then bump_group limit (pv_value src) ob else ob) (enumerate 0 objects) = map ?step objects"
    using target_index_distinct [of objects] 2(3)
    by (auto intro!: nth_equalityI simp: info_id_def nth_enumerate_eq)
  have ids: "map info_id (map ?step objects) = map info_id objects" by simp
  from 2(2) obtain c1 where run: "member_loop g limit srcs (map ?step objects) c1 = Inr (out, c')"
    by (auto simp: es_bind_Inr step dest!: walk_Inr)
  have dist1: "distinct (map info_id (map ?step objects))" unfolding ids by (rule 2(3))
  from 2(1) [of ?R c1] run dist1
  have "out = map (\<lambda>ob. fold (bump_group limit) (groups_reaching g srcs (info_id ob)) ob) (map ?step objects)"
    unfolding step by simp
  then show ?case by (simp add: groups_reaching_def)
qed

definition fresh_info :: "object_info \<Rightarrow> bool" where
  "fresh_info ob \<longleftrightarrow> oi_groups ob = [] \<and> oi_group_count ob = 0 \<and> \<not> oi_groups_truncated ob"

text \<open>The values of a label whose group reaches an object, in order.\<close>

definition groups_of_object :: "session \<Rightarrow> string \<Rightarrow> object_id \<Rightarrow> string list" where
  "groups_of_object s key i = groups_reaching (session_graph s) (group_sources s key) i"

lemma groups_of_object_spec:
  "sorted (groups_of_object s key i)" "distinct (groups_of_object s key i)"
  "v \<in> set (groups_of_object s key i) \<longleftrightarrow>
    group_members s key v (session_goroutines s) \<noteq> [] \<and> i \<in> group_reach s key v"
proof -
  obtain vs where vs: "group_sources s key = map (source_of_group s key) vs" "sorted vs" "distinct vs"
    "\<And>v. v \<in> set vs \<longleftrightarrow> group_members s key v (session_goroutines s) \<noteq> []"
    by (rule group_sources_eq) blast
  have src: "pv_value (source_of_group s key v) = v"
    "i \<in> reachable_from (Some (session_graph s)) (pv_roots (source_of_group s key v)) \<longleftrightarrow> i \<in> group_reach s key v" for v
    by (simp_all add: source_of_group_def Let_def group_reach_def)
  have eq: "groups_of_object s key i = filter (\<lambda>v. i \<in> group_reach s key v) vs"
    by (simp add: groups_of_object_def groups_reaching_def vs(1) filter_map comp_def src)
  show "sorted (groups_of_object s key i)" "distinct (groups_of_object s key i)"
    using vs(2,3) by (simp_all add: eq sorted_wrt_filter)
  show "v \<in> set (groups_of_object s key i) \<longleftrightarrow>
      group_members s key v (session_goroutines s) \<noteq> [] \<and> i \<in> group_reach s key v"
    by (simp add: eq vs(4))
qed

lemma memberships_Inr:
  assumes "memberships s objects key limit c = Inr (out, c')"
    and "distinct (map info_id objects)" "list_all fresh_info objects" "limit \<ge> 0" "key \<noteq> []"
  shows "out = map (\<lambda>ob. let vs = groups_of_object s key (info_id ob); n = (if limit = 0 then 20 else limit) in
    ob\<lparr>oi_groups := take (nat n) vs, oi_group_count := int (length vs), oi_groups_truncated := int (length vs) > n\<rparr>) objects"
proof (cases "objects = []")
  case True
  then show ?thesis using assms(1,5) by (simp add: memberships_def Let_def)
next
  case False
  let ?n = "if limit = 0 then 20 else limit"
  from assms(1,5) False have "member_loop (session_graph s) ?n (group_sources s key) objects c = Inr (out, c')"
    by (simp add: memberships_def Let_def split: if_splits)
  from member_loop_Inr [OF this assms(2)]
  have "out = map (\<lambda>ob. fold (bump_group ?n) (groups_of_object s key (info_id ob)) ob) objects"
    by (simp add: groups_of_object_def)
  also have "\<dots> = map (\<lambda>ob. let vs = groups_of_object s key (info_id ob) in
      ob\<lparr>oi_groups := take (nat ?n) vs, oi_group_count := int (length vs), oi_groups_truncated := int (length vs) > ?n\<rparr>) objects"
  proof (rule map_cong [OF refl])
    fix ob assume "ob \<in> set objects"
    then have fr: "oi_groups ob = []" "oi_group_count ob = 0" "\<not> oi_groups_truncated ob"
      using assms(3) by (auto simp: list_all_iff fresh_info_def)
    have n: "?n \<ge> 0" using assms(4) by simp
    show "fold (bump_group ?n) (groups_of_object s key (info_id ob)) ob =
        (let vs = groups_of_object s key (info_id ob) in
         ob\<lparr>oi_groups := take (nat ?n) vs, oi_group_count := int (length vs), oi_groups_truncated := int (length vs) > ?n\<rparr>)"
      unfolding Let_def by (rule bump_groups [OF n fr])
  qed
  finally show ?thesis by (simp only: Let_def)
qed

lemma object_info_fresh: "fresh_info (object_info_of s ins i)" "info_id (object_info_of s ins i) = i"
  by (simp_all add: fresh_info_def object_info_of_def info_id_def shared_object_of_def Let_def)

lemma limit_list_prefix: "\<exists>n. limit_list k xs = take n xs"
  by (auto simp: limit_list_def intro: exI [of _ "length xs"])

lemma ranked_distinct: "distinct (limit_list k (sort_key f (sorted_list_of_set s)))"
  by (simp add: limit_list_def)

lemma list_objects_Inr:
  assumes "list_objects s req opts c = Inr (res, c')"
  defines "R \<equiv> selection_reach s req" and "X \<equiv> outside_reach s (gor_id ` set (session_matching s req))"
    and "ids \<equiv> limit_list (oo_limit opts)
      (sort_key (rank_order (session_graph s) (oo_sort opts)) (sorted_list_of_set (selection_reach s req)))"
  shows "measured (session_graph s) R (ox_reachable res)" "measured (session_graph s) (R - X) (ox_exclusive res)"
    "measured (session_graph s) (R \<inter> X) (ox_shared res)"
    "map info_id (ox_objects res) = ids" "ox_truncated res \<longleftrightarrow> length ids < card R"
    "\<exists>c1 c2. distribution (session_graph s) R c1 = Inr (ox_distribution res, c2)"
    "\<And>ob. ob \<in> set (ox_objects res) \<Longrightarrow>
      oi_classification ob = (if info_id ob \<in> X then ''shared'' else ''exclusive'')"
    "oo_by opts \<noteq> [] \<Longrightarrow> (\<And>ob. ob \<in> set (ox_objects res) \<Longrightarrow>
      oi_group_count ob = int (length (groups_of_object s (oo_by opts) (info_id ob))))"
proof -
  let ?g = "session_graph s"
  from assms(1) obtain ins c1 c2 ms dist c3 c4 c5 objs c6 where
    lim: "oo_limit opts \<ge> 0" "oo_group_limit opts \<ge> 0"
    and ins: "inspect s req c1 = Inr (ins, c2)"
    and ms: "measure_all ?g [in_selected ins, in_selected ins - in_outside ins, in_selected ins \<inter> in_outside ins] = Inr ms"
    and sizes: "distribution ?g (in_selected ins) c2 = Inr (dist, c3)"
    and mem: "memberships s (map (object_info_of s ins)
        (limit_list (oo_limit opts) (sort_key (rank_order ?g (oo_sort opts)) (sorted_list_of_set (in_selected ins)))))
        (oo_by opts) (oo_group_limit opts) c5 = Inr (objs, c6)"
    and res: "ox_reachable res = ms ! 0" "ox_exclusive res = ms ! 1" "ox_shared res = ms ! 2"
      "ox_objects res = objs" "ox_distribution res = dist"
      "ox_truncated res \<longleftrightarrow> length (limit_list (oo_limit opts)
         (sort_key (rank_order ?g (oo_sort opts)) (sorted_list_of_set (in_selected ins)))) < card (in_selected ins)"
    by (auto simp: list_objects_def objects_of_def Let_def es_bind_Inr not_less split: if_splits
        dest!: ranked_ids_Inr return_polled_Inr)
  note sel = inspect_Inr(1,2) [OF ins, folded R_def X_def]
  note m = measure_measured [OF measure_all_nth [OF ms]]
  from m [of 0] show "measured ?g R (ox_reachable res)" by (simp add: res sel)
  from m [of 1] show "measured ?g (R - X) (ox_exclusive res)" by (simp add: res sel)
  from m [of 2] show "measured ?g (R \<inter> X) (ox_shared res)" by (simp add: res sel numeral_2_eq_2)
  show "\<exists>c1 c2. distribution ?g R c1 = Inr (ox_distribution res, c2)" using sizes by (auto simp: res sel)
  show "ox_truncated res \<longleftrightarrow> length ids < card R" by (simp add: res sel ids_def R_def)
  let ?objs = "map (object_info_of s ins) ids"
  have mem': "memberships s ?objs (oo_by opts) (oo_group_limit opts) c5 = Inr (objs, c6)"
    using mem by (simp add: ids_def sel R_def)
  have ids_map: "map info_id ?objs = ids" by (simp add: comp_def object_info_fresh)
  have fresh: "list_all fresh_info ?objs" by (simp add: list_all_iff object_info_fresh)
  have dist_ids: "distinct (map info_id ?objs)" unfolding ids_map by (simp add: ids_def ranked_distinct)
  note mem_eq = memberships_Inr [OF mem' dist_ids fresh lim(2)]
  have same: "map info_id objs = ids \<and> map oi_classification objs = map oi_classification ?objs"
  proof (cases "oo_by opts = []")
    case True
    with mem' ids_map show ?thesis by (simp add: memberships_def)
  next
    case False
    from mem_eq [OF this] ids_map show ?thesis by (simp add: Let_def comp_def info_id_def)
  qed
  then show "map info_id (ox_objects res) = ids" by (simp add: res)
  show "oi_classification ob = (if info_id ob \<in> X then ''shared'' else ''exclusive'')"
    if "ob \<in> set (ox_objects res)" for ob
  proof -
    from that obtain k where k: "k < length objs" "ob = objs ! k" by (auto simp: res in_set_conv_nth)
    have len: "length objs = length ids" using same by (metis length_map)
    have id: "info_id ob = ids ! k" "oi_classification ob = oi_classification (object_info_of s ins (ids ! k))"
      using same k len by (metis nth_map, metis (mono_tags) length_map nth_map)
    have "ids ! k \<in> R"
      using k len limit_list_prefix [of "oo_limit opts"] unfolding ids_def R_def
      by (metis finite_code finite in_set_takeD nth_mem set_sort set_sorted_list_of_set)
    then show ?thesis using id(2) by (simp add: object_info_of_def sel id(1))
  qed
  show "oi_group_count ob = int (length (groups_of_object s (oo_by opts) (info_id ob)))"
    if "oo_by opts \<noteq> []" "ob \<in> set (ox_objects res)" for ob
    using that mem_eq [OF that(1)] by (auto simp: res Let_def info_id_def)
qed

end
