(* ===== verification/MemExplain.thy ===== *)
theory MemExplain
  imports MemObjects
begin

text \<open>
  Explanations (\<open>internal/memusage/explain.go\<close>): which of several selections reach an object,
  which other roots do, and bounded witness paths for each source that does; and the aggregate
  explanation of the largest objects of a selection.
\<close>

section \<open>Data\<close>

record explain_options =
  eo_by :: string
  eo_max_groups :: int
  eo_max_paths :: int
  eo_max_steps :: int
  eo_max_visited :: int

record selection_reachability =
  sx_labels :: label_map
  sx_goroutines :: int
  sx_reachable :: bool

record frame_witness =
  fw_sp :: string
  fw_depth :: u64
  fw_entry_pc :: string
  fw_current_pc :: string
  fw_continue_pc :: string

record root_witness =
  rw_category :: string
  rw_gid :: u64
  rw_kind :: string
  rw_pointer :: string
  rw_slot :: string
  rw_detail :: string
  rw_frame :: "frame_witness option"

record path_step =
  st_object :: shared_object
  st_offset :: "u64 option"
  st_pointer :: string

record path_report =
  pr_category :: string
  pr_labels :: label_map
  pr_status :: string
  pr_root :: "root_witness option"
  pr_steps :: "path_step list"
  pr_total :: int
  pr_truncated :: bool

record object_explanation =
  ex_object :: object_info
  ex_by :: string
  ex_selections :: "selection_reachability list"
  ex_sources :: int
  ex_paths :: "path_report list"
  ex_paths_truncated :: bool

record aggregate_explanation =
  ag_objects :: objects_result
  ag_shared :: "object_info list"
  ag_exclusive :: "object_info list"
  ag_shared_truncated :: bool
  ag_exclusive_truncated :: bool
  ag_explanations :: "object_explanation list"
  ag_representatives_truncated :: bool

section \<open>Paths\<close>

definition normalized :: "explain_options \<Rightarrow> mem_error + explain_options" where
  "normalized opts =
     (if eo_max_groups opts < 0 \<or> eo_max_paths opts < 0 \<or> eo_max_steps opts < 0 \<or> eo_max_visited opts < 0 then
        Inl (OtherError (Errorf (Fmt ''explanation limits must be non-negative'' [])))
      else Inr (opts\<lparr>eo_max_groups := if eo_max_groups opts = 0 then 20 else eo_max_groups opts,
          eo_max_paths := if eo_max_paths opts = 0 then 6 else eo_max_paths opts,
          eo_max_steps := if eo_max_steps opts = 0 then 64 else eo_max_steps opts\<rparr>))"

definition selection_source :: "session \<Rightarrow> mem_request \<Rightarrow> mem_error + path_source \<times> int" where
  "selection_source s req =
     (case selected s req of
        Inl e \<Rightarrow> Inl e
      | Inr (_, ids) \<Rightarrow>
          Inr (fold (\<lambda>g src. if gor_id g \<in> ids then add_roots_of g src else src) (session_goroutines s)
                 \<lparr>pv_category = ''selection'', pv_labels = rq_labels req, pv_value = [], pv_roots = [],
                  pv_gids = []\<rparr>,
               int (card ids)))"

text \<open>\<open>FindPath\<close> as a caller that drops the witness of a failed search sees it, with the context it leaves.\<close>

definition find_path_run ::
  "graph \<Rightarrow> root_ref list \<Rightarrow> object_id \<Rightarrow> int \<Rightarrow> (ctx, witness) es"
where
  "find_path_run g roots target max_visited =
     es_bind ctx_poll (\<lambda>_.
     if \<not> valid_id (Some g) target then es_return no_witness
     else
       es_bind (path_roots g max_visited 0 roots \<lparr>sr_seen = [], sr_queue = [], sr_limited = False\<rparr>) (\<lambda>st.
       es_bind (path_loop g max_visited target st) (\<lambda>w.
       if wi_found w then es_return w else es_bind ctx_poll (\<lambda>_. es_return w))))"

definition hex_unless_zero :: "u64 \<Rightarrow> string" where
  "hex_unless_zero n = (if n \<noteq> 0 then hex_address n else [])"

definition root_witness_of :: "path_source \<Rightarrow> int \<Rightarrow> root_witness" where
  "root_witness_of src k =
     (let r = pv_roots src ! nat k
      in \<lparr>rw_category = pv_category src,
          rw_gid = (if k < int (length (pv_gids src)) then pv_gids src ! nat k else 0),
          rw_kind = rr_kind r, rw_pointer = hex_unless_zero (rr_ptr r),
          rw_slot = hex_unless_zero (rr_slot_addr r), rw_detail = rr_detail r,
          rw_frame = map_option (\<lambda>f. \<lparr>fw_sp = hex_address (fi_sp f), fw_depth = fi_depth f,
            fw_entry_pc = hex_address (fi_entry_pc f), fw_current_pc = hex_address (fi_current_pc f),
            fw_continue_pc = hex_address (fi_continue_pc f)\<rparr>) (rr_frame r)\<rparr>)"

definition path_step_of :: "graph \<Rightarrow> witness \<Rightarrow> nat \<times> object_id \<Rightarrow> path_step" where
  "path_step_of g w ki =
     (case ki of (k, i) \<Rightarrow>
        let step = \<lparr>st_object = shared_object_of g i, st_offset = None, st_pointer = []\<rparr>
        in if k > 0 then
             let r = wi_references w ! (k - 1)
             in step\<lparr>st_offset := if rf_offset_known r then Some (rf_offset r) else None,
                  st_pointer := hex_unless_zero (rf_pointer r)\<rparr>
           else step)"

definition unfound_report :: "path_source \<Rightarrow> string \<Rightarrow> path_report" where
  "unfound_report src status =
     \<lparr>pr_category = pv_category src, pr_labels = pv_labels src, pr_status = status, pr_root = None,
      pr_steps = [], pr_total = 0, pr_truncated = False\<rparr>"

definition path_report_of ::
  "session \<Rightarrow> path_source \<Rightarrow> object_id \<Rightarrow> explain_options \<Rightarrow> (mem_error, ctx, path_report) run"
where
  "path_report_of s src target opts =
     (let g = session_graph s in
      es_bind (es_map_error OtherError (find_path_run g (pv_roots src) target (eo_max_visited opts))) (\<lambda>w.
      if wi_search_limited w then es_return (unfound_report src ''search_limit'')
      else if \<not> wi_found w then es_return (unfound_report src ''not_reachable'')
      else
        let ids = wi_objects w; long = int (length ids) > eo_max_steps opts;
            ids = (if long then take (nat (eo_max_steps opts)) ids else ids)
        in return_polled ((unfound_report src ''found'')
             \<lparr>pr_root := Some (root_witness_of src (wi_root_index w)),
              pr_steps := map (path_step_of g w) (enumerate 0 ids),
              pr_total := int (length (wi_objects w)), pr_truncated := long\<rparr>)))"

section \<open>One object\<close>

text \<open>The selections in order: their reachability, and the sources of those that reach the object.\<close>

fun explain_selections ::
  "session \<Rightarrow> object_id \<Rightarrow> mem_request list \<Rightarrow>
    (mem_error, ctx, selection_reachability list \<times> path_source list) run"
where
  "explain_selections s i [] = es_return ([], [])"
| "explain_selections s i (req # reqs) =
     es_bind (es_lift (selection_source s req)) (\<lambda>(src, count).
     es_bind (walk (session_graph s) (pv_roots src)) (\<lambda>R.
     es_bind (explain_selections s i reqs) (\<lambda>(sels, srcs).
     es_return
       (\<lparr>sx_labels = rq_labels req, sx_goroutines = count, sx_reachable = (i \<in> R)\<rparr> # sels,
        if i \<in> R then src # srcs else srcs))))"

definition plain_source :: "string \<Rightarrow> path_source" where
  "plain_source category = \<lparr>pv_category = category, pv_labels = [], pv_value = [], pv_roots = [], pv_gids = []\<rparr>"

definition add_other_root ::
  "inspection \<Rightarrow> goroutine_reach \<Rightarrow> path_source \<times> path_source \<Rightarrow> path_source \<times> path_source"
where
  "add_other_root ins g acc =
     (case acc of (system, other) \<Rightarrow>
        if gor_id g \<in> in_gids ins then acc
        else if gor_is_system g \<or> gor_is_background g then (add_roots_of g system, other)
        else (system, add_roots_of g other))"

definition background_sources :: "session \<Rightarrow> inspection \<Rightarrow> object_info \<Rightarrow> path_source list" where
  "background_sources s ins info =
     (case fold (add_other_root ins) (session_goroutines s)
             (plain_source ''other_system'', plain_source ''other_goroutines'') of
        (system, other) \<Rightarrow>
          (if oi_global info then [(plain_source ''global'')\<lparr>pv_roots := session_globals s\<rparr>] else []) @
          (if oi_other_system info then [system] else []) @
          (if oi_other_goroutines info then [other] else []))"

text \<open>
  The groups in order. The state is the object with its memberships, the sources kept, and the
  number of sources that reach the object and are not kept.
\<close>

fun explain_groups ::
  "graph \<Rightarrow> object_id \<Rightarrow> explain_options \<Rightarrow> path_source list \<Rightarrow>
    object_info \<times> path_source list \<times> int \<Rightarrow> (mem_error, ctx, object_info \<times> path_source list \<times> int) run"
where
  "explain_groups g i opts [] acc = es_return acc"
| "explain_groups g i opts (grp # grps) acc =
     es_bind (walk g (pv_roots grp)) (\<lambda>R.
     explain_groups g i opts grps
       (if i \<notin> R then acc
        else
          (case acc of (info, srcs, dropped) \<Rightarrow>
             let info = bump_group (eo_max_groups opts) (pv_value grp) info
             in if int (length srcs) < eo_max_paths opts then (info, srcs @ [grp], dropped)
                else (info, srcs, dropped + 1))))"

fun path_reports ::
  "session \<Rightarrow> object_id \<Rightarrow> explain_options \<Rightarrow> path_source list \<Rightarrow> (mem_error, ctx, path_report list) run"
where
  "path_reports s i opts [] = es_return []"
| "path_reports s i opts (src # srcs) =
     es_bind (path_report_of s src i opts) (\<lambda>p.
     es_bind (path_reports s i opts srcs) (\<lambda>ps. es_return (p # ps)))"

definition explain_object ::
  "session \<Rightarrow> object_id \<Rightarrow> mem_request list \<Rightarrow> inspection \<Rightarrow> explain_options \<Rightarrow>
    (mem_error, ctx, object_explanation) run"
where
  "explain_object s i selectors ins opts =
     (let info = object_info_of s ins i in
      es_bind (explain_selections s i selectors) (\<lambda>(sels, srcs).
      let srcs = srcs @ background_sources s ins info in
      es_bind (if eo_by opts \<noteq> []
               then explain_groups (session_graph s) i opts (group_sources s (eo_by opts)) (info, srcs, 0)
               else es_return (info, srcs, 0)) (\<lambda>(info, srcs, dropped).
      let reaching = dropped + int (length srcs);
          srcs = (if int (length srcs) > eo_max_paths opts then take (nat (eo_max_paths opts)) srcs else srcs)
      in es_bind (path_reports s i opts srcs) (\<lambda>paths.
      return_polled
        \<lparr>ex_object = info, ex_by = eo_by opts, ex_selections = sels, ex_sources = reaching,
         ex_paths = paths, ex_paths_truncated = (reaching > int (length srcs))\<rparr>))))"

definition explain ::
  "session \<Rightarrow> u64 \<Rightarrow> mem_request list \<Rightarrow> explain_options \<Rightarrow> (mem_error, ctx, object_explanation) run"
where
  "explain s address selectors opts0 =
     es_bind (ready s) (\<lambda>_.
     es_bind (es_lift (normalized opts0)) (\<lambda>opts.
     if selectors = [] then es_fail (OtherError (Errorf (Fmt ''at least one selector is required'' [])))
     else
       case List.map_filter (\<lambda>req. validate_request (Some req) (ss_opts s)) selectors of
         e # _ \<Rightarrow> es_fail e
       | [] \<Rightarrow>
           (case find_object_containing (Some (session_graph s)) address of
              None \<Rightarrow> es_fail (OtherError (Errorf (Fmt ''no heap object contains %s'' [FS (hex_address address)])))
            | Some i \<Rightarrow>
                es_bind (inspect s (hd selectors)) (\<lambda>ins.
                explain_object s i selectors ins opts))))"

section \<open>The largest objects\<close>

text \<open>The ranking of one part of the selection, with its memberships and whether it was cut.\<close>

definition ranked_part ::
  "session \<Rightarrow> inspection \<Rightarrow> explain_options \<Rightarrow> int \<Rightarrow> object_id set \<Rightarrow>
    (mem_error, ctx, object_info list \<times> bool) run"
where
  "ranked_part s ins opts most part =
     es_bind (ranked_ids (session_graph s) part ''size'' most) (\<lambda>ids.
     es_bind (memberships s (map (object_info_of s ins) ids) (eo_by opts) (eo_max_groups opts)) (\<lambda>objs.
     es_return (objs, length ids < card part)))"

definition add_candidate :: "nat \<Rightarrow> object_info list \<Rightarrow> object_id list \<Rightarrow> object_id list" where
  "add_candidate k objs cs =
     (if k < length objs
      then let i = so_id (oi_object (objs ! k)) in (if i \<in> set cs then cs else cs @ [i]) else cs)"

definition round_robin :: "object_info list list \<Rightarrow> object_id list" where
  "round_robin rankings =
     fold (\<lambda>k. fold (add_candidate k) rankings) [0..<foldr max (map length rankings) 0] []"

fun explain_each ::
  "session \<Rightarrow> mem_request \<Rightarrow> inspection \<Rightarrow> explain_options \<Rightarrow> object_id list \<Rightarrow>
    (mem_error, ctx, object_explanation list) run"
where
  "explain_each s req ins opts [] = es_return []"
| "explain_each s req ins opts (i # is) =
     es_bind (explain_object s i [req] ins opts) (\<lambda>e.
     es_bind (explain_each s req ins opts is) (\<lambda>es. es_return (e # es)))"

definition explain_top ::
  "session \<Rightarrow> mem_request \<Rightarrow> int \<Rightarrow> int \<Rightarrow> explain_options \<Rightarrow> (mem_error, ctx, aggregate_explanation) run"
where
  "explain_top s req most limit0 opts0 =
     es_bind (ready s) (\<lambda>_.
     if most \<le> 0 \<or> limit0 < 0 then
       es_fail (OtherError (Errorf (Fmt ''top must be positive and representative limit non-negative'' [])))
     else
       let limit = (if limit0 = 0 then 3 else limit0) in
       es_bind (es_lift (normalized opts0)) (\<lambda>opts.
       es_bind (objects_of s req \<lparr>oo_sort = [], oo_limit = most, oo_by = eo_by opts, oo_group_limit = eo_max_groups opts\<rparr>)
         (\<lambda>(objects, ins).
       es_bind (ranked_part s ins opts most (set_intersection (in_selected ins) (in_outside ins))) (\<lambda>(shared, shared_cut).
       es_bind (ranked_part s ins opts most (set_difference (in_selected ins) (in_outside ins))) (\<lambda>(exclusive, exclusive_cut).
       let candidates = round_robin [ox_objects objects, shared, exclusive];
           cut = int (length candidates) > limit;
           candidates = (if cut then take (nat limit) candidates else candidates)
       in es_bind (explain_each s req ins opts candidates) (\<lambda>es.
       return_polled
         \<lparr>ag_objects = objects, ag_shared = shared, ag_exclusive = exclusive,
          ag_shared_truncated = shared_cut, ag_exclusive_truncated = exclusive_cut,
          ag_explanations = es, ag_representatives_truncated = cut\<rparr>))))))"

end
