(* ===== verification/MemExplainFacts.thy ===== *)
theory MemExplainFacts
  imports MemExplain
begin

text \<open>
  What an explanation says: its sources are exactly those that reach the object, in order, its
  paths are shortest paths of the graph, and the representatives of an aggregate explanation cover
  the listed objects.
\<close>

section \<open>One witness path\<close>

lemma ctx_poll_cases:
  "ctx_poll c = (case fst (ctx_err c) of Some e \<Rightarrow> Inl e | None \<Rightarrow> Inr ((), snd (ctx_err c)))"
  by (simp add: ctx_poll_def split: prod.split option.split)

lemma find_path_run_Inr:
  assumes "find_path_run g roots target mv c = Inr (w, c')"
  shows "find_path c (Some g) roots target mv = (w, None)"
  using assms
  by (auto simp: find_path_run_def find_path_def es_bind_Inr ctx_poll_cases split: if_splits option.splits)

lemma unlimited_search:
  assumes "find_path c (Some g) roots target mv = (w, None)" "wi_search_limited w"
  shows "0 < mv"
proof (cases "valid_id (Some g) target")
  case True
  from find_path_cases [OF assms(1) True] assms(2) obtain d dn st where
    "loop_inv g roots mv target d dn st" "sr_limited st"
    by (auto simp: no_witness_def found_witness_def split: option.splits)
  then show ?thesis by (simp add: loop_inv_def bfs_inv_def search_ok_def)
next
  case False
  with assms show ?thesis by (auto simp: find_path_def no_witness_def split: sum.splits)
qed

definition source_reaches :: "graph \<Rightarrow> object_id \<Rightarrow> path_source \<Rightarrow> bool" where
  "source_reaches g i src \<longleftrightarrow> i \<in> reachable_from (Some g) (pv_roots src)"

definition shortest_from :: "graph \<Rightarrow> root_ref list \<Rightarrow> object_id \<Rightarrow> object_id list \<Rightarrow> bool" where
  "shortest_from g roots i xs \<longleftrightarrow>
     graph_path g xs \<and> hd xs \<in> rr_object_id ` set roots \<and> last xs = i \<and>
     (\<forall>ys. graph_path g ys \<longrightarrow> hd ys \<in> rr_object_id ` set roots \<longrightarrow> last ys = i \<longrightarrow> length xs \<le> length ys)"

text \<open>A report is a shortest path, cut at the step limit, or says that the search limit was met.\<close>

definition report_ok :: "graph \<Rightarrow> object_id \<Rightarrow> explain_options \<Rightarrow> path_source \<Rightarrow> path_report \<Rightarrow> bool" where
  "report_ok g i opts src p \<longleftrightarrow>
     pr_category p = pv_category src \<and> pr_labels p = pv_labels src \<and>
     (pr_status p = ''search_limit'' \<and> 0 < eo_max_visited opts \<and> pr_steps p = [] \<or>
      pr_status p = ''found'' \<and>
      (\<exists>xs. shortest_from g (pv_roots src) i xs \<and> pr_total p = int (length xs) \<and>
         map (\<lambda>st. so_id (st_object st)) (pr_steps p) = take (nat (eo_max_steps opts)) xs \<and>
         (pr_truncated p \<longleftrightarrow> int (length xs) > eo_max_steps opts)))"

lemma path_step_ids: "map (\<lambda>st. so_id (st_object st)) (map (path_step_of g w) (enumerate k ids)) = ids"
  by (induction ids arbitrary: k) (simp_all add: path_step_of_def shared_object_of_def Let_def)

lemma path_report_ok:
  assumes run: "path_report_of s src i opts c = Inr (p, c')"
    and reach: "source_reaches (session_graph s) i src" and steps: "0 \<le> eo_max_steps opts"
  shows "report_ok (session_graph s) i opts src p"
proof -
  let ?g = "session_graph s"
  from run obtain w c1 where w: "find_path_run ?g (pv_roots src) i (eo_max_visited opts) c = Inr (w, c1)"
    and p: "(if wi_search_limited w then es_return (unfound_report src ''search_limit'')
      else if \<not> wi_found w then es_return (unfound_report src ''not_reachable'')
      else
        let ids = wi_objects w; long = int (length ids) > eo_max_steps opts;
            ids = (if long then take (nat (eo_max_steps opts)) ids else ids)
        in return_polled ((unfound_report src ''found'')
             \<lparr>pr_root := Some (root_witness_of src (wi_root_index w)),
              pr_steps := map (path_step_of ?g w) (enumerate 0 ids),
              pr_total := int (length (wi_objects w)), pr_truncated := long\<rparr>)) c1 = Inr (p, c')"
    by (auto simp: path_report_of_def Let_def es_bind_Inr)
  note fp = find_path_run_Inr [OF w]
  show ?thesis
  proof (cases "wi_search_limited w")
    case True
    with p unlimited_search [OF fp True] show ?thesis by (auto simp: report_ok_def unfound_report_def)
  next
    case lim: False
    show ?thesis
    proof (cases "wi_found w")
      case False
      from find_path_absent [OF fp False lim] reach show ?thesis by (simp add: source_reaches_def)
    next
      case True
      note sp = find_path_shortest [OF fp True]
      have "hd (wi_objects w) \<in> rr_object_id ` set (pv_roots src)"
        unfolding sp(6) using sp(4,5) by (intro imageI nth_mem) linarith
      with sp have short: "shortest_from ?g (pv_roots src) i (wi_objects w)"
        unfolding shortest_from_def by blast
      let ?ids = "if int (length (wi_objects w)) > eo_max_steps opts
        then take (nat (eo_max_steps opts)) (wi_objects w) else wi_objects w"
      have ids: "?ids = take (nat (eo_max_steps opts)) (wi_objects w)" using steps by auto
      from p lim True have "return_polled ((unfound_report src ''found'')
             \<lparr>pr_root := Some (root_witness_of src (wi_root_index w)),
              pr_steps := map (path_step_of ?g w) (enumerate 0 ?ids),
              pr_total := int (length (wi_objects w)), pr_truncated := int (length (wi_objects w)) > eo_max_steps opts\<rparr>)
            c1 = Inr (p, c')"
        by (simp only: Let_def if_False if_True simp_thms)
      from return_polled_Inr [OF this]
      show ?thesis using short
        by (auto simp: report_ok_def unfound_report_def path_step_ids ids intro!: exI [of _ "wi_objects w"] simp del: map_map)
    qed
  qed
qed

lemma path_reports_ok:
  assumes "path_reports s i opts srcs c = Inr (ps, c')" "0 \<le> eo_max_steps opts"
    and "\<forall>src \<in> set srcs. source_reaches (session_graph s) i src"
  shows "list_all2 (report_ok (session_graph s) i opts) srcs ps"
  using assms by (induction srcs arbitrary: ps c) (auto simp: es_bind_Inr intro: path_report_ok)

section \<open>The sources that reach an object\<close>

definition selected_source :: "session \<Rightarrow> mem_request \<Rightarrow> path_source" where
  "selected_source s req =
     (let gs = filter (\<lambda>g. gor_id g \<in> gor_id ` set (session_matching s req)) (session_goroutines s)
      in \<lparr>pv_category = ''selection'', pv_labels = rq_labels req, pv_value = [],
          pv_roots = goroutine_roots_of gs, pv_gids = gids_of_roots gs\<rparr>)"

lemma fold_add_roots:
  "fold (\<lambda>g src. if P g then add_roots_of g src else src) gs src =
    src\<lparr>pv_roots := pv_roots src @ goroutine_roots_of (filter P gs),
        pv_gids := pv_gids src @ gids_of_roots (filter P gs)\<rparr>"
  by (induction gs arbitrary: src) (simp_all add: add_roots_of_def goroutine_roots_of_def gids_of_roots_def)

lemma selection_source_Inr:
  assumes "selection_source s req = Inr (src, n)"
  shows "src = selected_source s req \<and> n = int (card (gor_id ` set (session_matching s req)))"
  using assms unfolding selection_source_def selected_source_def Let_def
  by (auto simp: selected_Inr fold_add_roots split: sum.splits)

lemma explain_selections_Inr:
  assumes "explain_selections s i reqs c = Inr ((sels, srcs), c')"
  shows "map sx_reachable sels = map (\<lambda>req. source_reaches (session_graph s) i (selected_source s req)) reqs \<and>
    srcs = filter (source_reaches (session_graph s) i) (map (selected_source s) reqs)"
  using assms
  by (induction reqs arbitrary: sels srcs c)
    (auto simp: es_bind_Inr source_reaches_def dest!: selection_source_Inr walk_Inr)

text \<open>The three sources that are not selected.\<close>

definition rest_source :: "session \<Rightarrow> inspection \<Rightarrow> bool \<Rightarrow> path_source" where
  "rest_source s ins system =
     (let gs = filter (\<lambda>g. gor_id g \<notin> in_gids ins \<and> is_system g = system) (session_goroutines s)
      in \<lparr>pv_category = (if system then ''other_system'' else ''other_goroutines''), pv_labels = [],
          pv_value = [], pv_roots = goroutine_roots_of gs, pv_gids = gids_of_roots gs\<rparr>)"

definition global_source :: "session \<Rightarrow> path_source" where
  "global_source s = (plain_source ''global'')\<lparr>pv_roots := session_globals s\<rparr>"

lemma add_other_root_fold:
  "fold (add_other_root ins) gs (system, other) =
    (fold (\<lambda>g src. if gor_id g \<notin> in_gids ins \<and> is_system g then add_roots_of g src else src) gs system,
     fold (\<lambda>g src. if gor_id g \<notin> in_gids ins \<and> \<not> is_system g then add_roots_of g src else src) gs other)"
  by (induction gs arbitrary: system other) (auto simp: add_other_root_def is_system_def)

lemma inspect_rest:
  assumes "inspect s req c = Inr (ins, c')"
  shows "in_system ins = reachable_from (Some (session_graph s)) (pv_roots (rest_source s ins True))"
    and "in_other ins = reachable_from (Some (session_graph s)) (pv_roots (rest_source s ins False))"
  using assms
  by (auto simp: inspect_def Let_def es_bind_Inr rest_source_def rest_roots_def rest_roots_fold split: prod.splits
      dest!: walk_Inr)

lemma background_sources_eq:
  assumes "inspect s req c = Inr (ins, c')"
  shows "background_sources s ins (object_info_of s ins i) =
    filter (source_reaches (session_graph s) i) [global_source s, rest_source s ins True, rest_source s ins False]"
proof -
  have "fold (add_other_root ins) (session_goroutines s) (plain_source ''other_system'', plain_source ''other_goroutines'') =
      (rest_source s ins True, rest_source s ins False)"
    by (simp add: add_other_root_fold fold_add_roots rest_source_def plain_source_def Let_def)
  moreover have "i \<in> in_global ins \<longleftrightarrow> source_reaches (session_graph s) i (global_source s)"
    "i \<in> in_system ins \<longleftrightarrow> source_reaches (session_graph s) i (rest_source s ins True)"
    "i \<in> in_other ins \<longleftrightarrow> source_reaches (session_graph s) i (rest_source s ins False)"
    by (simp_all add: source_reaches_def inspect_Inr(4) [OF assms] inspect_rest [OF assms] global_source_def)
  ultimately show ?thesis
    by (simp add: background_sources_def object_info_of_def global_source_def)
qed

lemma explain_groups_Inr:
  assumes "explain_groups g i opts grps (info, srcs, d) c = Inr ((info', srcs', d'), c')"
  defines "R \<equiv> filter (source_reaches g i) grps" and "k \<equiv> nat (eo_max_paths opts - int (length srcs))"
  shows "info' = fold (bump_group (eo_max_groups opts)) (map pv_value R) info \<and>
    srcs' = srcs @ take k R \<and> d' = d + int (length (drop k R))"
  using assms(1) unfolding R_def k_def
proof (induction grps arbitrary: info srcs d c)
  case (Cons grp grps)
  from Cons.prems obtain R c1 where R: "walk g (pv_roots grp) c = Inr (R, c1)"
    and run: "explain_groups g i opts grps
       (if i \<notin> R then (info, srcs, d)
        else let info = bump_group (eo_max_groups opts) (pv_value grp) info
             in if int (length srcs) < eo_max_paths opts then (info, srcs @ [grp], d) else (info, srcs, d + 1)) c1 =
      Inr ((info', srcs', d'), c')"
    by (auto simp only: explain_groups.simps es_bind_Inr prod.case)
  have step: "explain_groups g i opts grps (if \<not> source_reaches g i grp then (info, srcs, d)
        else (bump_group (eo_max_groups opts) (pv_value grp) info,
          if int (length srcs) < eo_max_paths opts then (srcs @ [grp], d) else (srcs, d + 1))) c1 =
      Inr ((info', srcs', d'), c')"
    using run walk_Inr [OF R] by (simp add: source_reaches_def Let_def split: if_splits)
  show ?case
  proof (cases "source_reaches g i grp")
    case False
    with step Cons.IH show ?thesis by simp
  next
    case True
    show ?thesis
    proof (cases "int (length srcs) < eo_max_paths opts")
      case less: True
      then have k: "nat (eo_max_paths opts - int (length srcs)) =
          Suc (nat (eo_max_paths opts - int (length (srcs @ [grp]))))" by simp
      from step True less have "explain_groups g i opts grps
          (bump_group (eo_max_groups opts) (pv_value grp) info, srcs @ [grp], d) c1 = Inr ((info', srcs', d'), c')"
        by simp
      from Cons.IH [OF this] True show ?thesis unfolding k by simp
    next
      case more: False
      then have k: "nat (eo_max_paths opts - int (length srcs)) = 0" by simp
      from step True more have "explain_groups g i opts grps
          (bump_group (eo_max_groups opts) (pv_value grp) info, srcs, d + 1) c1 = Inr ((info', srcs', d'), c')"
        by simp
      from Cons.IH [OF this] True show ?thesis unfolding k by simp
    qed
  qed
qed simp

section \<open>One explanation\<close>

definition reaching_sources ::
  "session \<Rightarrow> object_id \<Rightarrow> mem_request list \<Rightarrow> inspection \<Rightarrow> string \<Rightarrow> path_source list"
where
  "reaching_sources s i selectors ins by_key =
     filter (source_reaches (session_graph s) i)
       (map (selected_source s) selectors @
        [global_source s, rest_source s ins True, rest_source s ins False] @
        (if by_key = [] then [] else group_sources s by_key))"

lemma take_append_kept:
  "0 \<le> n \<Longrightarrow> take (nat n) (xs @ take (nat (n - int (length xs))) ys) = take (nat n) (xs @ ys)"
  by (cases "int (length xs) < n") (auto simp: nat_diff_distrib take_all_iff)

lemma cut_take: "0 \<le> n \<Longrightarrow> (if int (length xs) > n then take (nat n) xs else xs) = take (nat n) xs"
  by auto

lemma kept_count:
  "int (length (drop (nat (n - int (length xs))) ys)) + int (length (xs @ take (nat (n - int (length xs))) ys)) =
    int (length (xs @ ys))"
  by simp

lemma explain_object_Inr:
  assumes ins: "inspect s req c0 = Inr (ins, c1)"
    and run: "explain_object s i selectors ins opts c = Inr (ex, c')"
    and lim: "0 \<le> eo_max_paths opts" "0 \<le> eo_max_steps opts"
  defines "A \<equiv> reaching_sources s i selectors ins (eo_by opts)"
  shows "map sx_reachable (ex_selections ex) =
      map (\<lambda>req. source_reaches (session_graph s) i (selected_source s req)) selectors"
    and "ex_sources ex = int (length A)"
    and "list_all2 (report_ok (session_graph s) i opts) (take (nat (eo_max_paths opts)) A) (ex_paths ex)"
    and "ex_paths_truncated ex \<longleftrightarrow> int (length A) > eo_max_paths opts"
    and "ex_object ex =
      fold (bump_group (eo_max_groups opts)) (if eo_by opts = [] then [] else groups_of_object s (eo_by opts) i)
        (object_info_of s ins i)"
proof -
  let ?g = "session_graph s" and ?info = "object_info_of s ins i"
  let ?reach = "source_reaches ?g i"
  let ?B = "filter ?reach (map (selected_source s) selectors) @ background_sources s ins ?info"
  let ?G = "filter ?reach (if eo_by opts = [] then [] else group_sources s (eo_by opts))"
  let ?k = "nat (eo_max_paths opts - int (length ?B))"
  have A: "A = ?B @ ?G"
    by (simp add: A_def reaching_sources_def background_sources_eq [OF ins])
  from run obtain sels srcs c2 info srcs' dropped c3 paths c4 where
    sels: "explain_selections s i selectors c = Inr ((sels, srcs), c2)"
    and groups: "(if eo_by opts \<noteq> []
         then explain_groups ?g i opts (group_sources s (eo_by opts)) (?info, srcs @ background_sources s ins ?info, 0)
         else es_return (?info, srcs @ background_sources s ins ?info, 0)) c2 = Inr ((info, srcs', dropped), c3)"
    and paths: "path_reports s i opts (if int (length srcs') > eo_max_paths opts
         then take (nat (eo_max_paths opts)) srcs' else srcs') c3 = Inr (paths, c4)"
    and ex: "return_polled \<lparr>ex_object = info, ex_by = eo_by opts, ex_selections = sels,
         ex_sources = dropped + int (length srcs'), ex_paths = paths,
         ex_paths_truncated = (dropped + int (length srcs') > int (length (if int (length srcs') > eo_max_paths opts
           then take (nat (eo_max_paths opts)) srcs' else srcs')))\<rparr> c4 = Inr (ex, c')"
    unfolding explain_object_def Let_def es_bind_Inr
    by (auto simp only: es_bind_Inr prod.case)
  note sl = explain_selections_Inr [OF sels]
  have kept: "info = fold (bump_group (eo_max_groups opts)) (map pv_value ?G) ?info \<and>
      srcs' = ?B @ take ?k ?G \<and> dropped = int (length (drop ?k ?G))"
  proof (cases "eo_by opts = []")
    case True
    with groups sl show ?thesis by simp
  next
    case False
    with groups sl have "explain_groups ?g i opts (group_sources s (eo_by opts)) (?info, ?B, 0) c2 =
        Inr ((info, srcs', dropped), c3)" by simp
    from explain_groups_Inr [OF this] False show ?thesis by simp
  qed
  have short: "(if int (length srcs') > eo_max_paths opts then take (nat (eo_max_paths opts)) srcs' else srcs') =
      take (nat (eo_max_paths opts)) A"
    unfolding cut_take [OF lim(1), of srcs'] A using take_append_kept [OF lim(1), of ?B ?G] kept
    by (simp only:)
  have all: "dropped + int (length srcs') = int (length A)"
    using kept kept_count [of "eo_max_paths opts" ?B ?G] unfolding A by simp
  have ex': "ex = \<lparr>ex_object = info, ex_by = eo_by opts, ex_selections = sels,
         ex_sources = int (length A), ex_paths = paths,
         ex_paths_truncated = (int (length A) > int (length (take (nat (eo_max_paths opts)) A)))\<rparr>"
    using return_polled_Inr [OF ex] by (simp only: short all)
  show "map sx_reachable (ex_selections ex) = map (\<lambda>req. ?reach (selected_source s req)) selectors"
    using sl by (simp add: ex')
  show "ex_sources ex = int (length A)" by (simp add: ex')
  show "ex_paths_truncated ex \<longleftrightarrow> int (length A) > eo_max_paths opts" using lim(1) by (auto simp: ex')
  have "\<forall>src \<in> set (take (nat (eo_max_paths opts)) A). ?reach src"
    by (auto simp: A_def reaching_sources_def dest!: in_set_takeD)
  from path_reports_ok [OF paths [unfolded short] lim(2) this]
  show "list_all2 (report_ok ?g i opts) (take (nat (eo_max_paths opts)) A) (ex_paths ex)" by (simp add: ex')
  show "ex_object ex =
      fold (bump_group (eo_max_groups opts)) (if eo_by opts = [] then [] else groups_of_object s (eo_by opts) i) ?info"
    using kept by (simp add: ex' groups_of_object_def groups_reaching_def source_reaches_def [abs_def])
qed

lemma normalized_Inr:
  "normalized opts0 = Inr opts \<Longrightarrow> 0 < eo_max_paths opts \<and> 0 < eo_max_steps opts \<and> 0 < eo_max_groups opts \<and>
    eo_by opts = eo_by opts0 \<and> eo_max_visited opts = eo_max_visited opts0"
  by (auto simp: normalized_def split: if_splits)

lemma explain_Inr:
  assumes "explain s address selectors opts0 c = Inr (ex, c')"
  obtains opts i ins c1 c2 where "normalized opts0 = Inr opts" "selectors \<noteq> []"
    "find_object_containing (Some (session_graph s)) address = Some i"
    "inspect s (hd selectors) c1 = Inr (ins, c2)" "explain_object s i selectors ins opts c2 = Inr (ex, c')"
  using assms
  by (auto simp: explain_def es_bind_Inr split: if_splits list.splits option.splits)

section \<open>The aggregate explanation\<close>

lemma member_loop_keeps:
  "member_loop g limit srcs objs c = Inr (out, c') \<Longrightarrow>
    map info_id out = map info_id objs \<and> map oi_classification out = map oi_classification objs"
proof (induction srcs arbitrary: objs c)
  case (Cons src srcs)
  have step: "map f (map (\<lambda>(k, ob). if P k ob then bump_group limit v ob else ob) (enumerate n objs)) = map f objs"
    if "\<And>ob. f (bump_group limit v ob) = f ob" for f :: "object_info \<Rightarrow> 'b" and P v n
    using that by (induction objs arbitrary: n) auto
  have keep: "info_id (bump_group limit v ob) = info_id ob"
    "oi_classification (bump_group limit v ob) = oi_classification ob" for v ob
    by (simp_all add: bump_group_def info_id_def Let_def)
  from Cons show ?case by (auto simp: es_bind_Inr step keep simp del: map_map dest!: Cons.IH)
qed (auto dest: return_polled_Inr)

lemma memberships_keep:
  "memberships s objs key limit c = Inr (out, c') \<Longrightarrow>
    map info_id out = map info_id objs \<and> map oi_classification out = map oi_classification objs"
  by (auto simp: memberships_def Let_def split: if_splits dest!: member_loop_keeps)

lemma ranked_part_Inr:
  assumes "ranked_part s ins opts most part c = Inr ((objs, short), c')"
  defines "ids \<equiv> limit_list most (sort_key (size_order (session_graph s)) (sorted_list_of_set part))"
  shows "map info_id objs = ids \<and> (short \<longleftrightarrow> length ids < card part)"
  using assms(1) unfolding ids_def
  by (auto simp: ranked_part_def es_bind_Inr comp_def object_info_fresh rank_order_def [abs_def]
      dest!: ranked_ids_Inr memberships_keep)

lemma add_candidate_props:
  "distinct cs \<Longrightarrow> distinct (add_candidate k objs cs)"
  "set (add_candidate k objs cs) = set cs \<union> (if k < length objs then {info_id (objs ! k)} else {})"
  by (auto simp: add_candidate_def Let_def info_id_def)

lemma fold_add_candidate:
  "distinct cs \<Longrightarrow> distinct (fold (add_candidate k) ls cs)"
  "set (fold (add_candidate k) ls cs) = set cs \<union> {info_id (l ! k) | l. l \<in> set ls \<and> k < length l}"
  by (induction ls arbitrary: cs) (auto simp: add_candidate_props split: if_splits)

lemma fold_rounds:
  "distinct cs \<Longrightarrow> distinct (fold (\<lambda>k. fold (add_candidate k) ls) ks cs)"
  "set (fold (\<lambda>k. fold (add_candidate k) ls) ks cs) =
    set cs \<union> {info_id (l ! k) | l k. l \<in> set ls \<and> k \<in> set ks \<and> k < length l}"
  by (induction ks arbitrary: cs) (auto simp: fold_add_candidate)

lemma length_le_foldr_max: "l \<in> set ls \<Longrightarrow> length l \<le> foldr max (map length ls) 0"
  by (induction ls) auto

lemma round_robin_props:
  "distinct (round_robin ls)" "set (round_robin ls) = (\<Union>l \<in> set ls. info_id ` set l)"
proof -
  show "distinct (round_robin ls)" unfolding round_robin_def by (rule fold_rounds) simp
  show "set (round_robin ls) = (\<Union>l \<in> set ls. info_id ` set l)"
  proof (intro equalityI subsetI)
    fix i assume "i \<in> (\<Union>l \<in> set ls. info_id ` set l)"
    then obtain l ob where "l \<in> set ls" "ob \<in> set l" "i = info_id ob" by blast
    then obtain k where l: "l \<in> set ls" "k < length l" "i = info_id (l ! k)"
      by (metis in_set_conv_nth)
    moreover from l length_le_foldr_max [OF l(1)] have "k \<in> set [0..<foldr max (map length ls) 0]" by simp
    ultimately show "i \<in> set (round_robin ls)"
      unfolding round_robin_def fold_rounds(2) by blast
  next
    fix i assume "i \<in> set (round_robin ls)"
    then obtain l k where "l \<in> set ls" "k < length l" "i = info_id (l ! k)"
      unfolding round_robin_def fold_rounds(2) by auto
    then show "i \<in> (\<Union>l \<in> set ls. info_id ` set l)" using nth_mem by blast
  qed
qed

lemma explain_each_ids:
  "explain_each s req ins opts is c = Inr (es, c') \<Longrightarrow>
    inspect s req c0 = Inr (ins, c1) \<Longrightarrow> 0 \<le> eo_max_paths opts \<Longrightarrow> 0 \<le> eo_max_steps opts \<Longrightarrow>
    map (\<lambda>e. info_id (ex_object e)) es = is"
proof (induction "is" arbitrary: es c)
  case (Cons i "is")
  have bump: "info_id (fold (bump_group n) vs ob) = info_id ob" for n vs ob
    by (induction vs arbitrary: ob) simp_all
  from Cons.prems(1) obtain e es' c2 where e: "explain_object s i [req] ins opts c = Inr (e, c2)"
    and es: "explain_each s req ins opts is c2 = Inr (es', c')" "es = e # es'"
    by (auto simp: es_bind_Inr)
  have "info_id (ex_object e) = i"
    using explain_object_Inr(5) [OF Cons.prems(2) e Cons.prems(3,4)] by (simp add: bump object_info_fresh)
  with Cons.IH [OF es(1) Cons.prems(2-4)] es(2) show ?case by simp
qed simp


lemma explain_top_Inr:
  assumes run: "explain_top s req most limit0 opts0 c = Inr (ag, c')"
  defines "R \<equiv> selection_reach s req" and "X \<equiv> outside_reach s (gor_id ` set (session_matching s req))"
    and "g \<equiv> session_graph s" and "limit \<equiv> (if limit0 = 0 then 3 else limit0)"
    and "explained \<equiv> map (\<lambda>e. info_id (ex_object e)) (ag_explanations ag)"
    and "listed \<equiv> info_id ` (set (ox_objects (ag_objects ag)) \<union> set (ag_shared ag) \<union> set (ag_exclusive ag))"
  shows "map info_id (ag_shared ag) = limit_list most (sort_key (size_order g) (sorted_list_of_set (R \<inter> X)))"
    and "map info_id (ag_exclusive ag) = limit_list most (sort_key (size_order g) (sorted_list_of_set (R - X)))"
    and "ag_shared_truncated ag \<longleftrightarrow> length (ag_shared ag) < card (R \<inter> X)"
    and "ag_exclusive_truncated ag \<longleftrightarrow> length (ag_exclusive ag) < card (R - X)"
    and "distinct explained" "set explained \<subseteq> listed" "int (length explained) \<le> limit"
    and "set explained = listed \<longleftrightarrow> \<not> ag_representatives_truncated ag"
proof -
  from run have pos: "0 < most" "0 \<le> limit0"
    by (auto simp: explain_top_def es_bind_Inr not_le split: if_splits)
  have guard: "\<not> (most \<le> 0 \<or> limit0 < 0)" using pos by simp
  have lim: "limit > 0" using pos by (simp add: limit_def)
  from run obtain opts objects ins c1 c2 shared sc c3 exclusive xc c4 es c5 c6 where
    opts: "normalized opts0 = Inr opts"
    and objs: "objects_of s req \<lparr>oo_sort = [], oo_limit = most, oo_by = eo_by opts, oo_group_limit = eo_max_groups opts\<rparr> c1 =
      Inr ((objects, ins), c2)"
    and shared: "ranked_part s ins opts most (in_selected ins \<inter> in_outside ins) c2 = Inr ((shared, sc), c3)"
    and exclusive: "ranked_part s ins opts most (in_selected ins - in_outside ins) c3 = Inr ((exclusive, xc), c4)"
    and es: "explain_each s req ins opts
      (if limit < int (length (round_robin [ox_objects objects, shared, exclusive]))
       then take (nat limit) (round_robin [ox_objects objects, shared, exclusive])
       else round_robin [ox_objects objects, shared, exclusive]) c4 = Inr (es, c5)"
    and ag: "return_polled \<lparr>ag_objects = objects, ag_shared = shared, ag_exclusive = exclusive,
          ag_shared_truncated = sc, ag_exclusive_truncated = xc, ag_explanations = es,
          ag_representatives_truncated = limit < int (length (round_robin [ox_objects objects, shared, exclusive]))\<rparr> c5 =
      Inr (ag, c6)"
    unfolding explain_top_def Let_def limit_def [symmetric] if_not_P [OF guard] es_bind_Inr set_ops
    by (auto simp only: es_bind_Inr prod.case es_lift_Inr)
  from objs obtain c7 c8 where ins: "inspect s req c7 = Inr (ins, c8)"
    by (auto simp: objects_of_def Let_def es_bind_Inr split: if_splits dest!: return_polled_Inr)
  note RX = inspect_Inr(1,2) [OF ins, folded R_def X_def]
  note ag' = return_polled_Inr [OF ag]
  note n = normalized_Inr [OF opts]
  let ?cs = "round_robin [ox_objects objects, shared, exclusive]"
  have "map (\<lambda>e. info_id (ex_object e)) es = (if limit < int (length ?cs) then take (nat limit) ?cs else ?cs)"
    by (rule explain_each_ids [OF es ins]) (use n in simp_all)
  then have ex: "explained = (if limit < int (length ?cs) then take (nat limit) ?cs else ?cs)"
    by (simp add: explained_def ag')
  have listed: "set ?cs = listed" by (auto simp: round_robin_props listed_def ag')
  note rs = ranked_part_Inr [OF shared, unfolded RX] and rx = ranked_part_Inr [OF exclusive, unfolded RX]
  show "map info_id (ag_shared ag) = limit_list most (sort_key (size_order g) (sorted_list_of_set (R \<inter> X)))"
    "map info_id (ag_exclusive ag) = limit_list most (sort_key (size_order g) (sorted_list_of_set (R - X)))"
    using rs rx by (simp_all add: ag' g_def)
  have len: "length shared = length (limit_list most (sort_key (size_order g) (sorted_list_of_set (R \<inter> X))))"
    "length exclusive = length (limit_list most (sort_key (size_order g) (sorted_list_of_set (R - X))))"
    using rs rx unfolding g_def by (metis length_map, metis length_map)
  show "ag_shared_truncated ag \<longleftrightarrow> length (ag_shared ag) < card (R \<inter> X)"
    "ag_exclusive_truncated ag \<longleftrightarrow> length (ag_exclusive ag) < card (R - X)"
    using rs rx len by (simp_all add: ag' g_def)
  show "distinct explained" by (simp add: ex round_robin_props)
  show "set explained \<subseteq> listed" unfolding ex listed [symmetric] by (auto dest: in_set_takeD)
  show "int (length explained) \<le> limit" using lim by (simp add: ex)
  show "set explained = listed \<longleftrightarrow> \<not> ag_representatives_truncated ag"
  proof (cases "limit < int (length ?cs)")
    case True
    have "card (set (take (nat limit) ?cs)) < card (set ?cs)"
      unfolding distinct_card [OF round_robin_props(1)] distinct_card [OF distinct_take [OF round_robin_props(1)]]
      using True lim by simp
    then have "set (take (nat limit) ?cs) \<noteq> set ?cs" by auto
    then show ?thesis using True by (simp add: ex listed [symmetric] ag')
  next
    case False
    then show ?thesis by (simp add: ex listed [symmetric] ag')
  qed
qed

end
