(* ===== verification/MemExport.thy ===== *)
theory MemExport
  imports MemExplainFacts
begin

text \<open>
  Export to pprof (\<open>internal/memusage/export.go\<close>, \<open>export_paths.go\<close>): the summary profile, and
  the predecessor forest whose paths are rendered as synthetic stacks. The profile type belongs to
  \<open>github.com/google/pprof/profile\<close>; the fields the code fills are kept, pointers to functions and
  locations are their identifiers, and \<open>CheckValid\<close> is the parameter \<open>check\<close>. The parameter
  \<open>quote\<close> stands for \<open>strconv.Quote\<close>, which only the text of one frame uses.
\<close>

section \<open>Profiles\<close>

record pprof_function =
  pf_id :: u64
  pf_name :: string
  pf_system :: string

record pprof_location =
  pl_id :: u64
  pl_function :: u64

record pprof_sample =
  sp_locations :: "u64 list"
  sp_values :: "i64 list"
  sp_labels :: "(string \<times> string list) list"

record pprof_profile =
  pf_sample_types :: "(string \<times> string) list"
  pf_default_type :: string
  pf_period_type :: "string \<times> string"
  pf_period :: i64
  pf_comments :: "string list"
  pf_functions :: "pprof_function list"
  pf_locations :: "pprof_location list"
  pf_samples :: "pprof_sample list"

type_synonym profile_check = "pprof_profile \<Rightarrow> go_error option"

definition new_pprof :: "string \<Rightarrow> pprof_profile" where
  "new_pprof semantics =
     \<lparr>pf_sample_types = [(''reachable_objects'', ''count''), (''reachable_space'', ''bytes''),
        (''exclusive_objects'', ''count''), (''exclusive_space'', ''bytes''),
        (''shared_objects'', ''count''), (''shared_space'', ''bytes'')],
      pf_default_type = ''reachable_space'', pf_period_type = (''space'', ''bytes''), pf_period = 1,
      pf_comments = [semantics], pf_functions = [], pf_locations = [], pf_samples = []\<rparr>"

definition push_frame :: "u64 \<Rightarrow> string \<Rightarrow> string \<Rightarrow> pprof_profile \<Rightarrow> pprof_profile" where
  "push_frame i name sys p =
     p\<lparr>pf_functions := pf_functions p @ [\<lparr>pf_id = i, pf_name = name, pf_system = sys\<rparr>],
       pf_locations := pf_locations p @ [\<lparr>pl_id = i, pl_function = i\<rparr>]\<rparr>"

definition checked :: "profile_check \<Rightarrow> pprof_profile \<Rightarrow> mem_error + pprof_profile" where
  "checked check p = (case check p of None \<Rightarrow> Inr p | Some e \<Rightarrow> Inl (OtherError e))"

section \<open>The summary profile\<close>

record export_report =
  xr_schema :: int
  xr_request :: label_map
  xr_metadata :: session_metadata
  xr_summary :: summary
  xr_semantics :: string

definition ExportSchemaVersion :: int where "ExportSchemaVersion = 1"

definition exportSemantics :: string where
  "exportSemantics =
     ''Distinct reachable objects and shallow bytes, partitioned into exclusive and shared reachability relative to other modeled roots. Synthetic summary frames are not allocation or call stacks. Separate selectors are not additive.''"

definition export_summary :: "session \<Rightarrow> mem_request \<Rightarrow> (mem_error, ctx, export_report) run" where
  "export_summary s req =
     es_bind (summarize s req) (\<lambda>sy.
     es_return \<lparr>xr_schema = ExportSchemaVersion, xr_request = rq_labels req, xr_metadata = ss_metadata s,
       xr_summary = sy, xr_semantics = exportSemantics\<rparr>)"

definition metric_of :: "summary \<Rightarrow> string \<Rightarrow> set_measure" where
  "metric_of sy k = (case map_of (sy_metrics sy) k of None \<Rightarrow> zero_measure | Some m \<Rightarrow> m)"

text \<open>The values of a sample of one partition: the reachable columns and those of the partition.\<close>

definition partition_values :: "nat \<Rightarrow> i64 \<Rightarrow> i64 \<Rightarrow> i64 list" where
  "partition_values k objects bytes =
     [objects, bytes, 0, 0, 0, 0][2 + k * 2 := objects, 3 + k * 2 := bytes]"

definition add_partition :: "export_report \<Rightarrow> nat \<times> string \<Rightarrow> pprof_profile \<Rightarrow> pprof_profile" where
  "add_partition r ik p =
     (case ik of (i, k) \<Rightarrow>
        let m = metric_of (xr_summary r) k
        in if ms_objects m = 0 then p
           else
             let fid = of_nat (i + 2);
                 p = push_frame fid (''[bubblepprof summary] '' @ k @ '' reachability'')
                       (''bubblepprof.summary.'' @ k) p
             in p\<lparr>pf_samples := pf_samples p @
                    [\<lparr>sp_locations = [fid, 1],
                      sp_values = partition_values i (word_of_int (ms_objects m)) (ms_bytes m),
                      sp_labels = map (\<lambda>(k, v). (k, [v])) (xr_request r)\<rparr>]\<rparr>)"

definition summary_pprof :: "profile_check \<Rightarrow> export_report \<Rightarrow> mem_error + pprof_profile" where
  "summary_pprof check r =
     (case find (\<lambda>k. ms_bytes (metric_of (xr_summary r) k) > max_int64) [''reachable'', ''exclusive'', ''shared''] of
        Some k \<Rightarrow> Inl (OtherError (Errorf (Fmt ''%s byte total exceeds pprof int64 range'' [FS k])))
      | None \<Rightarrow>
          let p = push_frame 1 ''[bubblepprof summary] selected reachable set'' ''bubblepprof.summary''
                    (new_pprof (xr_semantics r))
          in checked check (fold (add_partition r) [(0, ''exclusive''), (1, ''shared'')] p))"

section \<open>The predecessor forest\<close>

text \<open>A depth of zero means that the object was not visited; roots have depth one.\<close>

record export_predecessor =
  ep_parent :: object_id
  ep_prefix_end :: object_id
  ep_root :: int
  ep_depth :: nat
  ep_reference :: reference

definition zero_reference :: reference where
  "zero_reference = \<lparr>rf_target = 0, rf_pointer = 0, rf_offset = 0, rf_offset_known = False\<rparr>"

definition unvisited :: export_predecessor where
  "unvisited = \<lparr>ep_parent = 0, ep_prefix_end = 0, ep_root = 0, ep_depth = 0, ep_reference = zero_reference\<rparr>"

type_synonym forest = "export_predecessor list"

definition poll_batch :: "nat \<Rightarrow> (mem_error, ctx, unit) run" where
  "poll_batch k = (if k mod 1024 = 0 then mem_poll else es_return ())"

definition takes :: "forest \<Rightarrow> object_id \<Rightarrow> bool" where
  "takes fs i \<longleftrightarrow> unat i < length fs \<and> ep_depth (fs ! unat i) = 0"

fun forest_roots ::
  "int \<Rightarrow> root_ref list \<Rightarrow> forest \<times> object_id list \<Rightarrow> (mem_error, ctx, forest \<times> object_id list) run"
where
  "forest_roots k [] st = es_return st"
| "forest_roots k (r # rs) st =
     es_bind mem_poll (\<lambda>_.
     forest_roots (k + 1) rs
       (case st of (fs, q) \<Rightarrow>
          let i = rr_object_id r
          in if takes fs i
             then (fs[unat i := unvisited\<lparr>ep_root := k, ep_depth := 1, ep_prefix_end := i\<rparr>], q @ [i])
             else (fs, q)))"

fun first_refs ::
  "nat \<Rightarrow> reference list \<Rightarrow> (object_id \<rightharpoonup> reference) \<Rightarrow> (mem_error, ctx, object_id \<rightharpoonup> reference) run"
where
  "first_refs k [] m = es_return m"
| "first_refs k (r # rs) m =
     es_bind (poll_batch k) (\<lambda>_.
     first_refs (k + 1) rs (if m (rf_target r) = None then m(rf_target r \<mapsto> r) else m))"

definition forest_child ::
  "object_id \<Rightarrow> export_predecessor \<Rightarrow> (object_id \<rightharpoonup> reference) \<Rightarrow> nat \<Rightarrow> object_id \<Rightarrow>
    forest \<times> object_id list \<Rightarrow> forest \<times> object_id list"
where
  "forest_child i node refs prefix child st =
     (case st of (fs, q) \<Rightarrow>
        if \<not> takes fs child then (fs, q)
        else
          (fs[unat child :=
                \<lparr>ep_parent = i,
                 ep_prefix_end = (if ep_depth node < prefix then child else ep_prefix_end node),
                 ep_root = ep_root node, ep_depth = ep_depth node + 1,
                 ep_reference = (case refs child of None \<Rightarrow> zero_reference | Some r \<Rightarrow> r)\<rparr>],
           q @ [child]))"

fun forest_children ::
  "object_id \<Rightarrow> export_predecessor \<Rightarrow> (object_id \<rightharpoonup> reference) \<Rightarrow> nat \<Rightarrow> nat \<Rightarrow> object_id list \<Rightarrow>
    forest \<times> object_id list \<Rightarrow> (mem_error, ctx, forest \<times> object_id list) run"
where
  "forest_children i node refs prefix k [] st = es_return st"
| "forest_children i node refs prefix k (c # cs) st =
     es_bind (poll_batch k) (\<lambda>_.
     forest_children i node refs prefix (k + 1) cs (forest_child i node refs prefix c st))"

definition references_of :: "graph \<Rightarrow> object_id \<Rightarrow> reference list" where
  "references_of g i = (if unat i < length (gr_references g) then gr_references g ! unat i else [])"

text \<open>One round of the loop: the object at the head of the queue, the queue behind it.\<close>

definition forest_round ::
  "graph \<Rightarrow> nat \<Rightarrow> object_id \<Rightarrow> forest \<times> object_id list \<Rightarrow> (mem_error, ctx, forest \<times> object_id list) run"
where
  "forest_round g prefix i st =
     es_bind mem_poll (\<lambda>_.
     es_bind (first_refs 0 (references_of g i) Map.empty) (\<lambda>refs.
     forest_children i (fst st ! unat i) refs prefix 0 (children g i) st))"

definition unvisited_count :: "forest \<Rightarrow> nat" where
  "unvisited_count fs = length (filter (\<lambda>n. ep_depth n = 0) fs)"

lemma unvisited_update:
  assumes "takes fs i" "ep_depth n \<noteq> 0"
  shows "Suc (unvisited_count (fs[unat i := n])) = unvisited_count fs"
proof -
  note i = assms(1) [unfolded takes_def, THEN conjunct1] assms(1) [unfolded takes_def, THEN conjunct2]
  have "unvisited_count (take (unat i) fs @ fs ! unat i # drop (Suc (unat i)) fs) =
      Suc (unvisited_count (take (unat i) fs) + unvisited_count (drop (Suc (unat i)) fs))"
    using i(2) by (simp add: unvisited_count_def)
  then show ?thesis
    using i assms(2) unfolding id_take_nth_drop [OF i(1), symmetric]
    by (simp add: upd_conv_take_nth_drop unvisited_count_def)
qed

lemma forest_children_measure:
  "forest_children i node refs prefix k cs (fs, q) c = Inr ((fs', q'), c') \<Longrightarrow>
    unvisited_count fs' + length q' = unvisited_count fs + length q"
proof (induction cs arbitrary: k fs q c)
  case (Cons x xs)
  obtain fs1 q1 where st: "forest_child i node refs prefix x (fs, q) = (fs1, q1)" by fastforce
  have "unvisited_count fs1 + length q1 = unvisited_count fs + length q"
    using st unvisited_update [of fs x] by (auto simp: forest_child_def split: if_splits)
  moreover from Cons.prems st obtain c1 where
    "forest_children i node refs prefix (k + 1) xs (fs1, q1) c1 = Inr ((fs', q'), c')"
    by (auto simp: es_bind_Inr)
  note Cons.IH [OF this]
  ultimately show ?case by simp
qed simp

function forest_loop ::
  "graph \<Rightarrow> nat \<Rightarrow> forest \<Rightarrow> object_id list \<Rightarrow> (mem_error, ctx, forest) run"
where
  "forest_loop g prefix fs [] c = es_return fs c"
| "forest_loop g prefix fs (i # q) c =
     (case forest_round g prefix i (fs, q) c of
        Inl e \<Rightarrow> Inl e
      | Inr ((fs', q'), c') \<Rightarrow> forest_loop g prefix fs' q' c')"
  by pat_completeness auto
termination
  by (relation "measure (\<lambda>(g, prefix, fs, q, c). unvisited_count fs + length q)")
    (auto simp: forest_round_def es_bind_Inr dest!: forest_children_measure)

declare forest_loop.simps [simp del]

definition build_export_forest ::
  "graph \<Rightarrow> root_ref list \<Rightarrow> nat \<Rightarrow> (mem_error, ctx, forest) run"
where
  "build_export_forest g roots prefix =
     es_bind (forest_roots 0 roots (replicate (length (gr_objects g)) unvisited, [])) (\<lambda>(fs, q).
     es_bind (forest_loop g prefix fs q) return_polled)"

section \<open>The segments of a path\<close>

text \<open>The last \<open>n\<close> objects of the path to \<open>i\<close>, in path order.\<close>

fun collect :: "forest \<Rightarrow> object_id \<Rightarrow> nat \<Rightarrow> object_id list \<Rightarrow> (mem_error, ctx, object_id list) run" where
  "collect fs i 0 acc = return_polled acc"
| "collect fs i (Suc n) acc =
     es_bind (poll_batch n) (\<lambda>_. collect fs (ep_parent (fs ! unat i)) n (i # acc))"

definition export_path_segments ::
  "forest \<Rightarrow> object_id \<Rightarrow> nat \<Rightarrow> (mem_error, ctx, object_id list \<times> object_id list \<times> nat) run"
where
  "export_path_segments fs i max_depth =
     (let depth = ep_depth (fs ! unat i)
      in if max_depth = 0 \<or> depth \<le> max_depth then
           es_bind (collect fs i depth []) (\<lambda>prefix. es_return (prefix, [], 0))
         else
           let first = max_depth div 2
           in es_bind (collect fs (ep_prefix_end (fs ! unat i)) first []) (\<lambda>prefix.
              es_bind (collect fs i (max_depth - first) []) (\<lambda>suffix.
              es_return (prefix, suffix, depth - max_depth))))"

section \<open>The path profile\<close>

record export_state =
  xs_profile :: pprof_profile
  xs_names :: "(string \<times> u64) list"
  xs_objects :: "u64 option list"

definition frame_location :: "string \<Rightarrow> export_state \<Rightarrow> u64 \<times> export_state" where
  "frame_location name st =
     (case map_of (xs_names st) name of
        Some l \<Rightarrow> (l, st)
      | None \<Rightarrow>
          let i = of_nat (length (pf_functions (xs_profile st))) + 1;
              text = ''[bubblepprof reference] '' @ name
          in (i, st\<lparr>xs_profile := push_frame i text text (xs_profile st),
                  xs_names := AList.update name i (xs_names st)\<rparr>))"

fun frame_locations :: "string list \<Rightarrow> export_state \<Rightarrow> u64 list \<times> export_state" where
  "frame_locations [] st = ([], st)"
| "frame_locations (name # names) st =
     (case frame_location name st of (l, st) \<Rightarrow>
      case frame_locations names st of (ls, st) \<Rightarrow> (l # ls, st))"

definition decimal :: "nat \<Rightarrow> string" where
  "decimal n = format_nat 10 n"

definition object_frame_name :: "graph \<Rightarrow> forest \<Rightarrow> object_id \<Rightarrow> string" where
  "object_frame_name g fs i =
     (let ob = gr_objects g ! unat i; node = fs ! unat i; ref = ep_reference node
      in ''object '' @ hex_address (ob_addr ob) @ '' shallow='' @ decimal (unat (ob_size ob)) @ '' bytes'' @
         (if ep_depth node > 1 \<and> rf_offset_known ref
          then '' via pointer +'' @ hex_address (rf_offset ref) else []))"

fun append_objects ::
  "graph \<Rightarrow> forest \<Rightarrow> nat \<Rightarrow> object_id list \<Rightarrow> u64 list \<times> export_state \<Rightarrow>
    (mem_error, ctx, u64 list \<times> export_state) run"
where
  "append_objects g fs k [] acc = es_return acc"
| "append_objects g fs k (i # is) acc =
     es_bind (poll_batch k) (\<lambda>_.
     append_objects g fs (k + 1) is
       (case acc of (locs, st) \<Rightarrow>
          (case xs_objects st ! unat i of
             Some l \<Rightarrow> (locs @ [l], st)
           | None \<Rightarrow>
               (case frame_location (object_frame_name g fs i) st of (l, st) \<Rightarrow>
                  (locs @ [l], st\<lparr>xs_objects := (xs_objects st)[unat i := Some l]\<rparr>)))))"

definition mark_omitted :: "nat \<Rightarrow> u64 list \<times> export_state \<Rightarrow> u64 list \<times> export_state" where
  "mark_omitted omitted acc =
     (case acc of (locs, st) \<Rightarrow>
        if omitted > 0
        then (case frame_location (''... '' @ decimal omitted @ '' object reference steps omitted ...'') st of
                (l, st) \<Rightarrow> (locs @ [l], st))
        else acc)"

definition root_name :: "root_ref \<Rightarrow> string" where
  "root_name r = ''root '' @ rr_kind r @ (if rr_detail r \<noteq> [] then '' in '' @ rr_detail r else [])"

definition add_label_value :: "string \<Rightarrow> string \<Rightarrow> (string \<times> string list) list \<Rightarrow> (string \<times> string list) list" where
  "add_label_value k v ls = AList.update k ((case map_of ls k of None \<Rightarrow> [] | Some vs \<Rightarrow> vs) @ [v]) ls"

definition sample_labels :: "label_map \<Rightarrow> graph \<Rightarrow> object_id \<Rightarrow> (string \<times> string list) list" where
  "sample_labels labels g i =
     add_label_value ''bubblepprof.object_id'' (decimal (unat i))
       (add_label_value ''bubblepprof.object_address'' (hex_address (ob_addr (gr_objects g ! unat i)))
         (map (\<lambda>k. (k, [the (map_of labels k)])) (sort (map fst labels))))"

definition partition_of :: "inspection \<Rightarrow> object_id \<Rightarrow> nat" where
  "partition_of ins i = (if i \<in> in_outside ins then 1 else 0)"

definition export_node ::
  "session \<Rightarrow> mem_request \<Rightarrow> inspection \<Rightarrow> (u64 \<times> root_ref) list \<Rightarrow> forest \<Rightarrow> nat \<Rightarrow> u64 \<Rightarrow> u64 list \<Rightarrow>
    object_id \<Rightarrow> export_state \<Rightarrow> (mem_error, ctx, export_state) run"
where
  "export_node s req ins roots fs max_depth selection_loc partitions i st =
     (let g = session_graph s; node = fs ! unat i in
      es_bind mem_poll (\<lambda>_.
      if ep_depth node = 0 then es_return st
      else if i \<notin> in_selected ins then
        es_fail (OtherError (Errorf (Fmt ''reference forest reached object outside selection: %d'' [FI (uint i)])))
      else
        es_bind (export_path_segments fs i max_depth) (\<lambda>(prefix, suffix, omitted).
        let (gid, ref) = roots ! nat (ep_root node);
            k = partition_of ins i;
            (heads, st) = frame_locations
              [''representative goroutine '' @ decimal (unat gid), root_name ref] st
        in es_bind (append_objects g fs 0 prefix (selection_loc # partitions ! k # heads, st)) (\<lambda>acc.
           es_bind (append_objects g fs 0 suffix (mark_omitted omitted acc)) (\<lambda>(locs, st).
           es_return (st\<lparr>xs_profile := (xs_profile st)\<lparr>pf_samples := pf_samples (xs_profile st) @
             [\<lparr>sp_locations = rev locs, sp_values = partition_values k 1 (ob_size (gr_objects g ! unat i)),
               sp_labels = sample_labels (rq_labels req) g i\<rparr>]\<rparr>\<rparr>))))))"

fun export_nodes ::
  "(object_id \<Rightarrow> export_state \<Rightarrow> (mem_error, ctx, export_state) run) \<Rightarrow> object_id list \<Rightarrow> export_state \<Rightarrow>
    (mem_error, ctx, export_state) run"
where
  "export_nodes step [] st = es_return st"
| "export_nodes step (i # is) st = es_bind (step i st) (export_nodes step is)"

definition pathExportSemantics :: string where
  "pathExportSemantics =
     ''Synthetic reference paths, not execution or allocation stacks. One shortest representative path per distinct reachable object; choosing a goroutine does not establish ownership. Shared objects are counted once, not once per path. Values are shallow bytes/counts; cumulative widths are not dominator retained sizes. Separate selectors are not additive. Omitted-reference markers abbreviate paths without dropping objects or changing totals.''"

definition no_provenance_comment :: string where
  "no_provenance_comment =
     ''Reference slot provenance was not retained; unavailable pointer offsets are omitted.''"

fun join_with :: "string \<Rightarrow> string list \<Rightarrow> string" where
  "join_with sep [] = []"
| "join_with sep [x] = x"
| "join_with sep (x # xs) = x @ sep @ join_with sep xs"

definition selection_name :: "(string \<Rightarrow> string) \<Rightarrow> label_map \<Rightarrow> string" where
  "selection_name quote labels =
     ''selection '' @ join_with '' ''
       (map (\<lambda>k. quote k @ ''='' @ quote (the (map_of labels k))) (sort (map fst labels)))"

definition export_roots :: "session \<Rightarrow> inspection \<Rightarrow> (u64 \<times> root_ref) list" where
  "export_roots s ins =
     concat (map (\<lambda>g. map (Pair (gor_id g)) (gor_roots g))
       (sort_key gor_id (filter (\<lambda>g. gor_id g \<in> in_gids ins) (session_goroutines s))))"

definition start_export :: "(string \<Rightarrow> string) \<Rightarrow> session \<Rightarrow> mem_request \<Rightarrow> u64 list \<times> export_state" where
  "start_export quote s req =
     (let p = new_pprof pathExportSemantics;
          p = (if sm_reference_provenance (ss_metadata s) then p
               else p\<lparr>pf_comments := pf_comments p @ [no_provenance_comment]\<rparr>)
      in frame_locations [selection_name quote (rq_labels req), ''exclusive reachability'', ''shared reachability'']
           \<lparr>xs_profile = p, xs_names = [], xs_objects = replicate (length (gr_objects (session_graph s))) None\<rparr>)"

definition export_paths ::
  "profile_check \<Rightarrow> (string \<Rightarrow> string) \<Rightarrow> session \<Rightarrow> mem_request \<Rightarrow> nat \<Rightarrow> (mem_error, ctx, pprof_profile) run"
where
  "export_paths check quote s req max_depth =
     (let g = session_graph s in
      es_bind (ready s) (\<lambda>_.
      es_bind (inspect s req) (\<lambda>ins.
      es_bind (es_lift (measure_set g (in_selected ins))) (\<lambda>m.
      if ms_bytes m > max_int64 then
        es_fail (OtherError (Errorf (Fmt ''reachable byte total exceeds pprof int64 range'' [])))
      else
        es_bind (es_each (\<lambda>_. mem_poll) (session_goroutines s)) (\<lambda>_.
        let roots = export_roots s ins in
        es_bind (es_each (\<lambda>_. mem_poll) roots) (\<lambda>_.
        es_bind (build_export_forest g (map snd roots) (max_depth div 2)) (\<lambda>fs.
        case start_export quote s req of (locs, st) \<Rightarrow>
        es_bind (export_nodes
            (export_node s req ins roots fs max_depth (locs ! 0) [locs ! 1, locs ! 2])
            (map of_nat [0..<length fs]) st) (\<lambda>st.
        let p = xs_profile st in
        if length (pf_samples p) \<noteq> card (in_selected ins) then
          es_fail (OtherError (Errorf (Fmt ''reference forest does not cover selected reachable objects'' [])))
        else es_bind (es_lift (checked check p)) return_polled))))))))"

definition export_pprof ::
  "profile_check \<Rightarrow> (string \<Rightarrow> string) \<Rightarrow> session \<Rightarrow> mem_request \<Rightarrow> string \<Rightarrow> int \<Rightarrow>
    (mem_error, ctx, pprof_profile) run"
where
  "export_pprof check quote s req mode0 max_depth =
     (let mode = (if mode0 = [] then ''summary'' else mode0) in
      if mode \<noteq> ''summary'' \<and> mode \<noteq> ''paths'' then
        es_fail (OtherError (Errorf (Fmt ''pprof mode must be summary or paths'' [])))
      else if max_depth < 0 \<or> max_depth = 1 then
        es_fail (OtherError (Errorf (Fmt ''max path depth must be 0 or at least 2'' [])))
      else if mode = ''summary'' then
        if max_depth \<noteq> 0 then es_fail (OtherError (Errorf (Fmt ''max path depth requires paths mode'' [])))
        else es_bind (export_summary s req) (\<lambda>r. es_bind (es_lift (summary_pprof check r)) return_polled)
      else export_paths check quote s req (nat max_depth))"

end
