(* ===== verification/MemExportFacts.thy ===== *)
theory MemExportFacts
  imports MemExport
begin

text \<open>
  The predecessor forest is a breadth-first forest: it covers what the roots reach, its paths are
  shortest paths, and a rendered path is such a path with its middle left out. The samples of a
  path profile partition the reachable objects.
\<close>

section \<open>Paths of a forest\<close>

definition visited :: "forest \<Rightarrow> object_id \<Rightarrow> bool" where
  "visited fs i \<longleftrightarrow> unat i < length fs \<and> ep_depth (fs ! unat i) \<noteq> 0"

definition node_ok ::
  "graph \<Rightarrow> root_ref list \<Rightarrow> nat \<Rightarrow> forest \<Rightarrow> object_id \<Rightarrow> export_predecessor \<Rightarrow> bool"
where
  "node_ok g roots prefix fs i n \<longleftrightarrow>
     ep_depth n \<noteq> 0 \<and>
     (if ep_depth n = 1
      then 0 \<le> ep_root n \<and> ep_root n < int (length roots) \<and> i = rr_object_id (roots ! nat (ep_root n)) \<and>
        ep_prefix_end n = i
      else visited fs (ep_parent n) \<and> i \<in> set (children g (ep_parent n)) \<and>
        ep_depth n = Suc (ep_depth (fs ! unat (ep_parent n))) \<and>
        ep_root n = ep_root (fs ! unat (ep_parent n)) \<and>
        ep_prefix_end n = (if ep_depth n \<le> prefix then i else ep_prefix_end (fs ! unat (ep_parent n))))"

definition forest_ok :: "graph \<Rightarrow> root_ref list \<Rightarrow> nat \<Rightarrow> forest \<Rightarrow> bool" where
  "forest_ok g roots prefix fs \<longleftrightarrow>
     length fs = length (gr_objects g) \<and>
     (\<forall>i. visited fs i \<longrightarrow> node_ok g roots prefix fs i (fs ! unat i))"

lemma takes_visited: "takes fs i \<Longrightarrow> \<not> visited fs i"
  by (simp add: takes_def visited_def)

lemma takes_iff: "length fs = length (gr_objects g) \<Longrightarrow> takes fs i \<longleftrightarrow> valid_id (Some g) i \<and> \<not> visited fs i"
  by (auto simp: takes_def visited_def valid_id_def)

lemma visited_update:
  assumes "takes fs i" "ep_depth n \<noteq> 0"
  shows "visited (fs[unat i := n]) j \<longleftrightarrow> j = i \<or> visited fs j"
    and "visited fs j \<Longrightarrow> fs[unat i := n] ! unat j = fs ! unat j"
    and "fs[unat i := n] ! unat i = n"
  using assms by (auto simp: visited_def takes_def nth_list_update word_unat_eq_iff)

lemma forest_extend:
  assumes ok: "forest_ok g roots prefix fs" and i: "takes fs i" and n: "node_ok g roots prefix fs i n"
  shows "forest_ok g roots prefix (fs[unat i := n])"
proof -
  have d: "ep_depth n \<noteq> 0" using n by (simp add: node_ok_def)
  note up = visited_update [OF i d]
  have keep: "node_ok g roots prefix (fs[unat i := n]) j m" if "node_ok g roots prefix fs j m" for j m
    using that by (auto simp: node_ok_def up)
  have "node_ok g roots prefix (fs[unat i := n]) j (fs[unat i := n] ! unat j)"
    if "visited (fs[unat i := n]) j" for j
  proof (cases "j = i")
    case True
    then show ?thesis using keep [OF n] up(3) by simp
  next
    case False
    with that have "visited fs j" by (simp add: up(1))
    then show ?thesis using ok keep up(2) by (simp add: forest_ok_def)
  qed
  then show ?thesis using ok by (simp add: forest_ok_def)
qed

fun chain :: "forest \<Rightarrow> object_id \<Rightarrow> nat \<Rightarrow> object_id list" where
  "chain fs i 0 = []"
| "chain fs i (Suc n) = chain fs (ep_parent (fs ! unat i)) n @ [i]"

definition forest_path :: "forest \<Rightarrow> object_id \<Rightarrow> object_id list" where
  "forest_path fs i = chain fs i (ep_depth (fs ! unat i))"

lemma collect_Inr: "collect fs i n acc c = Inr (r, c') \<Longrightarrow> r = chain fs i n @ acc"
  by (induction fs i n acc arbitrary: c rule: collect.induct) (auto simp: es_bind_Inr dest: return_polled_Inr)

lemma length_chain [simp]: "length (chain fs i n) = n"
  by (induction fs i n rule: chain.induct) simp_all

lemma forest_path_cases:
  assumes "forest_ok g roots prefix fs" "visited fs i"
  obtains (root) "ep_depth (fs ! unat i) = 1" "forest_path fs i = [i]"
      "node_ok g roots prefix fs i (fs ! unat i)"
  | (step) "ep_depth (fs ! unat i) \<noteq> 1" "forest_path fs i = forest_path fs (ep_parent (fs ! unat i)) @ [i]"
      "visited fs (ep_parent (fs ! unat i))" "node_ok g roots prefix fs i (fs ! unat i)"
      "ep_depth (fs ! unat i) = Suc (ep_depth (fs ! unat (ep_parent (fs ! unat i))))"
proof -
  have ok: "node_ok g roots prefix fs i (fs ! unat i)" using assms by (simp add: forest_ok_def)
  show ?thesis
  proof (cases "ep_depth (fs ! unat i) = 1")
    case True
    then show ?thesis using root ok by (simp add: forest_path_def)
  next
    case False
    then have "visited fs (ep_parent (fs ! unat i))"
      "ep_depth (fs ! unat i) = Suc (ep_depth (fs ! unat (ep_parent (fs ! unat i))))"
      using ok by (simp_all add: node_ok_def)
    then show ?thesis using step False ok by (simp add: forest_path_def)
  qed
qed

lemma forest_path_graph:
  assumes ok: "forest_ok g roots prefix fs"
  shows "visited fs i \<Longrightarrow> graph_path g (forest_path fs i) \<and> last (forest_path fs i) = i \<and>
    hd (forest_path fs i) = rr_object_id (roots ! nat (ep_root (fs ! unat i))) \<and>
    0 \<le> ep_root (fs ! unat i) \<and> ep_root (fs ! unat i) < int (length roots)"
proof (induction "ep_depth (fs ! unat i)" arbitrary: i)
  case 0
  then show ?case by (simp add: visited_def)
next
  case (Suc n)
  have v: "valid_id (Some g) i" using Suc.prems ok by (simp add: visited_def forest_ok_def valid_id_def)
  from ok Suc.prems show ?case
  proof (cases rule: forest_path_cases)
    case root
    then show ?thesis using v by (simp add: node_ok_def)
  next
    case step
    let ?p = "ep_parent (fs ! unat i)"
    have "n = ep_depth (fs ! unat ?p)" using Suc.hyps(2) step(5) by simp
    note ih = Suc.hyps(1) [OF this step(3)]
    have len: "forest_path fs ?p \<noteq> []" using ih by auto
    have "graph_path g (forest_path fs ?p @ [i])"
    proof -
      obtain ys where ys: "forest_path fs ?p = ys @ [?p]"
        using ih len by (metis append_butlast_last_id)
      have "i \<in> set (children g ?p)" using step(1,4) by (simp add: node_ok_def)
      then show ?thesis using graph_path_snoc [of g ys ?p i] ih v unfolding ys by simp
    qed
    moreover have "ep_root (fs ! unat i) = ep_root (fs ! unat ?p)" using step(1,4) by (simp add: node_ok_def)
    ultimately show ?thesis using ih len unfolding step(2) by simp
  qed
qed

lemma length_forest_path [simp]: "length (forest_path fs i) = ep_depth (fs ! unat i)"
  by (simp add: forest_path_def)

lemma chain_suffix:
  assumes ok: "forest_ok g roots prefix fs"
  shows "visited fs i \<Longrightarrow> n \<le> ep_depth (fs ! unat i) \<Longrightarrow>
    chain fs i n = drop (ep_depth (fs ! unat i) - n) (forest_path fs i)"
proof (induction n arbitrary: i)
  case (Suc n)
  from ok Suc.prems(1) show ?case
  proof (cases rule: forest_path_cases)
    case root
    then show ?thesis using Suc.prems(2) by simp
  next
    case step
    then show ?thesis using Suc by simp
  qed
qed simp

lemma prefix_end_path:
  assumes ok: "forest_ok g roots prefix fs"
  shows "visited fs i \<Longrightarrow> visited fs (ep_prefix_end (fs ! unat i)) \<and>
    forest_path fs (ep_prefix_end (fs ! unat i)) = take (max 1 prefix) (forest_path fs i)"
proof (induction "ep_depth (fs ! unat i)" arbitrary: i)
  case 0
  then show ?case by (simp add: visited_def)
next
  case (Suc n)
  from ok Suc.prems show ?case
  proof (cases rule: forest_path_cases)
    case root
    then show ?thesis using Suc.prems by (simp add: node_ok_def)
  next
    case step
    let ?p = "ep_parent (fs ! unat i)"
    have d: "n = ep_depth (fs ! unat ?p)" using Suc.hyps(2) step(5) by simp
    note ih = Suc.hyps(1) [OF d step(3)]
    have pe: "ep_prefix_end (fs ! unat i) =
        (if ep_depth (fs ! unat i) \<le> prefix then i else ep_prefix_end (fs ! unat ?p))"
      using step(1,4) by (simp add: node_ok_def)
    show ?thesis
    proof (cases "ep_depth (fs ! unat i) \<le> prefix")
      case True
      then show ?thesis using Suc.prems unfolding pe by (simp add: take_all_iff)
    next
      case False
      have "n \<noteq> 0" using step(3) d by (simp add: visited_def)
      with False have "max 1 prefix \<le> n" using Suc.hyps(2) by simp
      then show ?thesis using ih False d unfolding pe step(2) by simp
    qed
  qed
qed

text \<open>What is rendered of the path to an object.\<close>

definition abbreviated :: "nat \<Rightarrow> 'a list \<Rightarrow> 'a list \<times> 'a list \<times> nat" where
  "abbreviated max_depth xs =
     (if max_depth = 0 \<or> length xs \<le> max_depth then (xs, [], 0)
      else (take (max_depth div 2) xs, drop (length xs - (max_depth - max_depth div 2)) xs,
        length xs - max_depth))"

lemma export_path_segments_Inr:
  assumes run: "export_path_segments fs i max_depth c = Inr (r, c')"
    and ok: "forest_ok g roots (max_depth div 2) fs" and i: "visited fs i" and md: "max_depth \<noteq> 1"
  shows "r = abbreviated max_depth (forest_path fs i)"
proof (cases "max_depth = 0 \<or> ep_depth (fs ! unat i) \<le> max_depth")
  case True
  then show ?thesis using run
    by (auto simp: export_path_segments_def Let_def es_bind_Inr abbreviated_def forest_path_def dest!: collect_Inr)
next
  case False
  let ?first = "max_depth div 2" and ?pe = "ep_prefix_end (fs ! unat i)"
  have first: "max 1 ?first = ?first" using False md by auto
  note pe = prefix_end_path [OF ok i, unfolded first]
  have "ep_depth (fs ! unat ?pe) = ?first"
    using False pe by (metis div_le_dividend le_trans length_forest_path length_take min.absorb2 nat_le_linear)
  then have "chain fs ?pe ?first = take ?first (forest_path fs i)"
    using pe by (metis forest_path_def)
  moreover have "chain fs i (max_depth - ?first) =
      drop (ep_depth (fs ! unat i) - (max_depth - ?first)) (forest_path fs i)"
    by (rule chain_suffix [OF ok i]) (use False diff_le_self [of max_depth ?first] in linarith)
  ultimately show ?thesis using run False
    by (auto simp: export_path_segments_def Let_def es_bind_Inr abbreviated_def dest!: collect_Inr)
qed

section \<open>The forest is breadth first\<close>

text \<open>
  The state of the forest search against that of the path search without a limit: the same
  objects are seen, from the same parents, and the queues agree.
\<close>

definition forest_sim :: "graph \<Rightarrow> forest \<Rightarrow> object_id list \<Rightarrow> search \<Rightarrow> bool" where
  "forest_sim g fs q st \<longleftrightarrow>
     length fs = length (gr_objects g) \<and> q = sr_queue st \<and> \<not> sr_limited st \<and>
     (\<forall>i. case map_of (sr_seen st) i of
         None \<Rightarrow> \<not> visited fs i
       | Some p \<Rightarrow> visited fs i \<and> (pd_has_parent p \<longleftrightarrow> ep_depth (fs ! unat i) \<noteq> 1) \<and>
           (pd_has_parent p \<longrightarrow> pd_parent p = ep_parent (fs ! unat i)))"

lemma forest_sim_seen:
  "forest_sim g fs q st \<Longrightarrow> visited fs i \<longleftrightarrow> map_of (sr_seen st) i \<noteq> None"
  unfolding forest_sim_def by (cases "map_of (sr_seen st) i") (auto dest!: spec [of _ i])

lemma forest_sim_add:
  assumes sim: "forest_sim g fs q st" and n: "ep_depth n \<noteq> 0"
    and p: "pd_has_parent p \<longleftrightarrow> ep_depth n \<noteq> 1" "pd_has_parent p \<Longrightarrow> pd_parent p = ep_parent n"
  shows "forest_sim g (if takes fs i then fs[unat i := n] else fs) (if takes fs i then q @ [i] else q)
    (path_add g 0 i p st)"
proof (cases "takes fs i")
  case False
  have "length fs = length (gr_objects g)" using sim by (simp add: forest_sim_def)
  then have "path_add g 0 i p st = st"
    using False forest_sim_seen [OF sim] by (auto simp: takes_iff path_add_def)
  with sim False show ?thesis by simp
next
  case True
  note up = visited_update [OF True n]
  have len: "length fs = length (gr_objects g)" using sim by (simp add: forest_sim_def)
  have st: "path_add g 0 i p st = st\<lparr>sr_seen := sr_seen st @ [(i, p)], sr_queue := sr_queue st @ [i]\<rparr>"
    using True forest_sim_seen [OF sim, of i] by (auto simp: takes_iff [OF len] path_add_def)
  have "case map_of (sr_seen st @ [(i, p)]) j of
         None \<Rightarrow> \<not> visited (fs[unat i := n]) j
       | Some p \<Rightarrow> visited (fs[unat i := n]) j \<and> (pd_has_parent p \<longleftrightarrow> ep_depth (fs[unat i := n] ! unat j) \<noteq> 1) \<and>
           (pd_has_parent p \<longrightarrow> pd_parent p = ep_parent (fs[unat i := n] ! unat j))" for j
  proof (cases "j = i")
    case True
    have "map_of (sr_seen st) i = None"
      using \<open>takes fs i\<close> forest_sim_seen [OF sim, of i] by (simp add: takes_visited)
    then have "map_of (sr_seen st @ [(i, p)]) j = Some p" using True by (simp add: map_add_def)
    then show ?thesis using True p by (simp add: up(1,3))
  next
    case False
    then have m: "map_of (sr_seen st @ [(i, p)]) j = map_of (sr_seen st) j"
      by (simp add: map_add_def split: option.split)
    from sim have "case map_of (sr_seen st) j of
         None \<Rightarrow> \<not> visited fs j
       | Some p \<Rightarrow> visited fs j \<and> (pd_has_parent p \<longleftrightarrow> ep_depth (fs ! unat j) \<noteq> 1) \<and>
           (pd_has_parent p \<longrightarrow> pd_parent p = ep_parent (fs ! unat j))"
      by (simp add: forest_sim_def)
    then show ?thesis unfolding m using False by (auto simp: up(1,2) split: option.splits)
  qed
  with True sim show ?thesis by (simp add: forest_sim_def st)
qed

lemma path_children_fold:
  "path_children g mv k cs p st Background = Inr (fold (\<lambda>c. path_add g mv c p) cs st, Background)"
  by (induction cs arbitrary: k st) (simp_all add: es_bind_def es_return_def ctx_poll_def)

lemma forest_child_ok:
  assumes ok: "forest_ok g roots prefix fs" and i: "visited fs i" "fs ! unat i = node"
    and c: "c \<in> set (children g i)"
  shows "forest_ok g roots prefix (fst (forest_child i node refs prefix c (fs, q)))"
    and "visited (fst (forest_child i node refs prefix c (fs, q))) i"
    and "fst (forest_child i node refs prefix c (fs, q)) ! unat i = node"
  using i c visited_update [of fs c]
  by (auto simp: ok forest_child_def node_ok_def visited_def intro!: forest_extend [OF ok])

lemma forest_children_ok:
  assumes "forest_children i node refs prefix k cs (fs, q) c = Inr ((fs', q'), c')"
    and "forest_ok g roots prefix fs" "visited fs i" "fs ! unat i = node" "set cs \<subseteq> set (children g i)"
    and "forest_sim g fs q st" "pd_parent p = i" "pd_has_parent p"
  shows "forest_ok g roots prefix fs' \<and> forest_sim g fs' q' (fold (\<lambda>c. path_add g 0 c p) cs st)"
  using assms
proof (induction cs arbitrary: k fs q c st)
  case (Cons x xs)
  obtain fs1 q1 where st: "forest_child i node refs prefix x (fs, q) = (fs1, q1)" by fastforce
  note ok = forest_child_ok [OF Cons.prems(2-4), of x refs q, unfolded st fst_conv]
  have "forest_sim g fs1 q1 (path_add g 0 x p st)"
  proof -
    let ?n = "\<lparr>ep_parent = i, ep_prefix_end = (if ep_depth node < prefix then x else ep_prefix_end node),
       ep_root = ep_root node, ep_depth = ep_depth node + 1,
       ep_reference = (case refs x of None \<Rightarrow> zero_reference | Some r \<Rightarrow> r)\<rparr>"
    have "ep_depth node \<noteq> 0" using Cons.prems(3,4) by (auto simp: visited_def)
    from forest_sim_add [OF Cons.prems(6), of ?n p x] this Cons.prems(7,8) st show ?thesis
      by (auto simp: forest_child_def split: if_splits)
  qed
  moreover from Cons.prems(1) st obtain c1 where
    "forest_children i node refs prefix (k + 1) xs (fs1, q1) c1 = Inr ((fs', q'), c')"
    by (auto simp: es_bind_Inr)
  moreover have "set xs \<subseteq> set (children g i)" "x \<in> set (children g i)" using Cons.prems(5) by auto
  ultimately show ?case using Cons.IH ok Cons.prems(7,8) by simp
qed simp

lemma forest_roots_ok:
  assumes "forest_roots k rs (fs, q) c = Inr ((fs', q'), c')"
    and "forest_ok g roots prefix fs" "0 \<le> k" "rs = drop (nat k) roots" "forest_sim g fs q st"
  shows "forest_ok g roots prefix fs' \<and>
    (\<exists>st'. forest_sim g fs' q' st' \<and> path_roots g 0 k rs st Background = Inr (st', Background))"
  using assms
proof (induction k rs "(fs, q)" arbitrary: fs q c st rule: forest_roots.induct)
  case (1 k st)
  then show ?case by (auto simp: es_return_def)
next
  case (2 k r rs fs q c st)
  let ?i = "rr_object_id r"
  let ?n = "unvisited\<lparr>ep_root := k, ep_depth := 1, ep_prefix_end := ?i\<rparr>"
  let ?fs = "if takes fs ?i then fs[unat ?i := ?n] else fs" and ?q = "if takes fs ?i then q @ [?i] else q"
  have k: "nat k < length roots" "roots ! nat k = r"
    using 2(5) by (metis drop_eq_Nil leI list.discI, metis drop_eq_Nil hd_drop_conv_nth leI list.discI list.sel(1))
  have rs: "rs = drop (nat (k + 1)) roots"
    using 2(4,5) by (simp add: nat_add_distrib) (metis drop_Suc list.sel(3) tl_drop)
  from 2(2) obtain c1 where run: "forest_roots (k + 1) rs (?fs, ?q) c1 = Inr ((fs', q'), c')"
    by (auto simp: es_bind_Inr Let_def split: if_splits)
  have ok: "forest_ok g roots prefix ?fs"
    using 2(3,4) k by (auto simp: node_ok_def intro!: forest_extend)
  have sim: "forest_sim g ?fs ?q (path_add g 0 ?i \<lparr>pd_parent = 0, pd_root = k, pd_has_parent = False\<rparr> st)"
    by (rule forest_sim_add [OF 2(6)]) simp_all
  from 2(1) [OF _ run ok _ rs sim] 2(4) show ?case
    by (simp add: es_bind_def ctx_poll_def Let_def)
qed

lemma forest_sim_pop:
  "forest_sim g fs q st \<Longrightarrow> q = i # q' \<Longrightarrow> forest_sim g fs q' (st\<lparr>sr_queue := q'\<rparr>)"
  by (simp add: forest_sim_def)

lemma forest_loop_ok:
  assumes "forest_loop g prefix fs q c = Inr (fs', c')"
    and "bfs_inv g roots 0 d dn st" "forest_sim g fs q st" "forest_ok g roots prefix fs"
  shows "\<exists>d dn st. bfs_inv g roots 0 d dn st \<and> forest_sim g fs' [] st \<and> forest_ok g roots prefix fs'"
  using assms
proof (induction g prefix fs q c arbitrary: d dn st rule: forest_loop.induct)
  case (1 g prefix fs c)
  then show ?case by (auto simp: forest_loop.simps es_return_def)
next
  case (2 g prefix fs i q c)
  from 2(2) obtain fs1 q1 c1 where round: "forest_round g prefix i (fs, q) c = Inr ((fs1, q1), c1)"
    and rest: "forest_loop g prefix fs1 q1 c1 = Inr (fs', c')"
    by (auto simp: forest_loop.simps split: sum.splits)
  from round obtain refs c2 where
    ch: "forest_children i (fs ! unat i) refs prefix 0 (children g i) (fs, q) c2 = Inr ((fs1, q1), c1)"
    by (auto simp: forest_round_def es_bind_Inr)
  have q: "sr_queue st = i # q" using 2(4) by (simp add: forest_sim_def)
  have "i \<in> fst ` set (sr_seen st)"
  proof -
    have "map fst (sr_seen st) = dn @ i # q" using 2(3) q by (simp add: bfs_inv_def search_ok_def)
    then have "i \<in> set (map fst (sr_seen st))" by simp
    then show ?thesis by simp
  qed
  then have vis: "visited fs i" using forest_sim_seen [OF 2(4), of i] by (simp add: map_of_eq_None_iff)
  let ?p = "\<lparr>pd_parent = i, pd_root = pd_root (pred_of (sr_seen st) i), pd_has_parent = True\<rparr>"
  let ?st = "fold (\<lambda>c. path_add g 0 c ?p) (children g i) (st\<lparr>sr_queue := q\<rparr>)"
  have next_ok: "forest_ok g roots prefix fs1 \<and> forest_sim g fs1 q1 ?st"
    by (rule forest_children_ok [OF ch 2(5) vis refl order_refl forest_sim_pop [OF 2(4) refl]]) simp_all
  from bfs_inv_step [OF 2(3) q path_children_fold] obtain d' where
    "bfs_inv g roots 0 d' (dn @ [i]) ?st" by blast
  from 2(1) [OF round refl refl rest this conjunct2 [OF next_ok] conjunct1 [OF next_ok]] show ?case .
qed

lemma forest_start:
  "forest_ok g roots prefix (replicate (length (gr_objects g)) unvisited)"
  "forest_sim g (replicate (length (gr_objects g)) unvisited) [] \<lparr>sr_seen = [], sr_queue = [], sr_limited = False\<rparr>"
  by (auto simp: forest_ok_def forest_sim_def visited_def unvisited_def)

text \<open>Depths of the forest are one more than those of the search.\<close>

lemma forest_sim_depth:
  assumes ok: "forest_ok g roots prefix fs" and sim: "forest_sim g fs q st"
    and entries: "entries_ok g roots d (sr_seen st)"
  shows "visited fs i \<Longrightarrow> ep_depth (fs ! unat i) = Suc (d i)"
proof (induction "ep_depth (fs ! unat i)" arbitrary: i)
  case 0
  then show ?case by (simp add: visited_def)
next
  case (Suc n)
  from Suc.prems forest_sim_seen [OF sim] obtain p where p: "map_of (sr_seen st) i = Some p" by auto
  with sim have par: "pd_has_parent p \<longleftrightarrow> ep_depth (fs ! unat i) \<noteq> 1"
    "pd_has_parent p \<Longrightarrow> pd_parent p = ep_parent (fs ! unat i)"
    unfolding forest_sim_def by (auto dest!: spec [of _ i])
  note e = entries_ok_map_of [OF entries p]
  from ok Suc.prems show ?case
  proof (cases rule: forest_path_cases)
    case root
    then have np: "\<not> pd_has_parent p" using par(1) by simp
    have "d i = 0"
      by (rule e [THEN conjunct2, THEN conjunct2, unfolded if_not_P [OF np], THEN conjunct1])
    then show ?thesis using root by simp
  next
    case step
    have "n = ep_depth (fs ! unat (ep_parent (fs ! unat i)))" using Suc.hyps(2) step(5) by simp
    note ih = Suc.hyps(1) [OF this step(3)]
    have hp: "pd_has_parent p" "pd_parent p = ep_parent (fs ! unat i)" using par step(1) by simp_all
    have "d i = Suc (d (pd_parent p))"
      using e [THEN conjunct2, THEN conjunct2, unfolded if_P [OF hp(1)]] by blast
    then show ?thesis using ih step(5) hp(2) by simp
  qed
qed

lemma build_export_forest_Inr:
  assumes run: "build_export_forest g roots prefix c = Inr (fs, c')"
  shows "forest_ok g roots prefix fs"
    and "visited fs i \<longleftrightarrow> i \<in> reachable_from (Some g) roots"
    and "visited fs i \<Longrightarrow> shortest_from g roots i (forest_path fs i)"
proof -
  from run obtain fs0 q0 c0 c1 where
    rt: "forest_roots 0 roots (replicate (length (gr_objects g)) unvisited, []) c = Inr ((fs0, q0), c0)"
    and lp: "forest_loop g prefix fs0 q0 c0 = Inr (fs, c1)"
    by (auto simp: build_export_forest_def es_bind_Inr dest!: return_polled_Inr)
  from forest_roots_ok [OF rt forest_start(1) _ _ forest_start(2)] obtain st0 where
    ok0: "forest_ok g roots prefix fs0" and sim0: "forest_sim g fs0 q0 st0"
    and start: "path_roots g 0 0 roots \<lparr>sr_seen = [], sr_queue = [], sr_limited = False\<rparr> Background =
      Inr (st0, Background)" by auto
  from path_start [OF start] obtain d0 where "bfs_inv g roots 0 d0 [] st0" by (auto simp: loop_inv_def)
  from forest_loop_ok [OF lp this sim0 ok0] obtain d dn st where
    inv: "bfs_inv g roots 0 d dn st" and sim: "forest_sim g fs [] st" and ok: "forest_ok g roots prefix fs"
    by blast
  show "forest_ok g roots prefix fs" by (rule ok)
  have q: "sr_queue st = []" "\<not> sr_limited st" using sim by (simp_all add: forest_sim_def)
  note done' = bfs_complete [OF inv q]
  have seen: "visited fs i \<longleftrightarrow> i \<in> set dn" for i
    using forest_sim_seen [OF sim, of i] done'(1) by (simp add: map_of_eq_None_iff)
  have path: "graph_path g (forest_path fs i) \<and> last (forest_path fs i) = i \<and>
      hd (forest_path fs i) \<in> rr_object_id ` set roots" if "visited fs i" for i
  proof -
    have "nat (ep_root (fs ! unat i)) < length roots" using forest_path_graph [OF ok that] by linarith
    then show ?thesis using forest_path_graph [OF ok that] by auto
  qed
  show "visited fs i \<longleftrightarrow> i \<in> reachable_from (Some g) roots"
    using path [of i] path_closure [of g "forest_path fs i" roots] done'(2) seen by auto
  have entries: "entries_ok g roots d (sr_seen st)" using inv by (simp add: bfs_inv_def search_ok_def)
  show "shortest_from g roots i (forest_path fs i)" if "visited fs i"
    using path [OF that] forest_sim_depth [OF ok sim entries that] bfs_depth_le [OF inv q(1)] that
    unfolding shortest_from_def seen by auto
qed

section \<open>The samples of a path profile\<close>

lemma frame_location_samples [simp]:
  "frame_location name st = (l, st') \<Longrightarrow> pf_samples (xs_profile st') = pf_samples (xs_profile st)"
  by (auto simp: frame_location_def push_frame_def Let_def split: option.splits)

lemma frame_locations_samples:
  "frame_locations names st = (ls, st') \<Longrightarrow> pf_samples (xs_profile st') = pf_samples (xs_profile st)"
  by (induction names arbitrary: st ls) (auto split: prod.splits)

lemma append_objects_samples:
  "append_objects g fs k is (locs, st) c = Inr ((locs', st'), c') \<Longrightarrow>
    pf_samples (xs_profile st') = pf_samples (xs_profile st)"
proof (induction "is" arbitrary: k locs st c)
  case (Cons i "is")
  from Cons.prems obtain c1 where
    "append_objects g fs (k + 1) is
       (case xs_objects st ! unat i of
             Some l \<Rightarrow> (locs @ [l], st)
           | None \<Rightarrow>
               (case frame_location (object_frame_name g fs i) st of (l, st) \<Rightarrow>
                  (locs @ [l], st\<lparr>xs_objects := (xs_objects st)[unat i := Some l]\<rparr>))) c1 = Inr ((locs', st'), c')"
    by (auto simp: es_bind_Inr)
  then show ?case
    by (cases "xs_objects st ! unat i"; cases "frame_location (object_frame_name g fs i) st")
      (auto dest!: Cons.IH)
qed simp

lemma mark_omitted_samples:
  "mark_omitted n acc = (ls, st) \<Longrightarrow> pf_samples (xs_profile st) = pf_samples (xs_profile (snd acc))"
  by (cases acc) (auto simp: mark_omitted_def split: if_splits prod.splits)

lemma export_node_Inr:
  assumes run: "export_node s req ins roots fs md sl ps i st c = Inr (st', c')"
  shows "map sp_values (pf_samples (xs_profile st')) = map sp_values (pf_samples (xs_profile st)) @
      (if ep_depth (fs ! unat i) = 0 then []
       else [partition_values (partition_of ins i) 1 (ob_size (gr_objects (session_graph s) ! unat i))]) \<and>
    (ep_depth (fs ! unat i) \<noteq> 0 \<longrightarrow> i \<in> in_selected ins)"
proof (cases "ep_depth (fs ! unat i) = 0")
  case True
  then show ?thesis using run by (auto simp: export_node_def Let_def es_bind_Inr)
next
  case False
  let ?g = "session_graph s" and ?k = "partition_of ins i"
  obtain gid ref where r: "roots ! nat (ep_root (fs ! unat i)) = (gid, ref)" by fastforce
  obtain hs st1 where h: "frame_locations [''representative goroutine '' @ decimal (unat gid), root_name ref] st = (hs, st1)"
    by fastforce
  from run False r h obtain pre suf om c1 l2 st2 c2 l4 st4 c4 where sel: "i \<in> in_selected ins"
    and a1: "append_objects ?g fs 0 pre (sl # ps ! ?k # hs, st1) c1 = Inr ((l2, st2), c2)"
    and a2: "append_objects ?g fs 0 suf (mark_omitted om (l2, st2)) c2 = Inr ((l4, st4), c4)"
    and st': "st' = st4\<lparr>xs_profile := (xs_profile st4)\<lparr>pf_samples := pf_samples (xs_profile st4) @
             [\<lparr>sp_locations = rev l4, sp_values = partition_values ?k 1 (ob_size (gr_objects ?g ! unat i)),
               sp_labels = sample_labels (rq_labels req) ?g i\<rparr>]\<rparr>\<rparr>"
    unfolding export_node_def Let_def
    by (auto simp only: es_bind_Inr es_return_Inr es_fail_Inr r h prod.case if_False split: if_split_asm)
  obtain l3 st3 where m: "mark_omitted om (l2, st2) = (l3, st3)" by fastforce
  have "pf_samples (xs_profile st4) = pf_samples (xs_profile st)"
    using frame_locations_samples [OF h] append_objects_samples [OF a1] mark_omitted_samples [OF m]
      append_objects_samples [OF a2 [unfolded m]] by simp
  then show ?thesis using False sel by (simp add: st')
qed

lemma export_nodes_Inr:
  assumes "export_nodes (export_node s req ins roots fs md sl ps) is st c = Inr (st', c')"
  shows "map sp_values (pf_samples (xs_profile st')) = map sp_values (pf_samples (xs_profile st)) @
      map (\<lambda>i. partition_values (partition_of ins i) 1 (ob_size (gr_objects (session_graph s) ! unat i)))
        (filter (\<lambda>i. ep_depth (fs ! unat i) \<noteq> 0) is) \<and>
    (\<forall>i \<in> set is. ep_depth (fs ! unat i) \<noteq> 0 \<longrightarrow> i \<in> in_selected ins)"
  using assms
proof (induction "is" arbitrary: st c)
  case (Cons i "is")
  from Cons.prems obtain st1 c1 where "export_node s req ins roots fs md sl ps i st c = Inr (st1, c1)"
    "export_nodes (export_node s req ins roots fs md sl ps) is st1 c1 = Inr (st', c')"
    by (auto simp: es_bind_Inr)
  from export_node_Inr [OF this(1)] Cons.IH [OF this(2)] show ?case by simp
qed (simp add: es_return_def)

text \<open>The identifiers of a graph of at most \<open>2^32\<close> objects, in order.\<close>

lemma ids_below:
  assumes "n \<le> 2 ^ 32"
  shows "sorted (map of_nat [0..<n] :: object_id list)" "distinct (map of_nat [0..<n] :: object_id list)"
    "set (map of_nat [0..<n] :: object_id list) = {i. unat i < n}"
proof -
  have u: "unat (of_nat k :: object_id) = k" if "k < n" for k
    using that assms by (simp add: unat_of_nat take_bit_nat_eq_self)
  show "sorted (map of_nat [0..<n] :: object_id list)"
    unfolding sorted_map by (rule sorted_wrt_mono_rel [OF _ sorted_wrt_upt]) (auto simp: word_le_nat_alt u)
  show "distinct (map of_nat [0..<n] :: object_id list)"
    unfolding distinct_map by (auto intro!: inj_onI dest: arg_cong [where f = unat] simp: u)
  show "set (map of_nat [0..<n] :: object_id list) = {i. unat i < n}"
  proof (intro equalityI subsetI)
    fix i :: object_id assume "i \<in> {i. unat i < n}"
    then have "i = of_nat (unat i)" "unat i \<in> set [0..<n]" by simp_all
    then show "i \<in> set (map of_nat [0..<n])" by (metis image_eqI list.set_map)
  qed (auto simp: u)
qed

definition column_sum :: "nat \<Rightarrow> pprof_sample list \<Rightarrow> nat" where
  "column_sum k samples = sum_list (map (\<lambda>sp. unat (sp_values sp ! k)) samples)"

lemma export_paths_Inr:
  assumes run: "export_paths check quote s req md c = Inr (p, c')"
    and size_ok: "length (gr_objects (session_graph s)) \<le> 2 ^ 32"
  defines "R \<equiv> selection_reach s req" and "X \<equiv> outside_reach s (gor_id ` set (session_matching s req))"
  shows "map sp_values (pf_samples p) =
      map (\<lambda>i. partition_values (if i \<in> X then 1 else 0) 1 (ob_size (gr_objects (session_graph s) ! unat i)))
        (sorted_list_of_set R)"
    and "check p = None"
proof -
  let ?g = "session_graph s"
  obtain locs st where start: "start_export quote s req = (locs, st)" by fastforce
  from run obtain c1 ins c2 fs c3 st' c4 c5 p' c6 c7 where
    ins: "inspect s req c1 = Inr (ins, c2)"
    and fs: "build_export_forest ?g (map snd (export_roots s ins)) (md div 2) c5 = Inr (fs, c3)"
    and nodes: "export_nodes (export_node s req ins (export_roots s ins) fs md (locs ! 0) [locs ! 1, locs ! 2])
        (map of_nat [0..<length fs]) st c3 = Inr (st', c4)"
    and count: "length (pf_samples (xs_profile st')) = card (in_selected ins)"
    and last: "checked check (xs_profile st') = Inr p'" "return_polled p' c6 = Inr (p, c7)"
    unfolding export_paths_def Let_def start prod.case
    by (auto simp only: es_bind_Inr es_fail_Inr es_lift_Inr split: if_split_asm)
  have p: "p = xs_profile st'" "check p = None"
    using last(1) return_polled_Inr [OF last(2)] by (auto simp: checked_def split: option.splits)
  show "check p = None" by (rule p(2))
  note RX = inspect_Inr(1,2) [OF ins, folded R_def X_def]
  have len: "length fs = length (gr_objects ?g)"
    using build_export_forest_Inr(1) [OF fs] by (simp add: forest_ok_def)
  have "pf_samples (xs_profile st) = []"
    using frame_locations_samples [OF start [unfolded start_export_def Let_def]]
    by (simp add: new_pprof_def split: if_splits)
  let ?ids = "filter (\<lambda>i :: object_id. ep_depth (fs ! unat i) \<noteq> 0) (map of_nat [0..<length fs])"
  note nodes' = export_nodes_Inr [OF nodes, unfolded \<open>pf_samples (xs_profile st) = []\<close> list.map append_Nil]
  note below = ids_below [OF size_ok, folded len]
  have sub: "set ?ids \<subseteq> R"
    using conjunct2 [OF nodes'] unfolding RX(1) [symmetric] set_filter by blast
  have "length (pf_samples p) = length ?ids"
    using arg_cong [OF conjunct1 [OF nodes'], of length] unfolding p(1) length_map .
  then have "card (set ?ids) = card R"
    unfolding distinct_card [OF distinct_filter [OF below(2)]] using count by (simp only: RX p(1))
  with sub have "set ?ids = R" by (intro card_subset_eq finite)
  moreover have "sorted ?ids" "distinct ?ids" using below(1,2) by (auto intro: sorted_wrt_filter)
  ultimately have ids: "?ids = sorted_list_of_set R" by (metis sorted_list_of_set.idem_if_sorted_distinct)
  show "map sp_values (pf_samples p) =
      map (\<lambda>i. partition_values (if i \<in> X then 1 else 0) 1 (ob_size (gr_objects ?g ! unat i)))
        (sorted_list_of_set R)"
    using conjunct1 [OF nodes'] unfolding ids p(1) partition_of_def RX .
qed

lemma partition_columns:
  "partition_values (if b then 1 else 0) x y ! 0 = x" "partition_values (if b then 1 else 0) x y ! 1 = y"
  "partition_values (if b then 1 else 0) x y ! 2 = (if b then 0 else x)"
  "partition_values (if b then 1 else 0) x y ! 3 = (if b then 0 else y)"
  "partition_values (if b then 1 else 0) x y ! 4 = (if b then x else 0)"
  "partition_values (if b then 1 else 0) x y ! 5 = (if b then y else 0)"
  by (simp_all add: partition_values_def eval_nat_numeral)

text \<open>The columns of the samples are the totals of the reachable set and of its two parts.\<close>

lemma column_sums:
  fixes g :: graph
  assumes "map sp_values samples =
    map (\<lambda>i. partition_values (if i \<in> X then 1 else 0) 1 (ob_size (gr_objects g ! unat i))) (sorted_list_of_set R)"
  shows "column_sum 0 samples = card R" "column_sum 1 samples = set_bytes g R"
    "column_sum 2 samples = card (R - X)" "column_sum 3 samples = set_bytes g (R - X)"
    "column_sum 4 samples = card (R \<inter> X)" "column_sum 5 samples = set_bytes g (R \<inter> X)"
proof -
  let ?f = "\<lambda>j i. unat (partition_values (if i \<in> X then 1 else 0) 1 (ob_size (gr_objects g ! unat i)) ! j)"
  have sum: "column_sum j samples = sum (?f j) R" for j
  proof -
    have "column_sum j samples = sum_list (map (\<lambda>v. unat (v ! j)) (map sp_values samples))"
      by (simp add: column_sum_def comp_def)
    also have "\<dots> = sum_list (map (?f j) (sorted_list_of_set R))"
      unfolding assms by (simp add: comp_def)
    finally show ?thesis by (simp add: sum_list_distinct_conv_sum_set)
  qed
  have split: "sum (\<lambda>i. if i \<in> X then 0 else h i) R = sum h (R - X)"
    "sum (\<lambda>i. if i \<in> X then h i else 0) R = sum h (R \<inter> X)" for h :: "object_id \<Rightarrow> nat"
    by (simp_all add: sum.If_cases Diff_eq Compl_eq)
  show "column_sum 0 samples = card R" "column_sum 1 samples = set_bytes g R"
    "column_sum 2 samples = card (R - X)" "column_sum 3 samples = set_bytes g (R - X)"
    "column_sum 4 samples = card (R \<inter> X)" "column_sum 5 samples = set_bytes g (R \<inter> X)"
    unfolding sum partition_columns set_bytes_def if_distrib [where f = unat] unsigned_0 unsigned_1 split
    by simp_all
qed

end
