(* ===== verification/CaptureGate.thy ===== *)
theory CaptureGate
  imports ObjectGraph GraphPath "HOL-Library.Signed_Division"
begin

text \<open>
  The capture gate (\<open>internal/capture/gate.go\<close>): callers that capture a heap dump take a slot of
  a semaphore without waiting, and are refused during the cooldown after the last capture. The
  steps of concurrent callers interleave; each step is one channel operation or one critical
  section of the gate's mutex. Times are nanoseconds since the zero \<open>time.Time\<close>.
\<close>

section \<open>The gate and its operations\<close>

record gate_error =
  ge_retry_after :: int
  ge_cooldown :: bool

text \<open>\<open>gt_slots\<close> is the number of elements in the channel, \<open>gt_capacity\<close> its capacity.\<close>

record gate =
  gt_slots :: nat
  gt_capacity :: nat
  gt_next :: int
  gt_cooldown :: int

definition min_duration :: int where "min_duration = - (2 ^ 63)"
definition max_duration :: int where "max_duration = 2 ^ 63 - 1"

text \<open>\<open>Time.Sub\<close> saturates at the ends of \<open>Duration\<close>.\<close>

definition time_sub :: "int \<Rightarrow> int \<Rightarrow> int" where
  "time_sub t u = max min_duration (min max_duration (t - u))"

definition new_gate :: "(nat \<times> nat) option \<Rightarrow> int \<Rightarrow> gate" where
  "new_gate sem cooldown =
     (case (case sem of None \<Rightarrow> (0, 1) | Some s \<Rightarrow> s) of (slots, capacity) \<Rightarrow>
        \<lparr>gt_slots = slots, gt_capacity = capacity, gt_next = 0, gt_cooldown = cooldown\<rparr>)"

definition negative_cooldown :: go_error where
  "negative_cooldown = Errorf (Fmt ''capture cooldown must be non-negative'' [])"

definition busy_error :: gate_error where
  "busy_error = \<lparr>ge_retry_after = 0, ge_cooldown = False\<rparr>"

definition cooldown_error :: "int \<Rightarrow> gate_error" where
  "cooldown_error remaining = \<lparr>ge_retry_after = remaining, ge_cooldown = True\<rparr>"

text \<open>The send of the \<open>select\<close>, the critical section of \<open>Acquire\<close>, and the receive.\<close>

definition gate_send :: "gate \<Rightarrow> gate option" where
  "gate_send g = (if gt_slots g < gt_capacity g then Some (g\<lparr>gt_slots := gt_slots g + 1\<rparr>) else None)"

definition gate_remaining :: "int \<Rightarrow> gate \<Rightarrow> int" where
  "gate_remaining now g = time_sub (gt_next g) now"

definition gate_receive :: "gate \<Rightarrow> gate option" where
  "gate_receive g = (if gt_slots g > 0 then Some (g\<lparr>gt_slots := gt_slots g - 1\<rparr>) else None)"

definition gate_stamp :: "int \<Rightarrow> gate \<Rightarrow> gate" where
  "gate_stamp now g = g\<lparr>gt_next := now + gt_cooldown g\<rparr>"

text \<open>\<open>Acquire\<close> and the function it returns, run without interference.\<close>

definition acquire :: "int \<Rightarrow> gate \<Rightarrow> (go_error + gate_error) option \<times> gate" where
  "acquire now g =
     (if gt_cooldown g < 0 then (Some (Inl negative_cooldown), g)
      else
        case gate_send g of
          None \<Rightarrow> (Some (Inr busy_error), g)
        | Some g' \<Rightarrow>
            if gate_remaining now g' > 0
            then (Some (Inr (cooldown_error (gate_remaining now g'))), the (gate_receive g'))
            else (None, g'))"

definition release :: "int \<Rightarrow> gate \<Rightarrow> gate" where
  "release now g = the (gate_receive (gate_stamp now g))"

definition gate_message :: "gate_error \<Rightarrow> string" where
  "gate_message e =
     (if ge_cooldown e then ''capture cooldown is active''
      else ''another memusage request is already running'')"

definition gate_code :: "gate_error \<Rightarrow> string" where
  "gate_code e = (if ge_cooldown e then ''cooldown'' else ''busy'')"

definition format_int :: "int \<Rightarrow> string" where
  "format_int n = (if n < 0 then CHR ''-'' # format_nat 10 (nat (- n)) else format_nat 10 (nat n))"

definition retry_after_seconds :: "gate_error \<Rightarrow> int" where
  "retry_after_seconds e =
     (let n = ge_retry_after e sdiv 1000000000
      in if ge_retry_after e smod 1000000000 \<noteq> 0 then n + 1 else n)"

section \<open>Concurrent callers\<close>

text \<open>
  Where a caller is: before \<open>Acquire\<close>; with a slot, before the critical section; refused by the
  cooldown, before it gives the slot back; with the gate; in \<open>release\<close> between the time stamp and
  the receive; finished. \<open>wd_releases\<close> records when each release set its stamp.
\<close>

datatype caller = Outside | Sent | Refused int | Holding | Stamped | Released | Failed "go_error + gate_error"

record world =
  wd_gate :: gate
  wd_clock :: int
  wd_callers :: "caller list"
  wd_releases :: "int list"

definition set_caller :: "nat \<Rightarrow> caller \<Rightarrow> gate \<Rightarrow> world \<Rightarrow> world" where
  "set_caller k p g w = w\<lparr>wd_gate := g, wd_callers := (wd_callers w)[k := p]\<rparr>"

inductive gate_step :: "world \<Rightarrow> world \<Rightarrow> bool" where
  step_tick: "wd_clock w \<le> t \<Longrightarrow> gate_step w (w\<lparr>wd_clock := t\<rparr>)"
| step_negative: "k < length (wd_callers w) \<Longrightarrow> wd_callers w ! k = Outside \<Longrightarrow> gt_cooldown (wd_gate w) < 0 \<Longrightarrow>
    gate_step w (set_caller k (Failed (Inl negative_cooldown)) (wd_gate w) w)"
| step_busy: "k < length (wd_callers w) \<Longrightarrow> wd_callers w ! k = Outside \<Longrightarrow> gt_cooldown (wd_gate w) \<ge> 0 \<Longrightarrow>
    gate_send (wd_gate w) = None \<Longrightarrow> gate_step w (set_caller k (Failed (Inr busy_error)) (wd_gate w) w)"
| step_send: "k < length (wd_callers w) \<Longrightarrow> wd_callers w ! k = Outside \<Longrightarrow> gt_cooldown (wd_gate w) \<ge> 0 \<Longrightarrow>
    gate_send (wd_gate w) = Some g \<Longrightarrow> gate_step w (set_caller k Sent g w)"
| step_refuse: "k < length (wd_callers w) \<Longrightarrow> wd_callers w ! k = Sent \<Longrightarrow>
    r = gate_remaining (wd_clock w) (wd_gate w) \<Longrightarrow> r > 0 \<Longrightarrow>
    gate_step w (set_caller k (Refused r) (wd_gate w) w)"
| step_admit: "k < length (wd_callers w) \<Longrightarrow> wd_callers w ! k = Sent \<Longrightarrow>
    gate_remaining (wd_clock w) (wd_gate w) \<le> 0 \<Longrightarrow> gate_step w (set_caller k Holding (wd_gate w) w)"
| step_back: "k < length (wd_callers w) \<Longrightarrow> wd_callers w ! k = Refused r \<Longrightarrow>
    gate_receive (wd_gate w) = Some g \<Longrightarrow> gate_step w (set_caller k (Failed (Inr (cooldown_error r))) g w)"
| step_stamp: "k < length (wd_callers w) \<Longrightarrow> wd_callers w ! k = Holding \<Longrightarrow>
    gate_step w ((set_caller k Stamped (gate_stamp (wd_clock w) (wd_gate w)) w)
      \<lparr>wd_releases := wd_clock w # wd_releases w\<rparr>)"
| step_receive: "k < length (wd_callers w) \<Longrightarrow> wd_callers w ! k = Stamped \<Longrightarrow>
    gate_receive (wd_gate w) = Some g \<Longrightarrow> gate_step w (set_caller k Released g w)"
| step_again: "k < length (wd_callers w) \<Longrightarrow> wd_callers w ! k = Released \<Longrightarrow> gate_step w w"

inductive_cases gate_stepE: "gate_step w w'"

definition gate_reaches :: "world \<Rightarrow> world \<Rightarrow> bool" where
  "gate_reaches = gate_step\<^sup>*\<^sup>*"

definition start_world :: "nat \<Rightarrow> int \<Rightarrow> int \<Rightarrow> world" where
  "start_world n cooldown now =
     \<lparr>wd_gate = new_gate None cooldown, wd_clock = now, wd_callers = replicate n Outside, wd_releases = []\<rparr>"

section \<open>Invariant\<close>

fun has_slot :: "caller \<Rightarrow> bool" where
  "has_slot Sent = True"
| "has_slot (Refused _) = True"
| "has_slot Holding = True"
| "has_slot Stamped = True"
| "has_slot _ = False"

definition gate_inv :: "world \<Rightarrow> bool" where
  "gate_inv w \<longleftrightarrow>
     gt_slots (wd_gate w) = length (filter has_slot (wd_callers w)) \<and>
     gt_slots (wd_gate w) \<le> gt_capacity (wd_gate w) \<and>
     (gt_cooldown (wd_gate w) < 0 \<longrightarrow> gt_slots (wd_gate w) = 0) \<and>
     (\<forall>t \<in> set (wd_releases w). t \<le> wd_clock w \<and> t + gt_cooldown (wd_gate w) \<le> gt_next (wd_gate w))"

lemma filter_update:
  assumes "k < length xs"
  shows "length (filter P (xs[k := y])) + (if P (xs ! k) then 1 else 0) =
    length (filter P xs) + (if P y then 1 else 0)"
proof -
  have "filter P xs = filter P (take k xs @ xs ! k # drop (Suc k) xs)"
    using id_take_nth_drop [OF assms] by simp
  then show ?thesis using assms by (simp add: upd_conv_take_nth_drop)
qed

lemma caller_update:
  assumes "k < length xs" "xs ! k = old"
  shows "length (filter has_slot (xs[k := y])) =
    length (filter has_slot xs) + (if has_slot y then 1 else 0) - (if has_slot old then 1 else 0)"
  using filter_update [OF assms(1), of has_slot y] assms(2) by (auto split: if_splits)

lemma time_sub_pos: "time_sub t u > 0 \<longleftrightarrow> u < t"
  by (auto simp: time_sub_def min_duration_def max_duration_def)

lemma time_sub_nonpos: "time_sub t u \<le> 0 \<longleftrightarrow> t \<le> u"
  by (auto simp: time_sub_def min_duration_def max_duration_def)

lemma slot_count:
  assumes "k < length xs" "has_slot (xs ! k)"
  shows "0 < length (filter has_slot xs)"
  using assms nth_mem [OF assms(1)] by (metis filter_empty_conv length_greater_0_conv)

lemma gate_step_inv:
  assumes "gate_step w w'" "gate_inv w"
  shows "gate_inv w'"
  using assms
  by (cases rule: gate_step.cases)
    (auto simp: gate_inv_def set_caller_def caller_update gate_send_def gate_receive_def gate_stamp_def
      split: if_splits dest: slot_count)

lemma start_world_inv: "gate_inv (start_world n cooldown now)"
  by (simp add: gate_inv_def start_world_def new_gate_def)

lemma gate_reaches_inv: "gate_reaches w w' \<Longrightarrow> gate_inv w \<Longrightarrow> gate_inv w'"
  unfolding gate_reaches_def by (induction rule: rtranclp_induct) (auto intro: gate_step_inv)

lemma gate_step_const:
  "gate_step w w' \<Longrightarrow> gt_capacity (wd_gate w') = gt_capacity (wd_gate w) \<and>
    gt_cooldown (wd_gate w') = gt_cooldown (wd_gate w) \<and> length (wd_callers w') = length (wd_callers w)"
  by (cases rule: gate_step.cases)
    (auto simp: set_caller_def gate_send_def gate_receive_def gate_stamp_def split: if_splits)

lemma gate_reaches_const:
  "gate_reaches w w' \<Longrightarrow> gt_capacity (wd_gate w') = gt_capacity (wd_gate w) \<and>
    gt_cooldown (wd_gate w') = gt_cooldown (wd_gate w) \<and> length (wd_callers w') = length (wd_callers w)"
  unfolding gate_reaches_def by (induction rule: rtranclp_induct) (simp_all add: gate_step_const)

text \<open>With one slot, a caller that has it is alone.\<close>

lemma only_holder:
  assumes inv: "gate_inv w" and cap: "gt_capacity (wd_gate w) = 1"
    and jk: "j < length (wd_callers w)" "k < length (wd_callers w)" "j \<noteq> k"
    and slots: "has_slot (wd_callers w ! j)" "has_slot (wd_callers w ! k)"
  shows False
proof -
  let ?cs = "wd_callers w"
  have "card {j, k} \<le> card {i. i < length ?cs \<and> has_slot (?cs ! i)}"
    by (rule card_mono) (use jk slots in auto)
  also have "\<dots> = length (filter has_slot ?cs)" by (simp add: length_filter_conv_card)
  also have "\<dots> \<le> 1" using inv cap by (simp add: gate_inv_def)
  finally show False using jk(3) by simp
qed

text \<open>A step that gives a caller the gate is the admission of that caller.\<close>

lemma gate_step_admits:
  assumes "gate_step w w'" "wd_callers w ! k \<noteq> Holding" "wd_callers w' ! k = Holding"
    and "k < length (wd_callers w)"
  shows "wd_callers w ! k = Sent \<and> gt_next (wd_gate w) \<le> wd_clock w"
  using assms
  by (cases rule: gate_step.cases)
    (auto simp: set_caller_def gate_remaining_def time_sub_nonpos nth_list_update split: if_splits)

lemma gate_admission:
  assumes reach: "gate_reaches (start_world n cooldown now) w" and step: "gate_step w w'"
    and k: "k < length (wd_callers w)" "wd_callers w ! k \<noteq> Holding" "wd_callers w' ! k = Holding"
  shows "(\<forall>t \<in> set (wd_releases w). t + cooldown \<le> wd_clock w) \<and>
    (\<forall>j < length (wd_callers w). j \<noteq> k \<longrightarrow> \<not> has_slot (wd_callers w ! j))"
proof -
  have inv: "gate_inv w" by (rule gate_reaches_inv [OF reach start_world_inv])
  have const: "gt_capacity (wd_gate w) = 1" "gt_cooldown (wd_gate w) = cooldown"
    using gate_reaches_const [OF reach] by (simp_all add: start_world_def new_gate_def)
  note adm = gate_step_admits [OF step k(2,3,1)]
  have "\<forall>t \<in> set (wd_releases w). t + cooldown \<le> wd_clock w"
    using inv adm const(2) by (fastforce simp: gate_inv_def)
  moreover have "\<not> has_slot (wd_callers w ! j)" if "j < length (wd_callers w)" "j \<noteq> k" for j
    using only_holder [OF inv const(1) that(1) k(1) that(2)] adm by auto
  ultimately show ?thesis by blast
qed

text \<open>The receives never wait: whoever has to give a slot back finds one in the channel.\<close>

lemma receive_ready:
  assumes "gate_inv w" "k < length (wd_callers w)" "has_slot (wd_callers w ! k)"
  shows "gate_receive (wd_gate w) \<noteq> None"
  using assms slot_count [of k "wd_callers w"] by (simp add: gate_inv_def gate_receive_def)

definition finished :: "caller \<Rightarrow> bool" where
  "finished p \<longleftrightarrow> p = Released \<or> (\<exists>e. p = Failed e)"

lemma caller_can_move:
  assumes "gate_inv w" "k < length (wd_callers w)" "\<not> finished (wd_callers w ! k)"
  shows "\<exists>w'. gate_step w w' \<and> wd_callers w' ! k \<noteq> wd_callers w ! k"
proof (cases "wd_callers w ! k")
  case Outside
  have upd: "wd_callers (set_caller k p g w) ! k = p" for p g using assms(2) by (simp add: set_caller_def)
  consider "gt_cooldown (wd_gate w) < 0" | "gt_cooldown (wd_gate w) \<ge> 0" "gate_send (wd_gate w) = None"
    | g where "gt_cooldown (wd_gate w) \<ge> 0" "gate_send (wd_gate w) = Some g" by fastforce
  then show ?thesis
    using step_negative [OF assms(2) Outside] step_busy [OF assms(2) Outside] step_send [OF assms(2) Outside]
    by cases (metis Outside caller.distinct(11) upd, metis Outside caller.distinct(11) upd,
      metis Outside caller.distinct(1) upd)
next
  case Sent
  have upd: "wd_callers (set_caller k p g w) ! k = p" for p g using assms(2) by (simp add: set_caller_def)
  show ?thesis
    using step_refuse [OF assms(2) Sent refl] step_admit [OF assms(2) Sent] Sent upd
    by (cases "gate_remaining (wd_clock w) (wd_gate w) > 0") (metis caller.distinct(13), metis caller.distinct(15) not_less)
next
  case (Refused r)
  from receive_ready [OF assms(1,2)] Refused obtain g where "gate_receive (wd_gate w) = Some g" by auto
  from step_back [OF assms(2) Refused this] assms(2) Refused show ?thesis
    by (intro exI [of _ "set_caller k (Failed (Inr (cooldown_error r))) g w"]) (simp add: set_caller_def)
next
  case Holding
  from step_stamp [OF assms(2) Holding] assms(2) Holding show ?thesis
    by (intro exI [of _ "(set_caller k Stamped (gate_stamp (wd_clock w) (wd_gate w)) w)
      \<lparr>wd_releases := wd_clock w # wd_releases w\<rparr>"]) (simp add: set_caller_def)
next
  case Stamped
  from receive_ready [OF assms(1,2)] Stamped obtain g where "gate_receive (wd_gate w) = Some g" by auto
  from step_receive [OF assms(2) Stamped this] assms(2) Stamped show ?thesis
    by (intro exI [of _ "set_caller k Released g w"]) (simp add: set_caller_def)
qed (use assms(3) in \<open>simp_all add: finished_def\<close>)

section \<open>Termination\<close>

text \<open>How many moves a caller still has. Every step that moves a caller spends one of them.\<close>

fun caller_rank :: "caller \<Rightarrow> nat" where
  "caller_rank Outside = 4"
| "caller_rank Sent = 3"
| "caller_rank Holding = 2"
| "caller_rank Stamped = 1"
| "caller_rank (Refused _) = 1"
| "caller_rank _ = 0"

definition moves_left :: "world \<Rightarrow> nat" where
  "moves_left w = sum_list (map caller_rank (wd_callers w))"

lemma sum_caller_update:
  assumes "k < length xs"
  shows "sum_list (map caller_rank (xs[k := p])) + caller_rank (xs ! k) =
    sum_list (map caller_rank xs) + caller_rank p"
  using assms elem_le_sum_list [of k "map caller_rank xs"] by (simp add: map_update sum_list_update)

lemma moves_set_caller:
  assumes "k < length (wd_callers w)"
  shows "moves_left (set_caller k p g w) + caller_rank (wd_callers w ! k) = moves_left w + caller_rank p"
  using sum_caller_update [OF assms] by (simp add: moves_left_def set_caller_def)

lemma moves_releases [simp]: "moves_left (w\<lparr>wd_releases := rs\<rparr>) = moves_left w"
  by (simp add: moves_left_def)

lemma gate_step_moves:
  assumes "gate_step w w'"
  shows "wd_callers w' = wd_callers w \<or> moves_left w' < moves_left w"
  using assms
proof (cases rule: gate_step.cases)
  case (step_negative k)
  then show ?thesis using moves_set_caller [of k w "Failed (Inl negative_cooldown)" "wd_gate w"] by simp
next
  case (step_busy k)
  then show ?thesis using moves_set_caller [of k w "Failed (Inr busy_error)" "wd_gate w"] by simp
next
  case (step_send k g)
  then show ?thesis using moves_set_caller [of k w Sent g] by simp
next
  case (step_refuse k r)
  then show ?thesis using moves_set_caller [of k w "Refused r" "wd_gate w"] by simp
next
  case (step_admit k)
  then show ?thesis using moves_set_caller [of k w Holding "wd_gate w"] by simp
next
  case (step_back k r g)
  then show ?thesis using moves_set_caller [of k w "Failed (Inr (cooldown_error r))" g] by simp
next
  case (step_stamp k)
  then show ?thesis using moves_set_caller [of k w Stamped "gate_stamp (wd_clock w) (wd_gate w)"] by simp
next
  case (step_receive k g)
  then show ?thesis using moves_set_caller [of k w Released g] by simp
qed simp_all

text \<open>From every state of the gate all callers can finish: no slot is lost and nobody waits for ever.\<close>

lemma everyone_finishes:
  "gate_inv w \<Longrightarrow> \<exists>w'. gate_reaches w w' \<and> (\<forall>p \<in> set (wd_callers w'). finished p)"
proof (induction "moves_left w" arbitrary: w rule: less_induct)
  case less
  show ?case
  proof (cases "\<forall>p \<in> set (wd_callers w). finished p")
    case True
    then show ?thesis unfolding gate_reaches_def by blast
  next
    case False
    then obtain k where k: "k < length (wd_callers w)" "\<not> finished (wd_callers w ! k)"
      by (auto simp: in_set_conv_nth)
    from caller_can_move [OF less.prems k] obtain w1 where
      w1: "gate_step w w1" "wd_callers w1 ! k \<noteq> wd_callers w ! k" by blast
    then have "moves_left w1 < moves_left w" using gate_step_moves [OF w1(1)] by auto
    from less.hyps [OF this gate_step_inv [OF w1(1) less.prems]] obtain w' where
      "gate_reaches w1 w'" "\<forall>p \<in> set (wd_callers w'). finished p" by blast
    then show ?thesis using w1(1) unfolding gate_reaches_def by (meson converse_rtranclp_into_rtranclp)
  qed
qed

section \<open>Sequential use\<close>

lemma acquire_release:
  assumes "acquire now g = (None, g')"
  shows "gt_slots g' = gt_slots g + 1" "gt_slots (release t g') = gt_slots g"
    "gt_next (release t g') = t + gt_cooldown g" "gt_next g \<le> now"
  using assms
  by (auto simp: acquire_def release_def gate_send_def gate_receive_def gate_stamp_def gate_remaining_def
      time_sub_pos split: if_splits option.splits)

lemma acquire_refused: "acquire now g = (Some e, g') \<Longrightarrow> g' = g"
  by (auto simp: acquire_def gate_send_def gate_receive_def split: if_splits option.splits)

text \<open>\<open>Retry-After\<close> rounds up: waiting that long is enough, a second less is not.\<close>

lemma retry_after_rounds_up:
  assumes "0 < ge_retry_after e"
  shows "ge_retry_after e \<le> retry_after_seconds e * 1000000000"
    "(retry_after_seconds e - 1) * 1000000000 < ge_retry_after e"
proof -
  have q: "ge_retry_after e sdiv 1000000000 = ge_retry_after e div 1000000000"
    using assms by (simp add: signed_divide_int_def)
  have r: "ge_retry_after e smod 1000000000 = ge_retry_after e mod 1000000000"
    using assms by (simp add: signed_modulo_int_def)
  note m = div_mult_mod_eq [of "ge_retry_after e" 1000000000] pos_mod_bound [of 1000000000 "ge_retry_after e"]
    pos_mod_sign [of 1000000000 "ge_retry_after e"]
  have "ge_retry_after e \<le> retry_after_seconds e * 1000000000 \<and>
      (retry_after_seconds e - 1) * 1000000000 < ge_retry_after e"
  proof (cases "ge_retry_after e mod 1000000000 = 0")
    case True
    then show ?thesis unfolding retry_after_seconds_def Let_def q r using m(1) assms by simp
  next
    case False
    then have "0 < ge_retry_after e mod 1000000000" using m(3) by simp
    moreover have "retry_after_seconds e = ge_retry_after e div 1000000000 + 1"
      using False by (simp add: retry_after_seconds_def q r)
    ultimately show ?thesis using m(1,2) by (simp only: algebra_simps) linarith
  qed
  then show "ge_retry_after e \<le> retry_after_seconds e * 1000000000"
    "(retry_after_seconds e - 1) * 1000000000 < ge_retry_after e" by simp_all
qed

end
