(* ===== verification/MemBubbles.thy ===== *)
theory MemBubbles
  imports MemSessionFacts
begin

text \<open>
  The listing of exact label sets (\<open>internal/memusage/bubbles.go\<close>): the eligible goroutines of a
  snapshot grouped by the JSON text of their labels. \<open>json.Marshal\<close> of a label map is the parameter
  \<open>marshal\<close>; the groups are the entries of a map from its texts, and come out in the order of the
  texts.
\<close>

section \<open>The listing\<close>

record bubble =
  bu_labels :: label_map
  bu_count :: int

type_synonym marshal_labels = "label_map \<Rightarrow> go_error + string"

definition bubble_eligible :: "mem_options \<Rightarrow> goroutine list \<Rightarrow> u64 set" where
  "bubble_eligible opts gs =
     g_id ` set (filter (\<lambda>g. \<not> (\<not> mo_include_system opts \<and> (g_is_system g \<or> g_is_background g))) gs)"

definition count_bubble ::
  "marshal_labels \<Rightarrow> u64 set \<Rightarrow> gid_labels \<Rightarrow> goroutine \<Rightarrow> (string \<times> bubble) list \<Rightarrow>
    mem_error + (string \<times> bubble) list"
where
  "count_bubble marshal eligible labels g groups =
     (if g_id g \<notin> eligible then Inr groups
      else
        let ls = labels_at labels (g_id g) in
        if ls = [] then Inr groups
        else
          case marshal ls of
            Inl e \<Rightarrow> Inl (OtherError e)
          | Inr key \<Rightarrow>
              let group = (case map_of groups key of None \<Rightarrow> \<lparr>bu_labels = ls, bu_count = 0\<rparr> | Some b \<Rightarrow> b)
              in Inr (AList.update key (group\<lparr>bu_count := bu_count group + 1\<rparr>) groups))"

fun bubble_groups ::
  "marshal_labels \<Rightarrow> u64 set \<Rightarrow> gid_labels \<Rightarrow> goroutine list \<Rightarrow> (string \<times> bubble) list \<Rightarrow>
    mem_error + (string \<times> bubble) list"
where
  "bubble_groups marshal eligible labels [] groups = Inr groups"
| "bubble_groups marshal eligible labels (g # gs) groups =
     (case count_bubble marshal eligible labels g groups of
        Inl e \<Rightarrow> Inl e
      | Inr groups' \<Rightarrow> bubble_groups marshal eligible labels gs groups')"

definition bubble_list :: "(string \<times> bubble) list \<Rightarrow> bubble list" where
  "bubble_list groups = map (\<lambda>key. the (map_of groups key)) (sort (map fst groups))"

definition list_bubbles_from_decoded ::
  "marshal_labels \<Rightarrow> heap_snapshot option \<Rightarrow> label_result \<Rightarrow> diagnostics \<Rightarrow> mem_options \<Rightarrow>
    mem_error + bubble list"
where
  "list_bubbles_from_decoded marshal snap_opt result diag opts =
     (case snap_opt of
        None \<Rightarrow> Inl (OtherError (Errorf (Fmt ''memusage: heap snapshot is nil'' [])))
      | Some snap \<Rightarrow>
          if dg_unsupported diag then Inl (UnsupportedRuntimeError (dg_go_version diag) (dg_goarch diag))
          else
            let gs = hs_goroutines snap;
                known_ids = g_id ` set gs;
                eligible = bubble_eligible opts gs
            in case eligible_failure_error diag known_ids eligible of
                 Some e \<Rightarrow> Inl e
               | None \<Rightarrow> map_sum id bubble_list (bubble_groups marshal eligible (lr_labels_by_gid result) gs []))"

definition list_bubbles ::
  "marshal_labels \<Rightarrow> dump_source \<Rightarrow> extra_reader option \<Rightarrow> message list \<Rightarrow> mem_options \<Rightarrow>
    (mem_error, ctx, bubble list) run"
where
  "list_bubbles marshal src extra extra_warnings opts =
     es_bind (parse_and_recover src default_recover extra extra_warnings opts) (\<lambda>(snap, result, diag).
     es_lift (list_bubbles_from_decoded marshal (Some snap) result diag opts))"

section \<open>Every labelled goroutine is counted once\<close>

definition in_bubble :: "u64 set \<Rightarrow> gid_labels \<Rightarrow> goroutine \<Rightarrow> bool" where
  "in_bubble eligible labels g \<longleftrightarrow> g_id g \<in> eligible \<and> labels_at labels (g_id g) \<noteq> []"

definition has_text :: "marshal_labels \<Rightarrow> u64 set \<Rightarrow> gid_labels \<Rightarrow> string \<Rightarrow> goroutine \<Rightarrow> bool" where
  "has_text marshal eligible labels key g \<longleftrightarrow>
     in_bubble eligible labels g \<and> marshal (labels_at labels (g_id g)) = Inr key"

definition bubbles_ok ::
  "marshal_labels \<Rightarrow> u64 set \<Rightarrow> gid_labels \<Rightarrow> goroutine list \<Rightarrow> (string \<times> bubble) list \<Rightarrow> bool"
where
  "bubbles_ok marshal eligible labels pre groups \<longleftrightarrow>
     distinct (map fst groups) \<and>
     (\<forall>g \<in> set pre. in_bubble eligible labels g \<longrightarrow>
        (\<exists>key \<in> set (map fst groups). has_text marshal eligible labels key g)) \<and>
     (\<forall>key b. map_of groups key = Some b \<longrightarrow>
        bu_count b = int (length (filter (has_text marshal eligible labels key) pre)) \<and>
        (\<exists>g \<in> set pre. has_text marshal eligible labels key g \<and> bu_labels b = labels_at labels (g_id g)))"

lemma bubbles_ok_Nil [simp]: "bubbles_ok marshal eligible labels [] []"
  by (simp add: bubbles_ok_def)

lemma has_text_unique:
  "has_text marshal eligible labels k g \<Longrightarrow> has_text marshal eligible labels k' g \<longleftrightarrow> k' = k"
  by (auto simp: has_text_def)

lemma count_bubble_skip:
  "\<not> in_bubble eligible labels g \<Longrightarrow> count_bubble marshal eligible labels g groups = Inr groups"
  by (auto simp: count_bubble_def in_bubble_def Let_def)

lemma count_bubble_step:
  assumes "in_bubble eligible labels g" "count_bubble marshal eligible labels g groups = Inr groups'"
  obtains key where "has_text marshal eligible labels key g"
    "groups' = AList.update key
       (case map_of groups key of
          None \<Rightarrow> \<lparr>bu_labels = labels_at labels (g_id g), bu_count = 1\<rparr>
        | Some b \<Rightarrow> b\<lparr>bu_count := bu_count b + 1\<rparr>) groups"
  using assms
  by (auto simp: count_bubble_def in_bubble_def has_text_def Let_def split: sum.splits option.splits)

lemma no_text_None:
  assumes "bubbles_ok marshal eligible labels pre groups" "map_of groups key = None"
  shows "filter (has_text marshal eligible labels key) pre = []"
proof -
  have "\<not> has_text marshal eligible labels key g" if "g \<in> set pre" for g
  proof
    assume t: "has_text marshal eligible labels key g"
    then have "in_bubble eligible labels g" by (simp add: has_text_def)
    with assms(1) that obtain k where "k \<in> set (map fst groups)" "has_text marshal eligible labels k g"
      unfolding bubbles_ok_def by blast
    with has_text_unique [OF t] assms(2) show False by (simp add: map_of_eq_None_iff)
  qed
  then show ?thesis by (simp add: filter_empty_conv)
qed

lemma bubbles_ok_step:
  assumes ok: "bubbles_ok marshal eligible labels pre groups"
    and step: "count_bubble marshal eligible labels g groups = Inr groups'"
  shows "bubbles_ok marshal eligible labels (pre @ [g]) groups'"
proof (cases "in_bubble eligible labels g")
  case False
  then have "\<not> has_text marshal eligible labels k g" for k by (simp add: has_text_def)
  with False ok step show ?thesis by (auto simp: count_bubble_skip bubbles_ok_def)
next
  case True
  obtain key where key: "has_text marshal eligible labels key g" and upd: "groups' = AList.update key
       (case map_of groups key of
          None \<Rightarrow> \<lparr>bu_labels = labels_at labels (g_id g), bu_count = 1\<rparr>
        | Some b \<Rightarrow> b\<lparr>bu_count := bu_count b + 1\<rparr>) groups"
    by (rule count_bubble_step [OF True step])
  have keys: "set (map fst groups') = insert key (set (map fst groups))"
    by (simp add: upd AList.dom_update)
  have entries: "bu_count b = int (length (filter (has_text marshal eligible labels k) (pre @ [g]))) \<and>
      (\<exists>g' \<in> set (pre @ [g]). has_text marshal eligible labels k g' \<and> bu_labels b = labels_at labels (g_id g'))"
    if b: "map_of groups' k = Some b" for k b
  proof (cases "k = key")
    case False
    then have "map_of groups k = Some b" using b by (simp add: upd AList.update_conv')
    with ok False has_text_unique [OF key, of k] show ?thesis unfolding bubbles_ok_def by fastforce
  next
    case k: True
    show ?thesis
    proof (cases "map_of groups key")
      case None
      with b k key no_text_None [OF ok None] show ?thesis by (auto simp: upd AList.update_conv')
    next
      case (Some b0)
      with ok have "bu_count b0 = int (length (filter (has_text marshal eligible labels key) pre))"
        "\<exists>g' \<in> set pre. has_text marshal eligible labels key g' \<and> bu_labels b0 = labels_at labels (g_id g')"
        unfolding bubbles_ok_def by blast+
      with b k key Some show ?thesis by (auto simp: upd AList.update_conv')
    qed
  qed
  have "\<exists>k \<in> set (map fst groups'). has_text marshal eligible labels k g'"
    if "g' \<in> set (pre @ [g])" "in_bubble eligible labels g'" for g'
    using that ok key unfolding keys bubbles_ok_def by auto
  moreover have "distinct (map fst groups')"
    using ok by (simp add: upd bubbles_ok_def AList.distinct_update)
  ultimately show ?thesis using entries unfolding bubbles_ok_def by blast
qed

lemma bubble_groups_ok:
  assumes "bubbles_ok marshal eligible labels pre groups"
    and "bubble_groups marshal eligible labels gs groups = Inr groups'"
  shows "bubbles_ok marshal eligible labels (pre @ gs) groups'"
  using assms
proof (induction gs arbitrary: pre groups)
  case (Cons g gs)
  from Cons.prems(2) obtain g1 where g1: "count_bubble marshal eligible labels g groups = Inr g1"
    "bubble_groups marshal eligible labels gs g1 = Inr groups'" by (auto split: sum.splits)
  from Cons.IH [OF bubbles_ok_step [OF Cons.prems(1) g1(1)] g1(2)] show ?case by simp
qed simp

text \<open>The lengths of the classes of a list add up to its length.\<close>

lemma class_lengths:
  assumes "distinct ks" "\<And>x. x \<in> set xs \<Longrightarrow> \<exists>k \<in> set ks. P k x"
    and "\<And>x k k'. x \<in> set xs \<Longrightarrow> P k x \<Longrightarrow> P k' x \<Longrightarrow> k' = k"
  shows "(\<Sum>k\<leftarrow>ks. length (filter (P k) xs)) = length xs"
  using assms(2,3)
proof (induction xs)
  case (Cons x xs)
  from Cons.prems obtain k where k: "k \<in> set ks" "P k x" by (meson list.set_intros(1))
  have one: "P k' x \<longleftrightarrow> k' = k" for k' using Cons.prems(2) [of x k k'] k by auto
  have "(\<Sum>k'\<leftarrow>ks. length (filter (P k') (x # xs))) =
      (\<Sum>k'\<leftarrow>ks. (if k' = k then 1 else 0) + length (filter (P k') xs))"
    by (rule arg_cong [where f = sum_list], rule map_cong) (simp_all add: one)
  also have "\<dots> = (\<Sum>k'\<leftarrow>ks. if k' = k then 1 else 0) + (\<Sum>k'\<leftarrow>ks. length (filter (P k') xs))"
    by (rule sum_list_addf)
  also have "(\<Sum>k'\<leftarrow>ks. if k' = k then 1 else 0) = (1 :: nat)"
    using assms(1) k(1) by (simp add: sum_list_distinct_conv_sum_set)
  also have "(\<Sum>k'\<leftarrow>ks. length (filter (P k') xs)) = length xs"
    by (rule Cons.IH) (use Cons.prems in auto)
  finally show ?case by simp
qed (simp add: sum_list_0)

text \<open>Marshalling separates the label maps of a listing when equal texts mean equal maps.\<close>

definition separates :: "marshal_labels \<Rightarrow> label_map set \<Rightarrow> bool" where
  "separates marshal maps \<longleftrightarrow>
     (\<forall>a \<in> maps. \<forall>b \<in> maps. marshal a = marshal b \<longleftrightarrow> map_of a = map_of b)"

definition listed_goroutines :: "mem_options \<Rightarrow> gid_labels \<Rightarrow> goroutine list \<Rightarrow> goroutine list" where
  "listed_goroutines opts labels gs = filter (in_bubble (bubble_eligible opts gs) labels) gs"

lemma list_bubbles_Inr:
  assumes "list_bubbles_from_decoded marshal (Some snap) result diag opts = Inr bs"
  obtains groups where "bs = bubble_list groups"
    "bubbles_ok marshal (bubble_eligible opts (hs_goroutines snap)) (lr_labels_by_gid result) (hs_goroutines snap) groups"
    "\<not> dg_unsupported diag"
    "eligible_failure_error diag (g_id ` set (hs_goroutines snap)) (bubble_eligible opts (hs_goroutines snap)) = None"
proof -
  let ?e = "bubble_eligible opts (hs_goroutines snap)"
  from assms have ok: "\<not> dg_unsupported diag" "eligible_failure_error diag (g_id ` set (hs_goroutines snap)) ?e = None"
    by (auto simp: list_bubbles_from_decoded_def Let_def split: if_splits option.splits)
  with assms obtain groups where "bubble_groups marshal ?e (lr_labels_by_gid result) (hs_goroutines snap) [] = Inr groups"
    "bs = bubble_list groups"
    by (cases "bubble_groups marshal ?e (lr_labels_by_gid result) (hs_goroutines snap) []")
      (auto simp: list_bubbles_from_decoded_def Let_def)
  with ok bubble_groups_ok [OF bubbles_ok_Nil] show ?thesis by (intro that) auto
qed

lemma bubble_members:
  assumes "distinct (map fst groups)"
  shows "b \<in> set (bubble_list groups) \<longleftrightarrow> (\<exists>key. map_of groups key = Some b)"
  using assms by (force simp: bubble_list_def dest: map_of_SomeD)

lemma bubbles_partition:
  assumes run: "list_bubbles_from_decoded marshal (Some snap) result diag opts = Inr bs"
    and sep: "separates marshal (labels_at (lr_labels_by_gid result) ` g_id ` set (hs_goroutines snap))"
  defines "ls \<equiv> listed_goroutines opts (lr_labels_by_gid result) (hs_goroutines snap)"
    and "of_g \<equiv> (\<lambda>g. map_of (labels_at (lr_labels_by_gid result) (g_id g)))"
  shows "\<And>b. b \<in> set bs \<Longrightarrow>
      bu_count b = int (length (filter (\<lambda>g. of_g g = map_of (bu_labels b)) ls)) \<and> bu_count b > 0"
    and "\<And>g. g \<in> set ls \<Longrightarrow> \<exists>b \<in> set bs. map_of (bu_labels b) = of_g g"
    and "distinct (map (\<lambda>b. map_of (bu_labels b)) bs)"
    and "sum_list (map bu_count bs) = int (length ls)"
proof -
  define eligible where "eligible = bubble_eligible opts (hs_goroutines snap)"
  define labels where "labels = lr_labels_by_gid result"
  obtain groups where bs: "bs = bubble_list groups"
    and ok: "bubbles_ok marshal eligible labels (hs_goroutines snap) groups"
    by (rule list_bubbles_Inr [OF run]) (simp add: eligible_def labels_def)
  have dist: "distinct (map fst groups)" using ok by (simp add: bubbles_ok_def)
  have ls: "ls = filter (in_bubble eligible labels) (hs_goroutines snap)"
    by (simp add: ls_def listed_goroutines_def eligible_def labels_def)
  have same: "has_text marshal eligible labels key g' \<longleftrightarrow> of_g g' = of_g g"
    if "has_text marshal eligible labels key g" "g \<in> set (hs_goroutines snap)" "g' \<in> set ls" for key g g'
  proof -
    have "in_bubble eligible labels g'" "g' \<in> set (hs_goroutines snap)" using that(3) by (simp_all add: ls)
    moreover have "marshal (labels_at labels (g_id g')) = marshal (labels_at labels (g_id g)) \<longleftrightarrow> of_g g' = of_g g"
      using sep that(2) calculation(2) unfolding separates_def of_g_def labels_def by blast
    ultimately show ?thesis using that(1) by (simp add: has_text_def)
  qed
  have entry: "bu_count b = int (length (filter (\<lambda>g. of_g g = map_of (bu_labels b)) ls)) \<and>
      bu_count b = int (length (filter (has_text marshal eligible labels key) ls)) \<and> bu_count b > 0 \<and>
      (\<exists>g \<in> set ls. has_text marshal eligible labels key g \<and> map_of (bu_labels b) = of_g g)"
    if b: "map_of groups key = Some b" for key b
  proof -
    have cnt: "bu_count b = int (length (filter (has_text marshal eligible labels key) (hs_goroutines snap)))"
      using ok b unfolding bubbles_ok_def by blast
    obtain g where g: "g \<in> set (hs_goroutines snap)" "has_text marshal eligible labels key g"
      "bu_labels b = labels_at labels (g_id g)"
      using ok b unfolding bubbles_ok_def by blast
    have gls: "g \<in> set ls" using g by (simp add: ls has_text_def)
    have lab: "map_of (bu_labels b) = of_g g" by (simp add: g(3) of_g_def labels_def)
    have f1: "filter (has_text marshal eligible labels key) (hs_goroutines snap) = filter (has_text marshal eligible labels key) ls"
      unfolding ls filter_filter by (rule filter_cong) (auto simp: has_text_def)
    have f2: "filter (has_text marshal eligible labels key) ls = filter (\<lambda>g. of_g g = map_of (bu_labels b)) ls"
      by (rule filter_cong [OF refl]) (simp add: same [OF g(2,1)] lab)
    have "g \<in> set (filter (has_text marshal eligible labels key) ls)" using g(2) gls by simp
    then have "filter (has_text marshal eligible labels key) ls \<noteq> []" by (metis list.set(1) empty_iff)
    then show ?thesis using cnt f1 f2 gls g(2) lab by (metis length_greater_0_conv of_nat_0_less_iff)
  qed
  show "bu_count b = int (length (filter (\<lambda>g. of_g g = map_of (bu_labels b)) ls)) \<and> bu_count b > 0"
    if "b \<in> set bs" for b
    using that entry by (auto simp: bs bubble_members [OF dist])
  have keyed: "\<exists>key \<in> set (map fst groups). has_text marshal eligible labels key g" if "g \<in> set ls" for g
    using ok that unfolding bubbles_ok_def ls by auto
  show "\<exists>b \<in> set bs. map_of (bu_labels b) = of_g g" if g: "g \<in> set ls" for g
  proof -
    obtain key where key: "key \<in> set (map fst groups)" "has_text marshal eligible labels key g" using keyed [OF g] by blast
    then obtain b where b: "map_of groups key = Some b" by (metis image_set map_of_eq_None_iff not_Some_eq set_map)
    from entry [OF b] obtain g' where g': "g' \<in> set ls" "has_text marshal eligible labels key g'"
      "map_of (bu_labels b) = of_g g'" by blast
    have "of_g g = of_g g'" using same [OF g'(2) _ g] g'(1) key(2) by (simp add: ls)
    moreover have "b \<in> set bs" using b bubble_members [OF dist, of b] by (auto simp: bs)
    ultimately show ?thesis using g'(3) by auto
  qed
  have keys: "set (sort (map fst groups)) = set (map fst groups)" "distinct (sort (map fst groups))"
    using dist by simp_all
  have some: "map_of groups k = Some (the (map_of groups k))" if "k \<in> set (map fst groups)" for k
    using that by (metis image_set map_of_eq_None_iff option.collapse set_map)
  have inj: "k = k'" if k: "k \<in> set (map fst groups)" "k' \<in> set (map fst groups)"
    "map_of (bu_labels (the (map_of groups k))) = map_of (bu_labels (the (map_of groups k')))" for k k'
  proof -
    from entry [OF some [OF k(1)]] obtain g where g: "g \<in> set ls" "has_text marshal eligible labels k g"
      "map_of (bu_labels (the (map_of groups k))) = of_g g" by blast
    from entry [OF some [OF k(2)]] obtain g' where g': "g' \<in> set ls" "has_text marshal eligible labels k' g'"
      "map_of (bu_labels (the (map_of groups k'))) = of_g g'" by blast
    have "has_text marshal eligible labels k g'" using same [OF g(2) _ g'(1)] g(1,3) g'(3) k(3) by (simp add: ls)
    then show ?thesis using has_text_unique [OF g'(2)] by blast
  qed
  show "distinct (map (\<lambda>b. map_of (bu_labels b)) bs)"
    unfolding bs bubble_list_def map_map
    by (subst distinct_map) (use keys inj in \<open>auto simp: inj_on_def\<close>)
  have cls: "(\<Sum>k\<leftarrow>sort (map fst groups). length (filter (has_text marshal eligible labels k) ls)) = length ls"
    by (rule class_lengths [OF keys(2)]) (use keyed has_text_unique keys(1) in fastforce)+
  have count: "bu_count (the (map_of groups k)) = int (length (filter (has_text marshal eligible labels k) ls))"
    if "k \<in> set (map fst groups)" for k using entry [OF some [OF that]] by blast
  have "sum_list (map bu_count bs) =
      (\<Sum>k\<leftarrow>sort (map fst groups). int (length (filter (has_text marshal eligible labels k) ls)))"
    unfolding bs bubble_list_def map_map
    by (rule arg_cong [where f = sum_list], rule map_cong [OF refl]) (use count keys(1) in simp)
  also have "\<dots> = int (length ls)" unfolding cls [symmetric] by (simp add: o_def flip: sum_list_of_nat)
  finally show "sum_list (map bu_count bs) = int (length ls)" .
qed

end
