(* ===== verification/BundleFormat.thy ===== *)
theory BundleFormat
  imports AddrSpace
begin

text \<open>
  The parts of a capture bundle (\<open>internal/bundle\<close>: \<open>format.go\<close>, \<open>profiles.go\<close>, \<open>artifact.go\<close>,
  \<open>segreader.go\<close>): member names and metadata, the text form of addresses, the writer that bounds
  an artifact, and the reader of the saved memory segments.
\<close>

section \<open>Members and metadata\<close>

definition FormatVersion :: int where "FormatVersion = 1"
definition MetaMember :: string where "MetaMember = ''meta.json''"
definition SegmentsMember :: string where "SegmentsMember = ''rodata/segments.json''"
definition HeapDumpMember :: string where "HeapDumpMember = ''heap.dump''"
definition segmentMemberPrefix :: string where "segmentMemberPrefix = ''rodata/''"
definition segmentMemberSuffix :: string where "segmentMemberSuffix = ''.bin''"
definition HeapProfileMember :: string where "HeapProfileMember = ''profiles/heap.pb.gz''"
definition GoroutineProfileMember :: string where "GoroutineProfileMember = ''profiles/goroutine.pb.gz''"
definition DefaultMaxProfileBytes :: int where "DefaultMaxProfileBytes = 64 * 2 ^ 20"
definition DefaultMaxRodataBytes :: int where "DefaultMaxRodataBytes = 256 * 2 ^ 20"
definition DefaultMaxMetadataBytes :: int where "DefaultMaxMetadataBytes = 16 * 2 ^ 20"
definition DefaultMaxSegmentIndexBytes :: int where "DefaultMaxSegmentIndexBytes = 16 * 2 ^ 20"

definition RodataOK :: string where "RodataOK = ''ok''"
definition RodataUnavailable :: string where "RodataUnavailable = ''unavailable''"
definition RodataDisabled :: string where "RodataDisabled = ''disabled''"
definition RodataTruncated :: string where "RodataTruncated = ''truncated''"

lemmas member_names = MetaMember_def SegmentsMember_def HeapDumpMember_def segmentMemberPrefix_def
  segmentMemberSuffix_def HeapProfileMember_def GoroutineProfileMember_def

text \<open>\<open>%05d\<close>, and the name of segment \<open>i\<close>.\<close>

definition zero_padded :: "nat \<Rightarrow> nat \<Rightarrow> string" where
  "zero_padded width n =
     (let s = format_nat 10 n in replicate (width - length s) CHR ''0'' @ s)"

definition segmentMemberName :: "nat \<Rightarrow> string" where
  "segmentMemberName i = segmentMemberPrefix @ zero_padded 5 i @ segmentMemberSuffix"

definition has_prefix :: "string \<Rightarrow> string \<Rightarrow> bool" where
  "has_prefix s p = (take (length p) s = p)"

definition has_suffix :: "string \<Rightarrow> string \<Rightarrow> bool" where
  "has_suffix s p = (length p \<le> length s \<and> drop (length s - length p) s = p)"

definition is_segment_member :: "string \<Rightarrow> bool" where
  "is_segment_member name = (has_prefix name segmentMemberPrefix \<and> has_suffix name segmentMemberSuffix)"

definition profileKind :: "string \<Rightarrow> string" where
  "profileKind name =
     (if name = HeapProfileMember then ''heap''
      else if name = GoroutineProfileMember then ''goroutine'' else [])"

record profile_meta =
  pme_kind :: string
  pme_started :: string
  pme_finished :: string

record rodata_meta =
  rm_status :: string
  rm_reason :: string
  rm_segments :: int
  rm_total :: u64

record application_build =
  ab_path :: string
  ab_main_version :: string
  ab_settings :: "(string \<times> string) list"

record capture_settings =
  cst_min_free_bytes :: u64
  cst_max_heap_dump_bytes :: int
  cst_max_artifact_bytes :: int
  cst_include_heap_profile :: bool
  cst_include_goroutine_profile :: bool
  cst_gc_before :: bool
  cst_disable_rodata :: bool
  cst_max_rodata_bytes :: int

record bundle_meta =
  mt_format_version :: int
  mt_created_at :: string
  mt_producer :: string
  mt_go_version :: string
  mt_goarch :: string
  mt_ptr_size :: int
  mt_big_endian :: bool
  mt_dump_started :: string
  mt_dump_finished :: string
  mt_profiles :: "(string \<times> profile_meta) list"
  mt_application_build :: "application_build option"
  mt_capture_settings :: "capture_settings option"
  mt_rodata :: rodata_meta
  mt_warnings :: "string list"

record segment_info =
  si_member :: string
  si_addr :: u64
  si_size :: u64
  si_perms :: string
  si_path :: string

lemma padded_parse: "parse_digits 10 (replicate k CHR ''0'' @ s) 0 = parse_digits 10 s 0"
proof -
  have "digit_value CHR ''0'' = Some 0" by code_simp
  then show ?thesis by (induction k) simp_all
qed

lemma zero_padded_parse: "parse_digits 10 (zero_padded w n) 0 = Some n"
  by (simp add: zero_padded_def Let_def padded_parse parse_format_nat)

lemma segmentMemberName_inj: "segmentMemberName i = segmentMemberName j \<longleftrightarrow> i = j"
proof
  assume "segmentMemberName i = segmentMemberName j"
  then have "zero_padded 5 i = zero_padded 5 j" by (simp add: segmentMemberName_def)
  then show "i = j" by (metis option.inject zero_padded_parse)
qed simp

lemma segment_member_name: "is_segment_member (segmentMemberName i)"
  by (simp add: is_segment_member_def segmentMemberName_def has_prefix_def has_suffix_def)

lemma segment_member_not:
  "\<not> is_segment_member MetaMember" "\<not> is_segment_member SegmentsMember" "\<not> is_segment_member HeapDumpMember"
  "\<not> is_segment_member HeapProfileMember" "\<not> is_segment_member GoroutineProfileMember"
  by code_simp+

lemma profileKind_cases: "profileKind name = [] \<longleftrightarrow> name \<noteq> HeapProfileMember \<and> name \<noteq> GoroutineProfileMember"
  by (simp add: profileKind_def)

section \<open>Addresses as text\<close>

text \<open>
  \<open>HexUint64\<close> as JSON: the digits and the prefix need no escape, so \<open>json.Marshal\<close> of that string
  puts it between quotes. \<open>json.Unmarshal\<close> into a string is the parameter \<open>json_string\<close>.
\<close>

definition json_plain :: "string \<Rightarrow> string" where
  "json_plain s = CHR 0x22 # s @ [CHR 0x22]"

definition marshal_hex :: "u64 \<Rightarrow> string" where
  "marshal_hex h = json_plain (''0x'' @ format_nat 16 (unat h))"

definition unmarshal_hex :: "(string \<Rightarrow> go_error + string) \<Rightarrow> string \<Rightarrow> go_error + u64" where
  "unmarshal_hex json_string data =
     (case json_string data of
        Inl e \<Rightarrow> Inl (Wrapf (Fmt ''bundle: address must be a hex string'' []) e)
      | Inr s \<Rightarrow>
          if \<not> has_prefix s ''0x'' then Inl (Errorf (Fmt ''bundle: address %q lacks 0x prefix'' [FS s]))
          else case parse_uint 16 (drop 2 s) of
            None \<Rightarrow> Inl (Errorf (Fmt ''bundle: parse address %q: %w'' [FS s]))
          | Some v \<Rightarrow> Inr v)"

lemma hex_roundtrip:
  assumes "\<And>s. \<forall>c \<in> set s. c \<in> set ''0123456789abcdefx'' \<Longrightarrow> json_string (json_plain s) = Inr s"
  shows "unmarshal_hex json_string (marshal_hex h) = Inr h"
proof -
  have "\<forall>n \<in> set [0..<16]. digit_char n \<in> set ''0123456789abcdef''" by code_simp
  then have d: "digit_char n \<in> set ''0123456789abcdef''" if "n < 16" for n using that by simp
  have "set (format_nat 16 n) \<subseteq> set ''0123456789abcdef''" for n
  proof (induction n rule: less_induct)
    case (less n)
    show ?case
    proof (cases "n < 16")
      case True
      then show ?thesis using d [of n] by (simp add: format_nat.simps [of 16 n])
    next
      case False
      then have "n div 16 < n" "n mod 16 < 16" by simp_all
      then show ?thesis using less.IH [of "n div 16"] d [of "n mod 16"] False
        by (simp add: format_nat.simps [of 16 n])
    qed
  qed
  then have "\<forall>c \<in> set (''0x'' @ format_nat 16 (unat h)). c \<in> set ''0123456789abcdefx''" by fastforce
  from assms [OF this] show ?thesis
    by (simp add: unmarshal_hex_def marshal_hex_def has_prefix_def parse_uint_format)
qed

section \<open>The bounded writer\<close>

text \<open>
  \<open>artifactWriter\<close> over a writer \<open>w\<close>, which answers a chunk with the number of bytes it took and an
  error. While no more than \<open>aw_max\<close> bytes are written, the differences stay within \<open>int64\<close>.
\<close>

record artifact_writer =
  aw_max :: int
  aw_written :: int

type_synonym io_writer = "byte list \<Rightarrow> nat \<times> go_error option"

definition artifact_write ::
  "io_writer \<Rightarrow> byte list \<Rightarrow> artifact_writer \<Rightarrow> (nat \<times> go_error option) \<times> artifact_writer"
where
  "artifact_write w p aw =
     (if int (length p) > aw_max aw - aw_written aw then
        ((0, Some (Errorf (Fmt ''capture artifact exceeds limit %d bytes'' [FI (aw_max aw)]))), aw)
      else case w p of (n, err) \<Rightarrow> ((n, err), aw\<lparr>aw_written := aw_written aw + int n\<rparr>))"

text \<open>A run of writes through the bounded writer: the bytes that reach the writer below.\<close>

fun artifact_writes :: "(io_writer \<times> byte list) list \<Rightarrow> artifact_writer \<Rightarrow> byte list \<times> artifact_writer" where
  "artifact_writes [] aw = ([], aw)"
| "artifact_writes ((w, p) # ps) aw =
     (case artifact_write w p aw of ((n, err), aw') \<Rightarrow>
        case artifact_writes ps aw' of (bs, aw'') \<Rightarrow> (take n p @ bs, aw''))"

definition writer_ok :: "io_writer \<times> byte list \<Rightarrow> bool" where
  "writer_ok wp = (fst ((fst wp) (snd wp)) \<le> length (snd wp))"

lemma artifact_write_step:
  assumes "artifact_write w p aw = ((n, err), aw')" "writer_ok (w, p)" "aw_written aw \<le> aw_max aw"
  shows "aw_written aw' = aw_written aw + int (length (take n p))" "aw_written aw' \<le> aw_max aw'"
    "aw_max aw' = aw_max aw"
  using assms by (auto simp: artifact_write_def writer_ok_def split: if_splits prod.splits)

lemma artifact_writes_bounded:
  assumes "artifact_writes ps aw = (bs, aw')" "\<forall>wp \<in> set ps. writer_ok wp" "aw_written aw \<le> aw_max aw"
  shows "aw_written aw' = aw_written aw + int (length bs) \<and> aw_written aw' \<le> aw_max aw \<and> aw_max aw' = aw_max aw"
  using assms
proof (induction ps arbitrary: aw bs aw')
  case (Cons wp ps)
  obtain w p where wp: "wp = (w, p)" by fastforce
  obtain n err aw1 where s: "artifact_write w p aw = ((n, err), aw1)" by (metis prod.exhaust)
  obtain bs1 aw2 where r: "artifact_writes ps aw1 = (bs1, aw2)" by fastforce
  note st = artifact_write_step [OF s]
  from Cons.prems(2,3) st wp have a: "aw_written aw1 = aw_written aw + int (length (take n p))"
      "aw_written aw1 \<le> aw_max aw1" "aw_max aw1 = aw_max aw" by simp_all
  from Cons.IH [OF r _ a(2)] Cons.prems a wp s r show ?case by auto
qed simp

section \<open>Saved segments\<close>

record memory_segment =
  sg_start :: u64
  sg_end :: u64
  sg_data :: "byte list"

record segments_reader =
  sgr_segments :: "memory_segment list"

fun segment_list :: "(segment_info \<times> byte list) list \<Rightarrow> go_error + memory_segment list" where
  "segment_list [] = Inr []"
| "segment_list ((info, d) # rest) =
     (if length d \<noteq> unat (si_size info) then
        Inl (Errorf (Fmt ''bundle: segment %s has %d bytes, expected %d''
          [FS (si_member info), FI (int (length d)), FU (si_size info)]))
      else case AddUint64 (si_addr info) (si_size info) of
        (en, ok) \<Rightarrow>
          if \<not> ok then Inl (Errorf (Fmt ''bundle: segment %s range overflows'' [FS (si_member info)]))
          else if si_size info = 0 then segment_list rest
          else sum_bind (segment_list rest) (\<lambda>segs.
            Inr (\<lparr>sg_start = si_addr info, sg_end = en, sg_data = d\<rparr> # segs)))"

definition overlap_error :: "memory_segment \<Rightarrow> memory_segment \<Rightarrow> go_error" where
  "overlap_error a b = Errorf (Fmt ''bundle: segment ranges [0x%x,0x%x) and [0x%x,0x%x) overlap''
     [FU (sg_start a), FU (sg_end a), FU (sg_start b), FU (sg_end b)])"

fun segments_overlap :: "memory_segment list \<Rightarrow> go_error option" where
  "segments_overlap (a # b # segs) =
     (if sg_start b < sg_end a then Some (overlap_error a b) else segments_overlap (b # segs))"
| "segments_overlap _ = None"

definition new_segments_reader :: "segment_info list \<Rightarrow> byte list list \<Rightarrow> go_error + segments_reader" where
  "new_segments_reader infos data =
     (if length infos \<noteq> length data then
        Inl (Errorf (Fmt ''bundle: %d segment infos but %d data blocks''
          [FI (int (length infos)), FI (int (length data))]))
      else sum_bind (segment_list (zip infos data)) (\<lambda>segs.
        let segs = sort_key sg_start segs in
        case segments_overlap segs of Some e \<Rightarrow> Inl e | None \<Rightarrow> Inr \<lparr>sgr_segments = segs\<rparr>))"

definition segments_name :: string where "segments_name = ''bundle-rodata''"

definition segments_lookup :: "memory_segment list \<Rightarrow> u64 \<Rightarrow> u64 \<Rightarrow> u64 \<Rightarrow> byte list option" where
  "segments_lookup segs addr sz en =
     (let i = sort_search (length segs) (\<lambda>i. sg_start (segs ! i) > addr) in
      if i = 0 then None
      else
        let s = segs ! (i - 1) in
        if addr < sg_start s \<or> en > sg_end s then None
        else Some (take (unat (en - sg_start s) - unat (addr - sg_start s))
          (drop (unat (addr - sg_start s)) (sg_data s))))"

definition segments_read_at_addr :: "segments_reader option \<Rightarrow> addr_read" where
  "segments_read_at_addr r addr sz =
     (case r of None \<Rightarrow> None | Some sr \<Rightarrow> guarded (segments_lookup (sgr_segments sr)) addr sz)"

definition seg_covered :: "memory_segment \<Rightarrow> bool" where
  "seg_covered s \<longleftrightarrow> sg_data s \<noteq> [] \<and> unat (sg_start s) + length (sg_data s) < 2 ^ 64 \<and>
     unat (sg_end s) = unat (sg_start s) + length (sg_data s)"

lemma segment_list_Inr:
  assumes "segment_list ps = Inr segs"
  shows "segs = map (\<lambda>(info, d). \<lparr>sg_start = si_addr info, sg_end = si_addr info + si_size info, sg_data = d\<rparr>)
      (filter (\<lambda>(info, d). d \<noteq> []) ps) \<and>
    (\<forall>(info, d) \<in> set ps. unat (si_size info) = length d \<and> unat (si_addr info) + length d < 2 ^ 64)"
  using assms
proof (induction ps arbitrary: segs)
  case (Cons p ps)
  obtain info d where p: "p = (info, d)" by fastforce
  from Cons.prems p have u: "unat (si_size info) = length d" by (auto split: if_splits)
  obtain en ok where a: "AddUint64 (si_addr info) (si_size info) = (en, ok)" by fastforce
  with Cons.prems p u have ok: "ok" by (auto split: if_splits)
  then have fit: "unat (si_addr info) + length d < 2 ^ 64" "en = si_addr info + si_size info"
    using a AddUint64_value [of "si_addr info" "si_size info" en] u by simp_all
  have nil: "si_size info = 0 \<longleftrightarrow> d = []" using u by (metis length_0_conv unat_eq_zero)
  from Cons.prems p u a ok obtain segs' where segs': "segment_list ps = Inr segs'"
    and segs: "segs = (if d = [] then segs'
      else \<lparr>sg_start = si_addr info, sg_end = en, sg_data = d\<rparr> # segs')"
    by (auto simp: sum_bind_Inr nil split: if_splits)
  from Cons.IH [OF segs'] segs p u fit show ?case by simp
qed simp

lemma segments_overlap_None:
  assumes "segments_overlap segs = None" "\<forall>s \<in> set segs. sg_start s < sg_end s"
  shows "sorted_wrt (\<lambda>a b. sg_end a \<le> sg_start b) segs"
  using assms
proof (induction segs rule: segments_overlap.induct)
  case (1 a b segs)
  then have ab: "sg_end a \<le> sg_start b" and rest: "sorted_wrt (\<lambda>a b. sg_end a \<le> sg_start b) (b # segs)"
    by (simp_all split: if_splits)
  have "sg_end a \<le> sg_start c" if "c \<in> set segs" for c
  proof -
    have "sg_end b \<le> sg_start c" using rest that by simp
    moreover have "sg_start b < sg_end b" using 1(3) by simp
    ultimately show ?thesis using ab by (meson order_less_imp_le order_trans)
  qed
  then show ?case using ab rest by simp
qed simp_all

definition segments_ok :: "segments_reader \<Rightarrow> bool" where
  "segments_ok sr \<longleftrightarrow> (\<forall>s \<in> set (sgr_segments sr). seg_covered s) \<and> sorted (map sg_start (sgr_segments sr)) \<and>
     sorted_wrt (\<lambda>a b. sg_end a \<le> sg_start b) (sgr_segments sr)"

lemma seg_covered_less: "seg_covered s \<Longrightarrow> sg_start s < sg_end s"
  by (auto simp: seg_covered_def word_less_nat_alt)

lemma new_segments_reader_Inr:
  assumes "new_segments_reader infos data = Inr sr"
  shows "segments_ok sr"
    and "set (sgr_segments sr) = (\<lambda>(info, d). \<lparr>sg_start = si_addr info, sg_end = si_addr info + si_size info, sg_data = d\<rparr>) `
      {(info, d). (info, d) \<in> set (zip infos data) \<and> d \<noteq> []}"
    and "length infos = length data"
proof -
  let ?seg = "\<lambda>(info, d). \<lparr>sg_start = si_addr info, sg_end = si_addr info + si_size info, sg_data = d\<rparr>"
  from assms obtain segs where len: "length infos = length data"
    and segs: "segment_list (zip infos data) = Inr segs"
    and no: "segments_overlap (sort_key sg_start segs) = None" and sr: "sgr_segments sr = sort_key sg_start segs"
    by (auto simp: new_segments_reader_def sum_bind_Inr Let_def split: if_splits option.splits)
  show "length infos = length data" by (rule len)
  note sl = segment_list_Inr [OF segs]
  have set: "set segs = ?seg ` {(info, d). (info, d) \<in> set (zip infos data) \<and> d \<noteq> []}"
    unfolding conjunct1 [OF sl] by auto
  then show "set (sgr_segments sr) = ?seg ` {(info, d). (info, d) \<in> set (zip infos data) \<and> d \<noteq> []}"
    by (simp add: sr)
  have cov: "\<forall>s \<in> set (sgr_segments sr). seg_covered s"
  proof
    fix s assume "s \<in> set (sgr_segments sr)"
    then obtain info d where s: "s = ?seg (info, d)" "(info, d) \<in> set (zip infos data)" "d \<noteq> []"
      using set by (auto simp: sr)
    with conjunct2 [OF sl] have "unat (si_size info) = length d" "unat (si_addr info) + length d < 2 ^ 64" by auto
    then show "seg_covered s" using s by (simp add: seg_covered_def unat_add_no_carry)
  qed
  then have "sorted_wrt (\<lambda>a b. sg_end a \<le> sg_start b) (sgr_segments sr)"
    using segments_overlap_None [OF no] seg_covered_less by (simp add: sr)
  then show "segments_ok sr" using cov by (simp add: segments_ok_def sr)
qed

lemma segments_lookup_Some:
  assumes ok: "segments_ok sr" and n: "0 < n" "unat a + unat n < 2 ^ 64"
  shows "segments_lookup (sgr_segments sr) a n (a + n) = Some bs \<longleftrightarrow>
    (\<exists>s \<in> set (sgr_segments sr). unat (sg_start s) \<le> unat a \<and>
      unat a + unat n \<le> unat (sg_start s) + length (sg_data s) \<and>
      bs = take (unat n) (drop (unat a - unat (sg_start s)) (sg_data s)))"
    (is "_ \<longleftrightarrow> ?R")
proof -
  let ?segs = "sgr_segments sr" and ?j = "sort_search (length (sgr_segments sr)) (\<lambda>i. sg_start (sgr_segments sr ! i) > a)"
  have sorted: "sorted (map sg_start ?segs)" using ok by (simp add: segments_ok_def)
  note last = search_last_le [OF sorted refl, where a = a]
  have cov: "seg_covered s" if "s \<in> set ?segs" for s using ok that by (simp add: segments_ok_def)
  have end_u: "unat (a + n) = unat a + unat n" by (rule unat_add_no_carry [OF n(2)])
  have unat_n: "0 < unat n" using n(1) by (simp add: unat_gt_0 word_gt_0_no)
  have slice: "take (unat (a + n - sg_start s) - unat (a - sg_start s)) (drop (unat (a - sg_start s)) (sg_data s)) =
      take (unat n) (drop (unat a - unat (sg_start s)) (sg_data s))" if "sg_start s \<le> a" for s
  proof -
    have "sg_start s \<le> a + n" using that end_u by (simp add: word_le_nat_alt)
    then show ?thesis using that by (simp add: unat_sub word_le_nat_alt end_u)
  qed
  show ?thesis
  proof (cases "?j = 0")
    case True
    have "a < sg_start s" if "s \<in> set ?segs" for s
      using that last(3) True by (metis in_set_conv_nth zero_le)
    then have "\<not> ?R" by (fastforce simp: word_less_nat_alt)
    then show ?thesis using True by (simp add: segments_lookup_def)
  next
    case False
    let ?s = "?segs ! (?j - 1)"
    have j: "?j - 1 < length ?segs" using last(1) False by linarith
    have start: "sg_start ?s \<le> a" using last(2) [of "?j - 1"] False by simp
    have only: "s = ?s" if s: "s \<in> set ?segs" "unat (sg_start s) \<le> unat a"
      "unat a + unat n \<le> unat (sg_start s) + length (sg_data s)" for s
    proof -
      from s(1) obtain i where i: "i < length ?segs" "s = ?segs ! i" by (auto simp: in_set_conv_nth)
      have "sg_start s \<le> a" using s(2) by (simp add: word_le_nat_alt)
      then have "i < ?j" using last(3) [of i] i by (meson leD leI)
      moreover have "\<not> i < ?j - 1"
      proof
        assume "i < ?j - 1"
        with ok j i have "sg_end s \<le> sg_start ?s" by (simp add: segments_ok_def sorted_wrt_iff_nth_less)
        with start have "unat (sg_end s) \<le> unat a" by (simp add: word_le_nat_alt)
        with cov [OF s(1)] s(3) unat_n show False by (simp add: seg_covered_def)
      qed
      ultimately have "i = ?j - 1" by linarith
      then show ?thesis by (simp only: i(2))
    qed
    have mem: "?s \<in> set ?segs" using j by simp
    have fits: "a + n \<le> sg_end ?s \<longleftrightarrow> unat a + unat n \<le> unat (sg_start ?s) + length (sg_data ?s)"
      using cov [OF mem] end_u by (simp add: word_le_nat_alt seg_covered_def)
    have "segments_lookup ?segs a n (a + n) = Some bs \<longleftrightarrow>
        unat a + unat n \<le> unat (sg_start ?s) + length (sg_data ?s) \<and>
        bs = take (unat n) (drop (unat a - unat (sg_start ?s)) (sg_data ?s))"
      using False start fits slice [OF start]
      by (auto simp: segments_lookup_def Let_def not_le not_less)
    also have "\<dots> \<longleftrightarrow> ?R"
    proof
      assume "unat a + unat n \<le> unat (sg_start ?s) + length (sg_data ?s) \<and>
        bs = take (unat n) (drop (unat a - unat (sg_start ?s)) (sg_data ?s))"
      moreover have "unat (sg_start ?s) \<le> unat a" using start by (simp add: word_le_nat_alt)
      ultimately show ?R using mem by blast
    next
      assume ?R
      then obtain s where s: "s \<in> set ?segs" "unat (sg_start s) \<le> unat a"
        "unat a + unat n \<le> unat (sg_start s) + length (sg_data s)"
        "bs = take (unat n) (drop (unat a - unat (sg_start s)) (sg_data s))" by blast
      show "unat a + unat n \<le> unat (sg_start ?s) + length (sg_data ?s) \<and>
        bs = take (unat n) (drop (unat a - unat (sg_start ?s)) (sg_data ?s))"
        using s(3,4) unfolding only [OF s(1-3)] by (rule conjI)
    qed
    finally show ?thesis .
  qed
qed

text \<open>The saved segments are a reader of memory that serves exactly the saved bytes.\<close>

lemma segments_addr_reader:
  assumes "segments_ok sr"
  shows "addr_reader (segments_read_at_addr (Some sr))"
proof -
  have "length bs = unat n"
    if "0 < n" "unat a + unat n < 2 ^ 64" "segments_lookup (sgr_segments sr) a n (a + n) = Some bs" for a n bs
    using that segments_lookup_Some [OF assms that(1,2)] by auto
  then have len: "length bs = unat n" if "guarded (segments_lookup (sgr_segments sr)) a n = Some bs" for a n bs
    using that guarded_Some [of n "segments_lookup (sgr_segments sr)" a bs]
    by (cases "n = 0") (auto simp: guarded_def word_neq_0_conv)
  show ?thesis
    unfolding segments_read_at_addr_def [abs_def] option.case
  proof unfold_locales
    fix a n
    show "guarded (segments_lookup (sgr_segments sr)) a n = None" if "2 ^ 64 \<le> unat a + unat n" "0 < n"
      using that AddUint64_iff [of a n] by (auto simp: guarded_def split: prod.splits)
  qed (auto simp: guarded_def len)
qed

lemma segments_read_exact:
  assumes "segments_ok sr" "0 < n"
  shows "segments_read_at_addr (Some sr) a n = Some bs \<longleftrightarrow>
    a \<noteq> 0 \<and> (\<exists>s \<in> set (sgr_segments sr). unat (sg_start s) \<le> unat a \<and>
      unat a + unat n \<le> unat (sg_start s) + length (sg_data s) \<and>
      bs = take (unat n) (drop (unat a - unat (sg_start s)) (sg_data s)))"
proof -
  have "unat a + unat n < 2 ^ 64"
    if "s \<in> set (sgr_segments sr)" "unat a + unat n \<le> unat (sg_start s) + length (sg_data s)" for s
    using assms(1) that by (auto simp: segments_ok_def seg_covered_def)
  then show ?thesis
    using segments_lookup_Some [OF assms]
    by (auto simp: segments_read_at_addr_def guarded_Some [OF assms(2)])
qed

text \<open>Every segment that the index names is served, from wherever it lies in the list.\<close>

lemma new_segments_serve:
  assumes "new_segments_reader infos data = Inr sr" "0 < n"
  shows "segments_read_at_addr (Some sr) a n = Some bs \<longleftrightarrow>
    a \<noteq> 0 \<and> (\<exists>(info, d) \<in> set (zip infos data). unat (si_addr info) \<le> unat a \<and>
      unat a + unat n \<le> unat (si_addr info) + length d \<and>
      bs = take (unat n) (drop (unat a - unat (si_addr info)) d))"
proof -
  note sr = new_segments_reader_Inr [OF assms(1)]
  have "0 < unat n" using assms(2) by (simp add: word_less_nat_alt)
  then have "d \<noteq> []" if "unat si \<le> unat a" "unat a + unat n \<le> unat (si :: u64) + length d" for si and d :: "byte list"
    using that by auto
  then show ?thesis
    unfolding segments_read_exact [OF sr(1) assms(2)] sr(2) by (fastforce simp: image_iff)
qed

interpretation saved_segments: addr_reader
  "segments_read_at_addr (Some (case new_segments_reader infos data of Inr sr \<Rightarrow> sr | Inl _ \<Rightarrow> \<lparr>sgr_segments = []\<rparr>))"
  for infos data
proof (rule segments_addr_reader, cases "new_segments_reader infos data")
  case (Inl e)
  then show "segments_ok (case new_segments_reader infos data of Inr sr \<Rightarrow> sr | Inl _ \<Rightarrow> \<lparr>sgr_segments = []\<rparr>)"
    by (simp add: segments_ok_def)
next
  case (Inr sr)
  then show "segments_ok (case new_segments_reader infos data of Inr sr \<Rightarrow> sr | Inl _ \<Rightarrow> \<lparr>sgr_segments = []\<rparr>)"
    using new_segments_reader_Inr(1) by simp
qed

end
