(* ===== verification/BundleArchive.thy ===== *)
theory BundleArchive
  imports BundleFormat DumpParser "HOL-Library.Char_ord" "HOL-Library.List_Lexorder"
begin

text \<open>
  Reading, checking and writing capture bundles (\<open>internal/bundle\<close>: \<open>read.go\<close>, \<open>validate.go\<close>,
  \<open>write.go\<close>). A tar stream is what \<open>archive/tar\<close> makes of it: the members in order and how the
  stream ends. \<open>encoding/json\<close> on the two metadata types is a parameter, the temporary file of the
  heap dump an environment that may fail at each call.
\<close>

section \<open>Tar streams\<close>

text \<open>
  A member whose bytes cannot all be read carries the error that follows them. \<open>ts_end\<close> is the
  error of the last \<open>Next\<close> (\<open>EOF\<close> at the end marker), \<open>ts_final\<close> the bytes that call consumed,
  \<open>ts_rest\<close> and \<open>ts_rest_end\<close> what follows it.
\<close>

record tar_member =
  tm_name :: string
  tm_regular :: bool
  tm_size :: int
  tm_data :: "byte list"
  tm_error :: "go_error option"

record tar_stream =
  ts_members :: "tar_member list"
  ts_end :: go_error
  ts_final :: int
  ts_rest :: "byte list"
  ts_rest_end :: go_error

text \<open>
  The first \<open>Decode\<close> of a \<open>json.Decoder\<close>, given the bytes and the error that ends them: an error, or
  the value and the bytes after it. The second one answers \<open>EOF\<close> when only white space is left.
\<close>

type_synonym 'v json_decoder = "byte list \<Rightarrow> go_error option \<Rightarrow> go_error + 'v \<times> byte list"

definition json_blank :: "byte list \<Rightarrow> bool" where
  "json_blank rest = list_all (\<lambda>b. b = 32 \<or> b = 9 \<or> b = 10 \<or> b = 13) rest"

definition decode_single :: "'v json_decoder \<Rightarrow> tar_member \<Rightarrow> go_error + 'v" where
  "decode_single dec m =
     sum_bind (dec (tm_data m) (tm_error m)) (\<lambda>(v, rest).
       if json_blank rest \<and> tm_error m = None then Inr v
       else Inl (Errorf (Fmt ''unexpected trailing JSON'' [])))"

definition read_all :: "tar_member \<Rightarrow> go_error + byte list" where
  "read_all m = (case tm_error m of None \<Rightarrow> Inr (tm_data m) | Some e \<Rightarrow> Inl e)"

definition recognized :: "string \<Rightarrow> bool" where
  "recognized name =
     (name = MetaMember \<or> name = SegmentsMember \<or> name = HeapDumpMember \<or> is_segment_member name \<or>
      profileKind name \<noteq> [])"

section \<open>Opening\<close>

record reader_options =
  rdo_max_profile :: int
  rdo_max_rodata :: int
  rdo_max_metadata :: int
  rdo_max_index :: int

record capture_bundle =
  bun_meta :: bundle_meta
  bun_profiles :: "(string \<times> byte list) list"
  bun_dump_path :: string
  bun_segments :: "segments_reader option"
  bun_warnings :: "string list"

text \<open>
  The disk is the temporary files that exist. One temporary file is made at most, so the
  environment fixes the outcome of each call on it: \<open>CreateTemp\<close> with the name it chooses, the
  copy, \<open>Close\<close> and \<open>Remove\<close>.
\<close>

type_synonym disk = "string \<Rightarrow> byte list option"

record temp_env =
  te_create :: "go_error + string"
  te_copy_error :: "go_error option"
  te_close_error :: "go_error option"
  te_remove_error :: "go_error option"

definition ErrNotExist :: go_error where
  "ErrNotExist = Errorf (Fmt ''file does not exist'' [])"

definition os_remove :: "temp_env \<Rightarrow> string \<Rightarrow> disk \<Rightarrow> go_error option \<times> disk" where
  "os_remove env path d =
     (if d path = None then (Some ErrNotExist, d)
      else case te_remove_error env of
        Some e \<Rightarrow> (Some e, d)
      | None \<Rightarrow> (None, d(path := None)))"

record open_state =
  op_profiles :: "(string \<times> byte list) list"
  op_profile_bytes :: int
  op_seen :: "string set"
  op_rodata_bytes :: int
  op_meta :: "bundle_meta option"
  op_infos :: "segment_info list"
  op_segments :: "(string \<times> byte list) list"
  op_path :: string
  op_dump_present :: bool

definition open_start :: open_state where
  "open_start = \<lparr>op_profiles = [], op_profile_bytes = 0, op_seen = {}, op_rodata_bytes = 0,
     op_meta = None, op_infos = [], op_segments = [], op_path = [], op_dump_present = False\<rparr>"

definition cleanup_dump :: "temp_env \<Rightarrow> open_state \<Rightarrow> disk \<Rightarrow> disk" where
  "cleanup_dump env st d = (if op_path st \<noteq> [] then snd (os_remove env (op_path st) d) else d)"

type_synonym 'a disk_result = "(go_error + 'a) \<times> disk"

definition abort :: "temp_env \<Rightarrow> open_state \<Rightarrow> disk \<Rightarrow> go_error \<Rightarrow> 'a disk_result" where
  "abort env st d e = (Inl e, cleanup_dump env st d)"

definition default_limit :: "int \<Rightarrow> int \<Rightarrow> int" where
  "default_limit n fallback = (if n = 0 then fallback else n)"

definition effective_limits :: "reader_options \<Rightarrow> reader_options" where
  "effective_limits opts =
     \<lparr>rdo_max_profile = default_limit (rdo_max_profile opts) DefaultMaxProfileBytes,
      rdo_max_rodata = default_limit (rdo_max_rodata opts) DefaultMaxRodataBytes,
      rdo_max_metadata = default_limit (rdo_max_metadata opts) DefaultMaxMetadataBytes,
      rdo_max_index = default_limit (rdo_max_index opts) DefaultMaxSegmentIndexBytes\<rparr>"

definition member_limit :: "reader_options \<Rightarrow> open_state \<Rightarrow> string \<Rightarrow> int" where
  "member_limit opts st name =
     (if name = MetaMember then rdo_max_metadata opts
      else if name = SegmentsMember then rdo_max_index opts
      else if profileKind name \<noteq> [] then rdo_max_profile opts - op_profile_bytes st
      else if is_segment_member name then rdo_max_rodata opts - op_rodata_bytes st
      else 0)"

text \<open>The checks of a recognized member, with the running totals.\<close>

definition admit_member :: "reader_options \<Rightarrow> tar_member \<Rightarrow> open_state \<Rightarrow> go_error + open_state" where
  "admit_member opts m st =
     (let name = tm_name m; limit = member_limit opts st name in
      if \<not> recognized name then Inr st
      else if \<not> tm_regular m then Inl (Errorf (Fmt ''bundle: %s is not a regular member'' [FS name]))
      else if name \<in> op_seen st then Inl (Errorf (Fmt ''bundle: duplicate %s member'' [FS name]))
      else if name \<noteq> HeapDumpMember \<and> (tm_size m > limit \<or> tm_size m < 0) then
        Inl (Errorf (Fmt ''bundle: %s size %d exceeds limit %d or platform allocation bound''
          [FS name, FI (tm_size m), FI limit]))
      else Inr (st\<lparr>op_seen := insert name (op_seen st),
        op_profile_bytes := op_profile_bytes st + (if profileKind name \<noteq> [] then tm_size m else 0),
        op_rodata_bytes := op_rodata_bytes st + (if is_segment_member name then tm_size m else 0)\<rparr>))"

text \<open>\<open>errors.Join\<close> of the two errors of the extraction, as the one that is reported first.\<close>

definition join_errors :: "go_error option \<Rightarrow> go_error option \<Rightarrow> go_error option" where
  "join_errors a b = (case a of None \<Rightarrow> b | Some _ \<Rightarrow> a)"

definition extract_dump :: "temp_env \<Rightarrow> tar_member \<Rightarrow> open_state \<Rightarrow> disk \<Rightarrow> open_state disk_result" where
  "extract_dump env m st d =
     (case te_create env of
        Inl e \<Rightarrow> (Inl (Wrapf (Fmt ''bundle: create heap dump temp file'' []) e), d)
      | Inr path \<Rightarrow>
          let st = st\<lparr>op_path := path\<rparr>; d = d(path \<mapsto> tm_data m);
              copy_error = join_errors (tm_error m) (te_copy_error env) in
          case join_errors copy_error (te_close_error env) of
            Some e \<Rightarrow> abort env st d (Wrapf (Fmt ''bundle: extract %s'' [FS HeapDumpMember]) e)
          | None \<Rightarrow> (Inr (st\<lparr>op_dump_present := True\<rparr>), d))"

definition open_member ::
  "temp_env \<Rightarrow> bundle_meta json_decoder \<Rightarrow> segment_info list json_decoder \<Rightarrow> reader_options \<Rightarrow> tar_member \<Rightarrow>
    open_state \<Rightarrow> disk \<Rightarrow> open_state disk_result"
where
  "open_member env dec_meta dec_infos opts m st d =
     (let name = tm_name m in
      case admit_member opts m st of
        Inl e \<Rightarrow> abort env st d e
      | Inr st \<Rightarrow>
          if name = MetaMember then
            (case decode_single dec_meta m of
               Inl e \<Rightarrow> abort env st d (Wrapf (Fmt ''bundle: parse %s'' [FS MetaMember]) e)
             | Inr mt \<Rightarrow> (Inr (st\<lparr>op_meta := Some mt\<rparr>), d))
          else if name = SegmentsMember then
            (case decode_single dec_infos m of
               Inl e \<Rightarrow> abort env st d (Wrapf (Fmt ''bundle: parse %s'' [FS SegmentsMember]) e)
             | Inr infos \<Rightarrow> (Inr (st\<lparr>op_infos := infos\<rparr>), d))
          else if name = HeapDumpMember then extract_dump env m st d
          else if profileKind name \<noteq> [] then
            (case read_all m of
               Inl e \<Rightarrow> abort env st d (Wrapf (Fmt ''bundle: read profile'' []) e)
             | Inr data \<Rightarrow> (Inr (st\<lparr>op_profiles := AList.update name data (op_profiles st)\<rparr>), d))
          else if is_segment_member name then
            (case read_all m of
               Inl e \<Rightarrow> abort env st d (Wrapf (Fmt ''bundle: read %s'' [FS name]) e)
             | Inr data \<Rightarrow> (Inr (st\<lparr>op_segments := AList.update name data (op_segments st)\<rparr>), d))
          else (Inr st, d))"

fun open_members ::
  "(tar_member \<Rightarrow> open_state \<Rightarrow> disk \<Rightarrow> open_state disk_result) \<Rightarrow> tar_member list \<Rightarrow> open_state \<Rightarrow> disk \<Rightarrow>
    open_state disk_result"
where
  "open_members step [] st d = (Inr st, d)"
| "open_members step (m # ms) st d =
     (case step m st d of
        (Inl e, d') \<Rightarrow> (Inl e, d')
      | (Inr st', d') \<Rightarrow> open_members step ms st' d')"

fun segment_blocks :: "(string \<times> byte list) list \<Rightarrow> segment_info list \<Rightarrow> go_error + byte list list" where
  "segment_blocks segs [] = Inr []"
| "segment_blocks segs (info # infos) =
     (case map_of segs (si_member info) of
        None \<Rightarrow> Inl (Errorf (Fmt ''bundle: %s references missing member %s'' [FS SegmentsMember, FS (si_member info)]))
      | Some data \<Rightarrow> sum_bind (segment_blocks segs infos) (\<lambda>ds. Inr (data # ds)))"

definition open_segments :: "open_state \<Rightarrow> go_error + segments_reader option" where
  "open_segments st =
     (if op_infos st = [] then Inr None
      else sum_bind (segment_blocks (op_segments st) (op_infos st)) (\<lambda>data.
        map_sum id Some (new_segments_reader (op_infos st) data)))"

definition rodata_warning :: "string \<Rightarrow> string \<Rightarrow> string" where
  "rodata_warning prefix reason =
     (if reason \<noteq> [] then prefix @ '': '' @ reason else prefix) @
     ''; literal pprof label strings may be unrecoverable''"

definition open_warnings :: "rodata_meta \<Rightarrow> segments_reader option \<Rightarrow> string list" where
  "open_warnings ro segs =
     (if rm_status ro = RodataOK then
        (if segs = None
         then [rodata_warning ''process memory reader unavailable'' ''bundle contains no rodata segments'']
         else [])
      else if rm_status ro = RodataDisabled then
        [''process memory reader disabled by options; literal pprof label strings may be unrecoverable'']
      else if rm_status ro = RodataTruncated then [rodata_warning ''rodata snapshot truncated'' (rm_reason ro)]
      else [rodata_warning ''process memory reader unavailable'' (rm_reason ro)])"

definition open_finish :: "temp_env \<Rightarrow> open_state \<Rightarrow> disk \<Rightarrow> capture_bundle disk_result" where
  "open_finish env st d =
     (case op_meta st of
        None \<Rightarrow> abort env st d (Errorf (Fmt ''bundle: missing %s member'' [FS MetaMember]))
      | Some mt \<Rightarrow>
          if mt_format_version mt \<le> 0 then
            abort env st d (Errorf (Fmt ''bundle: missing or invalid format_version'' []))
          else if mt_format_version mt > FormatVersion then
            abort env st d (Errorf (Fmt ''bundle: format version %d is newer than this bubblepprof (supports up to %d)''
              [FI (mt_format_version mt), FI FormatVersion]))
          else if \<not> op_dump_present st then
            abort env st d (Errorf (Fmt ''bundle: missing %s member'' [FS HeapDumpMember]))
          else
            case open_segments st of
              Inl e \<Rightarrow> abort env st d e
            | Inr segs \<Rightarrow>
                (Inr \<lparr>bun_meta = mt, bun_profiles = op_profiles st, bun_dump_path = op_path st,
                   bun_segments = segs, bun_warnings = mt_warnings mt @ open_warnings (mt_rodata mt) segs\<rparr>, d))"

definition bundle_open ::
  "temp_env \<Rightarrow> bundle_meta json_decoder \<Rightarrow> segment_info list json_decoder \<Rightarrow> reader_options \<Rightarrow> tar_stream \<Rightarrow>
    disk \<Rightarrow> capture_bundle disk_result"
where
  "bundle_open env dec_meta dec_infos opts ts d =
     (if rdo_max_profile opts < 0 \<or> rdo_max_rodata opts < 0 \<or> rdo_max_metadata opts < 0 \<or> rdo_max_index opts < 0 then
        (Inl (Errorf (Fmt ''bundle: reader limits must be non-negative'' [])), d)
      else
        case open_members (open_member env dec_meta dec_infos (effective_limits opts)) (ts_members ts) open_start d of
          (Inl e, d') \<Rightarrow> (Inl e, d')
        | (Inr st, d') \<Rightarrow>
            if ts_end ts \<noteq> EOF then abort env st d' (Wrapf (Fmt ''bundle: read tar'' []) (ts_end ts))
            else open_finish env st d')"

definition bundle_close :: "temp_env \<Rightarrow> capture_bundle option \<Rightarrow> disk \<Rightarrow> go_error option \<times> capture_bundle option \<times> disk" where
  "bundle_close env b d =
     (case b of
        None \<Rightarrow> (None, None, d)
      | Some bu \<Rightarrow>
          if bun_dump_path bu = [] then (None, b, d)
          else
            case os_remove env (bun_dump_path bu) d of
              (err, d') \<Rightarrow> (if err = Some ErrNotExist then None else err, Some (bu\<lparr>bun_dump_path := []\<rparr>), d'))"

section \<open>Checking without extracting\<close>

record archive_check =
  ac_seen :: "string set"
  ac_sizes :: "(string \<times> u64) list"
  ac_meta :: bundle_meta
  ac_infos :: "segment_info list"
  ac_total :: u64

definition no_rodata :: rodata_meta where
  "no_rodata = \<lparr>rm_status = [], rm_reason = [], rm_segments = 0, rm_total = 0\<rparr>"

definition zero_meta :: bundle_meta where
  "zero_meta = \<lparr>mt_format_version = 0, mt_created_at = [], mt_producer = [], mt_go_version = [],
     mt_goarch = [], mt_ptr_size = 0, mt_big_endian = False, mt_dump_started = [], mt_dump_finished = [],
     mt_profiles = [], mt_application_build = None, mt_capture_settings = None, mt_rodata = no_rodata,
     mt_warnings = []\<rparr>"

definition check_start :: archive_check where
  "check_start = \<lparr>ac_seen = {}, ac_sizes = [], ac_meta = zero_meta, ac_infos = [], ac_total = 0\<rparr>"

definition admit_known :: "tar_member \<Rightarrow> archive_check \<Rightarrow> go_error + archive_check" where
  "admit_known m ac =
     (let name = tm_name m in
      if \<not> recognized name then Inr ac
      else if \<not> tm_regular m then Inl (Errorf (Fmt ''bundle: %s is not a regular member'' [FS name]))
      else if name \<in> ac_seen ac then Inl (Errorf (Fmt ''bundle: duplicate %s member'' [FS name]))
      else Inr (ac\<lparr>ac_seen := insert name (ac_seen ac)\<rparr>))"

text \<open>A metadata member: its size, the value, and the check that nothing but white space follows.\<close>

definition check_json :: "'v json_decoder \<Rightarrow> int \<Rightarrow> tar_member \<Rightarrow> go_error + 'v" where
  "check_json dec limit m =
     (if tm_size m > limit then
        Inl (Errorf (Fmt ''bundle: %s metadata size exceeds limit'' [FS (tm_name m)]))
      else case dec (tm_data m) (tm_error m) of
        Inl e \<Rightarrow> Inl (Wrapf (Fmt ''bundle: invalid %s'' [FS (tm_name m)]) e)
      | Inr (v, rest) \<Rightarrow>
          if json_blank rest \<and> tm_error m = None then Inr v
          else Inl (Errorf (Fmt ''bundle: trailing JSON in %s'' [FS (tm_name m)])))"

text \<open>\<open>io.ReadFull\<close> of the signature and its comparison.\<close>

definition check_heap_header :: "tar_member \<Rightarrow> go_error option" where
  "check_heap_header m =
     (let want = bytes_of_string (Header @ [CHR 0x0A]) in
      if length (tm_data m) < length want then
        Some (Wrapf (Fmt ''bundle: truncated heap header'' [])
          (case tm_error m of Some e \<Rightarrow> e | None \<Rightarrow> if tm_data m = [] then EOF else UnexpectedEOF))
      else if take (length want) (tm_data m) \<noteq> want then
        Some (Errorf (Fmt ''bundle: unsupported heap dump signature'' []))
      else None)"

definition check_member ::
  "bundle_meta json_decoder \<Rightarrow> segment_info list json_decoder \<Rightarrow> tar_member \<Rightarrow> archive_check \<Rightarrow>
    go_error + archive_check"
where
  "check_member dec_meta dec_infos m ac =
     (let name = tm_name m in
      sum_bind (admit_known m ac) (\<lambda>ac.
      sum_bind
        (if name = MetaMember then
           map_sum id (\<lambda>mt. ac\<lparr>ac_meta := mt\<rparr>) (check_json dec_meta DefaultMaxMetadataBytes m)
         else if name = SegmentsMember then
           map_sum id (\<lambda>infos. ac\<lparr>ac_infos := infos\<rparr>) (check_json dec_infos DefaultMaxSegmentIndexBytes m)
         else if name = HeapDumpMember then
           (case check_heap_header m of Some e \<Rightarrow> Inl e | None \<Rightarrow> Inr ac)
         else if is_segment_member name then
           let sz = of_int (tm_size m) in
           if ac_total ac > max_uint64 - sz then Inl (Errorf (Fmt ''bundle: segment size total overflows'' []))
           else Inr (ac\<lparr>ac_total := ac_total ac + sz, ac_sizes := AList.update name sz (ac_sizes ac)\<rparr>)
         else Inr ac) (\<lambda>ac.
      case tm_error m of
        Some e \<Rightarrow> Inl (Wrapf (Fmt ''bundle: truncated %s'' [FS name]) e)
      | None \<Rightarrow> Inr ac)))"

fun check_members :: "(tar_member \<Rightarrow> archive_check \<Rightarrow> go_error + archive_check) \<Rightarrow> tar_member list \<Rightarrow> archive_check \<Rightarrow>
    go_error + archive_check"
where
  "check_members step [] ac = Inr ac"
| "check_members step (m # ms) ac = sum_bind (step m ac) (check_members step ms)"

fun check_index :: "(string \<times> u64) list \<Rightarrow> segment_info list \<Rightarrow> string set \<Rightarrow> go_error option" where
  "check_index sizes [] indexed = None"
| "check_index sizes (info # infos) indexed =
     (if map_of sizes (si_member info) \<noteq> Some (si_size info) \<or> si_member info \<in> indexed then
        Some (Errorf (Fmt ''bundle: invalid segment index member %q'' [FS (si_member info)]))
      else if si_addr info > max_uint64 - si_size info then
        Some (Errorf (Fmt ''bundle: segment address overflows'' []))
      else check_index sizes infos (insert (si_member info) indexed))"

text \<open>The bytes after the end marker: zeros, and a stream that ends without an error.\<close>

definition check_padding :: "tar_stream \<Rightarrow> go_error option" where
  "check_padding ts =
     (if \<not> list_all (\<lambda>b. b = 0) (ts_rest ts) then
        Some (Errorf (Fmt ''bundle: unexpected data after tar end marker'' []))
      else if ts_rest_end ts \<noteq> EOF then Some (ts_rest_end ts)
      else None)"

definition check_finish :: "tar_stream \<Rightarrow> archive_check \<Rightarrow> go_error option" where
  "check_finish ts ac =
     (if MetaMember \<notin> ac_seen ac \<or> HeapDumpMember \<notin> ac_seen ac then
        Some (Errorf (Fmt ''bundle: missing metadata or heap dump'' []))
      else if mt_format_version (ac_meta ac) < 1 \<or> mt_format_version (ac_meta ac) > FormatVersion then
        Some (Errorf (Fmt ''bundle: unsupported format version %d'' [FI (mt_format_version (ac_meta ac))]))
      else if length (ac_sizes ac) \<noteq> length (ac_infos ac) \<or>
          rm_segments (mt_rodata (ac_meta ac)) \<noteq> int (length (ac_sizes ac)) \<or>
          rm_total (mt_rodata (ac_meta ac)) \<noteq> ac_total ac then
        Some (Errorf (Fmt ''bundle: segment metadata mismatch'' []))
      else case check_index (ac_sizes ac) (ac_infos ac) {} of
        Some e \<Rightarrow> Some e
      | None \<Rightarrow> check_padding ts)"

definition ValidateArchive ::
  "bundle_meta json_decoder \<Rightarrow> segment_info list json_decoder \<Rightarrow> tar_stream \<Rightarrow> go_error option"
where
  "ValidateArchive dec_meta dec_infos ts =
     (case check_members (check_member dec_meta dec_infos) (ts_members ts) check_start of
        Inl e \<Rightarrow> Some e
      | Inr ac \<Rightarrow>
          if ts_end ts \<noteq> EOF then Some (Wrapf (Fmt ''bundle: invalid tar'' []) (ts_end ts))
          else if ts_final ts < 1024 then
            Some (Errorf (Fmt ''bundle: missing complete tar end marker'' []))
          else check_finish ts ac)"

section \<open>Writing\<close>

text \<open>A segment to write: \<open>wsg_data\<close> and then \<open>wsg_end\<close> is what its reader yields.\<close>

record write_segment =
  wsg_addr :: u64
  wsg_size :: u64
  wsg_perms :: string
  wsg_path :: string
  wsg_data :: "byte list"
  wsg_end :: go_error

record write_input =
  win_meta :: bundle_meta
  win_segments :: "write_segment list"
  win_dump :: "byte list"
  win_dump_end :: go_error
  win_dump_size :: i64
  win_profiles :: "(string \<times> byte list) list"

text \<open>
  The tar writer: the members so far, and how many calls were made. The stream below it may refuse
  any call: \<open>fails n\<close> is the error of call \<open>n\<close>.
\<close>

record tar_writer =
  tw_members :: "tar_member list"
  tw_calls :: nat

type_synonym tar_faults = "nat \<Rightarrow> go_error option"

definition tar_call :: "tar_faults \<Rightarrow> (tar_writer, unit) es" where
  "tar_call fails tw =
     (case fails (tw_calls tw) of Some e \<Rightarrow> Inl e | None \<Rightarrow> Inr ((), tw\<lparr>tw_calls := tw_calls tw + 1\<rparr>))"

definition negative_size :: go_error where
  "negative_size = Errorf (Fmt ''archive/tar: negative size'' [])"

definition write_header :: "tar_faults \<Rightarrow> string \<Rightarrow> int \<Rightarrow> (tar_writer, unit) es" where
  "write_header fails name sz =
     es_wrap_msg (Fmt ''bundle: write %s header'' [FS name])
       (if sz < 0 then es_fail negative_size
        else es_bind (tar_call fails) (\<lambda>_. es_update (\<lambda>tw. tw\<lparr>tw_members := tw_members tw @
          [\<lparr>tm_name = name, tm_regular = True, tm_size = sz, tm_data = [], tm_error = None\<rparr>]\<rparr>)))"

definition append_data :: "byte list \<Rightarrow> tar_writer \<Rightarrow> tar_writer" where
  "append_data bs tw =
     tw\<lparr>tw_members := butlast (tw_members tw) @ [(last (tw_members tw))\<lparr>tm_data := tm_data (last (tw_members tw)) @ bs\<rparr>]\<rparr>"

definition write_data :: "tar_faults \<Rightarrow> string \<Rightarrow> byte list \<Rightarrow> (tar_writer, unit) es" where
  "write_data fails name bs =
     es_wrap_msg (Fmt ''bundle: write %s'' [FS name])
       (es_bind (tar_call fails) (\<lambda>_. es_update (append_data bs)))"

definition write_member :: "tar_faults \<Rightarrow> string \<Rightarrow> byte list \<Rightarrow> (tar_writer, unit) es" where
  "write_member fails name contents =
     es_bind (write_header fails name (int (length contents))) (\<lambda>_. write_data fails name contents)"

text \<open>\<open>io.CopyN\<close>: the first bytes of a reader, an error when it has fewer.\<close>

definition copy_n :: "tar_faults \<Rightarrow> string \<Rightarrow> byte list \<Rightarrow> go_error \<Rightarrow> int \<Rightarrow> (tar_writer, unit) es" where
  "copy_n fails name bs end_error n =
     es_bind (write_data fails name (take (nat n) bs)) (\<lambda>_.
     if int (length bs) < n then es_fail (Wrapf (Fmt ''bundle: write %s'' [FS name]) end_error) else es_return ())"

definition segment_total :: "write_segment list \<Rightarrow> u64" where
  "segment_total segs = fold (\<lambda>s acc. acc + wsg_size s) segs 0"

definition filled_meta :: "string \<Rightarrow> write_input \<Rightarrow> bundle_meta" where
  "filled_meta now inp =
     (let mt = win_meta inp in
      mt\<lparr>mt_format_version := FormatVersion,
         mt_created_at := (if mt_created_at mt = [] then now else mt_created_at mt),
         mt_rodata := (mt_rodata mt)\<lparr>rm_segments := int (length (win_segments inp)),
           rm_total := segment_total (win_segments inp)\<rparr>\<rparr>)"

definition no_profile_meta :: profile_meta where
  "no_profile_meta = \<lparr>pme_kind = [], pme_started = [], pme_finished = []\<rparr>"

definition with_kind :: "string \<Rightarrow> (string \<times> profile_meta) list \<Rightarrow> (string \<times> profile_meta) list" where
  "with_kind name profiles =
     AList.update name
       ((case map_of profiles name of None \<Rightarrow> no_profile_meta | Some pm \<Rightarrow> pm)\<lparr>pme_kind := profileKind name\<rparr>)
       profiles"

definition profile_names :: "write_input \<Rightarrow> string list" where
  "profile_names inp = sort (map fst (win_profiles inp))"

definition written_meta :: "string \<Rightarrow> write_input \<Rightarrow> bundle_meta" where
  "written_meta now inp =
     (let mt = filled_meta now inp in
      if profile_names inp \<noteq> [] then mt\<lparr>mt_profiles := fold with_kind (profile_names inp) (mt_profiles mt)\<rparr>
      else mt)"

definition segment_info_of :: "nat \<times> write_segment \<Rightarrow> segment_info" where
  "segment_info_of ks =
     (case ks of (k, s) \<Rightarrow>
        \<lparr>si_member = segmentMemberName k, si_addr = wsg_addr s, si_size = wsg_size s,
         si_perms = wsg_perms s, si_path = wsg_path s\<rparr>)"

definition write_one_segment :: "tar_faults \<Rightarrow> nat \<times> write_segment \<Rightarrow> (tar_writer, unit) es" where
  "write_one_segment fails ks =
     (case ks of (k, s) \<Rightarrow>
        es_bind (write_header fails (segmentMemberName k) (sint (wsg_size s))) (\<lambda>_.
        copy_n fails (segmentMemberName k) (wsg_data s) (wsg_end s) (sint (wsg_size s))))"

definition write_bundle ::
  "tar_faults \<Rightarrow> (bundle_meta \<Rightarrow> go_error + byte list) \<Rightarrow> (segment_info list \<Rightarrow> go_error + byte list) \<Rightarrow> string \<Rightarrow>
    write_input \<Rightarrow> (tar_writer, unit) es"
where
  "write_bundle fails enc_meta enc_infos now inp =
     (case filter (\<lambda>n. profileKind n = []) (map fst (win_profiles inp)) of
        n # _ \<Rightarrow> es_fail (Errorf (Fmt ''bundle: unsupported profile member %q'' [FS n]))
      | [] \<Rightarrow>
          es_bind (es_wrap ''bundle: marshal meta.json'' (es_lift (enc_meta (written_meta now inp)))) (\<lambda>meta_bytes.
          es_bind (write_member fails MetaMember meta_bytes) (\<lambda>_.
          es_bind
            (if win_segments inp = [] then es_return ()
             else
               let ks = enumerate 0 (win_segments inp) in
               es_bind (es_wrap_msg (Fmt ''bundle: marshal %s'' [FS SegmentsMember])
                   (es_lift (enc_infos (map segment_info_of ks)))) (\<lambda>seg_bytes.
               es_bind (write_member fails SegmentsMember seg_bytes) (\<lambda>_.
               es_each (write_one_segment fails) ks))) (\<lambda>_.
          es_bind (es_each (\<lambda>n. write_member fails n (the (map_of (win_profiles inp) n))) (profile_names inp)) (\<lambda>_.
          es_bind (write_header fails HeapDumpMember (sint (win_dump_size inp))) (\<lambda>_.
          es_bind (copy_n fails HeapDumpMember (win_dump inp) (win_dump_end inp) (sint (win_dump_size inp))) (\<lambda>_.
          es_wrap ''bundle: finalize tar'' (tar_call fails))))))))"

text \<open>What a reader sees of a stream that was written without an error.\<close>

definition written_stream :: "tar_writer \<Rightarrow> tar_stream" where
  "written_stream tw = \<lparr>ts_members = tw_members tw, ts_end = EOF, ts_final = 1024, ts_rest = [], ts_rest_end = EOF\<rparr>"

end
