(* ===== verification/BundleArchiveFacts.thy ===== *)
theory BundleArchiveFacts
  imports BundleArchive "HOL-Library.Multiset"
begin

text \<open>
  What opening a bundle does: which streams are accepted, what the bundle holds, that nothing of it
  depends on the order of the members, that no temporary file is left behind, that a checked
  archive opens, and that a written bundle reads back.
\<close>

section \<open>Kinds of members\<close>

datatype member_kind = KMeta | KIndex | KDump | KProfile | KSegment | KOther

definition kind_of :: "tar_member \<Rightarrow> member_kind" where
  "kind_of m =
     (if tm_name m = MetaMember then KMeta
      else if tm_name m = SegmentsMember then KIndex
      else if tm_name m = HeapDumpMember then KDump
      else if profileKind (tm_name m) \<noteq> [] then KProfile
      else if is_segment_member (tm_name m) then KSegment
      else KOther)"

lemma member_names_distinct:
  "MetaMember \<noteq> SegmentsMember" "MetaMember \<noteq> HeapDumpMember" "SegmentsMember \<noteq> HeapDumpMember"
  "profileKind MetaMember = []" "profileKind SegmentsMember = []" "profileKind HeapDumpMember = []"
  by code_simp+

lemma kind_iff:
  "tm_name m = MetaMember \<longleftrightarrow> kind_of m = KMeta"
  "tm_name m = SegmentsMember \<longleftrightarrow> kind_of m = KIndex"
  "tm_name m = HeapDumpMember \<longleftrightarrow> kind_of m = KDump"
  "profileKind (tm_name m) = [] \<longleftrightarrow> kind_of m \<noteq> KProfile"
  "is_segment_member (tm_name m) \<longleftrightarrow> kind_of m = KSegment"
  "recognized (tm_name m) \<longleftrightarrow> kind_of m \<noteq> KOther"
  using member_names_distinct segment_member_not
  by (auto simp: kind_of_def recognized_def profileKind_cases)

section \<open>Which members are accepted\<close>

abbreviation of_kind :: "member_kind \<Rightarrow> tar_member list \<Rightarrow> tar_member list" where
  "of_kind k ms \<equiv> filter (\<lambda>m. kind_of m = k) ms"

abbreviation known :: "tar_member list \<Rightarrow> tar_member list" where
  "known ms \<equiv> filter (\<lambda>m. kind_of m \<noteq> KOther) ms"

definition size_sum :: "member_kind \<Rightarrow> tar_member list \<Rightarrow> int" where
  "size_sum k ms = sum_list (map tm_size (of_kind k ms))"

definition named_data :: "member_kind \<Rightarrow> tar_member list \<Rightarrow> (string \<times> byte list) list" where
  "named_data k ms = map (\<lambda>m. (tm_name m, tm_data m)) (of_kind k ms)"

definition member_value :: "(tar_member \<Rightarrow> 'e + 'v) \<Rightarrow> tar_member list \<Rightarrow> 'v option" where
  "member_value f ms = (case ms of [] \<Rightarrow> None | m # _ \<Rightarrow> (case f m of Inl _ \<Rightarrow> None | Inr v \<Rightarrow> Some v))"

definition acceptable_member ::
  "temp_env \<Rightarrow> bundle_meta json_decoder \<Rightarrow> segment_info list json_decoder \<Rightarrow> reader_options \<Rightarrow> tar_member \<Rightarrow> bool"
where
  "acceptable_member env dm di opts m \<longleftrightarrow>
     (case kind_of m of
        KMeta \<Rightarrow> tm_size m \<le> rdo_max_metadata opts \<and> (\<exists>v. decode_single dm m = Inr v)
      | KIndex \<Rightarrow> tm_size m \<le> rdo_max_index opts \<and> (\<exists>v. decode_single di m = Inr v)
      | KDump \<Rightarrow> (\<exists>path. te_create env = Inr path) \<and> tm_error m = None \<and> te_copy_error env = None \<and>
          te_close_error env = None
      | KProfile \<Rightarrow> tm_error m = None
      | KSegment \<Rightarrow> tm_error m = None
      | KOther \<Rightarrow> True) \<and>
     (kind_of m \<noteq> KOther \<longrightarrow> tm_regular m) \<and> (kind_of m \<notin> {KOther, KDump} \<longrightarrow> 0 \<le> tm_size m)"

definition acceptable ::
  "temp_env \<Rightarrow> bundle_meta json_decoder \<Rightarrow> segment_info list json_decoder \<Rightarrow> reader_options \<Rightarrow> tar_member list \<Rightarrow> bool"
where
  "acceptable env dm di opts ms \<longleftrightarrow>
     distinct (map tm_name (known ms)) \<and> (\<forall>m \<in> set ms. acceptable_member env dm di opts m) \<and>
     size_sum KProfile ms \<le> rdo_max_profile opts \<and> size_sum KSegment ms \<le> rdo_max_rodata opts"

definition dump_path :: "temp_env \<Rightarrow> string" where
  "dump_path env = (case te_create env of Inl _ \<Rightarrow> [] | Inr path \<Rightarrow> path)"

definition opened_state ::
  "temp_env \<Rightarrow> bundle_meta json_decoder \<Rightarrow> segment_info list json_decoder \<Rightarrow> tar_member list \<Rightarrow> open_state"
where
  "opened_state env dm di ms =
     \<lparr>op_profiles = named_data KProfile ms, op_profile_bytes = size_sum KProfile ms,
      op_seen = tm_name ` set (known ms), op_rodata_bytes = size_sum KSegment ms,
      op_meta = member_value (decode_single dm) (of_kind KMeta ms),
      op_infos = (case member_value (decode_single di) (of_kind KIndex ms) of None \<Rightarrow> [] | Some v \<Rightarrow> v),
      op_segments = named_data KSegment ms,
      op_path = (if of_kind KDump ms = [] then [] else dump_path env),
      op_dump_present = (of_kind KDump ms \<noteq> [])\<rparr>"

definition dump_disk :: "temp_env \<Rightarrow> tar_member list \<Rightarrow> disk \<Rightarrow> disk" where
  "dump_disk env ms d = fold (\<lambda>m d. d(dump_path env \<mapsto> tm_data m)) (of_kind KDump ms) d"

lemma open_members_append:
  "open_members step (xs @ ys) st d =
     (case open_members step xs st d of (Inl e, d') \<Rightarrow> (Inl e, d') | (Inr st', d') \<Rightarrow> open_members step ys st' d')"
  by (induction xs arbitrary: st d) (auto split: prod.splits sum.splits)

lemma size_sum_snoc: "size_sum k (ms @ [m]) = size_sum k ms + (if kind_of m = k then tm_size m else 0)"
  by (simp add: size_sum_def)

lemma update_fresh: "k \<notin> fst ` set al \<Longrightarrow> AList.update k v al = al @ [(k, v)]"
  by (induction al) auto

lemma fresh_names:
  "tm_name m \<notin> tm_name ` set (known ms) \<Longrightarrow> k \<noteq> KOther \<Longrightarrow> tm_name m \<notin> fst ` set (named_data k ms)"
  by (force simp: named_data_def)

lemma other_kind_empty:
  assumes "tm_name m \<notin> tm_name ` set (known ms)" "kind_of m \<in> {KMeta, KIndex, KDump}"
  shows "of_kind (kind_of m) ms = []"
proof (rule ccontr)
  assume "of_kind (kind_of m) ms \<noteq> []"
  then obtain m' where m': "m' \<in> set ms" "kind_of m' = kind_of m" by (auto simp: filter_empty_conv)
  then have "tm_name m' = tm_name m" using assms(2) kind_iff(1-3) by (metis empty_iff insert_iff)
  moreover have "m' \<in> set (known ms)" using m' assms(2) by auto
  ultimately show False using assms(1) by (metis image_eqI)
qed

lemma opened_path: "op_path (opened_state env dm di ms) = [] \<or> of_kind KDump ms \<noteq> []"
  by (simp add: opened_state_def)

text \<open>One step of the loop.\<close>

lemma open_member_step:
  assumes ms: "acceptable env dm di opts ms" and path: "\<And>p. te_create env = Inr p \<Longrightarrow> p \<noteq> []"
  shows "open_member env dm di opts m (opened_state env dm di ms) d = (Inr st, d') \<longleftrightarrow>
    acceptable env dm di opts (ms @ [m]) \<and> st = opened_state env dm di (ms @ [m]) \<and>
    d' = (if kind_of m = KDump then d(dump_path env \<mapsto> tm_data m) else d)"
proof -
  let ?st = "opened_state env dm di ms"
  have seen: "op_seen ?st = tm_name ` set (known ms)" by (simp add: opened_state_def)
  show ?thesis
  proof (cases "kind_of m \<noteq> KOther \<and> (\<not> tm_regular m \<or> tm_name m \<in> op_seen ?st)")
    case True
    then show ?thesis
      by (auto simp: open_member_def admit_member_def Let_def kind_iff abort_def acceptable_def seen
          acceptable_member_def)
  next
    case False
    note reg = this
    show ?thesis
    proof (cases "kind_of m")
      case KOther
      then show ?thesis using ms
        by (auto simp: open_member_def admit_member_def Let_def kind_iff acceptable_def acceptable_member_def
            size_sum_snoc opened_state_def named_data_def)
    next
      case KMeta
      have e: "of_kind KMeta ms = []" using other_kind_empty [of m ms] reg KMeta seen by simp
      show ?thesis using ms reg e
        by (auto simp: open_member_def admit_member_def member_limit_def abort_def Let_def kind_iff KMeta
            acceptable_def acceptable_member_def size_sum_snoc opened_state_def named_data_def member_value_def
            split: sum.splits)
    next
      case KIndex
      have e: "of_kind KIndex ms = []" using other_kind_empty [of m ms] reg KIndex seen by simp
      show ?thesis using ms reg e
        by (auto simp: open_member_def admit_member_def member_limit_def abort_def Let_def kind_iff KIndex
            acceptable_def acceptable_member_def size_sum_snoc opened_state_def named_data_def member_value_def
            split: sum.splits)
    next
      case KDump
      have e: "of_kind KDump ms = []" using other_kind_empty [of m ms] reg KDump seen by simp
      show ?thesis using ms reg e
        by (auto simp: open_member_def admit_member_def member_limit_def abort_def Let_def kind_iff KDump
            acceptable_def acceptable_member_def size_sum_snoc opened_state_def named_data_def extract_dump_def
            join_errors_def dump_path_def split: sum.splits option.splits)
    next
      case KProfile
      have f: "tm_name m \<notin> fst ` set (named_data KProfile ms)" using fresh_names [of m ms KProfile] reg KProfile seen by simp
      show ?thesis using ms reg f
        by (auto simp: open_member_def admit_member_def member_limit_def abort_def Let_def kind_iff KProfile
            acceptable_def acceptable_member_def size_sum_snoc opened_state_def read_all_def update_fresh
            split: sum.splits option.splits) (auto simp: named_data_def KProfile)
    next
      case KSegment
      have f: "tm_name m \<notin> fst ` set (named_data KSegment ms)" using fresh_names [of m ms KSegment] reg KSegment seen by simp
      show ?thesis using ms reg f
        by (auto simp: open_member_def admit_member_def member_limit_def abort_def Let_def kind_iff KSegment
            acceptable_def acceptable_member_def size_sum_snoc opened_state_def read_all_def update_fresh
            split: sum.splits option.splits) (auto simp: named_data_def KSegment)
    qed
  qed
qed

lemma acceptable_prefix: "acceptable env dm di opts (ms @ [m]) \<Longrightarrow> acceptable env dm di opts ms"
  by (auto simp: acceptable_def acceptable_member_def size_sum_snoc split: if_splits)

lemma dump_disk_snoc:
  "dump_disk env (ms @ [m]) d =
    (if kind_of m = KDump then (dump_disk env ms d)(dump_path env \<mapsto> tm_data m) else dump_disk env ms d)"
  by (simp add: dump_disk_def)

text \<open>The limits are not negative, and a temporary file has a name.\<close>

definition usable :: "temp_env \<Rightarrow> reader_options \<Rightarrow> bool" where
  "usable env opts \<longleftrightarrow> 0 \<le> rdo_max_profile opts \<and> 0 \<le> rdo_max_rodata opts \<and> te_create env \<noteq> Inr []"

lemma open_members_Inr:
  assumes "usable env opts"
  shows "open_members (open_member env dm di opts) ms open_start d = (Inr st, d') \<longleftrightarrow>
    acceptable env dm di opts ms \<and> st = opened_state env dm di ms \<and> d' = dump_disk env ms d"
proof (induction ms arbitrary: st d' rule: rev_induct)
  case Nil
  then show ?case using assms
    by (auto simp: usable_def acceptable_def opened_state_def open_start_def size_sum_def named_data_def
        member_value_def dump_disk_def)
next
  case (snoc m ms)
  have path: "p \<noteq> []" if "te_create env = Inr p" for p using assms that by (auto simp: usable_def)
  show ?case
  proof (cases "acceptable env dm di opts ms")
    case True
    then have eq: "open_members (open_member env dm di opts) ms open_start d =
        (Inr (opened_state env dm di ms), dump_disk env ms d)" using snoc.IH by blast
    have "open_members (open_member env dm di opts) (ms @ [m]) open_start d = (Inr st, d') \<longleftrightarrow>
        open_member env dm di opts m (opened_state env dm di ms) (dump_disk env ms d) = (Inr st, d')"
      unfolding open_members_append eq by (simp split: prod.splits sum.splits)
    also have "\<dots> \<longleftrightarrow> acceptable env dm di opts (ms @ [m]) \<and> st = opened_state env dm di (ms @ [m]) \<and>
        d' = (if kind_of m = KDump then (dump_disk env ms d)(dump_path env \<mapsto> tm_data m) else dump_disk env ms d)"
      by (rule open_member_step [OF True]) (rule path)
    finally show ?thesis unfolding dump_disk_snoc .
  next
    case False
    then obtain e d1 where "open_members (open_member env dm di opts) ms open_start d = (Inl e, d1)"
      using snoc.IH by (metis old.sum.exhaust prod.exhaust)
    then show ?thesis using False acceptable_prefix by (auto simp: open_members_append)
  qed
qed

section \<open>No temporary file is left behind\<close>

definition tidy :: "temp_env \<Rightarrow> disk \<Rightarrow> bool" where
  "tidy env d \<longleftrightarrow> te_remove_error env = None \<and> te_create env \<noteq> Inr [] \<and> d (dump_path env) = None"

definition on_disk :: "temp_env \<Rightarrow> disk \<Rightarrow> open_state \<Rightarrow> disk \<Rightarrow> bool" where
  "on_disk env d st d1 \<longleftrightarrow> op_path st = [] \<and> d1 = d \<or>
     (\<exists>p data. te_create env = Inr p \<and> op_path st = p \<and> d1 = d(p \<mapsto> data))"

lemma abort_restores:
  assumes "tidy env d" "on_disk env d st d1"
  shows "abort env st d1 e = (Inl e, d)"
  using assms by (auto simp: tidy_def on_disk_def abort_def cleanup_dump_def os_remove_def dump_path_def)

lemma admit_member_path: "admit_member opts m st = Inr st' \<Longrightarrow> op_path st' = op_path st"
  by (auto simp: admit_member_def Let_def split: if_splits)

lemma on_disk_path: "on_disk env d st d1 \<Longrightarrow> op_path st' = op_path st \<Longrightarrow> on_disk env d st' d1"
  by (simp add: on_disk_def)

lemma open_member_on_disk:
  assumes tidy: "tidy env d" and od: "on_disk env d st d1"
    and fresh: "op_path st \<noteq> [] \<Longrightarrow> HeapDumpMember \<in> op_seen st"
  shows "open_member env dm di opts m st d1 = (Inl e, d2) \<Longrightarrow> d2 = d"
    and "open_member env dm di opts m st d1 = (Inr st', d2) \<Longrightarrow>
      on_disk env d st' d2 \<and> (op_path st' \<noteq> [] \<longrightarrow> HeapDumpMember \<in> op_seen st')"
proof -
  have extr: "(case extract_dump env m st1 d1 of (Inl e, d2) \<Rightarrow> d2 = d
      | (Inr st', d2) \<Rightarrow> on_disk env d st' d2 \<and> op_seen st' = op_seen st1)"
    if "op_path st1 = []" "d1 = d" for st1
    using that tidy
    by (auto simp: extract_dump_def Let_def on_disk_def tidy_def abort_def cleanup_dump_def os_remove_def dump_path_def
        split: sum.splits option.splits)
  have admit: "op_path st1 = op_path st" "on_disk env d st1 d1"
    "op_seen st1 = (if recognized (tm_name m) then insert (tm_name m) (op_seen st) else op_seen st)"
    "tm_name m = HeapDumpMember \<Longrightarrow> op_path st1 = [] \<and> d1 = d"
    if "admit_member opts m st = Inr st1" for st1
  proof -
    show p: "op_path st1 = op_path st" by (rule admit_member_path [OF that])
    show "on_disk env d st1 d1" by (rule on_disk_path [OF od p])
    show "op_seen st1 = (if recognized (tm_name m) then insert (tm_name m) (op_seen st) else op_seen st)"
      using that by (auto simp: admit_member_def Let_def split: if_splits)
    assume "tm_name m = HeapDumpMember"
    then have "HeapDumpMember \<notin> op_seen st"
      using that kind_iff(6) by (auto simp: admit_member_def Let_def recognized_def split: if_splits)
    then have "op_path st = []" using fresh by blast
    with od show "op_path st1 = [] \<and> d1 = d" using p tidy by (auto simp: on_disk_def tidy_def)
  qed
  show "d2 = d" if "open_member env dm di opts m st d1 = (Inl e, d2)"
    using that extr admit(4)
    by (fastforce simp: open_member_def Let_def abort_restores [OF tidy od] abort_restores [OF tidy admit(2)]
        split: sum.splits if_splits)
  show "on_disk env d st' d2 \<and> (op_path st' \<noteq> [] \<longrightarrow> HeapDumpMember \<in> op_seen st')"
    if run: "open_member env dm di opts m st d1 = (Inr st', d2)"
  proof -
    from run obtain st1 where st1: "admit_member opts m st = Inr st1"
      by (auto simp: open_member_def Let_def abort_def split: sum.splits)
    show ?thesis
    proof (cases "tm_name m = HeapDumpMember")
      case True
      have "extract_dump env m st1 d1 = (Inr st', d2)"
        using run True member_names_distinct by (simp add: open_member_def Let_def st1)
      then show ?thesis using extr [of st1] admit(3,4) [OF st1] True by (simp add: recognized_def)
    next
      case False
      then have "d2 = d1" "op_path st' = op_path st1" "op_seen st' = op_seen st1"
        using run by (auto simp: open_member_def Let_def st1 abort_def split: sum.splits if_splits)
      then show ?thesis using admit [OF st1] fresh on_disk_path by auto
    qed
  qed
qed

lemma open_members_on_disk:
  assumes "tidy env d" "on_disk env d st d1" "op_path st \<noteq> [] \<Longrightarrow> HeapDumpMember \<in> op_seen st"
  shows "open_members (open_member env dm di opts) ms st d1 = (Inl e, d2) \<Longrightarrow> d2 = d"
    and "open_members (open_member env dm di opts) ms st d1 = (Inr st', d2) \<Longrightarrow> on_disk env d st' d2"
  using assms(2,3)
proof (induction ms arbitrary: st d1)
  case (Cons m ms)
  {
    case 1
    then show ?case using open_member_on_disk [OF assms(1) 1(2,3)] Cons.IH(1)
      by (fastforce split: prod.splits sum.splits)
  next
    case 2
    then show ?case using open_member_on_disk [OF assms(1) 2(2,3)] Cons.IH(2)
      by (fastforce split: prod.splits sum.splits)
  }
qed simp_all

lemma open_finish_on_disk:
  assumes "tidy env d" "on_disk env d st d1" "open_finish env st d1 = (Inl e, d2)"
  shows "d2 = d"
  using assms(3) by (auto simp: open_finish_def abort_restores [OF assms(1,2)] split: option.splits if_splits sum.splits)

lemma open_start_on_disk: "on_disk env d open_start d"
  by (simp add: on_disk_def open_start_def)

text \<open>A bundle that does not open leaves the disk as it was.\<close>

lemma bundle_open_error:
  assumes tidy: "tidy env d" and run: "bundle_open env dm di opts ts d = (Inl e, d')"
  shows "d' = d"
proof -
  let ?step = "open_member env dm di (effective_limits opts)"
  obtain r d1 where r: "open_members ?step (ts_members ts) open_start d = (r, d1)" by fastforce
  note od = open_members_on_disk [OF tidy open_start_on_disk]
  have start: "op_path open_start = []" by (simp add: open_start_def)
  show ?thesis
  proof (cases r)
    case (Inl e1)
    then have "d1 = d" using od(1) [of dm di "effective_limits opts"] r start by blast
    then show ?thesis using run r Inl by (auto simp: bundle_open_def split: if_splits)
  next
    case (Inr st)
    then have "on_disk env d st d1" using od(2) [of dm di "effective_limits opts"] r start by blast
    then show ?thesis using run r Inr open_finish_on_disk [OF tidy]
      by (auto simp: bundle_open_def abort_restores [OF tidy] split: if_splits)
  qed
qed

section \<open>What an opened bundle holds\<close>

text \<open>When a stream opens: its members are acceptable, and the metadata and the dump are there.\<close>

definition opened_segments ::
  "segment_info list json_decoder \<Rightarrow> tar_member list \<Rightarrow> go_error + segments_reader option"
where
  "opened_segments di ms = open_segments (opened_state \<lparr>te_create = Inr [], te_copy_error = None,
     te_close_error = None, te_remove_error = None\<rparr> (\<lambda>_ _. Inl EOF) di ms)"

lemma open_segments_state: "open_segments (opened_state env dm di ms) = opened_segments di ms"
  by (simp add: opened_segments_def open_segments_def opened_state_def)

definition bundle_of ::
  "temp_env \<Rightarrow> bundle_meta \<Rightarrow> tar_member list \<Rightarrow> segments_reader option \<Rightarrow> capture_bundle"
where
  "bundle_of env mt ms segs =
     \<lparr>bun_meta = mt, bun_profiles = named_data KProfile ms, bun_dump_path = dump_path env, bun_segments = segs,
      bun_warnings = mt_warnings mt @ open_warnings (mt_rodata mt) segs\<rparr>"

lemma default_limit_nonneg: "0 \<le> n \<Longrightarrow> 0 \<le> d \<Longrightarrow> 0 \<le> default_limit n d"
  by (simp add: default_limit_def)

lemma usable_limits:
  assumes "te_create env \<noteq> Inr []" "0 \<le> rdo_max_profile opts" "0 \<le> rdo_max_rodata opts"
  shows "usable env (effective_limits opts)"
  using assms by (auto simp: usable_def effective_limits_def default_limit_def DefaultMaxProfileBytes_def
      DefaultMaxRodataBytes_def)

definition limits_ok :: "reader_options \<Rightarrow> bool" where
  "limits_ok opts \<longleftrightarrow> 0 \<le> rdo_max_profile opts \<and> 0 \<le> rdo_max_rodata opts \<and> 0 \<le> rdo_max_metadata opts \<and>
     0 \<le> rdo_max_index opts"

lemma bundle_open_Inr:
  assumes named: "te_create env \<noteq> Inr []"
  shows "bundle_open env dm di opts ts d = (Inr b, d') \<longleftrightarrow>
    limits_ok opts \<and> ts_end ts = EOF \<and> acceptable env dm di (effective_limits opts) (ts_members ts) \<and>
    (\<exists>mt segs. member_value (decode_single dm) (of_kind KMeta (ts_members ts)) = Some mt \<and>
      1 \<le> mt_format_version mt \<and> mt_format_version mt \<le> FormatVersion \<and> of_kind KDump (ts_members ts) \<noteq> [] \<and>
      opened_segments di (ts_members ts) = Inr segs \<and> b = bundle_of env mt (ts_members ts) segs \<and>
      d' = dump_disk env (ts_members ts) d)"
proof -
  let ?ms = "ts_members ts" and ?step = "open_member env dm di (effective_limits opts)"
  show ?thesis
  proof (cases "limits_ok opts")
    case False
    then show ?thesis by (auto simp: bundle_open_def limits_ok_def)
  next
    case lim: True
    then have "0 \<le> rdo_max_profile opts" "0 \<le> rdo_max_rodata opts" by (simp_all add: limits_ok_def)
    note om = open_members_Inr [OF usable_limits [OF named this]]
    have nonneg: "\<not> (rdo_max_profile opts < 0 \<or> rdo_max_rodata opts < 0 \<or> rdo_max_metadata opts < 0 \<or> rdo_max_index opts < 0)"
      using lim by (auto simp: limits_ok_def)
    show ?thesis
    proof (cases "acceptable env dm di (effective_limits opts) ?ms")
      case False
      then obtain e d1 where "open_members ?step ?ms open_start d = (Inl e, d1)"
        using om by (metis old.sum.exhaust prod.exhaust)
      then show ?thesis using False by (simp add: bundle_open_def nonneg)
    next
      case True
      then have "open_members ?step ?ms open_start d = (Inr (opened_state env dm di ?ms), dump_disk env ?ms d)"
        using om by blast
      then have eq: "bundle_open env dm di opts ts d =
          (if ts_end ts \<noteq> EOF then abort env (opened_state env dm di ?ms) (dump_disk env ?ms d)
             (Wrapf (Fmt ''bundle: read tar'' []) (ts_end ts))
           else open_finish env (opened_state env dm di ?ms) (dump_disk env ?ms d))"
        unfolding bundle_open_def by (simp add: nonneg)
      have st: "op_meta (opened_state env dm di ?ms) = member_value (decode_single dm) (of_kind KMeta ?ms)"
        "op_dump_present (opened_state env dm di ?ms) \<longleftrightarrow> of_kind KDump ?ms \<noteq> []"
        "op_profiles (opened_state env dm di ?ms) = named_data KProfile ?ms"
        "of_kind KDump ?ms \<noteq> [] \<Longrightarrow> op_path (opened_state env dm di ?ms) = dump_path env"
        by (simp_all add: opened_state_def)
      show ?thesis unfolding eq open_finish_def st(1-3) open_segments_state
        using True lim st(4)
        by (auto simp: abort_def bundle_of_def not_le split: option.splits sum.splits)
    qed
  qed
qed

section \<open>The order of the members does not matter\<close>

lemma size_sum_mset: "mset ms = mset ms' \<Longrightarrow> size_sum k ms = size_sum k ms'"
  unfolding size_sum_def by (metis (no_types) mset_filter mset_map sum_mset_sum_list)

lemma known_mset: "mset ms = mset ms' \<Longrightarrow> mset (map tm_name (known ms)) = mset (map tm_name (known ms'))"
  by (metis mset_filter mset_map)

lemma acceptable_mset:
  assumes "mset ms = mset ms'"
  shows "acceptable env dm di opts ms \<longleftrightarrow> acceptable env dm di opts ms'"
  using mset_eq_imp_distinct_iff [OF known_mset [OF assms]] mset_eq_setD [OF assms]
  by (simp add: acceptable_def size_sum_mset [OF assms])

lemma distinct_of_kind:
  assumes "distinct (map tm_name (known ms))" "k \<noteq> KOther"
  shows "distinct (map tm_name (of_kind k ms))"
proof -
  have "filter (\<lambda>m. kind_of m = k) (known ms) = of_kind k ms"
    unfolding filter_filter by (rule filter_cong) (use assms(2) in auto)
  then show ?thesis using distinct_map_filter [OF assms(1), of "\<lambda>m. kind_of m = k"] by simp
qed

lemma single_of_kind:
  assumes "distinct (map tm_name (known ms))" "k \<in> {KMeta, KIndex, KDump}"
  shows "of_kind k ms = [] \<or> (\<exists>m. of_kind k ms = [m])"
proof -
  have d: "distinct (map tm_name (of_kind k ms))" by (rule distinct_of_kind) (use assms in auto)
  have same: "tm_name m = tm_name m'" if "m \<in> set (of_kind k ms)" "m' \<in> set (of_kind k ms)" for m m'
    using that assms(2) kind_iff(1-3) [of m] kind_iff(1-3) [of m'] by auto
  show ?thesis
  proof (cases "of_kind k ms")
    case (Cons m ms')
    have "ms' = []"
    proof (cases ms')
      case inner: (Cons m' ms2)
      have "tm_name m = tm_name m'" by (rule same) (simp_all only: Cons inner list.set insert_iff simp_thms)
      with d show ?thesis by (simp add: Cons inner)
    qed simp
    then show ?thesis using Cons by simp
  qed simp
qed

lemma of_kind_mset:
  assumes "mset ms = mset ms'" "distinct (map tm_name (known ms))" "k \<in> {KMeta, KIndex, KDump}"
  shows "of_kind k ms = of_kind k ms'"
proof -
  have "mset (of_kind k ms) = mset (of_kind k ms')" using assms(1) by simp
  then show ?thesis using single_of_kind [OF assms(2,3)] by (metis mset.simps(1) mset_single_iff_right mset_zero_iff)
qed

lemma named_data_mset:
  assumes "mset ms = mset ms'" "distinct (map tm_name (known ms))" "k \<noteq> KOther"
  shows "map_of (named_data k ms) = map_of (named_data k ms')"
proof -
  have fst: "map fst (named_data k xs) = map tm_name (of_kind k xs)" for xs by (simp add: named_data_def)
  have "distinct (map tm_name (known ms'))" using mset_eq_imp_distinct_iff [OF known_mset [OF assms(1)]] assms(2) by simp
  then have d: "distinct (map fst (named_data k ms))" "distinct (map fst (named_data k ms'))"
    unfolding fst using distinct_of_kind assms(2,3) by auto
  have "set (named_data k ms) = set (named_data k ms')"
    using mset_eq_setD [OF assms(1)] by (simp add: named_data_def)
  then show ?thesis using map_of_inject_set [OF d] by simp
qed

lemma segment_blocks_cong: "map_of segs = map_of segs' \<Longrightarrow> segment_blocks segs infos = segment_blocks segs' infos"
  by (induction infos) (simp_all split: option.split)

lemma opened_segments_mset:
  assumes "mset ms = mset ms'" "distinct (map tm_name (known ms))"
  shows "opened_segments di ms = opened_segments di ms'"
  using of_kind_mset [OF assms, of KIndex] segment_blocks_cong [OF named_data_mset [OF assms, of KSegment]]
  by (simp add: opened_segments_def open_segments_def opened_state_def)

lemma bundle_open_order:
  assumes run: "bundle_open env dm di opts ts d = (Inr b, d')" and named: "te_create env \<noteq> Inr []"
    and perm: "mset (ts_members ts) = mset ms'"
  shows "\<exists>b'. bundle_open env dm di opts (ts\<lparr>ts_members := ms'\<rparr>) d = (Inr b', d') \<and>
    bun_meta b' = bun_meta b \<and> bun_segments b' = bun_segments b \<and> bun_warnings b' = bun_warnings b \<and>
    bun_dump_path b' = bun_dump_path b \<and> map_of (bun_profiles b') = map_of (bun_profiles b)"
proof -
  from run [unfolded bundle_open_Inr [OF named]] obtain mt segs where
    acc: "limits_ok opts" "ts_end ts = EOF" "acceptable env dm di (effective_limits opts) (ts_members ts)"
    and mt: "member_value (decode_single dm) (of_kind KMeta (ts_members ts)) = Some mt"
      "1 \<le> mt_format_version mt" "mt_format_version mt \<le> FormatVersion"
    and rest: "of_kind KDump (ts_members ts) \<noteq> []" "opened_segments di (ts_members ts) = Inr segs"
      "b = bundle_of env mt (ts_members ts) segs" "d' = dump_disk env (ts_members ts) d"
    by blast
  have dist: "distinct (map tm_name (known (ts_members ts)))" using acc(3) by (simp add: acceptable_def)
  note kinds = of_kind_mset [OF perm dist]
  have kd: "of_kind KDump (ts_members ts) = of_kind KDump ms'" by (rule kinds) simp
  have "bundle_open env dm di opts (ts\<lparr>ts_members := ms'\<rparr>) d = (Inr (bundle_of env mt ms' segs), d')"
    unfolding bundle_open_Inr [OF named]
    using acc mt rest acceptable_mset [OF perm] kinds [of KMeta] kd opened_segments_mset [OF perm dist]
    by (simp add: dump_disk_def)
  then show ?thesis using named_data_mset [OF perm dist, of KProfile] by (auto simp: rest(3) bundle_of_def)
qed

section \<open>A checked archive opens\<close>

definition checkable_member ::
  "bundle_meta json_decoder \<Rightarrow> segment_info list json_decoder \<Rightarrow> tar_member \<Rightarrow> bool"
where
  "checkable_member dm di m \<longleftrightarrow>
     (kind_of m = KMeta \<longrightarrow> tm_size m \<le> DefaultMaxMetadataBytes \<and> (\<exists>v. decode_single dm m = Inr v)) \<and>
     (kind_of m = KIndex \<longrightarrow> tm_size m \<le> DefaultMaxSegmentIndexBytes \<and> (\<exists>v. decode_single di m = Inr v)) \<and>
     (kind_of m = KDump \<longrightarrow> check_heap_header m = None) \<and>
     (kind_of m \<noteq> KOther \<longrightarrow> tm_regular m) \<and> tm_error m = None"

definition named_sizes :: "tar_member list \<Rightarrow> (string \<times> u64) list" where
  "named_sizes ms = map (\<lambda>m. (tm_name m, of_int (tm_size m))) (of_kind KSegment ms)"

definition checked_archive ::
  "bundle_meta json_decoder \<Rightarrow> segment_info list json_decoder \<Rightarrow> tar_member list \<Rightarrow> archive_check \<Rightarrow> bool"
where
  "checked_archive dm di ms ac \<longleftrightarrow>
     distinct (map tm_name (known ms)) \<and> (\<forall>m \<in> set ms. checkable_member dm di m) \<and>
     ac_seen ac = tm_name ` set (known ms) \<and> ac_sizes ac = named_sizes ms \<and>
     (case member_value (decode_single dm) (of_kind KMeta ms) of None \<Rightarrow> zero_meta | Some v \<Rightarrow> v) = ac_meta ac \<and>
     (case member_value (decode_single di) (of_kind KIndex ms) of None \<Rightarrow> [] | Some v \<Rightarrow> v) = ac_infos ac"

lemma check_json_Inr: "check_json dec limit m = Inr v \<longleftrightarrow> tm_size m \<le> limit \<and> decode_single dec m = Inr v"
  by (auto simp: check_json_def decode_single_def sum_bind_Inr split: sum.splits prod.splits if_splits)

lemma check_members_append:
  "check_members step (xs @ ys) ac = sum_bind (check_members step xs ac) (check_members step ys)"
proof (induction xs arbitrary: ac)
  case (Cons x xs)
  then show ?case by (cases "step x ac") simp_all
qed simp

lemma check_member_step:
  assumes "checked_archive dm di ms ac" "check_member dm di m ac = Inr ac'"
  shows "checked_archive dm di (ms @ [m]) ac'"
proof -
  from assms(2) obtain ac1 where adm: "admit_known m ac = Inr ac1" and err: "tm_error m = None"
    by (auto simp: check_member_def Let_def sum_bind_Inr split: option.splits)
  show ?thesis
  proof (cases "kind_of m = KOther")
    case True
    then show ?thesis using assms adm err
      by (auto simp: check_member_def admit_known_def Let_def kind_iff checked_archive_def checkable_member_def
          named_sizes_def)
  next
    case False
    with adm have ac1: "tm_regular m" "tm_name m \<notin> ac_seen ac" "ac1 = ac\<lparr>ac_seen := insert (tm_name m) (ac_seen ac)\<rparr>"
      by (auto simp: admit_known_def Let_def kind_iff split: if_splits)
    with assms(1) have fresh: "tm_name m \<notin> tm_name ` set (known ms)" by (simp add: checked_archive_def)
    show ?thesis
    proof (cases "kind_of m")
      case KOther
      with False show ?thesis by simp
    next
      case KMeta
      have "of_kind KMeta ms = []" using other_kind_empty [OF fresh] KMeta by simp
      then show ?thesis using assms ac1 err adm KMeta
        by (auto simp: check_member_def Let_def kind_iff checked_archive_def checkable_member_def named_sizes_def
            sum_bind_Inr map_sum_Inr check_json_Inr member_value_def)
    next
      case KIndex
      have "of_kind KIndex ms = []" using other_kind_empty [OF fresh] KIndex by simp
      then show ?thesis using assms ac1 err adm KIndex
        by (auto simp: check_member_def Let_def kind_iff checked_archive_def checkable_member_def named_sizes_def
            sum_bind_Inr map_sum_Inr check_json_Inr member_value_def)
    next
      case KDump
      then show ?thesis using assms ac1 err adm
        by (auto simp: check_member_def Let_def kind_iff checked_archive_def checkable_member_def named_sizes_def
            sum_bind_Inr split: option.splits)
    next
      case KProfile
      then show ?thesis using assms ac1 err adm
        by (auto simp: check_member_def Let_def kind_iff checked_archive_def checkable_member_def named_sizes_def)
    next
      case KSegment
      have "tm_name m \<notin> fst ` set (named_sizes ms)" using fresh by (force simp: named_sizes_def)
      then show ?thesis using assms ac1 err adm KSegment
        by (auto simp: check_member_def Let_def kind_iff checked_archive_def checkable_member_def
            sum_bind_Inr update_fresh split: if_splits) (auto simp: named_sizes_def)
    qed
  qed
qed

lemma check_members_Inr:
  "check_members (check_member dm di) ms check_start = Inr ac \<Longrightarrow> checked_archive dm di ms ac"
proof (induction ms arbitrary: ac rule: rev_induct)
  case Nil
  then show ?case
    by (auto simp: checked_archive_def check_start_def named_sizes_def member_value_def)
next
  case (snoc m ms)
  then show ?case
    by (auto simp: check_members_append sum_bind_Inr intro: check_member_step)
qed

text \<open>What \<open>archive/tar\<close> ensures: sizes are not negative, and a member that was read whole has its size.\<close>

definition tar_sizes :: "tar_member list \<Rightarrow> bool" where
  "tar_sizes ms \<longleftrightarrow> (\<forall>m \<in> set ms. 0 \<le> tm_size m \<and> tm_size m < 2 ^ 63 \<and>
     (tm_error m = None \<longrightarrow> int (length (tm_data m)) = tm_size m))"

definition limits_allow :: "reader_options \<Rightarrow> tar_member list \<Rightarrow> bool" where
  "limits_allow opts ms \<longleftrightarrow> limits_ok opts \<and>
     DefaultMaxMetadataBytes \<le> rdo_max_metadata (effective_limits opts) \<and>
     DefaultMaxSegmentIndexBytes \<le> rdo_max_index (effective_limits opts) \<and>
     size_sum KProfile ms \<le> rdo_max_profile (effective_limits opts) \<and>
     size_sum KSegment ms \<le> rdo_max_rodata (effective_limits opts)"

definition file_works :: "temp_env \<Rightarrow> bool" where
  "file_works env \<longleftrightarrow> (\<exists>p. te_create env = Inr p \<and> p \<noteq> []) \<and> te_copy_error env = None \<and> te_close_error env = None"

lemma check_index_None:
  "check_index sizes infos indexed = None \<Longrightarrow> info \<in> set infos \<Longrightarrow>
    map_of sizes (si_member info) = Some (si_size info) \<and> unat (si_addr info) + unat (si_size info) < 2 ^ 64"
  using carry_iff [of "si_size info" "si_addr info"]
  by (induction infos arbitrary: indexed) (auto split: if_splits)

lemma segment_blocks_Inr:
  assumes "\<forall>info \<in> set infos. \<exists>d. map_of segs (si_member info) = Some d \<and> P info d"
  shows "\<exists>ds. segment_blocks segs infos = Inr ds \<and> list_all2 P infos ds"
  using assms
proof (induction infos)
  case (Cons info infos)
  then obtain ds d where "segment_blocks segs infos = Inr ds" "list_all2 P infos ds"
    "map_of segs (si_member info) = Some d" "P info d" by auto
  then show ?case by (intro exI [of _ "d # ds"]) simp
qed simp

definition block_fits :: "segment_info \<Rightarrow> byte list \<Rightarrow> bool" where
  "block_fits info d \<longleftrightarrow> length d = unat (si_size info) \<and> unat (si_addr info) + length d < 2 ^ 64"

lemma segment_list_total:
  "list_all2 block_fits infos ds \<Longrightarrow> \<exists>segs. segment_list (zip infos ds) = Inr segs"
proof (induction rule: list_all2_induct)
  case (Cons info infos d ds)
  then have "snd (AddUint64 (si_addr info) (si_size info))" by (simp add: AddUint64_iff block_fits_def)
  with Cons show ?case by (auto simp: block_fits_def split: prod.splits)
qed simp

lemma segments_overlap_Some: "segments_overlap segs = Some e \<Longrightarrow> \<exists>a b. e = overlap_error a b"
  by (induction segs rule: segments_overlap.induct) (auto split: if_splits)

lemma new_segments_reader_total:
  assumes "list_all2 block_fits infos ds"
  shows "(\<exists>sr. new_segments_reader infos ds = Inr sr) \<or> (\<exists>a b. new_segments_reader infos ds = Inl (overlap_error a b))"
  using segment_list_total [OF assms] list_all2_lengthD [OF assms] segments_overlap_Some
  by (fastforce simp: new_segments_reader_def Let_def split: option.splits)

lemma checked_blocks:
  assumes sizes: "tar_sizes ms" and index: "check_index (named_sizes ms) infos {} = None"
    and read: "\<forall>m \<in> set ms. tm_error m = None"
  shows "\<exists>ds. segment_blocks (named_data KSegment ms) infos = Inr ds \<and> list_all2 block_fits infos ds"
proof (rule segment_blocks_Inr, rule ballI)
  fix info assume "info \<in> set infos"
  note ix = check_index_None [OF index this]
  then have "map_of (map (\<lambda>m. (tm_name m, of_int (tm_size m) :: u64)) (of_kind KSegment ms)) (si_member info) =
      Some (si_size info)" by (simp add: named_sizes_def)
  then have "\<exists>d. map_of (map (\<lambda>m. (tm_name m, tm_data m)) (of_kind KSegment ms)) (si_member info) = Some d \<and>
      length d = unat (si_size info)"
    using sizes read
  proof (induction ms)
    case (Cons m ms)
    have "unat (of_int (tm_size m) :: u64) = length (tm_data m)"
    proof -
      have "tm_size m = int (length (tm_data m))" "length (tm_data m) < 2 ^ 64"
        using Cons.prems(2,3) by (auto simp: tar_sizes_def)
      then show ?thesis by (simp add: unsigned_of_nat take_bit_nat_eq_self)
    qed
    moreover have "tar_sizes ms" using Cons.prems(2) by (simp add: tar_sizes_def)
    ultimately show ?case using Cons.IH Cons.prems by (auto split: if_splits)
  qed simp
  then show "\<exists>d. map_of (named_data KSegment ms) (si_member info) = Some d \<and> block_fits info d"
    using ix by (auto simp: named_data_def block_fits_def)
qed

lemma validated_opens:
  assumes valid: "ValidateArchive dm di ts = None" and sizes: "tar_sizes (ts_members ts)"
    and lim: "limits_allow opts (ts_members ts)" and env: "file_works env"
  shows "(\<exists>b. bundle_open env dm di opts ts d = (Inr b, dump_disk env (ts_members ts) d)) \<or>
    (\<exists>x y d'. bundle_open env dm di opts ts d = (Inl (overlap_error x y), d'))"
proof -
  let ?ms = "ts_members ts"
  from valid obtain ac where run: "check_members (check_member dm di) ?ms check_start = Inr ac"
    and fin: "ts_end ts = EOF" "check_finish ts ac = None"
    by (auto simp: ValidateArchive_def split: sum.splits if_splits)
  note ca = check_members_Inr [OF run, unfolded checked_archive_def]
  have named: "te_create env \<noteq> Inr []" using env by (auto simp: file_works_def)
  have acc: "acceptable env dm di (effective_limits opts) ?ms"
    using ca sizes lim env
    by (auto simp: acceptable_def acceptable_member_def checkable_member_def tar_sizes_def limits_allow_def
        file_works_def split: member_kind.splits)
  have index: "check_index (named_sizes ?ms) (ac_infos ac) {} = None" and seen: "MetaMember \<in> ac_seen ac" "HeapDumpMember \<in> ac_seen ac"
    and version: "1 \<le> mt_format_version (ac_meta ac)" "mt_format_version (ac_meta ac) \<le> FormatVersion"
    using fin(2) ca by (auto simp: check_finish_def split: if_splits option.splits)
  from seen ca obtain m1 m2 where m: "m1 \<in> set ?ms" "tm_name m1 = MetaMember" "m2 \<in> set ?ms" "tm_name m2 = HeapDumpMember"
    by (auto simp: image_iff)
  then have kinds: "of_kind KMeta ?ms \<noteq> []" "of_kind KDump ?ms \<noteq> []"
    by (auto simp: filter_empty_conv kind_iff)
  have "\<exists>v. member_value (decode_single dm) (of_kind KMeta ?ms) = Some v"
  proof -
    obtain x xs where x: "of_kind KMeta ?ms = x # xs" using kinds(1) by (cases "of_kind KMeta ?ms") auto
    then have "x \<in> set (of_kind KMeta ?ms)" by simp
    then have "x \<in> set ?ms" "kind_of x = KMeta" by simp_all
    then have "\<exists>v. decode_single dm x = Inr v" using ca by (auto simp: checkable_member_def)
    then show ?thesis unfolding x by (auto simp: member_value_def)
  qed
  then have mt: "member_value (decode_single dm) (of_kind KMeta ?ms) = Some (ac_meta ac)" using ca by auto
  have infos: "op_infos (opened_state env dm di ?ms) = ac_infos ac" using ca by (simp add: opened_state_def)
  have read: "\<forall>m \<in> set ?ms. tm_error m = None" using ca by (simp add: checkable_member_def)
  have "(\<exists>segs. opened_segments di ?ms = Inr segs) \<or> (\<exists>x y. opened_segments di ?ms = Inl (overlap_error x y))"
  proof -
    obtain ds where ds: "segment_blocks (named_data KSegment ?ms) (ac_infos ac) = Inr ds"
      "list_all2 block_fits (ac_infos ac) ds" using checked_blocks [OF sizes index read] by blast
    have "op_segments (opened_state env dm di ?ms) = named_data KSegment ?ms" by (simp add: opened_state_def)
    then have "opened_segments di ?ms = (if ac_infos ac = [] then Inr None
        else map_sum id Some (new_segments_reader (ac_infos ac) ds))"
      using ds(1) by (simp add: open_segments_state [symmetric, where env = env and dm = dm] open_segments_def infos)
    moreover from new_segments_reader_total [OF ds(2)]
    have "(\<exists>r. map_sum id Some (new_segments_reader (ac_infos ac) ds) = Inr r) \<or>
        (\<exists>x y. map_sum id Some (new_segments_reader (ac_infos ac) ds) = Inl (overlap_error x y))"
      by (elim disjE exE) (simp_all, blast)
    ultimately show ?thesis by (cases "ac_infos ac = []") simp_all
  qed
  then show ?thesis
  proof
    assume "\<exists>segs. opened_segments di ?ms = Inr segs"
    then show ?thesis
      using bundle_open_Inr [OF named, of dm di opts ts d] lim fin(1) acc mt version kinds(2)
      by (auto simp: limits_allow_def)
  next
    assume "\<exists>x y. opened_segments di ?ms = Inl (overlap_error x y)"
    then obtain x y where e: "opened_segments di ?ms = Inl (overlap_error x y)" by blast
    have "usable env (effective_limits opts)"
      using lim named by (intro usable_limits) (auto simp: limits_allow_def limits_ok_def)
    then have om: "open_members (open_member env dm di (effective_limits opts)) ?ms open_start d =
        (Inr (opened_state env dm di ?ms), dump_disk env ?ms d)"
      using open_members_Inr acc by blast
    have "op_meta (opened_state env dm di ?ms) = Some (ac_meta ac)" "op_dump_present (opened_state env dm di ?ms)"
      using mt kinds(2) by (simp_all add: opened_state_def)
    then show ?thesis using lim fin(1) om version e
      by (auto simp: bundle_open_def open_finish_def open_segments_state abort_def limits_allow_def limits_ok_def
          split: if_splits)
  qed
qed

section \<open>A written bundle reads back\<close>

definition plain_member :: "string \<Rightarrow> byte list \<Rightarrow> tar_member" where
  "plain_member name bs =
     \<lparr>tm_name = name, tm_regular = True, tm_size = int (length bs), tm_data = bs, tm_error = None\<rparr>"

lemma plain_member_simps [simp]:
  "tm_name (plain_member n bs) = n" "tm_regular (plain_member n bs)" "tm_size (plain_member n bs) = int (length bs)"
  "tm_data (plain_member n bs) = bs" "tm_error (plain_member n bs) = None"
  by (simp_all add: plain_member_def)

definition adds :: "tar_member list \<Rightarrow> (tar_writer, 'a) es \<Rightarrow> bool" where
  "adds ms run \<longleftrightarrow> (\<forall>tw x tw'. run tw = Inr (x, tw') \<longrightarrow> tw_members tw' = tw_members tw @ ms)"

lemma addsD: "adds ms run \<Longrightarrow> run tw = Inr (x, tw') \<Longrightarrow> tw_members tw' = tw_members tw @ ms"
  by (auto simp: adds_def)

lemma tar_call_Inr: "tar_call fails tw = Inr (x, tw') \<Longrightarrow> tw_members tw' = tw_members tw"
  by (auto simp: tar_call_def split: option.splits)

lemma write_header_adds:
  "write_header fails name n tw = Inr (x, tw') \<Longrightarrow> 0 \<le> n \<and> tw_members tw' = tw_members tw @
    [\<lparr>tm_name = name, tm_regular = True, tm_size = n, tm_data = [], tm_error = None\<rparr>]"
  by (auto simp: write_header_def es_bind_Inr split: if_splits dest!: tar_call_Inr)

lemma write_data_adds:
  "write_data fails name bs tw = Inr (x, tw') \<Longrightarrow> tw_members tw = ms @ [m] \<Longrightarrow>
    tw_members tw' = ms @ [m\<lparr>tm_data := tm_data m @ bs\<rparr>]"
  by (auto simp: write_data_def es_bind_Inr append_data_def dest!: tar_call_Inr)

lemma write_member_adds: "adds [plain_member name bs] (write_member fails name bs)"
  unfolding adds_def
proof (intro allI impI)
  fix tw x tw' assume "write_member fails name bs tw = Inr (x, tw')"
  then obtain y tw1 where h: "write_header fails name (int (length bs)) tw = Inr (y, tw1)"
    and d: "write_data fails name bs tw1 = Inr (x, tw')"
    by (auto simp: write_member_def es_bind_Inr)
  show "tw_members tw' = tw_members tw @ [plain_member name bs]"
    using write_data_adds [OF d conjunct2 [OF write_header_adds [OF h]]] by (simp add: plain_member_def)
qed

definition sized :: "string \<Rightarrow> int \<Rightarrow> byte list \<Rightarrow> tar_member" where
  "sized name n bs = plain_member name (take (nat n) bs)"

lemma copy_member_adds:
  assumes "es_bind (write_header fails name n) (\<lambda>_. copy_n fails name bs e n) tw = Inr (x, tw')"
  shows "tw_members tw' = tw_members tw @ [sized name n bs] \<and> 0 \<le> n \<and> n \<le> int (length bs)"
proof -
  from assms obtain y tw1 z tw2 where h: "write_header fails name n tw = Inr (y, tw1)"
    and d: "write_data fails name (take (nat n) bs) tw1 = Inr (z, tw2)" and n: "n \<le> int (length bs)" and "tw' = tw2"
    by (auto simp: copy_n_def es_bind_Inr split: if_splits)
  then show ?thesis
    using write_data_adds [OF d conjunct2 [OF write_header_adds [OF h]]] write_header_adds [OF h]
    by (auto simp: sized_def plain_member_def)
qed

lemma adds_each:
  "(\<And>x. x \<in> set xs \<Longrightarrow> adds [f x] (run x)) \<Longrightarrow> adds (map f xs) (es_each run xs)"
  by (induction xs) (fastforce simp: adds_def es_bind_Inr)+

definition segment_member :: "nat \<times> write_segment \<Rightarrow> tar_member" where
  "segment_member ks = sized (segmentMemberName (fst ks)) (sint (wsg_size (snd ks))) (wsg_data (snd ks))"

definition written_members :: "byte list \<Rightarrow> byte list \<Rightarrow> write_input \<Rightarrow> tar_member list" where
  "written_members meta_bytes seg_bytes inp =
     [plain_member MetaMember meta_bytes] @
     (if win_segments inp = [] then []
      else plain_member SegmentsMember seg_bytes # map segment_member (enumerate 0 (win_segments inp))) @
     map (\<lambda>n. plain_member n (the (map_of (win_profiles inp) n))) (profile_names inp) @
     [sized HeapDumpMember (sint (win_dump_size inp)) (win_dump inp)]"

lemma segments_each:
  "es_each (write_one_segment fails) ks tw = Inr (x, tw') \<Longrightarrow>
    tw_members tw' = tw_members tw @ map segment_member ks \<and>
    (\<forall>(k, s) \<in> set ks. 0 \<le> sint (wsg_size s) \<and> sint (wsg_size s) \<le> int (length (wsg_data s)))"
proof (induction ks arbitrary: tw)
  case (Cons ks0 ks)
  obtain k s where ks0: "ks0 = (k, s)" by fastforce
  from Cons.prems obtain y tw1 where one: "write_one_segment fails (k, s) tw = Inr (y, tw1)"
    and rest: "es_each (write_one_segment fails) ks tw1 = Inr (x, tw')"
    by (auto simp: es_bind_Inr ks0)
  note one' = copy_member_adds [OF one [unfolded write_one_segment_def prod.case]]
  show ?case using Cons.IH [OF rest] one' by (simp add: ks0 segment_member_def)
qed simp

lemma write_bundle_Inr:
  assumes run: "write_bundle fails em ei now inp tw = Inr ((), tw')"
  obtains meta_bytes seg_bytes where "em (written_meta now inp) = Inr meta_bytes"
    "win_segments inp \<noteq> [] \<Longrightarrow> ei (map segment_info_of (enumerate 0 (win_segments inp))) = Inr seg_bytes"
    "tw_members tw' = tw_members tw @ written_members meta_bytes seg_bytes inp"
    "\<forall>s \<in> set (win_segments inp). 0 \<le> sint (wsg_size s) \<and> sint (wsg_size s) \<le> int (length (wsg_data s))"
    "0 \<le> sint (win_dump_size inp)" "sint (win_dump_size inp) \<le> int (length (win_dump inp))"
    "\<forall>n \<in> set (profile_names inp). profileKind n \<noteq> []"
proof -
  let ?ks = "enumerate 0 (win_segments inp)"
  have none: "filter (\<lambda>n. profileKind n = []) (map fst (win_profiles inp)) = []"
    using run by (auto simp: write_bundle_def split: list.splits)
  then have kinds: "\<forall>n \<in> set (profile_names inp). profileKind n \<noteq> []"
    by (auto simp: profile_names_def filter_empty_conv)
  from run none obtain meta_bytes tw1 tw2 tw3 tw4 x1 x2 x3 x4 tw5 x5 x6 where
    em: "em (written_meta now inp) = Inr meta_bytes"
    and meta: "write_member fails MetaMember meta_bytes tw = Inr (x1, tw1)"
    and segs: "(if win_segments inp = [] then es_return ()
             else
               es_bind (es_wrap_msg (Fmt ''bundle: marshal %s'' [FS SegmentsMember])
                   (es_lift (ei (map segment_info_of ?ks)))) (\<lambda>seg_bytes.
               es_bind (write_member fails SegmentsMember seg_bytes) (\<lambda>_.
               es_each (write_one_segment fails) ?ks))) tw1 = Inr (x2, tw2)"
    and profs: "es_each (\<lambda>n. write_member fails n (the (map_of (win_profiles inp) n))) (profile_names inp) tw2 = Inr (x3, tw3)"
    and dump: "es_bind (write_header fails HeapDumpMember (sint (win_dump_size inp))) (\<lambda>_.
          copy_n fails HeapDumpMember (win_dump inp) (win_dump_end inp) (sint (win_dump_size inp))) tw3 = Inr (x4, tw4)"
    and fin: "tar_call fails tw4 = Inr (x5, tw')"
    unfolding write_bundle_def none list.case Let_def by (simp only: es_bind_Inr es_wrap_Inr es_lift_Inr) blast
  have "\<exists>seg_bytes. (win_segments inp \<noteq> [] \<longrightarrow> ei (map segment_info_of ?ks) = Inr seg_bytes) \<and>
      tw_members tw2 = tw_members tw1 @ (if win_segments inp = [] then []
        else plain_member SegmentsMember seg_bytes # map segment_member ?ks) \<and>
      (\<forall>s \<in> set (win_segments inp). 0 \<le> sint (wsg_size s) \<and> sint (wsg_size s) \<le> int (length (wsg_data s)))"
  proof (cases "win_segments inp = []")
    case False
    with segs obtain seg_bytes y twa where ei: "ei (map segment_info_of ?ks) = Inr seg_bytes"
      and idx: "write_member fails SegmentsMember seg_bytes tw1 = Inr (y, twa)"
      and each: "es_each (write_one_segment fails) ?ks twa = Inr (x2, tw2)"
      by (auto simp: es_bind_Inr)
    have "s \<in> set (win_segments inp) \<Longrightarrow> \<exists>k. (k, s) \<in> set ?ks" for s
      by (metis in_set_impl_in_set_zip2 enumerate_eq_zip length_upt add_diff_cancel_left')
    then show ?thesis
      using ei False addsD [OF write_member_adds idx] segments_each [OF each] by fastforce
  qed (use segs in auto)
  then obtain seg_bytes where sb: "win_segments inp \<noteq> [] \<Longrightarrow> ei (map segment_info_of ?ks) = Inr seg_bytes"
    "tw_members tw2 = tw_members tw1 @ (if win_segments inp = [] then []
        else plain_member SegmentsMember seg_bytes # map segment_member ?ks)"
    "\<forall>s \<in> set (win_segments inp). 0 \<le> sint (wsg_size s) \<and> sint (wsg_size s) \<le> int (length (wsg_data s))"
    by blast
  have "tw_members tw3 = tw_members tw2 @
      map (\<lambda>n. plain_member n (the (map_of (win_profiles inp) n))) (profile_names inp)"
    by (rule addsD [OF adds_each profs]) (rule write_member_adds)
  then have "tw_members tw' = tw_members tw @ written_members meta_bytes seg_bytes inp"
    using addsD [OF write_member_adds meta] sb(2) copy_member_adds [OF dump] tar_call_Inr [OF fin]
    by (simp add: written_members_def)
  with em sb(1,3) copy_member_adds [OF dump] kinds show ?thesis by (intro that) auto
qed

lemma kind_of_name:
  "tm_name m = MetaMember \<Longrightarrow> kind_of m = KMeta"
  "tm_name m = SegmentsMember \<Longrightarrow> kind_of m = KIndex"
  "tm_name m = HeapDumpMember \<Longrightarrow> kind_of m = KDump"
  "profileKind (tm_name m) \<noteq> [] \<Longrightarrow> kind_of m = KProfile"
  "is_segment_member (tm_name m) \<Longrightarrow> kind_of m = KSegment"
  using kind_iff [of m] by simp_all

lemma segment_member_props [simp]:
  "tm_name (segment_member ks) = segmentMemberName (fst ks)" "kind_of (segment_member ks) = KSegment"
  "tm_regular (segment_member ks)" "tm_error (segment_member ks) = None"
  by (simp_all add: segment_member_def sized_def kind_of_name segment_member_name)

lemma plain_kinds [simp]:
  "kind_of (plain_member MetaMember bs) = KMeta" "kind_of (plain_member SegmentsMember bs) = KIndex"
  "kind_of (sized HeapDumpMember j bs) = KDump" "profileKind n \<noteq> [] \<Longrightarrow> kind_of (plain_member n bs) = KProfile"
  "tm_regular (sized n j bs)" "tm_error (sized n j bs) = None" "tm_name (sized n j bs) = n"
  by (simp_all add: kind_of_name sized_def)

definition profile_members :: "write_input \<Rightarrow> tar_member list" where
  "profile_members inp = map (\<lambda>n. plain_member n (the (map_of (win_profiles inp) n))) (profile_names inp)"

lemma profile_members_kind:
  "\<forall>n \<in> set (profile_names inp). profileKind n \<noteq> [] \<Longrightarrow>
    of_kind k (profile_members inp) = (if k = KProfile then profile_members inp else [])"
  by (auto simp: profile_members_def filter_map filter_empty_conv comp_def intro!: filter_True)

lemma segment_members_kind: "of_kind k (map segment_member ks) = (if k = KSegment then map segment_member ks else [])"
  by (simp add: filter_map comp_def)

lemma written_kinds:
  fixes mb sb :: "byte list"
  assumes "\<forall>n \<in> set (profile_names inp). profileKind n \<noteq> []"
  defines "ms \<equiv> written_members mb sb inp" and "ks \<equiv> enumerate 0 (win_segments inp)"
  shows "of_kind KMeta ms = [plain_member MetaMember mb]"
    and "of_kind KIndex ms = (if win_segments inp = [] then [] else [plain_member SegmentsMember sb])"
    and "of_kind KSegment ms = map segment_member ks"
    and "of_kind KProfile ms = profile_members inp"
    and "of_kind KDump ms = [sized HeapDumpMember (sint (win_dump_size inp)) (win_dump inp)]"
    and "known ms = ms"
proof -
  have ms: "ms = [plain_member MetaMember mb] @
     (if win_segments inp = [] then [] else plain_member SegmentsMember sb # map segment_member ks) @
     profile_members inp @ [sized HeapDumpMember (sint (win_dump_size inp)) (win_dump inp)]"
    by (simp add: ms_def written_members_def profile_members_def ks_def)
  note simps = ms segment_members_kind profile_members_kind [OF assms(1)]
  show "of_kind KMeta ms = [plain_member MetaMember mb]" by (simp add: simps)
  show "of_kind KIndex ms = (if win_segments inp = [] then [] else [plain_member SegmentsMember sb])"
    by (simp add: simps)
  show "of_kind KSegment ms = map segment_member ks" by (simp add: simps ks_def)
  show "of_kind KProfile ms = profile_members inp" by (simp add: simps)
  show "of_kind KDump ms = [sized HeapDumpMember (sint (win_dump_size inp)) (win_dump inp)]" by (simp add: simps)
  show "known ms = ms" using assms(1) by (auto simp: ms profile_members_def filter_id_conv)
qed

lemma segment_names: "map (\<lambda>ks. segmentMemberName (fst ks)) (enumerate k segs) = map segmentMemberName [k..<k + length segs]"
proof -
  have "map segmentMemberName (map fst (enumerate k segs)) = map segmentMemberName [k..<k + length segs]" by simp
  then show ?thesis by (simp only: map_map comp_def)
qed

lemma written_names_distinct:
  assumes "\<forall>n \<in> set (profile_names inp). profileKind n \<noteq> []" "distinct (map fst (win_profiles inp))"
  shows "distinct (map tm_name (written_members mb sb inp))"
proof -
  have seg: "distinct (map segmentMemberName [0..<length (win_segments inp)])"
    by (simp add: distinct_map inj_on_def segmentMemberName_inj)
  have prof: "distinct (profile_names inp)" using assms(2) by (simp add: profile_names_def)
  have ne: "x \<noteq> segmentMemberName k" if "\<not> is_segment_member x" for x k using that segment_member_name by blast
  note nes = ne [OF segment_member_not(1)] ne [OF segment_member_not(2)] ne [OF segment_member_not(3)]
    ne [OF segment_member_not(4)] ne [OF segment_member_not(5)]
  show ?thesis
    using seg prof assms(1) member_names_distinct nes nes [symmetric]
    by (auto simp: written_members_def comp_def profileKind_cases segment_names)
qed

lemma segment_blocks_known:
  "list_all2 (\<lambda>info d. map_of segs (si_member info) = Some d) infos ds \<Longrightarrow> segment_blocks segs infos = Inr ds"
  by (induction rule: list_all2_induct) simp_all

definition segment_data :: "write_segment \<Rightarrow> byte list" where
  "segment_data s = take (nat (sint (wsg_size s))) (wsg_data s)"

lemma written_blocks:
  "segment_blocks (map (\<lambda>m. (tm_name m, tm_data m)) (map segment_member (enumerate k segs)))
     (map segment_info_of (enumerate k segs)) = Inr (map segment_data segs)"
proof (rule segment_blocks_known)
  let ?al = "map (\<lambda>m. (tm_name m, tm_data m)) (map segment_member (enumerate k segs))"
  have "map fst ?al = map segmentMemberName (map fst (enumerate k segs))" by (simp add: comp_def segment_names)
  then have d: "distinct (map fst ?al)" by (simp add: distinct_map inj_on_def segmentMemberName_inj)
  have entry: "map_of ?al (si_member (segment_info_of (k + i, s))) = Some (segment_data s)"
    if "i < length segs" "s = segs ! i" for i s
  proof -
    have "(segmentMemberName (k + i), segment_data s) \<in> set ?al"
    proof -
      have "enumerate k segs ! i = (k + i, s)" using that by (simp add: nth_enumerate_eq)
      then have "(k + i, s) \<in> set (enumerate k segs)" using that(1) by (metis length_enumerate nth_mem)
      then show ?thesis by (force simp: segment_member_def sized_def segment_data_def)
    qed
    then show ?thesis using d by (simp add: map_of_eq_Some_iff segment_info_of_def)
  qed
  show "list_all2 (\<lambda>info d. map_of ?al (si_member info) = Some d) (map segment_info_of (enumerate k segs))
      (map segment_data segs)"
    unfolding list_all2_conv_all_nth using entry by (auto simp: nth_enumerate_eq)
qed

lemma profile_data: "map_of (map (\<lambda>m. (tm_name m, tm_data m)) (profile_members inp)) = map_of (win_profiles inp)"
proof
  fix n
  have "map_of (map (\<lambda>m. (tm_name m, tm_data m)) (profile_members inp)) n =
      ((Some \<circ> (\<lambda>n. the (map_of (win_profiles inp) n))) |` set (profile_names inp)) n"
    unfolding map_of_map_restrict [symmetric] by (simp add: profile_members_def comp_def)
  also have "\<dots> = map_of (win_profiles inp) n"
  proof (cases "n \<in> fst ` set (win_profiles inp)")
    case True
    then obtain v where "map_of (win_profiles inp) n = Some v" by (metis map_of_eq_None_iff not_Some_eq)
    then show ?thesis using True by (simp add: profile_names_def restrict_map_def)
  next
    case False
    then have "map_of (win_profiles inp) n = None" by (simp add: map_of_eq_None_iff)
    with False show ?thesis by (simp add: profile_names_def restrict_map_def)
  qed
  finally show "map_of (map (\<lambda>m. (tm_name m, tm_data m)) (profile_members inp)) n = map_of (win_profiles inp) n" .
qed

lemma sum_map_of:
  assumes "distinct (map fst al)"
  shows "sum_list (map (\<lambda>n. f (the (map_of al n))) (map fst al)) = sum_list (map (\<lambda>(n, v). f v) al)"
  using assms
proof (induction al)
  case (Cons a al)
  obtain k v where a: "a = (k, v)" by fastforce
  have eq: "map (\<lambda>n. f (the (map_of (a # al) n))) (map fst al) = map (\<lambda>n. f (the (map_of al n))) (map fst al)"
    by (rule map_cong [OF refl]) (use Cons.prems a in auto)
  have "distinct (map fst al)" using Cons.prems by simp
  from Cons.IH [OF this] show ?case by (simp only: list.map sum_list.Cons eq) (simp add: a)
qed simp

lemma profile_size:
  assumes "distinct (map fst (win_profiles inp))"
  shows "sum_list (map tm_size (profile_members inp)) = sum_list (map (\<lambda>(n, bs). int (length bs)) (win_profiles inp))"
proof -
  have "sum_list (map tm_size (profile_members inp)) =
      sum_list (map (\<lambda>n. int (length (the (map_of (win_profiles inp) n)))) (profile_names inp))"
    by (simp add: profile_members_def comp_def)
  also have "\<dots> = sum_list (map (\<lambda>n. int (length (the (map_of (win_profiles inp) n)))) (map fst (win_profiles inp)))"
  proof -
    let ?f = "\<lambda>n. int (length (the (map_of (win_profiles inp) n)))"
    have "mset (map ?f (profile_names inp)) = mset (map ?f (map fst (win_profiles inp)))"
      by (simp add: profile_names_def multiset.map_comp)
    then have "sum_mset (mset (map ?f (profile_names inp))) = sum_mset (mset (map ?f (map fst (win_profiles inp))))"
      by (rule arg_cong)
    then show ?thesis unfolding sum_mset_sum_list .
  qed
  also have "\<dots> = sum_list (map (\<lambda>(n, bs). int (length bs)) (win_profiles inp))" by (rule sum_map_of [OF assms])
  finally show ?thesis .
qed

definition write_fits :: "reader_options \<Rightarrow> byte list \<Rightarrow> byte list \<Rightarrow> write_input \<Rightarrow> bool" where
  "write_fits opts mb sb inp \<longleftrightarrow> limits_ok opts \<and>
     int (length mb) \<le> rdo_max_metadata (effective_limits opts) \<and>
     int (length sb) \<le> rdo_max_index (effective_limits opts) \<and>
     sum_list (map (\<lambda>(n, bs). int (length bs)) (win_profiles inp)) \<le> rdo_max_profile (effective_limits opts) \<and>
     sum_list (map (\<lambda>s. sint (wsg_size s)) (win_segments inp)) \<le> rdo_max_rodata (effective_limits opts)"

lemma segment_sizes:
  assumes "\<forall>s \<in> set segs. 0 \<le> sint (wsg_size s) \<and> sint (wsg_size s) \<le> int (length (wsg_data s))"
  shows "map tm_size (map segment_member (enumerate k segs)) = map (\<lambda>s. sint (wsg_size s)) segs"
  using assms by (induction segs arbitrary: k) (simp_all add: segment_member_def sized_def min_absorb2 nat_le_iff)

lemma written_meta_version: "mt_format_version (written_meta now inp) = FormatVersion"
  by (simp add: written_meta_def filled_meta_def Let_def)

lemma written_reads_back:
  assumes run: "write_bundle fails em ei now inp \<lparr>tw_members = [], tw_calls = 0\<rparr> = Inr ((), tw)"
    and mb: "em (written_meta now inp) = Inr mb" and dm: "dm mb None = Inr (written_meta now inp, [])"
    and sb: "ei (map segment_info_of (enumerate 0 (win_segments inp))) = Inr sb"
    and di: "di sb None = Inr (map segment_info_of (enumerate 0 (win_segments inp)), [])"
    and dist: "distinct (map fst (win_profiles inp))" and fits: "write_fits opts mb sb inp" and env: "file_works env"
    and sr: "new_segments_reader (map segment_info_of (enumerate 0 (win_segments inp)))
      (map segment_data (win_segments inp)) = Inr sr"
  shows "\<exists>b. bundle_open env dm di opts (written_stream tw) d =
      (Inr b, d(dump_path env \<mapsto> take (nat (sint (win_dump_size inp))) (win_dump inp))) \<and>
    bun_meta b = written_meta now inp \<and> map_of (bun_profiles b) = map_of (win_profiles inp) \<and>
    bun_segments b = (if win_segments inp = [] then None else Some sr) \<and> bun_dump_path b = dump_path env"
proof -
  let ?ms = "written_members mb sb inp" and ?infos = "map segment_info_of (enumerate 0 (win_segments inp))"
  obtain mb' sb' where
    w: "em (written_meta now inp) = Inr mb'" "win_segments inp \<noteq> [] \<Longrightarrow> ei ?infos = Inr sb'"
      "tw_members tw = tw_members \<lparr>tw_members = [], tw_calls = 0\<rparr> @ written_members mb' sb' inp"
    and sizes: "\<forall>s \<in> set (win_segments inp). 0 \<le> sint (wsg_size s) \<and> sint (wsg_size s) \<le> int (length (wsg_data s))"
    and "0 \<le> sint (win_dump_size inp)" "sint (win_dump_size inp) \<le> int (length (win_dump inp))"
    and kinds: "\<forall>n \<in> set (profile_names inp). profileKind n \<noteq> []"
    by (rule write_bundle_Inr [OF run]) (rule that)
  have "written_members mb' sb' inp = ?ms" using w(1,2) mb sb by (auto simp: written_members_def)
  with w(3) have ts: "ts_members (written_stream tw) = ?ms" "ts_end (written_stream tw) = EOF"
    by (simp_all add: written_stream_def)
  note wk = written_kinds [OF kinds, of mb sb]
  have "decode_single dm (plain_member MetaMember mb) = Inr (written_meta now inp)"
    and "decode_single di (plain_member SegmentsMember sb) = Inr ?infos"
    using dm di by (simp_all add: decode_single_def json_blank_def)
  note dec = this
  have lim: "limits_ok opts" using fits by (simp add: write_fits_def)
  obtain p where p: "te_create env = Inr p" "p \<noteq> []" using env by (auto simp: file_works_def)
  have "size_sum KProfile ?ms = sum_list (map (\<lambda>(n, bs). int (length bs)) (win_profiles inp))"
    by (simp only: size_sum_def wk profile_size [OF dist])
  moreover have "size_sum KSegment ?ms = sum_list (map (\<lambda>s. sint (wsg_size s)) (win_segments inp))"
    by (simp only: size_sum_def wk segment_sizes [OF sizes])
  moreover have "acceptable_member env dm di (effective_limits opts) m" if "m \<in> set ?ms" for m
  proof -
    from that consider "m = plain_member MetaMember mb" | "m = plain_member SegmentsMember sb"
      | ks where "m = segment_member ks" | n where "m = plain_member n (the (map_of (win_profiles inp) n))" "n \<in> set (profile_names inp)"
      | "m = sized HeapDumpMember (sint (win_dump_size inp)) (win_dump inp)"
      by (auto simp: written_members_def split: if_splits)
    then show ?thesis
    proof cases
      case 4
      then have "kind_of m = KProfile" using kinds by simp
      then show ?thesis using 4(1) by (simp add: acceptable_member_def)
    next
      case (3 ks)
      have "0 \<le> tm_size (segment_member ks)" by (simp add: segment_member_def sized_def)
      then show ?thesis using 3 by (simp add: acceptable_member_def)
    qed (use dec fits env in \<open>simp_all add: acceptable_member_def write_fits_def file_works_def p\<close>)
  qed
  ultimately have acc: "acceptable env dm di (effective_limits opts) ?ms"
    using written_names_distinct [OF kinds dist, of mb sb] fits by (simp add: acceptable_def wk write_fits_def)
  have "op_infos (opened_state env dm di ?ms) = (if win_segments inp = [] then [] else ?infos)"
    "op_segments (opened_state env dm di ?ms) = map (\<lambda>m. (tm_name m, tm_data m)) (map segment_member (enumerate 0 (win_segments inp)))"
    by (simp_all only: opened_state_def named_data_def wk open_state.simps)
      (simp add: member_value_def dec)
  then have segs: "opened_segments di ?ms = Inr (if win_segments inp = [] then None else Some sr)"
    using written_blocks [of 0 "win_segments inp"] sr
    by (simp only: open_segments_state [symmetric, where env = env and dm = dm] open_segments_def)
      (cases "win_segments inp", simp_all)
  have "te_create env \<noteq> Inr []" using p by simp
  from bundle_open_Inr [OF this, of dm di opts "written_stream tw" d] acc lim segs
  have "bundle_open env dm di opts (written_stream tw) d =
      (Inr (bundle_of env (written_meta now inp) ?ms (if win_segments inp = [] then None else Some sr)), dump_disk env ?ms d)"
    by (simp add: ts wk member_value_def dec written_meta_version FormatVersion_def)
  moreover have "dump_disk env ?ms d = d(dump_path env \<mapsto> take (nat (sint (win_dump_size inp))) (win_dump inp))"
    by (simp only: dump_disk_def wk) (simp add: sized_def)
  moreover have "map_of (named_data KProfile ?ms) = map_of (win_profiles inp)"
    by (simp only: named_data_def wk profile_data)
  ultimately show ?thesis by (auto simp: bundle_of_def)
qed

end
