(* ===== verification/HeapCapture.thy ===== *)
theory HeapCapture
  imports Prelude "HOL-Library.Multiset"
begin

text \<open>
  Capturing a heap dump into a temporary file (\<open>internal/capture/capture.go\<close>) with its preflight
  (\<open>internal/diskspace/space.go\<close>): the options and their defaults, every error path with what it
  releases, and the clean-up that the caller owns. What the operating system and the runtime
  answer is an environment; the state is the temporary directories and open files that exist, and
  the contents of the files on the disk.
\<close>

section \<open>Computations that keep their state on an error\<close>

type_synonym ('e, 's, 'a) sx = "'s \<Rightarrow> ('e + 'a) \<times> 's"

definition sx_return :: "'a \<Rightarrow> ('e, 's, 'a) sx" where "sx_return x = (\<lambda>s. (Inr x, s))"

definition sx_fail :: "'e \<Rightarrow> ('e, 's, 'a) sx" where "sx_fail e = (\<lambda>s. (Inl e, s))"

definition sx_bind :: "('e, 's, 'a) sx \<Rightarrow> ('a \<Rightarrow> ('e, 's, 'b) sx) \<Rightarrow> ('e, 's, 'b) sx" where
  "sx_bind m f = (\<lambda>s. case m s of (Inl e, t) \<Rightarrow> (Inl e, t) | (Inr x, t) \<Rightarrow> f x t)"

definition sx_do :: "('s \<Rightarrow> 's) \<Rightarrow> ('e, 's, unit) sx" where "sx_do f = (\<lambda>s. (Inr (), f s))"

definition sx_get :: "('s \<Rightarrow> 'a) \<Rightarrow> ('e, 's, 'a) sx" where "sx_get f = (\<lambda>s. (Inr (f s), s))"

definition sx_check :: "'e option \<Rightarrow> ('e, 's, unit) sx" where
  "sx_check r = (case r of None \<Rightarrow> sx_return () | Some e \<Rightarrow> sx_fail e)"

text \<open>A deferred call runs after the body, whatever it returned; \<open>sx_on_error\<close> only after an error.\<close>

definition sx_defer :: "('s \<Rightarrow> 's) \<Rightarrow> ('e, 's, 'a) sx \<Rightarrow> ('e, 's, 'a) sx" where
  "sx_defer f m = (\<lambda>s. case m s of (r, t) \<Rightarrow> (r, f t))"

definition sx_on_error :: "('s \<Rightarrow> 's) \<Rightarrow> ('e, 's, 'a) sx \<Rightarrow> ('e, 's, 'a) sx" where
  "sx_on_error f m = (\<lambda>s. case m s of (Inl e, t) \<Rightarrow> (Inl e, f t) | (Inr x, t) \<Rightarrow> (Inr x, t))"

named_theorems sx_defs "equations that run a computation which keeps its state"

declare sx_return_def [sx_defs] sx_fail_def [sx_defs] sx_bind_def [sx_defs] sx_do_def [sx_defs] sx_get_def [sx_defs]
  sx_check_def [sx_defs] sx_defer_def [sx_defs] sx_on_error_def [sx_defs]

section \<open>The space check\<close>

definition ErrSpaceUnsupported :: go_error where
  "ErrSpaceUnsupported = Errorf (Fmt ''free-space query is unsupported on this platform'' [])"

definition DefaultMinFreeBytes :: u64 where "DefaultMinFreeBytes = 64 * 2 ^ 20"

text \<open>\<open>available\<close> is the system's answer for a path.\<close>

definition disk_check :: "(string \<Rightarrow> go_error + u64) \<Rightarrow> string \<Rightarrow> u64 \<Rightarrow> go_error option" where
  "disk_check available path minimum =
     (case available path of
        Inl e \<Rightarrow>
          if e = ErrSpaceUnsupported \<and> minimum = 0 then None
          else Some (Wrapf (Fmt ''check scratch space'' []) e)
      | Inr n \<Rightarrow>
          let minimum = (if minimum = 0 then DefaultMinFreeBytes else minimum) in
          if n < minimum then
            Some (Errorf (Fmt ''insufficient scratch space: available %d bytes, need at least %d'' [FU n, FU minimum]))
          else None)"

section \<open>Capture\<close>

text \<open>
  A writer answers with its error and the bytes it left in the file. The defaults of the options
  are those of \<open>withDefaults\<close>: the runtime's writer and the space check above.
\<close>

type_synonym heap_writer = "go_error option \<times> byte list"
type_synonym space_check = "string \<Rightarrow> u64 \<Rightarrow> go_error option"

record capture_options =
  co_gc_before :: bool
  co_scratch_dir :: string
  co_min_free_bytes :: u64
  co_max_dump_bytes :: i64
  co_check_space :: "space_check option"
  co_writer :: "heap_writer option"

record capture_env =
  ce_make_dir :: "string \<Rightarrow> go_error + string"
  ce_available :: "string \<Rightarrow> go_error + u64"
  ce_create :: "string \<Rightarrow> go_error + string"
  ce_runtime_dump :: "byte list"
  ce_seek :: "go_error option"
  ce_stat :: "go_error option"

text \<open>
  \<open>rs_files\<close> are the files that are open, as often as they are; \<open>rs_contents\<close> is what the disk holds.
  \<open>ce_create\<close> chooses the name of a new file in a directory (\<open>os.CreateTemp\<close>).
\<close>

record resources =
  rs_dirs :: "string set"
  rs_files :: "string multiset"
  rs_contents :: "string \<Rightarrow> byte list option"
  rs_ctx :: ctx
  rs_collections :: nat

type_synonym 'a capture_run = "(go_error, resources, 'a) sx"

definition rs_poll :: "unit capture_run" where
  "rs_poll rs =
     (case ctx_err (rs_ctx rs) of (r, c) \<Rightarrow>
        ((case r of None \<Rightarrow> Inr () | Some e \<Rightarrow> Inl e), rs\<lparr>rs_ctx := c\<rparr>))"

definition add_dir :: "string \<Rightarrow> resources \<Rightarrow> resources" where
  "add_dir p rs = rs\<lparr>rs_dirs := insert p (rs_dirs rs)\<rparr>"

text \<open>\<open>os.RemoveAll\<close> takes the files of a directory with it.\<close>

definition in_dir :: "string \<Rightarrow> string \<Rightarrow> bool" where
  "in_dir dir p \<longleftrightarrow> take (length dir + 1) p = dir @ ''/''"

definition remove_dir :: "string \<Rightarrow> resources \<Rightarrow> resources" where
  "remove_dir dir rs =
     rs\<lparr>rs_dirs := rs_dirs rs - {dir}, rs_contents := (\<lambda>p. if in_dir dir p then None else rs_contents rs p)\<rparr>"

definition open_file :: "string \<Rightarrow> resources \<Rightarrow> resources" where
  "open_file p rs = rs\<lparr>rs_files := add_mset p (rs_files rs)\<rparr>"

definition close_file :: "string \<Rightarrow> resources \<Rightarrow> resources" where
  "close_file p rs = rs\<lparr>rs_files := rs_files rs - {#p#}\<rparr>"

lemma close_open [simp]: "close_file p (open_file p rs) = rs"
  by (simp add: open_file_def close_file_def)

definition write_file :: "string \<Rightarrow> byte list \<Rightarrow> resources \<Rightarrow> resources" where
  "write_file p bytes rs = rs\<lparr>rs_contents := (rs_contents rs)(p \<mapsto> bytes)\<rparr>"

definition create_file :: "string \<Rightarrow> resources \<Rightarrow> resources" where
  "create_file p rs = open_file p (write_file p [] rs)"

definition collect_garbage :: "resources \<Rightarrow> resources" where
  "collect_garbage rs = rs\<lparr>rs_collections := rs_collections rs + 1\<rparr>"

text \<open>The captured dump: \<open>cd_dir\<close> is the directory that \<open>Cleanup\<close> still has to remove.\<close>

record captured =
  cd_path :: string
  cd_size :: i64
  cd_contents :: "byte list"
  cd_dir :: "string option"

definition runtime_writer :: "capture_env \<Rightarrow> heap_writer" where
  "runtime_writer env = (None, ce_runtime_dump env)"

definition capture_defaults :: "capture_env \<Rightarrow> capture_options \<Rightarrow> capture_options" where
  "capture_defaults env opts =
     opts\<lparr>co_writer := Some (case co_writer opts of None \<Rightarrow> runtime_writer env | Some w \<Rightarrow> w),
          co_check_space := Some (case co_check_space opts of None \<Rightarrow> disk_check (ce_available env) | Some f \<Rightarrow> f)\<rparr>"

definition wrap_some :: "string \<Rightarrow> go_error option \<Rightarrow> go_error option" where
  "wrap_some what r = map_option (Wrapf (Fmt what [])) r"

text \<open>From the open file to the captured dump; each error closes the file.\<close>

definition capture_file :: "capture_env \<Rightarrow> capture_options \<Rightarrow> string \<Rightarrow> string \<Rightarrow> captured capture_run" where
  "capture_file env opts dir path =
     (case the (co_writer opts) of (write_error, contents) \<Rightarrow>
      let sz = of_nat (length contents) in
      sx_bind (sx_do (write_file path contents)) (\<lambda>_.
      sx_bind (sx_check (wrap_some ''write heap dump'' write_error)) (\<lambda>_.
      sx_bind (sx_check (wrap_some ''rewind heap dump'' (ce_seek env))) (\<lambda>_.
      sx_bind (sx_check (wrap_some ''stat heap dump'' (ce_stat env))) (\<lambda>_.
      sx_bind rs_poll (\<lambda>_.
      if 0 <s co_max_dump_bytes opts \<and> co_max_dump_bytes opts <s sz then
        sx_fail (Errorf (Fmt ''heap dump size %d exceeds limit %d'' [FU sz, FU (co_max_dump_bytes opts)]))
      else sx_return \<lparr>cd_path = path, cd_size = sz, cd_contents = contents, cd_dir = Some dir\<rparr>))))))"

text \<open>The body after the directory exists.\<close>

definition capture_in :: "capture_env \<Rightarrow> capture_options \<Rightarrow> string \<Rightarrow> captured capture_run" where
  "capture_in env opts dir =
     sx_bind (sx_check (the (co_check_space opts) dir (co_min_free_bytes opts))) (\<lambda>_.
     sx_bind (if co_gc_before opts then sx_do collect_garbage else sx_return ()) (\<lambda>_.
     sx_bind rs_poll (\<lambda>_.
     case ce_create env dir of
       Inl e \<Rightarrow> sx_fail (Wrapf (Fmt ''create heap dump temp file'' []) e)
     | Inr name \<Rightarrow>
         let path = dir @ ''/'' @ name in
         sx_bind (sx_do (create_file path)) (\<lambda>_.
         sx_on_error (close_file path) (capture_file env opts dir path)))))"

definition capture_dump :: "capture_env \<Rightarrow> capture_options \<Rightarrow> captured capture_run" where
  "capture_dump env opts =
     sx_bind rs_poll (\<lambda>_.
     if co_max_dump_bytes opts <s 0 then
       sx_fail (Errorf (Fmt ''maximum heap dump bytes must be non-negative'' []))
     else
       let opts = capture_defaults env opts in
       case ce_make_dir env (co_scratch_dir opts) of
         Inl e \<Rightarrow> sx_fail (Wrapf (Fmt ''create temp dir'' []) e)
       | Inr dir \<Rightarrow>
           sx_bind (sx_do (add_dir dir)) (\<lambda>_. sx_on_error (remove_dir dir) (capture_in env opts dir)))"

definition cleanup :: "captured option \<Rightarrow> resources \<Rightarrow> captured option \<times> resources" where
  "cleanup c rs =
     (case c of
        None \<Rightarrow> (None, rs)
      | Some cd \<Rightarrow>
          (case cd_dir cd of
             None \<Rightarrow> (c, rs)
           | Some dir \<Rightarrow> (Some (cd\<lparr>cd_dir := None\<rparr>), remove_dir dir (close_file (cd_path cd) rs))))"

section \<open>Nothing is left behind\<close>

text \<open>The names that the system chooses for directories are new, and nothing is in them.\<close>

definition new_names :: "capture_env \<Rightarrow> resources \<Rightarrow> bool" where
  "new_names env rs \<longleftrightarrow> (\<forall>d p. ce_make_dir env d = Inr p \<longrightarrow> p \<notin> rs_dirs rs \<and> (\<forall>q. in_dir p q \<longrightarrow> rs_contents rs q = None))"

definition same_files :: "resources \<Rightarrow> resources \<Rightarrow> bool" where
  "same_files a b \<longleftrightarrow> rs_dirs a = rs_dirs b \<and> rs_files a = rs_files b \<and> rs_contents a = rs_contents b"

lemma rs_poll_files: "rs_poll rs = (r, rs') \<Longrightarrow> same_files rs' rs \<and> rs_collections rs' = rs_collections rs"
  by (auto simp: rs_poll_def same_files_def split: prod.splits option.splits)

lemma same_files_refl [simp]: "same_files rs rs"
  by (simp add: same_files_def)

lemma same_files_trans: "same_files a b \<Longrightarrow> same_files b c \<Longrightarrow> same_files a c"
  by (simp add: same_files_def)

text \<open>Computations that leave the files as they found them, whatever they return.\<close>

definition keeps_files :: "('e, resources, 'a) sx \<Rightarrow> bool" where
  "keeps_files m \<longleftrightarrow> (\<forall>rs r rs'. m rs = (r, rs') \<longrightarrow> same_files rs' rs)"

named_theorems keeps_files_intros "rules that build up computations which keep the files"

lemma keeps_filesD: "keeps_files m \<Longrightarrow> m rs = (r, rs') \<Longrightarrow> same_files rs' rs"
  by (auto simp: keeps_files_def)

lemma keeps_files_return [keeps_files_intros]: "keeps_files (sx_return x)"
  by (simp add: keeps_files_def sx_return_def)

lemma keeps_files_fail [keeps_files_intros]: "keeps_files (sx_fail e)"
  by (simp add: keeps_files_def sx_fail_def)

lemma keeps_files_get [keeps_files_intros]: "keeps_files (sx_get f)"
  by (simp add: keeps_files_def sx_get_def)

lemma keeps_files_poll [keeps_files_intros]: "keeps_files rs_poll"
  by (auto simp: keeps_files_def dest: rs_poll_files)

lemma keeps_files_bind [keeps_files_intros]:
  "keeps_files m \<Longrightarrow> (\<And>x. keeps_files (f x)) \<Longrightarrow> keeps_files (sx_bind m f)"
  by (auto simp: keeps_files_def sx_bind_def split: prod.splits sum.splits) (blast intro: same_files_trans)

text \<open>A file that is open while a computation runs which keeps the files.\<close>

lemma keeps_files_opened [keeps_files_intros]:
  assumes "keeps_files m"
  shows "keeps_files (sx_bind (sx_do (open_file p)) (\<lambda>_. sx_defer (close_file p) m))"
proof -
  have "same_files (close_file p t) rs" if "m (open_file p rs) = (r, t)" for rs r t
    using keeps_filesD [OF assms that] by (simp add: same_files_def open_file_def close_file_def)
  then show ?thesis by (auto simp: keeps_files_def sx_bind_def sx_do_def sx_defer_def split: prod.splits)
qed

lemma keeps_files_if [keeps_files_intros]:
  "(b \<Longrightarrow> keeps_files m) \<Longrightarrow> (\<not> b \<Longrightarrow> keeps_files m') \<Longrightarrow> keeps_files (if b then m else m')"
  by simp

lemma keeps_files_option [keeps_files_intros]:
  "keeps_files m \<Longrightarrow> (\<And>x. keeps_files (f x)) \<Longrightarrow> keeps_files (case v of None \<Rightarrow> m | Some x \<Rightarrow> f x)"
  by (simp split: option.split)

lemma keeps_files_sum [keeps_files_intros]:
  "(\<And>x. keeps_files (f x)) \<Longrightarrow> (\<And>x. keeps_files (g x)) \<Longrightarrow> keeps_files (case v of Inl x \<Rightarrow> f x | Inr x \<Rightarrow> g x)"
  by (simp split: sum.split)

lemma keeps_files_prod [keeps_files_intros]:
  "(\<And>x y. keeps_files (f x y)) \<Longrightarrow> keeps_files (case v of (x, y) \<Rightarrow> f x y)"
  by (simp split: prod.split)

text \<open>A dump that was kept: what the writer left, within the limit.\<close>

definition dump_ok :: "capture_env \<Rightarrow> capture_options \<Rightarrow> captured \<Rightarrow> bool" where
  "dump_ok env opts cd \<longleftrightarrow> the (co_writer (capture_defaults env opts)) = (None, cd_contents cd) \<and>
     cd_size cd = of_nat (length (cd_contents cd)) \<and>
     (0 <s co_max_dump_bytes opts \<longrightarrow> cd_size cd \<le>s co_max_dump_bytes opts)"

lemma capture_file_spec:
  assumes "capture_file env (capture_defaults env opts) dir path rs = (r, rs')"
  shows "rs_dirs rs' = rs_dirs rs \<and> rs_files rs' = rs_files rs \<and> rs_collections rs' = rs_collections rs \<and>
    (\<exists>bytes. rs_contents rs' = (rs_contents rs)(path \<mapsto> bytes) \<and>
      (\<forall>cd. r = Inr cd \<longrightarrow> cd_path cd = path \<and> cd_dir cd = Some dir \<and> cd_contents cd = bytes \<and> dump_ok env opts cd))"
  using assms
  by (auto simp: capture_file_def Let_def sx_defs wrap_some_def same_files_def signed.not_less dump_ok_def
      capture_defaults_def write_file_def split: prod.splits sum.splits option.splits if_splits dest!: rs_poll_files)

lemma in_dir_file [simp]: "in_dir dir (dir @ CHR ''/'' # name)"
  by (simp add: in_dir_def)

lemma capture_in_spec:
  assumes run: "capture_in env (capture_defaults env opts) dir rs = (r, rs')"
  shows "rs_dirs rs' = rs_dirs rs \<and> (\<forall>q. \<not> in_dir dir q \<longrightarrow> rs_contents rs' q = rs_contents rs q) \<and>
    (case r of Inl _ \<Rightarrow> rs_files rs' = rs_files rs
     | Inr cd \<Rightarrow> rs_files rs' = add_mset (cd_path cd) (rs_files rs) \<and> cd_dir cd = Some dir \<and> dump_ok env opts cd \<and>
         rs_contents rs' = (rs_contents rs)(cd_path cd \<mapsto> cd_contents cd) \<and> in_dir dir (cd_path cd) \<and>
         rs_collections rs' = rs_collections rs + (if co_gc_before opts then 1 else 0))"
proof -
  have gc: "co_gc_before (capture_defaults env opts) = co_gc_before opts" by (simp add: capture_defaults_def)
  have outside: "p \<noteq> q" if "in_dir dir p" "\<not> in_dir dir q" for p q using that by blast
  show ?thesis using run
    by (auto simp: capture_in_def sx_defs same_files_def open_file_def close_file_def create_file_def write_file_def
        collect_garbage_def gc Let_def outside
        split: prod.splits sum.splits option.splits if_splits dest!: rs_poll_files capture_file_spec)
qed

lemma capture_dump_spec:
  assumes run: "capture_dump env opts rs = (r, rs')" and new: "new_names env rs"
  shows "case r of Inl _ \<Rightarrow> same_files rs' rs
    | Inr cd \<Rightarrow> rs_files rs' = add_mset (cd_path cd) (rs_files rs) \<and>
        (\<exists>dir. cd_dir cd = Some dir \<and> rs_dirs rs' = insert dir (rs_dirs rs) \<and> dir \<notin> rs_dirs rs \<and>
          in_dir dir (cd_path cd) \<and> (\<forall>q. in_dir dir q \<longrightarrow> rs_contents rs q = None)) \<and>
        rs_contents rs' = (rs_contents rs)(cd_path cd \<mapsto> cd_contents cd) \<and> dump_ok env opts cd \<and>
        rs_collections rs' = rs_collections rs + (if co_gc_before opts then 1 else 0)"
proof -
  obtain r1 rs1 where p: "rs_poll rs = (r1, rs1)" by fastforce
  note p1 = rs_poll_files [OF p]
  show ?thesis
    using run p1 new
    by (auto simp: capture_dump_def sx_defs p Let_def same_files_def remove_dir_def add_dir_def new_names_def fun_eq_iff
        split: prod.splits sum.splits if_splits dest!: capture_in_spec)
qed

lemma cleanup_restores:
  assumes "capture_dump env opts rs = (Inr cd, rs')" "new_names env rs" "same_files rs2 rs'"
  shows "same_files (snd (cleanup (Some cd) rs2)) rs"
    and "cleanup (fst (cleanup (Some cd) rs2)) rs3 = (fst (cleanup (Some cd) rs2), rs3)"
  using capture_dump_spec [OF assms(1,2)] assms(3)
  by (auto simp: cleanup_def same_files_def remove_dir_def close_file_def fun_eq_iff)

section \<open>The interface of a capturer\<close>

text \<open>
  \<open>HeapDumpCapturer\<close> of \<open>internal/memusage/capture.go\<close>: a call answers with an error, or with the
  path of the dump and a function that releases what the call holds.
\<close>

type_synonym capturer = "bool \<Rightarrow> (string \<times> (resources \<Rightarrow> resources)) capture_run"

locale heap_capturer =
  fixes capture :: capturer and usable_state :: "resources \<Rightarrow> bool"
  assumes error_releases: "usable_state rs \<Longrightarrow> capture gc rs = (Inl e, rs') \<Longrightarrow> same_files rs' rs"
    and release_restores: "usable_state rs \<Longrightarrow> capture gc rs = (Inr (path, release), rs') \<Longrightarrow>
      same_files rs2 rs' \<Longrightarrow> same_files (release rs2) rs"
begin

text \<open>A user that defers the release and keeps the files as they are leaves nothing behind.\<close>

lemma deferred_release:
  assumes ok: "usable_state rs" and use: "\<And>path. keeps_files (body path)"
    and run: "sx_bind (capture gc) (\<lambda>(path, release). sx_defer release (body path)) rs = (r, rs')"
  shows "same_files rs' rs"
proof -
  obtain c rs1 where cap: "capture gc rs = (c, rs1)" by fastforce
  show ?thesis
  proof (cases c)
    case (Inl e)
    with run cap have "rs' = rs1" by (simp add: sx_bind_def)
    with error_releases [OF ok] cap Inl show ?thesis by blast
  next
    case (Inr pr)
    obtain path release where pr: "pr = (path, release)" by fastforce
    obtain r2 rs2 where b: "body path rs1 = (r2, rs2)" by fastforce
    with run cap Inr pr have "rs' = release rs2" by (simp add: sx_bind_def sx_defer_def)
    with release_restores [OF ok cap [unfolded Inr pr] keeps_filesD [OF use b]] show ?thesis by simp
  qed
qed

end

definition runtime_capturer :: "capture_env \<Rightarrow> string \<Rightarrow> u64 \<Rightarrow> i64 \<Rightarrow> capturer" where
  "runtime_capturer env dir min_free max_dump gc =
     sx_bind (capture_dump env \<lparr>co_gc_before = gc, co_scratch_dir = dir, co_min_free_bytes = min_free,
         co_max_dump_bytes = max_dump, co_check_space = None, co_writer = None\<rparr>)
       (\<lambda>cd. sx_return (cd_path cd, \<lambda>rs. snd (cleanup (Some cd) rs)))"

interpretation runtime: heap_capturer "runtime_capturer env dir min_free max_dump" "new_names env"
  for env dir min_free max_dump
proof
  fix rs gc e rs'
  assume "new_names env rs" "runtime_capturer env dir min_free max_dump gc rs = (Inl e, rs')"
  then show "same_files rs' rs"
    by (auto simp: runtime_capturer_def sx_bind_def sx_return_def split: prod.splits sum.splits dest: capture_dump_spec)
next
  fix rs gc path release rs' rs2
  assume new: "new_names env rs" and run: "runtime_capturer env dir min_free max_dump gc rs = (Inr (path, release), rs')"
    and same: "same_files rs2 rs'"
  from run obtain cd where "capture_dump env \<lparr>co_gc_before = gc, co_scratch_dir = dir,
      co_min_free_bytes = min_free, co_max_dump_bytes = max_dump, co_check_space = None, co_writer = None\<rparr> rs = (Inr cd, rs')"
    and "release = (\<lambda>rs. snd (cleanup (Some cd) rs))"
    by (auto simp: runtime_capturer_def sx_bind_def sx_return_def split: prod.splits sum.splits)
  then show "same_files (release rs2) rs" using cleanup_restores(1) [OF _ new same] by simp
qed

text \<open>What a successful capture leaves: the bytes that the runtime wrote, at the path it answers.\<close>

lemma runtime_capturer_dump:
  assumes run: "runtime_capturer env dir min_free max_dump gc rs = (Inr (path, release), rs')" and new: "new_names env rs"
  shows "rs_contents rs' path = Some (ce_runtime_dump env)"
proof -
  from run obtain cd where cap: "capture_dump env \<lparr>co_gc_before = gc, co_scratch_dir = dir, co_min_free_bytes = min_free,
      co_max_dump_bytes = max_dump, co_check_space = None, co_writer = None\<rparr> rs = (Inr cd, rs')" and path: "path = cd_path cd"
    by (auto simp: runtime_capturer_def sx_bind_def sx_return_def split: prod.splits sum.splits)
  from capture_dump_spec [OF cap new] show ?thesis
    by (simp add: path dump_ok_def capture_defaults_def runtime_writer_def)
qed

end
