(* ===== verification/MemServe.thy ===== *)
theory MemServe
  imports MemSessionFacts CaptureGate HeapCapture
begin

text \<open>
  The endpoint of \<open>internal/memusage\<close>: \<open>Compute\<close> (\<open>capture.go\<close>), which captures a dump and analyses
  it, the HTTP handler around it (\<open>handler.go\<close>), and the listing of label sets (\<open>bubbles.go\<close>).
\<close>

section \<open>Compute\<close>

text \<open>
  What the process and the system answer: the runtime facts, \<open>os.Open\<close> of a path with what the disk
  holds there, and the reader of the process memory with the name it is open under.
\<close>

record process_env =
  pe_local :: lookup_input
  pe_open :: "string \<Rightarrow> byte list option \<Rightarrow> go_error + dump_source"
  pe_process :: "go_error + string \<times> extra_reader"

record computer =
  cm_capturer :: "capturer option"
  cm_recoverer :: "recoverer option"
  cm_options :: mem_options

definition new_computer :: "capture_env \<Rightarrow> mem_options \<Rightarrow> computer" where
  "new_computer env opts =
     \<lparr>cm_capturer = Some (runtime_capturer env (mo_scratch_dir opts) (mo_min_free_bytes opts) (mo_max_dump_bytes opts)),
      cm_recoverer = Some default_recover, cm_options = opts\<rparr>"

definition computer_close :: "computer option \<Rightarrow> go_error option" where
  "computer_close c = None"

fun go_error_text :: "go_error \<Rightarrow> message" where
  "go_error_text EOF = Fmt ''EOF'' []"
| "go_error_text UnexpectedEOF = Fmt ''unexpected EOF'' []"
| "go_error_text Canceled = Fmt ''context canceled'' []"
| "go_error_text DeadlineExceeded = Fmt ''context deadline exceeded'' []"
| "go_error_text (DeviceError n) = Fmt ''device error %d'' [FI (int n)]"
| "go_error_text (Errorf m) = m"
| "go_error_text (Wrapf m e) = Fmt ''%s: %s'' [FM m, FM (go_error_text e)]"

definition open_process_reader :: "process_env \<Rightarrow> bool \<Rightarrow> (string \<times> extra_reader) option \<times> message option" where
  "open_process_reader env disabled =
     (if disabled then
        (None, Some (Fmt ''process memory reader disabled by options; literal pprof label strings may be unrecoverable'' []))
      else case pe_process env of
        Inl e \<Rightarrow>
          if e = ErrAddrUnsupported then
            (None, Some (Fmt ''process memory reader unavailable on this platform; literal pprof label strings may be unrecoverable'' []))
          else (None, Some (Fmt ''process memory reader unavailable: %v; literal pprof label strings may be unrecoverable''
            [FM (go_error_text e)]))
      | Inr r \<Rightarrow> (Some r, None))"

type_synonym 'a serve_run = "(mem_error, resources, 'a) sx"

text \<open>A step of the analysis runs on the context of the resources.\<close>

definition on_context :: "(mem_error, ctx, 'a) run \<Rightarrow> 'a serve_run" where
  "on_context m rs = (case m (rs_ctx rs) of Inl e \<Rightarrow> (Inl e, rs) | Inr (x, c) \<Rightarrow> (Inr x, rs\<lparr>rs_ctx := c\<rparr>))"

definition capture_failed :: "'a capture_run \<Rightarrow> 'a serve_run" where
  "capture_failed m rs = (case m rs of (Inl e, rs') \<Rightarrow> (Inl (CaptureFailedError e), rs') | (Inr x, rs') \<Rightarrow> (Inr x, rs'))"

text \<open>From the open dump on: the process reader is open while the analysis runs.\<close>

definition analyze_open ::
  "process_env \<Rightarrow> recoverer \<Rightarrow> mem_options \<Rightarrow> mem_request \<Rightarrow> dump_source \<Rightarrow> mem_response serve_run"
where
  "analyze_open env recover opts req src =
     (case open_process_reader env (mo_disable_process_reader opts) of
        (reader, warning) \<Rightarrow>
          let warnings = (case warning of None \<Rightarrow> [] | Some w \<Rightarrow> [w]);
              run = on_context (analyze_dump src recover (map_option snd reader) warnings req opts)
          in case reader of
               None \<Rightarrow> run
             | Some (name, _) \<Rightarrow> sx_bind (sx_do (open_file name)) (\<lambda>_. sx_defer (close_file name) run))"

text \<open>What \<open>Compute\<close> does with the captured dump, before the deferred clean-up.\<close>

definition analyze_captured ::
  "process_env \<Rightarrow> recoverer \<Rightarrow> mem_options \<Rightarrow> mem_request \<Rightarrow> string \<Rightarrow> mem_response serve_run"
where
  "analyze_captured env recover opts req path =
     sx_bind (on_context mem_poll) (\<lambda>_.
     sx_bind (sx_get (\<lambda>rs. rs_contents rs path)) (\<lambda>found.
     case pe_open env path found of
       Inl e \<Rightarrow> sx_fail (CaptureFailedError e)
     | Inr src \<Rightarrow>
         sx_bind (sx_do (open_file path)) (\<lambda>_.
         sx_defer (close_file path) (analyze_open env recover opts req src))))"

definition compute :: "capture_env \<Rightarrow> process_env \<Rightarrow> computer option \<Rightarrow> mem_request \<Rightarrow> mem_response serve_run" where
  "compute cenv env c req =
     (case c of
        None \<Rightarrow> sx_fail (OtherError (Errorf (Fmt ''memusage: nil Computer'' [])))
      | Some cm \<Rightarrow>
          let opts = cm_options cm in
          case validate_request (Some req) opts of
            Some e \<Rightarrow> sx_fail e
          | None \<Rightarrow>
              if layout_lookup (pe_local env) = None then
                sx_fail (UnsupportedRuntimeError (li_go_version (pe_local env)) (li_goarch (pe_local env)))
              else
                let capturer = (case cm_capturer cm of Some cp \<Rightarrow> cp
                      | None \<Rightarrow> runtime_capturer cenv (mo_scratch_dir opts) (mo_min_free_bytes opts) (mo_max_dump_bytes opts));
                    recover = (case cm_recoverer cm of Some r \<Rightarrow> r | None \<Rightarrow> default_recover)
                in sx_bind (capture_failed (capturer (mo_gc_before opts))) (\<lambda>(path, release).
                   sx_defer release (analyze_captured env recover opts req path)))"

section \<open>Errors as responses\<close>

record error_body =
  eb_error :: message
  eb_code :: string
  eb_go_version :: string
  eb_goarch :: string
  eb_warnings :: "message list"

record http_response =
  hr_status :: int
  hr_headers :: "(string \<times> string) list"
  hr_body :: "error_body + mem_response"

definition plain_error :: "message \<Rightarrow> string \<Rightarrow> error_body" where
  "plain_error msg code = \<lparr>eb_error = msg, eb_code = code, eb_go_version = [], eb_goarch = [], eb_warnings = []\<rparr>"

fun mem_error_text :: "mem_error \<Rightarrow> message" where
  "mem_error_text (ValidationError code msg) = msg"
| "mem_error_text (UnsupportedRuntimeError v a) =
     Fmt ''heap-native pprof label recovery is unsupported for this Go runtime (%s %s)'' [FS v, FS a]"
| "mem_error_text (StringMissingError v a ws) =
     Fmt ''pprof labels were found but some label string bytes were unavailable'' []"
| "mem_error_text (LabelRecoveryFailedError v a n ws) =
     Fmt ''heap-native pprof label recovery failed for %d goroutine(s)'' [FI n]"
| "mem_error_text (CaptureFailedError e) = Fmt ''capture heap dump: %s'' [FM (go_error_text e)]"
| "mem_error_text (ParseFailedError e) = Fmt ''parse heap dump: %s'' [FM (go_error_text e)]"
| "mem_error_text (OtherError e) = go_error_text e"

fun error_response_for :: "mem_error \<Rightarrow> int \<times> error_body" where
  "error_response_for (ValidationError code msg) = (400, plain_error msg code)"
| "error_response_for (UnsupportedRuntimeError v a) =
     (422, (plain_error (mem_error_text (UnsupportedRuntimeError v a)) ''unsupported_runtime'')
       \<lparr>eb_go_version := v, eb_goarch := a\<rparr>)"
| "error_response_for (StringMissingError v a ws) =
     (422, (plain_error (mem_error_text (StringMissingError v a ws)) ''string_missing'')
       \<lparr>eb_go_version := v, eb_goarch := a, eb_warnings := ws\<rparr>)"
| "error_response_for (LabelRecoveryFailedError v a n ws) =
     (422, (plain_error (mem_error_text (LabelRecoveryFailedError v a n ws)) ''label_recovery_failed'')
       \<lparr>eb_go_version := v, eb_goarch := a, eb_warnings := ws\<rparr>)"
| "error_response_for (CaptureFailedError e) = (500, plain_error (mem_error_text (CaptureFailedError e)) ''capture_failed'')"
| "error_response_for (ParseFailedError e) = (500, plain_error (mem_error_text (ParseFailedError e)) ''parse_failed'')"
| "error_response_for (OtherError e) = (500, plain_error (mem_error_text (OtherError e)) ''internal_error'')"

section \<open>The handler\<close>

definition json_type :: "string \<times> string" where
  "json_type = (''Content-Type'', ''application/json; charset=utf-8'')"

definition write_json :: "(string \<times> string) list \<Rightarrow> int \<Rightarrow> error_body + mem_response \<Rightarrow> http_response" where
  "write_json headers status body = \<lparr>hr_status = status, hr_headers = headers @ [json_type], hr_body = body\<rparr>"

definition write_error :: "(string \<times> string) list \<Rightarrow> int \<Rightarrow> error_body \<Rightarrow> http_response" where
  "write_error headers status body = write_json headers status (Inl body)"

definition write_compute_error :: "mem_error \<Rightarrow> http_response" where
  "write_compute_error e = (case error_response_for e of (status, body) \<Rightarrow> write_error [] status body)"

text \<open>
  \<open>http.MaxBytesReader\<close> cuts the body with an error of its own. The decoder of the request
  (\<open>encoding/json\<close>, unknown fields refused) answers the value and the bytes after it, as for the
  bundle metadata; nothing but white space may follow.
\<close>

record http_request =
  ht_method :: string
  ht_body :: "byte list"

type_synonym request_decoder = "byte list \<Rightarrow> go_error option \<Rightarrow> go_error + mem_request \<times> byte list"

definition body_too_large :: go_error where
  "body_too_large = Errorf (Fmt ''http: request body too large'' [])"

definition limited_body :: "int \<Rightarrow> byte list \<Rightarrow> byte list \<times> go_error option" where
  "limited_body max_body body =
     (if int (length body) > max_body then (take (nat max_body) body, Some body_too_large) else (body, None))"

definition json_space :: "byte list \<Rightarrow> bool" where
  "json_space bs = list_all (\<lambda>b. b = 32 \<or> b = 9 \<or> b = 10 \<or> b = 13) bs"

definition decode_request :: "request_decoder \<Rightarrow> int \<Rightarrow> http_request \<Rightarrow> error_body + mem_request" where
  "decode_request dec max_body hq =
     (case limited_body max_body (ht_body hq) of (bytes, err) \<Rightarrow>
        case dec bytes err of
          Inl e \<Rightarrow> Inl (plain_error (Fmt ''invalid JSON request body'' []) ''invalid_request'')
        | Inr (req, rest) \<Rightarrow>
            if json_space rest \<and> err = None then Inr req
            else Inl (plain_error (Fmt ''request body must contain exactly one JSON object'' []) ''invalid_request''))"

text \<open>
  A request is served in the state of the gate and of whatever \<open>compute\<close> works on, at the time
  \<open>now\<close>; the function that \<open>Acquire\<close> returned runs at \<open>later\<close>.
\<close>

definition serve ::
  "request_decoder \<Rightarrow> mem_options \<Rightarrow> int \<Rightarrow> (mem_request \<Rightarrow> (mem_error, 'w, mem_response) sx) \<Rightarrow> int \<Rightarrow> int \<Rightarrow>
    http_request \<Rightarrow> gate \<times> 'w \<Rightarrow> http_response \<times> gate \<times> 'w"
where
  "serve dec opts max_body run now later hq gw =
     (case gw of (g, w) \<Rightarrow>
        if ht_method hq \<noteq> ''POST'' then
          (write_error [(''Allow'', ''POST'')] 405 (plain_error (Fmt ''method not allowed; use POST'' []) ''invalid_method''), gw)
        else
          case decode_request dec max_body hq of
            Inl body \<Rightarrow> (write_error [] 400 body, gw)
          | Inr req \<Rightarrow>
              case validate_request (Some req) opts of
                Some e \<Rightarrow> (write_error [] 400 (snd (error_response_for e)), gw)
              | None \<Rightarrow>
                  case acquire now g of
                    (Some (Inr busy), g') \<Rightarrow>
                      (write_error
                         (if ge_cooldown busy then [(''Retry-After'', format_int (retry_after_seconds busy))] else [])
                         429 (plain_error (Fmt (gate_message busy) []) (gate_code busy)), (g', w))
                  | (Some (Inl e), g') \<Rightarrow> (write_compute_error (CaptureFailedError e), (g', w))
                  | (None, g') \<Rightarrow>
                      case run req w of (r, w') \<Rightarrow>
                        ((case r of Inl e \<Rightarrow> write_compute_error e | Inr resp \<Rightarrow> write_json [] 200 (Inr resp)),
                         (release later g', w')))"

text \<open>\<open>Handler\<close>: the defaults of its options.\<close>

record handler_options =
  ho_gate :: "gate option"
  ho_cooldown :: int
  ho_options :: mem_options
  ho_max_body :: int
  ho_semaphore :: "(nat \<times> nat) option"

definition handler_max_body :: "handler_options \<Rightarrow> int" where
  "handler_max_body ho = (if ho_max_body ho \<le> 0 then DefaultMaxRequestBodyBytes else ho_max_body ho)"

definition handler_gate :: "handler_options \<Rightarrow> gate" where
  "handler_gate ho = (case ho_gate ho of Some g \<Rightarrow> g | None \<Rightarrow> new_gate (ho_semaphore ho) (ho_cooldown ho))"

section \<open>Computing leaves nothing behind\<close>

lemma keeps_files_on_context [keeps_files_intros]: "keeps_files (on_context m)"
  by (auto simp: keeps_files_def on_context_def same_files_def split: sum.splits prod.splits)

lemma keeps_files_analyze_open: "keeps_files (analyze_open env recover opts req src)"
  unfolding analyze_open_def Let_def by (intro keeps_files_intros)

lemma keeps_files_analyze_captured: "keeps_files (analyze_captured env recover opts req path)"
  unfolding analyze_captured_def by (intro keeps_files_intros keeps_files_analyze_open)

text \<open>Before anything is captured the request and the runtime are checked.\<close>

definition preflight :: "process_env \<Rightarrow> mem_options \<Rightarrow> mem_request \<Rightarrow> mem_error option" where
  "preflight env opts req =
     (case validate_request (Some req) opts of
        Some e \<Rightarrow> Some e
      | None \<Rightarrow>
          if layout_lookup (pe_local env) = None then
            Some (UnsupportedRuntimeError (li_go_version (pe_local env)) (li_goarch (pe_local env)))
          else None)"

lemma compute_new:
  "compute cenv env (Some (new_computer cenv opts)) req =
     (case preflight env opts req of
        Some e \<Rightarrow> sx_fail e
      | None \<Rightarrow>
          sx_bind (capture_failed (runtime_capturer cenv (mo_scratch_dir opts) (mo_min_free_bytes opts)
              (mo_max_dump_bytes opts) (mo_gc_before opts)))
            (\<lambda>(path, release). sx_defer release (analyze_captured env default_recover opts req path)))"
  by (auto simp: compute_def new_computer_def Let_def preflight_def split: option.splits)

text \<open>The capturer with its errors as those of the package: again a capturer.\<close>

lemma capture_failed_bind:
  "sx_bind (capture_failed m) f rs = (r, rs') \<longleftrightarrow>
     (\<exists>e. m rs = (Inl e, rs') \<and> r = Inl (CaptureFailedError e)) \<or> (\<exists>x rs1. m rs = (Inr x, rs1) \<and> f x rs1 = (r, rs'))"
  by (auto simp: sx_bind_def capture_failed_def split: prod.splits sum.splits)

lemma defer_run: "sx_defer f m rs = (r, rs') \<longleftrightarrow> (\<exists>rs2. m rs = (r, rs2) \<and> rs' = f rs2)"
  by (auto simp: sx_defer_def split: prod.splits)

lemma compute_releases:
  assumes run: "compute cenv env (Some (new_computer cenv opts)) req rs = (r, rs')"
    and new: "new_names cenv rs"
  shows "same_files rs' rs"
proof (cases "preflight env opts req")
  case (Some e)
  with run show ?thesis by (simp add: compute_new sx_fail_def)
next
  case None
  let ?capture = "runtime_capturer cenv (mo_scratch_dir opts) (mo_min_free_bytes opts) (mo_max_dump_bytes opts)"
  from run None consider e where "?capture (mo_gc_before opts) rs = (Inl e, rs')"
    | path release rs1 rs2 r2 where "?capture (mo_gc_before opts) rs = (Inr (path, release), rs1)"
      "analyze_captured env default_recover opts req path rs1 = (r2, rs2)" "rs' = release rs2"
    by (auto simp: compute_new capture_failed_bind defer_run)
  then show ?thesis
  proof cases
    case 1
    then show ?thesis by (rule runtime.error_releases [OF new])
  next
    case 2
    then show ?thesis
      using runtime.release_restores [OF new 2(1)] keeps_filesD [OF keeps_files_analyze_captured 2(2)] by simp
  qed
qed

text \<open>An answer is the answer of \<open>AnalyzeDump\<close> on the dump that was captured and opened again.\<close>

lemma defer_bind_Inr:
  assumes "sx_defer f m rs = (Inr x, rs')"
  obtains rs1 where "m rs = (Inr x, rs1)" "rs' = f rs1"
  using assms by (auto simp: defer_run)

lemma on_context_Inr:
  assumes "on_context m rs = (Inr x, rs')"
  shows "m (rs_ctx rs) = Inr (x, rs_ctx rs')"
  using assms by (auto simp: on_context_def split: sum.splits prod.splits)

lemma analyze_open_Inr:
  assumes "analyze_open env recover opts req src rs = (Inr resp, rs')"
  obtains extra warnings c c' where
    "analyze_dump src recover extra warnings req opts c = Inr (resp, c')"
    "extra = map_option snd (fst (open_process_reader env (mo_disable_process_reader opts)))"
  using assms
  by (auto simp: analyze_open_def Let_def sx_bind_def sx_do_def split: prod.splits option.splits
      elim!: defer_bind_Inr dest!: on_context_Inr)

lemma on_context_contents: "on_context m rs = (r, rs') \<Longrightarrow> rs_contents rs' = rs_contents rs"
  by (auto simp: on_context_def split: sum.splits prod.splits)

lemma compute_answers:
  assumes run: "compute cenv env (Some (new_computer cenv opts)) req rs = (Inr resp, rs')" and new: "new_names cenv rs"
    and reads: "\<And>path found src. pe_open env path found = Inr src \<Longrightarrow> found = Some (ds_bytes src)"
  obtains src warnings c c' where "ds_bytes src = ce_runtime_dump cenv"
    "analyze_dump src default_recover
       (map_option snd (fst (open_process_reader env (mo_disable_process_reader opts)))) warnings req opts c = Inr (resp, c')"
    "preflight env opts req = None"
proof -
  from run have pre: "preflight env opts req = None" by (auto simp: compute_new sx_fail_def split: option.splits)
  with run obtain path release rs1 where
    cap: "runtime_capturer cenv (mo_scratch_dir opts) (mo_min_free_bytes opts) (mo_max_dump_bytes opts) (mo_gc_before opts) rs =
      (Inr (path, release), rs1)"
    and "sx_defer release (analyze_captured env default_recover opts req path) rs1 = (Inr resp, rs')"
    by (auto simp: compute_new capture_failed_bind split: prod.splits)
  then obtain rs2 where an: "analyze_captured env default_recover opts req path rs1 = (Inr resp, rs2)"
    by (elim defer_bind_Inr)
  obtain r3 rs3 where p: "on_context mem_poll rs1 = (r3, rs3)" by fastforce
  have held: "rs_contents rs3 path = Some (ce_runtime_dump cenv)"
    using runtime_capturer_dump [OF cap new] on_context_contents [OF p] by simp
  from an p obtain src where src: "pe_open env path (rs_contents rs3 path) = Inr src"
    by (auto simp: analyze_captured_def sx_bind_def sx_get_def sx_fail_def split: sum.splits)
  with an p obtain rs4 where "sx_defer (close_file path) (analyze_open env default_recover opts req src) rs4 = (Inr resp, rs2)"
    by (auto simp: analyze_captured_def sx_bind_def sx_get_def sx_do_def split: sum.splits)
  then obtain rs5 where "analyze_open env default_recover opts req src rs4 = (Inr resp, rs5)" by (rule defer_bind_Inr)
  moreover have "ds_bytes src = ce_runtime_dump cenv" using reads [OF src] held by simp
  ultimately show ?thesis by (elim analyze_open_Inr) (use that pre in blast)
qed

section \<open>The handler and the gate\<close>

text \<open>A request that is valid and admitted is the only one whose computation runs.\<close>

definition valid_request :: "request_decoder \<Rightarrow> mem_options \<Rightarrow> int \<Rightarrow> http_request \<Rightarrow> mem_request option" where
  "valid_request dec opts max_body hq =
     (if ht_method hq \<noteq> ''POST'' then None
      else case decode_request dec max_body hq of
        Inl _ \<Rightarrow> None
      | Inr req \<Rightarrow> if validate_request (Some req) opts = None then Some req else None)"

lemma admitted_takes_slot:
  "acquire now g = (None, g') \<Longrightarrow> g' = g\<lparr>gt_slots := gt_slots g + 1\<rparr> \<and> gt_slots g < gt_capacity g"
  by (auto simp: acquire_def gate_send_def split: if_splits option.splits)

lemma release_after: "release later (g\<lparr>gt_slots := Suc (gt_slots g)\<rparr>) = g\<lparr>gt_next := later + gt_cooldown g\<rparr>"
  by (simp add: release_def gate_stamp_def gate_receive_def)

lemma serve_invalid:
  assumes "valid_request dec opts max_body hq = None"
  shows "snd (serve dec opts max_body run now later hq gw) = gw"
    and "hr_status (fst (serve dec opts max_body run now later hq gw)) \<in> {400, 405}"
  using assms
  by (auto simp: serve_def valid_request_def write_error_def write_json_def
      split: prod.splits sum.splits option.splits if_splits)

lemma serve_refused:
  assumes "valid_request dec opts max_body hq = Some req" "acquire now g = (Some e, g')"
  shows "snd (serve dec opts max_body run now later hq (g, w)) = (g, w)"
    and "hr_status (fst (serve dec opts max_body run now later hq (g, w))) =
      (case e of Inl _ \<Rightarrow> 500 | Inr _ \<Rightarrow> 429)"
  using assms acquire_refused [OF assms(2)]
  by (auto simp: serve_def valid_request_def write_error_def write_json_def write_compute_error_def
      split: prod.splits sum.splits option.splits if_splits)

lemma serve_admitted:
  assumes "valid_request dec opts max_body hq = Some req" "acquire now g = (None, g')"
  shows "serve dec opts max_body run now later hq (g, w) =
    ((case fst (run req w) of Inl e \<Rightarrow> write_compute_error e | Inr resp \<Rightarrow> write_json [] 200 (Inr resp)),
     g\<lparr>gt_next := later + gt_cooldown g\<rparr>, snd (run req w))"
  using assms admitted_takes_slot [OF assms(2)]
  by (auto simp: serve_def valid_request_def release_after split: prod.splits sum.splits option.splits if_splits)

lemma error_status: "fst (error_response_for e) \<in> {400, 422, 500}"
  by (cases e) simp_all

lemma compute_error_status: "hr_status (write_compute_error e) = fst (error_response_for e)"
  by (simp add: write_compute_error_def write_error_def write_json_def split: prod.split)

lemma serve_status:
  "hr_status (fst (serve dec opts max_body run now later hq (g, w))) = 200 \<longleftrightarrow>
     (\<exists>req resp. valid_request dec opts max_body hq = Some req \<and> fst (acquire now g) = None \<and>
        fst (run req w) = Inr resp)"
proof (cases "valid_request dec opts max_body hq")
  case None
  with serve_invalid(2) [OF None, of run now later "(g, w)"] show ?thesis by auto
next
  case (Some req)
  obtain r g' where a: "acquire now g = (r, g')" by fastforce
  show ?thesis
  proof (cases r)
    case None
    have served: "hr_status (fst (serve dec opts max_body run now later hq (g, w))) =
        (case fst (run req w) of Inl e \<Rightarrow> fst (error_response_for e) | Inr resp \<Rightarrow> 200)"
      by (simp add: serve_admitted [OF Some a [unfolded None]] write_json_def compute_error_status split: sum.split)
    have "fst (error_response_for e) \<noteq> 200" for e using error_status [of e] by auto
    with served show ?thesis using a Some None by (auto split: sum.splits)
  next
    case (Some e)
    then show ?thesis
      using serve_refused(2) [OF \<open>valid_request dec opts max_body hq = Some req\<close> a [unfolded Some], of run later w] a Some
      by (cases e) simp_all
  qed
qed

end
