(* ===== verification/BundleCapture.thy ===== *)
theory BundleCapture
  imports BundleArchiveFacts MemServe
begin

text \<open>
  Capturing a bundle of the running process (\<open>internal/bundle/capture.go\<close>) and the handler that
  streams it (\<open>internal/bundle/handler.go\<close>). The memory of the process is the Linux reader of
  \<open>AddrSpace\<close>; the answers of the system and the two JSON encoders are an environment.
\<close>

section \<open>Segments of the process\<close>

definition segmentChunkSize :: u64 where "segmentChunkSize = 2 ^ 20"

record bundle_options =
  bc_scratch_dir :: string
  bc_min_free_bytes :: u64
  bc_max_dump_bytes :: i64
  bc_max_artifact_bytes :: int
  bc_gc_before :: bool
  bc_include_heap :: bool
  bc_include_goroutine :: bool
  bc_disable_rodata :: bool
  bc_max_rodata_bytes :: int
  bc_producer :: string

definition probe_range :: "addr_read \<Rightarrow> u64 \<Rightarrow> u64 \<Rightarrow> bool" where
  "probe_range read addr sz =
     (let probe = (if segmentChunkSize > sz then sz else segmentChunkSize)
      in if read addr probe = None then False
         else if sz > probe \<and> read (addr + sz - probe) probe = None then False
         else True)"

definition perm_string :: "addr_mapping \<Rightarrow> string" where
  "perm_string m =
     [if m_read m then CHR ''r'' else CHR ''-'', if m_write m then CHR ''w'' else CHR ''-'',
      if m_exec m then CHR ''x'' else CHR ''-'']"

text \<open>
  A read into a buffer of \<open>room\<close> bytes. \<open>io.Copy\<close> reads a range through a buffer of 32 KiB until it
  ends: the bytes it got, and the error that ended them.
\<close>

record range_reader =
  rr_addr :: u64
  rr_remaining :: u64

definition range_read :: "addr_read \<Rightarrow> u64 \<Rightarrow> range_reader \<Rightarrow> (go_error + byte list) \<times> range_reader" where
  "range_read read room rr =
     (if rr_remaining rr = 0 then (Inl EOF, rr)
      else
        let n = room;
            n = (if n > rr_remaining rr then rr_remaining rr else n);
            n = (if n > segmentChunkSize then segmentChunkSize else n)
        in case read (rr_addr rr) n of
             None \<Rightarrow> (Inl (Errorf (Fmt ''bundle: segment read failed at 0x%x'' [FU (rr_addr rr)])), rr)
           | Some buf \<Rightarrow> (Inr buf, \<lparr>rr_addr = rr_addr rr + n, rr_remaining = rr_remaining rr - n\<rparr>))"

definition copy_buffer :: u64 where "copy_buffer = 32 * 1024"

lemma copy_chunk:
  assumes "(r :: u64) \<noteq> 0"
  defines "n \<equiv> (if copy_buffer > r then r else copy_buffer)"
  shows "(if n > segmentChunkSize then segmentChunkSize else n) = n" "0 < n" "n \<le> r"
  using assms(1) unfolding n_def
  by (auto simp: copy_buffer_def segmentChunkSize_def word_less_nat_alt word_le_nat_alt unat_gt_0)

lemma range_read_smaller:
  assumes "range_read read copy_buffer rr = (Inr buf, rr')"
  shows "unat (rr_remaining rr') < unat (rr_remaining rr)"
proof -
  let ?n = "if copy_buffer > rr_remaining rr then rr_remaining rr else copy_buffer"
  from assms have r: "rr_remaining rr \<noteq> 0" by (auto simp: range_read_def)
  note n = copy_chunk [OF r]
  from assms r n(1) have "rr_remaining rr' = rr_remaining rr - ?n"
    by (auto simp: range_read_def Let_def split: option.splits)
  with n(2,3) show ?thesis by (simp add: unat_sub word_less_nat_alt word_le_nat_alt)
qed

function drain :: "addr_read \<Rightarrow> range_reader \<Rightarrow> byte list \<times> go_error" where
  "drain read rr =
     (case range_read read copy_buffer rr of
        (Inl e, _) \<Rightarrow> ([], e)
      | (Inr buf, rr') \<Rightarrow> (case drain read rr' of (bs, e) \<Rightarrow> (buf @ bs, e)))"
  by pat_completeness auto
termination
  by (relation "measure (\<lambda>(read, rr). unat (rr_remaining rr))") (auto dest: range_read_smaller [OF sym])

declare drain.simps [simp del]

record collected =
  cl_budget :: int
  cl_status :: string
  cl_reason :: string
  cl_warnings :: "string list"
  cl_segments :: "write_segment list"

definition range_text :: "addr_mapping \<Rightarrow> string" where
  "range_text m = hex_address (m_start m) @ ''-'' @ hex_address (m_end m) @ '' '' @ m_path m"

definition collect_segment :: "addr_read \<Rightarrow> addr_mapping \<Rightarrow> collected \<Rightarrow> collected" where
  "collect_segment read m c =
     (let sz = m_end m - m_start m in
      if sz = 0 then c
      else if \<not> probe_range read (m_start m) sz then
        c\<lparr>cl_warnings := cl_warnings c @ [''skipped unreadable segment '' @ range_text m]\<rparr>
      else if uint sz > cl_budget c then
        c\<lparr>cl_status := RodataTruncated, cl_reason := ''segment snapshot exceeds size cap'',
          cl_warnings := cl_warnings c @ [''dropped segment '' @ range_text m @ '': rodata size cap exceeded'']\<rparr>
      else
        case drain read \<lparr>rr_addr = m_start m, rr_remaining = sz\<rparr> of (bytes, e) \<Rightarrow>
          c\<lparr>cl_budget := cl_budget c - uint sz,
            cl_segments := cl_segments c @
              [\<lparr>wsg_addr = m_start m, wsg_size = sz, wsg_perms = perm_string m, wsg_path = m_path m,
                wsg_data = bytes, wsg_end = e\<rparr>]\<rparr>)"

definition rodata_budget :: "int \<Rightarrow> int" where
  "rodata_budget max_bytes = (if max_bytes \<le> 0 then DefaultMaxRodataBytes else max_bytes)"

definition collect_segments ::
  "addr_read \<Rightarrow> addr_mapping list \<Rightarrow> int \<Rightarrow> bundle_meta \<Rightarrow> write_segment list \<times> string \<times> bundle_meta"
where
  "collect_segments read ranges max_bytes mt =
     (let c = fold (collect_segment read) ranges
            \<lparr>cl_budget = rodata_budget max_bytes, cl_status = RodataOK, cl_reason = rm_reason (mt_rodata mt),
             cl_warnings = mt_warnings mt, cl_segments = []\<rparr>;
          c = (if cl_segments c = [] \<and> cl_status c = RodataOK then
                 c\<lparr>cl_status := RodataUnavailable, cl_reason := ''no readable eligible string ranges''\<rparr>
               else c)
      in (cl_segments c, cl_status c,
          mt\<lparr>mt_warnings := cl_warnings c, mt_rodata := (mt_rodata mt)\<lparr>rm_reason := cl_reason c\<rparr>\<rparr>))"

section \<open>Capturing\<close>

text \<open>
  \<open>be_open\<close> opens a path, with what the disk holds there: the bytes that are read with the error that
  ends them, and the size \<open>Stat\<close> reports.
  \<open>be_stream\<close> is the stream below the tar writer under a bound on its bytes (\<open>artifactWriter\<close>; zero
  is unlimited).
\<close>

record bundle_env =
  be_capture :: capture_env
  be_local :: lookup_input
  be_started :: string
  be_finished :: string
  be_now :: string
  be_open :: "string \<Rightarrow> byte list option \<Rightarrow> go_error + byte list \<times> go_error \<times> (go_error + i64)"
  be_profile :: "string \<Rightarrow> go_error + byte list \<times> profile_meta"
  be_build :: "(string \<times> string \<times> (string \<times> string) list) option"
  be_process :: "go_error + string \<times> process_reader"
  be_error_text :: "go_error \<Rightarrow> string"
  be_stream :: "int \<Rightarrow> tar_faults"
  be_enc_meta :: "bundle_meta \<Rightarrow> go_error + byte list"
  be_enc_infos :: "segment_info list \<Rightarrow> go_error + byte list"

definition build_of :: "(string \<times> string \<times> (string \<times> string) list) option \<Rightarrow> application_build option" where
  "build_of info =
     map_option (\<lambda>(path, version, settings).
       \<lparr>ab_path = path, ab_main_version = version,
        ab_settings = fold (\<lambda>(k, v). AList.update k v) settings []\<rparr>) info"

definition settings_of :: "bundle_options \<Rightarrow> capture_settings" where
  "settings_of opts =
     \<lparr>cst_min_free_bytes = bc_min_free_bytes opts, cst_max_heap_dump_bytes = sint (bc_max_dump_bytes opts),
      cst_max_artifact_bytes = bc_max_artifact_bytes opts, cst_include_heap_profile = bc_include_heap opts,
      cst_include_goroutine_profile = bc_include_goroutine opts, cst_gc_before = bc_gc_before opts,
      cst_disable_rodata = bc_disable_rodata opts, cst_max_rodata_bytes = rodata_budget (bc_max_rodata_bytes opts)\<rparr>"

definition base_meta :: "bundle_env \<Rightarrow> bundle_options \<Rightarrow> bundle_meta" where
  "base_meta env opts =
     zero_meta\<lparr>mt_producer := bc_producer opts, mt_go_version := li_go_version (be_local env),
       mt_goarch := li_goarch (be_local env), mt_ptr_size := li_ptr_size (be_local env),
       mt_big_endian := li_big_endian (be_local env), mt_dump_started := be_started env,
       mt_dump_finished := be_finished env\<rparr>"

text \<open>The profiles that are asked for, each after a poll of the context.\<close>

type_synonym profiles = "(string \<times> byte list) list \<times> (string \<times> profile_meta) list"

fun collect_profiles :: "bundle_env \<Rightarrow> (bool \<times> string) list \<Rightarrow> profiles \<Rightarrow> profiles capture_run" where
  "collect_profiles env [] acc = sx_return acc"
| "collect_profiles env ((enabled, name) # specs) acc =
     (if \<not> enabled then collect_profiles env specs acc
      else
        sx_bind rs_poll (\<lambda>_.
        case be_profile env (profileKind name) of
          Inl e \<Rightarrow> sx_fail e
        | Inr (bytes, pm) \<Rightarrow>
            collect_profiles env specs (AList.update name bytes (fst acc), AList.update name pm (snd acc))))"

definition write_captured :: "bundle_env \<Rightarrow> bundle_options \<Rightarrow> write_input \<Rightarrow> tar_writer capture_run" where
  "write_captured env opts inp =
     (case write_bundle (be_stream env (bc_max_artifact_bytes opts)) (be_enc_meta env) (be_enc_infos env) (be_now env)
             inp \<lparr>tw_members = [], tw_calls = 0\<rparr> of
        Inl e \<Rightarrow> sx_fail e
      | Inr (_, tw) \<Rightarrow> sx_return tw)"

text \<open>From the meta data on: the saved segments, and the tar.\<close>

definition capture_rodata :: "bundle_env \<Rightarrow> bundle_options \<Rightarrow> write_input \<Rightarrow> tar_writer capture_run" where
  "capture_rodata env opts inp =
     (let mt = win_meta inp in
      if bc_disable_rodata opts then
        write_captured env opts
          (inp\<lparr>win_meta := mt\<lparr>mt_rodata := no_rodata\<lparr>rm_status := RodataDisabled, rm_reason := ''disabled by options''\<rparr>\<rparr>\<rparr>)
      else
        case be_process env of
          Inl e \<Rightarrow>
            write_captured env opts
              (inp\<lparr>win_meta := mt\<lparr>mt_rodata := no_rodata\<lparr>rm_status := RodataUnavailable, rm_reason := be_error_text env e\<rparr>\<rparr>\<rparr>)
        | Inr (name, p) \<Rightarrow>
            sx_bind (sx_do (open_file name)) (\<lambda>_. sx_defer (close_file name)
              (case collect_segments (process_read_at_addr (Some p)) (eligible_string_ranges (Some p))
                      (bc_max_rodata_bytes opts) mt of
                 (segs, status, mt) \<Rightarrow>
                   write_captured env opts
                     (inp\<lparr>win_segments := segs, win_meta := mt\<lparr>mt_rodata := (mt_rodata mt)\<lparr>rm_status := status\<rparr>\<rparr>\<rparr>))))"

definition capture_contents ::
  "bundle_env \<Rightarrow> bundle_options \<Rightarrow> byte list \<Rightarrow> go_error \<Rightarrow> i64 \<Rightarrow> tar_writer capture_run"
where
  "capture_contents env opts dump dump_end sz =
     sx_bind rs_poll (\<lambda>_.
     sx_bind (collect_profiles env
         [(bc_include_heap opts, HeapProfileMember), (bc_include_goroutine opts, GoroutineProfileMember)] ([], []))
       (\<lambda>(profiles, metas).
     capture_rodata env opts
       \<lparr>win_meta = (base_meta env opts)\<lparr>mt_profiles := metas, mt_capture_settings := Some (settings_of opts),
          mt_application_build := build_of (be_build env)\<rparr>,
        win_segments = [], win_dump = dump, win_dump_end = dump_end, win_dump_size = sz, win_profiles = profiles\<rparr>))"

definition capture_opened :: "bundle_env \<Rightarrow> bundle_options \<Rightarrow> string \<Rightarrow> tar_writer capture_run" where
  "capture_opened env opts path =
     sx_bind (sx_get (\<lambda>rs. rs_contents rs path)) (\<lambda>found.
      case be_open env path found of
        Inl e \<Rightarrow> sx_fail (Wrapf (Fmt ''bundle: open heap dump'' []) e)
      | Inr (dump, dump_end, stat) \<Rightarrow>
          sx_bind (sx_do (open_file path)) (\<lambda>_. sx_defer (close_file path)
            (case stat of
               Inl e \<Rightarrow> sx_fail (Wrapf (Fmt ''bundle: stat heap dump'' []) e)
             | Inr sz \<Rightarrow> capture_contents env opts dump dump_end sz)))"

definition capture_self :: "bundle_env \<Rightarrow> bundle_options \<Rightarrow> tar_writer capture_run" where
  "capture_self env opts =
     (if bc_max_artifact_bytes opts < 0 then
        sx_fail (Errorf (Fmt ''maximum artifact bytes must be non-negative'' []))
      else
        sx_bind (runtime_capturer (be_capture env) (bc_scratch_dir opts) (bc_min_free_bytes opts) (bc_max_dump_bytes opts)
            (bc_gc_before opts)) (\<lambda>(path, release).
        sx_defer release (capture_opened env opts path)))"

section \<open>The handler\<close>

text \<open>
  A capture writes chunks to the response and answers with its error. The answer of the handler: a
  JSON response, the stream with its headers, or a connection that is aborted after some bytes.
\<close>

type_synonym 'w bundle_capture = "bundle_options \<Rightarrow> 'w \<Rightarrow> (byte list list \<times> go_error option) \<times> 'w"

datatype bundle_answer =
    JsonAnswer http_response
  | StreamAnswer "(string \<times> string) list" "byte list"
  | AbortedAnswer "(string \<times> string) list" "byte list"

definition bundleFilename :: "go_error + string \<Rightarrow> int \<Rightarrow> string" where
  "bundleFilename hostname unix =
     (let host = (case hostname of Inl _ \<Rightarrow> ''unknown'' | Inr h \<Rightarrow> if h = [] then ''unknown'' else h)
      in ''bubblepprof-'' @ host @ ''-'' @ format_int unix @ ''.tar'')"

definition writeJSONError :: "(string \<times> string) list \<Rightarrow> int \<Rightarrow> error_body \<Rightarrow> bundle_answer" where
  "writeJSONError headers status body =
     JsonAnswer \<lparr>hr_status = status, hr_headers = headers @ [json_type], hr_body = Inl body\<rparr>"

text \<open>\<open>bundleResponseWriter\<close>: the headers go out with the first chunk, even an empty one.\<close>

definition tar_headers :: "string \<Rightarrow> byte list list \<Rightarrow> (string \<times> string) list" where
  "tar_headers filename chunks =
     (if chunks = [] then []
      else [(''Content-Type'', ''application/x-tar''), (''Content-Disposition'', ''attachment; filename='' @ filename)])"

definition gc_override :: "string \<Rightarrow> bool \<Rightarrow> error_body + bool" where
  "gc_override gc configured =
     (if gc = [] then Inr configured
      else if gc = ''0'' \<or> gc = ''false'' then Inr False
      else if gc = ''1'' \<or> gc = ''true'' then Inr True
      else Inl (plain_error (Fmt ''invalid gc parameter %q; use 0, 1, true, or false'' [FS gc]) ''invalid_request''))"

definition serveBundle ::
  "'w bundle_capture \<Rightarrow> bundle_options \<Rightarrow> string \<Rightarrow> int \<Rightarrow> int \<Rightarrow> string \<Rightarrow> string \<Rightarrow> gate \<times> 'w \<Rightarrow>
    bundle_answer \<times> gate \<times> 'w"
where
  "serveBundle cap copts filename now later http_method gc gw =
     (case gw of (g, w) \<Rightarrow>
        if http_method \<noteq> ''GET'' then
          (writeJSONError [(''Allow'', ''GET'')] 405 (plain_error (Fmt ''method not allowed; use GET'' []) ''invalid_method''), gw)
        else
          case gc_override gc (bc_gc_before copts) of
            Inl body \<Rightarrow> (writeJSONError [] 400 body, gw)
          | Inr gc_before \<Rightarrow>
              case acquire now g of
                (Some (Inr busy), g') \<Rightarrow>
                  (writeJSONError
                     (if ge_cooldown busy then [(''Retry-After'', format_int (retry_after_seconds busy))] else [])
                     429 (plain_error (Fmt (gate_message busy) []) (gate_code busy)), (g', w))
              | (Some (Inl e), g') \<Rightarrow>
                  (case error_response_for (CaptureFailedError e) of (status, body) \<Rightarrow>
                     (writeJSONError [] status body, (g', w)))
              | (None, g') \<Rightarrow>
                  case cap (copts\<lparr>bc_gc_before := gc_before\<rparr>) w of ((chunks, err), w') \<Rightarrow>
                    ((case err of
                        None \<Rightarrow> StreamAnswer (tar_headers filename chunks) (concat chunks)
                      | Some e \<Rightarrow>
                          if chunks = [] then
                            (case error_response_for (CaptureFailedError e) of (status, body) \<Rightarrow> writeJSONError [] status body)
                          else AbortedAnswer (tar_headers filename chunks) (concat chunks)),
                     (release later g', w')))"

end
