(* ===== verification/BundleCaptureFacts.thy ===== *)
theory BundleCaptureFacts
  imports BundleCapture
begin

text \<open>
  What a capture of the process promises: a range is copied byte for byte, the saved segments are the
  readable ranges that fit the budget, nothing is left on the system, and a bundle answers a read of
  saved memory as the process did. The handler returns the gate's slot, whatever the capture did.
\<close>

section \<open>What a range yields\<close>

context slice_reader
begin

text \<open>A read is determined by the bytes of its addresses.\<close>

lemma read_byte:
  assumes "read a n = Some bs" "i < unat n"
  shows "read (a + of_nat i) 1 = Some [bs ! i]"
proof -
  have i: "unat (of_nat i :: u64) = i"
    using assms(2) unsigned_less [of n, where ?'a = nat] by (simp add: unat_of_nat)
  have "length bs = unat n" by (rule read_length [OF assms(1)])
  then have "take 1 (drop i bs) = [bs ! i]"
    using assms(2) by (simp add: take_Suc_conv_app_nth hd_drop_conv_nth take_Suc)
  with read_slice [OF assms(1), of "of_nat i" 1] assms(2) i show ?thesis by simp
qed

lemma drain_bytes:
  assumes "drain read rr = (bs, e)"
  shows "length bs \<le> unat (rr_remaining rr) \<and> (length bs = unat (rr_remaining rr) \<longleftrightarrow> e = EOF) \<and>
    (\<forall>i < length bs. read (rr_addr rr + of_nat i) 1 = Some [bs ! i])"
  using assms
proof (induction "unat (rr_remaining rr)" arbitrary: rr bs e rule: less_induct)
  case less
  define n where "n = (if copy_buffer > rr_remaining rr then rr_remaining rr else copy_buffer)"
  show ?case
  proof (cases "rr_remaining rr = 0")
    case True
    with less.prems show ?thesis by (simp add: drain.simps [of read rr] range_read_def)
  next
    case False
    note n = copy_chunk [OF False, folded n_def]
    have step: "range_read read copy_buffer rr =
        (case read (rr_addr rr) n of
           None \<Rightarrow> (Inl (Errorf (Fmt ''bundle: segment read failed at 0x%x'' [FU (rr_addr rr)])), rr)
         | Some buf \<Rightarrow> (Inr buf, \<lparr>rr_addr = rr_addr rr + n, rr_remaining = rr_remaining rr - n\<rparr>))"
      using False n(1) by (simp only: range_read_def Let_def if_False flip: n_def)
    have rest: "0 < unat (rr_remaining rr)" using False by (simp add: unat_gt_0)
    show ?thesis
    proof (cases "read (rr_addr rr) n")
      case None
      with less.prems rest show ?thesis by (auto simp: drain.simps [of read rr] step)
    next
      case (Some buf)
      let ?rr = "\<lparr>rr_addr = rr_addr rr + n, rr_remaining = rr_remaining rr - n\<rparr>"
      obtain bs' where run: "drain read ?rr = (bs', e)" and bs: "bs = buf @ bs'"
        using less.prems Some by (auto simp: drain.simps [of read rr] step split: prod.splits)
      have sub: "unat (rr_remaining rr - n) = unat (rr_remaining rr) - unat n" "unat n \<le> unat (rr_remaining rr)"
        "0 < unat n" using n(2,3) by (simp_all add: unat_sub word_le_nat_alt word_less_nat_alt)
      have ih: "length bs' \<le> unat (rr_remaining rr) - unat n \<and>
          (length bs' = unat (rr_remaining rr) - unat n \<longleftrightarrow> e = EOF) \<and>
          (\<forall>i < length bs'. read (rr_addr rr + n + of_nat i) 1 = Some [bs' ! i])"
        using less.hyps [OF _ run] sub by simp
      have len: "length buf = unat n" by (rule read_length [OF Some])
      have "read (rr_addr rr + of_nat i) 1 = Some [bs ! i]" if i: "i < length bs" for i
      proof (cases "i < unat n")
        case True
        then show ?thesis using read_byte [OF Some] len by (simp add: bs nth_append)
      next
        case False
        then obtain j where j: "i = unat n + j" by (metis le_add_diff_inverse not_less)
        then have "read (rr_addr rr + n + of_nat j) 1 = Some [bs' ! j]" using ih i len by (simp add: bs)
        then show ?thesis by (simp add: j bs nth_append len add.assoc)
      qed
      then show ?thesis using ih sub(2) len by (auto simp: bs)
    qed
  qed
qed

text \<open>So a range that was copied in full answers every read inside it as the process does.\<close>

lemma drained_read:
  assumes full: "drain read \<lparr>rr_addr = start, rr_remaining = sz\<rparr> = (d, e)" "unat sz \<le> length d"
    and fit: "unat start + unat sz < 2 ^ 64"
    and inside: "unat start \<le> unat a" "unat a + unat n \<le> unat start + unat sz"
    and live: "read a n = Some bs"
  shows "bs = take (unat n) (drop (unat a - unat start) d)"
proof (rule nth_equalityI)
  note d = drain_bytes [OF full(1), simplified]
  have len: "length d = unat sz" using d full(2) by simp
  have lb: "length bs = unat n" by (rule read_length [OF live])
  show "length bs = length (take (unat n) (drop (unat a - unat start) d))"
    using len inside lb by simp
  fix i assume "i < length bs"
  then have i: "i < unat n" by (simp add: lb)
  define k where "k = unat a - unat start + i"
  have k: "k < length d" using i inside len by (simp add: k_def)
  have "a = start + of_nat (unat a - unat start)"
    using inside(1) by (simp add: of_nat_diff)
  then have at: "a + of_nat i = start + of_nat k" by (simp add: k_def add.assoc)
  from read_byte [OF live i] d k at have "bs ! i = d ! k" by simp
  with i k show "bs ! i = take (unat n) (drop (unat a - unat start) d) ! i"
    by (simp add: k_def)
qed

end

section \<open>Which ranges are saved\<close>

definition segment_of :: "addr_read \<Rightarrow> addr_mapping \<Rightarrow> write_segment" where
  "segment_of read m =
     (case drain read \<lparr>rr_addr = m_start m, rr_remaining = m_end m - m_start m\<rparr> of (bytes, e) \<Rightarrow>
        \<lparr>wsg_addr = m_start m, wsg_size = m_end m - m_start m, wsg_perms = perm_string m, wsg_path = m_path m,
         wsg_data = bytes, wsg_end = e\<rparr>)"

definition probed :: "addr_read \<Rightarrow> addr_mapping \<Rightarrow> bool" where
  "probed read m \<longleftrightarrow> m_end m - m_start m \<noteq> 0 \<and> probe_range read (m_start m) (m_end m - m_start m)"

definition range_sizes :: "addr_mapping list \<Rightarrow> int" where
  "range_sizes ms = sum_list (map (\<lambda>m. uint (m_end m - m_start m)) ms)"

definition collected_ok :: "addr_read \<Rightarrow> int \<Rightarrow> addr_mapping list \<Rightarrow> addr_mapping list \<Rightarrow> collected \<Rightarrow> bool" where
  "collected_ok read budget pre ms c \<longleftrightarrow>
     cl_segments c = map (segment_of read) ms \<and> set ms \<subseteq> {m \<in> set pre. probed read m} \<and>
     (\<forall>P. sorted_wrt P pre \<longrightarrow> sorted_wrt P ms) \<and>
     cl_budget c = budget - range_sizes ms \<and> 0 \<le> cl_budget c \<and>
     (cl_status c = RodataOK \<and> {m \<in> set pre. probed read m} \<subseteq> set ms \<or>
      cl_status c = RodataTruncated \<and> (\<exists>m \<in> set pre. probed read m \<and> cl_budget c < uint (m_end m - m_start m)))"

lemma range_sizes_snoc: "range_sizes (ms @ [m]) = range_sizes ms + uint (m_end m - m_start m)"
  by (simp add: range_sizes_def)

lemma collect_step:
  assumes ok: "collected_ok read budget pre ms c"
  shows "\<exists>ms'. collected_ok read budget (pre @ [m]) ms' (collect_segment read m c)"
proof -
  let ?sz = "m_end m - m_start m"
  have rest: "\<And>P. sorted_wrt P (pre @ [m]) \<Longrightarrow> sorted_wrt P ms" using ok by (auto simp: collected_ok_def sorted_wrt_append)
  consider "\<not> probed read m" | "probed read m" "cl_budget c < uint ?sz" | "probed read m" "uint ?sz \<le> cl_budget c"
    by linarith
  then show ?thesis
  proof cases
    case 1
    then have "cl_segments (collect_segment read m c) = cl_segments c" "cl_budget (collect_segment read m c) = cl_budget c"
      "cl_status (collect_segment read m c) = cl_status c"
      by (auto simp: collect_segment_def probed_def Let_def)
    with ok 1 rest show ?thesis by (intro exI [of _ ms]) (auto simp: collected_ok_def)
  next
    case 2
    then have "cl_segments (collect_segment read m c) = cl_segments c" "cl_budget (collect_segment read m c) = cl_budget c"
      "cl_status (collect_segment read m c) = RodataTruncated"
      by (auto simp: collect_segment_def probed_def Let_def)
    with ok 2 rest show ?thesis by (intro exI [of _ ms]) (auto simp: collected_ok_def)
  next
    case 3
    then have new: "cl_segments (collect_segment read m c) = cl_segments c @ [segment_of read m]"
      "cl_budget (collect_segment read m c) = cl_budget c - uint ?sz"
      "cl_status (collect_segment read m c) = cl_status c"
      by (auto simp: collect_segment_def probed_def Let_def segment_of_def split: prod.split)
    have pos: "0 \<le> uint ?sz" by simp
    have "\<exists>x \<in> set (pre @ [m]). probed read x \<and> cl_budget c - uint ?sz < uint (m_end x - m_start x)"
      if "\<exists>x \<in> set pre. probed read x \<and> cl_budget c < uint (m_end x - m_start x)"
    proof -
      from that obtain x where x: "x \<in> set pre" "probed read x" "cl_budget c < uint (m_end x - m_start x)" by blast
      from x(3) pos have "cl_budget c - uint ?sz < uint (m_end x - m_start x)" by linarith
      with x(1,2) show ?thesis by auto
    qed
    moreover have "sorted_wrt P (ms @ [m])" if "sorted_wrt P (pre @ [m])" for P
      using that ok by (auto simp: collected_ok_def sorted_wrt_append)
    ultimately have more: "\<And>P. sorted_wrt P (pre @ [m]) \<Longrightarrow> sorted_wrt P (ms @ [m])"
      "\<exists>x \<in> set pre. probed read x \<and> cl_budget c < uint (m_end x - m_start x) \<Longrightarrow>
        \<exists>x \<in> set (pre @ [m]). probed read x \<and> cl_budget c - uint ?sz < uint (m_end x - m_start x)"
      by blast+
    from ok have old: "cl_segments c = map (segment_of read) ms" "set ms \<subseteq> {m \<in> set pre. probed read m}"
      "cl_budget c = budget - range_sizes ms"
      "cl_status c = RodataOK \<and> {m \<in> set pre. probed read m} \<subseteq> set ms \<or>
       cl_status c = RodataTruncated \<and> (\<exists>x \<in> set pre. probed read x \<and> cl_budget c < uint (m_end x - m_start x))"
      unfolding collected_ok_def by blast+
    have "collected_ok read budget (pre @ [m]) (ms @ [m]) (collect_segment read m c)"
      unfolding collected_ok_def new
    proof (intro conjI)
      show "cl_segments c @ [segment_of read m] = map (segment_of read) (ms @ [m])" by (simp add: old(1))
      show "set (ms @ [m]) \<subseteq> {m' \<in> set (pre @ [m]). probed read m'}" using old(2) 3(1) by auto
      show "\<forall>P. sorted_wrt P (pre @ [m]) \<longrightarrow> sorted_wrt P (ms @ [m])" using more(1) by blast
      show "cl_budget c - uint ?sz = budget - range_sizes (ms @ [m])" by (simp add: range_sizes_snoc old(3))
      show "0 \<le> cl_budget c - uint ?sz" using 3(2) by simp
      show "cl_status c = RodataOK \<and> {m' \<in> set (pre @ [m]). probed read m'} \<subseteq> set (ms @ [m]) \<or>
        cl_status c = RodataTruncated \<and>
          (\<exists>x \<in> set (pre @ [m]). probed read x \<and> cl_budget c - uint ?sz < uint (m_end x - m_start x))"
        using old(4)
      proof
        assume "cl_status c = RodataOK \<and> {m \<in> set pre. probed read m} \<subseteq> set ms"
        then show ?thesis by auto
      next
        assume t: "cl_status c = RodataTruncated \<and> (\<exists>x \<in> set pre. probed read x \<and> cl_budget c < uint (m_end x - m_start x))"
        from more(2) [OF conjunct2 [OF t]] t show ?thesis by blast
      qed
    qed
    then show ?thesis by blast
  qed
qed

lemma collect_fold:
  assumes "0 \<le> cl_budget c" "cl_status c = RodataOK" "cl_segments c = []"
  shows "\<exists>ms. collected_ok read (cl_budget c) ranges ms (fold (collect_segment read) ranges c)"
proof (induction ranges rule: rev_induct)
  case Nil
  show ?case using assms by (intro exI [of _ "[]"]) (simp add: collected_ok_def range_sizes_def)
next
  case (snoc m ranges)
  then show ?case using collect_step by fastforce
qed

lemma rodata_budget_nonneg: "0 \<le> rodata_budget n"
  by (simp add: rodata_budget_def DefaultMaxRodataBytes_def)

lemma collect_segments_ranges:
  assumes "collect_segments read ranges max_bytes mt = (segs, status, mt')"
  shows "\<exists>ms. segs = map (segment_of read) ms \<and> set ms \<subseteq> {m \<in> set ranges. probed read m} \<and>
    (\<forall>P. sorted_wrt P ranges \<longrightarrow> sorted_wrt P ms) \<and> range_sizes ms \<le> rodata_budget max_bytes \<and>
    (status = RodataOK \<longrightarrow> segs \<noteq> [] \<and> set ms = {m \<in> set ranges. probed read m}) \<and>
    (status = RodataUnavailable \<longrightarrow> segs = [] \<and> {m \<in> set ranges. probed read m} = {}) \<and>
    (status = RodataTruncated \<longrightarrow>
      (\<exists>m \<in> set ranges. probed read m \<and> rodata_budget max_bytes < range_sizes ms + uint (m_end m - m_start m))) \<and>
    status \<in> {RodataOK, RodataUnavailable, RodataTruncated}"
proof -
  define c0 where "c0 = \<lparr>cl_budget = rodata_budget max_bytes, cl_status = RodataOK, cl_reason = rm_reason (mt_rodata mt),
             cl_warnings = mt_warnings mt, cl_segments = []\<rparr>"
  define c where "c = fold (collect_segment read) ranges c0"
  have "0 \<le> cl_budget c0" "cl_status c0 = RodataOK" "cl_segments c0 = []" by (simp_all add: c0_def rodata_budget_nonneg)
  from collect_fold [OF this] obtain ms where ms: "collected_ok read (rodata_budget max_bytes) ranges ms c"
    unfolding c_def by (auto simp: c0_def)
  have names: "RodataOK \<noteq> RodataUnavailable" "RodataOK \<noteq> RodataTruncated" "RodataUnavailable \<noteq> RodataTruncated"
    by (simp_all add: RodataOK_def RodataUnavailable_def RodataTruncated_def)
  have res: "segs = cl_segments c"
    "status = (if cl_segments c = [] \<and> cl_status c = RodataOK then RodataUnavailable else cl_status c)"
    using assms by (auto simp: collect_segments_def Let_def c_def c0_def split: if_splits)
  show ?thesis
    using ms res names by (intro exI [of _ ms]) (auto simp: collected_ok_def split: if_splits)
qed

section \<open>Saved ranges open again\<close>

lemma sorted_overlap:
  "sorted_wrt (\<lambda>a b. sg_end a \<le> sg_start b) segs \<Longrightarrow> segments_overlap segs = None"
  by (induction segs rule: segments_overlap.induct) auto

lemma new_segments_sorted:
  fixes infos :: "segment_info list"
  assumes fit: "list_all2 block_fits infos ds"
    and ord: "sorted_wrt (\<lambda>a b. unat (si_addr a) + unat (si_size a) \<le> unat (si_addr b)) infos"
  shows "\<exists>sr. new_segments_reader infos ds = Inr sr"
proof -
  let ?mk = "\<lambda>(info, d :: byte list). \<lparr>sg_start = si_addr info, sg_end = si_addr info + si_size info, sg_data = d\<rparr>"
  let ?ps = "filter (\<lambda>(info, d). d \<noteq> []) (zip infos ds)"
  obtain segs where segs: "segment_list (zip infos ds) = Inr segs" using segment_list_total [OF fit] by blast
  note sl = segment_list_Inr [OF segs]
  have len: "length infos = length ds" by (rule list_all2_lengthD [OF fit])
  have "sorted_wrt (\<lambda>p q. unat (si_addr (fst p)) + unat (si_size (fst p)) \<le> unat (si_addr (fst q))) (zip infos ds)"
    using ord len sorted_wrt_map [of "\<lambda>a b. unat (si_addr a) + unat (si_size a) \<le> unat (si_addr b)" fst "zip infos ds"]
    by simp
  then have "sorted_wrt (\<lambda>p q. unat (si_addr (fst p)) + unat (si_size (fst p)) \<le> unat (si_addr (fst q))) ?ps"
    by (rule sorted_wrt_filter)
  then have "sorted_wrt (\<lambda>p q. sg_end (?mk p) \<le> sg_start (?mk q) \<and> sg_start (?mk p) \<le> sg_start (?mk q)) ?ps"
  proof (rule sorted_wrt_mono_rel [rotated])
    fix p q :: "segment_info \<times> byte list"
    assume p: "p \<in> set ?ps" and le: "unat (si_addr (fst p)) + unat (si_size (fst p)) \<le> unat (si_addr (fst q))"
    obtain info d where pd: "p = (info, d)" by fastforce
    from p sl have "unat (si_addr info) + unat (si_size info) < 2 ^ 64" by (auto simp: pd)
    then have "unat (si_addr info + si_size info) = unat (si_addr info) + unat (si_size info)"
      by (rule unat_add_no_carry)
    with le show "sg_end (?mk p) \<le> sg_start (?mk q) \<and> sg_start (?mk p) \<le> sg_start (?mk q)"
      by (cases q) (simp add: pd word_le_nat_alt)
  qed
  then have sorted: "sorted_wrt (\<lambda>a b. sg_end a \<le> sg_start b \<and> sg_start a \<le> sg_start b) segs"
    using sl by (simp add: sorted_wrt_map)
  have "sorted (map sg_start segs)"
    unfolding sorted_map by (rule sorted_wrt_mono_rel [OF _ sorted]) simp
  then have "sort_key sg_start segs = segs" by (intro properties_for_sort_key) simp_all
  moreover have "segments_overlap segs = None"
    by (rule sorted_overlap, rule sorted_wrt_mono_rel [OF _ sorted]) simp
  ultimately show ?thesis using segs len by (simp add: new_segments_reader_def Let_def)
qed

text \<open>Mappings as \<open>/proc/self/maps\<close> lists them: nonempty, ascending, disjoint.\<close>

definition ascending_maps :: "addr_mapping list \<Rightarrow> bool" where
  "ascending_maps ms \<longleftrightarrow> sorted_wrt (\<lambda>a b. m_end a \<le> m_start b) ms \<and> (\<forall>m \<in> set ms. m_start m \<le> m_end m)"

lemma mapping_size:
  "m_start m \<le> m_end m \<Longrightarrow> unat (m_start m) + unat (m_end m - m_start m) = unat (m_end m)"
  by (simp add: unat_sub word_le_nat_alt)

text \<open>The saved ranges, written in full, make a reader whose answers are those of the process.\<close>

lemma saved_ranges_reader:
  assumes maps: "ascending_maps ms" and segs: "segs = map (segment_of read) ms"
    and full: "\<forall>s \<in> set segs. 0 \<le> sint (wsg_size s) \<and> sint (wsg_size s) \<le> int (length (wsg_data s))"
    and reader: "slice_reader read"
  obtains sr where
    "new_segments_reader (map segment_info_of (enumerate 0 segs)) (map segment_data segs) = Inr sr"
    "\<And>a n bs m. m \<in> set ms \<Longrightarrow> m_start m \<le> a \<Longrightarrow> unat a + unat n \<le> unat (m_end m) \<Longrightarrow> 0 < n \<Longrightarrow>
      read a n = Some bs \<Longrightarrow> segments_read_at_addr (Some sr) a n = Some bs"
proof -
  let ?infos = "map segment_info_of (enumerate 0 segs)" and ?ds = "map segment_data segs"
  have seg: "wsg_addr (segment_of read m) = m_start m" "wsg_size (segment_of read m) = m_end m - m_start m" for m
    by (simp_all add: segment_of_def split: prod.split)
  have size: "unat (wsg_size s) = length (segment_data s)" "sint (wsg_size s) = int (unat (wsg_size s))"
    if "s \<in> set segs" for s
  proof -
    have s: "0 \<le> sint (wsg_size s)" "sint (wsg_size s) \<le> int (length (wsg_data s))" using full that by blast+
    show eq: "sint (wsg_size s) = int (unat (wsg_size s))"
      using s sint_cases [of "wsg_size s"] unsigned_less [of "wsg_size s", where ?'a = int] by (auto split: if_splits)
    have "unat (wsg_size s) \<le> length (wsg_data s)" using s(2) unfolding eq by (simp only: of_nat_le_iff)
    then show "unat (wsg_size s) = length (segment_data s)" unfolding segment_data_def eq by simp
  qed
  have fits: "unat (wsg_addr s) + unat (wsg_size s) < 2 ^ 64" if s: "s \<in> set segs" for s
  proof -
    obtain m where "m \<in> set ms" "s = segment_of read m" using s segs by auto
    then show ?thesis using maps mapping_size [of m] unsigned_less [of "m_end m", where ?'a = nat]
      by (simp add: seg ascending_maps_def)
  qed
  have "list_all2 block_fits ?infos ?ds"
    unfolding list_all2_conv_all_nth
    using size(1) fits by (auto simp: nth_enumerate_eq segment_info_of_def block_fits_def dest: nth_mem)
  moreover have "sorted_wrt (\<lambda>a b. unat (si_addr a) + unat (si_size a) \<le> unat (si_addr b)) ?infos"
  proof -
    have asc: "sorted_wrt (\<lambda>a b. m_end a \<le> m_start b) ms" and le: "\<And>m. m \<in> set ms \<Longrightarrow> m_start m \<le> m_end m"
      using maps by (simp_all add: ascending_maps_def)
    have "sorted_wrt (\<lambda>a b. unat (m_start a) + unat (m_end a - m_start a) \<le> unat (m_start b)) ms"
      by (rule sorted_wrt_mono_rel [OF _ asc]) (simp add: mapping_size [OF le] word_le_nat_alt)
    then have "sorted_wrt (\<lambda>a b. unat (wsg_addr a) + unat (wsg_size a) \<le> unat (wsg_addr b)) segs"
      by (simp add: segs sorted_wrt_map seg)
    then have "sorted_wrt (\<lambda>a b. unat (wsg_addr (snd a)) + unat (wsg_size (snd a)) \<le> unat (wsg_addr (snd b))) (enumerate 0 segs)"
      using sorted_wrt_map [of "\<lambda>a b. unat (wsg_addr a) + unat (wsg_size a) \<le> unat (wsg_addr b)" snd "enumerate 0 segs"]
      by simp
    then show ?thesis by (simp add: sorted_wrt_map segment_info_of_def case_prod_beta)
  qed
  ultimately obtain sr where sr: "new_segments_reader ?infos ?ds = Inr sr" using new_segments_sorted by blast
  have "segments_read_at_addr (Some sr) a n = Some bs"
    if m: "m \<in> set ms" "m_start m \<le> a" "unat a + unat n \<le> unat (m_end m)" "0 < n" and live: "read a n = Some bs"
    for a n bs m
  proof -
    let ?s = "segment_of read m"
    obtain i where i: "i < length ms" "ms ! i = m" using m(1) by (metis in_set_conv_nth)
    then have si: "i < length segs" "segs ! i = ?s" "?s \<in> set segs" using m(1) by (auto simp: segs)
    have drained: "drain read \<lparr>rr_addr = m_start m, rr_remaining = m_end m - m_start m\<rparr> = (wsg_data ?s, wsg_end ?s)"
      by (simp add: segment_of_def split: prod.split)
    note bytes = slice_reader.drain_bytes [OF reader drained, simplified]
    have sz: "length (segment_data ?s) = unat (m_end m - m_start m)" using size(1) [OF si(3)] by (simp add: seg)
    then have data: "segment_data ?s = wsg_data ?s" "unat (m_end m - m_start m) \<le> length (wsg_data ?s)"
      using bytes size(2) [OF si(3)] unfolding segment_data_def seg by (simp_all only: nat_int length_take) auto
    have ms: "unat (m_start m) + unat (m_end m - m_start m) = unat (m_end m)"
      using maps m(1) by (simp add: mapping_size ascending_maps_def)
    have "bs = take (unat n) (drop (unat a - unat (m_start m)) (wsg_data ?s))"
      by (rule slice_reader.drained_read [OF reader drained data(2)])
        (use ms m live unsigned_less [of "m_end m", where ?'a = nat] in \<open>simp_all add: word_le_nat_alt\<close>)
    moreover have "(segment_info_of (i, ?s), segment_data ?s) \<in> set (zip ?infos ?ds)"
      using si by (auto simp: in_set_zip nth_enumerate_eq intro!: exI [of _ i])
    moreover have "a \<noteq> 0"
      using addr_reader.read_bounds [OF slice_reader.axioms(1) [OF reader] live m(4)] by simp
    ultimately show ?thesis
      unfolding new_segments_serve [OF sr m(4)]
      using m ms sz data(1)
      by (intro conjI bexI [of _ "(segment_info_of (i, ?s), segment_data ?s)"])
        (simp_all add: segment_info_of_def seg word_le_nat_alt)
  qed
  with sr show ?thesis by (rule that)
qed

section \<open>A capture leaves nothing behind\<close>

lemma keeps_files_profiles: "keeps_files (collect_profiles env specs acc)"
proof (induction specs arbitrary: acc)
  case Nil
  show ?case unfolding collect_profiles.simps by (rule keeps_files_return)
next
  case (Cons spec specs)
  obtain enabled name where spec: "spec = (enabled, name)" by fastforce
  show ?case unfolding spec collect_profiles.simps by (intro keeps_files_intros Cons.IH)
qed

lemma keeps_files_write: "keeps_files (write_captured env opts inp)"
  unfolding write_captured_def by (intro keeps_files_intros)

lemma keeps_files_opened_capture: "keeps_files (capture_opened env opts path)"
  unfolding capture_opened_def capture_contents_def capture_rodata_def Let_def
  by (intro keeps_files_intros keeps_files_profiles keeps_files_write)

lemma capture_self_releases:
  assumes "capture_self env opts rs = (r, rs')" "new_names (be_capture env) rs"
  shows "same_files rs' rs"
proof (cases "bc_max_artifact_bytes opts < 0")
  case True
  with assms(1) show ?thesis by (simp add: capture_self_def sx_fail_def)
next
  case False
  with assms(1) show ?thesis
    by (intro runtime.deferred_release [OF assms(2) keeps_files_opened_capture])
      (simp add: capture_self_def)
qed

section \<open>What a finished capture has written\<close>

lemma sx_bind_Inr: "sx_bind m f s = (Inr y, t) \<longleftrightarrow> (\<exists>x s1. m s = (Inr x, s1) \<and> f x s1 = (Inr y, t))"
  by (auto simp: sx_bind_def split: prod.splits sum.splits)

lemma sx_do_bind: "sx_bind (sx_do f) g s = g () (f s)"
  by (simp add: sx_bind_def sx_do_def)

lemma collect_profiles_Inr:
  "collect_profiles env specs acc rs = (Inr (ps, metas), rs') \<Longrightarrow> distinct (map fst (fst acc)) \<Longrightarrow> distinct (map fst ps)"
proof (induction env specs acc arbitrary: rs rule: collect_profiles.induct)
  case (1 env acc)
  then show ?case by (simp add: sx_return_def)
next
  case (2 env enabled name specs acc)
  show ?case
  proof (cases enabled)
    case False
    with 2 show ?thesis by simp
  next
    case True
    with 2(3) obtain rs1 bytes pm where "be_profile env (profileKind name) = Inr (bytes, pm)"
      "collect_profiles env specs (AList.update name bytes (fst acc), AList.update name pm (snd acc)) rs1 = (Inr (ps, metas), rs')"
      by (auto simp: sx_bind_Inr sx_fail_def split: sum.splits prod.splits)
    with 2(2) [of "(bytes, pm)"] True 2(4) show ?thesis by (simp add: AList.distinct_update)
  qed
qed

definition empty_tar :: tar_writer where "empty_tar = \<lparr>tw_members = [], tw_calls = 0\<rparr>"

definition saved_segments_of :: "bundle_env \<Rightarrow> bundle_options \<Rightarrow> write_input \<Rightarrow> bool" where
  "saved_segments_of env opts inp \<longleftrightarrow>
     (if bc_disable_rodata opts then win_segments inp = []
      else case be_process env of
        Inl _ \<Rightarrow> win_segments inp = []
      | Inr (name, p) \<Rightarrow> \<exists>mt mt'.
          collect_segments (process_read_at_addr (Some p)) (eligible_string_ranges (Some p)) (bc_max_rodata_bytes opts) mt =
            (win_segments inp, rm_status (mt_rodata (win_meta inp)), mt'))"

lemma write_captured_Inr:
  "write_captured env opts inp rs = (Inr tw, rs') \<longleftrightarrow> rs' = rs \<and>
     write_bundle (be_stream env (bc_max_artifact_bytes opts)) (be_enc_meta env) (be_enc_infos env) (be_now env) inp empty_tar =
       Inr ((), tw)"
  by (auto simp: write_captured_def sx_fail_def sx_return_def empty_tar_def split: sum.splits)

lemma capture_rodata_Inr:
  assumes "capture_rodata env opts inp rs = (Inr tw, rs')" "win_segments inp = []"
  obtains inp' where "win_dump inp' = win_dump inp" "win_dump_size inp' = win_dump_size inp"
    "win_profiles inp' = win_profiles inp" "saved_segments_of env opts inp'"
    "write_bundle (be_stream env (bc_max_artifact_bytes opts)) (be_enc_meta env) (be_enc_infos env) (be_now env) inp' empty_tar =
      Inr ((), tw)"
proof (cases "bc_disable_rodata opts")
  case True
  with assms show ?thesis
    by (intro that [of "inp\<lparr>win_meta := (win_meta inp)\<lparr>mt_rodata :=
          no_rodata\<lparr>rm_status := RodataDisabled, rm_reason := ''disabled by options''\<rparr>\<rparr>\<rparr>"])
      (auto simp: capture_rodata_def Let_def write_captured_Inr saved_segments_of_def)
next
  case False
  show ?thesis
  proof (cases "be_process env")
    case (Inl e)
    with assms False show ?thesis
      by (intro that [of "inp\<lparr>win_meta := (win_meta inp)\<lparr>mt_rodata :=
            no_rodata\<lparr>rm_status := RodataUnavailable, rm_reason := be_error_text env e\<rparr>\<rparr>\<rparr>"])
        (auto simp: capture_rodata_def Let_def write_captured_Inr saved_segments_of_def)
  next
    case (Inr np)
    obtain name p where np: "np = (name, p)" by fastforce
    obtain segs status mt' where c: "collect_segments (process_read_at_addr (Some p)) (eligible_string_ranges (Some p))
        (bc_max_rodata_bytes opts) (win_meta inp) = (segs, status, mt')" by (metis prod.exhaust)
    let ?inp = "inp\<lparr>win_segments := segs, win_meta := mt'\<lparr>mt_rodata := (mt_rodata mt')\<lparr>rm_status := status\<rparr>\<rparr>\<rparr>"
    have "collect_segments (process_read_at_addr (Some p)) (eligible_string_ranges (Some p)) (bc_max_rodata_bytes opts)
        (win_meta inp) = (win_segments ?inp, rm_status (mt_rodata (win_meta ?inp)), mt')"
      using c by simp
    then have "saved_segments_of env opts ?inp" using False Inr np unfolding saved_segments_of_def by fastforce
    with assms(1) False Inr np c show ?thesis
      by (intro that [of ?inp]) (auto simp: capture_rodata_def Let_def sx_do_bind defer_run write_captured_Inr)
  qed
qed

text \<open>Opening a file reads what the disk holds, or fails.\<close>

definition reads_files :: "bundle_env \<Rightarrow> bool" where
  "reads_files env \<longleftrightarrow>
     (\<forall>path found dump e stat. be_open env path found = Inr (dump, e, stat) \<longrightarrow>
        found = Some dump \<and> (\<forall>sz. stat = Inr sz \<longrightarrow> sint sz = int (length dump)))"

lemma capture_self_Inr:
  assumes run: "capture_self env opts rs = (Inr tw, rs')" and new: "new_names (be_capture env) rs"
    and reads: "reads_files env"
  obtains inp where "win_dump inp = ce_runtime_dump (be_capture env)"
    "sint (win_dump_size inp) = int (length (win_dump inp))" "distinct (map fst (win_profiles inp))"
    "saved_segments_of env opts inp"
    "write_bundle (be_stream env (bc_max_artifact_bytes opts)) (be_enc_meta env) (be_enc_infos env) (be_now env) inp empty_tar =
      Inr ((), tw)"
proof -
  from run obtain path release rs1 rs2 where
    cap: "runtime_capturer (be_capture env) (bc_scratch_dir opts) (bc_min_free_bytes opts) (bc_max_dump_bytes opts)
      (bc_gc_before opts) rs = (Inr (path, release), rs1)"
    and "capture_opened env opts path rs1 = (Inr tw, rs2)"
    by (auto simp: capture_self_def sx_bind_Inr defer_run sx_fail_def split: if_splits prod.splits)
  then obtain dump dump_end sz rs3 rs4 where o: "be_open env path (rs_contents rs1 path) = Inr (dump, dump_end, Inr sz)"
    and "capture_contents env opts dump dump_end sz rs3 = (Inr tw, rs4)"
    by (auto simp: capture_opened_def sx_bind_Inr sx_get_def sx_do_bind defer_run sx_fail_def split: sum.splits prod.splits)
  moreover have dump: "dump = ce_runtime_dump (be_capture env)" "sint sz = int (length dump)"
    using reads [unfolded reads_files_def, rule_format, OF o] runtime_capturer_dump [OF cap new] by simp_all
  ultimately obtain profiles metas rs5 rs6 rs7 where
    pr: "collect_profiles env [(bc_include_heap opts, HeapProfileMember), (bc_include_goroutine opts, GoroutineProfileMember)]
      ([], []) rs5 = (Inr (profiles, metas), rs6)"
    and "capture_rodata env opts \<lparr>win_meta = (base_meta env opts)\<lparr>mt_profiles := metas, mt_capture_settings := Some (settings_of opts),
          mt_application_build := build_of (be_build env)\<rparr>,
        win_segments = [], win_dump = dump, win_dump_end = dump_end, win_dump_size = sz, win_profiles = profiles\<rparr> rs6 =
      (Inr tw, rs7)"
    by (auto simp: capture_contents_def sx_bind_Inr split: prod.splits)
  then show ?thesis
    by (elim capture_rodata_Inr) (use dump that collect_profiles_Inr [OF pr] in auto)
qed

section \<open>From the process to an opened bundle\<close>

text \<open>The decoders read back what the encoders made.\<close>

definition decodes_encoded ::
  "bundle_env \<Rightarrow> bundle_meta json_decoder \<Rightarrow> segment_info list json_decoder \<Rightarrow> bool"
where
  "decodes_encoded env dm di \<longleftrightarrow>
     (\<forall>mt mb. be_enc_meta env mt = Inr mb \<longrightarrow> dm mb None = Inr (mt, [])) \<and>
     (\<forall>infos sb. be_enc_infos env infos = Inr sb \<longrightarrow> di sb None = Inr (infos, []))"

text \<open>The reader's limits admit the members of a tar, and any segments within the capture's budget.\<close>

definition reader_admits :: "reader_options \<Rightarrow> int \<Rightarrow> tar_member list \<Rightarrow> bool" where
  "reader_admits ropts budget ms \<longleftrightarrow> limits_ok ropts \<and>
     size_sum KMeta ms \<le> rdo_max_metadata (effective_limits ropts) \<and>
     size_sum KIndex ms \<le> rdo_max_index (effective_limits ropts) \<and>
     size_sum KProfile ms \<le> rdo_max_profile (effective_limits ropts) \<and>
     budget \<le> rdo_max_rodata (effective_limits ropts)"

lemma segment_sum:
  assumes "\<forall>s \<in> set (map (segment_of read) ms). sint (wsg_size s) = uint (wsg_size s)"
  shows "sum_list (map (\<lambda>s. sint (wsg_size s)) (map (segment_of read) ms)) = range_sizes ms"
  using assms by (induction ms) (simp_all add: range_sizes_def segment_of_def split: prod.splits)

text \<open>The saved reader answers a read inside the ranges as the process does.\<close>

definition answers_as :: "addr_read \<Rightarrow> segments_reader \<Rightarrow> addr_mapping list \<Rightarrow> bool" where
  "answers_as read sr ms \<longleftrightarrow>
     (\<forall>m \<in> set ms. \<forall>a n bs. m_start m \<le> a \<longrightarrow> unat a + unat n \<le> unat (m_end m) \<longrightarrow> 0 < n \<longrightarrow>
        read a n = Some bs \<longrightarrow> segments_read_at_addr (Some sr) a n = Some bs)"

lemma captured_bundle_opens:
  assumes run: "capture_self env opts rs = (Inr tw, rs')"
    and process: "\<not> bc_disable_rodata opts" "be_process env = Inr (name, p)"
    and reader: "slice_reader (process_read_at_addr (Some p))" and maps: "ascending_maps (pr_maps p)"
    and json: "decodes_encoded env dm di" and disk: "file_works tenv"
    and new: "new_names (be_capture env) rs" and files: "reads_files env"
    and lim: "reader_admits ropts (rodata_budget (bc_max_rodata_bytes opts)) (tw_members tw)"
    and index: "of_kind KIndex (tw_members tw) \<noteq> []"
  shows "\<exists>b sr ms.
    bundle_open tenv dm di ropts (written_stream tw) d =
      (Inr b, d(dump_path tenv \<mapsto> ce_runtime_dump (be_capture env))) \<and>
    bun_dump_path b = dump_path tenv \<and> bun_segments b = Some sr \<and>
    set ms \<subseteq> {m \<in> set (eligible_string_ranges (Some p)). probed (process_read_at_addr (Some p)) m} \<and>
    (rm_status (mt_rodata (bun_meta b)) = RodataOK \<longrightarrow>
      set ms = {m \<in> set (eligible_string_ranges (Some p)). probed (process_read_at_addr (Some p)) m}) \<and>
    range_sizes ms \<le> rodata_budget (bc_max_rodata_bytes opts) \<and>
    answers_as (process_read_at_addr (Some p)) sr ms"
proof -
  let ?read = "process_read_at_addr (Some p)" and ?ranges = "eligible_string_ranges (Some p)"
  obtain inp where o: "win_dump inp = ce_runtime_dump (be_capture env)"
      "sint (win_dump_size inp) = int (length (win_dump inp))"
    and dist: "distinct (map fst (win_profiles inp))" and saved: "saved_segments_of env opts inp"
    and w: "write_bundle (be_stream env (bc_max_artifact_bytes opts)) (be_enc_meta env) (be_enc_infos env) (be_now env)
      inp empty_tar = Inr ((), tw)"
    by (rule capture_self_Inr [OF run new files])
  obtain mt mt' where col: "collect_segments ?read ?ranges (bc_max_rodata_bytes opts) mt =
      (win_segments inp, rm_status (mt_rodata (win_meta inp)), mt')"
    using saved process by (auto simp: saved_segments_of_def)
  obtain ms where segs: "win_segments inp = map (segment_of ?read) ms"
    and ms: "set ms \<subseteq> {m \<in> set ?ranges. probed ?read m}" "\<forall>P. sorted_wrt P ?ranges \<longrightarrow> sorted_wrt P ms"
      "range_sizes ms \<le> rodata_budget (bc_max_rodata_bytes opts)"
    and ok: "rm_status (mt_rodata (win_meta inp)) = RodataOK \<longrightarrow> set ms = {m \<in> set ?ranges. probed ?read m}"
    using collect_segments_ranges [OF col] by blast
  obtain mb sb where mb: "be_enc_meta env (written_meta (be_now env) inp) = Inr mb"
    and sb: "win_segments inp \<noteq> [] \<Longrightarrow>
      be_enc_infos env (map segment_info_of (enumerate 0 (win_segments inp))) = Inr sb"
    and members: "tw_members tw = tw_members empty_tar @ written_members mb sb inp"
    and full: "\<forall>s \<in> set (win_segments inp). 0 \<le> sint (wsg_size s) \<and> sint (wsg_size s) \<le> int (length (wsg_data s))"
    and kinds: "\<forall>n \<in> set (profile_names inp). profileKind n \<noteq> []"
    by (rule write_bundle_Inr [OF w]) (rule that)
  have tw: "tw_members tw = written_members mb sb inp" using members by (simp add: empty_tar_def)
  note wk = written_kinds [OF kinds, of mb sb, folded tw]
  have ne: "win_segments inp \<noteq> []" using index wk(2) by auto
  have asc: "ascending_maps ms"
  proof -
    have "sorted_wrt (\<lambda>a b. m_end a \<le> m_start b) ?ranges" "\<forall>m \<in> set ?ranges. m_start m \<le> m_end m"
      using maps by (simp_all add: ascending_maps_def eligible_string_ranges_def sorted_wrt_filter)
    with ms show ?thesis by (auto simp: ascending_maps_def)
  qed
  obtain sr where sr: "new_segments_reader (map segment_info_of (enumerate 0 (win_segments inp)))
      (map segment_data (win_segments inp)) = Inr sr"
    and serves: "\<And>a n bs m. m \<in> set ms \<Longrightarrow> m_start m \<le> a \<Longrightarrow> unat a + unat n \<le> unat (m_end m) \<Longrightarrow> 0 < n \<Longrightarrow>
      ?read a n = Some bs \<Longrightarrow> segments_read_at_addr (Some sr) a n = Some bs"
    by (rule saved_ranges_reader [OF asc segs full reader]) (rule that)
  have sizes: "sint (wsg_size s) = uint (wsg_size s)" if "s \<in> set (win_segments inp)" for s
    using full that sint_cases [of "wsg_size s"] unsigned_less [of "wsg_size s", where ?'a = int]
    by (fastforce split: if_splits)
  have "sum_list (map (\<lambda>s. sint (wsg_size s)) (win_segments inp)) = range_sizes ms"
    unfolding segs by (rule segment_sum) (use sizes segs in simp)
  then have "write_fits ropts mb sb inp"
    using lim ms(3) wk ne profile_size [OF dist]
    by (simp add: write_fits_def reader_admits_def size_sum_def)
  then obtain b where b: "bundle_open tenv dm di ropts (written_stream tw) d =
      (Inr b, d(dump_path tenv \<mapsto> take (nat (sint (win_dump_size inp))) (win_dump inp)))"
    "bun_meta b = written_meta (be_now env) inp" "bun_segments b = Some sr" "bun_dump_path b = dump_path tenv"
    using written_reads_back [OF w [unfolded empty_tar_def] mb _ sb [OF ne] _ dist _ disk sr, of dm di ropts d] json mb sb ne
    by (auto simp: decodes_encoded_def)
  have dump: "take (nat (sint (win_dump_size inp))) (win_dump inp) = ce_runtime_dump (be_capture env)"
    by (simp only: o(2) nat_int take_all order_refl) (rule o(1))
  have "rm_status (mt_rodata (bun_meta b)) = rm_status (mt_rodata (win_meta inp))"
    by (simp add: b(2) written_meta_def filled_meta_def Let_def)
  with ok have st: "rm_status (mt_rodata (bun_meta b)) = RodataOK \<longrightarrow> set ms = {m \<in> set ?ranges. probed ?read m}" by simp
  show ?thesis
    by (intro exI conjI, rule b(1) [unfolded dump], rule b(4), rule b(3), rule ms(1), rule st, rule ms(3))
      (use serves in \<open>auto simp: answers_as_def\<close>)
qed

section \<open>The bundle endpoint\<close>

text \<open>The options of an admissible request.\<close>

definition valid_bundle_request :: "bundle_options \<Rightarrow> string \<Rightarrow> string \<Rightarrow> bundle_options option" where
  "valid_bundle_request copts http_method gc =
     (if http_method \<noteq> ''GET'' then None
      else case gc_override gc (bc_gc_before copts) of Inl _ \<Rightarrow> None | Inr b \<Rightarrow> Some (copts\<lparr>bc_gc_before := b\<rparr>))"

lemma serveBundle_invalid:
  assumes "valid_bundle_request copts http_method gc = None"
  shows "snd (serveBundle cap copts filename now later http_method gc gw) = gw"
    and "\<exists>r. fst (serveBundle cap copts filename now later http_method gc gw) = JsonAnswer r \<and> hr_status r \<in> {400, 405}"
  using assms
  by (auto simp: serveBundle_def valid_bundle_request_def writeJSONError_def split: prod.splits sum.splits if_splits)

lemma serveBundle_refused:
  assumes "valid_bundle_request copts http_method gc = Some opts" "acquire now g = (Some e, g')"
  shows "snd (serveBundle cap copts filename now later http_method gc (g, w)) = (g, w)"
    and "\<exists>r. fst (serveBundle cap copts filename now later http_method gc (g, w)) = JsonAnswer r \<and>
      hr_status r = (case e of Inl _ \<Rightarrow> 500 | Inr _ \<Rightarrow> 429)"
  using assms acquire_refused [OF assms(2)]
  by (auto simp: serveBundle_def valid_bundle_request_def writeJSONError_def split: prod.splits sum.splits if_splits)

text \<open>Only a capture that wrote nothing is answered with an error; a later one is aborted.\<close>

definition stream_answer :: "string \<Rightarrow> byte list list \<Rightarrow> go_error option \<Rightarrow> bundle_answer" where
  "stream_answer filename chunks err =
     (case err of
        None \<Rightarrow> StreamAnswer (tar_headers filename chunks) (concat chunks)
      | Some e \<Rightarrow>
          if chunks = [] then writeJSONError [] 500 (plain_error (mem_error_text (CaptureFailedError e)) ''capture_failed'')
          else AbortedAnswer (tar_headers filename chunks) (concat chunks))"

lemma serveBundle_admitted:
  assumes "valid_bundle_request copts http_method gc = Some opts" "acquire now g = (None, g')"
    and "cap opts w = ((chunks, err), w')"
  shows "serveBundle cap copts filename now later http_method gc (g, w) =
    (stream_answer filename chunks err, g\<lparr>gt_next := later + gt_cooldown g\<rparr>, w')"
  using assms admitted_takes_slot [OF assms(2)]
  by (auto simp: serveBundle_def valid_bundle_request_def stream_answer_def release_after
      split: prod.splits sum.splits if_splits option.splits)

end
