(* ===== verification/OfflineDiff.thy ===== *)
theory OfflineDiff
  imports MemObjects MemServe BundleArchiveFacts
begin

text \<open>
  Sessions over capture bundles (\<open>internal/offline/snapshot.go\<close>) and the comparison of two of them
  (\<open>internal/offline/diff.go\<close>). Byte differences are integers, printed in decimal as the code does
  with \<open>math/big\<close>; object counts are integers.
\<close>

section \<open>Opening a bundle\<close>

record offline_snapshot =
  of_session :: session
  of_capture :: bundle_meta

definition segment_reader_of :: "segments_reader option \<Rightarrow> extra_reader option" where
  "segment_reader_of segs =
     (case segs of None \<Rightarrow> None
      | Some sr \<Rightarrow> Some \<lparr>xr_name = Some segments_name, xr_read = segments_read_at_addr (Some sr)\<rparr>)"

definition text_message :: "string \<Rightarrow> message" where
  "text_message s = Fmt ''%s'' [FS s]"

text \<open>\<open>os.Open\<close> of a dump that is on the disk.\<close>

definition disk_source :: "disk \<Rightarrow> string \<Rightarrow> go_error + dump_source" where
  "disk_source d path =
     (case d path of
        None \<Rightarrow> Inl ErrNotExist
      | Some bytes \<Rightarrow> Inr \<lparr>ds_bytes = bytes, ds_end = EOF, ds_at = Some (bytes_read_at bytes)\<rparr>)"

definition load_bundle :: "disk \<Rightarrow> capture_bundle \<Rightarrow> mem_options \<Rightarrow> offline_snapshot serve_run" where
  "load_bundle d b opts =
     (case disk_source d (bun_dump_path b) of
        Inl e \<Rightarrow> sx_fail (OtherError e)
      | Inr src \<Rightarrow>
          sx_bind (sx_do (open_file (bun_dump_path b))) (\<lambda>_. sx_defer (close_file (bun_dump_path b))
            (sx_bind
              (on_context (load_snapshot src default_recover (segment_reader_of (bun_segments b))
                 (map text_message (bun_warnings b)) opts))
              (\<lambda>s. sx_return \<lparr>of_session = s, of_capture = bun_meta b\<rparr>))))"

text \<open>\<open>bundles\<close> opens the file at a path as a tar stream.\<close>

definition open_snapshot ::
  "(string \<Rightarrow> go_error + tar_stream) \<Rightarrow> temp_env \<Rightarrow> bundle_meta json_decoder \<Rightarrow> segment_info list json_decoder \<Rightarrow>
    string \<Rightarrow> mem_options \<Rightarrow> resources \<times> disk \<Rightarrow> (mem_error + offline_snapshot) \<times> resources \<times> disk"
where
  "open_snapshot bundles env dec_meta dec_infos path opts st =
     (case st of (rs, d) \<Rightarrow>
      case bundles path of
        Inl e \<Rightarrow> (Inl (OtherError e), rs, d)
      | Inr ts \<Rightarrow>
          let rs1 = open_file path rs in
          case bundle_open env dec_meta dec_infos
              \<lparr>rdo_max_profile = 0, rdo_max_rodata = 0, rdo_max_metadata = 0, rdo_max_index = 0\<rparr> ts d of
            (Inl e, d1) \<Rightarrow> (Inl (OtherError e), close_file path rs1, d1)
          | (Inr b, d1) \<Rightarrow>
              case load_bundle d1 b opts rs1 of (r, rs2) \<Rightarrow>
              case bundle_close env (Some b) d1 of (_, _, d2) \<Rightarrow> (r, close_file path rs2, d2))"

section \<open>A bundle that was opened is closed\<close>

lemma keeps_files_load_bundle: "keeps_files (load_bundle d b opts)"
  unfolding load_bundle_def by (intro keeps_files_intros)

lemma dump_disk_elsewhere: "(dump_disk env ms d)(dump_path env := None) = d(dump_path env := None)"
proof -
  have "(fold (\<lambda>m d. d(dump_path env \<mapsto> tm_data m)) xs d)(dump_path env := None) = d(dump_path env := None)" for xs
    by (induction xs arbitrary: d) simp_all
  then show ?thesis by (simp add: dump_disk_def)
qed

lemma dump_disk_present: "of_kind KDump ms \<noteq> [] \<Longrightarrow> dump_disk env ms d (dump_path env) \<noteq> None"
proof -
  have "xs \<noteq> [] \<Longrightarrow> fold (\<lambda>m d. d(dump_path env \<mapsto> tm_data m)) xs d (dump_path env) \<noteq> None" for xs
    by (induction xs rule: rev_induct) simp_all
  then show "of_kind KDump ms \<noteq> [] \<Longrightarrow> dump_disk env ms d (dump_path env) \<noteq> None" by (simp add: dump_disk_def)
qed

lemma opened_then_closed:
  assumes tidy: "tidy env d" and run: "bundle_open env dm di ropts ts d = (Inr b, d1)"
  shows "bundle_close env (Some b) d1 = (None, Some (b\<lparr>bun_dump_path := []\<rparr>), d)"
proof -
  have named: "te_create env \<noteq> Inr []" using tidy by (simp add: tidy_def)
  from run [unfolded bundle_open_Inr [OF named]] have acc: "acceptable env dm di (effective_limits ropts) (ts_members ts)"
    and dump: "of_kind KDump (ts_members ts) \<noteq> []" and d1: "d1 = dump_disk env (ts_members ts) d"
    and path: "bun_dump_path b = dump_path env"
    by (auto simp: bundle_of_def)
  from dump obtain m where "m \<in> set (ts_members ts)" "kind_of m = KDump" by (auto simp: filter_empty_conv)
  with acc have "\<exists>p. te_create env = Inr p" by (auto simp: acceptable_def acceptable_member_def list_all_iff)
  with named have ne: "dump_path env \<noteq> []" by (auto simp: dump_path_def)
  have "d(dump_path env := None) = d" using tidy by (auto simp: tidy_def)
  then have "os_remove env (dump_path env) d1 = (None, d)"
    using tidy dump_disk_present [OF dump, of env d] dump_disk_elsewhere [of env "ts_members ts" d]
    by (simp add: os_remove_def tidy_def d1)
  with ne path show ?thesis by (simp add: bundle_close_def)
qed

lemma open_snapshot_restores:
  assumes tidy: "tidy env d" and run: "open_snapshot bundles env dm di path opts (rs, d) = (r, rs', d')"
  shows "same_files rs' rs \<and> d' = d"
proof (cases "bundles path")
  case (Inl e)
  with run show ?thesis by (simp add: open_snapshot_def)
next
  case (Inr ts)
  let ?ropts = "\<lparr>rdo_max_profile = 0, rdo_max_rodata = 0, rdo_max_metadata = 0, rdo_max_index = 0\<rparr> :: reader_options"
  have closed: "same_files (close_file path (open_file path rs)) rs" by (simp add: same_files_def open_file_def close_file_def)
  obtain b d1 where o: "bundle_open env dm di ?ropts ts d = (b, d1)" by fastforce
  show ?thesis
  proof (cases b)
    case (Inl e)
    with run Inr o closed bundle_open_error [OF tidy o [unfolded Inl]] show ?thesis
      by (simp add: open_snapshot_def)
  next
    case b: (Inr bu)
    obtain r2 rs2 where l: "load_bundle d1 bu opts (open_file path rs) = (r2, rs2)" by fastforce
    have "same_files (close_file path rs2) rs"
      using keeps_filesD [OF keeps_files_load_bundle l] by (simp add: same_files_def open_file_def close_file_def)
    then show ?thesis
      using run Inr o b l opened_then_closed [OF tidy o [unfolded b]] by (simp add: open_snapshot_def)
  qed
qed

text \<open>A bundle whose dump is on the disk loads as the dump itself does, with its saved memory.\<close>

definition dump_source_of :: "byte list \<Rightarrow> dump_source" where
  "dump_source_of dump = \<lparr>ds_bytes = dump, ds_end = EOF, ds_at = Some (bytes_read_at dump)\<rparr>"

lemma open_snapshot_loads:
  assumes tidy: "tidy env d" and found: "bundles path = Inr ts"
    and opened: "bundle_open env dm di \<lparr>rdo_max_profile = 0, rdo_max_rodata = 0, rdo_max_metadata = 0, rdo_max_index = 0\<rparr> ts d =
      (Inr b, d(dump_path env \<mapsto> dump))"
    and at: "bun_dump_path b = dump_path env"
  shows "fst (open_snapshot bundles env dm di path opts (rs, d)) =
    (case load_snapshot (dump_source_of dump) default_recover (segment_reader_of (bun_segments b))
            (map text_message (bun_warnings b)) opts (rs_ctx rs) of
       Inl e \<Rightarrow> Inl e
     | Inr (s, c) \<Rightarrow> Inr \<lparr>of_session = s, of_capture = bun_meta b\<rparr>)"
proof -
  have src: "disk_source (d(dump_path env \<mapsto> dump)) (bun_dump_path b) = Inr (dump_source_of dump)"
    by (simp add: disk_source_def at dump_source_of_def)
  have ctx: "rs_ctx (open_file p rs) = rs_ctx rs" for p rs by (simp add: open_file_def)
  show ?thesis
    using opened_then_closed [OF tidy opened]
    by (simp add: open_snapshot_def found opened load_bundle_def src sx_bind_def sx_do_def sx_defer_def on_context_def
        sx_return_def ctx split: sum.split prod.split)
qed

section \<open>Differences\<close>

record diff_options =
  df_by :: string
  df_labels :: label_map
  df_a :: label_map
  df_b :: label_map

record delta =
  dl_objects :: int
  dl_bytes :: string

record bucket_delta =
  bd_min :: u64
  bd_max :: u64
  bd_delta :: delta

record summary_change =
  ch_labels :: label_map
  ch_before :: summary
  ch_after :: summary
  ch_goroutines :: int
  ch_roots :: int
  ch_metrics :: "(string \<times> delta) list"
  ch_distribution :: "bucket_delta list"
  ch_root_categories :: "(string \<times> int) list"
  ch_root_functions :: "(string \<times> int) list"

definition measure_delta :: "set_measure \<Rightarrow> set_measure \<Rightarrow> delta" where
  "measure_delta a b =
     \<lparr>dl_objects = ms_objects b - ms_objects a, dl_bytes = format_int (uint (ms_bytes b) - uint (ms_bytes a))\<rparr>"

definition count_delta :: "(string \<times> int) list \<Rightarrow> (string \<times> int) list \<Rightarrow> (string \<times> int) list" where
  "count_delta a b =
     fold (\<lambda>(k, v) out. AList.update k (count_at out k + v) out) b
       (fold (\<lambda>(k, v). AList.update k (- v)) a [])"

definition measure_at :: "(string \<times> set_measure) list \<Rightarrow> string \<Rightarrow> set_measure" where
  "measure_at m k = (case map_of m k of None \<Rightarrow> zero_measure | Some v \<Rightarrow> v)"

definition old_bucket :: "size_bucket list \<Rightarrow> u64 \<Rightarrow> set_measure" where
  "old_bucket a m = (case find (\<lambda>old. sb_min old = m) a of None \<Rightarrow> zero_measure | Some old \<Rightarrow> sb_measure old)"

definition bucket_deltas :: "size_bucket list \<Rightarrow> size_bucket list \<Rightarrow> (u64 \<times> bucket_delta) list" where
  "bucket_deltas a b =
     fold (\<lambda>v. AList.update (sb_min v)
         \<lparr>bd_min = sb_min v, bd_max = sb_max v, bd_delta = measure_delta (old_bucket a (sb_min v)) (sb_measure v)\<rparr>) b
       (fold (\<lambda>v. AList.update (sb_min v)
         \<lparr>bd_min = sb_min v, bd_max = sb_max v, bd_delta = measure_delta (sb_measure v) zero_measure\<rparr>) a [])"

definition change :: "label_map \<Rightarrow> summary \<Rightarrow> summary \<Rightarrow> summary_change" where
  "change labels a b =
     \<lparr>ch_labels = labels, ch_before = a, ch_after = b, ch_goroutines = sy_goroutines b - sy_goroutines a,
      ch_roots = sy_roots b - sy_roots a,
      ch_metrics = map (\<lambda>(k, v). (k, measure_delta v (measure_at (sy_metrics b) k))) (sy_metrics a),
      ch_distribution = sort_key bd_min (map snd (bucket_deltas (sy_distribution a) (sy_distribution b))),
      ch_root_categories = count_delta (sy_root_categories a) (sy_root_categories b),
      ch_root_functions = count_delta (sy_root_functions a) (sy_root_functions b)\<rparr>"

section \<open>Compatibility\<close>

text \<open>The values that are compared. \<open>reflect.DeepEqual\<close> compares the settings of a build as a map.\<close>

datatype check_value =
    BuildValue "application_build option"
  | TextValue string
  | SettingsValue "capture_settings option"
  | CompletenessValue string int string "message list"
  | RootsValue int int

definition same_build :: "application_build option \<Rightarrow> application_build option \<Rightarrow> bool" where
  "same_build a b =
     (case (a, b) of
        (None, None) \<Rightarrow> True
      | (Some x, Some y) \<Rightarrow>
          ab_path x = ab_path y \<and> ab_main_version x = ab_main_version y \<and>
          set (map fst (ab_settings x)) = set (map fst (ab_settings y)) \<and>
          list_all (\<lambda>k. map_of (ab_settings x) k = map_of (ab_settings y) k) (map fst (ab_settings x))
      | _ \<Rightarrow> False)"

fun deep_equal :: "check_value \<Rightarrow> check_value \<Rightarrow> bool" where
  "deep_equal (BuildValue a) (BuildValue b) = same_build a b"
| "deep_equal a b = (a = b)"

record compatibility_check =
  cc_field :: string
  cc_status :: string
  cc_before :: check_value
  cc_after :: check_value

definition compat_check :: "string \<Rightarrow> check_value \<Rightarrow> check_value \<Rightarrow> bool \<Rightarrow> compatibility_check" where
  "compat_check field_name a b known_value =
     \<lparr>cc_field = field_name,
      cc_status = (if \<not> known_value then ''unknown'' else if \<not> deep_equal a b then ''different'' else ''equal''),
      cc_before = a, cc_after = b\<rparr>"

definition completeness :: "offline_snapshot \<Rightarrow> check_value" where
  "completeness s =
     (let m = ss_metadata (of_session s)
      in CompletenessValue (sm_validation m) (gs_unresolved_pointers (sm_graph m)) (rm_status (mt_rodata (of_capture s)))
           (sm_warnings m))"

definition metadata_checks :: "offline_snapshot \<Rightarrow> offline_snapshot \<Rightarrow> compatibility_check list" where
  "metadata_checks before after =
     (let m = ss_metadata (of_session before); n = ss_metadata (of_session after); c = of_capture before; e = of_capture after
      in [compat_check ''application_build'' (BuildValue (mt_application_build c)) (BuildValue (mt_application_build e))
            (mt_application_build c \<noteq> None \<and> mt_application_build e \<noteq> None),
          compat_check ''go_version'' (TextValue (sm_go_version m)) (TextValue (sm_go_version n))
            (sm_go_version m \<noteq> [] \<and> sm_go_version n \<noteq> []),
          compat_check ''architecture'' (TextValue (sm_goarch m)) (TextValue (sm_goarch n))
            (sm_goarch m \<noteq> [] \<and> sm_goarch n \<noteq> []),
          compat_check ''capture_settings'' (SettingsValue (mt_capture_settings c)) (SettingsValue (mt_capture_settings e))
            (mt_capture_settings c \<noteq> None \<and> mt_capture_settings e \<noteq> None),
          compat_check ''completeness'' (completeness before) (completeness after) True])"

section \<open>The comparison\<close>

record pair_change =
  pc_before :: comparison
  pc_after :: comparison
  pc_delta :: "(string \<times> delta) list"

record diff_result =
  dr_schema_version :: int
  dr_selection :: diff_options
  dr_compatibility :: "compatibility_check list"
  dr_before :: session_metadata
  dr_after :: session_metadata
  dr_groups :: "summary_change list"
  dr_pair :: "pair_change option"
  dr_notes :: "string list"

definition diff_notes :: "string list" where
  "diff_notes =
     [''Objects are not matched across snapshots; deltas compare aggregate evidence.'',
      ''Growth does not prove a leak. Disappearing roots do not prove objects were reclaimed.'',
      ''Group metrics and overlap categories are not additive.'']"

definition diff_error :: "string \<Rightarrow> mem_error" where
  "diff_error text = OtherError (Errorf (Fmt text []))"

definition diff_mode :: "diff_options \<Rightarrow> mem_error option" where
  "diff_mode opts =
     (if (df_a opts \<noteq> [] \<or> df_b opts \<noteq> []) \<and> (df_a opts = [] \<or> df_b opts = []) then
        Some (diff_error ''both A and B selectors are required'')
      else if (if df_by opts \<noteq> [] then 1 else 0) + (if df_labels opts \<noteq> [] then 1 else 0) +
          (if df_a opts \<noteq> [] \<or> df_b opts \<noteq> [] then 1 else 0) \<noteq> (1 :: int) then
        Some (diff_error ''choose exactly one of by, labels, or A and B selectors'')
      else None)"

definition diff_selectors :: "offline_snapshot \<Rightarrow> offline_snapshot \<Rightarrow> diff_options \<Rightarrow> label_map list" where
  "diff_selectors before after opts =
     (if df_by opts \<noteq> [] then
        map (\<lambda>v. [(df_by opts, v)])
          (sorted_list_of_set (set (label_values (of_session before) (df_by opts)) \<union>
             set (label_values (of_session after) (df_by opts))))
      else if df_labels opts \<noteq> [] then [df_labels opts]
      else [df_a opts, df_b opts])"

definition selector_key :: "(label_map \<Rightarrow> go_error + string) \<Rightarrow> label_map \<Rightarrow> string" where
  "selector_key marshal labels = (case marshal labels of Inl _ \<Rightarrow> [] | Inr s \<Rightarrow> s)"

fun diff_groups ::
  "(label_map \<Rightarrow> go_error + string) \<Rightarrow> offline_snapshot \<Rightarrow> offline_snapshot \<Rightarrow> label_map list \<Rightarrow>
    (mem_error, ctx, (summary_change \<times> compatibility_check) list) run"
where
  "diff_groups marshal before after [] = es_return []"
| "diff_groups marshal before after (labels # rest) =
     es_bind (summarize (of_session before) \<lparr>rq_labels = labels\<rparr>) (\<lambda>a.
     es_bind (summarize (of_session after) \<lparr>rq_labels = labels\<rparr>) (\<lambda>b.
     es_bind (diff_groups marshal before after rest) (\<lambda>out.
     es_return
       ((change labels a b,
         compat_check (''selected_roots:'' @ selector_key marshal labels) (RootsValue (sy_goroutines a) (sy_roots a))
           (RootsValue (sy_goroutines b) (sy_roots b)) True) # out))))"

definition pair_deltas :: "comparison \<Rightarrow> comparison \<Rightarrow> (string \<times> delta) list" where
  "pair_deltas a b =
     [(''a_only'', measure_delta (cp_a_only a) (cp_a_only b)), (''b_only'', measure_delta (cp_b_only a) (cp_b_only b)),
      (''shared'', measure_delta (cp_shared a) (cp_shared b)), (''union'', measure_delta (cp_union a) (cp_union b))]"

definition diff_pair ::
  "offline_snapshot \<Rightarrow> offline_snapshot \<Rightarrow> diff_options \<Rightarrow> (mem_error, ctx, pair_change option) run"
where
  "diff_pair before after opts =
     (if df_a opts = [] then es_return None
      else
        es_bind (compare_selections (of_session before) \<lparr>rq_labels = df_a opts\<rparr> \<lparr>rq_labels = df_b opts\<rparr>) (\<lambda>a.
        es_bind (compare_selections (of_session after) \<lparr>rq_labels = df_a opts\<rparr> \<lparr>rq_labels = df_b opts\<rparr>) (\<lambda>b.
        es_return (Some \<lparr>pc_before = a, pc_after = b, pc_delta = pair_deltas a b\<rparr>))))"

definition offline_diff ::
  "(label_map \<Rightarrow> go_error + string) \<Rightarrow> offline_snapshot \<Rightarrow> offline_snapshot \<Rightarrow> diff_options \<Rightarrow>
    (mem_error, ctx, diff_result) run"
where
  "offline_diff marshal before after opts =
     (case diff_mode opts of
        Some e \<Rightarrow> es_fail e
      | None \<Rightarrow>
          es_bind (diff_groups marshal before after (diff_selectors before after opts)) (\<lambda>groups.
          es_bind (diff_pair before after opts) (\<lambda>pair.
          return_polled
            \<lparr>dr_schema_version = 1, dr_selection = opts, dr_compatibility = metadata_checks before after @ map snd groups,
             dr_before = ss_metadata (of_session before), dr_after = ss_metadata (of_session after),
             dr_groups = map fst groups, dr_pair = pair, dr_notes = diff_notes\<rparr>)))"

section \<open>Deltas account for the change\<close>

definition delta_of :: "set_measure \<Rightarrow> set_measure \<Rightarrow> delta \<Rightarrow> bool" where
  "delta_of a b d \<longleftrightarrow> ms_objects b = ms_objects a + dl_objects d \<and>
     dl_bytes d = format_int (uint (ms_bytes b) - uint (ms_bytes a))"

lemma measure_delta_ok [simp]: "delta_of a b (measure_delta a b)"
  by (simp add: delta_of_def measure_delta_def)

lemma count_at_update: "count_at (AList.update k v m) k' = (if k' = k then v else count_at m k')"
  by (simp add: count_at_def update_conv')

lemma count_at_Cons: "count_at ((k', v) # m) k = (if k = k' then v else count_at m k)"
  by (simp add: count_at_def)

lemma count_at_absent: "k \<notin> fst ` set m \<Longrightarrow> count_at m k = 0"
  by (simp add: count_at_def map_of_eq_None_iff [THEN iffD2])

lemma fold_negate:
  "distinct (map fst a) \<Longrightarrow> count_at (fold (\<lambda>(k, v). AList.update k (- v)) a m) k =
     (if k \<in> fst ` set a then - count_at a k else count_at m k)"
proof (induction a arbitrary: m)
  case (Cons kv a)
  obtain k' v where kv: "kv = (k', v)" by fastforce
  from Cons show ?case by (auto simp: kv count_at_update count_at_Cons)
qed simp

lemma fold_add_counts:
  "distinct (map fst b) \<Longrightarrow>
    count_at (fold (\<lambda>(k, v) out. AList.update k (count_at out k + v) out) b m) k = count_at m k + count_at b k"
proof (induction b arbitrary: m)
  case Nil
  then show ?case by (simp add: count_at_absent)
next
  case (Cons kv b)
  obtain k' v where kv: "kv = (k', v)" by fastforce
  with Cons.prems have "count_at b k' = 0" by (simp add: count_at_absent)
  with Cons kv show ?case by (auto simp: count_at_update count_at_Cons)
qed

lemma count_delta_at:
  assumes "distinct (map fst a)" "distinct (map fst b)"
  shows "count_at b k = count_at a k + count_at (count_delta a b) k"
  unfolding count_delta_def fold_add_counts [OF assms(2)] fold_negate [OF assms(1)]
  by (simp add: count_at_absent)

text \<open>A list of entries folded into a map: the entry of a key is that of the element that has it.\<close>

lemma fold_update_find:
  "distinct (map f xs) \<Longrightarrow> map_of (fold (\<lambda>v. AList.update (f v) (h v)) xs al) k =
     (case find (\<lambda>v. f v = k) xs of None \<Rightarrow> map_of al k | Some v \<Rightarrow> Some (h v))"
proof (induction xs arbitrary: al)
  case (Cons x xs)
  have "f x = k \<Longrightarrow> find (\<lambda>v. f v = k) xs = None" using Cons.prems unfolding find_None_iff by (auto simp: image_iff)
  with Cons show ?case by (auto simp: update_conv' split: option.split)
qed simp

lemma fold_update_distinct:
  "distinct (map fst al) \<Longrightarrow> distinct (map fst (fold (\<lambda>v. AList.update (f v) (h v)) xs al))"
  by (induction xs arbitrary: al) (simp_all add: distinct_update)

definition mins :: "size_bucket list \<Rightarrow> u64 set" where "mins bs = sb_min ` set bs"

lemma find_min: "find (\<lambda>v. sb_min v = k) bs = None \<longleftrightarrow> k \<notin> mins bs"
  by (auto simp: find_None_iff mins_def)

lemma bucket_deltas_at:
  assumes "distinct (map sb_min a)" "distinct (map sb_min b)"
  shows "map_of (bucket_deltas a b) k = Some d \<Longrightarrow>
      bd_min d = k \<and> bd_delta d = measure_delta (old_bucket a k) (old_bucket b k)"
    and "map_of (bucket_deltas a b) k = None \<longleftrightarrow> k \<notin> mins a \<union> mins b"
proof -
  have of_k: "sb_min v = k" if "find (\<lambda>v. sb_min v = k) bs = Some v" for v bs
    using that by (auto dest!: find_Some_iff [THEN iffD1])
  note entry = bucket_deltas_def fold_update_find [OF assms(1)] fold_update_find [OF assms(2)]
  show "map_of (bucket_deltas a b) k = Some d \<Longrightarrow>
      bd_min d = k \<and> bd_delta d = measure_delta (old_bucket a k) (old_bucket b k)"
    unfolding entry old_bucket_def
    by (cases "find (\<lambda>v. sb_min v = k) b"; cases "find (\<lambda>v. sb_min v = k) a") (auto dest: of_k)
  show "map_of (bucket_deltas a b) k = None \<longleftrightarrow> k \<notin> mins a \<union> mins b"
    unfolding entry using find_min [of k a] find_min [of k b] by (auto split: option.splits)
qed

text \<open>What a change says of the two summaries it is between.\<close>

definition accounts_for :: "summary \<Rightarrow> summary \<Rightarrow> summary_change \<Rightarrow> bool" where
  "accounts_for a b ch \<longleftrightarrow>
     sy_goroutines b = sy_goroutines a + ch_goroutines ch \<and> sy_roots b = sy_roots a + ch_roots ch \<and>
     map fst (ch_metrics ch) = map fst (sy_metrics a) \<and>
     (\<forall>k m. map_of (sy_metrics a) k = Some m \<longrightarrow>
        (\<exists>d. map_of (ch_metrics ch) k = Some d \<and> delta_of m (measure_at (sy_metrics b) k) d)) \<and>
     sorted_wrt (<) (map bd_min (ch_distribution ch)) \<and>
     bd_min ` set (ch_distribution ch) = mins (sy_distribution a) \<union> mins (sy_distribution b) \<and>
     (\<forall>d \<in> set (ch_distribution ch).
        delta_of (old_bucket (sy_distribution a) (bd_min d)) (old_bucket (sy_distribution b) (bd_min d)) (bd_delta d)) \<and>
     (\<forall>k. count_at (sy_root_categories b) k = count_at (sy_root_categories a) k + count_at (ch_root_categories ch) k) \<and>
     (\<forall>k. count_at (sy_root_functions b) k = count_at (sy_root_functions a) k + count_at (ch_root_functions ch) k)"

definition summary_ok :: "summary \<Rightarrow> bool" where
  "summary_ok y \<longleftrightarrow> distinct (map sb_min (sy_distribution y)) \<and> distinct (map fst (sy_root_categories y)) \<and>
     distinct (map fst (sy_root_functions y))"

lemma change_distribution:
  assumes "distinct (map sb_min a)" "distinct (map sb_min b)"
  defines "ds \<equiv> sort_key bd_min (map snd (bucket_deltas a b))"
  shows "sorted_wrt (<) (map bd_min ds)" "bd_min ` set ds = mins a \<union> mins b"
    "\<forall>d \<in> set ds. delta_of (old_bucket a (bd_min d)) (old_bucket b (bd_min d)) (bd_delta d)"
proof -
  have dist: "distinct (map fst (bucket_deltas a b))"
    unfolding bucket_deltas_def by (intro fold_update_distinct) simp
  have entry: "bd_min d = k \<and> bd_delta d = measure_delta (old_bucket a k) (old_bucket b k)"
    if "(k, d) \<in> set (bucket_deltas a b)" for k d
    using that dist bucket_deltas_at(1) [OF assms(1,2)] by (simp add: map_of_eq_Some_iff)
  have keys: "map bd_min (map snd (bucket_deltas a b)) = map fst (bucket_deltas a b)"
    using entry by auto
  have "distinct (map bd_min ds)"
  proof -
    have "mset (map bd_min ds) = mset (map fst (bucket_deltas a b))"
      unfolding keys [symmetric] by (simp only: ds_def mset_map mset_sort)
    then show ?thesis using dist by (metis mset_eq_imp_distinct_iff)
  qed
  moreover have "sorted (map bd_min ds)" by (simp add: ds_def)
  ultimately show "sorted_wrt (<) (map bd_min ds)" by (simp add: strict_sorted_iff)
  have "bd_min ` set ds = fst ` set (bucket_deltas a b)" using entry by (force simp: ds_def)
  also have "\<dots> = mins a \<union> mins b"
    using bucket_deltas_at(2) [OF assms(1,2)] by (auto simp: map_of_eq_None_iff)
  finally show "bd_min ` set ds = mins a \<union> mins b" .
  show "\<forall>d \<in> set ds. delta_of (old_bucket a (bd_min d)) (old_bucket b (bd_min d)) (bd_delta d)"
    using entry by (auto simp: ds_def)
qed

lemma map_of_map_entries: "map_of (map (\<lambda>(k, v). (k, f k v)) xs) k = map_option (f k) (map_of xs k)"
  by (induction xs) auto

lemma change_accounts:
  assumes "summary_ok a" "summary_ok b"
  shows "accounts_for a b (change labels a b)"
proof -
  note ok = assms [unfolded summary_ok_def]
  note dist = change_distribution [of "sy_distribution a" "sy_distribution b"]
  show ?thesis
    unfolding accounts_for_def change_def using ok dist
    by (simp add: map_of_map_entries count_delta_at) auto
qed

section \<open>Summaries are well-formed\<close>

lemma bucket_min_inj:
  assumes "bucket_bounds j a" "bucket_bounds k b" "sb_min a = sb_min b"
  shows "j = k"
  using assms by (auto simp: bucket_bounds_def split: if_splits)

lemma distribution_mins:
  assumes "distribution g s c = Inr (sizes, c')"
  shows "distinct (map sb_min sizes)"
proof -
  obtain bs where bs: "buckets_ok g s bs" "sizes = filter (\<lambda>b. ms_objects (sb_measure b) > 0) bs"
    by (rule distribution_Inr [OF assms])
  have len: "length bs = 65" using bs(1) by (simp add: buckets_ok_def)
  have bounds: "bucket_bounds k (bs ! k)" if k: "k < 65" "ms_objects (sb_measure (bs ! k)) > 0" for k
  proof -
    have "measured g (in_bucket g s k) (sb_measure (bs ! k))" using bs(1) k(1) by (simp add: buckets_ok_def)
    then have "in_bucket g s k \<noteq> {}" using k(2) by (auto simp: measured_def)
    then show ?thesis using bs(1) k(1) by (simp add: buckets_ok_def)
  qed
  let ?is = "filter (\<lambda>k. ms_objects (sb_measure (bs ! k)) > 0) [0..<65]"
  have "filter (\<lambda>b. ms_objects (sb_measure b) > 0) (map ((!) bs) [0..<65]) = map ((!) bs) ?is"
    by (simp add: filter_map comp_def)
  moreover have "map ((!) bs) [0..<65] = bs" using map_nth [of bs] len by simp
  ultimately have sizes: "sizes = map ((!) bs) ?is" by (simp add: bs(2))
  have "distinct (map (\<lambda>k. sb_min (bs ! k)) ?is)"
    unfolding distinct_map inj_on_def using bucket_min_inj [OF bounds bounds] by auto
  then show ?thesis by (simp add: sizes comp_def)
qed

lemma distinct_count_up: "distinct (map fst m) \<Longrightarrow> distinct (map fst (count_up k m))"
  by (simp add: count_up_def distinct_update)

lemma count_root_ok: "summary_ok y \<Longrightarrow> summary_ok (count_root r y)"
  by (simp add: summary_ok_def count_root_def Let_def distinct_count_up)

lemma fold_count_root_ok: "summary_ok y \<Longrightarrow> summary_ok (fold count_root rs y)"
  by (induction rs arbitrary: y) (simp_all add: count_root_ok)

lemma count_roots_ok: "count_roots gids gs y c = Inr (y', c') \<Longrightarrow> summary_ok y \<Longrightarrow> summary_ok y'"
proof (induction gs arbitrary: y c)
  case Nil
  then show ?case by (simp add: es_return_def)
next
  case (Cons g gs)
  from Cons.prems(1) obtain c1 where
    "count_roots gids gs (if gor_id g \<in> gids then fold count_root (gor_roots g) y else y) c1 = Inr (y', c')"
    by (auto simp: es_bind_Inr)
  then show ?case by (rule Cons.IH) (simp add: Cons.prems(2) fold_count_root_ok)
qed

lemma summarize_ok:
  assumes "summarize s req c = Inr (y, c')"
  shows "summary_ok y"
proof -
  let ?start = "\<lambda>ins ms sizes. \<lparr>sy_present = (in_gids ins \<noteq> {}), sy_goroutines = int (card (in_gids ins)), sy_roots = 0,
        sy_metrics = zip (map fst (metric_sets ins)) ms, sy_distribution = sizes,
        sy_root_categories = [], sy_root_functions = []\<rparr>"
  from assms obtain ins ms c1 sizes c2 where d: "distribution (session_graph s) (in_selected ins) c1 = Inr (sizes, c2)"
    and run: "count_roots (in_gids ins) (session_goroutines s) (?start ins ms sizes) c2 = Inr (y, c')"
    by (auto simp: summarize_def es_bind_Inr Let_def)
  show ?thesis
    by (rule count_roots_ok [OF run]) (simp add: summary_ok_def distribution_mins [OF d])
qed

section \<open>What a comparison reports\<close>

text \<open>One group: the two summaries of a selector, each answered by its own session, and their change.\<close>

definition group_of :: "offline_snapshot \<Rightarrow> offline_snapshot \<Rightarrow> label_map \<Rightarrow> summary_change \<Rightarrow> bool" where
  "group_of before after labels ch \<longleftrightarrow>
     (\<exists>c1 c2 c3 c4. summarize (of_session before) \<lparr>rq_labels = labels\<rparr> c1 = Inr (ch_before ch, c2) \<and>
        summarize (of_session after) \<lparr>rq_labels = labels\<rparr> c3 = Inr (ch_after ch, c4)) \<and>
     ch_labels ch = labels \<and> accounts_for (ch_before ch) (ch_after ch) ch"

lemma diff_groups_Inr:
  "diff_groups marshal before after selectors c = Inr (out, c') \<Longrightarrow>
    list_all2 (group_of before after) selectors (map fst out)"
proof (induction selectors arbitrary: c out c')
  case Nil
  then show ?case by (simp add: es_return_def)
next
  case (Cons labels rest)
  from Cons.prems obtain a c1 b c2 out' c3 where
    a: "summarize (of_session before) \<lparr>rq_labels = labels\<rparr> c = Inr (a, c1)" and
    b: "summarize (of_session after) \<lparr>rq_labels = labels\<rparr> c1 = Inr (b, c2)" and
    rest: "diff_groups marshal before after rest c2 = Inr (out', c3)" and
    out: "map fst out = change labels a b # map fst out'"
    by (auto simp: es_bind_Inr es_return_def)
  have "group_of before after labels (change labels a b)"
    unfolding group_of_def using a b change_accounts [OF summarize_ok [OF a] summarize_ok [OF b], of labels]
    by (auto simp: change_def)
  with Cons.IH [OF rest] out show ?case by simp
qed

text \<open>The four regions of two selections, before and after.\<close>

definition pair_of :: "offline_snapshot \<Rightarrow> offline_snapshot \<Rightarrow> diff_options \<Rightarrow> pair_change \<Rightarrow> bool" where
  "pair_of before after opts pc \<longleftrightarrow>
     (\<exists>c1 c2 c3 c4.
        compare_selections (of_session before) \<lparr>rq_labels = df_a opts\<rparr> \<lparr>rq_labels = df_b opts\<rparr> c1 = Inr (pc_before pc, c2) \<and>
        compare_selections (of_session after) \<lparr>rq_labels = df_a opts\<rparr> \<lparr>rq_labels = df_b opts\<rparr> c3 = Inr (pc_after pc, c4)) \<and>
     pc_delta pc = pair_deltas (pc_before pc) (pc_after pc)"

lemma diff_pair_Inr:
  assumes "diff_pair before after opts c = Inr (r, c')"
  shows "case r of None \<Rightarrow> df_a opts = [] | Some pc \<Rightarrow> df_a opts \<noteq> [] \<and> pair_of before after opts pc"
proof (cases "df_a opts = []")
  case True
  with assms show ?thesis by (auto simp: diff_pair_def es_return_def)
next
  case False
  with assms obtain a c1 b where
    "compare_selections (of_session before) \<lparr>rq_labels = df_a opts\<rparr> \<lparr>rq_labels = df_b opts\<rparr> c = Inr (a, c1)"
    "compare_selections (of_session after) \<lparr>rq_labels = df_a opts\<rparr> \<lparr>rq_labels = df_b opts\<rparr> c1 = Inr (b, c')"
    "r = Some \<lparr>pc_before = a, pc_after = b, pc_delta = pair_deltas a b\<rparr>"
    by (auto simp: diff_pair_def es_bind_Inr es_return_def)
  with False show ?thesis by (auto simp: pair_of_def intro!: exI)
qed

lemma offline_diff_Inr:
  assumes "offline_diff marshal before after opts c = Inr (r, c')"
  shows "diff_mode opts = None"
    and "list_all2 (group_of before after) (diff_selectors before after opts) (dr_groups r)"
    and "case dr_pair r of None \<Rightarrow> df_a opts = [] | Some pc \<Rightarrow> df_a opts \<noteq> [] \<and> pair_of before after opts pc"
proof -
  show mode: "diff_mode opts = None" using assms by (auto simp: offline_diff_def es_fail_def split: option.splits)
  with assms obtain groups c1 pair c2 where
    g: "diff_groups marshal before after (diff_selectors before after opts) c = Inr (groups, c1)" and
    p: "diff_pair before after opts c1 = Inr (pair, c2)" and r: "dr_groups r = map fst groups" "dr_pair r = pair"
    by (auto simp: offline_diff_def es_bind_Inr return_polled_def es_return_def)
  show "list_all2 (group_of before after) (diff_selectors before after opts) (dr_groups r)"
    using diff_groups_Inr [OF g] by (simp add: r)
  show "case dr_pair r of None \<Rightarrow> df_a opts = [] | Some pc \<Rightarrow> df_a opts \<noteq> [] \<and> pair_of before after opts pc"
    using diff_pair_Inr [OF p] by (simp add: r)
qed

end
