(* ===== verification/OtherReaders.thy ===== *)
theory OtherReaders
  imports AddrSpace
begin

text \<open>
  The process readers of the other systems: Mach-O (\<open>proc_darwin.go\<close>) and PE (\<open>proc_windows.go\<close>)
  executables read through their load slide, procfs or the ELF file on FreeBSD
  (\<open>proc_freebsd.go\<close>), and the stub of \<open>proc_unsupported.go\<close>; with the space probe of
  \<open>internal/diskspace\<close>. What the operating system and the object-file libraries answer are the
  parameters of an opening; the slide, the choice of the ranges and the reads are the code's.
\<close>

section \<open>Executables that are loaded at an offset\<close>

text \<open>
  \<open>machoSegment\<close> and \<open>peSection\<close> hold the same three numbers, and the two readers the same fields.
\<close>

record image_part =
  ip_addr :: u64
  ip_size :: u64
  ip_off :: u64

record image_reader =
  im_file :: "file_at option"
  im_path :: string
  im_parts :: "image_part list"
  im_slide :: i64

fun image_lookup :: "file_at \<Rightarrow> image_part list \<Rightarrow> u64 \<Rightarrow> u64 \<Rightarrow> u64 \<Rightarrow> byte list option" where
  "image_lookup f [] ondisk ondisk_end sz = None"
| "image_lookup f (p # ps) ondisk ondisk_end sz =
     (case AddUint64 (ip_addr p) (ip_size p) of
        (part_end, ok) \<Rightarrow>
          if \<not> ok then image_lookup f ps ondisk ondisk_end sz
          else if ondisk \<ge> ip_addr p \<and> ondisk_end \<le> part_end then
            let file_off = ip_off p + (ondisk - ip_addr p)
            in if file_off > max_int64 then None
               else (case f file_off sz of
                       (buf, None) \<Rightarrow> Some buf
                     | (_, Some _) \<Rightarrow> None)
          else image_lookup f ps ondisk ondisk_end sz)"

definition image_body :: "file_at \<Rightarrow> image_reader \<Rightarrow> u64 \<Rightarrow> u64 \<Rightarrow> u64 \<Rightarrow> byte list option" where
  "image_body f r addr sz end_addr =
     (if addr > max_int64 \<or> end_addr > max_int64 then None
      else image_lookup f (im_parts r) (addr - im_slide r) (end_addr - im_slide r) sz)"

definition image_read :: "image_reader option \<Rightarrow> addr_read" where
  "image_read r addr sz =
     (case r of
        None \<Rightarrow> None
      | Some i \<Rightarrow>
          (case im_file i of
             None \<Rightarrow> None
           | Some f \<Rightarrow> guarded (image_body f i) addr sz))"

definition image_range :: "image_reader \<Rightarrow> image_part \<Rightarrow> addr_mapping option" where
  "image_range r p =
     (if ip_addr p > max_int64 then None
      else
        let start = ip_addr p + im_slide r
        in if start <s 0 then None
           else case AddUint64 start (ip_size p) of
             (end_addr, ok) \<Rightarrow>
               if \<not> ok then None
               else Some \<lparr>m_start = start, m_end = end_addr, m_read = True, m_write = False, m_exec = False,
                      m_path = im_path r\<rparr>)"

definition image_ranges :: "image_reader option \<Rightarrow> addr_mapping list" where
  "image_ranges r = (case r of None \<Rightarrow> [] | Some i \<Rightarrow> List.map_filter (image_range i) (im_parts i))"

definition image_close :: "go_error option \<Rightarrow> image_reader option \<Rightarrow> go_error option \<times> image_reader option" where
  "image_close close_err r =
     (case r of
        None \<Rightarrow> (None, None)
      | Some i \<Rightarrow> if im_file i = None then (None, r) else (close_err, Some (i\<lparr>im_file := None\<rparr>)))"

definition image_source :: "string \<Rightarrow> image_reader option \<Rightarrow> string" where
  "image_source kind r =
     (case r of
        None \<Rightarrow> kind @ '':<unknown>''
      | Some i \<Rightarrow> if im_path i = [] then kind @ '':<unknown>'' else kind @ '':'' @ im_path i)"

subsection \<open>Mach-O\<close>

definition macho_source :: "image_reader option \<Rightarrow> string" where "macho_source = image_source ''mach-o''"

text \<open>
  The loads of a Mach-O file: a segment with its protection, or another load command. The slide
  comes from a probe function, whose address at run time is compared with the one in the symbol
  table; \<open>debug/gosym\<close> builds the table from the bytes of the section and the text address.
\<close>

record macho_segment =
  mh_prot :: u32
  mh_part :: image_part

record macho_file =
  mf_loads :: "macho_segment option list"
  mf_text :: "u64 option"
  mf_pclntab :: "(go_error + byte list) option"

record probe_env =
  pb_table :: "byte list \<Rightarrow> u64 \<Rightarrow> go_error + (string \<Rightarrow> u64 option)"
  pb_pc :: u64
  pb_name :: "string option"

definition machoVMProtRead :: u32 where "machoVMProtRead = 1"
definition machoVMProtWrite :: u32 where "machoVMProtWrite = 2"

definition machSlide :: "probe_env \<Rightarrow> macho_file \<Rightarrow> go_error + i64" where
  "machSlide env f =
     (case mf_text f of
        None \<Rightarrow> Inl (Errorf (Fmt ''binary has no __text section'' []))
      | Some base \<Rightarrow>
          (case mf_pclntab f of
             None \<Rightarrow> Inl (Errorf (Fmt ''binary has no __gopclntab section (binary may be stripped)'' []))
           | Some (Inl e) \<Rightarrow> Inl (Wrapf (Fmt ''read __gopclntab'' []) e)
           | Some (Inr data) \<Rightarrow>
               (case pb_table env data base of
                  Inl e \<Rightarrow> Inl (Wrapf (Fmt ''parse pclntab'' []) e)
                | Inr table \<Rightarrow>
                    (case pb_name env of
                       None \<Rightarrow> Inl (Errorf (Fmt ''runtime.FuncForPC returned nil for probe'' []))
                     | Some name \<Rightarrow>
                         (case table name of
                            None \<Rightarrow> Inl (Errorf (Fmt ''probe %q not found in pclntab'' [FS name]))
                          | Some entry \<Rightarrow>
                              if pb_pc env > max_int64 \<or> entry > max_int64 then
                                Inl (Errorf (Fmt ''probe address 0x%x or pclntab entry 0x%x exceeds int64 range''
                                  [FU (pb_pc env), FU entry]))
                              else Inr (pb_pc env - entry))))))"

definition parseMachOSegments :: "probe_env \<Rightarrow> macho_file \<Rightarrow> go_error + image_part list \<times> i64" where
  "parseMachOSegments env f =
     (case machSlide env f of
        Inl e \<Rightarrow> Inl e
      | Inr slide \<Rightarrow>
          Inr (map mh_part
                 (filter (\<lambda>s. mh_prot s AND machoVMProtRead \<noteq> 0 \<and> mh_prot s AND machoVMProtWrite = 0 \<and>
                     ip_size (mh_part s) \<noteq> 0) (List.map_filter id (mf_loads f))), slide))"

text \<open>The answers of the system for the path of the executable, its parse and its opening.\<close>

record 'f image_env =
  ie_executable :: "go_error + string"
  ie_resolve :: "string \<Rightarrow> go_error + string"
  ie_parse :: "string \<Rightarrow> go_error + 'f"
  ie_open :: "string \<Rightarrow> go_error + file_at"

definition open_darwin :: "macho_file image_env \<Rightarrow> probe_env \<Rightarrow> go_error + image_reader" where
  "open_darwin env probe =
     (case ie_executable env of
        Inl e \<Rightarrow> Inl (Wrapf (Fmt ''addrspace: executable path'' []) e)
      | Inr exe0 \<Rightarrow>
          (case ie_resolve env exe0 of
             Inl e \<Rightarrow> Inl (Wrapf (Fmt ''addrspace: resolve symlinks for %q'' [FS []]) e)
           | Inr exe \<Rightarrow>
               (case ie_parse env exe of
                  Inl e \<Rightarrow> Inl (Wrapf (Fmt ''addrspace: parse Mach-O %q'' [FS exe]) e)
                | Inr mf \<Rightarrow>
                    (case parseMachOSegments probe mf of
                       Inl e \<Rightarrow> Inl (Wrapf (Fmt ''addrspace'' []) e)
                     | Inr (parts, slide) \<Rightarrow>
                         (case ie_open env exe of
                            Inl e \<Rightarrow> Inl (Wrapf (Fmt ''addrspace: open %q for reading'' [FS exe]) e)
                          | Inr f \<Rightarrow> Inr \<lparr>im_file = Some f, im_path = exe, im_parts = parts, im_slide = slide\<rparr>)))))"

subsection \<open>PE\<close>

datatype optional_header = OptionalHeader32 u32 | OptionalHeader64 u64 | UnknownHeader

record pe_section =
  pe_characteristics :: u32
  pe_virtual_address :: u32
  pe_raw_size :: u32
  pe_offset :: u32

record pe_file =
  pf_header :: optional_header
  pf_sections :: "pe_section list"

definition peImageSCNMemRead :: u32 where "peImageSCNMemRead = 0x40000000"
definition peImageSCNMemWrite :: u32 where "peImageSCNMemWrite = 0x80000000"

definition peImageBase :: "pe_file \<Rightarrow> go_error + u64" where
  "peImageBase f =
     (case pf_header f of
        OptionalHeader32 b \<Rightarrow> Inr (ucast b)
      | OptionalHeader64 b \<Rightarrow> Inr b
      | UnknownHeader \<Rightarrow> Inl (Errorf (Fmt ''unknown PE optional header type'' [])))"

definition parsePE :: "pe_file \<Rightarrow> go_error + u64 \<times> image_part list" where
  "parsePE f =
     (case peImageBase f of
        Inl e \<Rightarrow> Inl e
      | Inr base \<Rightarrow>
          Inr (base,
            map (\<lambda>s. \<lparr>ip_addr = base + ucast (pe_virtual_address s), ip_size = ucast (pe_raw_size s),
                   ip_off = ucast (pe_offset s)\<rparr>)
              (filter (\<lambda>s. pe_characteristics s AND peImageSCNMemRead \<noteq> 0 \<and>
                  pe_characteristics s AND peImageSCNMemWrite = 0 \<and> pe_raw_size s \<noteq> 0) (pf_sections f))))"

text \<open>The reader itself is that of Mach-O, word for word.\<close>

type_synonym pe_part = image_part
type_synonym pe_reader = image_reader

definition pe_read :: "pe_reader option \<Rightarrow> addr_read" where "pe_read = image_read"
definition pe_ranges :: "pe_reader option \<Rightarrow> addr_mapping list" where "pe_ranges = image_ranges"

definition pe_close :: "go_error option \<Rightarrow> pe_reader option \<Rightarrow> go_error option \<times> pe_reader option" where
  "pe_close = image_close"

definition pe_source :: "pe_reader option \<Rightarrow> string" where "pe_source = image_source ''pe''"

text \<open>\<open>os.Executable\<close>, \<open>os.Args\<close>, \<open>filepath.IsAbs\<close>, \<open>os.Getwd\<close>, \<open>filepath.Join\<close> and \<open>EvalSymlinks\<close>.\<close>

record path_env =
  pe_executable :: "go_error + string"
  pe_args :: "string list"
  pe_is_abs :: "string \<Rightarrow> bool"
  pe_getwd :: "go_error + string"
  pe_join :: "string \<Rightarrow> string \<Rightarrow> string"
  pe_resolve :: "string \<Rightarrow> go_error + string"

definition resolveExePath :: "path_env \<Rightarrow> go_error + string" where
  "resolveExePath env =
     (let exe =
        (case pe_executable env of
           Inr p \<Rightarrow>
             if p = [] then (case pe_args env of a # _ \<Rightarrow> a | [] \<Rightarrow> []) else p
         | Inl _ \<Rightarrow> (case pe_args env of a # _ \<Rightarrow> a | [] \<Rightarrow> []))
      in if exe = [] then Inl (Errorf (Fmt ''addrspace: cannot determine executable path'' []))
         else
           let exe = (if pe_is_abs env exe then exe
                      else (case pe_getwd env of Inl _ \<Rightarrow> exe | Inr wd \<Rightarrow> pe_join env wd exe))
           in Inr (case pe_resolve env exe of Inl _ \<Rightarrow> exe | Inr p \<Rightarrow> p))"

text \<open>\<open>base\<close> is the answer of \<open>GetModuleHandleW\<close> and its error.\<close>

definition open_windows ::
  "path_env \<Rightarrow> (string \<Rightarrow> go_error + pe_file) \<Rightarrow> u64 \<times> go_error \<Rightarrow> (string \<Rightarrow> go_error + file_at) \<Rightarrow> go_error + image_reader"
where
  "open_windows env pe_open base os_open =
     (case resolveExePath env of
        Inl e \<Rightarrow> Inl e
      | Inr exe \<Rightarrow>
          (case pe_open exe of
             Inl e \<Rightarrow> Inl (Wrapf (Fmt ''addrspace: parse PE %q'' [FS exe]) e)
           | Inr pf \<Rightarrow>
               (case parsePE pf of
                  Inl e \<Rightarrow> Inl (Wrapf (Fmt ''addrspace'' []) e)
                | Inr (image_base, parts) \<Rightarrow>
                    if fst base = 0 then Inl (Wrapf (Fmt ''addrspace: GetModuleHandleW'' []) (snd base))
                    else if fst base > max_int64 \<or> image_base > max_int64 then
                      Inl (Errorf (Fmt ''addrspace: module base 0x%x or image base 0x%x exceeds int64 range''
                        [FU (fst base), FU image_base]))
                    else
                      (case os_open exe of
                         Inl e \<Rightarrow> Inl (Wrapf (Fmt ''addrspace: open %q for reading'' [FS exe]) e)
                       | Inr f \<Rightarrow> Inr \<lparr>im_file = Some f, im_path = exe, im_parts = parts,
                           im_slide = fst base - image_base\<rparr>))))"

section \<open>FreeBSD\<close>

record freebsd_reader =
  fb_maps :: "addr_mapping list"
  fb_mem :: "file_at option"
  fb_elf :: "elf_reader option"
  fb_path :: string

text \<open>\<open>strings.Fields\<close>; \<open>acc\<close> is the field being read.\<close>

function go_fields :: "string \<Rightarrow> string \<Rightarrow> string list" where
  "go_fields acc s =
     (case strip_one utf8_spaces s of
        Some t \<Rightarrow> (if acc = [] then go_fields [] t else acc # go_fields [] t)
      | None \<Rightarrow>
          (case s of
             [] \<Rightarrow> (if acc = [] then [] else [acc])
           | c # cs \<Rightarrow> go_fields (acc @ [c]) cs))"
  by pat_completeness auto
termination
  by (relation "measure (\<lambda>(acc, s). length s)") (auto dest: strip_one_shorter simp: utf8_spaces_def)

declare go_fields.simps [simp del]

definition trim_prefix :: "string \<Rightarrow> string \<Rightarrow> string" where
  "trim_prefix pre s = (if take (length pre) s = pre then drop (length pre) s else s)"

definition parse_map_line :: "string \<Rightarrow> addr_mapping option" where
  "parse_map_line line =
     (if line = [] then None
      else
        let flds = go_fields [] line
        in if length flds < 6 then None
           else
             (case parse_uint 16 (trim_prefix ''0x'' (flds ! 0)) of
                None \<Rightarrow> None
              | Some start \<Rightarrow>
                  (case parse_uint 16 (trim_prefix ''0x'' (flds ! 1)) of
                     None \<Rightarrow> None
                   | Some end_addr \<Rightarrow>
                       let perms = flds ! 5
                       in if end_addr \<le> start then None
                          else if length perms < 2 then None
                          else Some \<lparr>m_start = start, m_end = end_addr, m_read = (perms ! 0 = CHR ''r''),
                                 m_write = (perms ! 1 = CHR ''w''),
                                 m_exec = (3 \<le> length perms \<and> perms ! 2 = CHR ''x''),
                                 m_path = (if 13 \<le> length flds \<and> flds ! 11 = ''vnode'' then flds ! 12 else [])\<rparr>)))"

definition parseFreeBSDProcMap :: "string \<Rightarrow> go_error option \<Rightarrow> go_error + addr_mapping list" where
  "parseFreeBSDProcMap contents read_err =
     (case maps_lines [] contents of
        Inl e \<Rightarrow> Inl e
      | Inr ls \<Rightarrow>
          (case read_err of
             Some e \<Rightarrow> Inl e
           | None \<Rightarrow> Inr (List.map_filter parse_map_line ls)))"

text \<open>
  \<open>proc_map\<close> and \<open>proc_mem\<close> are the files of procfs, \<open>open_elf\<close> is \<open>OpenELFReader\<close> on the path.
\<close>

record freebsd_env =
  fe_proc_map :: "go_error + string \<times> go_error option"
  fe_proc_mem :: "go_error + file_at"
  fe_executable :: "go_error + string"
  fe_resolve :: "string \<Rightarrow> go_error + string"
  fe_open_elf :: "string \<Rightarrow> go_error + elf_reader"

definition readSelfMap :: "freebsd_env \<Rightarrow> go_error + addr_mapping list" where
  "readSelfMap env =
     (case fe_proc_map env of
        Inl e \<Rightarrow> Inl e
      | Inr (contents, read_err) \<Rightarrow> parseFreeBSDProcMap contents read_err)"

definition open_freebsd_elf :: "freebsd_env \<Rightarrow> go_error + freebsd_reader" where
  "open_freebsd_elf env =
     (case fe_executable env of
        Inl e \<Rightarrow> Inl (Wrapf (Fmt ''addrspace: determine executable path'' []) e)
      | Inr exe \<Rightarrow>
          let exe = (case fe_resolve env exe of Inl _ \<Rightarrow> exe | Inr p \<Rightarrow> p)
          in (case fe_open_elf env exe of
                Inl e \<Rightarrow> Inl (Wrapf (Fmt ''addrspace'' []) e)
              | Inr er \<Rightarrow> Inr \<lparr>fb_maps = [], fb_mem = None, fb_elf = Some er, fb_path = exe\<rparr>))"

definition open_freebsd :: "freebsd_env \<Rightarrow> go_error + freebsd_reader" where
  "open_freebsd env =
     (case (readSelfMap env, fe_proc_mem env) of
        (Inr maps, Inr mem) \<Rightarrow> Inr \<lparr>fb_maps = maps, fb_mem = Some mem, fb_elf = None, fb_path = ''/proc/self/mem''\<rparr>
      | _ \<Rightarrow> open_freebsd_elf env)"

text \<open>Closing sets the source that was closed to nil; a second call closes the other one, if any.\<close>

definition freebsd_close ::
  "go_error option \<Rightarrow> go_error option \<Rightarrow> freebsd_reader option \<Rightarrow> go_error option \<times> freebsd_reader option"
where
  "freebsd_close mem_err elf_err r =
     (case r of
        None \<Rightarrow> (None, None)
      | Some b \<Rightarrow>
          if fb_mem b \<noteq> None then (mem_err, Some (b\<lparr>fb_mem := None\<rparr>))
          else if fb_elf b \<noteq> None then (elf_err, Some (b\<lparr>fb_elf := None\<rparr>))
          else (None, r))"

definition freebsd_source :: "freebsd_reader option \<Rightarrow> string" where
  "freebsd_source r =
     (case r of
        None \<Rightarrow> ''<closed>''
      | Some b \<Rightarrow>
          if fb_mem b \<noteq> None then ''/proc/self/mem''
          else if fb_elf b \<noteq> None then (if fb_path b = [] then ''elf:<unknown>'' else ''elf:'' @ fb_path b)
          else ''<closed>'')"

definition elf_range :: "string \<Rightarrow> elf_segment \<Rightarrow> addr_mapping option" where
  "elf_range path s =
     (case AddUint64 (es_vaddr s) (es_filesz s) of
        (end_addr, ok) \<Rightarrow>
          if \<not> ok then None
          else Some \<lparr>m_start = es_vaddr s, m_end = end_addr, m_read = True, m_write = False, m_exec = False,
                 m_path = path\<rparr>)"

definition freebsd_ranges :: "freebsd_reader option \<Rightarrow> addr_mapping list" where
  "freebsd_ranges r =
     (case r of
        None \<Rightarrow> []
      | Some b \<Rightarrow>
          if fb_mem b \<noteq> None then filter mappingEligibleForStringBody (fb_maps b)
          else
            (case fb_elf b of
               None \<Rightarrow> []
             | Some e \<Rightarrow> List.map_filter (elf_range (fb_path b)) (er_segments e)))"

definition freebsd_body :: "freebsd_reader \<Rightarrow> u64 \<Rightarrow> u64 \<Rightarrow> u64 \<Rightarrow> byte list option" where
  "freebsd_body b addr sz end_addr =
     (case fb_elf b of
        Some e \<Rightarrow> elf_read_at_addr (Some e) addr sz
      | None \<Rightarrow>
          (case fb_mem b of
             None \<Rightarrow> None
           | Some mem \<Rightarrow> process_lookup mem (fb_maps b) addr sz end_addr))"

definition freebsd_read :: "freebsd_reader option \<Rightarrow> addr_read" where
  "freebsd_read r addr sz = (case r of None \<Rightarrow> None | Some b \<Rightarrow> guarded (freebsd_body b) addr sz)"

section \<open>No implementation\<close>

definition open_unsupported :: "go_error + unit" where
  "open_unsupported = Inl ErrAddrUnsupported"

definition unsupported_read :: addr_read where
  "unsupported_read addr sz = (if sz = 0 then Some [] else None)"

section \<open>Free disk space\<close>

text \<open>
  \<open>Available\<close> on Unix: \<open>statfs\<close> answers with the block size and the available blocks, which
  FreeBSD can report as negative.
\<close>

definition Available :: "(string \<Rightarrow> go_error + int \<times> int) \<Rightarrow> string \<Rightarrow> go_error + u64" where
  "Available statfs path =
     (case statfs path of
        Inl e \<Rightarrow> Inl e
      | Inr (bsize, bavail) \<Rightarrow>
          if bsize \<le> 0 then Inl (Errorf (Fmt ''invalid filesystem block size'' []))
          else if bavail \<le> 0 then Inr 0
          else
            let blocks = word_of_int bavail; sz = word_of_int bsize
            in if blocks > - 1 div sz then Inr (- 1) else Inr (blocks * sz))"

definition Available_windows :: "(string \<Rightarrow> go_error + string) \<Rightarrow> (string \<Rightarrow> go_error + 'p) \<Rightarrow> ('p \<Rightarrow> u64 \<times> go_error option) \<Rightarrow>
  string \<Rightarrow> go_error + u64" where
  "Available_windows absolute utf16 disk_free path =
     (case absolute path of
        Inl e \<Rightarrow> Inl e
      | Inr p \<Rightarrow>
          (case utf16 p of
             Inl e \<Rightarrow> Inl e
           | Inr q \<Rightarrow> (case disk_free q of (free, None) \<Rightarrow> Inr free | (_, Some e) \<Rightarrow> Inl e)))"

section \<open>The contract of a reader\<close>

lemma image_lookup_Some:
  "image_lookup f ps a e n = Some bs \<Longrightarrow>
    \<exists>p \<in> set ps. unat (ip_addr p) + unat (ip_size p) < 2 ^ 64 \<and> ip_addr p \<le> a \<and> e \<le> ip_addr p + ip_size p \<and>
      ip_off p + (a - ip_addr p) \<le> max_int64 \<and> f (ip_off p + (a - ip_addr p)) n = (bs, None)"
proof (induction ps)
  case (Cons p ps)
  then show ?case
    by (auto simp: AddUint64_value AddUint64_None Let_def not_less split: prod.splits if_splits option.splits)
qed simp

lemma image_body_length:
  "file_contract f \<Longrightarrow> image_body f i a n e = Some bs \<Longrightarrow> length bs = unat n"
  by (auto simp: image_body_def split: if_splits dest!: image_lookup_Some dest: file_contract_full)

lemma image_addr_reader:
  "im_file i = Some f \<Longrightarrow> file_contract f \<Longrightarrow> addr_reader (image_read (Some i))"
  using guarded_addr_reader [of "image_body f i"] image_body_length [of f i]
  by (simp add: image_read_def [abs_def])

interpretation image_file: addr_reader
  "image_read (Some \<lparr>im_file = Some (bytes_read_at bs), im_path = path, im_parts = ps, im_slide = s\<rparr>)"
  for bs path ps s
  by (rule image_addr_reader [where f = "bytes_read_at bs"]) simp_all

interpretation unsupported: addr_reader unsupported_read
  by unfold_locales (auto simp: unsupported_read_def split: if_splits)

lemma freebsd_addr_reader:
  assumes "fb_elf b = None \<Longrightarrow> fb_mem b = Some mem" "file_contract mem"
    "\<And>e. fb_elf b = Some e \<Longrightarrow> \<exists>f. er_file e = Some f \<and> file_contract f"
  shows "addr_reader (freebsd_read (Some b))"
proof -
  have "length bs = unat n" if "0 < n" "freebsd_body b a n (a + n) = Some bs" for a n bs
  proof (cases "fb_elf b")
    case None
    with assms(1,2) that show ?thesis
      by (auto simp: freebsd_body_def dest!: process_lookup_Some dest: file_contract_full)
  next
    case (Some e)
    with assms(3) obtain f where "er_file e = Some f" "file_contract f" by blast
    then have "addr_reader (elf_read_at_addr (Some e))" by (rule elf_addr_reader)
    with Some that show ?thesis by (auto simp: freebsd_body_def dest: addr_reader.read_length)
  qed
  then have "addr_reader (guarded (freebsd_body b))" by (rule guarded_addr_reader)
  then show ?thesis by (simp add: freebsd_read_def [abs_def])
qed

section \<open>A range is served exactly when it lies in a range that is listed\<close>

text \<open>An image that was loaded in the lower half of the address space, as systems do.\<close>

definition part_loaded :: "i64 \<Rightarrow> image_part \<Rightarrow> bool" where
  "part_loaded slide p \<longleftrightarrow>
     uint (ip_addr p) + uint (ip_size p) < 2 ^ 63 \<and> 0 \<le> uint (ip_addr p) + sint slide \<and>
     uint (ip_addr p) + sint slide + uint (ip_size p) < 2 ^ 63 \<and> ip_off p \<le> ip_addr p"

lemma uint_add_small: "uint a + uint b < 2 ^ 64 \<Longrightarrow> uint (a + b :: u64) = uint a + uint b"
  by (simp add: uint_word_ariths take_bit_int_eq_self)

lemma sint_uint_cases: "sint (x :: i64) = (if uint x < 2 ^ 63 then uint x else uint x - 2 ^ 64)"
proof -
  have "uint x < int (2 ^ 63) \<longleftrightarrow> unat x < 2 ^ 63" by (simp only: uint_nat of_nat_less_iff)
  then show ?thesis using sint_cases [of x] by simp
qed

lemma word_powers: "(2 :: int) ^ 64 = 18446744073709551616" "(2 :: int) ^ 63 = 9223372036854775808"
  by simp_all

lemma uint_word_range: "0 \<le> uint (x :: u64)" "uint x < 2 ^ 64"
  using unsigned_less [of x, where ?'a = int] by simp_all

lemma uint_sum: "uint (a :: u64) + uint (b :: u64) = int (unat a + unat b)"
  by (simp only: uint_nat of_nat_add)

lemma unat_sum_le: "unat (a :: u64) + unat (b :: u64) \<le> unat (c :: u64) \<longleftrightarrow> uint a + uint b \<le> uint c"
proof -
  have "uint a + uint b \<le> int (unat c) \<longleftrightarrow> unat a + unat b \<le> unat c" by (simp only: uint_sum of_nat_le_iff)
  then show ?thesis by simp
qed

lemma unat_sum_less: "uint (a :: u64) + uint (b :: u64) < 2 ^ 64 \<longleftrightarrow> unat a + unat b < 2 ^ 64"
proof -
  have "uint a + uint b < int (2 ^ 64) \<longleftrightarrow> unat a + unat b < 2 ^ 64" by (simp only: uint_sum of_nat_less_iff)
  then show ?thesis by simp
qed

lemma uint_shift:
  assumes "0 \<le> uint a + sint s" "uint a + sint s < 2 ^ 64"
  shows "uint (a + s :: u64) = uint a + sint s"
proof -
  have "a + s = word_of_int (uint a + sint s)" by simp
  then have "uint (a + s) = take_bit 64 (uint a + sint s)"
    using uint_word_of_int_eq [where ?'a = 64, of "uint a + sint s"] by (simp del: of_int_add)
  with assms show ?thesis by (simp add: take_bit_int_eq_self)
qed

lemma uint_unshift:
  assumes "uint a < 2 ^ 63"
  shows "uint (a - s :: u64) = (if sint s \<le> uint a then uint a - sint s else uint a - sint s + 2 ^ 64)"
proof -
  have range: "- (2 ^ 63) \<le> sint s \<and> sint s < 2 ^ 63"
    using sint_greater_eq [of s] sint_less [of s] by simp
  have "a - s = word_of_int (uint a - sint s)" by simp
  then have u: "uint (a - s) = take_bit 64 (uint a - sint s)"
    using uint_word_of_int_eq [where ?'a = 64, of "uint a - sint s"] by (simp del: of_int_diff)
  show ?thesis
  proof (cases "sint s \<le> uint a")
    case True
    with u assms range show ?thesis by (simp add: take_bit_int_eq_self)
  next
    case False
    have "take_bit 64 (uint a - sint s) = take_bit 64 (uint a - sint s + 2 ^ 64)" by (simp add: take_bit_eq_mod)
    moreover have "0 \<le> uint a - sint s + 2 ^ 64" "uint a - sint s + 2 ^ 64 < 2 ^ 64"
      using False range [simplified] uint_word_range(1) [of a] unfolding word_powers by linarith+
    ultimately show ?thesis using u False by (simp only: take_bit_int_eq_self if_False)
  qed
qed

lemma uint_word_le: "(a :: u64) \<le> b \<longleftrightarrow> uint a \<le> uint b"
  by (simp add: word_le_def)

lemma max_int64_iff: "(a :: u64) \<le> max_int64 \<longleftrightarrow> uint a < 2 ^ 63"
  by (simp add: word_le_def) linarith

text \<open>The range of a part, at the addresses where it was loaded.\<close>

lemma loaded_range:
  assumes "part_loaded (im_slide i) p"
  obtains m where "image_range i p = Some m" "uint (m_start m) = uint (ip_addr p) + sint (im_slide i)"
    "uint (m_end m) = uint (ip_addr p) + sint (im_slide i) + uint (ip_size p)"
proof -
  let ?start = "ip_addr p + im_slide i"
  note loaded = assms [unfolded part_loaded_def]
  have start: "uint ?start = uint (ip_addr p) + sint (im_slide i)"
    using loaded uint_word_range [of "ip_size p"] unfolding word_powers by (intro uint_shift, unfold word_powers) linarith+
  have low: "ip_addr p \<le> max_int64" using loaded uint_word_range [of "ip_size p"] unfolding max_int64_iff word_powers by linarith
  have small: "uint ?start < 2 ^ 63"
    using start loaded uint_word_range [of "ip_size p"] unfolding word_powers by linarith
  then have "sint ?start = uint ?start" using sint_uint_cases [of ?start] by (simp only: if_P)
  then have pos: "\<not> ?start <s 0" using uint_word_range(1) [of ?start] by (simp only: word_sless_alt) simp
  have fit: "uint ?start + uint (ip_size p) < 2 ^ 64" using start loaded unfolding word_powers by linarith
  then have "AddUint64 ?start (ip_size p) = (?start + ip_size p, True)"
    by (simp only: AddUint64_value unat_sum_less)
  then have range: "image_range i p = Some \<lparr>m_start = ?start, m_end = ?start + ip_size p, m_read = True, m_write = False,
      m_exec = False, m_path = im_path i\<rparr>"
    using low pos by (simp add: image_range_def not_less Let_def)
  show thesis by (rule that [OF range]) (simp_all only: addr_mapping.select_convs start uint_add_small [OF fit])
qed

lemma uint_diff_le: "b \<le> a \<Longrightarrow> uint (a - b :: u64) = uint a - uint b"
  by (simp add: uint_word_le uint_minus_simple_alt [symmetric] uint_minus_simple_iff)

text \<open>Where a range starts in the file: the range of the part must contain it.\<close>

lemma part_served:
  assumes loaded: "part_loaded s p" and a: "uint a + uint n < 2 ^ 63"
    and start: "ip_addr p \<le> a - s" and fin: "a + n - s \<le> ip_addr p + ip_size p"
    and off: "ip_off p + (a - s - ip_addr p) \<le> max_int64"
  shows "uint (ip_addr p) + sint s \<le> uint a" "uint a + uint n \<le> uint (ip_addr p) + sint s + uint (ip_size p)"
proof -
  note l = loaded [unfolded part_loaded_def word_powers]
  note ranges = uint_word_range [of n] uint_word_range [of a] uint_word_range [of "ip_size p"]
    uint_word_range [of "ip_addr p"] uint_word_range [of "ip_off p"]
  have off_le: "uint (ip_off p) \<le> uint (ip_addr p)" using l by (simp add: uint_word_le)
  have ondisk: "uint (a - s) = (if sint s \<le> uint a then uint a - sint s else uint a - sint s + 2 ^ 64)"
    using a ranges by (intro uint_unshift) linarith
  have inside: "uint (a - s - ip_addr p) = uint (a - s) - uint (ip_addr p)" by (rule uint_diff_le [OF start])
  have "uint (ip_off p + (a - s - ip_addr p)) = uint (ip_off p) + (uint (a - s) - uint (ip_addr p))"
    using inside off_le uint_word_range [of "a - s"] by (subst uint_add_small) linarith+
  then have small: "uint (ip_off p) + (uint (a - s) - uint (ip_addr p)) < 2 ^ 63"
    using off by (simp only: max_int64_iff)
  have s: "sint s \<le> uint a"
  proof (rule ccontr)
    assume "\<not> sint s \<le> uint a"
    with ondisk small l ranges show False unfolding word_powers by auto
  qed
  with start ondisk show "uint (ip_addr p) + sint s \<le> uint a" by (simp add: uint_word_le)
  have "uint (a + n) = uint a + uint n" using a by (intro uint_add_small) simp
  moreover from this have "uint (a + n - s) = uint a + uint n - sint s"
    using uint_unshift [of "a + n" s] a s ranges by simp
  moreover have "uint (ip_addr p + ip_size p) = uint (ip_addr p) + uint (ip_size p)"
    using l by (intro uint_add_small) simp
  ultimately show "uint a + uint n \<le> uint (ip_addr p) + sint s + uint (ip_size p)"
    using fin by (simp add: uint_word_le)
qed

lemma part_serves:
  assumes loaded: "part_loaded s p"
    and start: "uint (ip_addr p) + sint s \<le> uint a"
    and fin: "uint a + uint n \<le> uint (ip_addr p) + sint s + uint (ip_size p)"
  shows "ip_addr p \<le> a - s" "a + n - s \<le> ip_addr p + ip_size p"
    "uint (a - s - ip_addr p) = uint a - (uint (ip_addr p) + sint s)" "uint a + uint n < 2 ^ 63"
proof -
  note l = loaded [unfolded part_loaded_def word_powers]
  note ranges = uint_word_range [of n] uint_word_range [of a] uint_word_range [of "ip_addr p"]
  show a: "uint a + uint n < 2 ^ 63" using l fin unfolding word_powers by linarith
  have ondisk: "uint (a - s) = uint a - sint s"
    using a start ranges by (subst uint_unshift) (linarith, simp only: if_P)
  then show le: "ip_addr p \<le> a - s" using start by (simp add: uint_word_le)
  show "uint (a - s - ip_addr p) = uint a - (uint (ip_addr p) + sint s)"
    using uint_diff_le [OF le] ondisk by simp
  have "uint (a + n) = uint a + uint n" using a by (intro uint_add_small) simp
  moreover from this have "uint (a + n - s) = uint a + uint n - sint s"
    using uint_unshift [of "a + n" s] a start ranges by simp
  moreover have "uint (ip_addr p + ip_size p) = uint (ip_addr p) + uint (ip_size p)"
    using l by (intro uint_add_small) simp
  ultimately show "a + n - s \<le> ip_addr p + ip_size p" using fin by (simp add: uint_word_le)
qed

lemma bytes_read_inside:
  assumes "uint off + uint n \<le> int (length f)" "length f < 2 ^ 63" "0 < n"
  shows "bytes_read_at f off n = (take (unat n) (drop (unat off) f), None)"
proof -
  have n: "0 < unat n" using assms(3) by (simp add: unat_gt_0)
  have le: "unat off + unat n \<le> length f" using assms(1) by (simp only: uint_sum of_nat_le_iff)
  then have "sint off = int (unat off)" using n assms(2) sint_cases [of off] by simp
  moreover have "\<not> int (length f) \<le> int (unat off)" using le n by linarith
  ultimately show ?thesis using le by (simp add: bytes_read_at_def)
qed

text \<open>
  The main fact: an image that is loaded serves exactly the ranges that it lists, with the bytes
  of the file behind them.
\<close>

definition in_range :: "u64 \<Rightarrow> u64 \<Rightarrow> addr_mapping \<Rightarrow> bool" where
  "in_range a n m \<longleftrightarrow> m_start m \<le> a \<and> unat a + unat n \<le> unat (m_end m)"

definition image_backed :: "image_reader \<Rightarrow> byte list \<Rightarrow> bool" where
  "image_backed i bytes \<longleftrightarrow>
     im_file i = Some (bytes_read_at bytes) \<and> length bytes < 2 ^ 63 \<and>
     (\<forall>p \<in> set (im_parts i). part_loaded (im_slide i) p \<and> uint (ip_off p) + uint (ip_size p) \<le> int (length bytes))"

lemma in_range_uint: "in_range a n m \<longleftrightarrow> uint (m_start m) \<le> uint a \<and> uint a + uint n \<le> uint (m_end m)"
  by (simp add: in_range_def uint_word_le unat_sum_le)

lemma image_read_body:
  assumes "image_backed i bytes" "0 < n" "a \<noteq> 0"
  shows "image_read (Some i) a n = Some bs \<longleftrightarrow>
    uint a + uint n < 2 ^ 63 \<and>
    image_lookup (bytes_read_at bytes) (im_parts i) (a - im_slide i) (a + n - im_slide i) n = Some bs"
proof -
  have f: "im_file i = Some (bytes_read_at bytes)" using assms(1) by (simp add: image_backed_def)
  show ?thesis
  proof (cases "uint a + uint n < 2 ^ 64")
    case True
    have "a \<le> max_int64 \<and> a + n \<le> max_int64 \<longleftrightarrow> uint a + uint n < 2 ^ 63"
      using uint_add_small [OF True] uint_word_range(1) [of n] unfolding max_int64_iff word_powers by linarith
    with True f assms(2,3) show ?thesis
      unfolding unat_sum_less by (auto simp: image_read_def guarded_Some image_body_def not_less not_le)
  next
    case False
    then have "\<not> unat a + unat n < 2 ^ 64" unfolding unat_sum_less .
    moreover have "\<not> uint a + uint n < 2 ^ 63" using False unfolding word_powers by linarith
    ultimately show ?thesis using f assms(2) by (simp add: image_read_def guarded_Some)
  qed
qed

lemma image_read_inside:
  assumes backed: "image_backed i bytes" and n: "0 < n" "a \<noteq> 0" and read: "image_read (Some i) a n = Some bs"
  obtains p m where "p \<in> set (im_parts i)" "image_range i p = Some m" "in_range a n m"
    "bs = take (unat n) (drop (unat (ip_off p) + (unat a - unat (m_start m))) bytes)"
proof -
  have small: "uint a + uint n < 2 ^ 63"
    and "image_lookup (bytes_read_at bytes) (im_parts i) (a - im_slide i) (a + n - im_slide i) n = Some bs"
    using read unfolding image_read_body [OF backed n] by simp_all
  then obtain p where p: "p \<in> set (im_parts i)" "ip_addr p \<le> a - im_slide i"
    "a + n - im_slide i \<le> ip_addr p + ip_size p" "ip_off p + (a - im_slide i - ip_addr p) \<le> max_int64"
    "bytes_read_at bytes (ip_off p + (a - im_slide i - ip_addr p)) n = (bs, None)"
    by (blast dest: image_lookup_Some)
  have loaded: "part_loaded (im_slide i) p" and inside: "uint (ip_off p) + uint (ip_size p) \<le> int (length bytes)"
    and len: "length bytes < 2 ^ 63" using backed p(1) by (auto simp: image_backed_def)
  obtain m where m: "image_range i p = Some m" "uint (m_start m) = uint (ip_addr p) + sint (im_slide i)"
    "uint (m_end m) = uint (ip_addr p) + sint (im_slide i) + uint (ip_size p)" by (rule loaded_range [OF loaded])
  note served = part_served [OF loaded small p(2,3,4)]
  have range: "in_range a n m" unfolding in_range_uint m(2,3) using served by simp
  let ?k = "a - im_slide i - ip_addr p"
  have k: "uint ?k = uint a - uint (m_start m)" unfolding m(2) by (rule part_serves [OF loaded served])
  have le: "uint (m_start m) \<le> uint a" "uint a + uint n \<le> uint (m_end m)" using range by (simp_all add: in_range_uint)
  then have fit: "uint (ip_off p) + (uint a - uint (m_start m)) + uint n \<le> int (length bytes)"
    using inside m(2,3) by linarith
  have off: "uint (ip_off p + ?k) = uint (ip_off p) + (uint a - uint (m_start m))"
  proof -
    have "int (length bytes) < 2 ^ 63" using len by simp
    with fit uint_word_range(1) [of n] have "uint (ip_off p) + uint ?k < 2 ^ 64"
      unfolding k word_powers by linarith
    then show ?thesis by (simp only: uint_add_small k)
  qed
  have at: "unat (ip_off p + ?k) = unat (ip_off p) + (unat a - unat (m_start m))"
    unfolding unat_eq_nat_uint off using le(1) by (simp only: nat_add_distrib nat_diff_distrib uint_word_range)
  have "bytes_read_at bytes (ip_off p + ?k) n = (take (unat n) (drop (unat (ip_off p + ?k)) bytes), None)"
    using fit len n(1) unfolding off [symmetric] by (rule bytes_read_inside)
  with p(5) have "bs = take (unat n) (drop (unat (ip_off p) + (unat a - unat (m_start m))) bytes)" unfolding at by simp
  then show thesis by (rule that [OF p(1) m(1) range])
qed

lemma uint_ondisk:
  assumes "uint a + uint n < 2 ^ 63" "sint s \<le> uint a"
  shows "uint (a - s :: u64) = uint a - sint s" "uint (a + n - s :: u64) = uint a + uint n - sint s"
proof -
  note ranges = uint_word_range(1) [of n] uint_word_range(1) [of a]
  have sum: "uint (a + n) = uint a + uint n" using assms(1) by (intro uint_add_small) simp
  have "uint a < 2 ^ 63" using assms(1) ranges by linarith
  then show "uint (a - s) = uint a - sint s" using assms(2) by (simp only: uint_unshift if_P)
  have "sint s \<le> uint (a + n)" "uint (a + n) < 2 ^ 63" using assms ranges unfolding sum by linarith+
  then show "uint (a + n - s) = uint a + uint n - sint s" by (simp only: uint_unshift if_P sum)
qed

lemma image_lookup_backed:
  assumes parts: "\<forall>p \<in> set ps. part_loaded s p \<and> uint (ip_off p) + uint (ip_size p) \<le> int (length bytes)"
    and len: "length bytes < 2 ^ 63" and n: "0 < n" and a: "uint a + uint n < 2 ^ 63" "sint s \<le> uint a"
    and p: "p \<in> set ps" "ip_addr p \<le> a - s" "a + n - s \<le> ip_addr p + ip_size p"
  shows "\<exists>bs. image_lookup (bytes_read_at bytes) ps (a - s) (a + n - s) n = Some bs"
  using parts p(1)
proof (induction ps)
  case (Cons q qs)
  have loaded: "part_loaded s q" and inside: "uint (ip_off q) + uint (ip_size q) \<le> int (length bytes)"
    using Cons.prems(1) by simp_all
  note l = loaded [unfolded part_loaded_def word_powers]
  have "uint (ip_addr q) + uint (ip_size q) < 2 ^ 64" using l unfolding word_powers by linarith
  then have add: "AddUint64 (ip_addr q) (ip_size q) = (ip_addr q + ip_size q, True)"
    by (simp only: AddUint64_value unat_sum_less)
  show ?case
  proof (cases "ip_addr q \<le> a - s \<and> a + n - s \<le> ip_addr q + ip_size q")
    case True
    note ondisk = uint_ondisk [OF a]
    let ?k = "a - s - ip_addr q"
    have "uint (ip_addr q + ip_size q) = uint (ip_addr q) + uint (ip_size q)"
      using add unfolding AddUint64_value unat_sum_less [symmetric] by (intro uint_add_small) simp
    with True ondisk have "uint ?k + uint n \<le> uint (ip_size q)" by (simp add: uint_diff_le uint_word_le)
    with inside len have fit: "uint (ip_off q) + uint ?k + uint n \<le> int (length bytes)" "int (length bytes) < 2 ^ 63"
      by simp_all
    then have off: "uint (ip_off q + ?k) = uint (ip_off q) + uint ?k"
      using uint_word_range(1) [of n] unfolding word_powers by (intro uint_add_small, unfold word_powers) linarith
    have "ip_off q + ?k \<le> max_int64"
      using fit uint_word_range(1) [of n] unfolding max_int64_iff off by linarith
    moreover from fit(1) have "bytes_read_at bytes (ip_off q + ?k) n =
        (take (unat n) (drop (unat (ip_off q + ?k)) bytes), None)"
      unfolding off [symmetric] using len n by (rule bytes_read_inside)
    ultimately show ?thesis using True add by (simp add: Let_def not_less)
  next
    case False
    with add Cons p(2,3) show ?thesis by (auto simp: Let_def)
  qed
qed simp

theorem image_serves_listed:
  assumes backed: "image_backed i bytes" and n: "0 < n" "a \<noteq> 0"
  shows "(\<exists>bs. image_read (Some i) a n = Some bs) \<longleftrightarrow> (\<exists>m \<in> set (image_ranges (Some i)). in_range a n m)"
proof
  assume "\<exists>bs. image_read (Some i) a n = Some bs"
  then obtain p m where "p \<in> set (im_parts i)" "image_range i p = Some m" "in_range a n m"
    using image_read_inside [OF backed n] by metis
  then show "\<exists>m \<in> set (image_ranges (Some i)). in_range a n m"
    by (force simp: image_ranges_def List.map_filter_def)
next
  assume "\<exists>m \<in> set (image_ranges (Some i)). in_range a n m"
  then obtain p m where p: "p \<in> set (im_parts i)" and m: "image_range i p = Some m" and range: "in_range a n m"
    by (auto simp: image_ranges_def List.map_filter_def)
  have parts: "\<forall>p \<in> set (im_parts i). part_loaded (im_slide i) p \<and>
      uint (ip_off p) + uint (ip_size p) \<le> int (length bytes)" and len: "length bytes < 2 ^ 63"
    using backed by (auto simp: image_backed_def)
  then have loaded: "part_loaded (im_slide i) p" using p by blast
  then have at: "uint (ip_addr p) + sint (im_slide i) \<le> uint a"
    "uint a + uint n \<le> uint (ip_addr p) + sint (im_slide i) + uint (ip_size p)"
    using m range by (auto simp: in_range_uint elim: loaded_range)
  note serves = part_serves [OF loaded at]
  have "sint (im_slide i) \<le> uint a" using at(1) uint_word_range(1) [of "ip_addr p"] by linarith
  from image_lookup_backed [OF parts len n(1) serves(4) this p serves(1,2)] serves(4)
  show "\<exists>bs. image_read (Some i) a n = Some bs" unfolding image_read_body [OF backed n] by blast
qed

section \<open>FreeBSD: one policy for both sources\<close>

lemma parse_map_line_wf: "parse_map_line line = Some m \<Longrightarrow> m_start m < m_end m"
  by (auto simp: parse_map_line_def Let_def not_le split: if_splits option.splits)

lemma parseFreeBSDProcMap_wf:
  assumes "parseFreeBSDProcMap contents e = Inr ms" "m \<in> set ms"
  shows "m_start m < m_end m"
proof -
  from assms obtain line where "parse_map_line line = Some m"
    by (auto simp: parseFreeBSDProcMap_def List.map_filter_def split: sum.splits option.splits)
  then show ?thesis by (rule parse_map_line_wf)
qed

text \<open>A reader over procfs is that of Linux on its mappings; one over the executable is the ELF reader.\<close>

lemma freebsd_read_procfs:
  "fb_elf b = None \<Longrightarrow> fb_mem b = Some mem \<Longrightarrow>
    freebsd_read (Some b) = process_read_at_addr (Some \<lparr>pr_maps = fb_maps b, pr_mem = Some mem\<rparr>)"
  by (intro ext) (simp add: freebsd_read_def process_read_at_addr_def freebsd_body_def [abs_def] guarded_def)

lemma freebsd_read_elf:
  assumes "fb_elf b = Some e" "er_file e = Some f"
  shows "freebsd_read (Some b) = elf_read_at_addr (Some e)"
  by (intro ext) (use assms in \<open>auto simp: freebsd_read_def freebsd_body_def elf_read_at_addr_def guarded_def split: prod.splits\<close>)

lemma open_freebsd_one_source:
  "open_freebsd env = Inr b \<Longrightarrow> (fb_mem b = None) \<noteq> (fb_elf b = None)"
  by (auto simp: open_freebsd_def open_freebsd_elf_def Let_def split: sum.splits)

section \<open>Free space saturates\<close>

lemma int_le_div: "0 < q \<Longrightarrow> m \<le> n div q \<longleftrightarrow> m * q \<le> (n :: int)"
proof
  assume "0 < q"
  show "m * q \<le> n" if "m \<le> n div q"
    using mult_right_mono [OF that, of q] div_mult_mod_eq [of n q] pos_mod_sign [OF \<open>0 < q\<close>, of n] \<open>0 < q\<close> by linarith
  show "m \<le> n div q" if "m * q \<le> n"
    using zdiv_mono1 [OF that \<open>0 < q\<close>] \<open>0 < q\<close> by simp
qed

lemma Available_saturates:
  assumes "statfs path = Inr (bsize, bavail)" "0 < bsize" "bsize < 2 ^ 63" "bavail < 2 ^ 64"
  obtains n where "Available statfs path = Inr n" "uint n = max 0 (min (bavail * bsize) (2 ^ 64 - 1))"
proof (cases "bavail \<le> 0")
  case True
  with assms(2) have "bavail * bsize \<le> 0" by (simp add: mult_nonpos_nonneg)
  with assms(1,2) True show thesis by (intro that [of 0]) (simp_all add: Available_def)
next
  case False
  let ?blocks = "word_of_int bavail :: u64" and ?sz = "word_of_int bsize :: u64"
  have u: "uint ?blocks = bavail" "uint ?sz = bsize"
    using False assms(2-4) by (simp_all add: uint_word_of_int_eq take_bit_int_eq_self)
  have top: "uint (- 1 :: u64) = 2 ^ 64 - 1" by (simp add: unsigned_minus_1_eq_mask mask_eq_exp_minus_1)
  have "?blocks \<le> - 1 div ?sz \<longleftrightarrow> bavail \<le> (2 ^ 64 - 1) div bsize"
    unfolding uint_word_le uint_div u top ..
  also have "\<dots> \<longleftrightarrow> bavail * bsize \<le> 2 ^ 64 - 1" using assms(2) by (rule int_le_div)
  finally have fits: "?blocks \<le> - 1 div ?sz \<longleftrightarrow> bavail * bsize \<le> 2 ^ 64 - 1" .
  show thesis
  proof (cases "bavail * bsize \<le> 2 ^ 64 - 1")
    case True
    have "uint (?blocks * ?sz) = bavail * bsize"
      using True False assms(2) by (simp add: uint_word_ariths u take_bit_int_eq_self)
    with True False fits assms(1,2) show thesis
      by (intro that [of "?blocks * ?sz"]) (auto simp: Available_def Let_def)
  next
    case False
    with fits \<open>\<not> bavail \<le> 0\<close> assms(1,2) top show thesis
      by (intro that [of "- 1"]) (auto simp: Available_def Let_def)
  qed
qed

end
