(* ===== verification/PublicApi.thy ===== *)
theory PublicApi
  imports BundleCaptureFacts
begin

text \<open>
  The public package (\<open>pkg/bubblepprof\<close>): its options and their translation, the producer string,
  and the registration of the two endpoints behind one capture gate. Requests are served one after
  the other here, each in the state that the one before left; \<open>CaptureGate\<close> has the interleaving of
  callers at the gate.
\<close>

section \<open>Options\<close>

record memusage_options =
  mu_cooldown :: int
  mu_scratch_dir :: string
  mu_min_free_bytes :: u64
  mu_max_dump_bytes :: i64
  mu_disable_gc :: bool
  mu_include_system :: bool
  mu_disable_process_reader :: bool
  mu_max_body :: int
  mu_max_mem_range :: u64
  mu_max_labels :: int
  mu_max_key_bytes :: int
  mu_max_value_bytes :: int

definition toInternal :: "memusage_options \<Rightarrow> mem_options" where
  "toInternal opts =
     \<lparr>mo_scratch_dir = mu_scratch_dir opts, mo_min_free_bytes = mu_min_free_bytes opts, mo_max_dump_bytes = mu_max_dump_bytes opts,
      mo_keep_provenance = False, mo_gc_before = (\<not> mu_disable_gc opts), mo_include_system = mu_include_system opts,
      mo_disable_process_reader = mu_disable_process_reader opts, mo_max_mem_range = mu_max_mem_range opts,
      mo_max_labels = mu_max_labels opts, mo_max_key_bytes = mu_max_key_bytes opts, mo_max_value_bytes = mu_max_value_bytes opts\<rparr>"

record bundle_handler_options =
  bh_cooldown :: int
  bh_scratch_dir :: string
  bh_min_free_bytes :: u64
  bh_max_dump_bytes :: i64
  bh_max_artifact_bytes :: int
  bh_disable_gc :: bool
  bh_disable_rodata :: bool
  bh_max_rodata_bytes :: int
  bh_include_heap :: bool
  bh_include_goroutine :: bool

text \<open>
  The modules of the build information, the main one first: path, version and replacement. \<open>None\<close>
  when there is no build information.
\<close>

datatype go_module = GoModule (gm_path: string) (gm_version: string) (gm_replace: "go_module option")

definition modulePath :: string where "modulePath = ''github.com/NuperSu/bubblepprof''"

fun producer_of :: "go_module list \<Rightarrow> string" where
  "producer_of [] = ''bubblepprof''"
| "producer_of (m # ms) =
     (let m' = (case gm_replace m of None \<Rightarrow> m | Some r \<Rightarrow> r)
      in if gm_path m' = modulePath \<and> gm_version m' \<noteq> [] \<and> gm_version m' \<noteq> ''(devel)''
         then ''bubblepprof/'' @ gm_version m' else producer_of ms)"

definition producer :: "go_module list option \<Rightarrow> string" where
  "producer info = (case info of None \<Rightarrow> ''bubblepprof'' | Some ms \<Rightarrow> producer_of ms)"

definition bundleHandlerOptions :: "go_module list option \<Rightarrow> bundle_handler_options \<Rightarrow> bundle_options" where
  "bundleHandlerOptions info opts =
     \<lparr>bc_scratch_dir = bh_scratch_dir opts, bc_min_free_bytes = bh_min_free_bytes opts, bc_max_dump_bytes = bh_max_dump_bytes opts,
      bc_max_artifact_bytes = bh_max_artifact_bytes opts, bc_gc_before = (\<not> bh_disable_gc opts),
      bc_include_heap = bh_include_heap opts, bc_include_goroutine = bh_include_goroutine opts,
      bc_disable_rodata = bh_disable_rodata opts, bc_max_rodata_bytes = bh_max_rodata_bytes opts, bc_producer = producer info\<rparr>"

text \<open>The one gate of both endpoints: the longer cooldown, or a negative one when either is negative.\<close>

definition registered_gate :: "memusage_options \<Rightarrow> bundle_handler_options \<Rightarrow> gate" where
  "registered_gate mu bh =
     new_gate None
       (if mu_cooldown mu < 0 \<or> bh_cooldown bh < 0 then - 1 else max (mu_cooldown mu) (bh_cooldown bh))"

section \<open>The two endpoints\<close>

datatype endpoint_request = MemUsageRequest http_request | BundleRequest string string
datatype endpoint_answer = MemUsageAnswer http_response | BundleAnswer bundle_answer

text \<open>\<open>CaptureSelf\<close> as a handler's capture: \<open>chunks\<close> is what the tar writer sends of it.\<close>

definition self_capture :: "bundle_env \<Rightarrow> (bundle_options \<Rightarrow> resources \<Rightarrow> byte list list) \<Rightarrow> resources bundle_capture" where
  "self_capture env chunks opts rs =
     (case capture_self env opts rs of (r, rs') \<Rightarrow>
        ((chunks opts rs, case r of Inl e \<Rightarrow> Some e | Inr _ \<Rightarrow> None), rs'))"

record server =
  sv_capture :: capture_env
  sv_process :: process_env
  sv_bundle :: bundle_env
  sv_chunks :: "bundle_options \<Rightarrow> resources \<Rightarrow> byte list list"
  sv_decode :: request_decoder
  sv_filename :: string
  sv_build :: "go_module list option"
  sv_mem :: memusage_options
  sv_bundles :: bundle_handler_options

text \<open>The request and the two times that its handler reads.\<close>

definition serve_request ::
  "server \<Rightarrow> endpoint_request \<times> int \<times> int \<Rightarrow> gate \<times> resources \<Rightarrow> endpoint_answer \<times> gate \<times> resources"
where
  "serve_request sv rq st =
     (case rq of (req, now, later) \<Rightarrow>
        case req of
          MemUsageRequest hq \<Rightarrow>
            (let opts = toInternal (sv_mem sv)
             in case serve (sv_decode sv) opts
                    (if mu_max_body (sv_mem sv) \<le> 0 then DefaultMaxRequestBodyBytes else mu_max_body (sv_mem sv))
                    (compute (sv_capture sv) (sv_process sv) (Some (new_computer (sv_capture sv) opts))) now later hq st of
                  (r, st') \<Rightarrow> (MemUsageAnswer r, st'))
        | BundleRequest meth gc \<Rightarrow>
            (case serveBundle (self_capture (sv_bundle sv) (sv_chunks sv)) (bundleHandlerOptions (sv_build sv) (sv_bundles sv))
                    (sv_filename sv) now later meth gc st of
               (r, st') \<Rightarrow> (BundleAnswer r, st')))"

fun serve_requests ::
  "server \<Rightarrow> (endpoint_request \<times> int \<times> int) list \<Rightarrow> gate \<times> resources \<Rightarrow> endpoint_answer list \<times> gate \<times> resources"
where
  "serve_requests sv [] st = ([], st)"
| "serve_requests sv (rq # rqs) st =
     (case serve_request sv rq st of (ans, st1) \<Rightarrow>
        case serve_requests sv rqs st1 of (answers, st2) \<Rightarrow> (ans # answers, st2))"

section \<open>Serving leaves the gate free and the files as they were\<close>

definition same_slots :: "gate \<Rightarrow> gate \<Rightarrow> bool" where
  "same_slots g' g \<longleftrightarrow> gt_slots g' = gt_slots g \<and> gt_capacity g' = gt_capacity g \<and> gt_cooldown g' = gt_cooldown g"

lemma new_names_same: "same_files rs' rs \<Longrightarrow> new_names env rs \<Longrightarrow> new_names env rs'"
  by (simp add: new_names_def same_files_def)

lemma serve_keeps:
  assumes keeps: "\<And>req. same_files (snd (act req w)) w"
    and run: "serve dec opts max_body act now later hq (g, w) = (r, g', w')"
  shows "same_slots g' g \<and> same_files w' w"
proof (cases "valid_request dec opts max_body hq")
  case None
  from serve_invalid(1) [OF None, of act now later "(g, w)"] run show ?thesis by (simp add: same_slots_def)
next
  case (Some req)
  obtain e g1 where a: "acquire now g = (e, g1)" by (cases "acquire now g")
  show ?thesis
  proof (cases e)
    case None
    with a run serve_admitted [of dec opts max_body hq req now g g1 act later w] Some keeps
    show ?thesis by (auto simp: same_slots_def)
  next
    case (Some e)
    with a run serve_refused(1) [of dec opts max_body hq req now g e g1 act later w] \<open>valid_request _ _ _ _ = Some req\<close>
    show ?thesis by (simp add: same_slots_def)
  qed
qed

lemma serveBundle_keeps:
  assumes keeps: "\<And>opts. same_files (snd (cap opts w)) w"
    and run: "serveBundle cap copts filename now later meth gc (g, w) = (r, g', w')"
  shows "same_slots g' g \<and> same_files w' w"
proof (cases "valid_bundle_request copts meth gc")
  case None
  from serveBundle_invalid(1) [OF None, of cap filename now later "(g, w)"] run show ?thesis by (simp add: same_slots_def)
next
  case (Some opts)
  obtain e g1 where a: "acquire now g = (e, g1)" by (cases "acquire now g")
  show ?thesis
  proof (cases e)
    case None
    obtain chunks err w1 where "cap opts w = ((chunks, err), w1)" by (metis surj_pair)
    with None a run serveBundle_admitted [of copts meth gc opts now g g1 cap w chunks err w1 filename later] Some
      keeps [of opts]
    show ?thesis by (auto simp: same_slots_def)
  next
    case (Some e)
    with a run serveBundle_refused(1) [of copts meth gc opts now g e g1 cap filename later w]
      \<open>valid_bundle_request _ _ _ = Some opts\<close>
    show ?thesis by (simp add: same_slots_def)
  qed
qed

lemma serve_request_keeps:
  assumes new: "new_names (sv_capture sv) rs" and same: "be_capture (sv_bundle sv) = sv_capture sv"
    and run: "serve_request sv rq (g, rs) = (ans, g', rs')"
  shows "same_slots g' g \<and> same_files rs' rs"
proof -
  have computed: "same_files (snd (compute (sv_capture sv) env (Some (new_computer (sv_capture sv) opts)) req rs)) rs"
    for env opts req using compute_releases [OF prod.collapse [symmetric] new] .
  have captured: "same_files (snd (self_capture (sv_bundle sv) chunks opts rs)) rs" for chunks opts
  proof -
    obtain r rs1 where run: "capture_self (sv_bundle sv) opts rs = (r, rs1)" by (metis surj_pair)
    from capture_self_releases [OF this] new same run show ?thesis by (simp add: self_capture_def)
  qed
  obtain req now later where rq: "rq = (req, now, later)" by (cases rq)
  show ?thesis
  proof (cases req)
    case (MemUsageRequest hq)
    define opts where "opts = toInternal (sv_mem sv)"
    from MemUsageRequest rq run obtain r max_body where "serve (sv_decode sv) opts max_body
        (compute (sv_capture sv) (sv_process sv) (Some (new_computer (sv_capture sv) opts))) now later hq (g, rs) = (r, g', rs')"
      by (auto simp: serve_request_def Let_def opts_def split: prod.splits)
    then show ?thesis by (rule serve_keeps [rotated]) (rule computed)
  next
    case (BundleRequest meth gc)
    with rq run obtain r copts where "serveBundle (self_capture (sv_bundle sv) (sv_chunks sv)) copts
        (sv_filename sv) now later meth gc (g, rs) = (r, g', rs')"
      by (auto simp: serve_request_def split: prod.splits)
    then show ?thesis by (rule serveBundle_keeps [rotated]) (rule captured)
  qed
qed

lemma serve_requests_keep:
  assumes same: "be_capture (sv_bundle sv) = sv_capture sv"
  shows "new_names (sv_capture sv) rs \<Longrightarrow> serve_requests sv rqs (g, rs) = (answers, g', rs') \<Longrightarrow>
    same_slots g' g \<and> same_files rs' rs \<and> length answers = length rqs"
proof (induction rqs arbitrary: g rs answers)
  case (Cons rq rqs)
  obtain ans g1 rs1 where one: "serve_request sv rq (g, rs) = (ans, g1, rs1)" by (metis surj_pair)
  then obtain rest where rest: "serve_requests sv rqs (g1, rs1) = (rest, g', rs')" "answers = ans # rest"
    using Cons.prems(2) by (auto split: prod.splits)
  note keeps = serve_request_keeps [OF Cons.prems(1) same one]
  with new_names_same Cons.prems(1) have "new_names (sv_capture sv) rs1" by blast
  from Cons.IH [OF this rest(1)] keeps rest(2) show ?case
    by (auto simp: same_slots_def intro: same_files_trans)
qed (auto simp: same_slots_def)

text \<open>While the slot is taken, both endpoints refuse a valid request and change nothing.\<close>

lemma busy_gate:
  assumes "gt_slots g = gt_capacity g" "0 \<le> gt_cooldown g"
  shows "acquire now g = (Some (Inr busy_error), g)"
  using assms by (simp add: acquire_def gate_send_def)

definition refused :: "endpoint_answer \<Rightarrow> bool" where
  "refused ans \<longleftrightarrow>
     (case ans of
        MemUsageAnswer r \<Rightarrow> hr_status r \<in> {400, 405, 429}
      | BundleAnswer (JsonAnswer r) \<Rightarrow> hr_status r \<in> {400, 405, 429}
      | BundleAnswer _ \<Rightarrow> False)"

lemma busy_refuses:
  assumes busy: "gt_slots g = gt_capacity g" "0 \<le> gt_cooldown g"
    and run: "serve_request sv (req, now, later) (g, rs) = (ans, st)"
  shows "st = (g, rs) \<and>
    refused ans"
proof -
  have gate: "acquire now g = (Some (Inr busy_error), g)" by (rule busy_gate [OF busy])
  show ?thesis
  proof (cases req)
    case (MemUsageRequest hq)
    define opts where "opts = toInternal (sv_mem sv)"
    define max_body where
      "max_body = (if mu_max_body (sv_mem sv) \<le> 0 then DefaultMaxRequestBodyBytes else mu_max_body (sv_mem sv))"
    define act where "act = compute (sv_capture sv) (sv_process sv) (Some (new_computer (sv_capture sv) opts))"
    from MemUsageRequest run obtain r where
      served: "serve (sv_decode sv) opts max_body act now later hq (g, rs) = (r, st)" and ans: "ans = MemUsageAnswer r"
      by (auto simp: serve_request_def Let_def opts_def max_body_def act_def split: prod.splits)
    show ?thesis
    proof (cases "valid_request (sv_decode sv) opts max_body hq")
      case None
      from serve_invalid [OF None, of act now later "(g, rs)"] served ans show ?thesis by (auto simp: refused_def)
    next
      case (Some req)
      from serve_refused [OF Some gate, of act later rs] served ans show ?thesis by (simp add: refused_def)
    qed
  next
    case (BundleRequest meth gc)
    define opts where "opts = bundleHandlerOptions (sv_build sv) (sv_bundles sv)"
    define cap where "cap = self_capture (sv_bundle sv) (sv_chunks sv)"
    from BundleRequest run obtain r where
      served: "serveBundle cap opts (sv_filename sv) now later meth gc (g, rs) = (r, st)" and ans: "ans = BundleAnswer r"
      by (auto simp: serve_request_def opts_def cap_def split: prod.splits)
    show ?thesis
    proof (cases "valid_bundle_request opts meth gc")
      case None
      from serveBundle_invalid [OF None, of cap "sv_filename sv" now later "(g, rs)"] served ans show ?thesis by (auto simp: refused_def)
    next
      case (Some copts)
      from serveBundle_refused [OF Some gate, of cap "sv_filename sv" later rs] served ans show ?thesis by (auto simp: refused_def)
    qed
  qed
qed

lemma busy_refuses_all:
  assumes "gt_slots g = gt_capacity g" "0 \<le> gt_cooldown g"
  shows "serve_requests sv rqs (g, rs) = (answers, st) \<Longrightarrow> st = (g, rs) \<and> (\<forall>ans \<in> set answers. refused ans)"
proof (induction rqs arbitrary: answers st)
  case (Cons rq rqs)
  obtain ans st1 where one: "serve_request sv rq (g, rs) = (ans, st1)" by (cases "serve_request sv rq (g, rs)")
  with busy_refuses [OF assms, of sv "fst rq" "fst (snd rq)" "snd (snd rq)" rs ans st1]
  have "st1 = (g, rs)" "refused ans" by simp_all
  with Cons one show ?case by (auto split: prod.splits)
qed simp

end
