(* ===== verification/CliFlags.thy ===== *)
theory CliFlags
  imports AddrSpace "HOL-Library.AList"
begin

text \<open>
  The command line of the analyser: the flags of package \<open>flag\<close> as the commands use them,
  \<open>parseWithOneArg\<close> of \<open>internal/cli/cli.go\<close>, and the label selectors of \<open>internal/cli/memusage.go\<close>.
\<close>

section \<open>Flags\<close>

text \<open>
  A flag sets its value in the state \<open>'s\<close> of a command. The parser is that of \<open>flag.FlagSet\<close>: it
  stops at the first argument that is no flag, or after \<open>--\<close>, and answers with the arguments left,
  the state, and the names that were set (what \<open>Visit\<close> goes through).
\<close>

record 's go_flag =
  fg_bool :: bool
  fg_set :: "string \<Rightarrow> 's \<Rightarrow> go_error + 's"

type_synonym 's flag_set = "(string \<times> 's go_flag) list"

datatype parse_error = ErrHelp | FlagError go_error

definition is_flag :: "string \<Rightarrow> bool" where
  "is_flag s \<longleftrightarrow> 2 \<le> length s \<and> hd s = CHR ''-''"

definition flag_name :: "string \<Rightarrow> string" where
  "flag_name s = (if s ! 1 = CHR ''-'' then drop 2 s else drop 1 s)"

text \<open>\<open>strings.Cut\<close> at a character.\<close>

definition cut_at :: "char \<Rightarrow> string \<Rightarrow> string \<times> string option" where
  "cut_at c s = (takeWhile (\<lambda>x. x \<noteq> c) s, if c \<in> set s then Some (tl (dropWhile (\<lambda>x. x \<noteq> c) s)) else None)"

definition set_flag :: "string \<Rightarrow> 's go_flag \<Rightarrow> string \<Rightarrow> 's \<Rightarrow> parse_error + 's" where
  "set_flag name f v st =
     (case fg_set f v st of
        Inl e \<Rightarrow> Inl (FlagError (Wrapf (Fmt ''invalid value %q for flag -%s'' [FS v, FS name]) e))
      | Inr st' \<Rightarrow> Inr st')"

text \<open>One flag (\<open>parseOne\<close>): the arguments after it, the state, and its name.\<close>

definition flag_step ::
  "'s flag_set \<Rightarrow> string \<Rightarrow> string list \<Rightarrow> 's \<Rightarrow> parse_error + string list \<times> 's \<times> string"
where
  "flag_step flags s rest st =
     (let nm = flag_name s
      in if nm = [] \<or> hd nm = CHR ''-'' \<or> hd nm = CHR ''='' then
           Inl (FlagError (Errorf (Fmt ''bad flag syntax: %s'' [FS s])))
         else
           let name = fst (cut_at (CHR ''='') nm)
           in case map_of flags name of
                None \<Rightarrow>
                  if name = ''help'' \<or> name = ''h'' then Inl ErrHelp
                  else Inl (FlagError (Errorf (Fmt ''flag provided but not defined: -%s'' [FS name])))
              | Some f \<Rightarrow>
                  (case (snd (cut_at (CHR ''='') nm), fg_bool f, rest) of
                     (Some v, _, _) \<Rightarrow> map_sum id (\<lambda>st'. (rest, st', name)) (set_flag name f v st)
                   | (None, True, _) \<Rightarrow> map_sum id (\<lambda>st'. (rest, st', name)) (set_flag name f ''true'' st)
                   | (None, False, v # rest') \<Rightarrow> map_sum id (\<lambda>st'. (rest', st', name)) (set_flag name f v st)
                   | (None, False, []) \<Rightarrow>
                       Inl (FlagError (Errorf (Fmt ''flag needs an argument: -%s'' [FS name])))))"

lemma flag_step_append:
  assumes "flag_step flags s rest st = Inr (rest', st', name)"
  shows "flag_step flags s (rest @ zs) st = Inr (rest' @ zs, st', name)" "length rest' \<le> length rest"
  using assms
  by (auto simp: flag_step_def Let_def map_sum_Inr split: if_splits option.splits bool.splits list.splits)

function parse_flags ::
  "'s flag_set \<Rightarrow> string list \<Rightarrow> 's \<Rightarrow> string list \<Rightarrow> parse_error + string list \<times> 's \<times> string list"
where
  "parse_flags flags [] st seen = Inr ([], st, seen)"
| "parse_flags flags (s # rest) st seen =
     (if \<not> is_flag s then Inr (s # rest, st, seen)
      else if s = ''--'' then Inr (rest, st, seen)
      else case flag_step flags s rest st of
        Inl e \<Rightarrow> Inl e
      | Inr (rest', st', name) \<Rightarrow> parse_flags flags rest' st' (seen @ [name]))"
  by pat_completeness auto
termination
  by (relation "measure (\<lambda>(flags, args, st, seen). length args)") (auto dest: flag_step_append(2))

text \<open>What is left is a suffix, so the loop over the arguments that are no flags ends.\<close>

lemma parse_flags_shorter: "parse_flags flags args st seen = Inr (rest, st', seen') \<Longrightarrow> length rest \<le> length args"
proof (induction flags args st seen rule: parse_flags.induct)
  case (2 flags s rest0 st seen)
  from 2(2) consider "rest = s # rest0" | "rest = rest0"
    | r1 s1 n1 where "is_flag s" "s \<noteq> ''--''" "flag_step flags s rest0 st = Inr (r1, s1, n1)"
      "parse_flags flags r1 s1 (seen @ [n1]) = Inr (rest, st', seen')"
    by (auto split: if_splits sum.splits)
  then show ?case
  proof cases
    case 3
    with 2(1) [OF _ _ 3(3) refl refl] flag_step_append(2) [OF 3(3)] show ?thesis by simp
  qed simp_all
qed simp

function with_one_arg ::
  "'s flag_set \<Rightarrow> string \<Rightarrow> string list \<Rightarrow> 's \<Rightarrow> string list \<Rightarrow> parse_error + string \<times> 's \<times> string list"
where
  "with_one_arg flags target args st seen =
     (case parse_flags flags args st seen of
        Inl e \<Rightarrow> Inl e
      | Inr ([], st', seen') \<Rightarrow>
          if target = [] then Inl (FlagError (Errorf (Fmt ''missing argument'' []))) else Inr (target, st', seen')
      | Inr (a # rest, st', seen') \<Rightarrow>
          if target \<noteq> [] then Inl (FlagError (Errorf (Fmt ''unexpected extra argument %q'' [FS a])))
          else with_one_arg flags a rest st' seen')"
  by pat_completeness auto
termination
  by (relation "measure (\<lambda>(flags, target, args, st, seen). length args)") (auto dest: parse_flags_shorter)

declare with_one_arg.simps [simp del]

definition parseWithOneArg :: "'s flag_set \<Rightarrow> string list \<Rightarrow> 's \<Rightarrow> parse_error + string \<times> 's \<times> string list" where
  "parseWithOneArg flags args st = with_one_arg flags [] args st []"

text \<open>The loop of \<open>diff\<close>, which takes every argument that is no flag.\<close>

function with_args ::
  "'s flag_set \<Rightarrow> string list \<Rightarrow> string list \<Rightarrow> 's \<Rightarrow> string list \<Rightarrow> parse_error + string list \<times> 's \<times> string list"
where
  "with_args flags paths args st seen =
     (case parse_flags flags args st seen of
        Inl e \<Rightarrow> Inl e
      | Inr ([], st', seen') \<Rightarrow> Inr (paths, st', seen')
      | Inr (a # rest, st', seen') \<Rightarrow> with_args flags (paths @ [a]) rest st' seen')"
  by pat_completeness auto
termination
  by (relation "measure (\<lambda>(flags, paths, args, st, seen). length args)") (auto dest: parse_flags_shorter)

declare with_args.simps [simp del]

section \<open>Flags may stand on both sides of the argument\<close>

lemma parse_flags_append:
  "parse_flags flags xs st seen = Inr ([], st', seen') \<Longrightarrow> \<not> is_flag t \<Longrightarrow>
    parse_flags flags (xs @ t # ys) st seen = Inr (t # ys, st', seen')"
proof (induction flags xs st seen rule: parse_flags.induct)
  case (2 flags s rest st seen)
  show ?case
  proof (cases "s = ''--''")
    case True
    with 2(2,3) show ?thesis by (simp add: is_flag_def)
  next
    case False
    with 2(2) obtain r1 s1 n1 where step: "is_flag s" "flag_step flags s rest st = Inr (r1, s1, n1)"
      "parse_flags flags r1 s1 (seen @ [n1]) = Inr ([], st', seen')"
      by (auto split: if_splits sum.splits)
    with False 2(1) [OF _ _ step(2) refl refl] 2(3) flag_step_append(1) [OF step(2), of "t # ys"]
    show ?thesis by simp
  qed
qed simp

lemma one_arg_anywhere:
  assumes "parse_flags flags xs st [] = Inr ([], st1, seen1)" "parse_flags flags ys st1 seen1 = Inr ([], st2, seen2)"
    and "\<not> is_flag t" "t \<noteq> []"
  shows "parseWithOneArg flags (xs @ t # ys) st = Inr (t, st2, seen2)"
  using parse_flags_append [OF assms(1,3), of ys] assms(2,4)
  by (simp add: parseWithOneArg_def with_one_arg.simps [of flags "[]"] with_one_arg.simps [of flags t])

section \<open>Label selectors\<close>

fun split_on :: "char \<Rightarrow> string \<Rightarrow> string \<Rightarrow> string list" where
  "split_on c acc [] = [acc]"
| "split_on c acc (x # xs) = (if x = c then acc # split_on c [] xs else split_on c (acc @ [x]) xs)"

type_synonym labels_flag = "(string \<times> string) list"

definition setOne :: "string \<Rightarrow> labels_flag \<Rightarrow> go_error + labels_flag" where
  "setOne value f =
     (case cut_at (CHR ''='') value of
        (k, Some v) \<Rightarrow>
          if k = [] then Inl (Errorf (Fmt ''label %q is not of the form key=value'' [FS value]))
          else Inr (AList.update k v f)
      | (k, None) \<Rightarrow> Inl (Errorf (Fmt ''label %q is not of the form key=value'' [FS value])))"

fun set_items :: "string list \<Rightarrow> labels_flag \<Rightarrow> go_error + labels_flag" where
  "set_items [] f = Inr f"
| "set_items (item # rest) f = (case setOne item f of Inl e \<Rightarrow> Inl e | Inr f' \<Rightarrow> set_items rest f')"

definition setLabels :: "string \<Rightarrow> labels_flag \<Rightarrow> go_error + labels_flag" where
  "setLabels value f = set_items (split_on (CHR '','') [] value) f"

text \<open>\<open>String\<close>: the parts in the order of the map, joined with commas.\<close>

definition label_text :: "string \<times> string \<Rightarrow> string" where "label_text kv = fst kv @ ''='' @ snd kv"

definition labelsString :: "labels_flag \<Rightarrow> string" where
  "labelsString f = string_join '','' (map label_text f)"

definition plain_label :: "string \<times> string \<Rightarrow> bool" where
  "plain_label kv \<longleftrightarrow> fst kv \<noteq> [] \<and> CHR ''='' \<notin> set (fst kv) \<and> CHR '','' \<notin> set (fst kv) \<and> CHR '','' \<notin> set (snd kv)"

lemma split_on_word: "c \<notin> set w \<Longrightarrow> split_on c acc w = [acc @ w]"
  by (induction w arbitrary: acc) auto

lemma split_on_sep: "c \<notin> set w \<Longrightarrow> split_on c acc (w @ c # s) = (acc @ w) # split_on c [] s"
  by (induction w arbitrary: acc) auto

lemma split_join:
  "\<forall>x \<in> set xs. c \<notin> set x \<Longrightarrow> xs \<noteq> [] \<Longrightarrow> split_on c [] (string_join [c] xs) = xs"
  by (induction "[c]" xs rule: string_join.induct) (auto simp: split_on_word split_on_sep)

lemma setOne_text: "plain_label kv \<Longrightarrow> setOne (label_text kv) f = Inr (AList.update (fst kv) (snd kv) f)"
  by (simp add: setOne_def cut_at_def label_text_def plain_label_def dropWhile_append takeWhile_append)

lemma set_items_text:
  "\<forall>kv \<in> set ls. plain_label kv \<Longrightarrow> set_items (map label_text ls) f = Inr (fold (\<lambda>(k, v). AList.update k v) ls f)"
  by (induction ls arbitrary: f) (simp_all add: setOne_text case_prod_unfold)

lemma fold_update: "distinct (map fst ls) \<Longrightarrow> map_of (fold (\<lambda>(k, v). AList.update k v) ls f) = map_of f ++ map_of ls"
proof (induction ls arbitrary: f)
  case (Cons kv ls)
  then have "fst kv \<notin> dom (map_of ls)" by (simp add: dom_map_of_conv_image_fst)
  then have "map_of f ++ (map_of ls)(fst kv \<mapsto> snd kv) = (map_of f)(fst kv \<mapsto> snd kv) ++ map_of ls"
    by (auto simp: map_add_def fun_eq_iff split: option.splits)
  with Cons show ?case by (cases kv) (simp add: update_conv' fun_upd_def)
qed simp

lemma labels_read_back:
  assumes "\<forall>kv \<in> set ls. plain_label kv" "distinct (map fst ls)" "ls \<noteq> []"
  obtains f where "setLabels (labelsString ls) [] = Inr f" "map_of f = map_of ls"
proof
  have "split_on (CHR '','') [] (labelsString ls) = map label_text ls"
    unfolding labelsString_def using assms(1,3)
    by (intro split_join) (auto simp: plain_label_def label_text_def)
  then show "setLabels (labelsString ls) [] = Inr (fold (\<lambda>(k, v). AList.update k v) ls [])"
    using set_items_text [OF assms(1)] by (simp add: setLabels_def)
  show "map_of (fold (\<lambda>(k, v). AList.update k v) ls []) = map_of ls" using fold_update [OF assms(2)] by simp
qed

end
