(* ===== verification/Download.thy ===== *)
theory Download
  imports BundleArchiveFacts CaptureGate HeapCapture
begin

text \<open>
  Downloading a bundle (\<open>internal/cli/download.go\<close> and \<open>fetch.go\<close>): the URL of the endpoint, the
  request, the private spool file that is validated before it replaces the destination, and the
  command around them. The outcomes of the system calls are an environment, as for the temporary
  file of a bundle; \<open>archive/tar\<close> is the function from bytes to a tar stream, \<open>net/url\<close> and
  \<open>net/http\<close> answer through parameters.
\<close>

section \<open>Spooling\<close>

text \<open>A source is the bytes that it yields and the error that ends them.\<close>

record source =
  sc_bytes :: "byte list"
  sc_end :: go_error

record spool_env =
  sp_temp :: temp_env
  sp_seek :: "go_error option"
  sp_reseek :: "go_error option"
  sp_stream :: "byte list \<Rightarrow> tar_stream"

definition end_error :: "go_error \<Rightarrow> go_error option" where
  "end_error e = (if e = EOF then None else Some e)"

text \<open>
  The copy into the spool: what it holds afterwards, and the error. A failing write stops the copy
  before the source ends, so its error comes first.
\<close>

definition spool_copy :: "go_error option \<Rightarrow> source \<Rightarrow> i64 \<Rightarrow> byte list \<times> go_error option" where
  "spool_copy write_error src max_bytes =
     (if max_bytes = 0 then
        (sc_bytes src, (case write_error of Some e \<Rightarrow> Some e | None \<Rightarrow> end_error (sc_end src)))
      else
        let got = take (nat (sint max_bytes)) (sc_bytes src)
        in (got,
            case write_error of
              Some e \<Rightarrow> Some e
            | None \<Rightarrow>
                if int (length got) < sint max_bytes then end_error (sc_end src)
                else if sc_bytes src \<noteq> got then
                  Some (Errorf (Fmt ''download exceeds limit %d bytes'' [FU max_bytes]))
                else end_error (sc_end src)))"

definition spool_fail :: "temp_env \<Rightarrow> string \<Rightarrow> disk \<Rightarrow> go_error \<Rightarrow> string disk_result" where
  "spool_fail env name d e = (Inl e, snd (os_remove env name d))"

definition stageDownload ::
  "spool_env \<Rightarrow> bundle_meta json_decoder \<Rightarrow> segment_info list json_decoder \<Rightarrow> source \<Rightarrow> i64 \<Rightarrow> disk \<Rightarrow>
    string disk_result"
where
  "stageDownload env dm di src max_bytes d =
     (case te_create (sp_temp env) of
        Inl e \<Rightarrow> (Inl e, d)
      | Inr name \<Rightarrow>
          let failed = spool_fail (sp_temp env) name
          in if max_bytes <s 0 then
               failed (d(name \<mapsto> [])) (Errorf (Fmt ''maximum download bytes must be non-negative'' []))
             else
               case spool_copy (te_copy_error (sp_temp env)) src max_bytes of
                 (bytes, copy_error) \<Rightarrow>
                   let d1 = d(name \<mapsto> bytes)
                   in (case copy_error of
                         Some e \<Rightarrow> failed d1 e
                       | None \<Rightarrow>
                           (case sp_seek env of
                              Some e \<Rightarrow> failed d1 e
                            | None \<Rightarrow>
                                (case ValidateArchive dm di (sp_stream env bytes) of
                                   Some e \<Rightarrow> failed d1 e
                                 | None \<Rightarrow>
                                     (case sp_reseek env of
                                        Some e \<Rightarrow> failed d1 e
                                      | None \<Rightarrow> (Inr name, d1))))))"

text \<open>\<open>saveDownload\<close>: \<open>rename\<close> is the outcome of \<open>os.Rename\<close>; the deferred removal finds nothing after it.\<close>

definition os_rename :: "go_error option \<Rightarrow> string \<Rightarrow> string \<Rightarrow> disk \<Rightarrow> go_error option \<times> disk" where
  "os_rename rename from to d =
     (case d from of
        None \<Rightarrow> (Some ErrNotExist, d)
      | Some bytes \<Rightarrow>
          (case rename of
             Some e \<Rightarrow> (Some e, d)
           | None \<Rightarrow> (None, (d(from := None))(to \<mapsto> bytes))))"

definition saveDownload :: "temp_env \<Rightarrow> go_error option \<Rightarrow> string \<Rightarrow> source \<Rightarrow> disk \<Rightarrow> go_error option \<times> disk" where
  "saveDownload env rename dest src d =
     (case te_create env of
        Inl e \<Rightarrow> (Some e, d)
      | Inr name \<Rightarrow>
          let d1 = d(name \<mapsto> sc_bytes src);
              copy_error = (case te_copy_error env of Some e \<Rightarrow> Some e | None \<Rightarrow> end_error (sc_end src))
          in (case join_errors copy_error (te_close_error env) of
                Some e \<Rightarrow> (Some e, snd (os_remove env name d1))
              | None \<Rightarrow>
                  (case os_rename rename name dest d1 of (e, d2) \<Rightarrow> (e, snd (os_remove env name d2)))))"

section \<open>The request\<close>

record url =
  ur_scheme :: string
  ur_host :: string
  ur_path :: string
  ur_query :: "(string \<times> string list) list"

definition bundlePath :: string where "bundlePath = ''/debug/memusage/bundle''"

definition trim_right_slashes :: "string \<Rightarrow> string" where
  "trim_right_slashes s = rev (dropWhile (\<lambda>c. c = CHR ''/'') (rev s))"

text \<open>\<open>url_parse\<close> is \<open>url.Parse\<close>; \<open>Set\<close> on the query replaces the values of a key.\<close>

definition bundleURL :: "(string \<Rightarrow> go_error + url) \<Rightarrow> string \<Rightarrow> bool \<Rightarrow> go_error + url" where
  "bundleURL url_parse target gc =
     (case url_parse target of
        Inl e \<Rightarrow> Inl (Wrapf (Fmt ''invalid target URL %q'' [FS target]) e)
      | Inr u \<Rightarrow>
          if ur_scheme u \<noteq> ''http'' \<and> ur_scheme u \<noteq> ''https'' then
            Inl (Errorf (Fmt ''target URL %q must use http or https'' [FS target]))
          else
            let path = trim_right_slashes (ur_path u)
            in Inr (u\<lparr>ur_path := (if has_suffix path bundlePath then path else path @ bundlePath),
                 ur_query := AList.update ''gc'' [if gc then ''1'' else ''0''] (ur_query u)\<rparr>))"

record http_reply =
  hp_code :: int
  hp_status :: string
  hp_body :: source

record http_env =
  he_parse :: "string \<Rightarrow> go_error + url"
  he_request :: "url \<Rightarrow> go_error option"
  he_do :: "url \<Rightarrow> go_error + http_reply"

text \<open>The body of a response is among the open files, under the target that was asked for it.\<close>

definition fetchBundle :: "http_env \<Rightarrow> string \<Rightarrow> bool \<Rightarrow> (source \<times> string) capture_run" where
  "fetchBundle env target gc =
     (case bundleURL (he_parse env) target gc of
        Inl e \<Rightarrow> sx_fail e
      | Inr u \<Rightarrow>
          (case he_request env u of
             Some e \<Rightarrow> sx_fail e
           | None \<Rightarrow>
               (case he_do env u of
                  Inl e \<Rightarrow> sx_fail e
                | Inr reply \<Rightarrow>
                    sx_bind (sx_do (open_file target)) (\<lambda>_.
                    if hp_code reply \<noteq> 200 then
                      sx_defer (close_file target)
                        (sx_fail (Errorf (Fmt ''target returned %s: %s'' [FS (hp_status reply),
                          FS (trim_space (string_of_bytes (take 4096 (sc_bytes (hp_body reply)))))])))
                    else sx_return (hp_body reply, ur_host u)))))"

section \<open>The command\<close>

record fetch_options =
  fo_out :: string
  fo_gc :: bool
  fo_max_bytes :: i64
  fo_timeout :: int

record fetch_env =
  ft_http :: http_env
  ft_spool :: spool_env
  ft_staged_close :: "go_error option"
  ft_rename :: "go_error option"
  ft_stdout :: "go_error option"
  ft_unix :: int

text \<open>The exit code, the bytes of a standard output that was written in full, and the disk.\<close>

definition fetch_staged ::
  "fetch_env \<Rightarrow> string \<Rightarrow> string \<Rightarrow> disk \<Rightarrow> int \<times> byte list option \<times> disk"
where
  "fetch_staged env name staged d =
     (let finish = (\<lambda>d. snd (os_remove (sp_temp (ft_spool env)) staged d))
      in if name = ''-'' then
           (case ft_stdout env of
              Some e \<Rightarrow> (2, None, finish d)
            | None \<Rightarrow> (0, d staged, finish d))
         else
           (case ft_staged_close env of
              Some e \<Rightarrow> (2, None, finish d)
            | None \<Rightarrow>
                (case os_rename (ft_rename env) staged name d of
                   (Some e, d') \<Rightarrow> (2, None, finish d')
                 | (None, d') \<Rightarrow> (0, None, finish d'))))"

definition fetch_name :: "fetch_env \<Rightarrow> fetch_options \<Rightarrow> string \<Rightarrow> string" where
  "fetch_name env opts host = (if fo_out opts = [] then ''bubblepprof-'' @ host @ ''-'' @ format_int (ft_unix env) @ ''.tar'' else fo_out opts)"

definition runFetch ::
  "fetch_env \<Rightarrow> bundle_meta json_decoder \<Rightarrow> segment_info list json_decoder \<Rightarrow> fetch_options \<Rightarrow> string \<Rightarrow>
    resources \<times> disk \<Rightarrow> int \<times> byte list option \<times> resources \<times> disk"
where
  "runFetch env dm di opts target w =
     (if fo_max_bytes opts <s 0 \<or> fo_timeout opts \<le> 0 then (1, None, w)
      else
        case w of (rs, d) \<Rightarrow>
        case fetchBundle (ft_http env) target (fo_gc opts) rs of
          (Inl e, rs1) \<Rightarrow> (2, None, rs1, d)
        | (Inr (body, host), rs1) \<Rightarrow>
            let name = fetch_name env opts host
            in (case (case stageDownload (ft_spool env) dm di body (fo_max_bytes opts) d of
                        (Inl e, d') \<Rightarrow> (2, None, d')
                      | (Inr staged, d') \<Rightarrow> fetch_staged env name staged d') of
                  (code, out, d2) \<Rightarrow> (code, out, close_file target rs1, d2)))"

section \<open>What a download leaves\<close>

lemma spool_copy_complete:
  assumes "spool_copy w src n = (bytes, None)"
  shows "bytes = sc_bytes src" "sc_end src = EOF" "n \<noteq> 0 \<Longrightarrow> 0 \<le> sint n \<Longrightarrow> int (length bytes) \<le> sint n"
  using assms by (auto simp: spool_copy_def Let_def end_error_def split: if_splits option.splits)

text \<open>The spool is a new file that can be removed.\<close>

lemma os_remove_new: "te_remove_error env = None \<Longrightarrow> d name = None \<Longrightarrow> snd (os_remove env name (d(name \<mapsto> bytes))) = d"
  by (auto simp: os_remove_def fun_upd_idem)

definition spool_ok :: "temp_env \<Rightarrow> disk \<Rightarrow> bool" where
  "spool_ok env d \<longleftrightarrow> te_remove_error env = None \<and> (\<forall>name. te_create env = Inr name \<longrightarrow> d name = None)"

lemma stage_error:
  assumes ok: "spool_ok (sp_temp env) d" and run: "stageDownload env dm di src n d = (Inl e, d')"
  shows "d' = d"
  using run ok os_remove_new [of "sp_temp env" d]
  by (auto simp: stageDownload_def spool_ok_def spool_fail_def Let_def split: sum.splits if_splits prod.splits option.splits)

lemma stage_ok:
  assumes "stageDownload env dm di src n d = (Inr name, d')"
  shows "te_create (sp_temp env) = Inr name" "d' = d(name \<mapsto> sc_bytes src)" "sc_end src = EOF"
    "ValidateArchive dm di (sp_stream env (sc_bytes src)) = None" "0 \<le> sint n"
    "n \<noteq> 0 \<Longrightarrow> int (length (sc_bytes src)) \<le> sint n"
proof -
  from assms obtain bytes where copy: "spool_copy (te_copy_error (sp_temp env)) src n = (bytes, None)"
    and r: "te_create (sp_temp env) = Inr name" "d' = d(name \<mapsto> bytes)" "\<not> n <s 0"
      "ValidateArchive dm di (sp_stream env bytes) = None"
    by (auto simp: stageDownload_def spool_fail_def Let_def split: sum.splits if_splits prod.splits option.splits)
  show "0 \<le> sint n" using r(3) by (simp add: word_sless_alt)
  with r spool_copy_complete [OF copy]
  show "te_create (sp_temp env) = Inr name" "d' = d(name \<mapsto> sc_bytes src)" "sc_end src = EOF"
    "ValidateArchive dm di (sp_stream env (sc_bytes src)) = None"
    "n \<noteq> 0 \<Longrightarrow> int (length (sc_bytes src)) \<le> sint n" by auto
qed

text \<open>The destination is not the spool, and both outcomes of a download follow.\<close>

lemma fetch_staged_disk:
  assumes ok: "te_remove_error (sp_temp (ft_spool env)) = None" and new: "d name = None" and other: "dest \<noteq> name"
    and run: "fetch_staged env dest name (d(name \<mapsto> bytes)) = (code, out, d')"
  shows "code = 0 \<and> dest = ''-'' \<and> out = Some bytes \<and> d' = d \<or>
    code = 0 \<and> dest \<noteq> ''-'' \<and> out = None \<and> d' = d(dest \<mapsto> bytes) \<or> code = 2 \<and> out = None \<and> d' = d"
  using run ok new other os_remove_new [where d = d and name = name, OF ok new]
  by (auto simp: fetch_staged_def os_rename_def os_remove_def Let_def fun_upd_idem fun_upd_twist
      split: if_splits option.splits prod.splits)

definition fetched :: "fetch_env \<Rightarrow> bundle_meta json_decoder \<Rightarrow> segment_info list json_decoder \<Rightarrow> fetch_options \<Rightarrow> source \<Rightarrow> bool" where
  "fetched env dm di opts body \<longleftrightarrow>
     sc_end body = EOF \<and> ValidateArchive dm di (sp_stream (ft_spool env) (sc_bytes body)) = None \<and>
     (fo_max_bytes opts \<noteq> 0 \<longrightarrow> int (length (sc_bytes body)) \<le> sint (fo_max_bytes opts))"

text \<open>An error leaves no body open.\<close>

lemma fetchBundle_open:
  "fetchBundle env target gc rs = (r, rs1) \<Longrightarrow> rs1 = (case r of Inl e \<Rightarrow> rs | Inr _ \<Rightarrow> open_file target rs)"
  by (auto simp: fetchBundle_def sx_defs split: sum.splits option.splits if_splits)

lemma fetch_is_atomic:
  assumes ok: "spool_ok (sp_temp (ft_spool env)) d"
    and other: "\<And>host. te_create (sp_temp (ft_spool env)) \<noteq> Inr (fetch_name env opts host)"
    and run: "runFetch env dm di opts target (rs, d) = (code, out, rs', d')"
  shows "rs' = rs \<and>
    ((\<exists>body host. fst (fetchBundle (ft_http env) target (fo_gc opts) rs) = Inr (body, host) \<and> fetched env dm di opts body \<and>
      code = 0 \<and>
      (if fetch_name env opts host = ''-'' then out = Some (sc_bytes body) \<and> d' = d
       else out = None \<and> d' = d(fetch_name env opts host \<mapsto> sc_bytes body))) \<or>
    (code \<in> {1, 2} \<and> out = None \<and> d' = d))"
proof -
  obtain r rs1 where fetch: "fetchBundle (ft_http env) target (fo_gc opts) rs = (r, rs1)"
    by (cases "fetchBundle (ft_http env) target (fo_gc opts) rs")
  note body = fetchBundle_open [OF fetch]
  show ?thesis
  proof (cases "(fo_max_bytes opts <s 0 \<or> fo_timeout opts \<le> 0) \<or> isl r")
    case True
    with run fetch body show ?thesis by (auto simp: runFetch_def isl_def split: if_splits)
  next
    case False
    then obtain src host where r: "r = Inr (src, host)"
      and valid: "\<not> (fo_max_bytes opts <s 0 \<or> fo_timeout opts \<le> 0)"
      by (cases r) auto
    have rs1: "close_file target rs1 = rs" using body by (simp add: r)
    obtain staged d1 where stage: "stageDownload (ft_spool env) dm di src (fo_max_bytes opts) d = (staged, d1)" by fastforce
    show ?thesis
    proof (cases staged)
      case (Inl e)
      with run fetch r valid stage stage_error [OF ok] rs1 show ?thesis by (auto simp: runFetch_def Let_def)
    next
      case (Inr name)
      note staged = stage_ok [OF stage [unfolded Inr]]
      have new: "d name = None" "fetch_name env opts host \<noteq> name" using ok staged(1) other by (auto simp: spool_ok_def)
      obtain c1 o1 d2 where out: "fetch_staged env (fetch_name env opts host) name (d(name \<mapsto> sc_bytes src)) = (c1, o1, d2)"
        by (metis surj_pair)
      have res: "code = c1" "out = o1" "d' = d2" "rs' = rs"
        using run fetch r valid stage Inr staged(2) out rs1 by (simp_all add: runFetch_def Let_def)
      from fetch_staged_disk [OF _ new out] ok fetch r staged show ?thesis
        by (auto simp: spool_ok_def fetched_def res)
    qed
  qed
qed

lemma save_is_atomic:
  assumes ok: "spool_ok env d" and other: "te_create env \<noteq> Inr dest"
    and run: "saveDownload env rename dest src d = (r, d')"
  shows "r = None \<and> sc_end src = EOF \<and> d' = d(dest \<mapsto> sc_bytes src) \<or> r \<noteq> None \<and> d' = d"
  using run ok other os_remove_new [of env d]
  by (auto simp: saveDownload_def spool_ok_def os_rename_def os_remove_def join_errors_def end_error_def Let_def fun_upd_idem
      fun_upd_twist split: sum.splits if_splits prod.splits option.splits)

text \<open>The URL that is asked for ends in the path of the endpoint, once.\<close>

lemma bundleURL_path:
  assumes "bundleURL p target gc = Inr u"
  shows "has_suffix (ur_path u) bundlePath" "ur_scheme u \<in> {''http'', ''https''}"
    "map_of (ur_query u) ''gc'' = Some [if gc then ''1'' else ''0'']"
  using assms by (auto simp: bundleURL_def Let_def has_suffix_def update_conv' split: sum.splits if_splits)

end
