(* ===== verification/Cli.thy ===== *)
theory Cli
  imports CliFlags Download OfflineDiff MemBubbles MemExplain MemExport
begin

text \<open>
  The analyser's commands (\<open>internal/cli\<close>): the flags of each, the checks before anything is opened,
  the bundle that is opened from a file or fetched, the analysis of the session, and the exit code.
  A command answers with its code and the value that it prints; the printing itself, as JSON or
  text, is not modelled, nor are the messages on the standard error.
\<close>

section \<open>The values of the flags\<close>

text \<open>One record for all commands; a command reads the fields of its flags.\<close>

record cli_values =
  cf_labels :: labels_flag
  cf_a :: labels_flag
  cf_b :: labels_flag
  cf_by :: string
  cf_sort :: string
  cf_object :: string
  cf_queries :: string
  cf_format :: string
  cf_mode :: string
  cf_output :: string
  cf_include :: bool
  cf_gc :: bool
  cf_max :: u64
  cf_timeout :: int
  cf_limit :: int
  cf_group_limit :: int
  cf_top :: int
  cf_path_objects :: int
  cf_max_paths :: int
  cf_max_steps :: int
  cf_max_visited :: int
  cf_depth :: int
  cf_max_bytes :: i64

definition DefaultPprofPathDepth :: int where "DefaultPprofPathDepth = 64"

definition five_minutes :: int where "five_minutes = 5 * 60 * 10 ^ 9"

definition zero_values :: cli_values where
  "zero_values =
     \<lparr>cf_labels = [], cf_a = [], cf_b = [], cf_by = [], cf_sort = [], cf_object = [], cf_queries = [], cf_format = ''text'',
      cf_mode = ''summary'', cf_output = [], cf_include = False, cf_gc = True, cf_max = 0, cf_timeout = five_minutes,
      cf_limit = 0, cf_group_limit = 20, cf_top = 0, cf_path_objects = 0, cf_max_paths = 0, cf_max_steps = 0,
      cf_max_visited = 0, cf_depth = DefaultPprofPathDepth, cf_max_bytes = 0\<rparr>"

text \<open>The conversions of \<open>strconv\<close> and \<open>time.ParseDuration\<close> that package \<open>flag\<close> calls.\<close>

record flag_values =
  fv_bool :: "string \<Rightarrow> go_error + bool"
  fv_int :: "string \<Rightarrow> go_error + int"
  fv_int64 :: "string \<Rightarrow> go_error + i64"
  fv_uint64 :: "string \<Rightarrow> go_error + u64"
  fv_duration :: "string \<Rightarrow> go_error + int"

definition value_flag :: "bool \<Rightarrow> (string \<Rightarrow> go_error + 'v) \<Rightarrow> ('v \<Rightarrow> 's \<Rightarrow> 's) \<Rightarrow> 's go_flag" where
  "value_flag is_bool conv upd = \<lparr>fg_bool = is_bool, fg_set = (\<lambda>v st. map_sum id (\<lambda>x. upd x st) (conv v))\<rparr>"

definition string_flag :: "(string \<Rightarrow> 's \<Rightarrow> 's) \<Rightarrow> 's go_flag" where
  "string_flag upd = value_flag False Inr upd"

definition selector_flag :: "('s \<Rightarrow> labels_flag) \<Rightarrow> (labels_flag \<Rightarrow> 's \<Rightarrow> 's) \<Rightarrow> 's go_flag" where
  "selector_flag get upd = \<lparr>fg_bool = False, fg_set = (\<lambda>v st. map_sum id (\<lambda>f. upd f st) (setLabels v (get st)))\<rparr>"

definition exact_label_flag :: "('s \<Rightarrow> labels_flag) \<Rightarrow> (labels_flag \<Rightarrow> 's \<Rightarrow> 's) \<Rightarrow> 's go_flag" where
  "exact_label_flag get upd = \<lparr>fg_bool = False, fg_set = (\<lambda>v st. map_sum id (\<lambda>f. upd f st) (setOne v (get st)))\<rparr>"

definition int_flag :: "flag_values \<Rightarrow> (int \<Rightarrow> cli_values \<Rightarrow> cli_values) \<Rightarrow> cli_values go_flag" where
  "int_flag fv upd = value_flag False (fv_int fv) upd"

definition shared_flags :: "flag_values \<Rightarrow> cli_values flag_set" where
  "shared_flags fv =
     [(''include-system'', value_flag True (fv_bool fv) (\<lambda>x. cf_include_update (\<lambda>_. x))),
      (''max-mem-range-bytes'', value_flag False (fv_uint64 fv) (\<lambda>x. cf_max_update (\<lambda>_. x))),
      (''format'', string_flag (\<lambda>x. cf_format_update (\<lambda>_. x)))]"

definition source_flags :: "flag_values \<Rightarrow> cli_values flag_set" where
  "source_flags fv =
     [(''gc'', value_flag True (fv_bool fv) (\<lambda>x. cf_gc_update (\<lambda>_. x))),
      (''timeout'', value_flag False (fv_duration fv) (\<lambda>x. cf_timeout_update (\<lambda>_. x)))]"

definition selector_flags :: "cli_values flag_set" where
  "selector_flags =
     [(''labels'', selector_flag cf_labels (\<lambda>x. cf_labels_update (\<lambda>_. x))),
      (''label'', exact_label_flag cf_labels (\<lambda>x. cf_labels_update (\<lambda>_. x)))]"

definition pair_flags :: "cli_values flag_set" where
  "pair_flags =
     [(''a'', selector_flag cf_a (\<lambda>x. cf_a_update (\<lambda>_. x))), (''b'', selector_flag cf_b (\<lambda>x. cf_b_update (\<lambda>_. x))),
      (''a-label'', exact_label_flag cf_a (\<lambda>x. cf_a_update (\<lambda>_. x))),
      (''b-label'', exact_label_flag cf_b (\<lambda>x. cf_b_update (\<lambda>_. x)))]"

definition by_flag :: "cli_values flag_set" where
  "by_flag = [(''by'', string_flag (\<lambda>x. cf_by_update (\<lambda>_. x)))]"

section \<open>The environment and the state of a command\<close>

datatype cli_result =
    QueryResult mem_response
  | BubblesResult "bubble list"
  | TopResult top_result
  | CompareResult comparison
  | SharedResult shared_result
  | ExclusiveResult exclusive_result
  | ObjectsResult objects_result
  | ExplainResult object_explanation
  | ExplainTopResult aggregate_explanation
  | InspectResult "string list"
  | ExploreResult "(string \<times> string \<times> u64 list) list" "(error_body + mem_response) list"
  | DiffResult diff_result
  | ExportResult bundle_meta export_report
  | PprofResult pprof_profile "int option"

text \<open>A report on a session comes with the metadata of its capture and of the session.\<close>

datatype cli_output =
    Silent
  | ErrorReport error_body
  | Report cli_result
  | SessionReport bundle_meta session_metadata cli_result
  | Spooled "byte list"

definition exitOK :: int where "exitOK = 0"
definition exitUsage :: int where "exitUsage = 1"
definition exitFailure :: int where "exitFailure = 2"

text \<open>
  \<open>cl_file\<close> opens a bundle file, \<open>cl_close\<close> is the error of closing the source, \<open>cl_stream\<close> is
  \<open>archive/tar\<close>. \<open>cl_queries\<close> reads and decodes the file of requests: \<open>None\<close> when it cannot be opened.
  \<open>cl_time\<close> is \<open>time.Parse\<close> with the nano layout for the first and the plain one for the second argument.
\<close>

record cli_env =
  cl_values :: flag_values
  cl_fetch :: fetch_env
  cl_file :: "string \<Rightarrow> go_error + source"
  cl_close :: "string \<Rightarrow> go_error option"
  cl_stream :: "source \<Rightarrow> tar_stream"
  cl_temp :: temp_env
  cl_meta :: "bundle_meta json_decoder"
  cl_infos :: "segment_info list json_decoder"
  cl_marshal :: marshal_labels
  cl_queries :: "string \<Rightarrow> (go_error + mem_request list) option"
  cl_check :: profile_check
  cl_quote :: "string \<Rightarrow> string"
  cl_time :: "string \<Rightarrow> string \<Rightarrow> int option"
  cl_create :: "string \<Rightarrow> go_error option"
  cl_written :: "cli_result \<Rightarrow> byte list \<times> go_error option"

type_synonym cli_world = "resources \<times> disk"
type_synonym 'a command = "cli_world \<Rightarrow> 'a \<times> cli_world"

definition base_options :: mem_options where
  "base_options = \<lparr>mo_scratch_dir = [], mo_min_free_bytes = 0, mo_max_dump_bytes = 0, mo_keep_provenance = False,
     mo_gc_before = False, mo_include_system = False, mo_disable_process_reader = False, mo_max_mem_range = 0,
     mo_max_labels = 0, mo_max_key_bytes = 0, mo_max_value_bytes = 0\<rparr>"

definition options_of :: "cli_values \<Rightarrow> mem_options" where
  "options_of v = base_options\<lparr>mo_include_system := cf_include v, mo_max_mem_range := cf_max v\<rparr>"

section \<open>Opening a bundle\<close>

definition ascii_lower :: "char \<Rightarrow> char" where
  "ascii_lower c = (let n = of_char c :: nat in if 65 \<le> n \<and> n \<le> 90 then char_of (n + 32) else c)"

text \<open>A source that was opened, a file or the body of a response, is held under the argument until it is closed.\<close>

definition openBundleSource :: "cli_env \<Rightarrow> string \<Rightarrow> bool \<Rightarrow> source capture_run" where
  "openBundleSource env arg gc =
     (let lower = map ascii_lower arg
      in if \<not> has_prefix lower ''http://'' \<and> \<not> has_prefix lower ''https://'' then
           (case cl_file env arg of
              Inl e \<Rightarrow> sx_fail e
            | Inr src \<Rightarrow> sx_bind (sx_do (open_file arg)) (\<lambda>_. sx_return src))
         else sx_bind (fetchBundle (ft_http (cl_fetch env)) arg gc) (\<lambda>(body, host). sx_return body))"

definition no_limits :: reader_options where
  "no_limits = \<lparr>rdo_max_profile = 0, rdo_max_rodata = 0, rdo_max_metadata = 0, rdo_max_index = 0\<rparr>"

text \<open>The source is closed as soon as the bundle is open, or is not.\<close>

definition loadBundle ::
  "cli_env \<Rightarrow> string \<Rightarrow> bool \<Rightarrow> cli_world \<Rightarrow> (go_error + capture_bundle) \<times> cli_world"
where
  "loadBundle env target gc w =
     (case w of (rs, d) \<Rightarrow>
      case openBundleSource env target gc rs of
        (Inl e, rs1) \<Rightarrow> (Inl e, rs1, d)
      | (Inr src, rs1) \<Rightarrow>
          (case bundle_open (cl_temp env) (cl_meta env) (cl_infos env) no_limits (cl_stream env src) d of
             (opened, d1) \<Rightarrow>
               let rs2 = close_file target rs1; close_error = cl_close env target
               in (case opened of
                     Inl e \<Rightarrow> (Inl e, rs2, d1)
                   | Inr b \<Rightarrow>
                       (case close_error of
                          None \<Rightarrow> (Inr b, rs2, d1)
                        | Some e \<Rightarrow>
                            (Inl (Wrapf (Fmt ''close bundle source'' []) e), rs2,
                             snd (snd (bundle_close (cl_temp env) (Some b) d1)))))))"

text \<open>A command over an open bundle: what it does, and \<open>Close\<close> at the end.\<close>

definition with_bundle ::
  "cli_env \<Rightarrow> string \<Rightarrow> bool \<Rightarrow> (disk \<Rightarrow> capture_bundle \<Rightarrow> resources \<Rightarrow> (int \<times> cli_output) \<times> resources) \<Rightarrow>
    (int \<times> cli_output) command"
where
  "with_bundle env target gc body w =
     (case loadBundle env target gc w of
        (Inl e, w1) \<Rightarrow> ((exitFailure, Silent), w1)
      | (Inr b, rs1, d1) \<Rightarrow>
          (case body d1 b rs1 of (out, rs2) \<Rightarrow>
             (out, rs2, snd (snd (bundle_close (cl_temp env) (Some b) d1)))))"

definition failed :: "mem_error \<Rightarrow> int \<times> cli_output" where
  "failed e = (exitFailure, ErrorReport (snd (error_response_for e)))"

definition with_session ::
  "mem_options \<Rightarrow> (offline_snapshot \<Rightarrow> mem_error + int \<times> cli_output) \<Rightarrow> disk \<Rightarrow> capture_bundle \<Rightarrow> resources \<Rightarrow>
    (int \<times> cli_output) \<times> resources"
where
  "with_session opts act d b rs =
     (case load_bundle d b opts (rs\<lparr>rs_ctx := Background\<rparr>) of
        (Inl e, rs1) \<Rightarrow> (failed e, rs1)
      | (Inr s, rs1) \<Rightarrow> ((case act s of Inl e \<Rightarrow> failed e | Inr out \<Rightarrow> out), rs1))"

text \<open>An operation of the session with \<open>context.Background\<close>.\<close>

definition session_report :: "offline_snapshot \<Rightarrow> cli_result \<Rightarrow> cli_output" where
  "session_report s r = SessionReport (of_capture s) (ss_metadata (of_session s)) r"

definition in_background ::
  "offline_snapshot \<Rightarrow> ('a \<Rightarrow> cli_result) \<Rightarrow> (mem_error, ctx, 'a) run \<Rightarrow> mem_error + int \<times> cli_output"
where
  "in_background s mk m = map_sum id (\<lambda>(x, c). (exitOK, session_report s (mk x))) (m Background)"

definition select :: "labels_flag \<Rightarrow> mem_request" where "select f = \<lparr>rq_labels = f\<rparr>"

definition valid_selector :: "mem_options \<Rightarrow> labels_flag \<Rightarrow> bool" where
  "valid_selector opts f \<longleftrightarrow> validate_request (Some (select f)) opts = None"

definition valid_format :: "cli_values \<Rightarrow> bool" where
  "valid_format v \<longleftrightarrow> cf_format v = ''text'' \<or> cf_format v = ''json''"

text \<open>The common frame of a command: help is not an error, a bad command line is a usage error.\<close>

definition with_flags ::
  "cli_values flag_set \<Rightarrow> cli_values \<Rightarrow> string list \<Rightarrow> (string \<Rightarrow> cli_values \<Rightarrow> string list \<Rightarrow> (int \<times> cli_output) command) \<Rightarrow>
    (int \<times> cli_output) command"
where
  "with_flags flags start args act w =
     (case parseWithOneArg flags args start of
        Inl ErrHelp \<Rightarrow> ((exitOK, Silent), w)
      | Inl (FlagError _) \<Rightarrow> ((exitUsage, Silent), w)
      | Inr (target, v, seen) \<Rightarrow> act target v seen w)"

definition usage_error :: "(int \<times> cli_output) command" where
  "usage_error w = ((exitUsage, Silent), w)"

section \<open>The commands\<close>

text \<open>\<open>memusage\<close> and \<open>query\<close>.\<close>

definition memusage_query :: "labels_flag \<Rightarrow> offline_snapshot \<Rightarrow> mem_error + int \<times> cli_output" where
  "memusage_query f s =
     map_sum id (\<lambda>(resp, c). (exitOK, Report (QueryResult resp))) (fst (query (select f) (of_session s) Background))"

definition runMemUsage :: "cli_env \<Rightarrow> string list \<Rightarrow> (int \<times> cli_output) command" where
  "runMemUsage env args =
     with_flags (selector_flags @ shared_flags (cl_values env) @ source_flags (cl_values env))
       (zero_values\<lparr>cf_format := ''json''\<rparr>) args
       (\<lambda>target v seen.
          if cf_labels v = [] \<or> \<not> valid_format v then usage_error
          else with_bundle env target (cf_gc v) (with_session (options_of v) (memusage_query (cf_labels v))))"

text \<open>\<open>bubbles\<close> and \<open>labels\<close>: the dump is listed without a session.\<close>

definition list_bundle_bubbles ::
  "cli_env \<Rightarrow> mem_options \<Rightarrow> disk \<Rightarrow> capture_bundle \<Rightarrow> resources \<Rightarrow> (int \<times> cli_output) \<times> resources"
where
  "list_bundle_bubbles env opts d b rs =
     (case disk_source d (bun_dump_path b) of
        Inl e \<Rightarrow> (failed (OtherError (Wrapf (Fmt ''open heap dump'' []) e)), rs)
      | Inr src \<Rightarrow>
          (let rs1 = open_file (bun_dump_path b) rs;
               listed = list_bubbles (cl_marshal env) src (segment_reader_of (bun_segments b))
                   (map text_message (bun_warnings b)) opts Background
           in ((case listed of Inl e \<Rightarrow> failed e | Inr (bs, _) \<Rightarrow> (exitOK, Report (BubblesResult bs))),
               close_file (bun_dump_path b) rs1)))"

definition runBubbles :: "cli_env \<Rightarrow> string list \<Rightarrow> (int \<times> cli_output) command" where
  "runBubbles env args =
     with_flags (shared_flags (cl_values env) @ source_flags (cl_values env)) (zero_values\<lparr>cf_format := ''json''\<rparr>) args
       (\<lambda>target v seen.
          if \<not> valid_format v then usage_error
          else with_bundle env target (cf_gc v) (list_bundle_bubbles env (options_of v)))"

definition runInspect :: "cli_env \<Rightarrow> string list \<Rightarrow> (int \<times> cli_output) command" where
  "runInspect env args =
     with_flags (filter (\<lambda>f. fst f \<noteq> ''include-system'') (shared_flags (cl_values env)) @ source_flags (cl_values env))
       zero_values args
       (\<lambda>target v seen.
          if \<not> valid_format v then usage_error
          else with_bundle env target (cf_gc v)
            (with_session (options_of v) (\<lambda>s. Inr (exitOK, session_report s (InspectResult (label_keys (of_session s)))))))"

text \<open>\<open>top\<close>, \<open>compare\<close>, \<open>shared\<close> and \<open>exclusive\<close>.\<close>

definition multi_flags :: "flag_values \<Rightarrow> string \<Rightarrow> cli_values flag_set" where
  "multi_flags fv command =
     shared_flags fv @ source_flags fv @
     (if command = ''top'' then
        by_flag @ [(''sort'', string_flag (\<lambda>x. cf_sort_update (\<lambda>_. x))), (''limit'', int_flag fv (\<lambda>x. cf_limit_update (\<lambda>_. x)))]
      else if command = ''compare'' then pair_flags
      else if command = ''shared'' then pair_flags @ [(''limit'', int_flag fv (\<lambda>x. cf_limit_update (\<lambda>_. x)))]
      else if command = ''exclusive'' then selector_flags
      else [])"

definition multi_start :: "string \<Rightarrow> cli_values" where
  "multi_start command =
     zero_values\<lparr>cf_sort := (if command = ''top'' then ''reachable'' else []),
       cf_limit := (if command = ''shared'' then 20 else 0)\<rparr>"

definition multi_valid :: "string \<Rightarrow> cli_values \<Rightarrow> bool" where
  "multi_valid command v \<longleftrightarrow>
     valid_format v \<and> 0 \<le> cf_limit v \<and>
     (if command = ''top'' then cf_by v \<noteq> [] \<and> cf_sort v \<in> {''reachable'', ''exclusive'', ''shared''}
      else if command = ''exclusive'' then valid_selector (options_of v) (cf_labels v)
      else valid_selector (options_of v) (cf_a v) \<and> valid_selector (options_of v) (cf_b v))"

definition multi_result :: "string \<Rightarrow> cli_values \<Rightarrow> offline_snapshot \<Rightarrow> mem_error + int \<times> cli_output" where
  "multi_result command v s =
     (let ss = of_session s
      in if command = ''top'' then
           in_background s TopResult (top_groups ss \<lparr>to_by = cf_by v, to_sort = cf_sort v, to_limit = cf_limit v\<rparr>)
         else if command = ''compare'' then in_background s CompareResult (compare_selections ss (select (cf_a v)) (select (cf_b v)))
         else if command = ''shared'' then
           in_background s SharedResult (shared_objects ss (select (cf_a v)) (select (cf_b v)) (cf_limit v))
         else in_background s ExclusiveResult (exclusive_of ss (select (cf_labels v))))"

definition runMultiBubble :: "cli_env \<Rightarrow> string \<Rightarrow> string list \<Rightarrow> (int \<times> cli_output) command" where
  "runMultiBubble env command args =
     with_flags (multi_flags (cl_values env) command) (multi_start command) args
       (\<lambda>target v seen.
          if \<not> multi_valid command v then usage_error
          else with_bundle env target (cf_gc v) (with_session (options_of v) (multi_result command v)))"

text \<open>\<open>objects\<close> and \<open>explain\<close>.\<close>

definition inspection_flags :: "flag_values \<Rightarrow> string \<Rightarrow> cli_values flag_set" where
  "inspection_flags fv command =
     selector_flags @ by_flag @ [(''group-limit'', int_flag fv (\<lambda>x. cf_group_limit_update (\<lambda>_. x)))] @
     shared_flags fv @ source_flags fv @
     (if command = ''objects'' then
        [(''limit'', int_flag fv (\<lambda>x. cf_limit_update (\<lambda>_. x))), (''sort'', string_flag (\<lambda>x. cf_sort_update (\<lambda>_. x)))]
      else if command = ''explain'' then
        pair_flags @
        [(''object'', string_flag (\<lambda>x. cf_object_update (\<lambda>_. x))),
         (''top'', int_flag fv (\<lambda>x. cf_top_update (\<lambda>_. x))),
         (''path-objects'', int_flag fv (\<lambda>x. cf_path_objects_update (\<lambda>_. x))),
         (''max-paths'', int_flag fv (\<lambda>x. cf_max_paths_update (\<lambda>_. x))),
         (''max-steps'', int_flag fv (\<lambda>x. cf_max_steps_update (\<lambda>_. x))),
         (''max-visited'', int_flag fv (\<lambda>x. cf_max_visited_update (\<lambda>_. x)))]
      else [])"

definition inspection_start :: "string \<Rightarrow> cli_values" where
  "inspection_start command =
     (if command = ''objects'' then zero_values\<lparr>cf_limit := 20, cf_sort := ''size''\<rparr>
      else if command = ''explain'' then
        zero_values\<lparr>cf_top := 20, cf_path_objects := 3, cf_max_paths := 6, cf_max_steps := 64\<rparr>
      else zero_values)"

definition selectors_of :: "cli_values \<Rightarrow> mem_request list" where
  "selectors_of v = map select (filter (\<lambda>f. f \<noteq> []) [cf_labels v, cf_a v, cf_b v])"

definition inspection_options :: "cli_values \<Rightarrow> mem_options" where
  "inspection_options v = (options_of v)\<lparr>mo_keep_provenance := True\<rparr>"

definition object_address :: "flag_values \<Rightarrow> cli_values \<Rightarrow> string list \<Rightarrow> u64 option" where
  "object_address fv v seen =
     (if ''top'' \<in> set seen \<or> ''path-objects'' \<in> set seen then None
      else case fv_uint64 fv (cf_object v) of Inl _ \<Rightarrow> None | Inr a \<Rightarrow> Some a)"

definition inspection_valid :: "flag_values \<Rightarrow> string \<Rightarrow> cli_values \<Rightarrow> string list \<Rightarrow> bool" where
  "inspection_valid fv command v seen \<longleftrightarrow>
     valid_format v \<and> selectors_of v \<noteq> [] \<and>
     0 \<le> cf_group_limit v \<and> 0 \<le> cf_limit v \<and> 0 \<le> cf_path_objects v \<and> 0 \<le> cf_max_paths v \<and> 0 \<le> cf_max_steps v \<and>
     0 \<le> cf_max_visited v \<and>
     (command = ''objects'' \<longrightarrow> cf_sort v \<in> {''size'', ''address''}) \<and>
     (command = ''explain'' \<and> cf_object v = [] \<longrightarrow> 0 < cf_top v \<and> length (selectors_of v) = 1) \<and>
     (cf_object v \<noteq> [] \<longrightarrow> object_address fv v seen \<noteq> None) \<and>
     list_all (\<lambda>r. validate_request (Some r) (inspection_options v) = None) (selectors_of v)"

definition explain_options_of :: "cli_values \<Rightarrow> explain_options" where
  "explain_options_of v = \<lparr>eo_by = cf_by v, eo_max_groups = cf_group_limit v, eo_max_paths = cf_max_paths v,
     eo_max_steps = cf_max_steps v, eo_max_visited = cf_max_visited v\<rparr>"

definition inspection_result ::
  "flag_values \<Rightarrow> string \<Rightarrow> cli_values \<Rightarrow> string list \<Rightarrow> offline_snapshot \<Rightarrow> mem_error + int \<times> cli_output"
where
  "inspection_result fv command v seen s =
     (let ss = of_session s; sels = selectors_of v
      in if command = ''objects'' then
           in_background s ObjectsResult (list_objects ss (hd sels)
             \<lparr>oo_sort = cf_sort v, oo_limit = cf_limit v, oo_by = cf_by v, oo_group_limit = cf_group_limit v\<rparr>)
         else if cf_object v \<noteq> [] then
           in_background s ExplainResult (explain ss (the (object_address fv v seen)) sels (explain_options_of v))
         else
           in_background s ExplainTopResult
             (explain_top ss (hd sels) (cf_top v) (cf_path_objects v) (explain_options_of v)))"

definition runInspection :: "cli_env \<Rightarrow> string \<Rightarrow> string list \<Rightarrow> (int \<times> cli_output) command" where
  "runInspection env command args =
     with_flags (inspection_flags (cl_values env) command) (inspection_start command) args
       (\<lambda>target v seen.
          if \<not> inspection_valid (cl_values env) command v seen then usage_error
          else with_bundle env target (cf_gc v)
            (with_session (inspection_options v) (inspection_result (cl_values env) command v seen)))"

text \<open>\<open>explore\<close>: the requests of a file on one session, whose cache goes from one to the next.\<close>

fun explore_queries :: "mem_request list \<Rightarrow> session \<Rightarrow> (error_body + mem_response) list" where
  "explore_queries [] s = []"
| "explore_queries (r # rs) s =
     (case query r s Background of (res, s') \<Rightarrow>
        map_sum (\<lambda>e. snd (error_response_for e)) fst res # explore_queries rs s')"

definition label_groups :: "session \<Rightarrow> (string \<times> string \<times> u64 list) list" where
  "label_groups s =
     concat (map (\<lambda>k. map (\<lambda>v. (k, v, goroutine_ids s k v)) (label_values s k)) (label_keys s))"

definition explore_result :: "mem_request list \<Rightarrow> offline_snapshot \<Rightarrow> mem_error + int \<times> cli_output" where
  "explore_result reqs s =
     (let results = explore_queries reqs (of_session s)
      in Inr (if list_ex isl results then exitFailure else exitOK,
          session_report s (ExploreResult (label_groups (of_session s)) results)))"

text \<open>The file of requests is closed after it was decoded, whatever it held.\<close>

definition read_queries :: "cli_env \<Rightarrow> string \<Rightarrow> resources \<Rightarrow> (go_error + mem_request list) option \<times> resources" where
  "read_queries env name rs =
     (case cl_queries env name of
        None \<Rightarrow> (None, rs)
      | Some decoded \<Rightarrow> (let rs1 = open_file name rs in (Some decoded, close_file name rs1)))"

definition runExplore :: "cli_env \<Rightarrow> string list \<Rightarrow> (int \<times> cli_output) command" where
  "runExplore env args =
     with_flags ((''queries'', string_flag (\<lambda>x. cf_queries_update (\<lambda>_. x))) #
         filter (\<lambda>f. fst f \<noteq> ''format'') (shared_flags (cl_values env))) zero_values args
       (\<lambda>target v seen w.
          if cf_queries v = [] then usage_error w
          else
            case w of (rs, d) \<Rightarrow>
            (case read_queries env (cf_queries v) rs of
               (None, rs1) \<Rightarrow> ((exitFailure, Silent), rs1, d)
             | (Some (Inl e), rs1) \<Rightarrow> usage_error (rs1, d)
             | (Some (Inr reqs), rs1) \<Rightarrow>
                 if list_ex (\<lambda>r. validate_request (Some r) (options_of v) \<noteq> None) reqs then usage_error (rs1, d)
                 else with_bundle env target True (with_session (options_of v) (explore_result reqs)) (rs1, d)))"

text \<open>\<open>diff\<close> opens two files, without fetching.\<close>

definition diff_valid :: "string list \<Rightarrow> cli_values \<Rightarrow> bool" where
  "diff_valid paths v \<longleftrightarrow>
     length paths = 2 \<and>
     (if cf_by v \<noteq> [] then 1 else 0) + (if cf_labels v \<noteq> [] then 1 else 0) +
       (if cf_a v \<noteq> [] \<or> cf_b v \<noteq> [] then 1 else 0) = (1 :: int) \<and>
     (cf_a v \<noteq> []) = (cf_b v \<noteq> []) \<and> valid_format v"

definition open_file_snapshot ::
  "cli_env \<Rightarrow> mem_options \<Rightarrow> string \<Rightarrow> cli_world \<Rightarrow> (mem_error + offline_snapshot) \<times> cli_world"
where
  "open_file_snapshot env opts path w =
     open_snapshot (\<lambda>p. map_sum id (cl_stream env) (cl_file env p)) (cl_temp env) (cl_meta env) (cl_infos env) path opts
       (case w of (rs, d) \<Rightarrow> (rs\<lparr>rs_ctx := Background\<rparr>, d))"

definition diff_files :: "cli_env \<Rightarrow> string \<Rightarrow> string \<Rightarrow> cli_values \<Rightarrow> (int \<times> cli_output) command" where
  "diff_files env p1 p2 v w =
     (case open_file_snapshot env (options_of v) p1 w of
        (Inl e, w1) \<Rightarrow> ((exitFailure, Silent), w1)
      | (Inr before, w1) \<Rightarrow>
          (case open_file_snapshot env (options_of v) p2 w1 of
             (Inl e, w2) \<Rightarrow> ((exitFailure, Silent), w2)
           | (Inr after, w2) \<Rightarrow>
               ((case offline_diff (cl_marshal env) before after
                     \<lparr>df_by = cf_by v, df_labels = cf_labels v, df_a = cf_a v, df_b = cf_b v\<rparr> Background of
                   Inl e \<Rightarrow> (exitFailure, Silent)
                 | Inr (r, _) \<Rightarrow> (exitOK, Report (DiffResult r))), w2)))"

definition runDiff :: "cli_env \<Rightarrow> string list \<Rightarrow> (int \<times> cli_output) command" where
  "runDiff env args w =
     (case with_args (by_flag @ shared_flags (cl_values env) @ selector_flags @ pair_flags) [] args zero_values [] of
        Inl ErrHelp \<Rightarrow> ((exitOK, Silent), w)
      | Inl (FlagError _) \<Rightarrow> ((exitUsage, Silent), w)
      | Inr (paths, v, _) \<Rightarrow>
          if \<not> diff_valid paths v then usage_error w
          else diff_files env (paths ! 0) (paths ! 1) v w)"

text \<open>\<open>export\<close>: the report is complete before the destination is opened.\<close>

definition export_valid :: "cli_values \<Rightarrow> string list \<Rightarrow> bool" where
  "export_valid v seen \<longleftrightarrow>
     valid_selector (options_of v) (cf_labels v) \<and> cf_format v \<in> {''pprof'', ''json''} \<and>
     cf_mode v \<in> {''summary'', ''paths''} \<and> \<not> (cf_depth v < 0 \<or> cf_depth v = 1) \<and>
     (''pprof-mode'' \<in> set seen \<longrightarrow> cf_format v = ''pprof'') \<and>
     (''max-path-depth'' \<in> set seen \<longrightarrow> cf_format v = ''pprof'' \<and> cf_mode v = ''paths'')"

definition export_options :: "cli_values \<Rightarrow> mem_options" where
  "export_options v = (options_of v)\<lparr>mo_keep_provenance := (cf_format v = ''pprof'' \<and> cf_mode v = ''paths'')\<rparr>"

definition export_result :: "cli_env \<Rightarrow> cli_values \<Rightarrow> offline_snapshot \<Rightarrow> mem_error + cli_result" where
  "export_result env v s =
     (let req = select (cf_labels v); ss = of_session s
      in if cf_format v = ''pprof'' then
           map_sum id (\<lambda>(p, c). PprofResult p (cl_time env (mt_dump_started (of_capture s)) (mt_created_at (of_capture s))))
             (export_pprof (cl_check env) (cl_quote env) ss req (cf_mode v)
                (if cf_mode v = ''paths'' then cf_depth v else 0) Background)
         else map_sum id (\<lambda>(r, c). ExportResult (of_capture s) r) (export_summary ss req Background))"

text \<open>\<open>cl_written\<close> is what reaches the file, and the error of writing or closing it.\<close>

definition write_export :: "cli_env \<Rightarrow> string \<Rightarrow> cli_result \<Rightarrow> (int \<times> cli_output) command" where
  "write_export env output r w =
     (case w of (rs, d) \<Rightarrow>
      case cl_written env r of (bytes, err) \<Rightarrow>
        if output = ''-'' then
          ((case err of Some e \<Rightarrow> (exitFailure, Silent) | None \<Rightarrow> (exitOK, Report r)), rs, d)
        else
          (case cl_create env output of
             Some e \<Rightarrow> ((exitFailure, Silent), rs, d)
           | None \<Rightarrow>
               (let rs1 = open_file output rs
                in ((case err of Some e \<Rightarrow> exitFailure | None \<Rightarrow> exitOK, Silent), close_file output rs1, d(output \<mapsto> bytes)))))"

definition runExport :: "cli_env \<Rightarrow> string list \<Rightarrow> (int \<times> cli_output) command" where
  "runExport env args =
     with_flags
       (shared_flags (cl_values env) @ selector_flags @
        [(''pprof-mode'', string_flag (\<lambda>x. cf_mode_update (\<lambda>_. x))),
         (''max-path-depth'', int_flag (cl_values env) (\<lambda>x. cf_depth_update (\<lambda>_. x))),
         (''o'', string_flag (\<lambda>x. cf_output_update (\<lambda>_. x)))])
       (zero_values\<lparr>cf_format := ''pprof'', cf_output := ''-''\<rparr>) args
       (\<lambda>target v seen.
          if \<not> export_valid v seen then usage_error
          else (\<lambda>w.
            case open_file_snapshot env (export_options v) target w of
              (Inl e, w1) \<Rightarrow> ((exitFailure, Silent), w1)
            | (Inr s, w1) \<Rightarrow>
                (case export_result env v s of
                   Inl e \<Rightarrow> ((exitFailure, Silent), w1)
                 | Inr r \<Rightarrow> write_export env (cf_output v) r w1)))"

text \<open>\<open>fetch\<close>, with the download of \<open>Download\<close>.\<close>

definition runFetchCommand :: "cli_env \<Rightarrow> string list \<Rightarrow> (int \<times> cli_output) command" where
  "runFetchCommand env args =
     with_flags
       ((''o'', string_flag (\<lambda>x. cf_output_update (\<lambda>_. x))) #
        (''max-bytes'', value_flag False (fv_int64 (cl_values env)) (\<lambda>x. cf_max_bytes_update (\<lambda>_. x))) #
        source_flags (cl_values env)) zero_values args
       (\<lambda>target v seen w.
          case runFetch (cl_fetch env) (cl_meta env) (cl_infos env)
              \<lparr>fo_out = cf_output v, fo_gc = cf_gc v, fo_max_bytes = cf_max_bytes v, fo_timeout = cf_timeout v\<rparr> target w of
            (code, out, w1) \<Rightarrow> ((code, case out of None \<Rightarrow> Silent | Some bytes \<Rightarrow> Spooled bytes), w1))"

definition cli_main :: "cli_env \<Rightarrow> string list \<Rightarrow> (int \<times> cli_output) command" where
  "cli_main env args =
     (case args of
        [] \<Rightarrow> usage_error
      | command # rest \<Rightarrow>
          if command \<in> {''version'', ''--version''} then (if rest \<noteq> [] then usage_error else (\<lambda>w. ((exitOK, Silent), w)))
          else if command = ''export'' then runExport env rest
          else if command = ''diff'' then runDiff env rest
          else if command = ''fetch'' then runFetchCommand env rest
          else if command = ''inspect'' then runInspect env rest
          else if command \<in> {''memusage'', ''query''} then runMemUsage env rest
          else if command \<in> {''objects'', ''explain''} then runInspection env command rest
          else if command \<in> {''top'', ''compare'', ''shared'', ''exclusive''} then runMultiBubble env command rest
          else if command = ''explore'' then runExplore env rest
          else if command \<in> {''bubbles'', ''labels''} then runBubbles env rest
          else if command \<in> {''help'', ''-h'', ''--help''} then (\<lambda>w. ((exitOK, Silent), w))
          else usage_error)"

section \<open>Commands leave no temporary file and no open file\<close>

text \<open>
  A command is tidy when every run of it ends with a known exit code, leaves the files of the
  process and the disk as they were, and, after a usage error, has reported nothing. The files are the
  source of the bundle, the file of requests, the extracted dump and the segments: each is recorded when
  it is opened and has to be closed by the command.
\<close>

definition tidy_run :: "(int \<times> cli_output) command \<Rightarrow> cli_world \<Rightarrow> bool" where
  "tidy_run m w \<longleftrightarrow>
     (case (m w, w) of (((code, out), rs', d'), rs, d) \<Rightarrow>
        code \<in> {exitOK, exitUsage, exitFailure} \<and> same_files rs' rs \<and> d' = d \<and>
        (code = exitUsage \<longrightarrow> out = Silent \<and> rs' = rs))"

lemma tidy_runI:
  assumes "\<And>code out rs' d'. m (rs, d) = ((code, out), rs', d') \<Longrightarrow> code \<in> {exitOK, exitUsage, exitFailure} \<and>
    same_files rs' rs \<and> d' = d \<and> (code = exitUsage \<longrightarrow> out = Silent \<and> rs' = rs)"
  shows "tidy_run m (rs, d)"
  using assms by (auto simp: tidy_run_def split: prod.split)

lemma tidy_usage [simp]: "tidy_run usage_error w"
  by (cases w) (simp add: tidy_run_def usage_error_def)

lemma tidy_constant: "code \<in> {exitOK, exitFailure} \<Longrightarrow> tidy_run (\<lambda>w. ((code, Silent), w)) w"
  by (cases w) (auto simp: tidy_run_def)

lemma tidy_with_flags:
  assumes "\<And>target v seen. tidy_run (act target v seen) w"
  shows "tidy_run (with_flags flags start args act) w"
  using assms by (cases w) (auto simp: tidy_run_def with_flags_def exitOK_def exitUsage_def split: sum.split parse_error.split)

lemma source_open:
  "openBundleSource env target gc rs = (r, rs1) \<Longrightarrow> rs1 = (case r of Inl e \<Rightarrow> rs | Inr _ \<Rightarrow> open_file target rs)"
  by (auto simp: openBundleSource_def sx_defs Let_def split: sum.splits prod.splits if_splits dest!: fetchBundle_open)

lemma load_bundle_file:
  assumes tidy: "tidy (cl_temp env) d" and run: "loadBundle env target gc (rs, d) = (r, rs1, d1)"
  shows "rs1 = rs \<and> (case r of Inl e \<Rightarrow> d1 = d | Inr b \<Rightarrow> snd (snd (bundle_close (cl_temp env) (Some b) d1)) = d)"
proof -
  obtain src rs2 where src: "openBundleSource env target gc rs = (src, rs2)" by (cases "openBundleSource env target gc rs")
  from run source_open [OF src] bundle_open_error [OF tidy] opened_then_closed [OF tidy] show ?thesis
    by (auto simp: loadBundle_def src Let_def split: sum.splits prod.splits option.splits)
qed

definition body_ok :: "(disk \<Rightarrow> capture_bundle \<Rightarrow> resources \<Rightarrow> (int \<times> cli_output) \<times> resources) \<Rightarrow> bool" where
  "body_ok body \<longleftrightarrow>
     (\<forall>d b rs out rs'. body d b rs = (out, rs') \<longrightarrow> fst out \<in> {exitOK, exitFailure} \<and> same_files rs' rs)"

lemma tidy_with_bundle:
  assumes tidy: "tidy (cl_temp env) d" and body: "body_ok body"
  shows "tidy_run (with_bundle env target gc body) (rs, d)"
proof (rule tidy_runI)
  fix code out rs' d'
  assume run: "with_bundle env target gc body (rs, d) = ((code, out), rs', d')"
  obtain r rs0 d1 where load: "loadBundle env target gc (rs, d) = (r, rs0, d1)" by (metis surj_pair)
  note closed = load_bundle_file [OF tidy load]
  show "code \<in> {exitOK, exitUsage, exitFailure} \<and> same_files rs' rs \<and> d' = d \<and>
      (code = exitUsage \<longrightarrow> out = Silent \<and> rs' = rs)"
  proof (cases r)
    case (Inl e)
    with run load closed show ?thesis by (auto simp: with_bundle_def exitUsage_def exitFailure_def)
  next
    case (Inr b)
    obtain o1 rs1 where "body d1 b rs = (o1, rs1)" by fastforce
    with body have "fst o1 \<in> {exitOK, exitFailure} \<and> same_files rs1 rs" unfolding body_ok_def by blast
    with run load closed Inr \<open>body d1 b rs = _\<close> show ?thesis
      by (auto simp: with_bundle_def exitUsage_def exitFailure_def exitOK_def)
  qed
qed

lemma failed_code [simp]: "fst (failed e) = exitFailure"
  by (simp add: failed_def)

definition act_ok :: "(offline_snapshot \<Rightarrow> mem_error + int \<times> cli_output) \<Rightarrow> bool" where
  "act_ok act \<longleftrightarrow> (\<forall>s out. act s = Inr out \<longrightarrow> fst out \<in> {exitOK, exitFailure})"

lemma same_context [simp]: "same_files (rs\<lparr>rs_ctx := c\<rparr>) rs" "same_files rs' (rs\<lparr>rs_ctx := c\<rparr>) \<longleftrightarrow> same_files rs' rs"
  by (simp_all add: same_files_def)

lemma body_with_session:
  assumes "act_ok act"
  shows "body_ok (with_session opts act)"
  unfolding body_ok_def
proof (intro allI impI)
  fix d b rs out rs'
  assume run: "with_session opts act d b rs = (out, rs')"
  obtain r rs1 where load: "load_bundle d b opts (rs\<lparr>rs_ctx := Background\<rparr>) = (r, rs1)" by fastforce
  have "same_files rs1 rs" using keeps_filesD [OF keeps_files_load_bundle load] by simp
  with run load show "fst out \<in> {exitOK, exitFailure} \<and> same_files rs' rs"
    using assms [unfolded act_ok_def, rule_format] by (auto simp: with_session_def split: sum.splits)
qed

lemma in_background_code: "in_background s mk m = Inr out \<Longrightarrow> fst out = exitOK"
  by (auto simp: in_background_def map_sum_Inr)

lemma act_results [simp]:
  "act_ok (memusage_query f)" "act_ok (multi_result command v)" "act_ok (inspection_result fv command v seen)"
  "act_ok (explore_result reqs)"
  by (auto simp: act_ok_def memusage_query_def multi_result_def inspection_result_def explore_result_def Let_def map_sum_Inr
      split: if_splits dest: in_background_code)

lemma body_bubbles [simp]: "body_ok (list_bundle_bubbles env opts)"
  by (auto simp: body_ok_def list_bundle_bubbles_def failed_def Let_def split: sum.splits)

lemma read_queries_closes: "read_queries env name rs = (q, rs1) \<Longrightarrow> rs1 = rs"
  by (auto simp: read_queries_def Let_def split: option.splits)

lemma tidy_explore:
  assumes tidy: "tidy (cl_temp env) d"
  shows "tidy_run (runExplore env args) (rs, d)"
  unfolding runExplore_def
proof (rule tidy_with_flags)
  fix target :: string and v :: cli_values and seen :: "string list"
  obtain q rs1 where read: "read_queries env (cf_queries v) rs = (q, rs1)" by (cases "read_queries env (cf_queries v) rs")
  note same = read_queries_closes [OF read]
  have session: "tidy_run (with_bundle env target True (with_session (options_of v) (explore_result reqs))) (rs, d)" for reqs
    by (rule tidy_with_bundle [OF tidy body_with_session]) simp
  show "tidy_run
      (\<lambda>w. if cf_queries v = [] then usage_error w
        else case w of (rs, d) \<Rightarrow>
          (case read_queries env (cf_queries v) rs of
             (None, rs1) \<Rightarrow> ((exitFailure, Silent), rs1, d)
           | (Some (Inl e), rs1) \<Rightarrow> usage_error (rs1, d)
           | (Some (Inr reqs), rs1) \<Rightarrow>
               if list_ex (\<lambda>r. validate_request (Some r) (options_of v) \<noteq> None) reqs then usage_error (rs1, d)
               else with_bundle env target True (with_session (options_of v) (explore_result reqs)) (rs1, d))) (rs, d)"
    using session unfolding tidy_run_def
    by (auto simp: read same usage_error_def exitOK_def exitUsage_def exitFailure_def split: option.split sum.split)
qed

lemma open_file_snapshot_keeps:
  assumes tidy: "tidy (cl_temp env) d" and run: "open_file_snapshot env opts path (rs, d) = (r, rs', d')"
  shows "same_files rs' rs \<and> d' = d"
  using open_snapshot_restores [OF tidy run [unfolded open_file_snapshot_def prod.case]] by simp

lemma tidy_diff_files:
  assumes tidy: "tidy (cl_temp env) d"
  shows "tidy_run (diff_files env p1 p2 v) (rs, d)"
proof (rule tidy_runI)
  fix code out rs' d'
  assume run: "diff_files env p1 p2 v (rs, d) = ((code, out), rs', d')"
  obtain r1 rs1 d1 where one: "open_file_snapshot env (options_of v) p1 (rs, d) = (r1, rs1, d1)" by (metis surj_pair)
  note keep1 = open_file_snapshot_keeps [OF tidy one]
  obtain r2 rs2 d2 where two: "open_file_snapshot env (options_of v) p2 (rs1, d) = (r2, rs2, d2)" by (metis surj_pair)
  note keep2 = open_file_snapshot_keeps [OF tidy two]
  show "code \<in> {exitOK, exitUsage, exitFailure} \<and> same_files rs' rs \<and> d' = d \<and>
      (code = exitUsage \<longrightarrow> out = Silent \<and> rs' = rs)"
    using run one keep1 two keep2
    by (auto simp: diff_files_def exitUsage_def exitFailure_def exitOK_def intro: same_files_trans split: sum.splits)
qed

lemma tidy_commands:
  assumes tidy: "tidy (cl_temp env) d"
  shows "tidy_run (runMemUsage env args) (rs, d)" "tidy_run (runBubbles env args) (rs, d)"
    "tidy_run (runInspect env args) (rs, d)" "tidy_run (runMultiBubble env command args) (rs, d)"
    "tidy_run (runInspection env command args) (rs, d)" "tidy_run (runExplore env args) (rs, d)"
proof -
  have inspect: "act_ok (\<lambda>s. Inr (exitOK, session_report s (InspectResult (label_keys (of_session s)))))" by (simp add: act_ok_def)
  note tidies = tidy_with_bundle [OF tidy body_with_session] tidy_with_bundle [OF tidy body_bubbles] tidy_constant
  show "tidy_run (runMemUsage env args) (rs, d)" unfolding runMemUsage_def
    by (rule tidy_with_flags) (simp add: tidies)
  show "tidy_run (runBubbles env args) (rs, d)" unfolding runBubbles_def by (rule tidy_with_flags) (simp add: tidies)
  show "tidy_run (runInspect env args) (rs, d)" unfolding runInspect_def
    by (rule tidy_with_flags) (simp add: tidies inspect)
  show "tidy_run (runMultiBubble env command args) (rs, d)" unfolding runMultiBubble_def
    by (rule tidy_with_flags) (simp add: tidies)
  show "tidy_run (runInspection env command args) (rs, d)" unfolding runInspection_def
    by (rule tidy_with_flags) (simp add: tidies)
  show "tidy_run (runExplore env args) (rs, d)" by (rule tidy_explore [OF tidy])
qed

lemma tidy_runDiff:
  assumes tidy: "tidy (cl_temp env) d"
  shows "tidy_run (runDiff env args) (rs, d)"
proof -
  let ?parse = "with_args (by_flag @ shared_flags (cl_values env) @ selector_flags @ pair_flags) [] args zero_values []"
  show ?thesis
  proof (cases ?parse)
    case (Inl e)
    then show ?thesis by (cases e) (simp_all add: tidy_run_def runDiff_def exitOK_def exitUsage_def)
  next
    case (Inr x)
    then obtain paths v seen where p: "?parse = Inr (paths, v, seen)" by (cases x) auto
    have "tidy_run (runDiff env args) (rs, d) =
        tidy_run (if \<not> diff_valid paths v then usage_error else diff_files env (paths ! 0) (paths ! 1) v) (rs, d)"
      by (simp add: tidy_run_def runDiff_def p)
    with tidy_diff_files [OF tidy] show ?thesis by simp
  qed
qed

theorem cli_tidy:
  assumes "tidy (cl_temp env) d" "args = [] \<or> hd args \<notin> {''fetch'', ''export''}"
  shows "tidy_run (cli_main env args) (rs, d)"
proof (cases args)
  case (Cons command rest)
  with assms(2) show ?thesis
    by (auto simp: cli_main_def tidy_commands [OF assms(1)] tidy_runDiff [OF assms(1)] tidy_constant)
qed (simp add: cli_main_def)

section \<open>An export opens its destination only with a complete report\<close>

lemma with_flags_cases:
  assumes "with_flags flags start args act w = ((code, out), w')"
  obtains "code \<in> {exitOK, exitUsage}" "w' = w"
    | target v seen where "act target v seen w = ((code, out), w')"
  using assms by (auto simp: with_flags_def split: sum.splits parse_error.splits)

lemma write_export_disk:
  assumes "write_export env output r (rs, d) = ((code, out), rs', d')"
  shows "rs' = rs" "code \<in> {exitOK, exitFailure}"
    "d' = d \<or> d' = d(output \<mapsto> fst (cl_written env r)) \<and> (code = exitOK \<longleftrightarrow> snd (cl_written env r) = None)"
  using assms by (auto simp: write_export_def exitOK_def exitFailure_def split: prod.splits if_splits option.splits)

lemma export_completes:
  assumes tidy: "tidy (cl_temp env) d" and run: "runExport env args (rs, d) = ((code, out), rs', d')"
  shows "same_files rs' rs \<and> code \<in> {exitOK, exitUsage, exitFailure} \<and>
    (d' = d \<or>
     (\<exists>target v s r w.
        open_file_snapshot env (export_options v) target (rs, d) = (Inr s, w) \<and> export_result env v s = Inr r \<and>
        d' = d(cf_output v \<mapsto> fst (cl_written env r)) \<and> (code = exitOK \<longleftrightarrow> snd (cl_written env r) = None)))"
  using run unfolding runExport_def
proof (cases rule: with_flags_cases)
  case (2 target v seen)
  show ?thesis
  proof (cases "export_valid v seen")
    case True
    obtain o1 rs1 d1 where opened: "open_file_snapshot env (export_options v) target (rs, d) = (o1, rs1, d1)"
      by (metis surj_pair)
    note keeps = open_file_snapshot_keeps [OF tidy opened]
    show ?thesis
    proof (cases "\<exists>s r. o1 = Inr s \<and> export_result env v s = Inr r")
      case True
      then obtain s r where both: "o1 = Inr s" "export_result env v s = Inr r" by blast
      with 2 \<open>export_valid v seen\<close> opened keeps
      have written: "write_export env (cf_output v) r (rs1, d) = ((code, out), rs', d')" by simp
      note w = write_export_disk [OF written]
      have "open_file_snapshot env (export_options v) target (rs, d) = (Inr s, rs1, d1)" using opened both by simp
      with w(3) both(2) have "d' = d \<or>
          (\<exists>target v s r w. open_file_snapshot env (export_options v) target (rs, d) = (Inr s, w) \<and>
            export_result env v s = Inr r \<and> d' = d(cf_output v \<mapsto> fst (cl_written env r)) \<and>
            (code = exitOK \<longleftrightarrow> snd (cl_written env r) = None))" by metis
      with w(1,2) keeps show ?thesis by blast
    next
      case False
      with 2 \<open>export_valid v seen\<close> opened keeps show ?thesis by (auto split: sum.splits)
    qed
  next
    case False
    with 2 show ?thesis by (simp add: usage_error_def)
  qed
qed auto

end
