(* ===== verification/Spec2Isabelle.thy ===== *)
theory Spec2Isabelle
  imports GraphFacts HeapLabelFacts MemSessionFacts MemExplainFacts MemExportFacts CaptureGate
    MemBubbles BundleCaptureFacts OfflineDiff OtherReaders PublicApi Cli
begin

text \<open>
  A model of \<open>bubblepprof\<close>, which answers how much heap the goroutines with given pprof labels keep
  reachable: from a heap dump of the running process, or offline from a capture bundle.

  \<^bold>\<open>The program.\<close> \<open>internal/capture\<close> writes the stream of \<open>runtime/debug.WriteHeapDump\<close> to a
  temporary file, behind a gate that admits one capture at a time. \<open>internal/heapdump\<close> parses the
  stream into a snapshot (\<open>internal/heapsnapshot\<close>), \<open>internal/snapshotgraph\<close> turns it into a graph
  of objects with the roots of each goroutine, and \<open>internal/heaplabels\<close> recovers the labels of the
  goroutines from the private layouts of \<open>internal/runtimelayout\<close>, reading memory through
  \<open>internal/addrspace\<close> and the content resolver of a lazy parse. \<open>internal/memusage\<close> keeps all of
  it in a session that is queried, compared, explained and exported. \<open>internal/bundle\<close> saves a
  capture as a tar file and reads it back, \<open>internal/offline\<close> opens sessions over bundles,
  \<open>pkg/bubblepprof\<close> registers the two HTTP endpoints and \<open>internal/cli\<close> is the command line.

  \<^bold>\<open>Shared parts.\<close> \<open>Prelude\<close> has the machine integers, the errors (format and arguments of every
  message), the state and error monad \<open>es\<close> with its frame and stability lemmas (locale \<open>es_frame\<close>),
  the monad \<open>sx\<close> that keeps the state on an error (for code with deferred calls), \<open>sort.Search\<close> and
  \<open>strconv.ParseUint\<close>.

  \<^bold>\<open>From the dump to the graph.\<close> \<open>HeapModel\<close> has the records of \<open>heapsnapshot/model.go\<close>;
  \<open>DumpReader\<close> and \<open>DumpCodec\<close> the primitives of \<open>heapdump/reader.go\<close> and their encodings (locale
  \<open>codec\<close>, interpreted for every primitive); \<open>Pointers\<close> is \<open>pointers.go\<close>; \<open>ContentResolver\<close> is
  \<open>contentresolver.go\<close>; \<open>DumpParser\<close> is \<open>parser.go\<close> and \<open>records.go\<close>, with \<open>ParserInvariants\<close> (every
  parsed snapshot is well formed, a truncated dump fails) and \<open>ParserLazy\<close> (a lazy parse agrees with
  an eager one, and its resolver serves the same contents). \<open>ObjectGraph\<close>, \<open>GraphPath\<close> and
  \<open>GraphBuild\<close> are \<open>graph.go\<close> with \<open>reachability.go\<close>, \<open>path.go\<close> and \<open>build.go\<close>; \<open>GraphFacts\<close> shows that
  children are resolved pointers (and which edges of the last of \<open>2^32\<close> objects are lost to the wrap
  of its epoch), that the counters add up and that a lenient build succeeds.

  \<^bold>\<open>Memory and labels.\<close> \<open>AddrSpace\<close> has the contract of \<open>addrspace/reader.go\<close> as the locale
  \<open>addr_reader\<close>, with the composite, the ELF and the Linux process reader; \<open>OtherReaders\<close> has the
  readers of the other systems and the space probe of \<open>internal/diskspace\<close>. The contract is
  interpreted for the ELF, the process, the Mach-O and PE image and the stub readers, the resolver
  and the saved segments of a bundle; \<open>slice_reader\<close> extends it by reads of parts, and holds for the reader of
  a process whatever of its memory can be read (\<open>mapped_read_at\<close>). \<open>RuntimeLayout\<close> is
  \<open>internal/runtimelayout\<close>; \<open>HeapLabels\<close> is \<open>internal/heaplabels\<close> with \<open>HeapLabelFacts\<close> (stored label
  maps are decoded, results are well formed).

  \<^bold>\<open>Memory usage.\<close> \<open>MemRequest\<close> and \<open>MemCompute\<close> are \<open>request.go\<close>, \<open>response.go\<close> and \<open>compute.go\<close>;
  \<open>MemSession\<close> is \<open>snapshot.go\<close>, \<open>analyze.go\<close> and \<open>allocation.go\<close>; \<open>MemSessionFacts\<close> shows that any
  history of queries leaves a session answering like the pure computation without index and cache,
  and has the step relation \<open>session_step\<close>. \<open>MemWalk\<close>, \<open>MemCompare\<close> and \<open>MemObjects\<close> are
  \<open>multibubble.go\<close>, \<open>objects.go\<close> and \<open>summary.go\<close>; \<open>MemExplain\<close> and \<open>MemExport\<close> with their facts are
  \<open>explain.go\<close> and \<open>export.go\<close> with \<open>export_paths.go\<close>; \<open>MemBubbles\<close> is \<open>bubbles.go\<close>.

  \<^bold>\<open>Captures and bundles.\<close> \<open>HeapCapture\<close> is \<open>internal/capture/capture.go\<close>, with what every capturer
  promises as the locale \<open>heap_capturer\<close>, interpreted for the runtime capturer; \<open>CaptureGate\<close> is
  \<open>gate.go\<close>, its operations and the step relation \<open>gate_step\<close> of concurrent callers, whose
  invariant is that at most one of them captures; \<open>MemServe\<close> is \<open>memusage/capture.go\<close> and
  \<open>handler.go\<close>. \<open>BundleFormat\<close>, \<open>BundleArchive\<close> and \<open>BundleCapture\<close> are \<open>internal/bundle\<close>; their facts
  show that a written bundle reads back, that a failed opening leaves no file, and that the bundle
  of a capture answers reads like the process did. \<open>OfflineDiff\<close> is \<open>internal/offline\<close>.

  \<^bold>\<open>Entry points.\<close> \<open>PublicApi\<close> is \<open>pkg/bubblepprof\<close>: the options and a server of both endpoints over
  one gate. \<open>Download\<close> is \<open>internal/cli/download.go\<close> and \<open>fetch.go\<close>, \<open>CliFlags\<close> the parsing of flags
  and label selectors, and \<open>Cli\<close> every command from its arguments to its exit code and result.
\<close>

text \<open>
  \<^bold>\<open>Conventions.\<close> \<open>uint64\<close> is \<open>64 word\<close> with its wrap-around, \<open>int64\<close> the same word read by \<open>sint\<close>,
  \<open>ObjectID\<close> is \<open>32 word\<close>; Go \<open>int\<close> counters are integers (a 64-bit platform). Errors are the left
  side of a sum. A nil pointer is \<open>None\<close>. A Go map whose keys are listed or counted is an association
  list, one that is only looked up is a HOL map; sets of objects are sets. A context is a countdown of
  polls, so that every cancellation point of the code is a poll of the model. An operation that the
  code runs under a mutex is one step. Files read at offsets are a parameter with the contract of
  \<open>io.ReaderAt\<close>; the files and directories that a process holds, with the contents of the files it
  wrote, are the record \<open>resources\<close>, and the temporary directory of the analyser is the map \<open>disk\<close>.

  \<^bold>\<open>Parameters.\<close> Answers of the operating system and of other packages are the fields of an
  environment: \<open>capture_env\<close>, \<open>process_env\<close>, \<open>bundle_env\<close>, \<open>temp_env\<close>, \<open>spool_env\<close>, \<open>http_env\<close>,
  \<open>cli_env\<close>. Opening the captured dump (\<open>be_open\<close>, \<open>pe_open\<close>) is one of them: it is told what the disk holds
  at the path. So are \<open>encoding/json\<close> (decoders that answer a value and the bytes left, encoders),
  \<open>json.Marshal\<close> of a label map, \<open>strconv.Quote\<close>, \<open>CheckValid\<close> of the pprof package, \<open>archive/tar\<close>
  (the members that a stream yields, and the error of any write), \<open>net/url\<close>, \<open>net/http\<close>, the object-file
  libraries and the conversions of flag values. Theorems hold for all of them, or name what they
  assume (a decoder that reads back what the encoder wrote, a temporary file that can be removed).

  \<^bold>\<open>Bounds.\<close> There is no fuel: loops are structural, have a measure (the bytes left, the objects not
  yet visited, the arguments left, the remaining length), or go through a finite list. Limits are
  those of the code: visits of a path search, bytes of strings, members, segments, dumps and bodies,
  steps and paths of an explanation.

  \<^bold>\<open>Not modelled.\<close> \<open>runtimelayout/local.go\<close>, which asks the running Go runtime for its version and
  word size (a parameter here); \<open>PrintSummary\<close> and the text and JSON that the commands print, which
  format results that are modelled (a command of \<open>Cli\<close> answers the result it prints and its exit
  code); messages on the standard error; the response bodies beyond their values; defensive copies of slices,
  since values are immutable here; \<open>collectProfile\<close>, which only calls \<open>runtime/pprof\<close>; opening and
  closing of ELF files; and the programs \<open>cmd/bench\<close>, \<open>cmd/labeloffsetprobe\<close> and \<open>examples\<close>, which exercise
  the library and are not part of it.
\<close>

section \<open>Concrete inputs of the witnesses\<close>

definition lenient :: parse_options where
  "lenient = \<lparr>po_context = Some Background, po_keep_contents = False, po_keep_offsets = False,
     po_max_string = 0, po_max_mem = 0, po_strict = False\<rparr>"

text \<open>Header, params of a little-endian 64-bit process, one object of eight bytes, end.\<close>

definition tiny_dump :: "byte list" where
  "tiny_dump = bytes_of_string Header @ [10] @
     [6, 0, 8, 0, 0, 0, 0, 1] @ [1, 16, 8, 32, 0, 0, 0, 0, 0, 0, 0, 1, 0, 0] @ [0]"

definition tiny_stats :: "(int \<times> u64 \<times> int)" where
  "tiny_stats = (1, 8, 1)"

definition stats_of :: "heap_snapshot \<Rightarrow> int \<times> u64 \<times> int" where
  "stats_of s = (ps_object_count (hs_stats s), ps_object_bytes (hs_stats s),
     ps_object_pointers (hs_stats s))"

text \<open>Two resolvable objects, the first referring to the second.\<close>

definition tiny_graph :: graph where
  "tiny_graph = \<lparr>gr_objects = [\<lparr>ob_id = 0, ob_addr = 16, ob_size = 8, ob_children = [1]\<rparr>,
       \<lparr>ob_id = 1, ob_addr = 32, ob_size = 8, ob_children = []\<rparr>],
     gr_by_addr = [16 \<mapsto> 0, 32 \<mapsto> 1], gr_references = [],
     gr_ranges = [\<lparr>or_start = 16, or_end = 24, or_id = 0\<rparr>, \<lparr>or_start = 32, or_end = 40, or_id = 1\<rparr>]\<rparr>"

definition root_at :: "object_id \<Rightarrow> root_ref" where
  "root_at i = \<lparr>rr_object_id = i, rr_ptr = 16, rr_slot_addr = 0, rr_kind = ''stack'',
     rr_detail = [], rr_frame = None\<rparr>"

text \<open>Two parsed objects of eight bytes, the first with a pointer into the second.\<close>

definition tiny_object :: "u64 \<Rightarrow> u64 list \<Rightarrow> heap_object" where
  "tiny_object a ptrs = \<lparr>ho_addr = a, ho_size = 8, ho_contents = [], ho_fields = [],
     ho_pointer_addrs = ptrs, ho_pointer_offsets = []\<rparr>"

definition tiny_snapshot :: heap_snapshot where
  "tiny_snapshot = empty_snapshot\<lparr>hs_objects := [tiny_object 16 [35, 0, 35], tiny_object 32 []]\<rparr>"

definition strict_build :: build_options where
  "strict_build = \<lparr>bo_strict = True, bo_keep_provenance = True\<rparr>"

lemma tiny_build:
  obtains an g where "build_context Background (Some tiny_snapshot) strict_build = Inr an"
    "an_graph an = Some g" "gs_objects (an_stats an) = int (length (gr_objects g))"
    "length (gr_objects g) = 2"
proof -
  have "map_sum id (\<lambda>an. (map_option (\<lambda>g. length (gr_objects g)) (an_graph an), gs_objects (an_stats an)))
      (build_context Background (Some tiny_snapshot) strict_build) = Inr (Some 2, 2)"
    by code_simp
  then show ?thesis
    by (cases "build_context Background (Some tiny_snapshot) strict_build") (auto intro: that)
qed

text \<open>
  A dump of \<open>2^32\<close> objects: all but the last are at one address, and only the last one has a pointer, to
  the first.
\<close>

definition all_but_one :: nat where "all_but_one = 2 ^ 32 - 1"

definition full_heap :: heap_snapshot where
  "full_heap = empty_snapshot\<lparr>hs_objects := replicate all_but_one (tiny_object 16 []) @ [tiny_object 32 [16]]\<rparr>"

definition lenient_build_options :: build_options where
  "lenient_build_options = \<lparr>bo_strict = False, bo_keep_provenance = False\<rparr>"

lemma full_heap_builds:
  obtains an g where "build_context Background (Some full_heap) lenient_build_options = Inr an" "an_graph an = Some g"
proof -
  have len: "length (hs_objects full_heap) = all_but_one + 1" by (simp add: full_heap_def)
  have sizes: "sum_list (map (\<lambda>ob. unat (ho_size ob)) (hs_objects full_heap)) = all_but_one * 8 + 8"
    by (simp add: full_heap_def tiny_object_def sum_list_replicate)
  have "all_but_one + 1 \<le> 2 ^ 32" "all_but_one * 8 + 8 < 2 ^ 64" by (simp_all only: all_but_one_def) simp_all
  with len sizes lenient_build [of lenient_build_options full_heap] that show thesis
    by (auto simp: lenient_build_options_def)
qed

lemma full_heap_first:
  assumes "build_context Background (Some full_heap) lenient_build_options = Inr an" "an_graph an = Some g"
  shows "find_object_containing (Some g) 16 = Some 0"
proof -
  have "0 < all_but_one" by (simp add: all_but_one_def)
  then obtain k where k: "all_but_one = Suc k" by (cases all_but_one) simp_all
  have "hs_objects full_heap = tiny_object 16 [] # (replicate k (tiny_object 16 []) @ [tiny_object 32 [16]])"
    by (simp add: full_heap_def k)
  from first_object_found [OF assms this] show ?thesis by (auto simp: full_heap_def tiny_object_def)
qed

text \<open>A session over \<open>tiny_graph\<close>: two labelled goroutines and a system one.\<close>

definition tiny_goroutine :: "u64 \<Rightarrow> bool \<Rightarrow> object_id list \<Rightarrow> goroutine_reach" where
  "tiny_goroutine i sys roots = \<lparr>gor_id = i, gor_is_system = sys, gor_is_background = False,
     gor_roots = map root_at roots, gor_reachable = {}\<rparr>"

definition tiny_analysis :: analysis where
  "tiny_analysis = \<lparr>an_graph = Some tiny_graph,
     an_goroutines = [tiny_goroutine 1 False [0], tiny_goroutine 2 False [1], tiny_goroutine 3 True []],
     an_globals = \<lparr>glr_roots = [], glr_reachable = {}\<rparr>, an_warnings = [], an_stats = zero_stats\<rparr>"

definition tiny_labels :: gid_labels where
  "tiny_labels = [(1, [(''job'', ''a'')]), (2, [(''job'', ''b'')])]"

definition tiny_diag :: diagnostics where
  "tiny_diag = \<lparr>dg_go_version = ''go1.26.0'', dg_goarch = ''amd64'', dg_unsupported = False,
     dg_string_missing = 0, dg_failed = 0, dg_string_missing_gids = None, dg_failed_gids = None,
     dg_warnings = []\<rparr>"

definition tiny_options :: mem_options where
  "tiny_options = \<lparr>mo_scratch_dir = [], mo_min_free_bytes = 0, mo_max_dump_bytes = 0,
     mo_keep_provenance = False, mo_gc_before = False, mo_include_system = False,
     mo_disable_process_reader = False, mo_max_mem_range = 0, mo_max_labels = 0,
     mo_max_key_bytes = 0, mo_max_value_bytes = 0\<rparr>"

definition tiny_session :: session where
  "tiny_session = new_snapshot tiny_analysis tiny_labels tiny_diag tiny_options"

definition job :: "string \<Rightarrow> mem_request" where
  "job v = \<lparr>rq_labels = [(''job'', v)]\<rparr>"

lemma tiny_labels_distinct: "labels_distinct tiny_labels"
  by (simp add: labels_distinct_def tiny_labels_def)

lemma run_witness:
  assumes "map_sum id f r = Inr y"
  obtains x c where "r = Inr (x, c)" "f (x, c) = y"
  using assms by (cases r) (auto intro: that)

text \<open>An object with contents: the label map of one label, its record, and its two strings.\<close>

definition full_snapshot :: heap_snapshot where
  "full_snapshot = empty_snapshot\<lparr>hs_objects := [\<lparr>ho_addr = 16, ho_size = 8,
     ho_contents = [1, 2, 3, 4, 5, 6, 7, 8], ho_fields = [], ho_pointer_addrs = [], ho_pointer_offsets = []\<rparr>]\<rparr>"

definition amd64_layout :: layout where
  "amd64_layout = te_layout (entry64 ''go1.26.'' 0 ''test'')"

definition map_object :: heap_object where
  "map_object = \<lparr>ho_addr = 4096, ho_size = 58,
     ho_contents = put_word amd64_layout 4120 @ put_word amd64_layout 1 @ put_word amd64_layout 1 @
       put_label amd64_layout ((4152, ''k''), (4153, ''v'')) @ bytes_of_string ''kv'',
     ho_fields = [], ho_pointer_addrs = [], ho_pointer_offsets = []\<rparr>"

definition map_memory :: memory where
  "map_memory = new_memory (Some (empty_snapshot\<lparr>hs_objects := [map_object]\<rparr>))"

definition known_dump :: "byte list" where
  "known_dump = bytes_of_string Header @ [10] @
     [6, 0, 8, 0, 0, 5] @ bytes_of_string ''amd64'' @ [8] @ bytes_of_string ''go1.26.0'' @ [1] @ [0]"

definition no_label_options :: label_options where
  "no_label_options = \<lparr>lo_max_labels = 0, lo_max_string = 0, lo_extra = None, lo_heap_memory = None\<rparr>"

definition known_source :: dump_source where
  "known_source = \<lparr>ds_bytes = known_dump, ds_end = EOF, ds_at = Some (bytes_read_at known_dump)\<rparr>"

definition tiny_explain :: explain_options where
  "tiny_explain = \<lparr>eo_by = ''job'', eo_max_groups = 0, eo_max_paths = 0, eo_max_steps = 0, eo_max_visited = 0\<rparr>"

text \<open>A bundle with one saved segment, its archive, and codecs that know only its metadata.\<close>

definition tiny_input :: write_input where
  "tiny_input = \<lparr>win_meta = zero_meta,
     win_segments = [\<lparr>wsg_addr = 16, wsg_size = 2, wsg_perms = ''r--'', wsg_path = [], wsg_data = [7, 8], wsg_end = EOF\<rparr>],
     win_dump = [1, 2, 3], win_dump_end = EOF, win_dump_size = 3, win_profiles = []\<rparr>"

definition tiny_infos :: "segment_info list" where
  "tiny_infos = map segment_info_of (enumerate 0 (win_segments tiny_input))"

definition tiny_enc_meta :: "bundle_meta \<Rightarrow> go_error + byte list" where "tiny_enc_meta mt = Inr [1]"
definition tiny_enc_infos :: "segment_info list \<Rightarrow> go_error + byte list" where "tiny_enc_infos infos = Inr [2]"

definition tiny_dec_meta :: "bundle_meta json_decoder" where
  "tiny_dec_meta bs e = Inr (written_meta ''now'' tiny_input, [])"

definition tiny_dec_infos :: "segment_info list json_decoder" where "tiny_dec_infos bs e = Inr (tiny_infos, [])"

definition tiny_tar :: tar_writer where
  "tiny_tar = \<lparr>tw_members = [plain_member MetaMember [1], plain_member SegmentsMember [2],
     plain_member (segmentMemberName 0) [7, 8], plain_member HeapDumpMember [1, 2, 3]], tw_calls = 9\<rparr>"

definition tiny_temp :: temp_env where
  "tiny_temp = \<lparr>te_create = Inr ''dump'', te_copy_error = None, te_close_error = None, te_remove_error = None\<rparr>"

definition default_reader :: reader_options where
  "default_reader = \<lparr>rdo_max_profile = 0, rdo_max_rodata = 0, rdo_max_metadata = 0, rdo_max_index = 0\<rparr>"

definition tiny_saved :: segments_reader where
  "tiny_saved = \<lparr>sgr_segments = [\<lparr>sg_start = 16, sg_end = 18, sg_data = [7, 8]\<rparr>]\<rparr>"

lemma tiny_written:
  "write_bundle (\<lambda>n. None) tiny_enc_meta tiny_enc_infos ''now'' tiny_input \<lparr>tw_members = [], tw_calls = 0\<rparr> = Inr ((), tiny_tar)"
proof -
  have sizes: "sint (2 :: u64) = 2" "sint (3 :: u64) = 3" by code_simp+
  show ?thesis
    by (simp add: tiny_input_def tiny_enc_meta_def tiny_enc_infos_def tiny_tar_def plain_member_def write_bundle_def
        es_defs es_wrap_msg_def write_member_def write_header_def write_data_def tar_call_def append_data_def
        enumerate_eq_zip copy_n_def write_one_segment_def profile_names_def sizes Let_def)
qed

lemma tiny_saved_reader: "new_segments_reader tiny_infos (map segment_data (win_segments tiny_input)) = Inr tiny_saved"
  by code_simp

lemma tiny_works [simp]: "file_works tiny_temp" "tidy tiny_temp (\<lambda>_. None)"
  by (simp_all add: file_works_def tidy_def tiny_temp_def)

text \<open>An archive with every kind of member that the validator looks at.\<close>

definition valid_stream :: tar_stream where
  "valid_stream = (written_stream tiny_tar)\<lparr>ts_members :=
     map (\<lambda>m. if tm_name m = HeapDumpMember then plain_member HeapDumpMember (bytes_of_string (Header @ [CHR 0x0A])) else m)
       (tw_members tiny_tar)\<rparr>"

text \<open>
  A process with two read-only mappings, of which the second, \<open>[vvar]\<close>, cannot be read, and its capture.
\<close>

definition tiny_mem :: "byte list" where "tiny_mem = replicate 16 0 @ [65, 66, 67, 68, 69, 70, 71, 72]"

definition tiny_memory :: "u64 \<Rightarrow> byte option" where
  "tiny_memory a = (if 16 \<le> a \<and> a < 24 then Some (ucast (a + 49)) else None)"

definition vvar :: addr_mapping where
  "vvar = \<lparr>m_start = 4096, m_end = 4104, m_read = True, m_write = False, m_exec = False, m_path = ''[vvar]''\<rparr>"

definition vvar_warning :: string where "vvar_warning = ''skipped unreadable segment '' @ range_text vvar"

definition tiny_maps :: "addr_mapping list" where
  "tiny_maps = [\<lparr>m_start = 16, m_end = 24, m_read = True, m_write = False, m_exec = False, m_path = ''app''\<rparr>, vvar]"

definition tiny_process :: process_reader where
  "tiny_process = \<lparr>pr_maps = tiny_maps, pr_mem = Some (mapped_read_at tiny_memory)\<rparr>"

definition tiny_capture_env :: capture_env where
  "tiny_capture_env = \<lparr>ce_make_dir = (\<lambda>d. Inr ''tmp''), ce_available = (\<lambda>p. Inr (2 ^ 40)), ce_create = (\<lambda>p. Inr ''heap''),
     ce_runtime_dump = [1, 2, 3], ce_seek = None, ce_stat = None\<rparr>"

definition tiny_resources :: resources where
  "tiny_resources = \<lparr>rs_dirs = {}, rs_files = {#}, rs_contents = (\<lambda>p. None), rs_ctx = Background, rs_collections = 0\<rparr>"

definition tiny_bundle_options :: bundle_options where
  "tiny_bundle_options = \<lparr>bc_scratch_dir = [], bc_min_free_bytes = 0, bc_max_dump_bytes = 0, bc_max_artifact_bytes = 0,
     bc_gc_before = False, bc_include_heap = False, bc_include_goroutine = False, bc_disable_rodata = False,
     bc_max_rodata_bytes = 0, bc_producer = ''test''\<rparr>"

definition tiny_segment :: write_segment where
  "tiny_segment = \<lparr>wsg_addr = 16, wsg_size = 8, wsg_perms = ''r--'', wsg_path = ''app'',
     wsg_data = [65, 66, 67, 68, 69, 70, 71, 72], wsg_end = EOF\<rparr>"

text \<open>What the capture hands to the writer, and the encoders that know it.\<close>

definition captured_input :: write_input where
  "captured_input =
     \<lparr>win_meta = zero_meta\<lparr>mt_producer := ''test'', mt_go_version := ''go1.26.0'', mt_goarch := ''amd64'', mt_ptr_size := 8,
        mt_dump_started := ''t0'', mt_dump_finished := ''t1'', mt_capture_settings := Some (settings_of tiny_bundle_options),
        mt_warnings := [vvar_warning],
        mt_rodata := no_rodata\<lparr>rm_status := RodataOK\<rparr>\<rparr>,
      win_segments = [tiny_segment], win_dump = [1, 2, 3], win_dump_end = EOF, win_dump_size = 3, win_profiles = []\<rparr>"

definition captured_infos :: "segment_info list" where
  "captured_infos = map segment_info_of (enumerate 0 [tiny_segment])"

definition tiny_open :: "string \<Rightarrow> byte list option \<Rightarrow> go_error + byte list \<times> go_error \<times> (go_error + i64)" where
  "tiny_open path found =
     (case found of
        Some bs \<Rightarrow> if length bs < 2 ^ 63 then Inr (bs, EOF, Inr (of_nat (length bs))) else Inl EOF
      | None \<Rightarrow> Inl ErrNotExist)"

lemma stat_size: "n < 2 ^ 63 \<Longrightarrow> sint (of_nat n :: u64) = int n"
  using signed_take_bit_int_eq_self [of 63 "int n"] by (simp add: signed_of_nat)

definition tiny_bundle_env :: bundle_env where
  "tiny_bundle_env =
     \<lparr>be_capture = tiny_capture_env,
      be_local = \<lparr>li_go_version = ''go1.26.0'', li_goarch = ''amd64'', li_ptr_size = 8, li_big_endian = False\<rparr>,
      be_started = ''t0'', be_finished = ''t1'', be_now = ''now'', be_open = tiny_open,
      be_profile = (\<lambda>k. Inl EOF), be_build = None, be_process = Inr (''maps'', tiny_process), be_error_text = (\<lambda>e. []),
      be_stream = (\<lambda>limit n. None),
      be_enc_meta = (\<lambda>mt. if mt = written_meta ''now'' captured_input then Inr [1] else Inl EOF),
      be_enc_infos = (\<lambda>infos. if infos = captured_infos then Inr [2] else Inl EOF)\<rparr>"

definition captured_tar :: tar_writer where
  "captured_tar = \<lparr>tw_members = [plain_member MetaMember [1], plain_member SegmentsMember [2],
     plain_member (segmentMemberName 0) [65, 66, 67, 68, 69, 70, 71, 72], plain_member HeapDumpMember [1, 2, 3]], tw_calls = 9\<rparr>"

lemma captured_segments:
  "collect_segments (process_read_at_addr (Some tiny_process)) (eligible_string_ranges (Some tiny_process)) 0 mt =
     ([tiny_segment], RodataOK, mt\<lparr>mt_warnings := mt_warnings mt @ [vvar_warning]\<rparr>)"
proof -
  have ranges: "eligible_string_ranges (Some tiny_process) = tiny_maps" by code_simp
  have probed: "probe_range (process_read_at_addr (Some tiny_process)) 16 8"
    and skipped: "\<not> probe_range (process_read_at_addr (Some tiny_process)) 4096 8" by code_simp+
  have bytes: "drain (process_read_at_addr (Some tiny_process)) \<lparr>rr_addr = 16, rr_remaining = 8\<rparr> =
      ([65, 66, 67, 68, 69, 70, 71, 72], EOF)" by code_simp
  have ends: "m_start vvar = 4096" "m_end vvar = 4104" by (simp_all add: vvar_def)
  show ?thesis
    by (simp add: collect_segments_def ranges tiny_maps_def collect_segment_def probed skipped bytes ends rodata_budget_def
        DefaultMaxRodataBytes_def perm_string_def tiny_segment_def vvar_warning_def Let_def)
qed

lemma captured_written:
  "write_bundle (\<lambda>n. None) (be_enc_meta tiny_bundle_env) (be_enc_infos tiny_bundle_env) ''now'' captured_input
     \<lparr>tw_members = [], tw_calls = 0\<rparr> = Inr ((), captured_tar)"
proof -
  have sizes: "sint (8 :: u64) = 8" "sint (3 :: u64) = 3" by code_simp+
  have meta: "be_enc_meta tiny_bundle_env (written_meta ''now'' captured_input) = Inr [1]"
    and infos: "be_enc_infos tiny_bundle_env captured_infos = Inr [2]" by (simp_all add: tiny_bundle_env_def)
  show ?thesis
    by (simp add: captured_input_def tiny_segment_def captured_tar_def plain_member_def write_bundle_def
        es_defs es_wrap_msg_def write_member_def write_header_def write_data_def tar_call_def append_data_def
        enumerate_eq_zip copy_n_def write_one_segment_def profile_names_def sizes Let_def
        infos [unfolded captured_infos_def tiny_segment_def, simplified enumerate_eq_zip, simplified]
        meta [unfolded captured_input_def tiny_segment_def])
qed

lemma captured_options [simp]:
  "bc_scratch_dir tiny_bundle_options = []" "bc_min_free_bytes tiny_bundle_options = 0"
  "bc_max_dump_bytes tiny_bundle_options = 0" "bc_max_artifact_bytes tiny_bundle_options = 0"
  "\<not> bc_gc_before tiny_bundle_options" "\<not> bc_include_heap tiny_bundle_options"
  "\<not> bc_include_goroutine tiny_bundle_options" "\<not> bc_disable_rodata tiny_bundle_options"
  "bc_max_rodata_bytes tiny_bundle_options = 0" "bc_producer tiny_bundle_options = ''test''"
  by (simp_all add: tiny_bundle_options_def)

lemma captured_run:
  obtains rs where "capture_self tiny_bundle_env tiny_bundle_options tiny_resources = (Inr captured_tar, rs)"
proof -
  have env: "be_capture tiny_bundle_env = tiny_capture_env" "be_process tiny_bundle_env = Inr (''maps'', tiny_process)"
    "be_now tiny_bundle_env = ''now''" "be_stream tiny_bundle_env = (\<lambda>limit n. None)"
    "be_open tiny_bundle_env = tiny_open"
    by (simp_all add: tiny_bundle_env_def)
  have meta: "base_meta tiny_bundle_env tiny_bundle_options =
      zero_meta\<lparr>mt_producer := ''test'', mt_go_version := ''go1.26.0'', mt_goarch := ''amd64'', mt_ptr_size := 8,
        mt_dump_started := ''t0'', mt_dump_finished := ''t1''\<rparr>"
    by (simp add: base_meta_def tiny_bundle_env_def zero_meta_def)
  have rodata: "mt_rodata zero_meta = no_rodata" "mt_warnings zero_meta = []" and build: "build_of (be_build tiny_bundle_env) = None"
    by (simp_all add: zero_meta_def tiny_bundle_env_def build_of_def)
  have made: "zero_meta\<lparr>mt_producer := ''test'', mt_go_version := ''go1.26.0'', mt_goarch := ''amd64'', mt_ptr_size := 8,
        mt_dump_started := ''t0'', mt_dump_finished := ''t1'', mt_profiles := [],
        mt_capture_settings := Some (settings_of tiny_bundle_options), mt_application_build := None,
        mt_warnings := [vvar_warning], mt_rodata := no_rodata\<lparr>rm_status := RodataOK\<rparr>\<rparr> = win_meta captured_input"
    by (simp add: captured_input_def zero_meta_def)
  have contents: "fst (capture_contents tiny_bundle_env tiny_bundle_options [1, 2, 3] EOF 3 rs) = Inr captured_tar"
    if "rs_ctx rs = Background" for rs
    using captured_written made that
    by (simp add: capture_contents_def capture_rodata_def sx_defs rs_poll_def env captured_segments write_captured_def
        open_file_def Let_def meta rodata build captured_input_def)
  have dump: "\<exists>rel rs. runtime_capturer tiny_capture_env [] 0 0 False tiny_resources = (Inr (''tmp/heap'', rel), rs) \<and>
      rs_ctx rs = Background \<and> rs_contents rs ''tmp/heap'' = Some [1, 2, 3]"
    by (simp add: runtime_capturer_def capture_dump_def capture_in_def capture_file_def sx_defs rs_poll_def
        tiny_resources_def tiny_capture_env_def disk_check_def capture_defaults_def runtime_writer_def wrap_some_def
        DefaultMinFreeBytes_def add_dir_def open_file_def close_file_def create_file_def write_file_def Let_def)
  then obtain rel rs where
    run: "runtime_capturer tiny_capture_env [] 0 0 False tiny_resources = (Inr (''tmp/heap'', rel), rs)"
      "rs_ctx rs = Background" "rs_contents rs ''tmp/heap'' = Some [1, 2, 3]"
    by blast
  then have "fst (capture_contents tiny_bundle_env tiny_bundle_options [1, 2, 3] EOF 3
      (open_file ''tmp/heap'' rs)) = Inr captured_tar" by (intro contents) (simp add: open_file_def)
  with run have "fst (capture_self tiny_bundle_env tiny_bundle_options tiny_resources) = Inr captured_tar"
    by (auto simp: capture_self_def capture_opened_def sx_defs env tiny_open_def split: prod.splits)
  then show thesis
    by (cases "capture_self tiny_bundle_env tiny_bundle_options tiny_resources") (auto intro: that)
qed

text \<open>Goroutines with labels, and two snapshots to compare.\<close>

definition tiny_marshal :: "label_map \<Rightarrow> go_error + string" where
  "tiny_marshal m = Inr (concat (map (\<lambda>(k, v). k @ ''='' @ v) m))"

definition bubble_goroutine :: "u64 \<Rightarrow> goroutine" where
  "bubble_goroutine i = \<lparr>g_addr = 0, g_stack_top = 0, g_id = i, g_go_pc = 0, g_status = 0, g_is_system = False,
     g_is_background = False, g_wait_since = 0, g_wait_reason = [], g_context = 0, g_m = 0, g_defer = 0, g_panic = 0,
     g_frames = []\<rparr>"

definition bubble_snapshot :: heap_snapshot where
  "bubble_snapshot = empty_snapshot\<lparr>hs_goroutines := map bubble_goroutine [1, 2, 3, 4]\<rparr>"

definition bubble_labels :: label_result where
  "bubble_labels = empty_result\<lparr>lr_labels_by_gid :=
     [(1, [(''job'', ''a'')]), (2, [(''job'', ''b'')]), (3, [(''job'', ''a'')])]\<rparr>"

definition tiny_before :: offline_snapshot where
  "tiny_before = \<lparr>of_session = tiny_session, of_capture = zero_meta\<rparr>"

definition tiny_after :: offline_snapshot where
  "tiny_after = \<lparr>of_session = new_snapshot (tiny_analysis\<lparr>an_goroutines :=
     [tiny_goroutine 1 False [0], tiny_goroutine 2 False [0]]\<rparr>) tiny_labels tiny_diag tiny_options, of_capture = zero_meta\<rparr>"

definition job_map :: "string \<Rightarrow> label_map" where "job_map v = [(''job'', v)]"

text \<open>A bundle whose dump is one that the parser reads.\<close>

definition saved_stream :: tar_stream where
  "saved_stream = (written_stream tiny_tar)\<lparr>ts_members :=
     map (\<lambda>m. if tm_name m = HeapDumpMember then plain_member HeapDumpMember known_dump else m) (tw_members tiny_tar)\<rparr>"

text \<open>A mapped executable of sixteen bytes, loaded four bytes above its addresses.\<close>

definition tiny_image :: image_reader where
  "tiny_image = \<lparr>im_file = Some (bytes_read_at tiny_mem), im_path = ''app'',
     im_parts = [\<lparr>ip_addr = 32, ip_size = 8, ip_off = 16\<rparr>], im_slide = 4\<rparr>"

text \<open>A download that answers with a valid archive, and the command line around it.\<close>

definition tiny_http :: http_env where
  "tiny_http = \<lparr>he_parse = (\<lambda>s. Inr \<lparr>ur_scheme = ''http'', ur_host = ''host'', ur_path = ''/'', ur_query = []\<rparr>),
     he_request = (\<lambda>u. None),
     he_do = (\<lambda>u. Inr \<lparr>hp_code = 200, hp_status = ''200 OK'', hp_body = \<lparr>sc_bytes = [1, 2, 3], sc_end = EOF\<rparr>\<rparr>)\<rparr>"

definition tiny_fetch :: fetch_env where
  "tiny_fetch = \<lparr>ft_http = tiny_http,
     ft_spool = \<lparr>sp_temp = tiny_temp, sp_seek = None, sp_reseek = None, sp_stream = (\<lambda>bs. valid_stream)\<rparr>,
     ft_staged_close = None, ft_rename = None, ft_stdout = None, ft_unix = 0\<rparr>"

definition fetch_to :: "string \<Rightarrow> fetch_options" where
  "fetch_to path = \<lparr>fo_out = path, fo_gc = True, fo_max_bytes = 0, fo_timeout = 1\<rparr>"

definition tiny_cli :: cli_env where
  "tiny_cli = \<lparr>cl_values = \<lparr>fv_bool = (\<lambda>s. Inr (s = ''true'')), fv_int = (\<lambda>s. Inr 0), fv_int64 = (\<lambda>s. Inr 0),
       fv_uint64 = (\<lambda>s. Inr 0), fv_duration = (\<lambda>s. Inr 1)\<rparr>,
     cl_fetch = tiny_fetch,
     cl_file = (\<lambda>p. if p = ''b.tar'' then Inr \<lparr>sc_bytes = [], sc_end = EOF\<rparr> else Inl ErrNotExist),
     cl_close = (\<lambda>p. None), cl_stream = (\<lambda>src. saved_stream), cl_temp = tiny_temp,
     cl_meta = tiny_dec_meta, cl_infos = tiny_dec_infos, cl_marshal = tiny_marshal, cl_queries = (\<lambda>p. None),
     cl_check = (\<lambda>p. None), cl_quote = (\<lambda>s. s), cl_time = (\<lambda>l s. None), cl_create = (\<lambda>p. None),
     cl_written = (\<lambda>r. ([], None))\<rparr>"

text \<open>A server of the two endpoints over the tiny process.\<close>

definition tiny_server :: server where
  "tiny_server = \<lparr>sv_capture = tiny_capture_env,
     sv_process = \<lparr>pe_local = be_local tiny_bundle_env, pe_open = (\<lambda>p found. Inl EOF), pe_process = Inl EOF\<rparr>,
     sv_bundle = tiny_bundle_env, sv_chunks = (\<lambda>opts rs. [[1]]), sv_decode = (\<lambda>bs e. Inr (job ''a'', [])),
     sv_filename = ''b.tar'', sv_build = None,
     sv_mem = \<lparr>mu_cooldown = 0, mu_scratch_dir = [], mu_min_free_bytes = 0, mu_max_dump_bytes = 0, mu_disable_gc = False,
       mu_include_system = False, mu_disable_process_reader = False, mu_max_body = 0, mu_max_mem_range = 0, mu_max_labels = 0,
       mu_max_key_bytes = 0, mu_max_value_bytes = 0\<rparr>,
     sv_bundles = \<lparr>bh_cooldown = 5, bh_scratch_dir = [], bh_min_free_bytes = 0, bh_max_dump_bytes = 0,
       bh_max_artifact_bytes = 0, bh_disable_gc = False, bh_disable_rodata = False, bh_max_rodata_bytes = 0,
       bh_include_heap = False, bh_include_goroutine = False\<rparr>\<rparr>"

section \<open>Properties\<close>

text \<open>C1: the archive that a capture of the running process writes is one that the reader opens, within the limits and when the JSON codecs agree: it restores exactly the dump that the runtime wrote (the file that was captured is the one that is read back: reads_files says only that opening a file gives what it holds), its saved ranges are eligible mappings of the process within the budget (all that could be read, when the status is ok), and every read inside a saved range is answered by the bundle as the process answered it.\<close>

theorem captured_bundle_answers_as_process:
  assumes "capture_self env opts rs = (Inr tw, rs')" "new_names (be_capture env) rs" "reads_files env"
    and "\<not> bc_disable_rodata opts" "be_process env = Inr (name, p)"
    and "pr_mem p = Some f" "file_contract f" "file_slices f" "ascending_maps (pr_maps p)"
    and "decodes_encoded env dm di" "file_works tenv"
    and "reader_admits ropts (rodata_budget (bc_max_rodata_bytes opts)) (tw_members tw)"
    and "of_kind KIndex (tw_members tw) \<noteq> []"
  shows "\<exists>b sr ms.
    bundle_open tenv dm di ropts (written_stream tw) d =
      (Inr b, d(dump_path tenv \<mapsto> ce_runtime_dump (be_capture env))) \<and>
    bun_dump_path b = dump_path tenv \<and> bun_segments b = Some sr \<and>
    set ms \<subseteq> {m \<in> set (eligible_string_ranges (Some p)). probed (process_read_at_addr (Some p)) m} \<and>
    (rm_status (mt_rodata (bun_meta b)) = RodataOK \<longrightarrow>
      set ms = {m \<in> set (eligible_string_ranges (Some p)). probed (process_read_at_addr (Some p)) m}) \<and>
    range_sizes ms \<le> rodata_budget (bc_max_rodata_bytes opts) \<and>
    answers_as (process_read_at_addr (Some p)) sr ms"
  using assms process_slices [of p f] by (intro captured_bundle_opens) simp_all

theorem captured_bundle_answers_as_process_witness:
  "\<exists>tw b sr ms dm di. fst (capture_self tiny_bundle_env tiny_bundle_options tiny_resources) = Inr tw \<and>
    bundle_open tiny_temp dm di default_reader (written_stream tw) (\<lambda>_. None) = (Inr b, [''dump'' \<mapsto> [1, 2, 3]]) \<and>
    bun_segments b = Some sr \<and> answers_as (process_read_at_addr (Some tiny_process)) sr ms \<and>
    vvar \<in> set (eligible_string_ranges (Some tiny_process)) - set ms"
proof -
  obtain rs where run: "capture_self tiny_bundle_env tiny_bundle_options tiny_resources = (Inr captured_tar, rs)"
    by (rule captured_run)
  let ?dm = "\<lambda>bs e. Inr (written_meta ''now'' captured_input, [])" and ?di = "\<lambda>bs e. Inr (captured_infos, [])"
  have new: "new_names (be_capture tiny_bundle_env) tiny_resources"
    by (simp add: new_names_def tiny_resources_def)
  have reads: "reads_files tiny_bundle_env"
    by (auto simp: reads_files_def tiny_bundle_env_def tiny_open_def stat_size split: option.splits if_splits)
  have process: "be_process tiny_bundle_env = Inr (''maps'', tiny_process)" by (simp add: tiny_bundle_env_def)
  have mem: "pr_mem tiny_process = Some (mapped_read_at tiny_memory)" by (simp add: tiny_process_def)
  have maps: "ascending_maps (pr_maps tiny_process)" by (simp add: ascending_maps_def tiny_process_def tiny_maps_def vvar_def)
  have codecs: "decodes_encoded tiny_bundle_env ?dm ?di"
    by (auto simp: decodes_encoded_def tiny_bundle_env_def split: if_splits)
  have admits: "reader_admits default_reader (rodata_budget (bc_max_rodata_bytes tiny_bundle_options)) (tw_members captured_tar)"
    by code_simp
  have index: "of_kind KIndex (tw_members captured_tar) \<noteq> []" by code_simp
  have dump: "dump_path tiny_temp = ''dump''" "ce_runtime_dump (be_capture tiny_bundle_env) = [1, 2, 3]"
    by (simp_all add: dump_path_def tiny_temp_def tiny_bundle_env_def tiny_capture_env_def)
  have unread: "vvar \<in> set (eligible_string_ranges (Some tiny_process))"
    "\<not> probed (process_read_at_addr (Some tiny_process)) vvar" by code_simp+
  obtain b sr ms where "bundle_open tiny_temp ?dm ?di default_reader (written_stream captured_tar) (\<lambda>_. None) =
      (Inr b, [''dump'' \<mapsto> [1, 2, 3]])" "bun_segments b = Some sr"
    "answers_as (process_read_at_addr (Some tiny_process)) sr ms"
    "set ms \<subseteq> {m. probed (process_read_at_addr (Some tiny_process)) m}"
    using captured_bundle_answers_as_process [OF run new reads captured_options(8) process mem file_contract_mapped
        file_slices_mapped maps codecs tiny_works(1) admits index, of "\<lambda>_. None"] unfolding dump by blast
  moreover from this(4) unread have "vvar \<in> set (eligible_string_ranges (Some tiny_process)) - set ms" by blast
  moreover have "fst (capture_self tiny_bundle_env tiny_bundle_options tiny_resources) = Inr captured_tar" using run by simp
  ultimately show ?thesis by (intro exI conjI)
qed

text \<open>C2: for a valid request, a built graph and a supported runtime, \<open>ComputeFromAnalysis\<close> returns the reference response, in which the selection is a filter, the reachable sets are closures and the overlaps are intersections.\<close>

theorem answer_is_the_reference:
  assumes "validate_request (Some req) opts = None" "an_graph an \<noteq> None" "\<not> dg_unsupported diag"
  shows "compute_from_analysis req (Some an) labels diag opts = reference_response req an labels diag opts"
  by (rule compute_from_analysis_eq [OF assms])

theorem answer_is_the_reference_witness:
  "compute_from_analysis (job ''a'') (Some tiny_analysis) tiny_labels tiny_diag tiny_options =
     reference_response (job ''a'') tiny_analysis tiny_labels tiny_diag tiny_options \<and>
   map_sum id rp_bytes (compute_from_analysis (job ''a'') (Some tiny_analysis) tiny_labels tiny_diag tiny_options) =
     Inr 16"
proof
  have "validate_request (Some (job ''a'')) tiny_options = None" by code_simp
  then show "compute_from_analysis (job ''a'') (Some tiny_analysis) tiny_labels tiny_diag tiny_options =
     reference_response (job ''a'') tiny_analysis tiny_labels tiny_diag tiny_options"
    by (rule answer_is_the_reference) (simp_all add: tiny_analysis_def tiny_diag_def)
  show "map_sum id rp_bytes (compute_from_analysis (job ''a'') (Some tiny_analysis) tiny_labels tiny_diag tiny_options) =
     Inr 16"
    by code_simp
qed

text \<open>C3: reading through the resolver of a lazy parse returns exactly the bytes that an eager parse keeps in \<open>Contents\<close> of the object holding the range, and nothing elsewhere.\<close>

theorem lazy_reads_are_eager_contents:
  assumes "parse_lazy_contents src e (Some (bytes_read_at src)) opts = Inr (s, v)"
    and "parse src e (keep_contents True opts) = Inr full"
    and "length src < 2 ^ 63" and "objects_disjoint (hs_objects full)" and "0 < n"
  shows "resolver_read (Some v) a n = Some bs \<longleftrightarrow>
    a \<noteq> 0 \<and> (\<exists>ob \<in> set (hs_objects full). object_holds ob a n \<and> bs = object_slice ob a n)"
  by (rule parse_lazy_read [OF assms])

theorem lazy_reads_are_eager_contents_witness:
  "\<exists>s v. parse_lazy_contents tiny_dump EOF (Some (bytes_read_at tiny_dump)) lenient = Inr (s, v) \<and>
     resolver_read (Some v) 18 2 = Some [0, 0]"
proof -
  let ?obs = "[\<lparr>ho_addr = 16, ho_size = 8, ho_contents = [32, 0, 0, 0, 0, 0, 0, 0],
    ho_fields = [\<lparr>fld_kind = 1, fld_offset = 0\<rparr>], ho_pointer_addrs = [32], ho_pointer_offsets = []\<rparr>]"
  have "map_sum id hs_objects (parse tiny_dump EOF (keep_contents True lenient)) = Inr ?obs"
    by code_simp
  then obtain full where full: "parse tiny_dump EOF (keep_contents True lenient) = Inr full"
    "hs_objects full = ?obs"
    by (cases "parse tiny_dump EOF (keep_contents True lenient)") auto
  with parse_lazy_snapshot [of tiny_dump EOF "bytes_read_at tiny_dump" lenient]
  obtain s v where lazy: "parse_lazy_contents tiny_dump EOF (Some (bytes_read_at tiny_dump)) lenient = Inr (s, v)"
    by (cases "parse_lazy_contents tiny_dump EOF (Some (bytes_read_at tiny_dump)) lenient") auto
  have "length tiny_dump < 2 ^ 63" by (simp add: tiny_dump_def bytes_of_string_def Header_def)
  moreover have "objects_disjoint (hs_objects full)"
    unfolding full(2) by (simp add: objects_disjoint_def)
  ultimately have "resolver_read (Some v) 18 2 = Some [0, 0] \<longleftrightarrow> (18 :: u64) \<noteq> 0 \<and>
      (\<exists>ob \<in> set (hs_objects full). object_holds ob 18 2 \<and> [0, 0] = object_slice ob 18 2)"
    by (rule lazy_reads_are_eager_contents [OF lazy full(1)]) simp
  moreover have "\<exists>ob \<in> set (hs_objects full). object_holds ob 18 2 \<and> [0, 0] = object_slice ob 18 2"
    unfolding full(2) by (simp add: object_holds_def object_slice_def)
  ultimately show ?thesis using lazy by simp
qed

text \<open>C4: after any history of queries, failed queries and closes, a query answers exactly as \<open>ComputeFromAnalysis\<close> on the analysis the session was made from, or with the closed error: neither the label index nor the cached walks change an answer.\<close>

theorem session_answers_do_not_age:
  assumes "session_reaches (new_snapshot a labels diag opts) s" "labels_distinct labels"
  shows "fst (query req s c) =
    polled (if ss_analysis s = None then Inl closed_error
            else compute_from_analysis req (Some a) labels diag opts) c"
  by (rule session_history_free [OF assms])

theorem session_answers_do_not_age_witness:
  "fst (query (job ''b'') (snd (query (job ''a'') tiny_session Background)) Background) =
     polled (if ss_analysis (snd (query (job ''a'') tiny_session Background)) = None then Inl closed_error
       else compute_from_analysis (job ''b'') (Some tiny_analysis) tiny_labels tiny_diag tiny_options) Background \<and>
   ss_analysis (snd (query (job ''a'') tiny_session Background)) \<noteq> None"
proof
  have "session_reaches tiny_session (snd (query (job ''a'') tiny_session Background))"
    unfolding session_reaches_def by (rule r_into_rtranclp, rule step_query)
  then show "fst (query (job ''b'') (snd (query (job ''a'') tiny_session Background)) Background) =
     polled (if ss_analysis (snd (query (job ''a'') tiny_session Background)) = None then Inl closed_error
       else compute_from_analysis (job ''b'') (Some tiny_analysis) tiny_labels tiny_diag tiny_options) Background"
    unfolding tiny_session_def by (rule session_answers_do_not_age [OF _ tiny_labels_distinct])
  show "ss_analysis (snd (query (job ''a'') tiny_session Background)) \<noteq> None" by code_simp
qed

text \<open>C5: the reachable, exclusive and shared measures of \<open>Exclusive\<close> are the exact numbers of objects and bytes of what the selection reaches, of the part that no global or unselected root reaches, and of the rest; the last two add up to the first.\<close>

theorem exclusive_and_shared_split_reach:
  assumes "exclusive_of s req c = Inr (er, c')"
  shows "let R = selection_reach s req; X = outside_reach s (gor_id ` set (session_matching s req)) in
    measured (session_graph s) R (er_reachable er) \<and>
    measured (session_graph s) (R - X) (er_exclusive er) \<and>
    measured (session_graph s) (R \<inter> X) (er_shared er) \<and>
    ms_objects (er_reachable er) = ms_objects (er_exclusive er) + ms_objects (er_shared er) \<and>
    unat (ms_bytes (er_reachable er)) = unat (ms_bytes (er_exclusive er)) + unat (ms_bytes (er_shared er))"
  using exclusive_of_Inr [OF assms] exclusive_partition [OF assms] by (simp add: Let_def)

theorem exclusive_and_shared_split_reach_witness:
  "\<exists>er c'. exclusive_of tiny_session (job ''a'') Background = Inr (er, c') \<and>
     ms_bytes (er_exclusive er) = 8 \<and> ms_objects (er_shared er) = 1 \<and>
     unat (ms_bytes (er_reachable er)) = unat (ms_bytes (er_exclusive er)) + unat (ms_bytes (er_shared er))"
proof -
  have "map_sum id (\<lambda>(er, c). (ms_bytes (er_exclusive er), ms_objects (er_shared er)))
      (exclusive_of tiny_session (job ''a'') Background) = Inr (8, 1)"
    by code_simp
  then obtain er c' where er: "exclusive_of tiny_session (job ''a'') Background = Inr (er, c')"
    and v: "ms_bytes (er_exclusive er) = 8 \<and> ms_objects (er_shared er) = 1"
    by (rule run_witness) simp
  from er v exclusive_and_shared_split_reach [OF er] show ?thesis by (simp add: Let_def)
qed

text \<open>C6: every snapshot that \<open>parseInto\<close> returns is well formed: its statistics count its records, its pointer and slot lists are parallel, no object range wraps around, and a strict parse has no warnings.\<close>

theorem parsed_snapshot_ok:
  assumes "parse_into src e opts tracker = Inr (s, v)"
  shows "snapshot_ok (with_defaults opts) s"
  by (rule parse_into_ok [OF assms])

theorem parsed_snapshot_ok_witness:
  "\<exists>s v. parse_into tiny_dump EOF lenient None = Inr (s, v) \<and> stats_of s = tiny_stats \<and>
     snapshot_ok (with_defaults lenient) s"
proof -
  have stats: "map_sum id (\<lambda>(s, v). stats_of s) (parse_into tiny_dump EOF lenient None) = Inr tiny_stats"
    by code_simp
  then obtain s v where run: "parse_into tiny_dump EOF lenient None = Inr (s, v)"
    by (cases "parse_into tiny_dump EOF lenient None") auto
  with stats parsed_snapshot_ok [OF run] show ?thesis by simp
qed

text \<open>C7: \<open>ParseLazyContents\<close> returns the snapshot that \<open>Parse\<close> with \<open>KeepObjectContents\<close> returns, less the contents, and the same error when it fails.\<close>

theorem lazy_parse_equals_eager:
  "map_sum id fst (parse_lazy_contents src e (Some f) opts) =
     map_sum id drop_contents (parse src e (keep_contents True opts))"
  by (rule parse_lazy_snapshot)

text \<open>C8: a snapshot opened from a bundle is the session loaded from the bytes of the heap dump in it, with the reader of its saved segments and its warnings; afterwards the bundle is closed and the disk and the open files are as before.\<close>

theorem offline_session_is_the_dumps:
  assumes "tidy env d" "bundles path = Inr ts"
    and "bundle_open env dm di \<lparr>rdo_max_profile = 0, rdo_max_rodata = 0, rdo_max_metadata = 0, rdo_max_index = 0\<rparr> ts d =
      (Inr b, d(dump_path env \<mapsto> dump))"
    and "bun_dump_path b = dump_path env"
  shows "fst (open_snapshot bundles env dm di path opts (rs, d)) =
    (case load_snapshot (dump_source_of dump) default_recover (segment_reader_of (bun_segments b))
            (map text_message (bun_warnings b)) opts (rs_ctx rs) of
       Inl e \<Rightarrow> Inl e
     | Inr (s, c) \<Rightarrow> Inr \<lparr>of_session = s, of_capture = bun_meta b\<rparr>) \<and>
    (case snd (open_snapshot bundles env dm di path opts (rs, d)) of (rs', d') \<Rightarrow> same_files rs' rs \<and> d' = d)"
proof -
  obtain r rs' d' where run: "open_snapshot bundles env dm di path opts (rs, d) = (r, rs', d')" by (metis surj_pair)
  show ?thesis
    using open_snapshot_loads [where bundles = bundles and path = path, OF assms, of opts rs]
      open_snapshot_restores [OF assms(1) run] run by simp
qed

theorem offline_session_is_the_dumps_witness:
  "\<exists>s. fst (open_snapshot (\<lambda>p. Inr saved_stream) tiny_temp tiny_dec_meta tiny_dec_infos ''b.tar'' tiny_options
      (tiny_resources, \<lambda>_. None)) = Inr s"
proof -
  let ?open = "bundle_open tiny_temp tiny_dec_meta tiny_dec_infos default_reader saved_stream (\<lambda>_. None)"
  have "\<not> isl (fst ?open) \<and> bun_dump_path (projr (fst ?open)) = dump_path tiny_temp \<and>
      bun_segments (projr (fst ?open)) = Some tiny_saved" by code_simp
  then obtain b d where run: "?open = (Inr b, d)" and path: "bun_dump_path b = dump_path tiny_temp"
    and b: "bun_segments b = Some tiny_saved"
    by (cases ?open; cases "fst ?open") auto
  have named: "te_create tiny_temp \<noteq> Inr []" by (simp add: tiny_temp_def)
  have "of_kind KDump (ts_members saved_stream) = [plain_member HeapDumpMember known_dump]" by code_simp
  then have "d = [dump_path tiny_temp \<mapsto> known_dump]"
    using run unfolding bundle_open_Inr [OF named] by (auto simp: dump_disk_def plain_member_def)
  note session = offline_session_is_the_dumps [OF tiny_works(2) _ run [unfolded this default_reader_def] path,
      where bundles = "\<lambda>p. Inr saved_stream" and path = "''b.tar''"]
  have "map_sum id (\<lambda>(s, c). ()) (load_snapshot (dump_source_of known_dump) default_recover
      (segment_reader_of (Some tiny_saved)) (map text_message (bun_warnings (projr (fst ?open)))) tiny_options Background) =
      Inr ()" by code_simp
  then obtain s c where "load_snapshot (dump_source_of known_dump) default_recover
      (segment_reader_of (Some tiny_saved)) (map text_message (bun_warnings b)) tiny_options Background = Inr (s, c)"
    unfolding run by simp (rule run_witness, auto)
  with session [of tiny_options tiny_resources] b show ?thesis by (simp add: tiny_resources_def)
qed

text \<open>C9: with fewer than \<open>2^32\<close> objects, the children of each object are its resolved pointers in order, each once: the epoch stamps do what the linear scan they replace does.\<close>

theorem children_are_resolved_pointers:
  assumes "build_context c (Some snap) opts = Inr an" and "an_graph an = Some g"
    and "length (hs_objects snap) < 2 ^ 32" and "k < length (hs_objects snap)"
  shows "children g (of_nat k) =
    dedup [] (List.map_filter (find_object_containing (Some g)) (ho_pointer_addrs (hs_objects snap ! k)))"
  by (rule build_edges(3) [OF assms])

theorem children_are_resolved_pointers_witness:
  "\<exists>an g. build_context Background (Some tiny_snapshot) strict_build = Inr an \<and> an_graph an = Some g \<and>
     children g 0 = dedup [] (List.map_filter (find_object_containing (Some g)) [35, 0, 35])"
proof -
  obtain an g where run: "build_context Background (Some tiny_snapshot) strict_build = Inr an" "an_graph an = Some g"
    by (rule tiny_build)
  have "length (hs_objects tiny_snapshot) = 2" "hs_objects tiny_snapshot ! 0 = tiny_object 16 [35, 0, 35]"
    by (simp_all add: tiny_snapshot_def)
  with children_are_resolved_pointers [OF run, of 0] run show ?thesis by (simp add: tiny_object_def)
qed

text \<open>C10: \<open>ReachableFrom\<close> is the closure of the valid roots under the valid child edges, for every graph, cyclic or not.\<close>

theorem reachable_is_closure:
  "reachable_from (Some gr) roots =
    (edges (valid_id (Some gr)) (children gr))\<^sup>* `` {x \<in> rr_object_id ` set roots. valid_id (Some gr) x}"
  by (simp add: reachable_from_closure closure_def)

text \<open>C11: a witness that \<open>FindPath\<close> returns is a path of the graph from the root it names to the target, its references lead along it, and no path from any root is shorter.\<close>

theorem shortest_path_found:
  assumes "find_path c (Some g) roots target mv = (w, err)" and "wi_found w"
  shows "err = None \<and> graph_path g (wi_objects w) \<and> last (wi_objects w) = target \<and>
    0 \<le> wi_root_index w \<and> wi_root_index w < int (length roots) \<and>
    hd (wi_objects w) = rr_object_id (roots ! nat (wi_root_index w)) \<and>
    map rf_target (wi_references w) = tl (wi_objects w) \<and>
    (\<forall>xs. graph_path g xs \<longrightarrow> hd xs \<in> rr_object_id ` set roots \<longrightarrow> last xs = target \<longrightarrow>
      length (wi_objects w) \<le> length xs)"
  using find_path_shortest [OF assms] by blast

theorem shortest_path_found_witness:
  "wi_objects (fst (find_path Background (Some tiny_graph) [root_at 0] 1 0)) = [0, 1] \<and>
     graph_path tiny_graph [0, 1]"
proof -
  have run: "fst (find_path Background (Some tiny_graph) [root_at 0] 1 0) =
      \<lparr>wi_found = True, wi_search_limited = False, wi_root_index = 0, wi_objects = [0, 1],
       wi_references = [\<lparr>rf_target = 1, rf_pointer = 0, rf_offset = 0, rf_offset_known = False\<rparr>]\<rparr>"
    by code_simp
  have "wi_found (fst (find_path Background (Some tiny_graph) [root_at 0] 1 0))" by (simp add: run)
  from shortest_path_found [OF prod.collapse [symmetric] this] run show ?thesis by simp
qed

text \<open>C12: decoding the label map at an address whose memory holds the slice header, the label records and the string bytes of some labels returns exactly those labels, the last value of a repeated key winning.\<close>

theorem stored_labels_are_decoded:
  assumes "objects_disjoint (hs_objects s)" "contents_sized (hs_objects s)" "standard_layout l"
    and "stored_labels (memory_read (Some (new_memory (Some s)))) (memory_read (Some (new_memory (Some s)))) l opts a kvs"
  shows "decode_label_map (memory_read (Some (new_memory (Some s)))) (memory_read (Some (new_memory (Some s)))) l opts a =
    Inr (labels_of kvs)"
  by (rule slice_reader.decode_stored_label_map [OF eager_memory_reader [OF assms(1,2)] assms(3,4)])

theorem stored_labels_are_decoded_witness:
  "decode_label_map (memory_read (Some map_memory)) (memory_read (Some map_memory)) amd64_layout no_label_options 4096 =
     Inr [(''k'', ''v'')]"
proof -
  have l: "standard_layout amd64_layout"
    using layout_entry_ok_mk(1) [of "''go1.26.''" 0 "''test''"] by (simp add: layout_entry_ok_def amd64_layout_def)
  have len: "length (ho_contents map_object) = 58" by code_simp
  have dis: "objects_disjoint (hs_objects (empty_snapshot\<lparr>hs_objects := [map_object]\<rparr>))"
    by (simp add: objects_disjoint_def)
  have sized: "contents_sized (hs_objects (empty_snapshot\<lparr>hs_objects := [map_object]\<rparr>))"
    using len by (simp add: contents_sized_def) (simp add: map_object_def)
  have "memory_read (Some map_memory) 4096 24 =
      Some (put_word amd64_layout 4120 @ put_word amd64_layout 1 @ put_word amd64_layout 1) \<and>
    memory_read (Some map_memory) 4120 32 = Some (put_label amd64_layout ((4152, ''k''), (4153, ''v''))) \<and>
    memory_read (Some map_memory) 4152 1 = Some (bytes_of_string ''k'') \<and>
    memory_read (Some map_memory) 4153 1 = Some (bytes_of_string ''v'') \<and>
    la_ptr_size amd64_layout = 8"
    by code_simp
  then have "stored_labels (memory_read (Some map_memory)) (memory_read (Some map_memory)) amd64_layout
      no_label_options 4096 [((4152, ''k''), (4153, ''v''))]"
    unfolding stored_labels_def Let_def
    by - (rule exI [of _ 4120], rule exI [of _ 1], auto simp: word_fits_def stored_string_ok_def
        normalize_options_def no_label_options_def DefaultMaxLabels_def DefaultMaxStringLen_def)
  then have "decode_label_map (memory_read (Some map_memory)) (memory_read (Some map_memory)) amd64_layout
      no_label_options 4096 = Inr (labels_of [((4152, ''k''), (4153, ''v''))])"
    unfolding map_memory_def by (rule stored_labels_are_decoded [OF dis sized l])
  then show ?thesis by (simp add: labels_of_def put_pair_def)
qed

text \<open>C13: a bundle that was written without an error opens again: the reader finds the metadata that was written, the bytes of every profile, the saved segments, and the bytes of the heap dump in a temporary file, when the JSON decoders read back what the encoders wrote, the file system works, the members are within the limits of the reader, and the segments do not overlap.\<close>

theorem written_bundles_read_back:
  assumes "write_bundle fails em ei now inp \<lparr>tw_members = [], tw_calls = 0\<rparr> = Inr ((), tw)"
    and "em (written_meta now inp) = Inr mb" "dm mb None = Inr (written_meta now inp, [])"
    and "ei (map segment_info_of (enumerate 0 (win_segments inp))) = Inr sb"
    and "di sb None = Inr (map segment_info_of (enumerate 0 (win_segments inp)), [])"
    and "distinct (map fst (win_profiles inp))" "write_fits opts mb sb inp" "file_works env"
    and "new_segments_reader (map segment_info_of (enumerate 0 (win_segments inp)))
      (map segment_data (win_segments inp)) = Inr sr"
  shows "\<exists>b. bundle_open env dm di opts (written_stream tw) d =
      (Inr b, d(dump_path env \<mapsto> take (nat (sint (win_dump_size inp))) (win_dump inp))) \<and>
    bun_meta b = written_meta now inp \<and> map_of (bun_profiles b) = map_of (win_profiles inp) \<and>
    bun_segments b = (if win_segments inp = [] then None else Some sr) \<and> bun_dump_path b = dump_path env"
  using assms by (rule written_reads_back)

theorem written_bundles_read_back_witness:
  "\<exists>b. bundle_open tiny_temp tiny_dec_meta tiny_dec_infos default_reader (written_stream tiny_tar) (\<lambda>_. None) =
      (Inr b, [''dump'' \<mapsto> [1, 2, 3]]) \<and> bun_segments b = Some tiny_saved"
proof -
  have fits: "write_fits default_reader [1] [2] tiny_input" by code_simp
  have dump: "take (nat (sint (win_dump_size tiny_input))) (win_dump tiny_input) = [1, 2, 3]" "win_segments tiny_input \<noteq> []"
    "dump_path tiny_temp = ''dump''" "distinct (map fst (win_profiles tiny_input))" by code_simp+
  show ?thesis
    using written_bundles_read_back [OF tiny_written, of "[1]" tiny_dec_meta "[2]" tiny_dec_infos default_reader tiny_temp
        tiny_saved "\<lambda>_. None", folded tiny_infos_def] fits dump tiny_saved_reader tiny_works(1)
    by (auto simp: tiny_enc_meta_def tiny_enc_infos_def tiny_dec_meta_def tiny_dec_infos_def)
qed

text \<open>C14: whatever happens in a computation on the running process or in a bundle capture (an error of the system, of the dump, of the labels, a cancelled context, or a result) its temporary directory is gone and its files are closed at the end; a request that is invalid, or a runtime that is not supported, is answered before anything is captured.\<close>

theorem captures_leave_nothing_behind:
  assumes "new_names cenv rs" "be_capture benv = cenv"
  shows "same_files (snd (compute cenv env (Some (new_computer cenv opts)) req rs)) rs \<and>
    same_files (snd (capture_self benv bopts rs)) rs \<and>
    (case preflight env opts req of
       Some e \<Rightarrow> compute cenv env (Some (new_computer cenv opts)) req rs = (Inl e, rs)
     | None \<Rightarrow> True)"
  using compute_releases [OF prod.collapse [symmetric] assms(1)] capture_self_releases [OF prod.collapse [symmetric]] assms
  by (auto simp: compute_new sx_fail_def split: option.split)

theorem captures_leave_nothing_behind_witness:
  "\<exists>rs. capture_self tiny_bundle_env tiny_bundle_options tiny_resources = (Inr captured_tar, rs) \<and>
    rs_dirs rs = {} \<and> rs_files rs = {#}"
proof -
  obtain rs where run: "capture_self tiny_bundle_env tiny_bundle_options tiny_resources = (Inr captured_tar, rs)"
    by (rule captured_run)
  have "new_names tiny_capture_env tiny_resources" "be_capture tiny_bundle_env = tiny_capture_env"
    by (simp_all add: new_names_def tiny_resources_def tiny_bundle_env_def)
  from captures_leave_nothing_behind [OF this, of undefined undefined undefined tiny_bundle_options] run show ?thesis
    by (auto simp: same_files_def tiny_resources_def)
qed

text \<open>C15: a request that is not valid is answered with 400 or 405 and one that the gate refuses with 429 or 500, and both leave the gate and the process alone; for a valid request admitted below the capacity the computation runs once, the response is that of its result, and afterwards the slot is free again and the cooldown has started.\<close>

theorem requests_return_the_slot:
  "case serve dec opts max_body run now later hq (g, w) of (resp, g', w') \<Rightarrow>
     (case valid_request dec opts max_body hq of
        None \<Rightarrow> g' = g \<and> w' = w \<and> hr_status resp \<in> {400, 405}
      | Some req \<Rightarrow>
          (case fst (acquire now g) of
             Some e \<Rightarrow> g' = g \<and> w' = w \<and> hr_status resp = (case e of Inl _ \<Rightarrow> 500 | Inr _ \<Rightarrow> 429)
           | None \<Rightarrow>
               gt_slots g < gt_capacity g \<and> g' = g\<lparr>gt_next := later + gt_cooldown g\<rparr> \<and> w' = snd (run req w) \<and>
               resp = (case fst (run req w) of Inl e \<Rightarrow> write_compute_error e | Inr r \<Rightarrow> write_json [] 200 (Inr r))))"
proof (cases "valid_request dec opts max_body hq")
  case None
  from serve_invalid [OF None, of run now later "(g, w)"] None show ?thesis by (auto split: prod.splits)
next
  case (Some req)
  obtain r g1 where a: "acquire now g = (r, g1)" by (cases "acquire now g")
  show ?thesis
  proof (cases r)
    case None
    with a Some serve_admitted [of dec opts max_body hq req now g g1 run later w] admitted_takes_slot [of now g g1]
    show ?thesis by simp
  next
    case (Some e)
    with a \<open>valid_request dec opts max_body hq = Some req\<close>
      serve_refused [of dec opts max_body hq req now g e g1 run later w]
    show ?thesis by (auto split: prod.splits)
  qed
qed

text \<open>C16: after any sequence of requests to the two endpoints, with whatever bodies, methods and failures, the slot of the gate is as free as before, no file or directory is left, and there is one answer for each request; if the slot was taken to begin with, every one of them is answered by an error status and nothing changes.\<close>

theorem shared_gate_serves_requests:
  assumes "be_capture (sv_bundle sv) = sv_capture sv" "new_names (sv_capture sv) rs"
    and "serve_requests sv rqs (g, rs) = (answers, g', rs')"
  shows "same_slots g' g \<and> same_files rs' rs \<and> length answers = length rqs \<and>
    (gt_slots g = gt_capacity g \<and> 0 \<le> gt_cooldown g \<longrightarrow>
       g' = g \<and> rs' = rs \<and> (\<forall>ans \<in> set answers. refused ans))"
  using serve_requests_keep [OF assms] busy_refuses_all [of g sv rqs rs answers "(g', rs')"] assms(3) by simp

theorem shared_gate_serves_requests_witness:
  "\<exists>answers g' rs'. serve_requests tiny_server
      [(BundleRequest ''GET'' [], 10, 20), (MemUsageRequest \<lparr>ht_method = ''POST'', ht_body = []\<rparr>, 22, 23)]
      (registered_gate (sv_mem tiny_server) (sv_bundles tiny_server), tiny_resources) = (answers, g', rs') \<and>
    gt_slots g' = 0 \<and> same_files rs' tiny_resources \<and> length answers = 2"
proof -
  let ?run = "serve_requests tiny_server
      [(BundleRequest ''GET'' [], 10, 20), (MemUsageRequest \<lparr>ht_method = ''POST'', ht_body = []\<rparr>, 22, 23)]
      (registered_gate (sv_mem tiny_server) (sv_bundles tiny_server), tiny_resources)"
  obtain answers g' rs' where run: "?run = (answers, g', rs')" by (metis surj_pair)
  have "be_capture (sv_bundle tiny_server) = sv_capture tiny_server" "new_names (sv_capture tiny_server) tiny_resources"
    "gt_slots (registered_gate (sv_mem tiny_server) (sv_bundles tiny_server)) = 0"
    by (simp_all add: new_names_def tiny_server_def tiny_resources_def tiny_bundle_env_def registered_gate_def new_gate_def)
  with shared_gate_serves_requests [OF _ _ run] run show ?thesis by (auto simp: same_slots_def)
qed

text \<open>C17: the fetch command ends with code 0 exactly with a body that came to its end within the size limit and that is a valid archive, and then the destination (or the standard output) holds all of it; with any other code the disk, the destination included, is as it was, and nothing was printed in full. No spool file is left, and the body of the response is closed.\<close>

theorem fetched_bundles_replace_atomically:
  assumes "spool_ok (sp_temp (ft_spool env)) d"
    and "\<And>host. te_create (sp_temp (ft_spool env)) \<noteq> Inr (fetch_name env opts host)"
    and "runFetch env dm di opts target (rs, d) = (code, out, rs', d')"
  shows "rs' = rs \<and>
    ((\<exists>body host. fst (fetchBundle (ft_http env) target (fo_gc opts) rs) = Inr (body, host) \<and> sc_end body = EOF \<and>
      ValidateArchive dm di (sp_stream (ft_spool env) (sc_bytes body)) = None \<and>
      (fo_max_bytes opts \<noteq> 0 \<longrightarrow> int (length (sc_bytes body)) \<le> sint (fo_max_bytes opts)) \<and> code = 0 \<and>
      (if fetch_name env opts host = ''-'' then out = Some (sc_bytes body) \<and> d' = d
       else out = None \<and> d' = d(fetch_name env opts host \<mapsto> sc_bytes body))) \<or>
    code \<in> {1, 2} \<and> out = None \<and> d' = d)"
  using fetch_is_atomic [OF assms] unfolding fetched_def by blast

theorem fetched_bundles_replace_atomically_witness:
  "runFetch tiny_fetch tiny_dec_meta tiny_dec_infos (fetch_to ''out.tar'') ''host'' (tiny_resources, [''out.tar'' \<mapsto> [9]]) =
     (0, None, tiny_resources, [''out.tar'' \<mapsto> [1, 2, 3]])"
proof -
  let ?run = "runFetch tiny_fetch tiny_dec_meta tiny_dec_infos (fetch_to ''out.tar'') ''host''
    (tiny_resources, [''out.tar'' \<mapsto> [9]])"
  obtain code out rs' d' where run: "?run = (code, out, rs', d')" by (cases ?run)
  have "fst ?run = 0" by code_simp
  moreover have name: "fetch_name tiny_fetch (fetch_to ''out.tar'') host = ''out.tar''" for host
    by (simp add: fetch_name_def fetch_to_def)
  moreover have "fst (fetchBundle (ft_http tiny_fetch) ''host'' (fo_gc (fetch_to ''out.tar'')) tiny_resources) =
      Inr (\<lparr>sc_bytes = [1, 2, 3], sc_end = EOF\<rparr>, ''host'')" by code_simp
  moreover have "spool_ok (sp_temp (ft_spool tiny_fetch)) [''out.tar'' \<mapsto> [9]]"
    "te_create (sp_temp (ft_spool tiny_fetch)) \<noteq> Inr ''out.tar''"
    by (simp_all add: spool_ok_def tiny_fetch_def tiny_temp_def)
  ultimately show ?thesis using fetched_bundles_replace_atomically [OF _ _ run] run by auto
qed

text \<open>C18: the bundle handler ends a stream normally exactly when the capture returned without an error and then the stream is everything it wrote; a failure before the first byte is a JSON error, a failure after it aborts the connection; an invalid or refused request leaves the gate alone, and an admitted one gives the slot back.\<close>

theorem bundle_stream_is_never_falsely_complete:
  "case serveBundle cap copts filename now later meth gc (g, w) of (ans, g', w') \<Rightarrow>
     (case valid_bundle_request copts meth gc of
        None \<Rightarrow> g' = g \<and> w' = w \<and> (\<exists>r. ans = JsonAnswer r \<and> hr_status r \<in> {400, 405})
      | Some opts \<Rightarrow>
          (case fst (acquire now g) of
             Some e \<Rightarrow> g' = g \<and> w' = w \<and>
               (\<exists>r. ans = JsonAnswer r \<and> hr_status r = (case e of Inl _ \<Rightarrow> 500 | Inr _ \<Rightarrow> 429))
           | None \<Rightarrow>
               (\<exists>chunks err. cap opts w = ((chunks, err), w') \<and> gt_slots g < gt_capacity g \<and>
                  g' = g\<lparr>gt_next := later + gt_cooldown g\<rparr> \<and>
                  (case ans of
                     StreamAnswer hs bytes \<Rightarrow> err = None \<and> bytes = concat chunks
                   | AbortedAnswer hs bytes \<Rightarrow> err \<noteq> None \<and> chunks \<noteq> [] \<and> bytes = concat chunks
                   | JsonAnswer r \<Rightarrow> err \<noteq> None \<and> chunks = [] \<and> hr_status r = 500))))"
proof (cases "valid_bundle_request copts meth gc")
  case None
  from serveBundle_invalid [OF None, of cap filename now later "(g, w)"] None show ?thesis by (auto split: prod.splits)
next
  case (Some opts)
  obtain r g1 where a: "acquire now g = (r, g1)" by (cases "acquire now g")
  show ?thesis
  proof (cases r)
    case None
    obtain chunks err w' where cap: "cap opts w = ((chunks, err), w')" by (metis surj_pair)
    with None a Some serveBundle_admitted [of copts meth gc opts now g g1 cap w chunks err w' filename later]
      admitted_takes_slot [of now g g1]
    show ?thesis by (simp add: stream_answer_def writeJSONError_def split: option.split)
  next
    case (Some e)
    with a \<open>valid_bundle_request copts meth gc = Some opts\<close>
      serveBundle_refused [of copts meth gc opts now g e g1 cap filename later w]
    show ?thesis by (auto split: prod.splits)
  qed
qed

text \<open>C19: when a bundle does not open, for whatever reason and at whatever member, the temporary file of the heap dump has been removed: the disk is as it was before.\<close>

theorem failed_open_leaves_no_file:
  assumes "tidy env d" "bundle_open env dm di opts ts d = (Inl e, d')"
  shows "d' = d"
  using assms by (rule bundle_open_error)

theorem failed_open_leaves_no_file_witness:
  "\<exists>e. bundle_open tiny_temp tiny_dec_meta tiny_dec_infos default_reader
      (written_stream (tiny_tar\<lparr>tw_members := tl (tw_members tiny_tar)\<rparr>)) (\<lambda>_. None) = (Inl e, \<lambda>_. None)"
proof -
  let ?run = "bundle_open tiny_temp tiny_dec_meta tiny_dec_infos default_reader
      (written_stream (tiny_tar\<lparr>tw_members := tl (tw_members tiny_tar)\<rparr>)) (\<lambda>_. None)"
  have "isl (fst ?run)" by code_simp
  then obtain e d' where run: "?run = (Inl e, d')" by (cases ?run) (auto simp: isl_def)
  with failed_open_leaves_no_file [OF tiny_works(2) run] show ?thesis by simp
qed

text \<open>C20: an archive that the validator accepts is one that the reader opens when its limits allow the sizes and the file system works; the only error left is that two saved segments overlap, which the validator does not look at.\<close>

theorem validated_bundles_open:
  assumes "ValidateArchive dm di ts = None" "tar_sizes (ts_members ts)"
    and "limits_allow opts (ts_members ts)" "file_works env"
  shows "(\<exists>b. bundle_open env dm di opts ts d = (Inr b, dump_disk env (ts_members ts) d)) \<or>
    (\<exists>x y d'. bundle_open env dm di opts ts d = (Inl (overlap_error x y), d'))"
  using assms by (rule validated_opens)

theorem validated_bundles_open_witness:
  "(\<exists>b. bundle_open tiny_temp tiny_dec_meta tiny_dec_infos default_reader valid_stream (\<lambda>_. None) =
      (Inr b, dump_disk tiny_temp (ts_members valid_stream) (\<lambda>_. None))) \<or>
    (\<exists>x y d'. bundle_open tiny_temp tiny_dec_meta tiny_dec_infos default_reader valid_stream (\<lambda>_. None) =
      (Inl (overlap_error x y), d'))"
proof (rule validated_bundles_open)
  show "ValidateArchive tiny_dec_meta tiny_dec_infos valid_stream = None" by code_simp
  show "tar_sizes (ts_members valid_stream)" by code_simp
  show "limits_allow default_reader (ts_members valid_stream)" by code_simp
qed simp

text \<open>C21: the order of the members does not matter: a permuted archive opens too, with the same metadata, segments, warnings, profiles and the same file on disk.\<close>

theorem open_ignores_member_order:
  assumes "bundle_open env dm di opts ts d = (Inr b, d')" "te_create env \<noteq> Inr []"
    and "mset (ts_members ts) = mset ms'"
  shows "\<exists>b'. bundle_open env dm di opts (ts\<lparr>ts_members := ms'\<rparr>) d = (Inr b', d') \<and>
    bun_meta b' = bun_meta b \<and> bun_segments b' = bun_segments b \<and> bun_warnings b' = bun_warnings b \<and>
    bun_dump_path b' = bun_dump_path b \<and> map_of (bun_profiles b') = map_of (bun_profiles b)"
  using assms by (rule bundle_open_order)

theorem open_ignores_member_order_witness:
  "\<exists>b d'. bundle_open tiny_temp tiny_dec_meta tiny_dec_infos default_reader
      ((written_stream tiny_tar)\<lparr>ts_members := rev (tw_members tiny_tar)\<rparr>) (\<lambda>_. None) = (Inr b, d') \<and>
    bun_segments b = Some tiny_saved"
proof -
  let ?run = "bundle_open tiny_temp tiny_dec_meta tiny_dec_infos default_reader (written_stream tiny_tar) (\<lambda>_. None)"
  have "\<not> isl (fst ?run) \<and> bun_segments (projr (fst ?run)) = Some tiny_saved" by code_simp
  then obtain b d' where run: "?run = (Inr b, d')" "bun_segments b = Some tiny_saved"
    by (cases ?run; cases "fst ?run") auto
  have "te_create tiny_temp \<noteq> Inr []" "mset (ts_members (written_stream tiny_tar)) = mset (rev (tw_members tiny_tar))"
    by (simp_all add: tiny_temp_def written_stream_def)
  from open_ignores_member_order [OF run(1) this] run(2) show ?thesis by auto
qed

text \<open>C22: a command other than fetch and export, on any arguments and whatever fails on the way, ends with exit code 0, 1 or 2, leaves the disk and the open files as they were, and after a usage error has reported nothing. The files that are tracked are the source of the bundle (file or response body), the file of requests of explore, the dump that bubbles lists and the dumps and segments of the sessions.\<close>

theorem commands_leave_nothing_behind:
  assumes "tidy (cl_temp env) d" "args = [] \<or> hd args \<notin> {''fetch'', ''export''}"
    and "cli_main env args (rs, d) = ((code, out), rs', d')"
  shows "code \<in> {exitOK, exitUsage, exitFailure} \<and> same_files rs' rs \<and> d' = d \<and>
    (code = exitUsage \<longrightarrow> out = Silent \<and> rs' = rs)"
  using cli_tidy [OF assms(1,2), of rs] assms(3) by (simp add: tidy_run_def)

theorem commands_leave_nothing_behind_witness:
  "\<exists>out rs'. cli_main tiny_cli [''inspect'', ''b.tar''] (tiny_resources, \<lambda>_. None) = ((exitOK, out), rs', \<lambda>_. None) \<and>
    same_files rs' tiny_resources"
proof -
  let ?run = "cli_main tiny_cli [''inspect'', ''b.tar''] (tiny_resources, \<lambda>_. None)"
  obtain code out rs' d' where run: "?run = ((code, out), rs', d')" by (metis surj_pair)
  have "fst (fst ?run) = exitOK" by code_simp
  moreover have "tidy (cl_temp tiny_cli) (\<lambda>_. None)" by (simp add: tiny_cli_def)
  ultimately show ?thesis using commands_leave_nothing_behind [OF _ _ run] run by simp
qed

text \<open>C23: in every interleaving of callers of a gate of its own, a caller that is given the gate is the only one with a slot, and the cooldown that follows each earlier release has passed.\<close>

theorem one_capture_at_a_time:
  assumes "gate_reaches (start_world n cooldown now) w" and "gate_step w w'"
    and "k < length (wd_callers w)" "wd_callers w ! k \<noteq> Holding" "wd_callers w' ! k = Holding"
  shows "(\<forall>t \<in> set (wd_releases w). t + cooldown \<le> wd_clock w) \<and>
    (\<forall>j < length (wd_callers w). j \<noteq> k \<longrightarrow> \<not> has_slot (wd_callers w ! j))"
  by (rule gate_admission [OF assms])

theorem one_capture_at_a_time_witness:
  "\<exists>w w'. gate_reaches (start_world 2 5 7) w \<and> gate_step w w' \<and> wd_callers w' = [Holding, Outside] \<and>
     \<not> has_slot (wd_callers w ! 1)"
proof -
  let ?w = "set_caller 0 Sent \<lparr>gt_slots = 1, gt_capacity = 1, gt_next = 0, gt_cooldown = 5\<rparr> (start_world 2 5 7)"
  let ?w' = "set_caller 0 Holding (wd_gate ?w) ?w"
  have "gate_step (start_world 2 5 7) ?w"
    by (rule step_send) (simp_all add: start_world_def new_gate_def gate_send_def)
  then have reach: "gate_reaches (start_world 2 5 7) ?w" unfolding gate_reaches_def by (rule r_into_rtranclp)
  have step: "gate_step ?w ?w'"
    by (rule step_admit)
      (simp_all add: start_world_def set_caller_def gate_remaining_def time_sub_nonpos)
  have holds: "wd_callers ?w' = [Holding, Outside]" "length (wd_callers ?w) = 2" "wd_callers ?w ! 0 = Sent"
    by (simp_all add: start_world_def set_caller_def numeral_2_eq_2)
  have "0 < length (wd_callers ?w)" "wd_callers ?w ! 0 \<noteq> Holding" "wd_callers ?w' ! 0 = Holding"
    unfolding holds by simp_all
  from conjunct2 [OF one_capture_at_a_time [OF reach step this]] have "\<not> has_slot (wd_callers ?w ! 1)"
    unfolding holds(2) by (rule allE [of _ 1]) simp
  with reach step holds(1) show ?thesis by blast
qed

text \<open>C24: every step of the gate that moves a caller uses up one of finitely many moves, and from every reachable state there is a run in which all callers finish: a slot is never lost and nobody waits for ever.\<close>

theorem no_caller_is_stuck:
  assumes "gate_reaches (start_world n cooldown now) w"
  shows "(\<exists>w'. gate_reaches w w' \<and> (\<forall>p \<in> set (wd_callers w'). finished p)) \<and>
    (\<forall>w'. gate_step w w' \<longrightarrow> wd_callers w' \<noteq> wd_callers w \<longrightarrow> moves_left w' < moves_left w) \<and>
    moves_left (start_world n cooldown now) = 4 * n"
  using everyone_finishes [OF gate_reaches_inv [OF assms start_world_inv]] gate_step_moves
  by (auto simp: moves_left_def start_world_def sum_list_replicate)

theorem no_caller_is_stuck_witness:
  "\<exists>w'. gate_reaches (start_world 3 5 7) w' \<and> (\<forall>p \<in> set (wd_callers w'). finished p)"
  using no_caller_is_stuck [of 3 5 7 "start_world 3 5 7"] by (auto simp: gate_reaches_def)

text \<open>C25: a comparison that succeeds had exactly one mode; it reports for every selector, in order, the summaries of the two snapshots and a change in which before plus delta is after for goroutines, roots, every metric, every bucket of the size distribution and every root category and function; the pair, reported when two selectors were given, holds the regions of both and their differences.\<close>

theorem offline_diff_accounts:
  assumes "offline_diff marshal before after opts c = Inr (r, c')"
  shows "diff_mode opts = None \<and>
    list_all2 (group_of before after) (diff_selectors before after opts) (dr_groups r) \<and>
    (case dr_pair r of None \<Rightarrow> df_a opts = [] | Some pc \<Rightarrow> df_a opts \<noteq> [] \<and> pair_of before after opts pc)"
  using offline_diff_Inr [OF assms] by blast

theorem offline_diff_accounts_witness:
  "\<exists>r c. offline_diff tiny_marshal tiny_before tiny_after
      \<lparr>df_by = ''job'', df_labels = [], df_a = [], df_b = []\<rparr> Background = Inr (r, c) \<and>
    list_all2 (group_of tiny_before tiny_after) [job_map ''a'', job_map ''b''] (dr_groups r)"
proof -
  let ?opts = "\<lparr>df_by = ''job'', df_labels = [], df_a = [], df_b = []\<rparr>"
  have "map_sum id (\<lambda>(r, c). length (dr_groups r)) (offline_diff tiny_marshal tiny_before tiny_after ?opts Background) = Inr 2"
    by code_simp
  then obtain r c where run: "offline_diff tiny_marshal tiny_before tiny_after ?opts Background = Inr (r, c)"
    by (rule run_witness) auto
  have "diff_selectors tiny_before tiny_after ?opts = [job_map ''a'', job_map ''b'']" by code_simp
  with offline_diff_accounts [OF run] run show ?thesis by auto
qed

text \<open>C26: the bubbles partition the eligible goroutines that have labels: a bubble counts the goroutines with its label map and no bubble is empty, every such goroutine has its bubble, two bubbles have different label maps, and the counts add up; the JSON encoder must give different label maps different texts.\<close>

theorem bubbles_partition_goroutines:
  assumes "list_bubbles_from_decoded marshal (Some snap) result diag opts = Inr bs"
    and "separates marshal (labels_at (lr_labels_by_gid result) ` g_id ` set (hs_goroutines snap))"
  shows "(\<forall>b \<in> set bs. bu_count b > 0 \<and> bu_count b =
      int (length (filter (\<lambda>g. map_of (labels_at (lr_labels_by_gid result) (g_id g)) = map_of (bu_labels b))
        (listed_goroutines opts (lr_labels_by_gid result) (hs_goroutines snap))))) \<and>
    (\<forall>g \<in> set (listed_goroutines opts (lr_labels_by_gid result) (hs_goroutines snap)).
      \<exists>b \<in> set bs. map_of (bu_labels b) = map_of (labels_at (lr_labels_by_gid result) (g_id g))) \<and>
    distinct (map (\<lambda>b. map_of (bu_labels b)) bs) \<and>
    sum_list (map bu_count bs) = int (length (listed_goroutines opts (lr_labels_by_gid result) (hs_goroutines snap)))"
  using bubbles_partition [OF assms] by blast

theorem bubbles_partition_goroutines_witness:
  "\<exists>bs. list_bubbles_from_decoded tiny_marshal (Some bubble_snapshot) bubble_labels tiny_diag tiny_options = Inr bs \<and>
    length bs = 2 \<and> sum_list (map bu_count bs) = 3"
proof -
  let ?run = "list_bubbles_from_decoded tiny_marshal (Some bubble_snapshot) bubble_labels tiny_diag tiny_options"
  have "map_sum id length ?run = Inr 2" by code_simp
  then obtain bs where run: "?run = Inr bs" "length bs = 2" by (cases ?run) auto
  have "separates tiny_marshal (labels_at (lr_labels_by_gid bubble_labels) ` g_id ` set (hs_goroutines bubble_snapshot))"
    by (auto simp: separates_def bubble_snapshot_def bubble_labels_def labels_at_def tiny_marshal_def
        bubble_goroutine_def fun_eq_iff empty_result_def)
  note parts = bubbles_partition_goroutines [OF run(1) this]
  have "length (listed_goroutines tiny_options (lr_labels_by_gid bubble_labels) (hs_goroutines bubble_snapshot)) = 3"
    by code_simp
  with run parts show ?thesis by auto
qed



text \<open>C28: in a path profile the sample columns sum to the exact numbers of objects and bytes that the selection reaches, that only it reaches, and that other roots reach too: abbreviating paths drops nothing.\<close>

theorem path_profiles_keep_the_totals:
  assumes "export_paths check quote s req max_depth c = Inr (p, c')"
    and "length (gr_objects (session_graph s)) \<le> 2 ^ 32"
  shows "let g = session_graph s; R = selection_reach s req;
      X = outside_reach s (gor_id ` set (session_matching s req)) in
    map (\<lambda>k. column_sum k (pf_samples p)) [0, 1, 2, 3, 4, 5] =
      [card R, set_bytes g R, card (R - X), set_bytes g (R - X), card (R \<inter> X), set_bytes g (R \<inter> X)] \<and>
    length (pf_samples p) = card R \<and> check p = None"
proof -
  note v = export_paths_Inr [OF assms]
  have "length (map sp_values (pf_samples p)) = length (sorted_list_of_set (selection_reach s req))"
    unfolding v(1) by simp
  then show ?thesis using column_sums [OF v(1)] v(2) by (simp add: Let_def)
qed

theorem path_profiles_keep_the_totals_witness:
  "\<exists>p c'. export_paths (\<lambda>p. None) (\<lambda>x. x) tiny_session (job ''a'') 2 Background = Inr (p, c') \<and>
     length (pf_samples p) = 2 \<and>
     column_sum 1 (pf_samples p) = set_bytes (session_graph tiny_session) (selection_reach tiny_session (job ''a''))"
proof -
  have "map_sum id (\<lambda>(p, c). length (pf_samples p))
      (export_paths (\<lambda>p. None) (\<lambda>x. x) tiny_session (job ''a'') 2 Background) = Inr 2"
    by code_simp
  then obtain p c' where p: "export_paths (\<lambda>p. None) (\<lambda>x. x) tiny_session (job ''a'') 2 Background = Inr (p, c')"
    and v: "length (pf_samples p) = 2"
    by (rule run_witness) simp
  have "length (gr_objects (session_graph tiny_session)) = 2" by code_simp
  then have "length (gr_objects (session_graph tiny_session)) \<le> 2 ^ 32" by simp
  from p v path_profiles_keep_the_totals [OF p this] show ?thesis by (simp add: Let_def)
qed

text \<open>C29: the predecessor forest visits exactly the objects that the roots reach, and the segments rendered for an object are those of a shortest reference path from a root to it: whole when it fits, else its first and last objects and the number left out.\<close>

theorem forest_paths_are_shortest:
  assumes "build_export_forest g roots (max_depth div 2) c = Inr (fs, c')" and "max_depth \<noteq> 1"
  shows "(visited fs i \<longleftrightarrow> i \<in> reachable_from (Some g) roots) \<and>
    (visited fs i \<longrightarrow> (\<exists>xs. shortest_from g roots i xs \<and>
      (\<forall>c1 r c2. export_path_segments fs i max_depth c1 = Inr (r, c2) \<longrightarrow> r = abbreviated max_depth xs)))"
  using build_export_forest_Inr [OF assms(1)] export_path_segments_Inr [OF _ _ _ assms(2)] by blast

theorem forest_paths_are_shortest_witness:
  "\<exists>fs c'. build_export_forest tiny_graph [root_at 0] (2 div 2) Background = Inr (fs, c') \<and> visited fs 1 \<and>
     (\<exists>xs. shortest_from tiny_graph [root_at 0] 1 xs)"
proof -
  have "map_sum id (\<lambda>(fs, c). visited fs 1) (build_export_forest tiny_graph [root_at 0] (2 div 2) Background) = Inr True"
    by code_simp
  then obtain fs c' where fs: "build_export_forest tiny_graph [root_at 0] (2 div 2) Background = Inr (fs, c')"
    and v: "visited fs 1"
    by (rule run_witness) simp
  from fs v forest_paths_are_shortest [OF fs, of 1] show ?thesis by auto
qed

text \<open>C30: the explanation of an address is about the object that contains it: the selections reach it exactly when it says so, it counts all the sources (selections, global roots, other goroutines, label groups) that reach the object, it gives for the first of them a shortest reference path cut at the step limit, or the search limit, and it says when sources were left out.\<close>

theorem explanations_name_every_source:
  assumes "explain s address selectors opts0 c = Inr (ex, c')"
  shows "\<exists>opts i ins c1 c2. normalized opts0 = Inr opts \<and>
    find_object_containing (Some (session_graph s)) address = Some i \<and> inspect s (hd selectors) c1 = Inr (ins, c2) \<and>
    (let A = reaching_sources s i selectors ins (eo_by opts) in
      map sx_reachable (ex_selections ex) =
        map (\<lambda>req. i \<in> reachable_from (Some (session_graph s)) (pv_roots (selected_source s req))) selectors \<and>
      ex_sources ex = int (length A) \<and>
      list_all2 (report_ok (session_graph s) i opts) (take (nat (eo_max_paths opts)) A) (ex_paths ex) \<and>
      (ex_paths_truncated ex \<longleftrightarrow> int (length A) > eo_max_paths opts))"
proof -
  obtain opts i ins c1 c2 where opts: "normalized opts0 = Inr opts" and "selectors \<noteq> []"
    and i: "find_object_containing (Some (session_graph s)) address = Some i"
    and ins: "inspect s (hd selectors) c1 = Inr (ins, c2)"
    and run: "explain_object s i selectors ins opts c2 = Inr (ex, c')"
    by (rule explain_Inr [OF assms])
  note lim = normalized_Inr [OF opts]
  have "0 \<le> eo_max_paths opts" "0 \<le> eo_max_steps opts" using lim by simp_all
  note ex = explain_object_Inr [OF ins run this]
  show ?thesis unfolding Let_def
    by (intro exI conjI, rule opts, rule i, rule ins, rule ex(1) [unfolded source_reaches_def],
      rule ex(2), rule ex(3), rule ex(4))
qed

theorem explanations_name_every_source_witness:
  "\<exists>ex c' opts i ins c1 c2. explain tiny_session 36 [job ''a'', job ''b''] tiny_explain Background = Inr (ex, c') \<and>
     normalized tiny_explain = Inr opts \<and>
     find_object_containing (Some (session_graph tiny_session)) 36 = Some i \<and>
     inspect tiny_session (job ''a'') c1 = Inr (ins, c2) \<and>
     ex_sources ex = int (length (reaching_sources tiny_session i [job ''a'', job ''b''] ins (eo_by opts)))"
proof -
  have "map_sum id (\<lambda>(ex, c). ex_sources ex)
      (explain tiny_session 36 [job ''a'', job ''b''] tiny_explain Background) = Inr 5"
    by code_simp
  then obtain ex c' where ex: "explain tiny_session 36 [job ''a'', job ''b''] tiny_explain Background = Inr (ex, c')"
    by (rule run_witness)
  from explanations_name_every_source [OF ex] ex show ?thesis unfolding Let_def list.sel by blast
qed

text \<open>C31: \<open>ExplainTop\<close> lists the largest shared and the largest exclusive objects of the selection in order and says when it left some out; the objects it explains are distinct, are listed, respect the limit, and are all of the listed ones exactly when it does not report a truncation.\<close>

theorem representatives_come_from_the_rankings:
  assumes "explain_top s req most limit opts c = Inr (ag, c')"
  shows "let R = selection_reach s req; X = outside_reach s (gor_id ` set (session_matching s req));
      ranking = (\<lambda>part. limit_list most (sort_key (size_order (session_graph s)) (sorted_list_of_set part)));
      explained = map (\<lambda>e. info_id (ex_object e)) (ag_explanations ag);
      listed = info_id ` (set (ox_objects (ag_objects ag)) \<union> set (ag_shared ag) \<union> set (ag_exclusive ag)) in
    map info_id (ag_shared ag) = ranking (R \<inter> X) \<and> map info_id (ag_exclusive ag) = ranking (R - X) \<and>
    (ag_shared_truncated ag \<longleftrightarrow> length (ag_shared ag) < card (R \<inter> X)) \<and>
    (ag_exclusive_truncated ag \<longleftrightarrow> length (ag_exclusive ag) < card (R - X)) \<and>
    distinct explained \<and> set explained \<subseteq> listed \<and> int (length explained) \<le> (if limit = 0 then 3 else limit) \<and>
    (set explained = listed \<longleftrightarrow> \<not> ag_representatives_truncated ag)"
  unfolding Let_def using explain_top_Inr [OF assms] by blast

theorem representatives_come_from_the_rankings_witness:
  "\<exists>ag c'. explain_top tiny_session (job ''a'') 5 0 tiny_explain Background = Inr (ag, c') \<and>
     map (\<lambda>e. info_id (ex_object e)) (ag_explanations ag) = [0, 1] \<and>
     map info_id (ag_shared ag) = limit_list 5 (sort_key (size_order (session_graph tiny_session)) (sorted_list_of_set
       (selection_reach tiny_session (job ''a'') \<inter>
        outside_reach tiny_session (gor_id ` set (session_matching tiny_session (job ''a''))))))"
proof -
  have "map_sum id (\<lambda>(ag, c). map (\<lambda>e. info_id (ex_object e)) (ag_explanations ag))
      (explain_top tiny_session (job ''a'') 5 0 tiny_explain Background) = Inr [0, 1]"
    by code_simp
  then obtain ag c' where ag: "explain_top tiny_session (job ''a'') 5 0 tiny_explain Background = Inr (ag, c')"
    and v: "map (\<lambda>e. info_id (ex_object e)) (ag_explanations ag) = [0, 1]"
    by (rule run_witness) simp
  from ag v representatives_come_from_the_rankings [OF ag] show ?thesis by (simp add: Let_def)
qed

text \<open>C32: \<open>Objects\<close> lists the first objects of the selection in the order of the ranking, says when it left some out, classifies each as shared exactly when an unselected root reaches it, and counts the label values whose goroutines reach it.\<close>

theorem listed_objects_are_the_largest:
  assumes "list_objects s req opts c = Inr (res, c')"
  shows "let R = selection_reach s req; X = outside_reach s (gor_id ` set (session_matching s req));
      ids = limit_list (oo_limit opts) (sort_key (rank_order (session_graph s) (oo_sort opts)) (sorted_list_of_set R)) in
    measured (session_graph s) R (ox_reachable res) \<and>
    map info_id (ox_objects res) = ids \<and> (ox_truncated res \<longleftrightarrow> length ids < card R) \<and>
    (\<forall>ob \<in> set (ox_objects res). oi_classification ob = (if info_id ob \<in> X then ''shared'' else ''exclusive'') \<and>
      (oo_by opts = [] \<or> oi_group_count ob = int (length (groups_of_object s (oo_by opts) (info_id ob)))))"
  unfolding Let_def using list_objects_Inr [OF assms] by blast

theorem listed_objects_are_the_largest_witness:
  "\<exists>res c'. list_objects tiny_session (job ''a'')
       \<lparr>oo_sort = [], oo_limit = 1, oo_by = ''job'', oo_group_limit = 0\<rparr> Background = Inr (res, c') \<and>
     length (ox_objects res) = 1 \<and> ox_truncated res \<and>
     measured (session_graph tiny_session) (selection_reach tiny_session (job ''a'')) (ox_reachable res)"
proof -
  have "map_sum id (\<lambda>(res, c). (length (ox_objects res), ox_truncated res)) (list_objects tiny_session (job ''a'')
       \<lparr>oo_sort = [], oo_limit = 1, oo_by = ''job'', oo_group_limit = 0\<rparr> Background) = Inr (1, True)"
    by code_simp
  then obtain res c' where r: "list_objects tiny_session (job ''a'')
       \<lparr>oo_sort = [], oo_limit = 1, oo_by = ''job'', oo_group_limit = 0\<rparr> Background = Inr (res, c')"
    and v: "length (ox_objects res) = 1 \<and> ox_truncated res"
    by (rule run_witness) simp
  from r v listed_objects_are_the_largest [OF r] show ?thesis by (simp add: Let_def)
qed

text \<open>C33: when \<open>AnalyzeDump\<close> answers, the answer is that of \<open>ComputeFromAnalysis\<close> on the graph of the parsed dump with the recovered labels, and no eligible goroutine had its label decoding fail.\<close>

theorem answers_are_authoritative:
  assumes "analyze_dump src default_recover extra ws req opts c = Inr (resp, c')"
  shows "\<exists>snap v res a c1 c2 c3.
    parse_lazy_ctx src opts c1 = Inr ((snap, v), c2) \<and>
    default_recover (Some snap) (Some (new_memory_from_reader (Some (resolver_read (Some v))))) extra = Inr res \<and>
    build_context c3 (Some (clear_contents snap))
      \<lparr>bo_strict = False, bo_keep_provenance = mo_keep_provenance opts\<rparr> = Inr a \<and>
    (\<forall>gr \<in> set (lr_goroutines res). \<forall>g \<in> set (an_goroutines a).
       gor_id g = gl_gid gr \<longrightarrow> eligible_goroutine opts g \<longrightarrow> \<not> failed_status (gl_status gr)) \<and>
    (\<exists>diag. compute_from_analysis req (Some a) (lr_labels_by_gid res) diag opts = Inr resp)"
  by (rule analyze_dump_authoritative [OF assms])

theorem answers_are_authoritative_witness:
  "\<exists>resp c' a labels diag.
     analyze_dump known_source default_recover None [] (job ''a'') tiny_options Background = Inr (resp, c') \<and>
     compute_from_analysis (job ''a'') (Some a) labels diag tiny_options = Inr resp"
proof -
  have "map_sum id (\<lambda>(resp, c). rp_matched resp)
      (analyze_dump known_source default_recover None [] (job ''a'') tiny_options Background) = Inr 0"
    by code_simp
  then obtain resp c' where r:
    "analyze_dump known_source default_recover None [] (job ''a'') tiny_options Background = Inr (resp, c')"
    by (rule run_witness)
  from answers_are_authoritative [OF r] r show ?thesis by blast
qed

text \<open>C34: the result of decoding is well formed whatever the dump holds: one record per goroutine, in order; every counter is the number of records of its status and the counters add up to the goroutines; the label map has each goroutine and, within one goroutine, each key at most once.\<close>

theorem label_results_are_well_formed:
  "label_stats_ok (decode_all (Some snap) l opts) \<and>
   ls_total (lr_stats (decode_all (Some snap) l opts)) = int (length (hs_goroutines snap)) \<and>
   map gl_gid (lr_goroutines (decode_all (Some snap) l opts)) = map g_id (hs_goroutines snap) \<and>
   labels_distinct (lr_labels_by_gid (decode_all (Some snap) l opts))"
  using decode_all_ok decode_all_distinct by blast



text \<open>C36: for an executable that was loaded at an offset in the lower half of the address space, a non-empty read through the load slide succeeds exactly when it lies inside one of the ranges that the reader lists, so the readers of string data never list what they cannot serve and never serve anything else.\<close>

theorem image_readers_serve_what_they_list:
  assumes "image_backed i bytes" "0 < n" "a \<noteq> 0"
  shows "(\<exists>bs. image_read (Some i) a n = Some bs) \<longleftrightarrow> (\<exists>m \<in> set (image_ranges (Some i)). in_range a n m)"
  using assms by (rule image_serves_listed)

theorem image_readers_serve_what_they_list_witness:
  "image_read (Some tiny_image) 38 3 = Some [67, 68, 69] \<and>
    (\<exists>m \<in> set (image_ranges (Some tiny_image)). in_range 38 3 m)"
proof -
  have read: "image_read (Some tiny_image) 38 3 = Some [67, 68, 69]" by code_simp
  have backed: "image_backed tiny_image tiny_mem"
    by (simp add: image_backed_def tiny_image_def part_loaded_def tiny_mem_def)
  from image_readers_serve_what_they_list [OF backed, of 3 38] read show ?thesis by auto
qed

text \<open>C37: a dump whose parse consumes every byte fails to parse when it is cut anywhere, whatever error the cut stream ends with.\<close>

theorem truncated_dump_fails:
  assumes "parse_body (new_parser src e opts tracker) = Inr ((), q)"
    and "rd_input (pa_r q) = []" and "n < length src"
  shows "\<exists>err. parse_body (new_parser (take n src) en opts tracker) = Inl err"
  by (rule parse_truncated [OF assms])

theorem truncated_dump_fails_witness:
  "\<exists>err. parse_body (new_parser (take 30 tiny_dump) EOF lenient None) = Inl err"
proof -
  have rest: "map_sum id (\<lambda>(u, q). rd_input (pa_r q)) (parse_body (new_parser tiny_dump EOF lenient None)) = Inr []"
    by code_simp
  then obtain q where "parse_body (new_parser tiny_dump EOF lenient None) = Inr ((), q)"
    "rd_input (pa_r q) = []"
    by (cases "parse_body (new_parser tiny_dump EOF lenient None)") auto
  moreover have "30 < length tiny_dump" by code_simp
  ultimately show ?thesis by (rule truncated_dump_fails)
qed

text \<open>C38: in every built analysis the raw object pointers are the pointers of the dump and split into zero, resolved and unresolved ones, the edges count the children, and the goroutines are those of the dump in order.\<close>

theorem build_counters_add_up:
  assumes "build_context c (Some snap) opts = Inr an" and "an_graph an = Some g"
  shows "gs_raw_object_pointers (an_stats an) = int (\<Sum>ob\<leftarrow>hs_objects snap. length (ho_pointer_addrs ob)) \<and>
    gs_raw_object_pointers (an_stats an) = gs_zero_object_pointers (an_stats an) +
      gs_resolved_object_pointers (an_stats an) + gs_unresolved_object_pointers (an_stats an) \<and>
    gs_edges (an_stats an) = (\<Sum>ob\<leftarrow>gr_objects g. int (length (ob_children ob))) \<and>
    map gor_id (an_goroutines an) = map g_id (hs_goroutines snap)"
  using build_counts [OF assms] by blast

theorem build_counters_add_up_witness:
  "\<exists>an. build_context Background (Some tiny_snapshot) strict_build = Inr an \<and>
     gs_raw_object_pointers (an_stats an) = 3"
proof -
  obtain an g where run: "build_context Background (Some tiny_snapshot) strict_build = Inr an" "an_graph an = Some g"
    by (rule tiny_build)
  with build_counters_add_up [OF run] show ?thesis by (simp add: tiny_snapshot_def tiny_object_def)
qed

text \<open>C39: when \<open>FindPath\<close> ends without a witness, an error or its visit limit, the target is not reachable: a reachable target is always found.\<close>

theorem no_path_means_unreachable:
  assumes "find_path c (Some g) roots target mv = (w, None)"
    and "\<not> wi_found w" and "\<not> wi_search_limited w"
  shows "target \<notin> reachable_from (Some g) roots"
  by (rule find_path_absent [OF assms])

theorem no_path_means_unreachable_witness:
  "0 \<notin> reachable_from (Some tiny_graph) [root_at 1]"
proof -
  have "find_path Background (Some tiny_graph) [root_at 1] 0 0 = (no_witness, None)" by code_simp
  then show ?thesis by (rule no_path_means_unreachable) (simp_all add: no_witness_def)
qed

text \<open>C40: the whole build of a dump with \<open>2^32\<close> objects: the children of the last object are its resolved pointers to objects that some earlier object refers to, each once and in order; its edges to all other objects are lost, because its epoch \<open>uint32(i) + 1\<close> wraps to zero, the stamp of an object that nothing has referred to.\<close>

theorem last_object_edge_dropped:
  assumes "build_context c (Some snap) opts = Inr an" "an_graph an = Some g"
    and "hs_objects snap = srcs @ [src]" "length srcs = 2 ^ 32 - 1"
  shows "let targets = \<lambda>ob. List.map_filter (find_object_containing (Some g)) (ho_pointer_addrs ob) in
    children g (of_nat (length srcs)) = dedup [] (filter (\<lambda>t. \<exists>ob \<in> set srcs. t \<in> set (targets ob)) (targets src))"
  unfolding Let_def by (rule build_last [OF assms])

theorem last_object_edge_dropped_witness:
  "\<exists>an g. build_context Background (Some full_heap) lenient_build_options = Inr an \<and> an_graph an = Some g \<and>
    find_object_containing (Some g) 16 = Some 0 \<and> 16 \<in> set (ho_pointer_addrs (last (hs_objects full_heap))) \<and>
    children g (of_nat all_but_one) = []"
proof -
  obtain an g where built: "build_context Background (Some full_heap) lenient_build_options = Inr an" "an_graph an = Some g"
    by (rule full_heap_builds)
  have objs: "hs_objects full_heap = replicate all_but_one (tiny_object 16 []) @ [tiny_object 32 [16]]"
    by (simp add: full_heap_def)
  have len: "length (replicate all_but_one (tiny_object 16 [])) = 2 ^ 32 - 1"
    by (simp only: length_replicate all_but_one_def)
  have "find_object_containing (Some g) 16 = Some 0" by (rule full_heap_first [OF built])
  moreover have "children g (of_nat all_but_one) = []"
    using last_object_edge_dropped [OF built objs len] by (auto simp: tiny_object_def filter_empty_conv List.map_filter_simps)
  ultimately show ?thesis using built objs by (auto simp: tiny_object_def)
qed

section \<open>Further facts\<close>

text \<open>A finalized resolver over disjoint records serves a non-empty read exactly when a record covers it, and then the bytes of that part of the file.\<close>

theorem resolver_read_exact:
  assumes "cv_src v = Some (bytes_read_at file)" and "cv_by_addr v = Map.empty"
    and "\<And>r. r \<in> set (cv_refs v) \<Longrightarrow> ref_within r file"
    and "refs_disjoint (cv_refs v)" and "0 < n"
  shows "resolver_read (Some (resolver_finalize v)) a n = Some bs \<longleftrightarrow>
    a \<noteq> 0 \<and> (\<exists>r \<in> set (cv_refs v). ref_covers r a n \<and> bs = ref_slice file r a n)"
  by (rule resolver_read_spec [OF assms])

theorem resolver_read_exact_witness:
  "resolver_read (Some (resolver_finalize \<lparr>cv_src = Some (bytes_read_at [7, 8, 9]), cv_by_addr = Map.empty,
     cv_refs = [\<lparr>cr_addr = 32, cr_file_off = 1, cr_length = 2\<rparr>]\<rparr>)) 33 1 = Some [9]"
  by (subst resolver_read_exact [of _ "[7, 8, 9]"])
    (auto simp: ref_within_def refs_disjoint_def ref_covers_def ref_slice_def ref_bytes_def)

text \<open>\<open>Uvarint\<close> reads back each 64-bit value from its encoding, whatever follows it, and consumes exactly its bytes.\<close>

theorem uvarint_roundtrip:
  assumes "quiet c"
  shows "uvarint (mk_rd c e ms mm off (put_uvarint x @ rest)) =
    Inr (x, mk_rd c e ms mm (off + of_nat (length (put_uvarint x))) rest)"
  by (rule uvarint.decodes [OF assms]) simp

theorem uvarint_roundtrip_witness:
  "uvarint (mk_rd None EOF 0 0 0 (put_uvarint 300 @ [1])) =
     Inr (300, mk_rd None EOF 0 0 (0 + of_nat (length (put_uvarint 300))) [1])"
  by (rule uvarint_roundtrip) (simp add: quiet_def)

text \<open>When \<open>Uvarint\<close> succeeds it has consumed at most ten bytes in base-128 form and its result is their exact value: no overflow is lost.\<close>

theorem uvarint_reads_value:
  assumes "uvarint r = Inr (v, s)"
  shows "\<exists>bs. rd_input r = bs @ rd_input s \<and> length bs \<le> 10 \<and> uvarint_form bs \<and>
    unat v = uvarint_value bs"
  by (rule uvarint_sound [OF assms])

theorem uvarint_reads_value_witness:
  "\<exists>bs. [172, 2, 9] = bs @ [9 :: byte] \<and> length bs \<le> 10 \<and> uvarint_form bs \<and> unat (300 :: u64) = uvarint_value bs"
proof -
  have "uvarint (mk_rd None EOF 0 0 0 [172, 2, 9]) = Inr (300, mk_rd None EOF 0 0 2 [9])"
    by code_simp
  from uvarint_reads_value [OF this] show ?thesis by simp
qed

text \<open>\<open>FieldList\<close> reads back every field list written with its terminator, as long as no field has the terminator as its kind.\<close>

theorem field_list_roundtrip:
  assumes "quiet c" and "\<forall>f \<in> set fs. fld_kind f \<noteq> FieldKindEol"
  shows "field_list (mk_rd c e ms mm off (put_fields fs @ rest)) =
    Inr (fs, mk_rd c e ms mm (off + of_nat (length (put_fields fs))) rest)"
  by (rule field_list.decodes [OF assms])

theorem field_list_roundtrip_witness:
  "field_list (mk_rd None EOF 0 0 0 (put_fields [\<lparr>fld_kind = 1, fld_offset = 8\<rparr>] @ [])) =
     Inr ([\<lparr>fld_kind = 1, fld_offset = 8\<rparr>],
       mk_rd None EOF 0 0 (0 + of_nat (length (put_fields [\<lparr>fld_kind = 1, fld_offset = 8\<rparr>]))) [])"
  by (rule field_list_roundtrip) (simp_all add: quiet_def FieldKindEol_def)

text \<open>A length-prefixed payload that is read is no longer than the configured limit and the platform bound.\<close>

theorem payload_stays_in_limit:
  assumes "bytes_with_file_offset r = Inr ((bs, off), s)"
  shows "length bs < 2 ^ 63 \<and> (rd_max_mem r = 0 \<or> length bs \<le> unat (rd_max_mem r))"
  using bytes_with_file_offset_length [OF assms] by blast

theorem payload_stays_in_limit_witness:
  "length [5, 6 :: byte] < 2 ^ 63 \<and> (rd_max_mem (mk_rd None EOF 0 4 0 [2, 5, 6]) = 0 \<or>
     length [5, 6 :: byte] \<le> unat (rd_max_mem (mk_rd None EOF 0 4 0 [2, 5, 6])))"
proof -
  have "bytes_with_file_offset (mk_rd None EOF 0 4 0 [2, 5, 6]) = Inr (([5, 6], 1), mk_rd None EOF 0 4 3 [])"
    by code_simp
  then show ?thesis by (rule payload_stays_in_limit)
qed

text \<open>The targets that \<open>extractPointers\<close> records are exactly the non-zero pointer words of the fields inside the contents, in field order, and the slots are their addresses.\<close>

theorem extracted_pointers:
  assumes "ptr_size = 4 \<or> ptr_size = 8" and "unat base + length contents < 2 ^ 64"
    and "x = extract_pointers contents flds ptr_size big base ctx ws"
  shows "ex_targets x = map snd (slot_words contents flds ptr_size big) \<and>
    ex_slots x = (if ws then map (\<lambda>p. base + of_nat (fst p)) (slot_words contents flds ptr_size big) else [])"
  using extract_pointers_words [OF assms refl] by blast

theorem extracted_pointers_witness:
  "ex_targets (extract_pointers [1, 0, 0, 2] [\<lparr>fld_kind = 1, fld_offset = 0\<rparr>] 4 False 16 (Fmt [] []) True) =
     map snd (slot_words [1, 0, 0, 2] [\<lparr>fld_kind = 1, fld_offset = 0\<rparr>] 4 False)"
  by (rule conjunct1 [OF extracted_pointers [OF _ _ refl]]) simp_all

text \<open>An address that no object starts at is resolved to the identifier of the range that holds it, whenever the ranges are sorted and disjoint, and to nothing otherwise.\<close>

theorem range_lookup_exact:
  assumes "ranges_disjoint (gr_ranges gr)" and "ptr \<noteq> 0" and "gr_by_addr gr ptr = None"
  shows "find_object_containing (Some gr) ptr = Some i \<longleftrightarrow>
    (\<exists>r \<in> set (gr_ranges gr). or_start r \<le> ptr \<and> ptr < or_end r \<and> or_id r = i)"
  by (rule range_search_spec [OF assms])

theorem range_lookup_exact_witness:
  "find_object_containing (Some tiny_graph) 35 = Some 1"
proof -
  have "ranges_disjoint (gr_ranges tiny_graph)"
    by (auto simp: ranges_disjoint_def tiny_graph_def nth_Cons split: nat.splits)
  moreover have "gr_by_addr tiny_graph 35 = None" by (simp add: tiny_graph_def)
  ultimately have "find_object_containing (Some tiny_graph) 35 = Some 1 \<longleftrightarrow>
      (\<exists>r \<in> set (gr_ranges tiny_graph). or_start r \<le> 35 \<and> 35 < or_end r \<and> or_id r = 1)"
    by (intro range_lookup_exact) simp_all
  then show ?thesis by (simp add: tiny_graph_def)
qed

text \<open>A non-empty ELF read is served from the first segment whose file-backed part covers the range, from the file offset behind the address, and fails when no segment covers it.\<close>

theorem elf_read_exact:
  assumes "er_file r = Some f" and "0 < n" and "a \<noteq> 0" and "unat a + unat n < 2 ^ 64"
  shows "elf_read_at_addr (Some r) a n =
    (case find (\<lambda>s. elf_covers s a n) (er_segments r) of
       None \<Rightarrow> None
     | Some s \<Rightarrow>
         if es_off s + (a - es_vaddr s) > max_int64 then None
         else (case f (es_off s + (a - es_vaddr s)) n of
                 (buf, None) \<Rightarrow> Some buf | (_, Some _) \<Rightarrow> None))"
proof -
  have add: "AddUint64 a n = (a + n, True)" using assms(4) by (simp add: AddUint64_value)
  have "n \<noteq> 0" using assms(2) by auto
  then show ?thesis
    using assms(1,3) add
    by (simp add: elf_read_at_addr_def guarded_def elf_lookup_covers [OF assms(4)])
qed

theorem elf_read_exact_witness:
  "elf_read_at_addr (Some \<lparr>er_file = Some (bytes_read_at [1, 2, 3, 4]), er_path = ''a'',
     er_segments = [\<lparr>es_vaddr = 64, es_memsz = 8, es_filesz = 3, es_off = 1, es_flags = 4\<rparr>]\<rparr>) 65 2 = Some [3, 4]"
  by (subst elf_read_exact) (auto simp: elf_covers_def bytes_read_at_def)

text \<open>Whatever \<open>ProcessReader.ReadAtAddr\<close> serves lies inside a single mapping that the process can read and cannot write.\<close>

theorem process_reads_are_read_only:
  assumes "process_read_at_addr (Some p) a n = Some bs" and "0 < n"
  shows "\<exists>m \<in> set (eligible_string_ranges (Some p)). m_read m \<and> \<not> m_write m \<and>
    unat (m_start m) \<le> unat a \<and> unat a + unat n \<le> unat (m_end m)"
  using process_read_only [OF assms] by blast

theorem process_reads_are_read_only_witness:
  "let p = \<lparr>pr_maps = [\<lparr>m_start = 2, m_end = 6, m_read = True, m_write = False, m_exec = False, m_path = []\<rparr>],
      pr_mem = Some (bytes_read_at [1, 2, 3, 4, 5, 6, 7])\<rparr>
   in process_read_at_addr (Some p) 3 2 = Some [4, 5] \<and>
     (\<exists>m \<in> set (eligible_string_ranges (Some p)). m_read m \<and> \<not> m_write m)"
proof -
  let ?p = "\<lparr>pr_maps = [\<lparr>m_start = 2, m_end = 6, m_read = True, m_write = False, m_exec = False, m_path = []\<rparr>],
      pr_mem = Some (bytes_read_at [1, 2, 3, 4, 5, 6, 7])\<rparr>"
  have run: "process_read_at_addr (Some ?p) 3 2 = Some [4, 5]" by code_simp
  from process_reads_are_read_only [OF this] have
    "\<exists>m \<in> set (eligible_string_ranges (Some ?p)). m_read m \<and> \<not> m_write m" by auto
  with run show ?thesis unfolding Let_def by blast
qed

text \<open>A mapping printed in the form of \<open>/proc/pid/maps\<close> is read back from its line.\<close>

theorem maps_line_roundtrip:
  assumes "m_start m < m_end m" and "trim_space (m_path m) = m_path m"
  shows "parse_maps_line (print_mapping m) = Some m"
  by (rule parse_print_mapping [OF assms])

theorem maps_line_roundtrip_witness:
  "let m = \<lparr>m_start = 4096, m_end = 8192, m_read = True, m_write = False, m_exec = True, m_path = []\<rparr>
   in parse_maps_line (print_mapping m) = Some m"
proof -
  let ?m = "\<lparr>m_start = 4096, m_end = 8192, m_read = True, m_write = False, m_exec = True, m_path = []\<rparr>"
  have "trim_space (m_path ?m) = m_path ?m"
    by (simp add: trim_space_def strip_spaces.simps strip_one_def utf8_spaces_def string_of_bytes_def)
  then show ?thesis unfolding Let_def by (intro maps_line_roundtrip) simp_all
qed

text \<open>A composite serves a non-empty read from the first of its readers that serves it, and \<open>SourceFor\<close> names that reader.\<close>

theorem composite_serves_first:
  assumes "0 < n" and "addr_reader (nr_read r)" and "nr_read r a n = Some bs"
    and "\<And>q. Some q \<in> set qs \<Longrightarrow> nr_read q a n = None"
  shows "composite_read_at_addr (qs @ Some r # rs) a n = Some bs \<and>
    composite_source_for (qs @ Some r # rs) a n = Some (nr_name r)"
  using composite_first [OF assms] by blast

theorem composite_serves_first_witness:
  "let rd = (\<lambda>bs. elf_read_at_addr (Some \<lparr>er_file = Some (bytes_read_at bs), er_path = [],
        er_segments = [\<lparr>es_vaddr = 64, es_memsz = 8, es_filesz = 3, es_off = 0, es_flags = 4\<rparr>]\<rparr>))
   in composite_source_for [Some \<lparr>nr_name = ''x'', nr_read = rd []\<rparr>,
        Some \<lparr>nr_name = ''y'', nr_read = rd [1, 2, 3]\<rparr>] 64 2 = Some ''y''"
proof -
  let ?rd = "\<lambda>bs. elf_read_at_addr (Some \<lparr>er_file = Some (bytes_read_at bs), er_path = [],
        er_segments = [\<lparr>es_vaddr = 64, es_memsz = 8, es_filesz = 3, es_off = 0, es_flags = 4\<rparr>]\<rparr>)"
  have "?rd [] 64 2 = None" "?rd [1, 2, 3] 64 2 = Some [1, 2]" by code_simp+
  then have "composite_read_at_addr ([Some \<lparr>nr_name = ''x'', nr_read = ?rd []\<rparr>] @
      Some \<lparr>nr_name = ''y'', nr_read = ?rd [1, 2, 3]\<rparr> # []) 64 2 = Some [1, 2] \<and>
     composite_source_for ([Some \<lparr>nr_name = ''x'', nr_read = ?rd []\<rparr>] @
      Some \<lparr>nr_name = ''y'', nr_read = ?rd [1, 2, 3]\<rparr> # []) 64 2 =
     Some (nr_name \<lparr>nr_name = ''y'', nr_read = ?rd [1, 2, 3]\<rparr>)"
    by (intro composite_serves_first) (simp_all add: elf_file.addr_reader_axioms)
  then show ?thesis unfolding Let_def by simp
qed

text \<open>When a strict build succeeds, \<open>FindObjectContaining\<close> resolves a non-nil pointer exactly to the parsed object that starts at it or, when none does, to the one whose range holds it.\<close>

theorem strict_lookup_exact:
  assumes "build_context c (Some snap) opts = Inr an" and "an_graph an = Some g"
    and "bo_strict opts" and "length (hs_objects snap) < 2 ^ 32" and "ptr \<noteq> 0"
  shows "find_object_containing (Some g) ptr = Some i \<longleftrightarrow>
    (\<exists>k. resolves_to (hs_objects snap) ptr k \<and> i = of_nat k)"
  by (rule build_strict_lookup [OF assms])

theorem strict_lookup_exact_witness:
  "\<exists>an g. build_context Background (Some tiny_snapshot) strict_build = Inr an \<and> an_graph an = Some g \<and>
     find_object_containing (Some g) 35 = Some 1 \<and> find_object_containing (Some g) 24 \<noteq> Some 0"
proof -
  obtain an g where run: "build_context Background (Some tiny_snapshot) strict_build = Inr an" "an_graph an = Some g"
    by (rule tiny_build)
  have "find_object_containing (Some g) p = Some i \<longleftrightarrow>
      (\<exists>k. resolves_to (hs_objects tiny_snapshot) p k \<and> i = of_nat k)" if "p \<noteq> 0" for p i
    using strict_lookup_exact [OF run _ _ that] by (simp add: strict_build_def tiny_snapshot_def)
  moreover have "resolves_to (hs_objects tiny_snapshot) 35 1"
    by (simp add: resolves_to_def tiny_snapshot_def tiny_object_def holds_def)
  moreover have "\<not> resolves_to (hs_objects tiny_snapshot) 24 k" for k
    by (auto simp: resolves_to_def tiny_snapshot_def tiny_object_def holds_def less_Suc_eq)
  ultimately have "find_object_containing (Some g) 35 = Some 1" "find_object_containing (Some g) 24 \<noteq> Some 0"
    by (fastforce, force)
  with run show ?thesis by blast
qed

text \<open>\<open>UnreachableObjects\<close> is the number of objects that neither a goroutine nor a global root reaches; its clamp at zero never acts on a built graph.\<close>

theorem unreachable_objects_counted:
  assumes "compute_reachability (Some a) = Some b" and "an_graph a = Some g"
    and "gs_objects (an_stats a) = int (length (gr_objects g))" and "length (gr_objects g) \<le> 2 ^ 32"
  shows "gs_unreachable_objects (an_stats b) =
    int (card {i. valid_id (Some g) i \<and> i \<notin> glr_reachable (an_globals b) \<and>
      (\<forall>r \<in> set (an_goroutines b). i \<notin> gor_reachable r)})"
  by (rule unreachable_count [OF assms])

theorem unreachable_objects_counted_witness:
  "\<exists>a b g. an_graph a = Some g \<and> length (gr_objects g) = 2 \<and> compute_reachability (Some a) = Some b \<and>
     gs_unreachable_objects (an_stats b) =
       int (card {i. valid_id (Some g) i \<and> i \<notin> glr_reachable (an_globals b) \<and>
         (\<forall>r \<in> set (an_goroutines b). i \<notin> gor_reachable r)})"
proof -
  obtain a g where a: "build_context Background (Some tiny_snapshot) strict_build = Inr a" "an_graph a = Some g"
    "gs_objects (an_stats a) = int (length (gr_objects g))" "length (gr_objects g) = 2"
    by (rule tiny_build)
  obtain b where b: "compute_reachability (Some a) = Some b"
    by (simp add: compute_reachability_def a(2) Let_def)
  from unreachable_objects_counted [OF b a(2,3)] a b show ?thesis by fastforce
qed

text \<open>Running \<open>ComputeReachability\<close> a second time changes nothing, on any analysis.\<close>

theorem reachability_idempotent:
  "compute_reachability (compute_reachability an) = compute_reachability an"
  by (rule compute_reachability_idem)

text \<open>Reading through the \<open>Memory\<close> of a snapshot returns a range exactly when a single object with contents holds the whole of it and the address is not nil, and then the bytes are those of that object.\<close>

theorem memory_serves_one_object:
  assumes "objects_disjoint (hs_objects s)" "contents_sized (hs_objects s)" "0 < n"
  shows "memory_read (Some (new_memory (Some s))) a n = Some bs \<longleftrightarrow>
    a \<noteq> 0 \<and> (\<exists>ob \<in> set (hs_objects s). ho_contents ob \<noteq> [] \<and> object_holds ob a n \<and> bs = object_slice ob a n)"
  by (rule memory_read_exact [OF assms])

theorem memory_serves_one_object_witness:
  "memory_read (Some (new_memory (Some full_snapshot))) 19 2 = Some [4, 5]"
proof -
  have "memory_read (Some (new_memory (Some full_snapshot))) 19 2 = Some [4, 5] \<longleftrightarrow>
    (19 :: u64) \<noteq> 0 \<and> (\<exists>ob \<in> set (hs_objects full_snapshot). ho_contents ob \<noteq> [] \<and>
      object_holds ob 19 2 \<and> [4, 5] = object_slice ob 19 2)"
    by (rule memory_serves_one_object)
      (simp_all add: full_snapshot_def objects_disjoint_def contents_sized_def)
  then show ?thesis
    by (simp add: full_snapshot_def object_holds_def object_slice_def)
qed

text \<open>The size distribution is an exact histogram: each bucket measures the objects whose size lies between its bounds, and together the buckets count every object once.\<close>

theorem size_buckets_are_a_histogram:
  assumes "distribution g s c = Inr (sizes, c')"
  shows "(\<forall>b \<in> set sizes. measured g
      {i \<in> s. sb_min b \<le> ob_size (gr_objects g ! unat i) \<and> ob_size (gr_objects g ! unat i) \<le> sb_max b} (sb_measure b)) \<and>
    sum_list (map (\<lambda>b. ms_objects (sb_measure b)) sizes) = int (card s)"
  using distribution_buckets [OF assms] distribution_total [OF assms] by blast

theorem size_buckets_are_a_histogram_witness:
  "\<exists>sizes c'. distribution tiny_graph {0, 1} Background = Inr (sizes, c') \<and>
     map (\<lambda>b. (sb_min b, sb_max b)) sizes = [(8, 15)] \<and>
     sum_list (map (\<lambda>b. ms_objects (sb_measure b)) sizes) = 2"
proof -
  have "map_sum id (\<lambda>(sizes, c). map (\<lambda>b. (sb_min b, sb_max b)) sizes) (distribution tiny_graph {0, 1} Background) =
      Inr [(8, 15)]"
    by code_simp
  then obtain sizes c' where d: "distribution tiny_graph {0, 1} Background = Inr (sizes, c')"
    and v: "map (\<lambda>b. (sb_min b, sb_max b)) sizes = [(8, 15)]"
    by (rule run_witness) simp
  from size_buckets_are_a_histogram [OF d] have "sum_list (map (\<lambda>b. ms_objects (sb_measure b)) sizes) = 2" by simp
  with d v show ?thesis by (intro exI conjI)
qed

text \<open>A caller that the cooldown refuses is told the least number of whole seconds after which the cooldown is over.\<close>

theorem retry_after_is_rounded_up:
  assumes "acquire now g = (Some (Inr e), g')" "ge_cooldown e"
  shows "g' = g \<and> ge_retry_after e \<le> retry_after_seconds e * 1000000000 \<and>
    (retry_after_seconds e - 1) * 1000000000 < ge_retry_after e"
proof -
  have "0 < ge_retry_after e" using assms
    by (auto simp: acquire_def busy_error_def cooldown_error_def split: if_splits option.splits)
  then show ?thesis using retry_after_rounds_up acquire_refused [OF assms(1)] by blast
qed

theorem retry_after_is_rounded_up_witness:
  "retry_after_seconds (cooldown_error 1500000000) = 2 \<and>
   (retry_after_seconds (cooldown_error 1500000000) - 1) * 1000000000 < ge_retry_after (cooldown_error 1500000000)"
proof
  let ?g = "\<lparr>gt_slots = 0, gt_capacity = 1, gt_next = 1500000000, gt_cooldown = 5\<rparr>"
  have "acquire 0 ?g = (Some (Inr (cooldown_error 1500000000)), ?g)"
    by (simp add: acquire_def gate_send_def gate_receive_def gate_remaining_def time_sub_def max_duration_def min_duration_def)
  from retry_after_is_rounded_up [OF this]
  show "(retry_after_seconds (cooldown_error 1500000000) - 1) * 1000000000 < ge_retry_after (cooldown_error 1500000000)"
    by (simp add: cooldown_error_def)
  show "retry_after_seconds (cooldown_error 1500000000) = 2"
    by (simp add: retry_after_seconds_def cooldown_error_def signed_divide_int_def signed_modulo_int_def)
qed

end
